(* ===== verification/Prelude.thy ===== *)
theory Prelude
  imports Main "HOL-Library.Word"
begin

text \<open>
  Shared vocabulary of the development: results and their sequencing (Rust's
  \<open>Result\<close>, \<open>?\<close> and \<open>ok_or\<close>), text as lists of Unicode scalar
  values with the standard-library operations the service uses on it, byte strings,
  parsing of unsigned integers, and the list lemmas on tables of rows that the component
  theories share.
\<close>

section \<open>Collections of facts\<close>

named_theorems result_simps \<open>sequencing of fallible steps\<close>
named_theorems row_simps \<open>queries and updates on tables of rows\<close>
named_theorems text_simps \<open>operations on text\<close>

section \<open>Results\<close>

text \<open>
  A fallible operation returns \<open>Inl e\<close> (Rust's \<open>Err e\<close>) or \<open>Inr x\<close>
  (\<open>Ok x\<close>). \<open>bindE\<close> is the \<open>?\<close> operator, \<open>okOr\<close> is
  \<open>Option::ok_or\<close>, and \<open>guardE\<close> the early return on a failed condition.
\<close>

definition bindE :: "'e + 'a \<Rightarrow> ('a \<Rightarrow> 'e + 'b) \<Rightarrow> 'e + 'b" where
  "bindE m f = (case m of Inl e \<Rightarrow> Inl e | Inr x \<Rightarrow> f x)"

definition okOr :: "'a option \<Rightarrow> 'e \<Rightarrow> 'e + 'a" where
  "okOr v e = (case v of None \<Rightarrow> Inl e | Some x \<Rightarrow> Inr x)"

definition guardE :: "bool \<Rightarrow> 'e \<Rightarrow> 'e + unit" where
  "guardE c e = (if c then Inr () else Inl e)"

definition mapErr :: "('e \<Rightarrow> 'f) \<Rightarrow> 'e + 'a \<Rightarrow> 'f + 'a" where
  "mapErr g m = (case m of Inl e \<Rightarrow> Inl (g e) | Inr x \<Rightarrow> Inr x)"

definition isOk :: "'e + 'a \<Rightarrow> bool" where
  "isOk m = (case m of Inl _ \<Rightarrow> False | Inr _ \<Rightarrow> True)"

lemma bindE_simps [simp, result_simps]:
  "bindE (Inl e) f = Inl e"
  "bindE (Inr x) f = f x"
  by (simp_all add: bindE_def)

lemma bindE_Inr_iff [result_simps]:
  "bindE m f = Inr y \<longleftrightarrow> (\<exists>x. m = Inr x \<and> f x = Inr y)"
  by (cases m) auto

lemma bindE_Inl_iff [result_simps]:
  "bindE m f = Inl e \<longleftrightarrow> m = Inl e \<or> (\<exists>x. m = Inr x \<and> f x = Inl e)"
  by (cases m) auto

lemma bindE_assoc: "bindE (bindE m f) g = bindE m (\<lambda>x. bindE (f x) g)"
  by (cases m) auto

lemma guardE_simps [simp, result_simps]:
  "guardE True e = Inr ()"
  "guardE False e = Inl e"
  by (simp_all add: guardE_def)

lemma guardE_Inr_iff [result_simps]: "guardE c e = Inr u \<longleftrightarrow> c"
  by (cases c) auto

lemma guardE_Inl_iff [result_simps]: "guardE c e = Inl e' \<longleftrightarrow> \<not> c \<and> e' = e"
  by (cases c) auto

lemma okOr_simps [simp, result_simps]:
  "okOr None e = Inl e"
  "okOr (Some x) e = Inr x"
  by (simp_all add: okOr_def)

lemma okOr_Inr_iff [result_simps]: "okOr v e = Inr x \<longleftrightarrow> v = Some x"
  by (cases v) auto

lemma okOr_Inl_iff [result_simps]: "okOr v e = Inl e' \<longleftrightarrow> v = None \<and> e' = e"
  by (cases v) auto

lemma mapErr_simps [simp, result_simps]:
  "mapErr g (Inl e) = Inl (g e)"
  "mapErr g (Inr x) = Inr x"
  by (simp_all add: mapErr_def)

lemma mapErr_Inr_iff [result_simps]: "mapErr g m = Inr x \<longleftrightarrow> m = Inr x"
  by (cases m) auto

lemma mapErr_Inl_iff [result_simps]: "mapErr g m = Inl e \<longleftrightarrow> (\<exists>e'. m = Inl e' \<and> e = g e')"
  by (cases m) auto

lemma isOk_simps [simp, result_simps]: "\<not> isOk (Inl e)" "isOk (Inr x)"
  by (simp_all add: isOk_def)

lemma isOk_iff: "isOk m \<longleftrightarrow> (\<exists>x. m = Inr x)"
  by (cases m) auto

section \<open>Text, bytes and identifiers\<close>

text \<open>
  A Rust \<open>str\<close> that may hold any Unicode text (file names, passwords, labels) is the
  list of its scalar values; \<open>lit\<close> embeds an ASCII literal. Protocol strings that
  are compared byte by byte (media types, header values, states) and byte slices are
  Isabelle strings, whose characters are bytes. Identifiers are 128-bit words, ordered as
  PostgreSQL and Rust order UUIDs; instants are microseconds.
\<close>

type_synonym ustr = "nat list"
type_synonym bytes = string
type_synonym uuid = "128 word"
type_synonym instant = int

definition lit :: "string \<Rightarrow> ustr" where
  "lit s = map of_char s"

lemma lit_inject [simp]: "lit s = lit t \<longleftrightarrow> s = t"
proof
  assume "lit s = lit t"
  moreover have "inj (of_char :: char \<Rightarrow> nat)"
    by (rule injI) simp
  ultimately show "s = t"
    unfolding lit_def by (metis inj_map_eq_map)
qed simp

lemma lit_simps [text_simps]: "lit [] = []" "lit (c # s) = of_char c # lit s"
  by (simp_all add: lit_def)

text \<open>\<open>char::len_utf8\<close> and \<open>str::len\<close>.\<close>

definition utf8_len :: "nat \<Rightarrow> nat" where
  "utf8_len c = (if c < 128 then 1 else if c < 2048 then 2 else if c < 65536 then 3 else 4)"

definition text_len :: "ustr \<Rightarrow> nat" where
  "text_len s = sum_list (map utf8_len s)"

text \<open>\<open>str::as_bytes\<close>: the UTF-8 encoding.\<close>

definition utf8_char :: "nat \<Rightarrow> nat list" where
  "utf8_char c =
     (if c < 128 then [c]
      else if c < 2048 then [192 + c div 64, 128 + c mod 64]
      else if c < 65536 then [224 + c div 4096, 128 + c div 64 mod 64, 128 + c mod 64]
      else [240 + c div 262144, 128 + c div 4096 mod 64, 128 + c div 64 mod 64, 128 + c mod 64])"

definition utf8_encode :: "ustr \<Rightarrow> bytes" where
  "utf8_encode s = map char_of (concat (map utf8_char s))"

lemma length_utf8_encode: "length (utf8_encode s) = text_len s"
  by (induction s) (simp_all add: utf8_encode_def text_len_def utf8_char_def utf8_len_def)

lemma utf8_ascii: "list_all (\<lambda>c. c < 128) s \<Longrightarrow> utf8_encode s = map char_of s"
  by (induction s) (simp_all add: utf8_encode_def utf8_char_def)

lemma text_len_ascii: "list_all (\<lambda>c. c < 128) s \<Longrightarrow> text_len s = length s"
  using length_utf8_encode [of s] by (simp add: utf8_ascii)

text \<open>\<open>char::is_whitespace\<close> (the Unicode property White_Space) and \<open>char::is_control\<close>
  (the general category Cc).\<close>

definition is_whitespace :: "nat \<Rightarrow> bool" where
  "is_whitespace c \<longleftrightarrow> (9 \<le> c \<and> c \<le> 13) \<or> c = 32 \<or> c = 133 \<or> c = 160 \<or> c = 5760
     \<or> (8192 \<le> c \<and> c \<le> 8202) \<or> c = 8232 \<or> c = 8233 \<or> c = 8239 \<or> c = 8287 \<or> c = 12288"

definition is_control :: "nat \<Rightarrow> bool" where
  "is_control c \<longleftrightarrow> c < 32 \<or> (127 \<le> c \<and> c \<le> 159)"

definition trim_by :: "('a \<Rightarrow> bool) \<Rightarrow> 'a list \<Rightarrow> 'a list" where
  "trim_by p s = rev (dropWhile p (rev (dropWhile p s)))"

definition trim :: "ustr \<Rightarrow> ustr" where
  "trim s = trim_by is_whitespace s"

definition ascii_lower :: "nat \<Rightarrow> nat" where
  "ascii_lower c = (if 65 \<le> c \<and> c \<le> 90 then c + 32 else c)"

definition to_ascii_lowercase :: "ustr \<Rightarrow> ustr" where
  "to_ascii_lowercase s = map ascii_lower s"

definition eq_ignore_ascii_case :: "ustr \<Rightarrow> ustr \<Rightarrow> bool" where
  "eq_ignore_ascii_case s t \<longleftrightarrow> to_ascii_lowercase s = to_ascii_lowercase t"

lemma set_trim_by: "set (trim_by p s) \<subseteq> set s"
  unfolding trim_by_def
  by (metis set_dropWhileD set_rev subsetI)

lemma length_trim_by: "length (trim_by p s) \<le> length s"
  unfolding trim_by_def using length_dropWhile_le
  by (metis length_rev le_trans)

lemma dropWhile_idle: "s = [] \<or> \<not> p (hd s) \<Longrightarrow> dropWhile p s = s"
  by (cases s) auto

lemma hd_dropWhile_not: "dropWhile p s \<noteq> [] \<Longrightarrow> \<not> p (hd (dropWhile p s))"
  by (rule hd_dropWhile)

lemma trim_by_ends:
  assumes "trim_by p s \<noteq> []"
  shows "\<not> p (hd (trim_by p s))" and "\<not> p (last (trim_by p s))"
proof -
  let ?t = "rev (dropWhile p s)"
  have u: "trim_by p s = rev (dropWhile p ?t)" by (simp add: trim_by_def)
  from assms u have ne: "dropWhile p ?t \<noteq> []" by simp
  then show "\<not> p (last (trim_by p s))"
    unfolding u by (simp add: last_rev hd_dropWhile)
  obtain pre where pre: "?t = pre @ dropWhile p ?t"
    by (metis takeWhile_dropWhile_id)
  then have "dropWhile p s = rev (dropWhile p ?t) @ rev pre"
    by (metis rev_append rev_rev_ident)
  with ne have "hd (trim_by p s) = hd (dropWhile p s)" and "dropWhile p s \<noteq> []"
    unfolding u by (metis hd_append2 rev_is_Nil_conv, metis append_is_Nil_conv rev_is_Nil_conv)
  then show "\<not> p (hd (trim_by p s))"
    by (simp add: hd_dropWhile)
qed

lemma trim_by_idem [simp]: "trim_by p (trim_by p s) = trim_by p s"
proof (cases "trim_by p s = []")
  case True
  show ?thesis unfolding True by (simp add: trim_by_def)
next
  case False
  from trim_by_ends [OF this] False show ?thesis
    unfolding trim_by_def [of p "trim_by p s"]
    by (simp add: dropWhile_idle hd_rev)
qed

lemma trim_idem [simp]: "trim (trim s) = trim s"
  by (simp add: trim_def)

lemma to_ascii_lowercase_idem [simp]:
  "to_ascii_lowercase (to_ascii_lowercase s) = to_ascii_lowercase s"
  by (simp add: to_ascii_lowercase_def ascii_lower_def)

subsection \<open>Searching and splitting\<close>

fun strip_prefix :: "'a list \<Rightarrow> 'a list \<Rightarrow> 'a list option" where
  "strip_prefix [] s = Some s"
| "strip_prefix (p # ps) [] = None"
| "strip_prefix (p # ps) (c # s) = (if p = c then strip_prefix ps s else None)"

definition starts_with :: "'a list \<Rightarrow> 'a list \<Rightarrow> bool" where
  "starts_with s p \<longleftrightarrow> take (length p) s = p"

fun split_once :: "'a \<Rightarrow> 'a list \<Rightarrow> ('a list \<times> 'a list) option" where
  "split_once d [] = None"
| "split_once d (c # s) =
     (if c = d then Some ([], s)
      else map_option (\<lambda>(a, b). (c # a, b)) (split_once d s))"

text \<open>\<open>str::split\<close> on one character: always at least one piece.\<close>

fun split_on :: "'a \<Rightarrow> 'a list \<Rightarrow> 'a list list" where
  "split_on d [] = [[]]"
| "split_on d (c # s) =
     (if c = d then [] # split_on d s
      else (case split_on d s of [] \<Rightarrow> [[c]] | p # ps \<Rightarrow> (c # p) # ps))"

text \<open>\<open>slice::windows(n)\<close>, tested for one of a list of patterns of length \<open>n\<close>.\<close>

fun has_window :: "'a list list \<Rightarrow> nat \<Rightarrow> 'a list \<Rightarrow> bool" where
  "has_window pats n [] = (n = 0 \<and> [] \<in> set pats)"
| "has_window pats n (c # s) =
     ((n \<le> length (c # s) \<and> take n (c # s) \<in> set pats) \<or> has_window pats n s)"

lemma strip_prefix_Some_iff: "strip_prefix p s = Some r \<longleftrightarrow> s = p @ r"
  by (induction p s rule: strip_prefix.induct) auto

lemma starts_with_append [simp]: "starts_with (p @ r) p"
  by (simp add: starts_with_def)

lemma starts_with_iff: "starts_with s p \<longleftrightarrow> (\<exists>r. s = p @ r)"
  unfolding starts_with_def by (metis append_eq_conv_conj append_take_drop_id)

lemma split_once_Some_iff: "split_once d s = Some (a, b) \<longleftrightarrow> s = a @ d # b \<and> d \<notin> set a"
proof (induction s arbitrary: a)
  case Nil
  then show ?case by simp
next
  case (Cons c s)
  show ?case
  proof (cases "c = d")
    case True
    then show ?thesis by (cases a) auto
  next
    case False
    then show ?thesis using Cons.IH by (cases a) (auto simp: Cons.IH)
  qed
qed

lemma split_once_None_iff: "split_once d s = None \<longleftrightarrow> d \<notin> set s"
  by (induction s) auto

lemma split_on_not_Nil [simp]: "split_on d s \<noteq> []"
  by (induction s) (auto split: list.splits)

lemma split_on_no_sep: "p \<in> set (split_on d s) \<Longrightarrow> d \<notin> set p"
proof (induction s arbitrary: p)
  case Nil
  then show ?case by simp
next
  case (Cons c s)
  obtain q qs where q: "split_on d s = q # qs" by (cases "split_on d s") auto
  with Cons show ?case by (auto split: if_splits)
qed

lemma has_window_imp_length: "has_window pats n s \<Longrightarrow> n \<le> length s"
  by (induction s) auto

subsection \<open>Parsing unsigned integers\<close>

text \<open>
  \<open>str::parse::<u64>\<close>: an optional plus sign, then at least one ASCII digit, with
  an error on overflow.
\<close>

definition is_digit :: "char \<Rightarrow> bool" where
  "is_digit c \<longleftrightarrow> 48 \<le> (of_char c :: nat) \<and> (of_char c :: nat) \<le> 57"

definition digit_value :: "char \<Rightarrow> nat" where
  "digit_value c = of_char c - 48"

definition digits_value :: "string \<Rightarrow> nat" where
  "digits_value s = foldl (\<lambda>n c. 10 * n + digit_value c) 0 s"

definition parse_unsigned :: "nat \<Rightarrow> string \<Rightarrow> nat option" where
  "parse_unsigned width s =
     (let ds = (case s of c # r \<Rightarrow> if c = CHR ''+'' then r else s | [] \<Rightarrow> s) in
      if ds = [] \<or> \<not> list_all is_digit ds \<or> 2 ^ width \<le> digits_value ds then None
      else Some (digits_value ds))"

abbreviation parse_u64 :: "string \<Rightarrow> nat option" where
  "parse_u64 \<equiv> parse_unsigned 64"

lemma parse_unsigned_bound: "parse_unsigned w s = Some n \<Longrightarrow> n < 2 ^ w"
  by (auto simp: parse_unsigned_def Let_def split: if_splits)

subsection \<open>Printing unsigned integers\<close>

fun show_nat :: "nat \<Rightarrow> string" where
  "show_nat n = (if n < 10 then [char_of (48 + n)]
                 else show_nat (n div 10) @ [char_of (48 + n mod 10)])"

declare show_nat.simps [simp del]

lemma digit_of_nat:
  assumes "n < 10"
  shows "digit_value (char_of (48 + n)) = n" and "is_digit (char_of (48 + n))"
proof -
  have c: "of_char (char_of (48 + n) :: char) = 48 + n"
    using assms by (simp add: of_char_of)
  then show "digit_value (char_of (48 + n)) = n"
    by (simp add: digit_value_def)
  show "is_digit (char_of (48 + n))"
    using assms c by (simp add: is_digit_def)
qed

lemma digits_value_snoc: "digits_value (s @ [c]) = 10 * digits_value s + digit_value c"
  by (simp add: digits_value_def)

lemma show_nat_digits: "show_nat n \<noteq> [] \<and> list_all is_digit (show_nat n) \<and> digits_value (show_nat n) = n"
proof (induction n rule: show_nat.induct)
  case (1 n)
  show ?case
  proof (cases "n < 10")
    case True
    then show ?thesis
      by (simp add: show_nat.simps [of n] digit_of_nat digits_value_def)
  next
    case False
    with 1 show ?thesis
      by (simp add: show_nat.simps [of n] digit_of_nat digits_value_snoc)
  qed
qed

lemma parse_show_nat: "n < 2 ^ w \<Longrightarrow> parse_unsigned w (show_nat n) = Some n"
proof -
  assume n: "n < 2 ^ w"
  from show_nat_digits [of n] obtain c r where s: "show_nat n = c # r" and c: "is_digit c"
    by (cases "show_nat n") auto
  from c have "c \<noteq> CHR ''+''" by (auto simp: is_digit_def)
  with s n show_nat_digits [of n] show ?thesis
    by (simp add: parse_unsigned_def Let_def)
qed

lemma unat_u64_bound: "unat (w :: 64 word) < 2 ^ 64"
proof -
  have "unat w < 2 ^ LENGTH(64)" by (rule unsigned_less)
  then show ?thesis by simp
qed

section \<open>Tables of rows\<close>

text \<open>
  A table is the list of its rows; a query filters it, an update maps the rows that match,
  an insert appends a row. \<open>find_row\<close> is a query by primary key.
\<close>

definition find_row :: "('r \<Rightarrow> 'k) \<Rightarrow> 'k \<Rightarrow> 'r list \<Rightarrow> 'r option" where
  "find_row key k rows = find (\<lambda>r. key r = k) rows"

definition update_where :: "('r \<Rightarrow> bool) \<Rightarrow> ('r \<Rightarrow> 'r) \<Rightarrow> 'r list \<Rightarrow> 'r list" where
  "update_where p f rows = map (\<lambda>r. if p r then f r else r) rows"

definition count_where :: "('r \<Rightarrow> bool) \<Rightarrow> 'r list \<Rightarrow> nat" where
  "count_where p rows = length (filter p rows)"

lemma list_all2_update_where:
  assumes "\<And>r. r \<in> set xs \<Longrightarrow> p r \<Longrightarrow> R r (f r)" and "\<And>r. R r r"
  shows "list_all2 R xs (update_where p f xs)"
  using assms by (induction xs) (auto simp: update_where_def)

lemma count_where_nth:
  assumes "i < length fs"
  shows "count_where q fs = count_where q (take i fs @ drop (Suc i) fs) + (if q (fs ! i) then 1 else 0)"
    and "count_where q (fs[i := f]) = count_where q (take i fs @ drop (Suc i) fs) + (if q f then 1 else 0)"
proof -
  have "count_where q (a @ y # b) = count_where q (a @ b) + (if q y then 1 else 0)" for a y b
    by (simp add: count_where_def)
  then show "count_where q fs = count_where q (take i fs @ drop (Suc i) fs) + (if q (fs ! i) then 1 else 0)"
    "count_where q (fs[i := f]) = count_where q (take i fs @ drop (Suc i) fs) + (if q f then 1 else 0)"
    using arg_cong [OF id_take_nth_drop [OF assms], of "count_where q"] upd_conv_take_nth_drop [OF assms, of f]
    by simp_all
qed

lemma find_SomeD: "find P xs = Some y \<Longrightarrow> y \<in> set xs \<and> P y"
  by (auto simp: find_Some_iff)

lemma find_row_Some: "find_row key k rows = Some r \<Longrightarrow> r \<in> set rows \<and> key r = k"
  unfolding find_row_def by (auto simp: find_Some_iff)

lemma find_row_None: "find_row key k rows = None \<longleftrightarrow> k \<notin> key ` set rows"
  unfolding find_row_def by (auto simp: find_None_iff)

lemma find_row_iff:
  "distinct (map key rows) \<Longrightarrow> find_row key k rows = Some r \<longleftrightarrow> r \<in> set rows \<and> key r = k"
proof (induction rows)
  case Nil
  then show ?case by (simp add: find_row_def)
next
  case (Cons a rows)
  then show ?case by (auto simp: find_row_def)
qed

lemma find_row_append [row_simps]:
  "find_row key k (rows @ rows') =
     (case find_row key k rows of None \<Rightarrow> find_row key k rows' | Some r \<Rightarrow> Some r)"
  by (induction rows) (auto simp: find_row_def)

lemma find_row_update_where [row_simps]:
  assumes "\<And>r. key (f r) = key r"
  shows "find_row key k (update_where p f rows) =
    map_option (\<lambda>r. if p r then f r else r) (find_row key k rows)"
  using assms by (induction rows) (auto simp: find_row_def update_where_def)

lemma set_update_where [row_simps]:
  "set (update_where p f rows) = (\<lambda>r. if p r then f r else r) ` set rows"
  by (simp add: update_where_def)

lemma length_update_where [simp]: "length (update_where p f rows) = length rows"
  by (simp add: update_where_def)

lemma map_key_update_where [row_simps]:
  "(\<And>r. g (f r) = g r) \<Longrightarrow> map g (update_where p f rows) = map g rows"
  by (simp add: update_where_def)

lemma image_key_update_where [row_simps]:
  "(\<And>r. g (f r) = g r) \<Longrightarrow> g ` set (update_where p f rows) = g ` set rows"
  unfolding update_where_def by (induction rows) simp_all

lemma update_where_none: "(\<And>r. r \<in> set rows \<Longrightarrow> \<not> p r) \<Longrightarrow> update_where p f rows = rows"
  unfolding update_where_def by (induction rows) auto

lemma distinct_map_filter_key: "distinct (map key rows) \<Longrightarrow> distinct (map key (filter p rows))"
  by (induction rows) auto

lemma distinct_key_unique:
  "distinct (map key rows) \<Longrightarrow> r \<in> set rows \<Longrightarrow> r' \<in> set rows \<Longrightarrow> key r = key r' \<Longrightarrow> r = r'"
  by (induction rows) (auto simp: image_iff)

end
