(* ===== verification/Ranges.thy ===== *)
theory Ranges
  imports Prelude
begin

text \<open>
  The byte ranges of \<open>src/transfers/range.rs\<close>: the parser of the \<open>Range\<close> request
  header and the length of the range it grants. Sizes are 64-bit words, as in the code, so
  that the subtractions and the \<open>+ 1\<close> of the length are the machine's.
\<close>

section \<open>Ranges\<close>

record byte_range =
  range_start :: "64 word"
  range_end :: "64 word"

definition range_len :: "byte_range \<Rightarrow> 64 word" where
  "range_len r = range_end r - range_start r + 1"

definition parse_word64 :: "string \<Rightarrow> unit + 64 word" where
  "parse_word64 s = okOr (map_option of_nat (parse_u64 s)) ()"

definition parse_range :: "string option \<Rightarrow> 64 word \<Rightarrow> unit + byte_range option" where
  "parse_range value sz =
     (case value of
        None \<Rightarrow> Inr None
      | Some v \<Rightarrow>
          if sz = 0 then Inl ()
          else (case strip_prefix ''bytes='' v of
            None \<Rightarrow> Inl ()
          | Some spec \<Rightarrow>
              if CHR '','' \<in> set spec then Inl ()
              else (case split_once (CHR ''-'') spec of
                None \<Rightarrow> Inl ()
              | Some (first, final) \<Rightarrow>
                  if first = [] then
                    bindE (parse_word64 final) (\<lambda>suffix.
                      if suffix = 0 then Inl ()
                      else Inr (Some \<lparr>range_start = sz - min suffix sz, range_end = sz - 1\<rparr>))
                  else
                    bindE (parse_word64 first) (\<lambda>start.
                      if sz \<le> start then Inl ()
                      else
                        bindE (if final = [] then Inr (sz - 1)
                               else bindE (parse_word64 final) (\<lambda>requested_end.
                                 if requested_end < start then Inl ()
                                 else Inr (min requested_end (sz - 1))))
                          (\<lambda>end. Inr (Some \<lparr>range_start = start, range_end = end\<rparr>))))))"

section \<open>Lemmas\<close>

lemma word_pred_less:
  fixes sz :: "'a::len word"
  assumes "sz \<noteq> 0"
  shows "unat (sz - 1) = unat sz - 1" and "sz - 1 < sz"
  using assms by (simp_all add: unat_minus_one word_less_nat_alt unat_gt_0)

lemma parse_range_bounds:
  assumes "parse_range v sz = Inr (Some r)"
  shows "range_start r \<le> range_end r \<and> range_end r < sz"
proof -
  from assms have nz: "sz \<noteq> 0"
    by (auto simp: parse_range_def split: option.splits if_splits)
  note pred = word_pred_less [OF nz]
  have suffix: "sz - min k sz \<le> sz - 1" if "k \<noteq> 0" for k
  proof -
    from that nz have "1 \<le> unat (min k sz)" "unat (min k sz) \<le> unat sz"
      by (auto simp: min_def word_le_nat_alt unat_gt_0 Suc_le_eq)
    then show ?thesis
      using pred(1) by (simp add: word_le_nat_alt unat_sub word_le_nat_alt)
  qed
  have le_pred: "s \<le> sz - 1" if "\<not> sz \<le> s" for s
    using that pred(1) by (simp add: word_le_nat_alt)
  have min_less: "min a (sz - 1) < sz" for a
    using pred(2) by (simp add: min.strict_coboundedI2)
  from assms show ?thesis
    using pred(2) suffix le_pred min_less
    by (auto simp: parse_range_def bindE_Inr_iff split: option.splits if_splits)
qed

lemma range_len_exact:
  assumes "range_start r \<le> range_end r" and "range_end r < sz"
  shows "unat (range_len r) = unat (range_end r) - unat (range_start r) + 1"
    and "range_len r \<le> sz"
proof -
  have d: "unat (range_end r - range_start r) = unat (range_end r) - unat (range_start r)"
    using assms(1) by (simp add: unat_sub)
  have lt: "unat (range_end r - range_start r) + 1 < 2 ^ 64"
  proof -
    have "unat (range_end r) < unat sz" using assms(2) by (simp add: word_less_nat_alt)
    moreover have "unat sz < 2 ^ 64" using unat_u64_bound [of sz] by simp
    ultimately show ?thesis using d by linarith
  qed
  show u: "unat (range_len r) = unat (range_end r) - unat (range_start r) + 1"
    unfolding range_len_def using lt d by (simp add: unat_add_lem [THEN iffD1])
  show "range_len r \<le> sz"
    using u assms by (simp add: word_le_nat_alt word_less_nat_alt)
qed

section \<open>Properties\<close>

text \<open>
  C1. A range the parser grants lies inside the representation: its first byte is not after
  its last, its last byte is before the end, and the length computed with 64-bit arithmetic
  is the exact number of bytes, at least one and at most the size.
\<close>

theorem parse_range_sound:
  assumes "parse_range v sz = Inr (Some r)"
  shows "range_start r \<le> range_end r \<and> range_end r < sz
    \<and> unat (range_len r) = unat (range_end r) - unat (range_start r) + 1
    \<and> range_len r \<le> sz"
  using parse_range_bounds [OF assms] range_len_exact [of r sz] by blast

theorem parse_range_sound_witness:
  "parse_range (Some ''bytes=2-900'') 10 = Inr (Some \<lparr>range_start = 2, range_end = 9\<rparr>)
   \<and> unat (range_len \<lparr>range_start = 2, range_end = 9\<rparr>) = 8"
proof -
  have h: "parse_range (Some ''bytes=2-900'') 10 = Inr (Some \<lparr>range_start = 2, range_end = 9\<rparr>)"
    by (simp add: parse_range_def parse_word64_def parse_unsigned_def is_digit_def
        digits_value_def digit_value_def min_def)
  from parse_range_sound [OF h] h show ?thesis by simp
qed

text \<open>
  The parser reads back what a client writes: for every satisfiable pair of positions
  the header \<open>bytes=first-last\<close> yields the range from the first position to the last,
  cut at the end of the representation, and \<open>bytes=first-\<close> the range to its end.
\<close>

lemma parse_range_complete:
  assumes "first \<le> final" and "final < 2 ^ 64" and "first < unat sz"
  shows "parse_range (Some (''bytes='' @ show_nat first @ ''-'' @ show_nat final)) sz
      = Inr (Some \<lparr>range_start = of_nat first, range_end = min (of_nat final) (sz - 1)\<rparr>)
    \<and> parse_range (Some (''bytes='' @ show_nat first @ ''-'')) sz
      = Inr (Some \<lparr>range_start = of_nat first, range_end = sz - 1\<rparr>)"
proof -
  have digits: "CHR ''-'' \<notin> set (show_nat n)" "CHR '','' \<notin> set (show_nat n)" "show_nat n \<noteq> []" for n
    using show_nat_digits [of n] by (auto simp: list_all_iff is_digit_def)
  have split1: "split_once (CHR ''-'') (show_nat first @ CHR ''-'' # r) = Some (show_nat first, r)" for r
    using digits by (simp add: split_once_Some_iff)
  have f: "first < 2 ^ 64" using assms(3) unat_u64_bound [of sz] by simp
  have un: "unat (of_nat first :: 64 word) = first" "unat (of_nat final :: 64 word) = final"
    using f assms(2) by (simp_all add: unat_of_nat take_bit_nat_eq_self)
  have cmp: "\<not> sz \<le> of_nat first" "\<not> (of_nat final :: 64 word) < of_nat first" "sz \<noteq> 0"
    using assms un by (auto simp: word_le_nat_alt word_less_nat_alt)
  have parse: "parse_word64 (show_nat first) = Inr (of_nat first)"
    "parse_word64 (show_nat final) = Inr (of_nat final)"
    using f assms(2) by (simp_all add: parse_word64_def parse_show_nat)
  show ?thesis
    using digits cmp parse split1 [of "[]"] by (simp add: parse_range_def split1)
qed

section \<open>What a header asks for\<close>

text \<open>
  The meaning of a \<open>Range\<close> header on natural numbers, one rule for each of its forms: the first
  and the last byte that it asks of a representation of \<open>n\<close> bytes. A header that asks for
  nothing under these rules is not satisfiable.
\<close>

inductive asks_for :: "string \<Rightarrow> nat \<Rightarrow> nat \<Rightarrow> nat \<Rightarrow> bool" where
  between: "parse_u64 f = Some a \<Longrightarrow> parse_u64 l = Some b \<Longrightarrow> a \<le> b \<Longrightarrow> a < n
    \<Longrightarrow> asks_for (''bytes='' @ f @ ''-'' @ l) n a (min b (n - 1))"
| onwards: "parse_u64 f = Some a \<Longrightarrow> a < n \<Longrightarrow> asks_for (''bytes='' @ f @ ''-'') n a (n - 1)"
| suffix: "parse_u64 l = Some k \<Longrightarrow> 0 < k \<Longrightarrow> 0 < n \<Longrightarrow> asks_for (''bytes=-'' @ l) n (n - min k n) (n - 1)"

lemma parse_u64_chars:
  assumes "parse_u64 f = Some a"
  shows "f \<noteq> []" and "CHR ''-'' \<notin> set f" and "CHR '','' \<notin> set f" and "a < 2 ^ 64"
proof -
  show "f \<noteq> []" using assms by (auto simp: parse_unsigned_def)
  have "set f \<subseteq> insert CHR ''+'' (Collect is_digit)"
    using assms by (cases f) (auto simp: parse_unsigned_def list_all_iff Let_def split: if_splits)
  then show "CHR ''-'' \<notin> set f" "CHR '','' \<notin> set f" by (auto simp: is_digit_def)
  show "a < 2 ^ 64" using parse_unsigned_bound [OF assms] by simp
qed

lemma of_nat_word64:
  "n < 2 ^ 64 \<Longrightarrow> unat (of_nat n :: 64 word) = n"
  "m < 2 ^ 64 \<Longrightarrow> n < 2 ^ 64 \<Longrightarrow> (of_nat m :: 64 word) \<le> of_nat n \<longleftrightarrow> m \<le> n"
  "m < 2 ^ 64 \<Longrightarrow> n < 2 ^ 64 \<Longrightarrow> (of_nat m :: 64 word) < of_nat n \<longleftrightarrow> m < n"
  by (simp_all add: word_le_nat_alt word_less_nat_alt unat_of_nat take_bit_nat_eq_self)

lemma min_word64: "m < 2 ^ 64 \<Longrightarrow> n < 2 ^ 64 \<Longrightarrow> min (of_nat m :: 64 word) (of_nat n) = of_nat (min m n)"
  by (simp add: min_def of_nat_word64)

lemma parse_word64_u64: "parse_word64 s = Inr w \<longleftrightarrow> (\<exists>n. parse_u64 s = Some n \<and> w = of_nat n)"
  by (auto simp: parse_word64_def result_simps)

lemma parse_range_complete_asks:
  assumes "asks_for v n a b" and n: "n < 2 ^ 64"
  shows "parse_range (Some v) (of_nat n) = Inr (Some \<lparr>range_start = of_nat a, range_end = of_nat b\<rparr>)"
  using assms(1)
proof cases
  case (between f l e)
  note f = parse_u64_chars [OF between(3)] note l = parse_u64_chars [OF between(4)]
  have "split_once (CHR ''-'') (f @ CHR ''-'' # l) = Some (f, l)" using f(2) by (simp add: split_once_Some_iff)
  moreover have "parse_word64 f = Inr (of_nat a)" "parse_word64 l = Inr (of_nat e)" using between by (auto simp: parse_word64_u64)
  moreover have "of_nat n - 1 = (of_nat (n - 1) :: 64 word)" "n \<noteq> 0" using between(6) by (simp_all add: of_nat_diff)
  moreover have "min (of_nat e) (of_nat n - 1 :: 64 word) = of_nat (min e (n - 1))"
    using calculation(4) l(4) n by (simp only: min_word64)
  ultimately show ?thesis
    using f l between n of_nat_word64(2) [OF n, of a] of_nat_word64(3) [of e a] of_nat_word64(2) [OF n, of 0]
    by (auto simp: parse_range_def)
next
  case (onwards f)
  note f = parse_u64_chars [OF onwards(3)]
  have "split_once (CHR ''-'') (f @ [CHR ''-'']) = Some (f, [])" using f(2) by (simp add: split_once_Some_iff)
  moreover have "parse_word64 f = Inr (of_nat a)" using onwards by (auto simp: parse_word64_u64)
  moreover have "of_nat n - 1 = (of_nat (n - 1) :: 64 word)" "n \<noteq> 0" using onwards(4) by (simp_all add: of_nat_diff)
  ultimately show ?thesis
    using f onwards n of_nat_word64(2) [OF n, of a] of_nat_word64(2) [OF n, of 0] by (auto simp: parse_range_def)
next
  case (suffix l k)
  note l = parse_u64_chars [OF suffix(4)]
  have "parse_word64 l = Inr (of_nat k)" using suffix by (auto simp: parse_word64_u64)
  moreover have "of_nat n - 1 = (of_nat (n - 1) :: 64 word)" "n \<noteq> 0" using suffix(6) by (simp_all add: of_nat_diff)
  moreover have "of_nat n - min (of_nat k) (of_nat n) = (of_nat (n - min k n) :: 64 word)"
    using l(4) n by (simp add: min_word64 of_nat_diff)
  ultimately show ?thesis
    using l suffix n of_nat_word64(2) [OF l(4), of 0] of_nat_word64(2) [OF n, of 0] by (auto simp: parse_range_def)
qed

lemma parse_range_sound_asks:
  assumes p: "parse_range (Some v) (of_nat n) = Inr (Some r)" and n: "n < 2 ^ 64"
  shows "asks_for v n (unat (range_start r)) (unat (range_end r))"
proof -
  have n0: "0 < n" using p by (cases "n = 0") (simp_all add: parse_range_def)
  have sz: "of_nat n - 1 = (of_nat (n - 1) :: 64 word)" using n0 by (simp add: of_nat_diff)
  from p obtain spec f l where v: "v = ''bytes='' @ spec" and spec: "spec = f @ CHR ''-'' # l"
    and q: "split_once (CHR ''-'') spec = Some (f, l)" and c: "CHR '','' \<notin> set spec"
    by (auto simp: parse_range_def strip_prefix_Some_iff split_once_Some_iff split: if_splits option.splits)
  have s: "strip_prefix ''bytes='' v = Some spec" by (simp add: v strip_prefix_Some_iff)
  show ?thesis
  proof (cases "f = []")
    case True
    then obtain k where k: "parse_u64 l = Some k" "(of_nat k :: 64 word) \<noteq> 0"
        "r = \<lparr>range_start = of_nat n - min (of_nat k) (of_nat n), range_end = of_nat n - 1\<rparr>"
      using p q c s by (auto simp: parse_range_def result_simps parse_word64_u64 split: if_splits)
    have k0: "0 < k" using k(2) by (cases "k = 0") simp_all
    have diff: "of_nat n - min (of_nat k) (of_nat n) = (of_nat (n - min k n) :: 64 word)"
      using parse_u64_chars(4) [OF k(1)] n by (simp add: min_word64 of_nat_diff)
    have "unat (range_start r) = n - min k n"
      using of_nat_word64(1) [of "n - min k n"] n by (simp only: k(3) byte_range.select_convs diff)
    moreover have "unat (range_end r) = n - 1" using n by (simp add: k(3) sz of_nat_word64)
    ultimately show ?thesis using asks_for.suffix [OF k(1) k0 n0] by (simp add: v spec True)
  next
    case False
    then obtain a e where a: "parse_u64 f = Some a" "\<not> (of_nat n :: 64 word) \<le> of_nat a"
        "r = \<lparr>range_start = of_nat a, range_end = e\<rparr>"
      and e: "(if l = [] then Inr (of_nat n - 1) else bindE (parse_word64 l) (\<lambda>requested_end.
                 if requested_end < of_nat a then Inl () else Inr (min requested_end (of_nat n - 1)))) = Inr e"
      using p q c s by (auto simp: parse_range_def result_simps parse_word64_u64 split: if_splits)
    have an: "a < n" using a(2) of_nat_word64(2) [OF n parse_u64_chars(4) [OF a(1)]] by simp
    have ua: "unat (range_start r) = a" using a(3) parse_u64_chars(4) [OF a(1)] by (simp add: of_nat_word64)
    show ?thesis
    proof (cases "l = []")
      case True
      then have "range_end r = of_nat (n - 1)" using e a(3) by (simp add: sz)
      then have "unat (range_end r) = n - 1" using n of_nat_word64(1) [of "n - 1"] by simp
      then show ?thesis using asks_for.onwards [OF a(1) an] ua by (simp add: v spec True)
    next
      case False
      then obtain b where b: "parse_u64 l = Some b" "\<not> (of_nat b :: 64 word) < of_nat a" "e = min (of_nat b) (of_nat n - 1)"
        using e by (auto simp: result_simps parse_word64_u64 split: if_splits)
      have "a \<le> b" using b(2) of_nat_word64(3) [OF parse_u64_chars(4) [OF b(1)] parse_u64_chars(4) [OF a(1)]] by simp
      moreover have "unat (range_end r) = min b (n - 1)"
        using a(3) b(3) parse_u64_chars(4) [OF b(1)] n by (simp add: sz min_word64 of_nat_word64)
      ultimately show ?thesis using asks_for.between [OF a(1) b(1) _ an] ua by (simp add: v spec)
    qed
  qed
qed

lemma parse_range_asks:
  assumes "n < 2 ^ 64"
  shows "case parse_range (Some v) (of_nat n) of
      Inl _ \<Rightarrow> \<not> (\<exists>a b. asks_for v n a b)
    | Inr None \<Rightarrow> False
    | Inr (Some r) \<Rightarrow> asks_for v n (unat (range_start r)) (unat (range_end r))"
proof -
  have "parse_range (Some v) (of_nat n) \<noteq> Inr None"
    by (auto simp: parse_range_def result_simps split: option.splits if_splits)
  then show ?thesis
    using parse_range_complete_asks [OF _ assms] parse_range_sound_asks [OF _ assms]
    by (auto split: sum.splits option.splits)
qed

end
