(* ===== verification/Database.thy ===== *)
theory Database
  imports Prelude
begin

text \<open>
  The PostgreSQL schema the service works on (\<open>src/migrations\<close>): one record per
  table, a database as the record of its tables, and the statements the handlers issue with
  the constraints, triggers and referential actions of the migrations. A statement that
  violates a constraint fails with the SQLSTATE class the handlers distinguish. Recursive
  queries are the level-by-level unfolding of \<open>WITH RECURSIVE\<close>.
\<close>

section \<open>Errors\<close>

text \<open>SQLSTATE 23505, 23514, 23503; every other error is \<open>OtherDbError\<close>.\<close>

datatype db_error = UniqueViolation | CheckViolation | ForeignKeyViolation | OtherDbError

section \<open>Tables\<close>

datatype kind = File | Folder
datatype role = Owner | Admin | Member
datatype system_role = Photos
datatype object_state = Pending | Ready | Deleting | ObjFailed
datatype upload_state = Active | Finalizing | Completed | Expired | UpFailed

record user_row =
  usr_id :: uuid
  usr_email :: ustr
  usr_password_hash :: string
  usr_role :: role
  usr_created_at :: instant
  usr_updated_at :: instant
  usr_managed_by :: "uuid option"
  usr_quota_bytes :: "int option"
  usr_disabled_at :: "instant option"
  usr_must_change_password :: bool

record entry =
  ent_id :: uuid
  ent_owner :: uuid
  ent_parent :: "uuid option"
  ent_kind :: kind
  ent_name :: ustr
  ent_created_at :: instant
  ent_updated_at :: instant
  ent_deleted_at :: "instant option"
  ent_system_role :: "system_role option"

record file_row =
  fil_id :: uuid
  fil_current_version :: "uuid option"

record version_row =
  ver_id :: uuid
  ver_file :: uuid
  ver_object :: uuid
  ver_size_bytes :: int
  ver_original_modified_at :: "instant option"
  ver_created_at :: instant

record object_row =
  obj_id :: uuid
  obj_storage_key :: string
  obj_size_bytes :: int
  obj_checksum :: "string option"
  obj_mime :: "string option"
  obj_state :: object_state
  obj_created_at :: instant
  obj_last_checked_at :: "instant option"

record upload_row =
  upl_id :: uuid
  upl_owner :: uuid
  upl_target_parent :: "uuid option"
  upl_filename :: ustr
  upl_expected_size :: int
  upl_received_size :: int
  upl_staging_key :: uuid
  upl_state :: upload_state
  upl_expires_at :: instant
  upl_updated_at :: instant
  upl_object :: "uuid option"
  upl_final_file :: "uuid option"
  upl_staging_cleaned_at :: "instant option"
  upl_replace_file :: "uuid option"
  upl_original_modified_at :: "instant option"

record share_row =
  shr_id :: uuid
  shr_owner :: uuid
  shr_resource_kind :: "kind option"
  shr_resource :: "uuid option"
  shr_album :: "uuid option"
  shr_token_digest :: bytes
  shr_password_hash :: "string option"
  shr_expires_at :: "instant option"
  shr_revoked_at :: "instant option"
  shr_allow_download :: bool
  shr_max_downloads :: "int option"
  shr_download_count :: int
  shr_failed_attempts :: int
  shr_locked_until :: "instant option"
  shr_created_at :: instant
  shr_last_accessed_at :: "instant option"
  shr_api_key :: "uuid option"

record access_row =
  acc_token_digest :: bytes
  acc_share :: uuid
  acc_expires_at :: instant

record session_row =
  ses_id :: uuid
  ses_user :: uuid
  ses_token_digest :: bytes
  ses_csrf_digest :: bytes
  ses_expires_at :: instant
  ses_revoked_at :: "instant option"
  ses_created_at :: instant
  ses_last_seen_at :: "instant option"

datatype grant_status = GrantPending | GrantApproved | GrantDenied | GrantConsumed | GrantExpired

record device_row =
  dev_id :: uuid
  dev_owner :: uuid
  dev_name :: ustr
  dev_client_name :: ustr
  dev_operating_system :: ustr
  dev_client_version :: ustr
  dev_created_at :: instant
  dev_last_active_at :: "instant option"
  dev_last_ip :: "string option"
  dev_revoked_at :: "instant option"

record grant_row =
  gra_id :: uuid
  gra_code_digest :: bytes
  gra_user_code :: ustr
  gra_client_name :: ustr
  gra_device_name :: ustr
  gra_operating_system :: ustr
  gra_client_version :: ustr
  gra_requested_ip :: "string option"
  gra_expires_at :: instant
  gra_poll_interval :: int
  gra_poll_after :: instant
  gra_status :: grant_status
  gra_owner :: "uuid option"
  gra_device :: "uuid option"
  gra_created_at :: instant

record credential_row =
  crd_id :: uuid
  crd_device :: uuid
  crd_access_digest :: bytes
  crd_refresh_digest :: bytes
  crd_access_expires_at :: instant
  crd_refresh_expires_at :: instant
  crd_revoked_at :: "instant option"

record job_row =
  job_version :: uuid
  job_task :: string
  job_recipe :: int

record derivative_row =
  der_version :: uuid
  der_variant :: string
  der_recipe :: int
  der_mime :: string
  der_size_bytes :: int
  der_checksum :: string

record album_row =
  alb_id :: uuid
  alb_owner :: uuid
  alb_name :: ustr
  alb_created_at :: instant
  alb_updated_at :: instant

record item_row =
  itm_album :: uuid
  itm_file :: uuid
  itm_added_at :: instant

record api_key_row =
  apk_id :: uuid
  apk_owner :: uuid
  apk_name :: ustr
  apk_token_digest :: bytes
  apk_prefix :: string
  apk_scopes :: "string list"
  apk_created_at :: instant
  apk_expires_at :: "instant option"
  apk_revoked_at :: "instant option"
  apk_last_used_at :: "instant option"
  apk_rate_window :: instant
  apk_rate_count :: int

record api_log_row =
  log_id :: int
  log_owner :: uuid
  log_key :: uuid
  log_method :: string
  log_route :: string
  log_status :: nat
  log_duration_ms :: nat
  log_request_bytes :: nat
  log_created_at :: instant

record audit_row =
  aud_type :: string
  aud_actor :: "uuid option"
  aud_resource :: "uuid option"

record db =
  users :: "user_row list"
  entries :: "entry list"
  folders :: "uuid list"
  files :: "file_row list"
  versions :: "version_row list"
  objects :: "object_row list"
  uploads :: "upload_row list"
  shares :: "share_row list"
  access_sessions :: "access_row list"
  sessions :: "session_row list"
  devices :: "device_row list"
  grants :: "grant_row list"
  credentials :: "credential_row list"
  jobs :: "job_row list"
  derivatives :: "derivative_row list"
  albums :: "album_row list"
  album_items :: "item_row list"
  api_keys :: "api_key_row list"
  api_logs :: "api_log_row list"
  audits :: "audit_row list"

definition empty_db :: db where
  "empty_db = \<lparr>users = [], entries = [], folders = [], files = [], versions = [], objects = [],
     uploads = [], shares = [], access_sessions = [], sessions = [],
     devices = [], grants = [], credentials = [], jobs = [], derivatives = [],
     albums = [], album_items = [], api_keys = [], api_logs = [], audits = []\<rparr>"

section \<open>Recursive queries over the entry tree\<close>

text \<open>
  \<open>climb p n es x\<close> is the chain of rows a \<open>parent_chain\<close>/\<open>ancestors\<close>
  query visits from the row with identifier \<open>x\<close> upwards, restricted to the rows that
  satisfy \<open>p\<close> (the owner filter of the query); \<open>n\<close> bounds the number of
  iterations. \<open>descend p n es frontier d\<close> is the downward unfolding of a
  \<open>subtree\<close>/\<open>descendants\<close> query, each row with its depth. Both are run with as
  many iterations as the table has rows; \<open>climb_stable\<close> and \<open>descend_stable\<close> in
  theory \<open>Entry_Tree\<close> show that on a table without parent cycles further iterations add
  nothing, so the bound is where PostgreSQL's iteration stops too.
\<close>

fun climb :: "(entry \<Rightarrow> bool) \<Rightarrow> nat \<Rightarrow> entry list \<Rightarrow> uuid option \<Rightarrow> entry list" where
  "climb p 0 es x = []"
| "climb p (Suc n) es None = []"
| "climb p (Suc n) es (Some x) =
     (case find (\<lambda>e. ent_id e = x \<and> p e) es of
        None \<Rightarrow> []
      | Some e \<Rightarrow> e # climb p n es (ent_parent e))"

definition children_of :: "(entry \<Rightarrow> bool) \<Rightarrow> entry list \<Rightarrow> entry \<Rightarrow> entry list" where
  "children_of p es e = filter (\<lambda>c. ent_parent c = Some (ent_id e) \<and> p c) es"

fun descend :: "(entry \<Rightarrow> bool) \<Rightarrow> nat \<Rightarrow> entry list \<Rightarrow> entry list \<Rightarrow> nat \<Rightarrow> (entry \<times> nat) list" where
  "descend p 0 es frontier d = []"
| "descend p (Suc n) es frontier d =
     (if frontier = [] then []
      else map (\<lambda>e. (e, d)) frontier
        @ descend p n es (concat (map (children_of p es) frontier)) (Suc d))"

section \<open>Statements on \<open>drive_entries\<close>\<close>

text \<open>The \<open>CHECK\<close> on names: PostgreSQL's \<open>btrim\<close> removes spaces only.\<close>

definition entry_name_check :: "ustr \<Rightarrow> bool" where
  "entry_name_check n \<longleftrightarrow>
     1 \<le> length (trim_by (\<lambda>c. c = 32) n) \<and> length (trim_by (\<lambda>c. c = 32) n) \<le> 255
     \<and> n \<noteq> lit ''.'' \<and> n \<noteq> lit ''..'' \<and> 47 \<notin> set n \<and> 92 \<notin> set n"

text \<open>The trigger \<open>drive_entries_parent_guard\<close>.\<close>

definition validate_drive_entry_parent :: "entry list \<Rightarrow> entry \<Rightarrow> db_error + unit" where
  "validate_drive_entry_parent es new =
     (case ent_parent new of
        None \<Rightarrow> Inr ()
      | Some p \<Rightarrow>
          (case find_row ent_id p es of
             None \<Rightarrow> Inl CheckViolation
           | Some parent \<Rightarrow>
               if ent_kind parent \<noteq> Folder \<or> ent_owner parent \<noteq> ent_owner new
                  \<or> ent_deleted_at parent \<noteq> None
               then Inl CheckViolation
               else if ent_kind new = Folder
                  \<and> ent_id new \<in> set (map ent_id (climb (\<lambda>_. True) (length es) es (Some p)))
               then Inl CheckViolation
               else Inr ()))"

text \<open>
  The unique index on active sibling names and the one on system roles. \<open>lower\<close> is
  PostgreSQL's case mapping in the database's collation.
\<close>

definition same_slot :: "(ustr \<Rightarrow> ustr) \<Rightarrow> entry \<Rightarrow> entry \<Rightarrow> bool" where
  "same_slot lower a b \<longleftrightarrow> ent_deleted_at a = None \<and> ent_deleted_at b = None
     \<and> ent_owner a = ent_owner b \<and> ent_parent a = ent_parent b
     \<and> lower (ent_name a) = lower (ent_name b)"

definition same_role :: "entry \<Rightarrow> entry \<Rightarrow> bool" where
  "same_role a b \<longleftrightarrow> ent_deleted_at a = None \<and> ent_deleted_at b = None
     \<and> ent_owner a = ent_owner b \<and> ent_system_role a \<noteq> None
     \<and> ent_system_role a = ent_system_role b"

definition entry_row_check :: "entry \<Rightarrow> bool" where
  "entry_row_check e \<longleftrightarrow> entry_name_check (ent_name e)
     \<and> (ent_system_role e \<noteq> None \<longrightarrow> ent_kind e = Folder)"

definition insert_entry :: "(ustr \<Rightarrow> ustr) \<Rightarrow> entry \<Rightarrow> db \<Rightarrow> db_error + db" where
  "insert_entry lower new s =
     bindE (validate_drive_entry_parent (entries s) new) (\<lambda>_.
     bindE (guardE (entry_row_check new) CheckViolation) (\<lambda>_.
     bindE (guardE (\<forall>e \<in> set (entries s). ent_id e \<noteq> ent_id new
              \<and> \<not> same_slot lower e new \<and> \<not> same_role e new) UniqueViolation) (\<lambda>_.
     bindE (guardE (ent_owner new \<in> usr_id ` set (users s)) ForeignKeyViolation) (\<lambda>_.
       Inr (s\<lparr>entries := entries s @ [new]\<rparr>)))))"

text \<open>
  An \<open>UPDATE\<close> that touches one row by primary key: the new version of the row is checked
  against the table without the old one. \<open>guard\<close> tells whether the statement's column list
  fires the parent trigger.
\<close>

definition update_entry ::
  "(ustr \<Rightarrow> ustr) \<Rightarrow> bool \<Rightarrow> (entry \<Rightarrow> bool) \<Rightarrow> (entry \<Rightarrow> entry) \<Rightarrow> uuid \<Rightarrow> db \<Rightarrow> db_error + db \<times> nat" where
  "update_entry lower guard p f i s =
     (case find (\<lambda>e. ent_id e = i \<and> p e) (entries s) of
        None \<Rightarrow> Inr (s, 0)
      | Some old \<Rightarrow>
          let new = f old in
          bindE (if guard then validate_drive_entry_parent (entries s) new else Inr ()) (\<lambda>_.
          bindE (guardE (entry_row_check new) CheckViolation) (\<lambda>_.
          bindE (guardE (\<forall>e \<in> set (entries s). ent_id e \<noteq> i
                   \<longrightarrow> \<not> same_slot lower e new \<and> \<not> same_role e new) UniqueViolation) (\<lambda>_.
            Inr (s\<lparr>entries := update_where (\<lambda>e. ent_id e = i) (\<lambda>_. new) (entries s)\<rparr>, 1)))))"

section \<open>Statements on the file tables\<close>

definition insert_folder :: "uuid \<Rightarrow> db \<Rightarrow> db_error + db" where
  "insert_folder i s =
     bindE (guardE (i \<notin> set (folders s)) UniqueViolation) (\<lambda>_.
     bindE (guardE (i \<in> ent_id ` set (entries s)) ForeignKeyViolation) (\<lambda>_.
       Inr (s\<lparr>folders := folders s @ [i]\<rparr>)))"

definition insert_file :: "uuid \<Rightarrow> db \<Rightarrow> db_error + db" where
  "insert_file i s =
     bindE (guardE (i \<notin> fil_id ` set (files s)) UniqueViolation) (\<lambda>_.
     bindE (guardE (i \<in> ent_id ` set (entries s)) ForeignKeyViolation) (\<lambda>_.
       Inr (s\<lparr>files := files s @ [\<lparr>fil_id = i, fil_current_version = None\<rparr>]\<rparr>)))"

definition insert_version :: "version_row \<Rightarrow> db \<Rightarrow> db_error + db" where
  "insert_version v s =
     bindE (guardE (0 \<le> ver_size_bytes v) CheckViolation) (\<lambda>_.
     bindE (guardE (ver_id v \<notin> ver_id ` set (versions s)) UniqueViolation) (\<lambda>_.
     bindE (guardE (ver_file v \<in> fil_id ` set (files s) \<and> ver_object v \<in> obj_id ` set (objects s))
              ForeignKeyViolation) (\<lambda>_.
       Inr (s\<lparr>versions := versions s @ [v]\<rparr>))))"

definition set_current_version :: "uuid option \<Rightarrow> uuid \<Rightarrow> db \<Rightarrow> db_error + db" where
  "set_current_version v f s =
     bindE (guardE (f \<in> fil_id ` set (files s) \<longrightarrow>
              (case v of None \<Rightarrow> True | Some v' \<Rightarrow> v' \<in> ver_id ` set (versions s))) ForeignKeyViolation) (\<lambda>_.
       Inr (s\<lparr>files := update_where (\<lambda>r. fil_id r = f) (\<lambda>r. r\<lparr>fil_current_version := v\<rparr>) (files s)\<rparr>))"

definition insert_object :: "object_row \<Rightarrow> db \<Rightarrow> db_error + db" where
  "insert_object b s =
     bindE (guardE (0 \<le> obj_size_bytes b) CheckViolation) (\<lambda>_.
     bindE (guardE (\<forall>r \<in> set (objects s). obj_id r \<noteq> obj_id b \<and> obj_storage_key r \<noteq> obj_storage_key b)
              UniqueViolation) (\<lambda>_.
       Inr (s\<lparr>objects := objects s @ [b]\<rparr>)))"

text \<open>
  Deletions with their referential actions: a deleted version clears the current-version
  pointers and removes its index jobs and derivatives; a deleted file is refused while versions refer to it,
  removes the uploads that finalize into it and clears the replace targets; a deleted folder
  clears upload targets; a deleted entry is refused while a child, a folder row or a file row
  refers to it, and takes its shares with their access sessions along; a deleted object is
  refused while a version refers to it.
\<close>

definition delete_versions :: "(version_row \<Rightarrow> bool) \<Rightarrow> db \<Rightarrow> db" where
  "delete_versions p s =
     (let gone = ver_id ` set (filter p (versions s)) in
      s\<lparr>versions := filter (\<lambda>v. \<not> p v) (versions s),
        files := update_where (\<lambda>r. case fil_current_version r of None \<Rightarrow> False | Some v \<Rightarrow> v \<in> gone)
                   (\<lambda>r. r\<lparr>fil_current_version := None\<rparr>) (files s),
        jobs := filter (\<lambda>j. job_version j \<notin> gone) (jobs s),
        derivatives := filter (\<lambda>d. der_version d \<notin> gone) (derivatives s)\<rparr>)"

definition delete_file :: "uuid \<Rightarrow> db \<Rightarrow> db_error + db" where
  "delete_file f s =
     bindE (guardE (f \<notin> ver_file ` set (versions s)) ForeignKeyViolation) (\<lambda>_.
       Inr (s\<lparr>files := filter (\<lambda>r. fil_id r \<noteq> f) (files s),
              uploads := update_where (\<lambda>u. upl_replace_file u = Some f) (\<lambda>u. u\<lparr>upl_replace_file := None\<rparr>)
                 (filter (\<lambda>u. upl_final_file u \<noteq> Some f) (uploads s))\<rparr>))"

definition delete_folder :: "uuid \<Rightarrow> db \<Rightarrow> db" where
  "delete_folder f s =
     s\<lparr>folders := filter (\<lambda>i. i \<noteq> f) (folders s),
       uploads := update_where (\<lambda>u. upl_target_parent u = Some f) (\<lambda>u. u\<lparr>upl_target_parent := None\<rparr>)
          (uploads s)\<rparr>"

definition delete_entry :: "uuid \<Rightarrow> uuid \<Rightarrow> db \<Rightarrow> db_error + db" where
  "delete_entry i owner s =
     (if \<not> (\<exists>e \<in> set (entries s). ent_id e = i \<and> ent_owner e = owner) then Inr s
      else
        bindE (guardE (\<not> (\<exists>e \<in> set (entries s). ent_parent e = Some i \<and> ent_id e \<noteq> i)
                 \<and> i \<notin> set (folders s) \<and> i \<notin> fil_id ` set (files s)) ForeignKeyViolation) (\<lambda>_.
          let gone = shr_id ` set (filter (\<lambda>r. shr_resource r = Some i) (shares s)) in
          Inr (s\<lparr>entries := filter (\<lambda>e. ent_id e \<noteq> i) (entries s),
                 shares := filter (\<lambda>r. shr_resource r \<noteq> Some i) (shares s),
                 access_sessions := filter (\<lambda>a. acc_share a \<notin> gone) (access_sessions s),
                 album_items := filter (\<lambda>m. itm_file m \<noteq> i) (album_items s)\<rparr>)))"

definition delete_object :: "uuid \<Rightarrow> db \<Rightarrow> db_error + db" where
  "delete_object b s =
     (if b \<notin> obj_id ` set (objects s) then Inr s
      else
        bindE (guardE (b \<notin> ver_object ` set (versions s)) ForeignKeyViolation) (\<lambda>_.
        bindE (guardE (\<not> (\<exists>u \<in> set (uploads s). upl_object u = Some b \<and> upl_state u = Finalizing)) CheckViolation) (\<lambda>_.
          Inr (s\<lparr>objects := filter (\<lambda>r. obj_id r \<noteq> b) (objects s),
                 uploads := update_where (\<lambda>u. upl_object u = Some b) (\<lambda>u. u\<lparr>upl_object := None\<rparr>) (uploads s)\<rparr>))))"

definition add_audit :: "string \<Rightarrow> uuid option \<Rightarrow> uuid option \<Rightarrow> db \<Rightarrow> db" where
  "add_audit t a r s = s\<lparr>audits := audits s @ [\<lparr>aud_type = t, aud_actor = a, aud_resource = r\<rparr>]\<rparr>"

definition add_job :: "uuid \<Rightarrow> string \<Rightarrow> int \<Rightarrow> db \<Rightarrow> db" where
  "add_job v t n s =
     (let j = \<lparr>job_version = v, job_task = t, job_recipe = n\<rparr> in
      if j \<in> set (jobs s) then s else s\<lparr>jobs := jobs s @ [j]\<rparr>)"

section \<open>Statements on the account tables\<close>

text \<open>
  Inserting an account: the unique index on \<open>lower(email)\<close>, the constraints on managed
  accounts and the trigger \<open>users_member_manager_guard\<close>.
\<close>

definition user_row_check :: "db \<Rightarrow> user_row \<Rightarrow> bool" where
  "user_row_check s u \<longleftrightarrow>
     (usr_role u = Member) = (usr_managed_by u \<noteq> None)
     \<and> (usr_role u = Member \<longrightarrow> usr_quota_bytes u \<noteq> None)
     \<and> (case usr_quota_bytes u of None \<Rightarrow> True | Some q \<Rightarrow> 0 \<le> q)
     \<and> usr_managed_by u \<noteq> Some (usr_id u)
     \<and> (case usr_managed_by u of None \<Rightarrow> True
        | Some m \<Rightarrow> (case find_row usr_id m (users s) of None \<Rightarrow> False | Some r \<Rightarrow> usr_role r = Owner))"

definition insert_user :: "(ustr \<Rightarrow> ustr) \<Rightarrow> user_row \<Rightarrow> db \<Rightarrow> db_error + db" where
  "insert_user lower u s =
     bindE (guardE (user_row_check s u) CheckViolation) (\<lambda>_.
     bindE (guardE (\<forall>r \<in> set (users s). usr_id r \<noteq> usr_id u \<and> lower (usr_email r) \<noteq> lower (usr_email u))
              UniqueViolation) (\<lambda>_.
       Inr (s\<lparr>users := users s @ [u]\<rparr>)))"

definition insert_session :: "session_row \<Rightarrow> db \<Rightarrow> db_error + db" where
  "insert_session r s =
     bindE (guardE (length (ses_token_digest r) = 32 \<and> length (ses_csrf_digest r) = 32) CheckViolation) (\<lambda>_.
     bindE (guardE (\<forall>x \<in> set (sessions s). ses_id x \<noteq> ses_id r \<and> ses_token_digest x \<noteq> ses_token_digest r)
              UniqueViolation) (\<lambda>_.
     bindE (guardE (ses_user r \<in> usr_id ` set (users s)) ForeignKeyViolation) (\<lambda>_.
       Inr (s\<lparr>sessions := sessions s @ [r]\<rparr>))))"

section \<open>Statements on the device tables\<close>

definition label_check :: "nat \<Rightarrow> ustr \<Rightarrow> bool" where
  "label_check n v \<longleftrightarrow> 1 \<le> length (trim_by (\<lambda>c. c = 32) v) \<and> length (trim_by (\<lambda>c. c = 32) v) \<le> n"

definition insert_device :: "device_row \<Rightarrow> db \<Rightarrow> db_error + db" where
  "insert_device d s =
     bindE (guardE (label_check 120 (dev_name d) \<and> label_check 80 (dev_client_name d)
              \<and> label_check 120 (dev_operating_system d) \<and> label_check 40 (dev_client_version d))
              CheckViolation) (\<lambda>_.
     bindE (guardE (dev_id d \<notin> dev_id ` set (devices s)) UniqueViolation) (\<lambda>_.
     bindE (guardE (dev_owner d \<in> usr_id ` set (users s)) ForeignKeyViolation) (\<lambda>_.
       Inr (s\<lparr>devices := devices s @ [d]\<rparr>))))"

definition user_code_alphabet :: "ustr" where
  "user_code_alphabet = lit ''ABCDEFGHJKLMNPQRSTUVWXYZ23456789''"

text \<open>The check \<open>^[A-Z2-9]{4}-[A-Z2-9]{4}$\<close> on \<open>user_code\<close>, without I, O, 0 and 1.\<close>

definition user_code_check :: "ustr \<Rightarrow> bool" where
  "user_code_check c \<longleftrightarrow> length c = 9 \<and> c ! 4 = 45
     \<and> list_all (\<lambda>x. x \<in> set user_code_alphabet) (take 4 c @ drop 5 c)"

definition insert_grant :: "grant_row \<Rightarrow> db \<Rightarrow> db_error + db" where
  "insert_grant g s =
     bindE (guardE (length (gra_code_digest g) = 32 \<and> user_code_check (gra_user_code g)
              \<and> 1 \<le> gra_poll_interval g \<and> gra_poll_interval g \<le> 60) CheckViolation) (\<lambda>_.
     bindE (guardE (\<forall>x \<in> set (grants s). gra_id x \<noteq> gra_id g \<and> gra_code_digest x \<noteq> gra_code_digest g
              \<and> gra_user_code x \<noteq> gra_user_code g) UniqueViolation) (\<lambda>_.
       Inr (s\<lparr>grants := grants s @ [g]\<rparr>)))"

definition insert_credential :: "credential_row \<Rightarrow> db \<Rightarrow> db_error + db" where
  "insert_credential c s =
     bindE (guardE (length (crd_access_digest c) = 32 \<and> length (crd_refresh_digest c) = 32) CheckViolation) (\<lambda>_.
     bindE (guardE (\<forall>x \<in> set (credentials s). crd_id x \<noteq> crd_id c
              \<and> crd_access_digest x \<noteq> crd_access_digest c \<and> crd_refresh_digest x \<noteq> crd_refresh_digest c)
              UniqueViolation) (\<lambda>_.
     bindE (guardE (crd_device c \<in> dev_id ` set (devices s)) ForeignKeyViolation) (\<lambda>_.
       Inr (s\<lparr>credentials := credentials s @ [c]\<rparr>))))"

end
