(* ===== verification/Media_Types.thy ===== *)
theory Media_Types
  imports Database
begin

text \<open>
  Detection of media types from file signatures and the tables that decide what is previewed
  and indexed: the sniffer and its companions of \<open>src/transfers.rs\<close>, the worker's
  signature check of \<open>src/media_indexer.rs\<close> and the sniffer and name-based classification
  of \<open>src/google_drive.rs\<close>. Bytes are characters, so signatures are string literals.
\<close>

section \<open>The upload sniffer (\<open>transfers.rs\<close>)\<close>

definition ftyp_at_4 :: "bytes \<Rightarrow> bool" where
  "ftyp_at_4 h \<longleftrightarrow> 8 \<le> length h \<and> take 4 (drop 4 h) = ''ftyp''"

definition riff_of :: "string \<Rightarrow> bytes \<Rightarrow> bool" where
  "riff_of form h \<longleftrightarrow> 12 \<le> length h \<and> take 4 h = ''RIFF'' \<and> take 4 (drop 8 h) = form"

definition ebml :: "bytes" where
  "ebml = [CHR 0x1A, CHR 0x45, CHR 0xDF, CHR 0xA3]"

definition png_magic :: "bytes" where
  "png_magic = CHR 0x89 # ''PNG'' @ [CHR 0x0D, CHR 0x0A, CHR 0x1A, CHR 0x0A]"

definition asf_magic :: "bytes" where
  "asf_magic = [CHR 0x30, CHR 0x26, CHR 0xB2, CHR 0x75, CHR 0x8E, CHR 0x66, CHR 0xCF, CHR 0x11,
     CHR 0xA6, CHR 0xD9, CHR 0x00, CHR 0xAA, CHR 0x00, CHR 0x62, CHR 0xCE, CHR 0x6C]"

definition heic_brands :: "string list" where
  "heic_brands = [''heic'', ''heix'', ''hevc'', ''hevx'']"

definition heif_brands :: "string list" where
  "heif_brands = [''heic'', ''heix'', ''hevc'', ''hevx'', ''mif1'', ''msf1'']"

definition tgp_brands :: "string list" where
  "tgp_brands = [''3gp4'', ''3gp5'', ''3gp6'', ''3gp7'', ''3gg6'', ''3gs6'']"

definition mp4_brands :: "string list" where
  "mp4_brands = [''isom'', ''iso2'', ''iso5'', ''iso6'', ''mp41'', ''mp42'', ''avc1'', ''M4V '',
     ''dash'', ''MSNV'']"

definition sync_byte_at :: "nat \<Rightarrow> bytes \<Rightarrow> bool" where
  "sync_byte_at i h \<longleftrightarrow> i < length h \<and> h ! i = CHR 0x47"

definition transport_stream :: "bytes \<Rightarrow> bool" where
  "transport_stream h \<longleftrightarrow> 377 \<le> length h \<and> list_all (\<lambda>i. sync_byte_at i h) [0, 188, 376]"

definition sniff_media_type :: "bytes \<Rightarrow> string option" where
  "sniff_media_type h =
     (if starts_with h ''%PDF-'' then Some ''application/pdf''
      else if starts_with h png_magic then Some ''image/png''
      else if starts_with h [CHR 0xFF, CHR 0xD8, CHR 0xFF] then Some ''image/jpeg''
      else if starts_with h ''GIF87a'' \<or> starts_with h ''GIF89a'' then Some ''image/gif''
      else if riff_of ''WEBP'' h then Some ''image/webp''
      else if starts_with h ''BM'' then Some ''image/bmp''
      else if starts_with h [CHR 0x00, CHR 0x00, CHR 0x01, CHR 0x00] then Some ''image/x-icon''
      else if starts_with h [CHR ''I'', CHR ''I'', CHR 0x2A, CHR 0x00]
           \<or> starts_with h [CHR ''M'', CHR ''M'', CHR 0x00, CHR 0x2A] then Some ''image/tiff''
      else if ftyp_at_4 h \<and> has_window [''avif'', ''avis''] 4 h then Some ''image/avif''
      else if ftyp_at_4 h \<and> has_window heif_brands 4 h then
        Some (if has_window heic_brands 4 h then ''image/heic'' else ''image/heif'')
      else if ftyp_at_4 h \<and> has_window [''qt  ''] 4 h then Some ''video/quicktime''
      else if ftyp_at_4 h \<and> has_window tgp_brands 4 h then Some ''video/3gpp''
      else if ftyp_at_4 h \<and> has_window mp4_brands 4 h then Some ''video/mp4''
      else if starts_with h ebml \<and> has_window [''webm''] 4 h then Some ''video/webm''
      else if starts_with h ebml \<and> has_window [''matroska''] 8 h then Some ''video/x-matroska''
      else if riff_of ''AVI '' h then Some ''video/x-msvideo''
      else if starts_with h ''OggS'' \<and> has_window [''theora''] 6 h then Some ''video/ogg''
      else if starts_with h ''FLV'' \<and> 3 < length h \<and> h ! 3 = CHR 0x01 then Some ''video/x-flv''
      else if starts_with h [CHR 0x00, CHR 0x00, CHR 0x01, CHR 0xBA]
           \<or> starts_with h [CHR 0x00, CHR 0x00, CHR 0x01, CHR 0xB3] then Some ''video/mpeg''
      else if 16 \<le> length h \<and> starts_with h asf_magic then Some ''video/x-ms-wmv''
      else if transport_stream h then Some ''video/mp2t''
      else None)"

definition image_mimes :: "string list" where
  "image_mimes = [''image/jpeg'', ''image/png'', ''image/gif'', ''image/webp'', ''image/avif'',
     ''image/bmp'', ''image/x-icon'', ''image/tiff'', ''image/heic'', ''image/heif'']"

definition video_mimes :: "string list" where
  "video_mimes = [''video/mp4'', ''video/webm'', ''video/quicktime'', ''video/x-matroska'',
     ''video/x-msvideo'', ''video/ogg'', ''video/mpeg'', ''video/mp2t'', ''video/x-flv'',
     ''video/x-ms-wmv'', ''video/3gpp'']"

definition is_indexable_image_mime :: "string option \<Rightarrow> bool" where
  "is_indexable_image_mime m = (case m of None \<Rightarrow> False | Some t \<Rightarrow> t \<in> set image_mimes)"

definition is_indexable_video_mime :: "string option \<Rightarrow> bool" where
  "is_indexable_video_mime m = (case m of None \<Rightarrow> False | Some t \<Rightarrow> t \<in> set video_mimes)"

definition supports_viewer_derivative :: "string option \<Rightarrow> bool" where
  "supports_viewer_derivative m = is_indexable_image_mime m"

definition supports_video_preview :: "string option \<Rightarrow> bool" where
  "supports_video_preview m = is_indexable_video_mime m"

definition thumbnail_variant_for_mime :: "string option \<Rightarrow> (string \<times> nat) option" where
  "thumbnail_variant_for_mime m =
     (if is_indexable_image_mime m then Some (''card'', 512 * 1024)
      else if is_indexable_video_mime m then Some (''video_poster'', 512 * 1024)
      else None)"

definition media_index_task :: "string option \<Rightarrow> (string \<times> int) option" where
  "media_index_task m =
     (if is_indexable_image_mime m then Some (''image_preview'', 1)
      else if is_indexable_video_mime m then Some (''video_thumbnail'', 1)
      else None)"

definition is_face_indexable_media :: "string option \<Rightarrow> bool" where
  "is_face_indexable_media m \<longleftrightarrow> is_indexable_image_mime m \<or> is_indexable_video_mime m"

definition enqueue_media_index_jobs :: "uuid \<Rightarrow> string option \<Rightarrow> db \<Rightarrow> db" where
  "enqueue_media_index_jobs v m s =
     (let s1 = (case media_index_task m of None \<Rightarrow> s | Some (task, n) \<Rightarrow> add_job v task n s);
          s2 = (if is_indexable_video_mime m then add_job v ''video_preview'' 1 s1 else s1)
      in if is_face_indexable_media m then add_job v ''face_index'' 3 s2 else s2)"

definition safe_preview_mimes :: "string list" where
  "safe_preview_mimes = [''application/pdf'', ''image/jpeg'', ''image/png'', ''image/gif'',
     ''image/webp'', ''image/avif'', ''image/bmp'', ''image/x-icon'', ''image/tiff'', ''image/heic'',
     ''image/heif'', ''video/mp4'', ''video/webm'', ''video/quicktime'', ''video/x-matroska'',
     ''video/x-msvideo'', ''video/ogg'', ''video/mpeg'', ''video/mp2t'', ''video/x-flv'',
     ''video/x-ms-wmv'', ''video/3gpp'']"

definition safe_preview_mime :: "string \<Rightarrow> string option" where
  "safe_preview_mime m = (if m \<in> set safe_preview_mimes then Some m else None)"

section \<open>The worker's signature check (\<open>media_indexer.rs\<close>)\<close>

definition matches_magic :: "string \<Rightarrow> bytes \<Rightarrow> bool" where
  "matches_magic m h =
     (if m = ''image/jpeg'' then starts_with h [CHR 0xFF, CHR 0xD8, CHR 0xFF]
      else if m = ''image/png'' then starts_with h png_magic
      else if m = ''image/gif'' then starts_with h ''GIF87a'' \<or> starts_with h ''GIF89a''
      else if m = ''image/webp'' then riff_of ''WEBP'' h
      else if m = ''image/avif'' then ftyp_at_4 h \<and> has_window [''avif'', ''avis''] 4 h
      else if m = ''image/bmp'' then starts_with h ''BM''
      else if m = ''image/x-icon'' then starts_with h [CHR 0x00, CHR 0x00, CHR 0x01, CHR 0x00]
      else if m = ''image/tiff'' then starts_with h [CHR ''I'', CHR ''I'', CHR 0x2A, CHR 0x00]
        \<or> starts_with h [CHR ''M'', CHR ''M'', CHR 0x00, CHR 0x2A]
      else if m = ''image/heic'' \<or> m = ''image/heif'' then ftyp_at_4 h \<and> has_window heif_brands 4 h
      else if m = ''video/mp4'' then ftyp_at_4 h \<and> 12 \<le> length h
      else if m = ''video/webm'' then starts_with h ebml \<and> has_window [''webm''] 4 h
      else if m = ''video/quicktime'' then ftyp_at_4 h \<and> has_window [''qt  ''] 4 h
      else if m = ''video/x-matroska'' then starts_with h ebml \<and> has_window [''matroska''] 8 h
      else if m = ''video/x-msvideo'' then riff_of ''AVI '' h
      else if m = ''video/ogg'' then starts_with h ''OggS'' \<and> has_window [''theora''] 6 h
      else if m = ''video/mpeg'' then starts_with h [CHR 0x00, CHR 0x00, CHR 0x01, CHR 0xBA]
        \<or> starts_with h [CHR 0x00, CHR 0x00, CHR 0x01, CHR 0xB3]
      else if m = ''video/mp2t'' then transport_stream h
      else if m = ''video/x-flv'' then starts_with h ''FLV'' \<and> 3 < length h \<and> h ! 3 = CHR 0x01
      else if m = ''video/x-ms-wmv'' then starts_with h asf_magic
      else if m = ''video/3gpp'' then ftyp_at_4 h \<and> has_window tgp_brands 4 h
      else False)"

definition supports_image_mime :: "string \<Rightarrow> bool" where
  "supports_image_mime m \<longleftrightarrow> m \<in> set image_mimes"

definition supports_ffmpeg_image_mime :: "string \<Rightarrow> bool" where
  "supports_ffmpeg_image_mime m \<longleftrightarrow> m \<in> {''image/gif'', ''image/avif'', ''image/bmp'', ''image/x-icon''}"

definition supports_video_mime :: "string \<Rightarrow> bool" where
  "supports_video_mime m \<longleftrightarrow> m \<in> set video_mimes"

definition media_extension :: "string \<Rightarrow> string option" where
  "media_extension m = map_of
     [(''image/jpeg'', ''jpg''), (''image/png'', ''png''), (''image/gif'', ''gif''),
      (''image/webp'', ''webp''), (''image/avif'', ''avif''), (''image/bmp'', ''bmp''),
      (''image/x-icon'', ''ico''), (''image/tiff'', ''tiff''), (''image/heic'', ''heic''),
      (''image/heif'', ''heif''), (''video/mp4'', ''mp4''), (''video/webm'', ''webm''),
      (''video/quicktime'', ''mov''), (''video/x-matroska'', ''mkv''), (''video/x-msvideo'', ''avi''),
      (''video/ogg'', ''ogv''), (''video/mpeg'', ''mpg''), (''video/mp2t'', ''ts''),
      (''video/x-flv'', ''flv''), (''video/x-ms-wmv'', ''wmv''), (''video/3gpp'', ''3gp'')] m"

section \<open>Header values\<close>

text \<open>
  \<open>char::is_whitespace\<close> on the characters a header value can hold (\<open>to_str\<close>
  refuses anything outside visible ASCII, space and tab).
\<close>

definition ascii_space :: "char \<Rightarrow> bool" where
  "ascii_space c \<longleftrightarrow> is_whitespace (of_char c)"

definition if_none_match_matches :: "string \<Rightarrow> string \<Rightarrow> bool" where
  "if_none_match_matches header etag =
     list_ex (\<lambda>candidate. let c = trim_by ascii_space candidate in
        c = ''*'' \<or> c = etag \<or> strip_prefix ''W/'' c = Some etag) (split_on (CHR '','') header)"

text \<open>\<open>parse_http_date\<close> is the parser of the \<open>httpdate\<close> crate.\<close>

definition if_range_matches :: "(string \<Rightarrow> instant option) \<Rightarrow> string \<Rightarrow> string \<Rightarrow> instant \<Rightarrow> bool" where
  "if_range_matches parse_http_date value etag last_modified =
     (if starts_with value ''W/'' then False
      else if starts_with value [CHR 0x22] then value = etag
      else (case parse_http_date value of None \<Rightarrow> False | Some date \<Rightarrow> last_modified \<le> date))"

definition hex_lower :: "nat \<Rightarrow> char" where
  "hex_lower n = ''0123456789abcdef'' ! n"

definition hex_upper :: "nat \<Rightarrow> char" where
  "hex_upper n = ''0123456789ABCDEF'' ! n"

definition byte_hi :: "char \<Rightarrow> nat" where
  "byte_hi c = of_char c div 16"

definition byte_lo :: "char \<Rightarrow> nat" where
  "byte_lo c = of_char c mod 16"

definition hex_digest :: "bytes \<Rightarrow> string" where
  "hex_digest bs = concat (map (\<lambda>b. [hex_lower (byte_hi b), hex_lower (byte_lo b)]) bs)"

definition is_ascii_alphanumeric :: "char \<Rightarrow> bool" where
  "is_ascii_alphanumeric c = (let n = (of_char c :: nat) in
     (48 \<le> n \<and> n \<le> 57) \<or> (65 \<le> n \<and> n \<le> 90) \<or> (97 \<le> n \<and> n \<le> 122))"

definition unreserved :: "char \<Rightarrow> bool" where
  "unreserved c \<longleftrightarrow> is_ascii_alphanumeric c \<or> c \<in> set ''-_.~''"

definition encode_filename :: "bytes \<Rightarrow> string" where
  "encode_filename bs =
     concat (map (\<lambda>b. if unreserved b then [b]
                       else [CHR ''%'', hex_upper (byte_hi b), hex_upper (byte_lo b)]) bs)"

section \<open>Reference decoders\<close>

definition hex_value :: "char \<Rightarrow> nat" where
  "hex_value c = (let n = (of_char c :: nat) in
     if n \<le> 57 then n - 48 else if n \<le> 70 then n - 55 else n - 87)"

fun percent_decode :: "string \<Rightarrow> bytes" where
  "percent_decode (c # a # b # s) =
     (if c = CHR ''%'' then char_of (16 * hex_value a + hex_value b) # percent_decode s
      else c # percent_decode (a # b # s))"
| "percent_decode s = s"

fun hex_decode :: "string \<Rightarrow> bytes" where
  "hex_decode (a # b # s) = char_of (16 * hex_value a + hex_value b) # hex_decode s"
| "hex_decode s = []"

definition lower_hex_digit :: "char \<Rightarrow> bool" where
  "lower_hex_digit c = (let n = (of_char c :: nat) in (48 \<le> n \<and> n \<le> 57) \<or> (97 \<le> n \<and> n \<le> 102))"

lemma hex_digits_16:
  "\<forall>n < 16. hex_value (hex_upper n) = n"
  "\<forall>n < 16. hex_value (hex_lower n) = n"
  "\<forall>n < 16. lower_hex_digit (hex_lower n)"
  "\<forall>n < 16. unreserved (hex_upper n)"
  by code_simp+

lemma hex_value_upper: "n < 16 \<Longrightarrow> hex_value (hex_upper n) = n"
  using hex_digits_16(1) by blast

lemma hex_value_lower: "n < 16 \<Longrightarrow> hex_value (hex_lower n) = n"
  using hex_digits_16(2) by blast

lemma of_char_less: "(of_char c :: nat) < 256"
  using of_char_of [of "of_char c :: nat"] by (simp add: mod_eq_self_iff_div_eq_0 div_eq_0_iff)

lemma byte_parts:
  "byte_hi c < 16" "byte_lo c < 16" "char_of (16 * byte_hi c + byte_lo c) = c"
proof -
  show "byte_hi c < 16" using of_char_less [of c] unfolding byte_hi_def by linarith
  show "byte_lo c < 16" unfolding byte_lo_def by simp
  show "char_of (16 * byte_hi c + byte_lo c) = c"
    unfolding byte_hi_def byte_lo_def by (simp add: mult_div_mod_eq)
qed

lemma percent_decode_cons: "c \<noteq> CHR ''%'' \<Longrightarrow> percent_decode (c # s) = c # percent_decode s"
  by (cases s rule: percent_decode.cases) auto

lemma encode_filename_cons:
  "encode_filename (b # bs) =
     (if unreserved b then b # encode_filename bs
      else CHR ''%'' # hex_upper (byte_hi b) # hex_upper (byte_lo b) # encode_filename bs)"
  by (simp add: encode_filename_def)

section \<open>Properties\<close>

text \<open>
  What the upload sniffer recognises as media, the indexing worker accepts: if the first
  bytes of a file of at least twelve bytes are sniffed as a type other than PDF, the worker
  supports that type, has an extension for it and its signature check on the same bytes
  succeeds, so the queued index job does not fail on the signature.
\<close>

lemma sniffed_media_accepted_by_worker:
  assumes "sniff_media_type h = Some m" and "m \<noteq> ''application/pdf''" and "12 \<le> length h"
  shows "matches_magic m h \<and> (supports_image_mime m \<or> supports_video_mime m)
    \<and> media_extension m \<noteq> None"
proof -
  have "matches_magic m h"
    using assms
    by (clarsimp simp: sniff_media_type_def split: if_split_asm) (simp_all add: matches_magic_def)
  moreover have "supports_image_mime m \<or> supports_video_mime m"
    using assms(1,2)
    by (auto simp: sniff_media_type_def supports_image_mime_def supports_video_mime_def
        image_mimes_def video_mimes_def split: if_splits)
  moreover have "media_extension m \<noteq> None"
    using assms(1,2) by (auto simp: sniff_media_type_def media_extension_def split: if_splits)
  ultimately show ?thesis by blast
qed

text \<open>
  What a signature names is on the allow-list of inline types, so that active content such as
  HTML or SVG, which no signature names, never gets an inline media type.
\<close>

lemma sniffed_types: "sniff_media_type h = Some m \<Longrightarrow> m \<in> set safe_preview_mimes"
  by (auto simp: sniff_media_type_def safe_preview_mimes_def split: if_splits)

text \<open>
  The encoding of file names in \<open>Content-Disposition\<close> is reversible and safe: percent
  decoding gives the name's bytes back, and every character of the encoding is unreserved or
  a percent sign, so no quote, separator or line break reaches the header.
\<close>

lemma encode_filename_roundtrip:
  "percent_decode (encode_filename bs) = bs
   \<and> list_all (\<lambda>c. unreserved c \<or> c = CHR ''%'') (encode_filename bs)"
proof (induction bs)
  case Nil
  show ?case by (simp add: encode_filename_def)
next
  case (Cons b bs)
  note upper = hex_digits_16(4) [rule_format]
  have pct: "b \<noteq> CHR ''%''" if "unreserved b"
    using that by (auto simp: unreserved_def is_ascii_alphanumeric_def)
  show ?case
    using Cons pct upper byte_parts [of b]
    by (auto simp: encode_filename_cons percent_decode_cons hex_value_upper)
qed

end
