(* ===== verification/Names.thy ===== *)
theory Names
  imports Media_Types
begin

text \<open>
  Entry names and request parameters: validation and derivation of names in
  \<open>src/drive.rs\<close> (\<open>normalize_name\<close>, \<open>copy_display_name\<close>), the account rules of
  \<open>src/auth.rs\<close>, the names given to imported files in \<open>src/google_drive.rs\<close>
  (\<open>storage_entry_name\<close>) with its classification helpers, and the page and sort parameters.
\<close>

section \<open>Errors of the drive handlers\<close>

datatype drive_error = BadRequest | NotFound | Conflict | Protected | Csrf | DatabaseError

definition drive_error_response :: "drive_error \<Rightarrow> nat \<times> string" where
  "drive_error_response e = (case e of
      BadRequest \<Rightarrow> (400, ''invalid_request'')
    | NotFound \<Rightarrow> (404, ''not_found'')
    | Conflict \<Rightarrow> (409, ''conflict'')
    | Protected \<Rightarrow> (409, ''protected_entry'')
    | Csrf \<Rightarrow> (403, ''csrf_failed'')
    | DatabaseError \<Rightarrow> (503, ''service_unavailable''))"

definition map_database_error :: "db_error \<Rightarrow> drive_error" where
  "map_database_error e = (case e of
      UniqueViolation \<Rightarrow> Conflict
    | CheckViolation \<Rightarrow> Conflict
    | ForeignKeyViolation \<Rightarrow> NotFound
    | OtherDbError \<Rightarrow> DatabaseError)"

section \<open>Names of entries (\<open>drive.rs\<close>)\<close>

definition normalize_name :: "ustr \<Rightarrow> drive_error + ustr" where
  "normalize_name value =
     (let name = trim value; len = length name in
      if len = 0 \<or> 255 < len \<or> name = lit ''.'' \<or> name = lit ''..''
         \<or> list_ex (\<lambda>c. is_control c \<or> c = 47 \<or> c = 92) name
      then Inl BadRequest else Inr name)"

text \<open>\<open>str::rfind\<close> and \<open>rsplit_once\<close>: the parts before and after the last occurrence.\<close>

definition rsplit_once :: "'a \<Rightarrow> 'a list \<Rightarrow> ('a list \<times> 'a list) option" where
  "rsplit_once d s = map_option (\<lambda>(a, b). (rev b, rev a)) (split_once d (rev s))"

definition stem_and_extension :: "ustr \<Rightarrow> bool \<Rightarrow> ustr \<times> ustr" where
  "stem_and_extension original is_file =
     (if is_file then
        (case rsplit_once 46 original of
           Some (stem, ext) \<Rightarrow>
             if stem \<noteq> [] \<and> text_len (46 # ext) \<le> 12 then (stem, 46 # ext) else (original, [])
         | None \<Rightarrow> (original, []))
      else (original, []))"

definition copy_suffix :: "nat \<Rightarrow> ustr" where
  "copy_suffix attempt = (if attempt \<le> 1 then lit '' copy'' else lit '' copy '' @ lit (show_nat attempt))"

definition copy_display_name :: "ustr \<Rightarrow> nat \<Rightarrow> bool \<Rightarrow> ustr" where
  "copy_display_name original attempt is_file =
     (let suffix = copy_suffix attempt;
          (stem, extension) = stem_and_extension original is_file;
          name = stem @ suffix @ extension
      in if 255 < length name then
           (let extra = length suffix + length extension; budget = max (255 - extra) 1
            in take budget stem @ suffix @ extension)
         else name)"

section \<open>Page and sort parameters (\<open>drive.rs\<close>)\<close>

definition page_limit :: "nat option \<Rightarrow> drive_error + nat" where
  "page_limit limit =
     (let l = (case limit of None \<Rightarrow> 100 | Some l \<Rightarrow> l) in
      if l = 0 \<or> 200 < l then Inl BadRequest else Inr l)"

definition page_offset :: "nat option \<Rightarrow> drive_error + nat" where
  "page_offset offset =
     (let n = (case offset of None \<Rightarrow> 0 | Some n \<Rightarrow> n) in
      if 1000000 < n then Inl BadRequest else Inr n)"

datatype sort_column = LowerName | CreatedAt | UpdatedAt | DeletedAt | FolderSize | FileSize
datatype direction = Asc | Desc

definition sort_parts :: "string option \<Rightarrow> string option \<Rightarrow> string \<Rightarrow> string \<Rightarrow> bool
    \<Rightarrow> drive_error + sort_column \<times> direction" where
  "sort_parts sort_by order default_sort default_order folder_stats =
     (let by = (case sort_by of None \<Rightarrow> default_sort | Some v \<Rightarrow> v);
          dir = (case order of None \<Rightarrow> default_order | Some v \<Rightarrow> v) in
      bindE (if by = ''name'' then Inr LowerName
             else if by = ''created_at'' then Inr CreatedAt
             else if by = ''updated_at'' then Inr UpdatedAt
             else if by = ''deleted_at'' then Inr DeletedAt
             else if by = ''size'' \<and> folder_stats then Inr FolderSize
             else if by = ''size'' then Inr FileSize
             else Inl BadRequest) (\<lambda>column.
      bindE (if dir = ''asc'' then Inr Asc else if dir = ''desc'' then Inr Desc else Inl BadRequest)
        (\<lambda>d. Inr (column, d))))"

section \<open>Accounts (\<open>auth.rs\<close>)\<close>

definition valid_email :: "ustr \<Rightarrow> bool" where
  "valid_email email =
     (case split_once 64 email of
        None \<Rightarrow> False
      | Some (local_part, domain) \<Rightarrow>
          local_part \<noteq> [] \<and> domain \<noteq> [] \<and> 46 \<in> set domain \<and> text_len email \<le> 320
          \<and> \<not> list_ex is_whitespace email)"

definition valid_password :: "ustr \<Rightarrow> bool" where
  "valid_password password \<longleftrightarrow> text_len password \<le> 1024 \<and> 12 \<le> length password"

section \<open>Names of imported files (\<open>google_drive.rs\<close>)\<close>

definition ascii_alnum :: "nat \<Rightarrow> bool" where
  "ascii_alnum n \<longleftrightarrow> (48 \<le> n \<and> n \<le> 57) \<or> (65 \<le> n \<and> n \<le> 90) \<or> (97 \<le> n \<and> n \<le> 122)"

definition valid_extension :: "ustr \<Rightarrow> bool" where
  "valid_extension ext \<longleftrightarrow> 1 \<le> text_len ext \<and> text_len ext \<le> 8 \<and> list_all ascii_alnum ext"

definition extension_of :: "ustr \<Rightarrow> ustr option" where
  "extension_of name =
     (case rsplit_once 46 name of
        None \<Rightarrow> None
      | Some (stem, ext) \<Rightarrow> if stem = [] \<or> \<not> valid_extension ext then None else Some ext)"

definition insert_attempt :: "ustr \<Rightarrow> nat \<Rightarrow> ustr" where
  "insert_attempt name number =
     (let marker = lit '' ('' @ lit (show_nat number) @ lit '')'' in
      case rsplit_once 46 name of
        Some (stem, ext) \<Rightarrow>
          if stem \<noteq> [] \<and> valid_extension ext then stem @ marker @ 46 # ext else name @ marker
      | None \<Rightarrow> name @ marker)"

definition limit_entry_name :: "ustr \<Rightarrow> ustr" where
  "limit_entry_name name =
     (if length name \<le> 255 then name
      else case rsplit_once 46 name of
        Some (stem, ext) \<Rightarrow>
          if valid_extension ext then take (max (255 - length ext - 1) 1) stem @ 46 # ext
          else take 255 name
      | None \<Rightarrow> take 255 name)"

definition last_component :: "ustr \<Rightarrow> ustr" where
  "last_component raw = rev (takeWhile (\<lambda>c. c \<noteq> 47 \<and> c \<noteq> 92) (rev raw))"

definition ends_with :: "'a list \<Rightarrow> 'a list \<Rightarrow> bool" where
  "ends_with s suffix \<longleftrightarrow> starts_with (rev s) (rev suffix)"

definition storage_entry_name :: "ustr \<Rightarrow> nat \<Rightarrow> ustr option \<Rightarrow> ustr" where
  "storage_entry_name raw attempt extra_extension =
     (let cleaned = map (\<lambda>c. if is_control c \<or> c = 47 \<or> c = 92 then 45 else c) (last_component raw);
          base = trim (trim_by (\<lambda>c. c = 46) (trim cleaned));
          name = (if base = [] \<or> base = lit ''.'' \<or> base = lit ''..'' then lit ''untitled'' else base);
          name = (case extra_extension of
             None \<Rightarrow> name
           | Some ext \<Rightarrow>
               if valid_extension ext
                  \<and> \<not> ends_with (to_ascii_lowercase name) (to_ascii_lowercase (46 # ext))
               then name @ 46 # ext else name);
          name = (if 0 < attempt then insert_attempt name (attempt + 1) else name)
      in limit_entry_name name)"

definition image_extensions :: "string list" where
  "image_extensions = [''jpg'', ''jpeg'', ''png'', ''gif'', ''webp'', ''avif'', ''bmp'', ''ico'', ''tif'',
     ''tiff'', ''heic'', ''heif'']"

definition image_extension :: "ustr \<Rightarrow> bool" where
  "image_extension name = (case extension_of name of None \<Rightarrow> False
     | Some ext \<Rightarrow> to_ascii_lowercase ext \<in> lit ` set image_extensions)"

definition video_extensions :: "string list" where
  "video_extensions = [''mp4'', ''m4v'', ''webm'', ''mov'', ''qt'', ''mkv'', ''avi'', ''ogv'', ''ogg'', ''mpg'',
     ''mpeg'', ''ts'', ''mts'', ''m2ts'', ''flv'', ''wmv'', ''3gp'']"

definition video_extension :: "ustr \<Rightarrow> bool" where
  "video_extension name = (case extension_of name of None \<Rightarrow> False
     | Some ext \<Rightarrow> to_ascii_lowercase ext \<in> lit ` set video_extensions)"

definition google_indexable_image_mime :: "string option \<Rightarrow> bool" where
  "google_indexable_image_mime m = (case m of None \<Rightarrow> False | Some t \<Rightarrow> t \<in> set image_mimes)"

definition google_indexable_video_mime :: "string option \<Rightarrow> bool" where
  "google_indexable_video_mime m = (case m of None \<Rightarrow> False | Some t \<Rightarrow> t \<in> set video_mimes)"

datatype sync_class = ImageClass | VideoClass | OtherClass

fun sync_priority :: "sync_class \<Rightarrow> int" where
  "sync_priority ImageClass = 0"
| "sync_priority VideoClass = 1"
| "sync_priority OtherClass = 2"

definition sync_class :: "string \<Rightarrow> ustr \<Rightarrow> sync_class" where
  "sync_class mime name =
     (if google_indexable_image_mime (Some mime) \<or> image_extension name then ImageClass
      else if google_indexable_video_mime (Some mime) \<or> video_extension name then VideoClass
      else OtherClass)"

definition canonical_index_mime :: "string \<Rightarrow> string option" where
  "canonical_index_mime m =
     (if google_indexable_image_mime (Some m) \<or> google_indexable_video_mime (Some m)
      then (if m \<in> set (image_mimes @ video_mimes) then Some m else None) else None)"

definition name_mimes :: "(string \<times> string) list" where
  "name_mimes = [(''jpg'', ''image/jpeg''), (''jpeg'', ''image/jpeg''), (''png'', ''image/png''),
     (''gif'', ''image/gif''), (''webp'', ''image/webp''), (''avif'', ''image/avif''), (''bmp'', ''image/bmp''),
     (''ico'', ''image/x-icon''), (''tif'', ''image/tiff''), (''tiff'', ''image/tiff''),
     (''heic'', ''image/heic''), (''heif'', ''image/heif''), (''mp4'', ''video/mp4''), (''m4v'', ''video/mp4''),
     (''webm'', ''video/webm''), (''mov'', ''video/quicktime''), (''qt'', ''video/quicktime''),
     (''mkv'', ''video/x-matroska''), (''avi'', ''video/x-msvideo''), (''ogv'', ''video/ogg''),
     (''ogg'', ''video/ogg''), (''mpg'', ''video/mpeg''), (''mpeg'', ''video/mpeg''), (''ts'', ''video/mp2t''),
     (''mts'', ''video/mp2t''), (''m2ts'', ''video/mp2t''), (''flv'', ''video/x-flv''),
     (''wmv'', ''video/x-ms-wmv''), (''3gp'', ''video/3gpp'')]"

definition mime_from_name :: "ustr \<Rightarrow> string option" where
  "mime_from_name name = (case extension_of name of None \<Rightarrow> None
     | Some ext \<Rightarrow> map_of (map (\<lambda>(e, m). (lit e, m)) name_mimes) (to_ascii_lowercase ext))"

definition google_mp4_brands :: "string list" where
  "google_mp4_brands = [''isom'', ''iso2'', ''mp41'', ''mp42'', ''avc1'', ''M4V '']"

definition google_sniff_media_type :: "bytes \<Rightarrow> string option" where
  "google_sniff_media_type h =
     (if starts_with h png_magic then Some ''image/png''
      else if starts_with h [CHR 0xFF, CHR 0xD8, CHR 0xFF] then Some ''image/jpeg''
      else if starts_with h ''GIF87a'' \<or> starts_with h ''GIF89a'' then Some ''image/gif''
      else if riff_of ''WEBP'' h then Some ''image/webp''
      else if starts_with h ''BM'' then Some ''image/bmp''
      else if ftyp_at_4 h \<and> has_window [''avif'', ''avis''] 4 h then Some ''image/avif''
      else if ftyp_at_4 h \<and> has_window heic_brands 4 h then Some ''image/heic''
      else if ftyp_at_4 h \<and> has_window [''qt  ''] 4 h then Some ''video/quicktime''
      else if ftyp_at_4 h \<and> has_window google_mp4_brands 4 h then Some ''video/mp4''
      else if starts_with h ebml \<and> has_window [''webm''] 4 h then Some ''video/webm''
      else None)"

definition detected_index_mime :: "bytes \<Rightarrow> string \<Rightarrow> ustr \<Rightarrow> string option" where
  "detected_index_mime h google_mime name =
     (case google_sniff_media_type h of Some m \<Rightarrow> Some m
      | None \<Rightarrow> (case canonical_index_mime google_mime of Some m \<Rightarrow> Some m
                  | None \<Rightarrow> mime_from_name name))"

definition valid_google_id :: "ustr \<Rightarrow> bool" where
  "valid_google_id i \<longleftrightarrow> i = lit ''root'' \<or>
     (1 \<le> text_len i \<and> text_len i \<le> 128 \<and> list_all (\<lambda>c. ascii_alnum c \<or> c = 95 \<or> c = 45) i)"

definition content_unchanged :: "ustr option \<Rightarrow> int option \<Rightarrow> instant option
    \<Rightarrow> ustr option \<Rightarrow> int option \<Rightarrow> instant option \<Rightarrow> bool" where
  "content_unchanged stored_md5 stored_size stored_modified remote_md5 remote_size remote_modified =
     (case (stored_md5, remote_md5) of
        (Some stored, Some remote) \<Rightarrow> eq_ignore_ascii_case stored remote
      | _ \<Rightarrow> stored_size \<noteq> None \<and> stored_size = remote_size
             \<and> stored_modified \<noteq> None \<and> stored_modified = remote_modified)"

datatype remote_body = Download | Export string string | SkipNative

definition remote_body :: "string \<Rightarrow> remote_body" where
  "remote_body m =
     (if m = ''application/vnd.google-apps.document'' then
        Export ''application/vnd.openxmlformats-officedocument.wordprocessingml.document'' ''docx''
      else if m = ''application/vnd.google-apps.spreadsheet'' then
        Export ''application/vnd.openxmlformats-officedocument.spreadsheetml.sheet'' ''xlsx''
      else if m = ''application/vnd.google-apps.presentation'' then
        Export ''application/vnd.openxmlformats-officedocument.presentationml.presentation'' ''pptx''
      else if m = ''application/vnd.google-apps.drawing'' then Export ''image/png'' ''png''
      else if starts_with m ''application/vnd.google-apps.'' then SkipNative
      else Download)"

definition pace_after :: "nat \<Rightarrow> bool \<Rightarrow> nat" where
  "pace_after work_ms indexer_busy =
     (let work = min work_ms 10000;
          numerator = (if indexer_busy then 1150 else 355);
          pause = work * numerator div 100;
          limit = (if indexer_busy then 1200 else 700)
      in max 40 (min pause limit))"

definition indexer_backpressure :: "int \<Rightarrow> bool \<Rightarrow> bool \<Rightarrow> string option" where
  "indexer_backpressure queued_or_running_images indexer_running indexer_paused =
     (if indexer_paused then None
      else if 2 \<le> queued_or_running_images then Some ''image_index''
      else if indexer_running then Some ''indexer_running''
      else None)"

section \<open>Lemmas\<close>

lemma trim_by_Nil_iff: "trim_by p s = [] \<longleftrightarrow> (\<forall>c \<in> set s. p c)"
proof
  assume "trim_by p s = []"
  then have all: "\<forall>c \<in> set (dropWhile p s). p c"
    by (simp add: trim_by_def)
  then show "\<forall>c \<in> set s. p c"
    by (metis all dropWhile_eq_Nil_conv hd_dropWhile list.set_sel(1))
next
  assume "\<forall>c \<in> set s. p c"
  then have "dropWhile p s = []" by (rule dropWhile_eq_Nil_conv [THEN iffD2])
  then show "trim_by p s = []" unfolding trim_by_def by (simp only: rev.simps dropWhile.simps)
qed

lemma rsplit_once_Some_iff: "rsplit_once d s = Some (a, b) \<longleftrightarrow> s = a @ d # b \<and> d \<notin> set b"
proof -
  have "rsplit_once d s = Some (a, b) \<longleftrightarrow> split_once d (rev s) = Some (rev b, rev a)"
    by (auto simp: rsplit_once_def)
  also have "\<dots> \<longleftrightarrow> rev s = rev (a @ d # b) \<and> d \<notin> set b"
    by (simp add: split_once_Some_iff)
  finally show ?thesis by (simp only: rev_is_rev_conv)
qed

lemma entry_name_checkI:
  assumes "c \<in> set n" and "c \<noteq> 32" and "length n \<le> 255"
    and "n \<noteq> lit ''.''" and "n \<noteq> lit ''..''" and "47 \<notin> set n" and "92 \<notin> set n"
  shows "entry_name_check n"
proof -
  have "trim_by (\<lambda>c. c = 32) n \<noteq> []" using assms(1,2) by (auto simp: trim_by_Nil_iff)
  moreover have "length (trim_by (\<lambda>c. c = 32) n) \<le> 255"
    using length_trim_by assms(3) by (rule le_trans)
  ultimately show ?thesis
    using assms(4-7) by (simp add: entry_name_check_def Suc_le_eq)
qed

lemma utf8_len_pos: "1 \<le> utf8_len c"
  by (simp add: utf8_len_def)

lemma length_le_text_len: "length s \<le> text_len s"
proof (induction s)
  case Nil
  show ?case by (simp add: text_len_def)
next
  case (Cons c s)
  then show ?case using utf8_len_pos [of c] by (simp add: text_len_def)
qed

definition safe_char :: "nat \<Rightarrow> bool" where
  "safe_char c \<longleftrightarrow> \<not> is_control c \<and> c \<noteq> 47 \<and> c \<noteq> 92"

lemma set_lit: "set (lit s) = of_char ` set s"
  by (simp add: lit_def)

lemma show_nat_safe: "c \<in> set (lit (show_nat n)) \<Longrightarrow> safe_char c \<and> c \<noteq> 32"
  using show_nat_digits [of n]
  by (auto simp: set_lit list_all_iff is_digit_def safe_char_def is_control_def)

lemma show_nat_all_safe: "list_all safe_char (lit (show_nat n))"
  using show_nat_safe [of _ n] by (auto simp: list_all_iff)

lemma safe_char_lits [simp]:
  "list_all safe_char (lit '' copy'')" "list_all safe_char (lit '' copy '')"
  "list_all safe_char (lit ''untitled'')" "list_all safe_char (lit '' ('')" "list_all safe_char (lit '')'')"
  "safe_char 46" "safe_char 45"
  by (simp_all add: lit_def safe_char_def is_control_def)

lemma length_show_nat: "n < 10 ^ k \<Longrightarrow> 0 < k \<Longrightarrow> length (show_nat n) \<le> k"
proof (induction k arbitrary: n)
  case 0
  then show ?case by simp
next
  case (Suc k)
  show ?case
  proof (cases "n < 10")
    case True
    then show ?thesis by (simp add: show_nat.simps [of n])
  next
    case False
    with Suc.prems have "k \<noteq> 0" by (cases k) auto
    moreover have "n div 10 < 10 ^ k" using Suc.prems(1) by (simp add: less_mult_imp_div_less)
    ultimately have "length (show_nat (n div 10)) \<le> k" using Suc.IH by blast
    with False show ?thesis by (simp add: show_nat.simps [of n])
  qed
qed

lemma stem_and_extension_parts:
  assumes "stem_and_extension s b = (stem, ext)"
  shows "s = stem @ ext" and "length ext \<le> 12"
proof -
  show "s = stem @ ext"
    using assms by (auto simp: stem_and_extension_def rsplit_once_Some_iff split: if_splits option.splits)
  have "text_len ext \<le> 12"
    using assms by (auto simp: stem_and_extension_def text_len_def split: if_splits option.splits)
  then show "length ext \<le> 12" using length_le_text_len le_trans by blast
qed

lemma copy_suffix_facts:
  assumes "n < 2 ^ 32"
  shows "length (copy_suffix n) \<le> 16" and "list_all safe_char (copy_suffix n)"
    and "99 \<in> set (copy_suffix n)"
proof -
  have "length (show_nat n) \<le> 10"
    by (rule length_show_nat) (use assms in simp_all)
  then show "length (copy_suffix n) \<le> 16" by (simp add: copy_suffix_def lit_def)
  show "list_all safe_char (copy_suffix n)"
    using show_nat_all_safe by (simp add: copy_suffix_def)
  show "99 \<in> set (copy_suffix n)" by (simp add: copy_suffix_def lit_def)
qed

lemma copy_display_name_form:
  assumes "n < 2 ^ 32"
  obtains k stem ext where "copy_display_name s n b = take k stem @ copy_suffix n @ ext"
    and "s = stem @ ext" and "length (take k stem @ copy_suffix n @ ext) \<le> 255"
proof -
  obtain stem ext where se: "stem_and_extension s b = (stem, ext)" by fastforce
  note parts = stem_and_extension_parts [OF se] and suffix = copy_suffix_facts(1) [OF assms]
  show thesis
  proof (cases "255 < length (stem @ copy_suffix n @ ext)")
    case True
    let ?k = "max (255 - (length (copy_suffix n) + length ext)) 1"
    have "copy_display_name s n b = take ?k stem @ copy_suffix n @ ext"
      using True se by (simp add: copy_display_name_def Let_def)
    moreover have "length (take ?k stem @ copy_suffix n @ ext) \<le> 255"
      using parts(2) suffix by simp
    ultimately show thesis using that parts(1) by blast
  next
    case False
    then have "copy_display_name s n b = take (length stem) stem @ copy_suffix n @ ext"
      using se by (simp add: copy_display_name_def)
    with False parts(1) show thesis by (intro that [of "length stem" stem ext]) auto
  qed
qed

definition good_base :: "ustr \<Rightarrow> bool" where
  "good_base n \<longleftrightarrow> n \<noteq> [] \<and> \<not> is_whitespace (hd n) \<and> list_all safe_char n
     \<and> n \<noteq> lit ''.'' \<and> n \<noteq> lit ''..''"

lemma lit_dots: "lit ''.'' = [46]" "lit ''..'' = [46, 46]"
  by (simp_all add: lit_def)

lemma list_all_trim_by: "list_all q s \<Longrightarrow> list_all q (trim_by p s)"
  using set_trim_by [of p s] by (auto simp: list_all_iff)

lemma good_base_cleaned:
  fixes raw :: ustr
  defines "cleaned \<equiv> map (\<lambda>c. if is_control c \<or> c = 47 \<or> c = 92 then 45 else c) raw"
  defines "base \<equiv> trim (trim_by (\<lambda>c. c = 46) (trim cleaned))"
  shows "good_base (if base = [] \<or> base = lit ''.'' \<or> base = lit ''..'' then lit ''untitled'' else base)"
proof (cases "base = [] \<or> base = lit ''.'' \<or> base = lit ''..''")
  case True
  have "good_base (lit ''untitled'')"
    by (simp add: good_base_def lit_def is_whitespace_def safe_char_def is_control_def)
  with True show ?thesis by simp
next
  case False
  have "list_all safe_char cleaned"
    by (auto simp: cleaned_def list_all_iff safe_char_def is_control_def)
  then have "list_all safe_char base"
    unfolding base_def trim_def by (intro list_all_trim_by)
  moreover have "\<not> is_whitespace (hd base)"
    using False trim_by_ends(1) unfolding base_def trim_def by blast
  ultimately show ?thesis using False by (simp add: good_base_def)
qed

lemma good_base_append:
  assumes "good_base n" and "list_all safe_char r" and "2 \<le> length r"
  shows "good_base (n @ r)"
  using assms by (cases n) (auto simp: good_base_def lit_dots dest: arg_cong [where f = length])

lemma valid_extension_facts:
  assumes "valid_extension ext"
  shows "ext \<noteq> []" and "length ext \<le> 8" and "list_all safe_char ext"
proof -
  show "ext \<noteq> []" using assms by (auto simp: valid_extension_def text_len_def)
  show "length ext \<le> 8"
    using assms length_le_text_len [of ext] by (simp add: valid_extension_def)
  show "list_all safe_char ext"
    using assms by (auto simp: valid_extension_def list_all_iff ascii_alnum_def safe_char_def is_control_def)
qed

lemma good_base_extension:
  assumes "good_base n" and "valid_extension ext"
  shows "good_base (n @ 46 # ext)"
  using good_base_append [OF assms(1), of "46 # ext"] valid_extension_facts [OF assms(2)]
  by (simp add: Suc_le_eq)

lemma good_base_attempt:
  assumes "good_base n"
  shows "good_base (insert_attempt n k)"
proof -
  let ?m = "lit '' ('' @ lit (show_nat k) @ lit '')''"
  have m: "list_all safe_char ?m" "2 \<le> length ?m"
    using show_nat_all_safe by (simp_all add: lit_def [of "'' (''"] lit_def [of "'')''"] safe_char_def is_control_def)
  show ?thesis
  proof (cases "rsplit_once 46 n")
    case None
    then show ?thesis using good_base_append [OF assms m] by (simp add: insert_attempt_def)
  next
    case (Some q)
    obtain stem ext where q: "q = (stem, ext)" by fastforce
    with Some have n: "n = stem @ 46 # ext" by (simp add: rsplit_once_Some_iff)
    show ?thesis
    proof (cases "stem \<noteq> [] \<and> valid_extension ext")
      case True
      then have "stem \<noteq> []" ..
      then have "good_base (stem @ ?m @ 46 # ext)"
        using assms m n unfolding good_base_def
        by (cases stem) (auto simp: list_all_append lit_dots lit_def)
      with True Some q show ?thesis by (simp add: insert_attempt_def Let_def)
    next
      case False
      with Some q good_base_append [OF assms m] show ?thesis by (auto simp: insert_attempt_def Let_def)
    qed
  qed
qed

lemma good_base_limit:
  assumes "good_base n"
  shows "good_base (limit_entry_name n)" and "length (limit_entry_name n) \<le> 255"
proof -
  have cut: "good_base (take k stem @ r)"
    if "n = stem @ r'" "stem \<noteq> []" "0 < k" "list_all safe_char r" "3 \<le> length (take k stem @ r)"
    for k stem r r'
    using that assms unfolding good_base_def
    by (cases stem; cases k) (auto simp: list_all_append lit_dots list_all_iff
        dest: in_set_takeD arg_cong [where f = length])
  have "good_base (limit_entry_name n) \<and> length (limit_entry_name n) \<le> 255"
  proof (cases "length n \<le> 255")
    case True
    then show ?thesis using assms by (simp add: limit_entry_name_def)
  next
    case False
    have plain: "good_base (take 255 n)"
      using cut [of n "[]" 255 "[]"] assms False by (simp add: good_base_def)
    show ?thesis
    proof (cases "rsplit_once 46 n")
      case None
      then show ?thesis using plain False by (simp add: limit_entry_name_def)
    next
      case (Some q)
      obtain stem ext where q: "q = (stem, ext)" by fastforce
      with Some have n: "n = stem @ 46 # ext" by (simp add: rsplit_once_Some_iff)
      show ?thesis
      proof (cases "valid_extension ext")
        case True
        note ext = valid_extension_facts [OF True]
        have long: "246 < length stem" using False n ext(2) by simp
        let ?k = "max (255 - length ext - 1) 1"
        have "good_base (take ?k stem @ 46 # ext)"
          by (rule cut [OF n]) (use long ext in auto)
        with True Some q False ext(2) show ?thesis by (simp add: limit_entry_name_def)
      next
        case no_ext: False
        with Some q plain False show ?thesis by (simp add: limit_entry_name_def)
      qed
    qed
  qed
  then show "good_base (limit_entry_name n)" and "length (limit_entry_name n) \<le> 255" by blast+
qed

lemma good_base_entry_name:
  assumes "good_base n" and "length n \<le> 255"
  shows "entry_name_check n"
proof (rule entry_name_checkI [of "hd n"])
  show "hd n \<noteq> 32" using assms(1) by (auto simp: good_base_def is_whitespace_def)
qed (use assms in \<open>auto simp: good_base_def list_all_iff safe_char_def\<close>)

section \<open>Properties\<close>

lemma normalize_name_facts:
  assumes "normalize_name v = Inr n"
  shows "n = trim v \<and> entry_name_check n \<and> 1 \<le> length n \<and> length n \<le> 255
    \<and> list_all safe_char n \<and> normalize_name n = Inr n"
proof -
  from assms have n: "n = trim v" "length (trim v) \<noteq> 0" "length (trim v) \<le> 255"
      "trim v \<noteq> lit ''.''" "trim v \<noteq> lit ''..''" "\<not> list_ex (\<lambda>c. is_control c \<or> c = 47 \<or> c = 92) (trim v)"
    by (auto simp: normalize_name_def Let_def split: if_splits)
  then have safe: "list_all safe_char n"
    by (auto simp: list_all_iff list_ex_iff safe_char_def)
  have "\<not> is_whitespace (hd n)"
    using n(1,2) trim_by_ends(1) [of is_whitespace v] by (simp add: trim_def)
  then have "good_base n" using n safe by (auto simp: good_base_def)
  then have "entry_name_check n" using n by (intro good_base_entry_name) auto
  moreover have "normalize_name n = Inr n"
    using n by (simp add: normalize_name_def)
  ultimately show ?thesis using n safe by (auto simp: Suc_le_eq)
qed

text \<open>
  C2. A name that passes validation is what the database accepts and cannot become a path: it
  is trimmed, has between 1 and 255 characters, none of them a control character or a path
  separator, satisfies the table's \<open>CHECK\<close>, and validating it again returns it unchanged.
\<close>

theorem normalize_name_sound:
  assumes "normalize_name v = Inr n"
  shows "n = trim v \<and> entry_name_check n \<and> 1 \<le> length n \<and> length n \<le> 255
    \<and> list_all safe_char n \<and> normalize_name n = Inr n"
  using assms by (rule normalize_name_facts)

theorem normalize_name_sound_witness:
  "normalize_name (lit ''  photos '') = Inr (lit ''photos'') \<and> entry_name_check (lit ''photos'')"
proof -
  have h: "normalize_name (lit ''  photos '') = Inr (lit ''photos'')"
    by code_simp
  from normalize_name_sound [OF h] h show ?thesis by blast
qed

text \<open>
  The name given to a copy is again acceptable to the database: for every valid original
  name and every attempt number the copied name has at most 255 characters, satisfies the
  table's \<open>CHECK\<close>, and carries the original's extension behind the copy marker.
\<close>

lemma copy_display_name_acceptable:
  assumes "list_all safe_char original" and "attempt < 2 ^ 32"
  shows "length (copy_display_name original attempt is_file) \<le> 255
    \<and> entry_name_check (copy_display_name original attempt is_file)
    \<and> (\<exists>pre ext. copy_display_name original attempt is_file = pre @ copy_suffix attempt @ ext
         \<and> (\<exists>stem. original = stem @ ext))"
proof -
  obtain k stem ext where form: "copy_display_name original attempt is_file
        = take k stem @ copy_suffix attempt @ ext"
      and orig: "original = stem @ ext"
      and len: "length (take k stem @ copy_suffix attempt @ ext) \<le> 255"
    using copy_display_name_form [OF assms(2)] by blast
  note suffix = copy_suffix_facts [OF assms(2)]
  have safe: "list_all safe_char (take k stem @ copy_suffix attempt @ ext)"
    using assms(1) orig suffix(2) by (auto simp: list_all_iff dest: in_set_takeD)
  have "entry_name_check (take k stem @ copy_suffix attempt @ ext)"
  proof (rule entry_name_checkI [of 99])
    show "99 \<in> set (take k stem @ copy_suffix attempt @ ext)" using suffix(3) by simp
    then show "take k stem @ copy_suffix attempt @ ext \<noteq> lit ''.''"
      "take k stem @ copy_suffix attempt @ ext \<noteq> lit ''..''"
      unfolding lit_dots by (auto simp del: set_append)
  qed (use safe len in \<open>auto simp: list_all_iff safe_char_def\<close>)
  with form orig len show ?thesis by auto
qed

text \<open>
  Every remote file name becomes an acceptable entry name: whatever the remote service
  sends, and for every collision attempt and every extra extension, the derived name has at
  most 255 characters, no control character or path separator, and satisfies the table's
  \<open>CHECK\<close>.
\<close>

lemma storage_entry_name_acceptable:
  "length (storage_entry_name raw attempt extra) \<le> 255
   \<and> list_all safe_char (storage_entry_name raw attempt extra)
   \<and> entry_name_check (storage_entry_name raw attempt extra)"
proof -
  define base where "base = trim (trim_by (\<lambda>c. c = 46) (trim
    (map (\<lambda>c. if is_control c \<or> c = 47 \<or> c = 92 then 45 else c) (last_component raw))))"
  define n1 where "n1 = (if base = [] \<or> base = lit ''.'' \<or> base = lit ''..'' then lit ''untitled'' else base)"
  define n2 where "n2 = (case extra of None \<Rightarrow> n1
     | Some ext \<Rightarrow> if valid_extension ext
          \<and> \<not> ends_with (to_ascii_lowercase n1) (to_ascii_lowercase (46 # ext))
        then n1 @ 46 # ext else n1)"
  define n3 where "n3 = (if 0 < attempt then insert_attempt n2 (attempt + 1) else n2)"
  have eq: "storage_entry_name raw attempt extra = limit_entry_name n3"
    unfolding storage_entry_name_def Let_def base_def n1_def n2_def n3_def by (rule refl)
  have "good_base n1"
    unfolding n1_def base_def by (rule good_base_cleaned)
  then have "good_base n2"
    unfolding n2_def by (auto split: option.splits intro: good_base_extension)
  then have "good_base n3"
    unfolding n3_def by (auto intro: good_base_attempt)
  from good_base_limit [OF this] show ?thesis
    unfolding eq using good_base_entry_name by (auto simp: good_base_def)
qed

end
