(* ===== verification/Credentials.thy ===== *)
theory Credentials
  imports Names
begin

text \<open>
  Requests and credentials: header access, cookies and bearer tokens, the authenticated user
  and the CSRF check of \<open>src/auth/session.rs\<close>, and the error responses of the
  authentication and device handlers. The cryptographic crates the service calls
  (\<open>sha2\<close>, \<open>base64\<close>, \<open>argon2\<close>) and the Unicode case mapping are the fields
  of \<open>externals\<close>, an argument of every operation that uses them.
\<close>

section \<open>Library code the service calls\<close>

record externals =
  sha256 :: "bytes \<Rightarrow> bytes"
  b64_encode :: "bytes \<Rightarrow> string"
  b64_decode :: "string \<Rightarrow> bytes option"
  hash_parses :: "string \<Rightarrow> bool"
  verify_hash :: "string \<Rightarrow> ustr \<Rightarrow> bool"
  hash_password :: "bytes \<Rightarrow> ustr \<Rightarrow> string option"
  to_lowercase :: "ustr \<Rightarrow> ustr"
  sql_lower :: "ustr \<Rightarrow> ustr"

text \<open>
  What the service relies on: unpadded URL-safe base64 maps 32 bytes to 43 letters, digits,
  hyphens and underscores and decodes them again; SHA-256 digests have 32 bytes.
\<close>

definition token_char :: "char \<Rightarrow> bool" where
  "token_char c \<longleftrightarrow> ascii_alnum (of_char c) \<or> c = CHR ''-'' \<or> c = CHR ''_''"

definition token_codec :: "externals \<Rightarrow> bool" where
  "token_codec x \<longleftrightarrow> (\<forall>r. length r = 32 \<longrightarrow> b64_decode x (b64_encode x r) = Some r
     \<and> length (b64_encode x r) = 43 \<and> list_all token_char (b64_encode x r))"

definition digest_size :: "externals \<Rightarrow> bool" where
  "digest_size x \<longleftrightarrow> (\<forall>b. length (sha256 x b) = 32)"

text \<open>Seconds in the unit of instants, and the last instant chrono represents (the end of the year 262142).\<close>

definition seconds :: "int \<Rightarrow> int" where
  "seconds n = n * 1000000"

definition chrono_max :: instant where
  "chrono_max = 8210266876799999999"

section \<open>Responses\<close>

text \<open>An error response: status, code, and the \<open>interval\<close> some of them carry; or a handler that
  panicked, whose connection is dropped.\<close>

datatype api_error = ApiError nat string "int option" | Panicked

definition api_error :: "nat \<Rightarrow> string \<Rightarrow> api_error" where
  "api_error status code = ApiError status code None"

definition with_interval :: "nat \<Rightarrow> string \<Rightarrow> int \<Rightarrow> api_error" where
  "with_interval status code n = ApiError status code (Some n)"

text \<open>
  A handler maps the database to the database it leaves and a result. A transaction that
  returns early without a commit leaves the database as it was.
\<close>

type_synonym 'a outcome = "db \<times> (api_error + 'a)"

definition rollback :: "db \<Rightarrow> 'e + db \<times> 'a \<Rightarrow> db \<times> ('e + 'a)" where
  "rollback s m = (case m of Inl e \<Rightarrow> (s, Inl e) | Inr (s', v) \<Rightarrow> (s', Inr v))"

definition db_unavailable :: "db_error \<Rightarrow> api_error" where
  "db_unavailable e = api_error 503 ''service_unavailable''"

lemma rollback_simps [simp, result_simps]:
  "rollback s (Inl e) = (s, Inl e)" "rollback s (Inr (s', v)) = (s', Inr v)"
  by (simp_all add: rollback_def)

lemma rollback_Inr_iff [result_simps]: "rollback s m = (s', Inr v) \<longleftrightarrow> m = Inr (s', v)"
  by (auto simp: rollback_def split: sum.splits)

lemma rollback_Inl_iff [result_simps]: "rollback s m = (s', Inl e) \<longleftrightarrow> m = Inl e \<and> s' = s"
  by (auto simp: rollback_def split: sum.splits)

section \<open>Headers\<close>

text \<open>
  A header map lists name and value; \<open>get\<close> returns the first value, and
  \<open>HeaderValue::to_str\<close> succeeds on visible ASCII and tabs.
\<close>

type_synonym headers = "(string \<times> bytes) list"

definition header_str :: "headers \<Rightarrow> string \<Rightarrow> string option" where
  "header_str hs name =
     (case map_of hs name of
        None \<Rightarrow> None
      | Some v \<Rightarrow>
          if list_all (\<lambda>c. (32 \<le> (of_char c :: nat) \<and> (of_char c :: nat) < 127) \<or> (of_char c :: nat) = 9) v
          then Some v else None)"

definition char_whitespace :: "char \<Rightarrow> bool" where
  "char_whitespace c = is_whitespace (of_char c)"

definition bearer_token :: "headers \<Rightarrow> string option" where
  "bearer_token hs =
     (case header_str hs ''authorization'' of
        None \<Rightarrow> None
      | Some value \<Rightarrow>
          (case strip_prefix ''Bearer '' value of
             None \<Rightarrow> None
           | Some token \<Rightarrow> if token = [] \<or> list_ex char_whitespace token then None else Some token))"

fun cookie_scan :: "string \<Rightarrow> string option \<Rightarrow> string list \<Rightarrow> string option" where
  "cookie_scan wanted result [] = result"
| "cookie_scan wanted result (cookie # rest) =
     (case split_once CHR ''='' (trim_by char_whitespace cookie) of
        None \<Rightarrow> None
      | Some (name, value) \<Rightarrow>
          if name = wanted then
            (if result \<noteq> None then None else cookie_scan wanted (Some value) rest)
          else cookie_scan wanted result rest)"

definition cookie_value :: "headers \<Rightarrow> string \<Rightarrow> string option" where
  "cookie_value hs wanted_name =
     (case header_str hs ''cookie'' of
        None \<Rightarrow> None
      | Some header \<Rightarrow> cookie_scan wanted_name None (split_on CHR '';'' header))"

definition forwarded_ip :: "headers \<Rightarrow> string option" where
  "forwarded_ip hs =
     (case header_str hs ''x-forwarded-for'' of
        None \<Rightarrow> None
      | Some value \<Rightarrow>
          (let first = trim_by char_whitespace (hd (split_on CHR '','' value)) in
           if 1 \<le> length first \<and> length first < 65
              \<and> list_all (\<lambda>c. c \<in> set ''0123456789abcdefABCDEF.:'') first
           then Some first else None))"

section \<open>Cookies and the authenticated user\<close>

record auth_settings =
  cookie_secure :: bool
  session_ttl_seconds :: nat

definition session_cookie_name :: "auth_settings \<Rightarrow> string" where
  "session_cookie_name settings =
     (if cookie_secure settings then ''__Host-my_drive_session'' else ''my_drive_session'')"

definition csrf_cookie_name :: "auth_settings \<Rightarrow> string" where
  "csrf_cookie_name settings =
     (if cookie_secure settings then ''__Host-my_drive_csrf'' else ''my_drive_csrf'')"

definition add_cookie :: "string \<Rightarrow> string \<Rightarrow> bool \<Rightarrow> nat \<Rightarrow> bool \<Rightarrow> bool \<Rightarrow> string" where
  "add_cookie name value http_only max_age_seconds secure strict_same_site =
     name @ ''='' @ value @ ''; Path=/; Max-Age='' @ show_nat max_age_seconds
     @ ''; SameSite='' @ (if strict_same_site then ''Strict'' else ''Lax'')
     @ (if http_only then ''; HttpOnly'' else '''') @ (if secure then ''; Secure'' else '''')"

record auth_user =
  au_id :: uuid
  au_session :: uuid
  au_email :: ustr
  au_role :: role
  au_must_change_password :: bool
  au_csrf_digest :: bytes
  au_api_key :: "uuid option"
  au_device :: "uuid option"

definition from_api :: "uuid \<Rightarrow> uuid \<Rightarrow> ustr \<Rightarrow> role \<Rightarrow> auth_user" where
  "from_api i key_id email r =
     \<lparr>au_id = i, au_session = key_id, au_email = email, au_role = r, au_must_change_password = False,
      au_csrf_digest = [], au_api_key = Some key_id, au_device = None\<rparr>"

definition from_device :: "uuid \<Rightarrow> uuid \<Rightarrow> ustr \<Rightarrow> role \<Rightarrow> bool \<Rightarrow> auth_user" where
  "from_device i device email r must_change =
     \<lparr>au_id = i, au_session = device, au_email = email, au_role = r, au_must_change_password = must_change,
      au_csrf_digest = [], au_api_key = None, au_device = Some device\<rparr>"

definition require_csrf :: "externals \<Rightarrow> headers \<Rightarrow> auth_user \<Rightarrow> auth_settings \<Rightarrow> bool" where
  "require_csrf x hs user settings =
     (if au_api_key user \<noteq> None \<or> au_device user \<noteq> None then True
      else case cookie_value hs (csrf_cookie_name settings) of
        None \<Rightarrow> False
      | Some cookie_token \<Rightarrow>
          (case header_str hs ''x-csrf-token'' of
             None \<Rightarrow> False
           | Some header_token \<Rightarrow>
               if length cookie_token \<noteq> 43 \<or> length header_token \<noteq> 43 \<or> cookie_token \<noteq> header_token
               then False
               else case b64_decode x cookie_token of
                 None \<Rightarrow> False
               | Some raw_token \<Rightarrow>
                   if length raw_token \<noteq> 32 then False
                   else sha256 x raw_token = au_csrf_digest user))"

text \<open>\<open>secure_token\<close>: the random bytes and their encoding; \<open>None\<close> when the operating
  system's generator fails.\<close>

definition secure_token :: "externals \<Rightarrow> bytes option \<Rightarrow> (bytes \<times> string) option" where
  "secure_token x raw = map_option (\<lambda>r. (r, b64_encode x r)) raw"

section \<open>Cookie headers as a browser sends them\<close>

text \<open>\<open>Cookie: a=1; b=2\<close> for a list of pairs.\<close>

fun cookie_header :: "(string \<times> string) list \<Rightarrow> string" where
  "cookie_header [] = ''''"
| "cookie_header [(n, v)] = n @ ''='' @ v"
| "cookie_header ((n, v) # cs) = n @ ''='' @ v @ ''; '' @ cookie_header cs"

definition cookie_safe :: "string \<Rightarrow> bool" where
  "cookie_safe s \<longleftrightarrow> list_all token_char s"

lemma token_char_props:
  "token_char c \<Longrightarrow> \<not> char_whitespace c \<and> c \<noteq> CHR '';'' \<and> c \<noteq> CHR ''=''
     \<and> 32 \<le> (of_char c :: nat) \<and> (of_char c :: nat) < 127"
  by (auto simp: token_char_def char_whitespace_def is_whitespace_def ascii_alnum_def)

lemma split_on_append:
  "d \<notin> set a \<Longrightarrow> split_on d (a @ d # b) = a # split_on d b"
  by (induction a) auto

lemma split_on_none: "d \<notin> set a \<Longrightarrow> split_on d a = [a]"
  by (induction a) auto

lemma dropWhile_none: "list_all (\<lambda>c. \<not> p c) s \<Longrightarrow> dropWhile p s = s"
  by (cases s) auto

lemma trim_by_none: "list_all (\<lambda>c. \<not> p c) s \<Longrightarrow> trim_by p s = s"
  using dropWhile_none [of p s] dropWhile_none [of p "rev s"]
  by (simp add: trim_by_def list_all_iff)

lemma split_once_append: "d \<notin> set a \<Longrightarrow> split_once d (a @ d # b) = Some (a, b)"
  by (simp add: split_once_Some_iff)

section \<open>An instance of the library code\<close>

text \<open>
  The assumptions \<open>token_codec\<close> and \<open>digest_size\<close> can hold: 32 bytes are read as
  one number to base 256 and written with 43 digits to base 64; the digest keeps the last 32
  bytes. The instance is used in witnesses only.
\<close>

fun digits_of :: "nat \<Rightarrow> nat \<Rightarrow> nat \<Rightarrow> nat list" where
  "digits_of b 0 n = []"
| "digits_of b (Suc k) n = (n mod b) # digits_of b k (n div b)"

fun value_of :: "nat \<Rightarrow> nat list \<Rightarrow> nat" where
  "value_of b [] = 0"
| "value_of b (d # ds) = d + b * value_of b ds"

lemma length_digits_of [simp]: "length (digits_of b k n) = k"
  by (induction b k n rule: digits_of.induct) simp_all

lemma digits_of_less: "0 < b \<Longrightarrow> d \<in> set (digits_of b k n) \<Longrightarrow> d < b"
  by (induction b k n rule: digits_of.induct) auto

lemma value_of_less: "(\<And>d. d \<in> set ds \<Longrightarrow> d < b) \<Longrightarrow> value_of b ds < b ^ length ds"
proof (induction ds)
  case Nil
  then show ?case by simp
next
  case (Cons d ds)
  then have "Suc (value_of b ds) \<le> b ^ length ds" "d < b" by (auto simp: Suc_le_eq)
  then have "b * Suc (value_of b ds) \<le> b * b ^ length ds" by (intro mult_le_mono2)
  with \<open>d < b\<close> show ?case by simp
qed

lemma value_of_digits_of: "n < b ^ k \<Longrightarrow> value_of b (digits_of b k n) = n"
proof (induction k arbitrary: n)
  case 0
  then show ?case by simp
next
  case (Suc k)
  then have "n div b < b ^ k"
    by (metis less_mult_imp_div_less mult.commute power_Suc)
  with Suc show ?case by simp
qed

lemma digits_of_value_of:
  "(\<And>d. d \<in> set ds \<Longrightarrow> d < b) \<Longrightarrow> digits_of b (length ds) (value_of b ds) = ds"
proof (induction ds)
  case Nil
  then show ?case by simp
next
  case (Cons d ds)
  then have "d < b" by simp
  then have "(d + b * value_of b ds) div b = value_of b ds" by simp
  with Cons show ?case by simp
qed

definition sextet_char :: "nat \<Rightarrow> char" where
  "sextet_char n = char_of (if n < 26 then 65 + n else if n < 52 then 71 + n
     else if n < 62 then n - 4 else if n = 62 then 45 else 95)"

definition char_sextet :: "char \<Rightarrow> nat" where
  "char_sextet c = (let n = of_char c in if n = 45 then 62 else if n = 95 then 63
     else if n < 58 then n + 4 else if n < 91 then n - 65 else n - 71)"

lemma sextet_marks: "char_of (45 :: nat) = CHR ''-''" "char_of (95 :: nat) = CHR ''_''"
  by code_simp+

lemma sextet_char_bounds:
  "n < 64 \<Longrightarrow> char_sextet (sextet_char n) = n \<and> token_char (sextet_char n)"
  by (auto simp: char_sextet_def sextet_char_def token_char_def ascii_alnum_def Let_def of_char_of sextet_marks)

definition sample_encode :: "bytes \<Rightarrow> string" where
  "sample_encode r = map sextet_char (digits_of 64 43 (value_of 256 (map of_char r)))"

definition sample_decode :: "string \<Rightarrow> bytes option" where
  "sample_decode s = Some (map char_of (digits_of 256 32 (value_of 64 (map char_sextet s))))"

definition sample_externals :: externals where
  "sample_externals =
     \<lparr>sha256 = (\<lambda>b. take 32 (rev b @ replicate 32 CHR 0x00)), b64_encode = sample_encode,
      b64_decode = sample_decode, hash_parses = (\<lambda>_. True), verify_hash = (\<lambda>h p. utf8_encode p = h),
      hash_password = (\<lambda>salt p. Some (utf8_encode p)), to_lowercase = to_ascii_lowercase,
      sql_lower = to_ascii_lowercase\<rparr>"

lemma sample_codec: "token_codec sample_externals"
proof -
  have "sample_decode (sample_encode r) = Some r \<and> length (sample_encode r) = 43
      \<and> list_all token_char (sample_encode r)" if r: "length r = 32" for r
  proof -
    let ?ds = "map of_char r :: nat list" and ?n = "value_of 256 (map of_char r)"
    have b: "d < 256" if "d \<in> set ?ds" for d using that by auto
    then have "?n < 256 ^ length ?ds" by (rule value_of_less)
    then have "?n < 64 ^ 43" using r by simp
    then have v: "value_of 64 (digits_of 64 43 ?n) = ?n" by (rule value_of_digits_of)
    have "map char_sextet (sample_encode r) = map id (digits_of 64 43 ?n)"
      unfolding sample_encode_def map_map comp_def
      by (intro map_cong) (auto simp: sextet_char_bounds dest: digits_of_less [rotated])
    then have "sample_decode (sample_encode r) = Some (map char_of (digits_of 256 32 ?n))"
      by (simp add: sample_decode_def v)
    also have "digits_of 256 32 ?n = ?ds"
      using digits_of_value_of [of ?ds 256] b r by simp
    finally have "sample_decode (sample_encode r) = Some r" by (simp add: comp_def)
    moreover have "list_all token_char (sample_encode r)"
      by (auto simp: sample_encode_def list_all_iff sextet_char_bounds dest: digits_of_less [rotated])
    ultimately show ?thesis by (simp add: sample_encode_def)
  qed
  then show ?thesis by (simp add: token_codec_def sample_externals_def)
qed

lemma sample_digest_size: "digest_size sample_externals"
  by (auto simp: digest_size_def sample_externals_def)

end
