(* ===== verification/Systems.thy ===== *)
theory Systems
  imports Prelude
begin

text \<open>
  Interfaces shared by the stateful components. A component is a total step function over
  its state, one event per request or statement; \<open>invariant_system\<close> is the contract
  that every step keeps an invariant, \<open>refinement\<close> adds an abstract system that the
  component simulates along the runs it admits, and \<open>absorbing\<close> is the contract of
  properties that no later step undoes (revocation, consumption). Each is interpreted on the
  definitions of the components that provide it.
\<close>

locale invariant_system =
  fixes step :: "'e \<Rightarrow> 's \<Rightarrow> 's"
    and inv :: "'s \<Rightarrow> bool"
  assumes preserved: "inv s \<Longrightarrow> inv (step e s)"
begin

lemma run_inv: "inv s \<Longrightarrow> inv (fold step es s)"
proof (induction es arbitrary: s)
  case Nil
  then show ?case by simp
next
  case (Cons e es)
  then show ?case by (simp add: preserved)
qed

end

locale refinement = invariant_system step inv
  for step :: "'e \<Rightarrow> 's \<Rightarrow> 's" and inv :: "'s \<Rightarrow> bool" +
  fixes astep :: "'e \<Rightarrow> 'a \<Rightarrow> 'a"
    and R :: "'s \<Rightarrow> 'a \<Rightarrow> bool"
    and admits :: "'a \<Rightarrow> 'e list \<Rightarrow> bool"
  assumes admits_tail: "admits a (e # es) \<Longrightarrow> admits (astep e a) es"
    and simulates: "inv s \<Longrightarrow> R s a \<Longrightarrow> admits a (e # es) \<Longrightarrow> R (step e s) (astep e a)"
begin

lemma run_refines:
  "inv s \<Longrightarrow> R s a \<Longrightarrow> admits a es \<Longrightarrow> R (fold step es s) (fold astep es a)"
proof (induction es arbitrary: s a)
  case Nil
  then show ?case by simp
next
  case (Cons e es)
  from Cons.prems have "R (step e s) (astep e a)" "admits (astep e a) es" "inv (step e s)"
    by (blast intro: simulates admits_tail preserved)+
  then show ?case by (simp add: Cons.IH)
qed

end

locale absorbing = invariant_system step inv
  for step :: "'e \<Rightarrow> 's \<Rightarrow> 's" and inv :: "'s \<Rightarrow> bool" +
  fixes final :: "'k \<Rightarrow> 's \<Rightarrow> bool"
  assumes stays_final: "inv s \<Longrightarrow> final k s \<Longrightarrow> final k (step e s)"
begin

lemma run_final: "inv s \<Longrightarrow> final k s \<Longrightarrow> final k (fold step es s)"
proof (induction es arbitrary: s)
  case Nil
  then show ?case by simp
next
  case (Cons e es)
  then show ?case by (simp add: preserved stays_final)
qed

end

end
