(* ===== verification/Devices.thy ===== *)
theory Devices
  imports Credentials Systems
begin

text \<open>
  Backup devices: the device-authorization grant, the rotation of device credentials and
  device authentication of \<open>src/devices.rs\<close>. \<open>Utc::now()\<close> and PostgreSQL's
  \<open>now()\<close> are one instant per request, in microseconds; identifiers and random bytes
  are arguments. A handler's result is paired with the database it leaves, since several
  refusals commit (expiry, back-off, reuse detection).
\<close>

section \<open>Constants and helpers\<close>

definition DEVICE_CODE_TTL_SECONDS :: int where "DEVICE_CODE_TTL_SECONDS = 600"
definition ACCESS_TOKEN_TTL_SECONDS :: int where "ACCESS_TOKEN_TTL_SECONDS = 3600"
definition REFRESH_TOKEN_TTL_SECONDS :: int where "REFRESH_TOKEN_TTL_SECONDS = 90 * 24 * 3600"
definition DEFAULT_POLL_SECONDS :: int where "DEFAULT_POLL_SECONDS = 5"
definition MAX_POLL_SECONDS :: int where "MAX_POLL_SECONDS = 30"

definition service_unavailable :: api_error where
  "service_unavailable = api_error 503 ''service_unavailable''"

definition clean_label :: "ustr \<Rightarrow> nat \<Rightarrow> api_error + ustr" where
  "clean_label value max_chars =
     (let v = trim value in
      if length v = 0 \<or> max_chars < length v \<or> list_ex is_control v
      then Inl (api_error 400 ''invalid_request'') else Inr v)"

definition to_ascii_uppercase :: "ustr \<Rightarrow> ustr" where
  "to_ascii_uppercase s = map (\<lambda>c. if 97 \<le> c \<and> c \<le> 122 then c - 32 else c) s"

text \<open>\<open>&value[..n]\<close> and \<open>&value[n..]\<close>: slicing at a byte offset panics inside a character.\<close>

fun byte_split_at :: "nat \<Rightarrow> ustr \<Rightarrow> (ustr \<times> ustr) option" where
  "byte_split_at n [] = (if n = 0 then Some ([], []) else None)"
| "byte_split_at n (c # s) =
     (if n = 0 then Some ([], c # s)
      else if n < utf8_len c then None
      else map_option (\<lambda>(a, b). (c # a, b)) (byte_split_at (n - utf8_len c) s))"

definition validate_user_code :: "ustr \<Rightarrow> api_error + ustr" where
  "validate_user_code value =
     (let bs = utf8_encode value in
      if length bs = 9 \<and> bs ! 4 = CHR ''-''
         \<and> list_all (\<lambda>b. of_char b \<in> set user_code_alphabet) (filter (\<lambda>b. b \<noteq> CHR ''-'') bs)
      then Inr value else Inl (api_error 400 ''invalid_request''))"

definition normalize_user_code :: "ustr \<Rightarrow> api_error + ustr" where
  "normalize_user_code value =
     (let v = to_ascii_uppercase (trim value) in
      if text_len v = 8 \<and> 45 \<notin> set v then
        (case byte_split_at 4 v of
           None \<Rightarrow> Inl Panicked
         | Some (a, b) \<Rightarrow> validate_user_code (a @ 45 # b))
      else validate_user_code v)"

definition new_user_code :: "bytes option \<Rightarrow> api_error + ustr" where
  "new_user_code raw =
     (case raw of
        None \<Rightarrow> Inl service_unavailable
      | Some r \<Rightarrow>
          (let chars = map (\<lambda>b. user_code_alphabet ! (of_char b mod length user_code_alphabet)) r
           in Inr (take 4 chars @ 45 # drop 4 chars)))"

definition random_token :: "externals \<Rightarrow> string \<Rightarrow> bytes option \<Rightarrow> api_error + string \<times> bytes" where
  "random_token x prefix raw =
     (case raw of
        None \<Rightarrow> Inl service_unavailable
      | Some r \<Rightarrow> (let token = prefix @ b64_encode x r in Inr (token, sha256 x token)))"

definition reject_device_actor :: "auth_user \<Rightarrow> api_error + unit" where
  "reject_device_actor user = guardE (au_device user = None) (api_error 403 ''insufficient_scope'')"

definition required_device :: "auth_user \<Rightarrow> api_error + uuid" where
  "required_device user = okOr (au_device user) (api_error 403 ''insufficient_scope'')"

section \<open>Requesting a device code\<close>

record code_request =
  cr_client_name :: ustr
  cr_client_version :: ustr
  cr_device_name :: ustr
  cr_operating_system :: ustr

definition pending_grant :: "uuid \<Rightarrow> bytes \<Rightarrow> ustr \<Rightarrow> code_request \<Rightarrow> string option \<Rightarrow> instant \<Rightarrow> grant_row" where
  "pending_grant i digest code r ip now =
     \<lparr>gra_id = i, gra_code_digest = digest, gra_user_code = code, gra_client_name = cr_client_name r,
      gra_device_name = cr_device_name r, gra_operating_system = cr_operating_system r,
      gra_client_version = cr_client_version r, gra_requested_ip = ip,
      gra_expires_at = now + seconds DEVICE_CODE_TTL_SECONDS, gra_poll_interval = DEFAULT_POLL_SECONDS,
      gra_poll_after = now, gra_status = GrantPending, gra_owner = None, gra_device = None,
      gra_created_at = now\<rparr>"

fun create_code_loop :: "(uuid \<times> bytes option) list \<Rightarrow> bytes \<Rightarrow> code_request \<Rightarrow> string option \<Rightarrow> instant
    \<Rightarrow> db \<Rightarrow> ustr outcome" where
  "create_code_loop [] digest r ip now s = (s, Inl service_unavailable)"
| "create_code_loop ((i, raw) # tries) digest r ip now s =
     (case new_user_code raw of
        Inl e \<Rightarrow> (s, Inl e)
      | Inr user_code \<Rightarrow>
          (case insert_grant (pending_grant i digest user_code r ip now) s of
             Inr s' \<Rightarrow> (s', Inr user_code)
           | Inl UniqueViolation \<Rightarrow> create_code_loop tries digest r ip now s
           | Inl e \<Rightarrow> (s, Inl (db_unavailable e))))"

definition clean_request :: "code_request \<Rightarrow> api_error + code_request" where
  "clean_request r =
     bindE (clean_label (cr_client_name r) 80) (\<lambda>client_name.
     bindE (clean_label (cr_client_version r) 40) (\<lambda>client_version.
     bindE (clean_label (cr_device_name r) 120) (\<lambda>device_name.
     bindE (clean_label (cr_operating_system r) 120) (\<lambda>operating_system.
       Inr \<lparr>cr_client_name = client_name, cr_client_version = client_version,
            cr_device_name = device_name, cr_operating_system = operating_system\<rparr>))))"

definition expire_grants :: "instant \<Rightarrow> db \<Rightarrow> db" where
  "expire_grants now s =
     s\<lparr>grants := update_where (\<lambda>g. gra_status g = GrantPending \<and> gra_expires_at g \<le> now)
                  (\<lambda>g. g\<lparr>gra_status := GrantExpired\<rparr>) (grants s)\<rparr>"

definition create_code :: "externals \<Rightarrow> headers \<Rightarrow> code_request \<Rightarrow> instant \<Rightarrow> bytes option
    \<Rightarrow> (uuid \<times> bytes option) list \<Rightarrow> db \<Rightarrow> (string \<times> ustr) outcome" where
  "create_code x hs request now raw tries s =
     (case clean_request request of
        Inl e \<Rightarrow> (s, Inl e)
      | Inr r \<Rightarrow>
          if 30 \<le> count_where (\<lambda>g. now - seconds 60 < gra_created_at g) (grants s)
          then (s, Inl (api_error 429 ''too_many_attempts''))
          else
            (let s1 = expire_grants now s in
             case random_token x '''' raw of
               Inl e \<Rightarrow> (s1, Inl e)
             | Inr (device_code, device_digest) \<Rightarrow>
                 (case create_code_loop (take 5 tries) device_digest r (forwarded_ip hs) now s1 of
                    (s2, Inl e) \<Rightarrow> (s2, Inl e)
                  | (s2, Inr user_code) \<Rightarrow> (s2, Inr (device_code, user_code)))))"

section \<open>Issuing, exchanging and refreshing credentials\<close>

text \<open>The random bytes and the identifier a request draws for a pair of tokens.\<close>

record token_draw =
  draw_access :: "bytes option"
  draw_refresh :: "bytes option"
  draw_id :: uuid

definition issue_credentials :: "externals \<Rightarrow> instant \<Rightarrow> token_draw \<Rightarrow> uuid \<Rightarrow> db
    \<Rightarrow> api_error + db \<times> string \<times> string" where
  "issue_credentials x now d device_id s =
     bindE (random_token x ''mdb_'' (draw_access d)) (\<lambda>(access_token, access_digest).
     bindE (random_token x ''mdr_'' (draw_refresh d)) (\<lambda>(refresh_token, refresh_digest).
     bindE (mapErr db_unavailable (insert_credential
              \<lparr>crd_id = draw_id d, crd_device = device_id, crd_access_digest = access_digest,
               crd_refresh_digest = refresh_digest,
               crd_access_expires_at = now + seconds ACCESS_TOKEN_TTL_SECONDS,
               crd_refresh_expires_at = now + seconds REFRESH_TOKEN_TTL_SECONDS,
               crd_revoked_at = None\<rparr> s)) (\<lambda>s'.
       Inr (s', access_token, refresh_token))))"

definition set_grant :: "uuid \<Rightarrow> (grant_row \<Rightarrow> bool) \<Rightarrow> (grant_row \<Rightarrow> grant_row) \<Rightarrow> db \<Rightarrow> db" where
  "set_grant i p f s = s\<lparr>grants := update_where (\<lambda>g. gra_id g = i \<and> p g) f (grants s)\<rparr>"

definition expire_grant :: "uuid \<Rightarrow> db \<Rightarrow> db" where
  "expire_grant i s =
     set_grant i (\<lambda>g. gra_status g = GrantPending) (\<lambda>g. g\<lparr>gra_status := GrantExpired\<rparr>) s"

definition exchange_approved :: "externals \<Rightarrow> instant \<Rightarrow> token_draw \<Rightarrow> grant_row \<Rightarrow> db
    \<Rightarrow> api_error + db \<times> string \<times> string" where
  "exchange_approved x now d g s =
     bindE (okOr (gra_device g) service_unavailable) (\<lambda>device_id.
     bindE (issue_credentials x now d device_id s) (\<lambda>(s1, tokens).
       let s2 = set_grant (gra_id g) (\<lambda>r. gra_status r = GrantApproved)
                  (\<lambda>r. r\<lparr>gra_status := GrantConsumed\<rparr>) s1
       in Inr (add_audit ''device_token_issued'' (gra_owner g) (Some device_id) s2, tokens)))"

definition exchange_token :: "externals \<Rightarrow> instant \<Rightarrow> token_draw \<Rightarrow> string \<Rightarrow> string \<Rightarrow> db
    \<Rightarrow> (string \<times> string) outcome" where
  "exchange_token x now d grant_type device_code s =
     (if grant_type \<noteq> ''urn:ietf:params:oauth:grant-type:device_code''
      then (s, Inl (api_error 400 ''unsupported_grant_type''))
      else if length device_code < 20 \<or> 128 < length device_code
      then (s, Inl (api_error 400 ''invalid_grant''))
      else case find_row gra_code_digest (sha256 x device_code) (grants s) of
        None \<Rightarrow> (s, Inl (api_error 400 ''invalid_grant''))
      | Some g \<Rightarrow>
          if gra_expires_at g \<le> now \<or> gra_status g = GrantExpired
          then (expire_grant (gra_id g) s, Inl (api_error 400 ''expired_token''))
          else if now < gra_poll_after g
          then (let interval = min (gra_poll_interval g + 5) MAX_POLL_SECONDS in
                (set_grant (gra_id g) (\<lambda>_. True)
                   (\<lambda>r. r\<lparr>gra_poll_interval := interval, gra_poll_after := now + seconds interval\<rparr>) s,
                 Inl (with_interval 400 ''slow_down'' interval)))
          else
            (let s1 = set_grant (gra_id g) (\<lambda>_. True)
                        (\<lambda>r. r\<lparr>gra_poll_after := now + seconds (gra_poll_interval r)\<rparr>) s in
             case gra_status g of
               GrantPending \<Rightarrow> (s1, Inl (with_interval 400 ''authorization_pending'' (gra_poll_interval g)))
             | GrantDenied \<Rightarrow> (s1, Inl (api_error 400 ''access_denied''))
             | GrantApproved \<Rightarrow> rollback s (exchange_approved x now d g s1)
             | _ \<Rightarrow> (s1, Inl (api_error 400 ''invalid_grant''))))"

definition revoke_credentials :: "(credential_row \<Rightarrow> bool) \<Rightarrow> instant \<Rightarrow> db \<Rightarrow> db" where
  "revoke_credentials p now s =
     s\<lparr>credentials := update_where (\<lambda>c. p c \<and> crd_revoked_at c = None)
                        (\<lambda>c. c\<lparr>crd_revoked_at := Some now\<rparr>) (credentials s)\<rparr>"

definition revoke_devices :: "(device_row \<Rightarrow> bool) \<Rightarrow> instant \<Rightarrow> db \<Rightarrow> db" where
  "revoke_devices p now s =
     s\<lparr>devices := update_where (\<lambda>d. p d \<and> dev_revoked_at d = None)
                    (\<lambda>d. d\<lparr>dev_revoked_at := Some now\<rparr>) (devices s)\<rparr>"

text \<open>The join of a credential with its device and the device's account.\<close>

definition credential_join :: "db \<Rightarrow> credential_row \<Rightarrow> (device_row \<times> user_row) option" where
  "credential_join s c =
     (case find_row dev_id (crd_device c) (devices s) of
        None \<Rightarrow> None
      | Some d \<Rightarrow> map_option (\<lambda>u. (d, u)) (find_row usr_id (dev_owner d) (users s)))"

definition find_refresh :: "bytes \<Rightarrow> db \<Rightarrow> (credential_row \<times> device_row \<times> user_row) option" where
  "find_refresh digest s =
     (case find_row crd_refresh_digest digest (credentials s) of
        None \<Rightarrow> None
      | Some c \<Rightarrow> map_option (\<lambda>(d, u). (c, d, u)) (credential_join s c))"

definition refresh_token :: "externals \<Rightarrow> instant \<Rightarrow> token_draw \<Rightarrow> string \<Rightarrow> string \<Rightarrow> db
    \<Rightarrow> (string \<times> string) outcome" where
  "refresh_token x now dr grant_type token s =
     (if grant_type \<noteq> ''refresh_token'' then (s, Inl (api_error 400 ''unsupported_grant_type''))
      else if \<not> starts_with token ''mdr_'' \<or> length token \<noteq> 47
      then (s, Inl (api_error 400 ''invalid_grant''))
      else case find_refresh (sha256 x token) s of
        None \<Rightarrow> (s, Inl (api_error 400 ''invalid_grant''))
      | Some (c, d, u) \<Rightarrow>
          if crd_revoked_at c \<noteq> None then
            (add_audit ''device_refresh_reuse'' (Some (dev_owner d)) (Some (crd_device c))
               (revoke_credentials (\<lambda>r. crd_device r = crd_device c) now
                 (revoke_devices (\<lambda>r. dev_id r = crd_device c) now s)),
             Inl (api_error 400 ''invalid_grant''))
          else if dev_revoked_at d \<noteq> None \<or> usr_disabled_at u \<noteq> None \<or> crd_refresh_expires_at c \<le> now
          then (s, Inl (api_error 400 ''invalid_grant''))
          else rollback s (issue_credentials x now dr (crd_device c)
                 (revoke_credentials (\<lambda>r. crd_id r = crd_id c) now s)))"

section \<open>Approving and denying\<close>

definition pending_request :: "auth_user \<Rightarrow> ustr \<Rightarrow> db \<Rightarrow> api_error + grant_row" where
  "pending_request user user_code s =
     bindE (reject_device_actor user) (\<lambda>_.
     bindE (normalize_user_code user_code) (\<lambda>code.
       okOr (find_row gra_user_code code (grants s)) (api_error 404 ''not_found'')))"

definition approve_pending :: "auth_user \<Rightarrow> instant \<Rightarrow> uuid \<Rightarrow> grant_row \<Rightarrow> db \<Rightarrow> api_error + db \<times> uuid" where
  "approve_pending user now device_id g s =
     bindE (guardE (gra_status g = GrantPending) (api_error 409 ''conflict'')) (\<lambda>_.
     bindE (mapErr db_unavailable (insert_device
              \<lparr>dev_id = device_id, dev_owner = au_id user, dev_name = gra_device_name g,
               dev_client_name = gra_client_name g, dev_operating_system = gra_operating_system g,
               dev_client_version = gra_client_version g, dev_created_at = now,
               dev_last_active_at = None, dev_last_ip = None, dev_revoked_at = None\<rparr> s)) (\<lambda>s1.
       let s2 = set_grant (gra_id g) (\<lambda>r. gra_status r = GrantPending)
                  (\<lambda>r. r\<lparr>gra_status := GrantApproved, gra_owner := Some (au_id user),
                         gra_device := Some device_id\<rparr>) s1
       in Inr (add_audit ''device_authorized'' (Some (au_id user)) (Some device_id) s2, device_id)))"

definition approve_request :: "externals \<Rightarrow> auth_settings \<Rightarrow> auth_user \<Rightarrow> headers \<Rightarrow> instant \<Rightarrow> uuid \<Rightarrow> ustr
    \<Rightarrow> db \<Rightarrow> uuid outcome" where
  "approve_request x settings user hs now device_id user_code s =
     (case bindE (reject_device_actor user) (\<lambda>_.
           bindE (guardE (require_csrf x hs user settings) (api_error 403 ''csrf_failed'')) (\<lambda>_.
           bindE (guardE (\<not> au_must_change_password user) (api_error 403 ''password_change_required'')) (\<lambda>_.
           bindE (normalize_user_code user_code) (\<lambda>code.
             okOr (find_row gra_user_code code (grants s)) (api_error 404 ''not_found''))))) of
        Inl e \<Rightarrow> (s, Inl e)
      | Inr g \<Rightarrow>
          if gra_expires_at g \<le> now \<or> gra_status g = GrantExpired
          then (expire_grant (gra_id g) s, Inl (api_error 400 ''expired_token''))
          else rollback s (approve_pending user now device_id g s))"

definition deny_request :: "externals \<Rightarrow> auth_settings \<Rightarrow> auth_user \<Rightarrow> headers \<Rightarrow> instant \<Rightarrow> ustr
    \<Rightarrow> db \<Rightarrow> unit outcome" where
  "deny_request x settings user hs now user_code s =
     (case bindE (reject_device_actor user) (\<lambda>_.
           bindE (guardE (require_csrf x hs user settings) (api_error 403 ''csrf_failed'')) (\<lambda>_.
             normalize_user_code user_code)) of
        Inl e \<Rightarrow> (s, Inl e)
      | Inr code \<Rightarrow>
          (let hit = (\<lambda>g. gra_user_code g = code \<and> gra_status g = GrantPending \<and> now < gra_expires_at g) in
           if count_where hit (grants s) = 0 then (s, Inl (api_error 404 ''not_found''))
           else (s\<lparr>grants := update_where hit (\<lambda>g. g\<lparr>gra_status := GrantDenied\<rparr>) (grants s)\<rparr>, Inr ())))"

section \<open>Devices of an account\<close>

definition heartbeat :: "auth_user \<Rightarrow> headers \<Rightarrow> instant \<Rightarrow> ustr option \<Rightarrow> db \<Rightarrow> unit outcome" where
  "heartbeat user hs now client_version s =
     (case bindE (required_device user) (\<lambda>device_id.
           bindE (case client_version of
                    None \<Rightarrow> Inr None
                  | Some v \<Rightarrow> bindE (clean_label v 40) (\<lambda>l. Inr (Some l))) (\<lambda>version.
             Inr (device_id, version))) of
        Inl e \<Rightarrow> (s, Inl e)
      | Inr (device_id, version) \<Rightarrow>
          (s\<lparr>devices := update_where
               (\<lambda>d. dev_id d = device_id \<and> dev_owner d = au_id user \<and> dev_revoked_at d = None)
               (\<lambda>d. d\<lparr>dev_last_active_at := Some now,
                      dev_last_ip := (case forwarded_ip hs of None \<Rightarrow> dev_last_ip d | Some ip \<Rightarrow> Some ip),
                      dev_client_version := (case version of None \<Rightarrow> dev_client_version d | Some v \<Rightarrow> v)\<rparr>)
               (devices s)\<rparr>, Inr ()))"

definition revoke_owned_device :: "uuid \<Rightarrow> uuid \<Rightarrow> instant \<Rightarrow> db \<Rightarrow> unit outcome" where
  "revoke_owned_device owner device_id now s =
     (if \<not> list_ex (\<lambda>d. dev_id d = device_id \<and> dev_owner d = owner) (devices s)
      then (s, Inl (api_error 404 ''not_found''))
      else (add_audit ''device_revoked'' (Some owner) (Some device_id)
              (revoke_credentials (\<lambda>c. crd_device c = device_id) now
                (revoke_devices (\<lambda>d. dev_id d = device_id \<and> dev_owner d = owner) now s)), Inr ()))"

definition logout_device :: "auth_user \<Rightarrow> instant \<Rightarrow> db \<Rightarrow> unit outcome" where
  "logout_device user now s =
     (case required_device user of
        Inl e \<Rightarrow> (s, Inl e)
      | Inr device_id \<Rightarrow> revoke_owned_device (au_id user) device_id now s)"

definition revoke_device :: "externals \<Rightarrow> auth_settings \<Rightarrow> auth_user \<Rightarrow> headers \<Rightarrow> instant \<Rightarrow> uuid
    \<Rightarrow> db \<Rightarrow> unit outcome" where
  "revoke_device x settings user hs now i s =
     (case bindE (reject_device_actor user) (\<lambda>_.
             guardE (require_csrf x hs user settings) (api_error 403 ''csrf_failed'')) of
        Inl e \<Rightarrow> (s, Inl e)
      | Inr _ \<Rightarrow> revoke_owned_device (au_id user) i now s)"

definition list_devices :: "auth_user \<Rightarrow> bool \<Rightarrow> db \<Rightarrow> api_error + device_row list" where
  "list_devices user include_revoked s =
     bindE (reject_device_actor user) (\<lambda>_.
       Inr (take 100 (rev (sort_key dev_created_at (rev (filter
         (\<lambda>d. dev_owner d = au_id user \<and> (include_revoked \<or> dev_revoked_at d = None)) (devices s)))))))"

section \<open>Device authentication\<close>

definition authenticate_access_token :: "externals \<Rightarrow> instant \<Rightarrow> string \<Rightarrow> string option \<Rightarrow> db
    \<Rightarrow> db \<times> auth_user option" where
  "authenticate_access_token x now token reported_ip s =
     (if \<not> starts_with token ''mdb_'' \<or> length token \<noteq> 47 then (s, None)
      else case find (\<lambda>c. crd_access_digest c = sha256 x token \<and> crd_revoked_at c = None
                          \<and> now < crd_access_expires_at c
                          \<and> (case credential_join s c of None \<Rightarrow> False
                             | Some (d, u) \<Rightarrow> dev_revoked_at d = None \<and> usr_disabled_at u = None))
                  (credentials s) of
        None \<Rightarrow> (s, None)
      | Some c \<Rightarrow>
          (case credential_join s c of
             None \<Rightarrow> (s, None)
           | Some (d, u) \<Rightarrow>
               (let stale = (\<lambda>v. case v of None \<Rightarrow> True | Some seen \<Rightarrow> seen < now - seconds 300);
                    s' = (if stale (dev_last_active_at d) then
                            s\<lparr>devices := update_where
                                (\<lambda>r. dev_id r = dev_id d \<and> dev_revoked_at r = None \<and> stale (dev_last_active_at r))
                                (\<lambda>r. r\<lparr>dev_last_active_at := Some now,
                                       dev_last_ip := (case reported_ip of None \<Rightarrow> dev_last_ip r | Some ip \<Rightarrow> Some ip)\<rparr>)
                                (devices s)\<rparr>
                          else s)
                in (s', Some (from_device (dev_owner d) (dev_id d) (usr_email u) (usr_role u)
                                (usr_must_change_password u))))))"

datatype http_method = GET | HEAD | POST | PUT | PATCH | DELETE | OtherMethod

definition has_suffix :: "'a list \<Rightarrow> 'a list \<Rightarrow> bool" where
  "has_suffix s suf \<longleftrightarrow> length suf \<le> length s \<and> drop (length s - length suf) s = suf"

text \<open>\<open>trim_end_matches\<close>: the suffix is removed as often as it occurs.\<close>

function trim_end_matches :: "'a list \<Rightarrow> 'a list \<Rightarrow> 'a list" where
  "trim_end_matches suf s =
     (if suf \<noteq> [] \<and> has_suffix s suf then trim_end_matches suf (take (length s - length suf) s) else s)"
  by auto
termination
  by (relation "measure (\<lambda>(suf, s). length s)") (auto simp: has_suffix_def simp flip: length_greater_0_conv)

declare trim_end_matches.simps [simp del]

definition device_request_allowed :: "http_method \<Rightarrow> string \<Rightarrow> bool" where
  "device_request_allowed m path =
     (let read = (m = GET \<or> m = HEAD) in
      if path = ''/api/auth/me'' then read
      else if path = ''/api/storage'' then read
      else if path = ''/api/device/heartbeat'' \<or> path = ''/api/device/logout'' then m = POST
      else if path = ''/api/drive'' \<or> path = ''/api/drive/search'' then read
      else if path = ''/api/folders'' then m = POST
      else if path = ''/api/uploads'' then m = POST
      else if path = ''/api/backup/check'' \<or> path = ''/api/backup/link'' \<or> path = ''/api/backup/folders''
      then m = POST
      else case strip_prefix ''/api/uploads/'' path of
        Some rest \<Rightarrow>
          if has_suffix rest ''/finalize''
          then m = POST \<and> CHR ''/'' \<notin> set (trim_end_matches ''/finalize'' rest)
          else (m = HEAD \<or> m = PATCH \<or> m = DELETE) \<and> CHR ''/'' \<notin> set rest
      | None \<Rightarrow>
          (case strip_prefix ''/api/entries/'' path of
             Some rest \<Rightarrow>
               if has_suffix rest ''/rename'' then m = PATCH
               else if has_suffix rest ''/move'' then m = POST
               else (read \<or> m = DELETE) \<and> CHR ''/'' \<notin> set rest
           | None \<Rightarrow>
               (case strip_prefix ''/api/files/'' path of
                  Some rest \<Rightarrow> read \<and> has_suffix rest ''/versions'' \<and> count_list rest CHR ''/'' = 1
                | None \<Rightarrow> False)))"

section \<open>Writes to the device tables\<close>

text \<open>
  Every handler changes the database by a sequence of the writes below. Rows are never
  deleted, keys never change, a consumed grant and a revoked row stay so.
\<close>

inductive device_write :: "db \<Rightarrow> db \<Rightarrow> bool" where
  grants_updated: "(\<And>g. p g \<Longrightarrow> gra_id (f g) = gra_id g \<and> gra_code_digest (f g) = gra_code_digest g
       \<and> gra_user_code (f g) = gra_user_code g
       \<and> (gra_status g = GrantConsumed \<longrightarrow> gra_status (f g) = GrantConsumed))
     \<Longrightarrow> device_write s (s\<lparr>grants := update_where p f (grants s)\<rparr>)"
| devices_updated: "(\<And>d. p d \<Longrightarrow> dev_id (f d) = dev_id d \<and> dev_owner (f d) = dev_owner d
       \<and> (dev_revoked_at d \<noteq> None \<longrightarrow> dev_revoked_at (f d) \<noteq> None))
     \<Longrightarrow> device_write s (s\<lparr>devices := update_where p f (devices s)\<rparr>)"
| credentials_updated: "(\<And>c. p c \<Longrightarrow> crd_id (f c) = crd_id c \<and> crd_device (f c) = crd_device c
       \<and> crd_access_digest (f c) = crd_access_digest c \<and> crd_refresh_digest (f c) = crd_refresh_digest c
       \<and> (crd_revoked_at c \<noteq> None \<longrightarrow> crd_revoked_at (f c) \<noteq> None))
     \<Longrightarrow> device_write s (s\<lparr>credentials := update_where p f (credentials s)\<rparr>)"
| grant_inserted: "insert_grant g s = Inr s' \<Longrightarrow> device_write s s'"
| device_inserted: "insert_device d s = Inr s' \<Longrightarrow> device_write s s'"
| credential_inserted: "insert_credential c s = Inr s' \<Longrightarrow> device_write s s'"
| audit_added: "device_write s (add_audit t a r s)"

abbreviation device_writes :: "db \<Rightarrow> db \<Rightarrow> bool" where
  "device_writes \<equiv> device_write\<^sup>*\<^sup>*"

subsection \<open>Facts that no write undoes\<close>

definition settled :: "('r \<Rightarrow> 'k) \<Rightarrow> ('r \<Rightarrow> bool) \<Rightarrow> 'k \<Rightarrow> 'r list \<Rightarrow> bool" where
  "settled key P k rows \<longleftrightarrow> k \<in> key ` set rows \<and> (\<forall>r \<in> set rows. key r = k \<longrightarrow> P r)"

lemma settled_update:
  assumes "settled key P k rows" and "\<And>r. p r \<Longrightarrow> key (f r) = key r \<and> (P r \<longrightarrow> P (f r))"
  shows "settled key P k (update_where p f rows)"
proof -
  from assms(1) obtain r where r: "r \<in> set rows" "key r = k" unfolding settled_def by blast
  have "key (if p r then f r else r) = k" using assms(2) r by simp
  moreover have "(if p r then f r else r) \<in> set (update_where p f rows)"
    unfolding set_update_where using r(1) by (rule imageI)
  ultimately have "k \<in> key ` set (update_where p f rows)" by (metis imageI)
  with assms show ?thesis by (auto simp: settled_def set_update_where)
qed

lemma settled_append: "settled key P k rows \<Longrightarrow> key r \<noteq> k \<Longrightarrow> settled key P k (rows @ [r])"
  by (auto simp: settled_def)

datatype device_fact = DeviceRevoked uuid | AccessRevoked bytes | RefreshRevoked bytes uuid | CodeSpent bytes

fun device_final :: "device_fact \<Rightarrow> db \<Rightarrow> bool" where
  "device_final (DeviceRevoked i) s = settled dev_id (\<lambda>d. dev_revoked_at d \<noteq> None) i (devices s)"
| "device_final (AccessRevoked dg) s =
     settled crd_access_digest (\<lambda>c. crd_revoked_at c \<noteq> None) dg (credentials s)"
| "device_final (RefreshRevoked dg i) s =
     settled crd_refresh_digest (\<lambda>c. crd_revoked_at c \<noteq> None \<and> crd_device c = i) dg (credentials s)"
| "device_final (CodeSpent dg) s = settled gra_code_digest (\<lambda>g. gra_status g = GrantConsumed) dg (grants s)"

definition device_ok :: "db \<Rightarrow> bool" where
  "device_ok s \<longleftrightarrow> distinct (map dev_id (devices s)) \<and> distinct (map gra_id (grants s))
     \<and> distinct (map gra_code_digest (grants s)) \<and> distinct (map gra_user_code (grants s))
     \<and> distinct (map crd_id (credentials s)) \<and> distinct (map crd_access_digest (credentials s))
     \<and> distinct (map crd_refresh_digest (credentials s))
     \<and> crd_device ` set (credentials s) \<subseteq> dev_id ` set (devices s)
     \<and> dev_owner ` set (devices s) \<subseteq> usr_id ` set (users s)"

lemma map_update_where: "(\<And>r. p r \<Longrightarrow> g (f r) = g r) \<Longrightarrow> map g (update_where p f rows) = map g rows"
  by (simp add: update_where_def)

lemma image_update_where: "(\<And>r. p r \<Longrightarrow> g (f r) = g r) \<Longrightarrow> g ` set (update_where p f rows) = g ` set rows"
  by (metis map_update_where set_map)

lemma settled_by_update:
  assumes "k \<in> key ` set rows" and "\<And>r. p r \<Longrightarrow> key (f r) = key r"
    and "\<And>r. r \<in> set rows \<Longrightarrow> key r = k \<Longrightarrow> P (if p r then f r else r)"
  shows "settled key P k (update_where p f rows)"
proof -
  have "P r'" if "r' \<in> set (update_where p f rows)" "key r' = k" for r'
  proof -
    from that(1) obtain r where "r \<in> set rows" "r' = (if p r then f r else r)"
      unfolding set_update_where by blast
    with assms(2,3) that(2) show ?thesis by (metis (full_types))
  qed
  with assms(1,2) show ?thesis unfolding settled_def by (simp add: image_update_where)
qed

lemma fresh_key: "(\<And>x. x \<in> set rows \<Longrightarrow> key x \<noteq> k) \<Longrightarrow> k \<notin> key ` set rows"
  by auto

lemma insert_grant_fresh:
  assumes "insert_grant g s = Inr s'"
  shows "s' = s\<lparr>grants := grants s @ [g]\<rparr>" and "gra_id g \<notin> gra_id ` set (grants s)"
    and "gra_code_digest g \<notin> gra_code_digest ` set (grants s)"
    and "gra_user_code g \<notin> gra_user_code ` set (grants s)"
  using assms by (auto simp: insert_grant_def result_simps intro!: fresh_key)

lemma insert_device_fresh:
  assumes "insert_device d s = Inr s'"
  shows "s' = s\<lparr>devices := devices s @ [d]\<rparr>" and "dev_id d \<notin> dev_id ` set (devices s)"
    and "dev_owner d \<in> usr_id ` set (users s)"
  using assms by (auto simp: insert_device_def result_simps)

lemma insert_credential_fresh:
  assumes "insert_credential c s = Inr s'"
  shows "s' = s\<lparr>credentials := credentials s @ [c]\<rparr>" and "crd_id c \<notin> crd_id ` set (credentials s)"
    and "crd_access_digest c \<notin> crd_access_digest ` set (credentials s)"
    and "crd_refresh_digest c \<notin> crd_refresh_digest ` set (credentials s)"
    and "crd_device c \<in> dev_id ` set (devices s)"
  using assms by (auto simp: insert_credential_def result_simps intro!: fresh_key)

lemma settled_fresh: "settled key P k rows \<Longrightarrow> key r \<notin> key ` set rows \<Longrightarrow> settled key P k (rows @ [r])"
  by (rule settled_append) (auto simp: settled_def)

lemma device_write_ok: "device_write s s' \<Longrightarrow> device_ok s \<Longrightarrow> device_ok s'"
proof (induction rule: device_write.induct)
  case (grants_updated p f s)
  then show ?case by (simp add: device_ok_def map_update_where)
next
  case (devices_updated p f s)
  then show ?case by (simp add: device_ok_def map_update_where image_update_where)
next
  case (credentials_updated p f s)
  then show ?case by (simp add: device_ok_def map_update_where image_update_where)
next
  case (grant_inserted g s s')
  then show ?case using insert_grant_fresh [OF grant_inserted.hyps] by (simp add: device_ok_def subset_insertI2)
next
  case (device_inserted d s s')
  then show ?case using insert_device_fresh [OF device_inserted.hyps] by (simp add: device_ok_def subset_insertI2)
next
  case (credential_inserted c s s')
  then show ?case using insert_credential_fresh [OF credential_inserted.hyps] by (simp add: device_ok_def subset_insertI2)
next
  case (audit_added s t a r)
  then show ?case by (simp add: device_ok_def add_audit_def)
qed

lemma device_write_final: "device_write s s' \<Longrightarrow> device_final k s \<Longrightarrow> device_final k s'"
proof (induction rule: device_write.induct)
  case (grants_updated p f s)
  then show ?case by (cases k) (auto intro: settled_update)
next
  case (devices_updated p f s)
  then show ?case by (cases k) (auto intro: settled_update)
next
  case (credentials_updated p f s)
  then show ?case by (cases k) (auto intro: settled_update)
next
  case (grant_inserted g s s')
  then show ?case using insert_grant_fresh [OF grant_inserted.hyps] by (cases k) (simp_all add: settled_fresh)
next
  case (device_inserted d s s')
  then show ?case using insert_device_fresh [OF device_inserted.hyps] by (cases k) (simp_all add: settled_fresh)
next
  case (credential_inserted c s s')
  then show ?case using insert_credential_fresh [OF credential_inserted.hyps] by (cases k) (simp_all add: settled_fresh)
next
  case (audit_added s t a r)
  then show ?case by (cases k) (simp_all add: add_audit_def)
qed

lemma device_writes_ok: "device_writes s s' \<Longrightarrow> device_ok s \<Longrightarrow> device_ok s'"
  by (induction rule: rtranclp_induct) (auto intro: device_write_ok)

lemma device_writes_final: "device_writes s s' \<Longrightarrow> device_final k s \<Longrightarrow> device_final k s'"
  by (induction rule: rtranclp_induct) (auto intro: device_write_final)

subsection \<open>Every handler is a sequence of writes\<close>

named_theorems device_writing \<open>states a handler leaves are reached by writes\<close>

lemma writes_refl [device_writing]: "device_writes s s" by simp

lemma writes_step: "device_writes s t \<Longrightarrow> device_write t u \<Longrightarrow> device_writes s u" by simp

lemma audit_writes [device_writing]: "device_writes s s' \<Longrightarrow> device_writes s (add_audit t a r s')"
  by (rule writes_step [OF _ audit_added])

lemma expire_grants_writes [device_writing]: "device_writes s (expire_grants now s)"
  unfolding expire_grants_def by (intro r_into_rtranclp grants_updated) auto

lemma set_grant_writes:
  assumes "device_writes s s'"
    and "\<And>g. p g \<Longrightarrow> gra_id (f g) = gra_id g \<and> gra_code_digest (f g) = gra_code_digest g
       \<and> gra_user_code (f g) = gra_user_code g
       \<and> (gra_status g = GrantConsumed \<longrightarrow> gra_status (f g) = GrantConsumed)"
  shows "device_writes s (set_grant i p f s')"
  unfolding set_grant_def by (rule writes_step [OF assms(1)], rule grants_updated) (use assms(2) in auto)

lemma expire_grant_writes [device_writing]: "device_writes s (expire_grant i s)"
  unfolding expire_grant_def by (rule set_grant_writes) auto

lemma revoke_credentials_writes [device_writing]:
  "device_writes s s' \<Longrightarrow> device_writes s (revoke_credentials p now s')"
  unfolding revoke_credentials_def by (rule writes_step, assumption, rule credentials_updated) auto

lemma revoke_devices_writes [device_writing]:
  "device_writes s s' \<Longrightarrow> device_writes s (revoke_devices p now s')"
  unfolding revoke_devices_def by (rule writes_step, assumption, rule devices_updated) auto

lemma issue_credentials_writes:
  "issue_credentials x now d i s' = Inr (s'', v) \<Longrightarrow> device_writes s s' \<Longrightarrow> device_writes s s''"
  by (auto simp: issue_credentials_def result_simps split_beta intro: writes_step credential_inserted)

lemma create_code_loop_writes:
  "device_writes s s' \<Longrightarrow> device_writes s (fst (create_code_loop tries digest r ip now s'))"
  by (induction tries digest r ip now s' rule: create_code_loop.induct)
    (auto split: sum.splits db_error.splits intro: writes_step grant_inserted)

lemma create_code_writes: "device_writes s (fst (create_code x hs request now raw tries s))"
  using create_code_loop_writes [OF expire_grants_writes, of s]
  by (auto simp: create_code_def Let_def expire_grants_writes split: sum.splits prod.splits)
    (metis fst_conv)+

lemma exchange_approved_writes:
  "exchange_approved x now d g s' = Inr (s'', v) \<Longrightarrow> device_writes s s' \<Longrightarrow> device_writes s s''"
  by (auto simp: exchange_approved_def result_simps Let_def split_beta
      intro!: audit_writes set_grant_writes dest: issue_credentials_writes)

lemma exchange_token_writes: "device_writes s (fst (exchange_token x now d gt code s))"
proof -
  have s1: "device_writes s (set_grant i (\<lambda>_. True) (\<lambda>r. r\<lparr>gra_poll_after := now + seconds (gra_poll_interval r)\<rparr>) s)"
    "device_writes s (set_grant i (\<lambda>_. True) (\<lambda>r. r\<lparr>gra_poll_interval := n, gra_poll_after := m\<rparr>) s)" for i n m
    by (rule set_grant_writes; simp)+
  show ?thesis
    by (auto simp: exchange_token_def Let_def rollback_def s1 expire_grant_writes
        split: option.splits grant_status.splits sum.splits
        dest: exchange_approved_writes [OF _ s1(1)])
qed

lemma refresh_token_writes: "device_writes s (fst (refresh_token x now d gt token s))"
  by (auto simp: refresh_token_def rollback_def split: option.splits sum.splits prod.splits
      intro!: device_writing dest: issue_credentials_writes [OF _ revoke_credentials_writes [OF writes_refl]])

lemma approve_pending_writes:
  "approve_pending user now i g s = Inr (s', v) \<Longrightarrow> device_writes s s'"
  by (auto simp: approve_pending_def result_simps Let_def
      intro!: audit_writes set_grant_writes intro: r_into_rtranclp device_inserted)

lemma approve_request_writes:
  "device_writes s (fst (approve_request x st user hs now i code s))"
  by (auto simp: approve_request_def rollback_def expire_grant_writes
      split: sum.splits prod.splits dest: approve_pending_writes)

lemma deny_request_writes: "device_writes s (fst (deny_request x st user hs now code s))"
  by (auto simp: deny_request_def Let_def split: sum.splits intro!: r_into_rtranclp grants_updated)

lemma heartbeat_writes: "device_writes s (fst (heartbeat user hs now v s))"
  by (auto simp: heartbeat_def split: sum.splits prod.splits intro!: r_into_rtranclp devices_updated)

lemma revoke_owned_writes: "device_writes s (fst (revoke_owned_device o' i now s))"
  by (auto simp: revoke_owned_device_def intro!: device_writing)

lemma logout_device_writes: "device_writes s (fst (logout_device user now s))"
  by (auto simp: logout_device_def revoke_owned_writes split: sum.splits)

lemma revoke_device_writes: "device_writes s (fst (revoke_device x st user hs now i s))"
  by (auto simp: revoke_device_def revoke_owned_writes split: sum.splits)

lemma authenticate_writes: "device_writes s (fst (authenticate_access_token x now token ip s))"
  by (auto simp: authenticate_access_token_def Let_def split: option.splits prod.splits
      intro!: r_into_rtranclp devices_updated)

lemmas handler_writes = create_code_writes exchange_token_writes refresh_token_writes
  approve_request_writes deny_request_writes heartbeat_writes logout_device_writes
  revoke_device_writes authenticate_writes

section \<open>Runs of the device service\<close>

datatype device_event =
    CreateCode headers code_request instant "bytes option" "(uuid \<times> bytes option) list"
  | Exchange instant token_draw string string
  | Refresh instant token_draw string string
  | Approve auth_user headers instant uuid ustr
  | Deny auth_user headers instant ustr
  | Heartbeat auth_user headers instant "ustr option"
  | LogoutDevice auth_user instant
  | RevokeDevice auth_user headers instant uuid
  | Authenticate instant string "string option"

fun device_step :: "externals \<Rightarrow> auth_settings \<Rightarrow> device_event \<Rightarrow> db \<Rightarrow> db" where
  "device_step x st (CreateCode hs r now raw tries) s = fst (create_code x hs r now raw tries s)"
| "device_step x st (Exchange now d gt code) s = fst (exchange_token x now d gt code s)"
| "device_step x st (Refresh now d gt token) s = fst (refresh_token x now d gt token s)"
| "device_step x st (Approve user hs now i code) s = fst (approve_request x st user hs now i code s)"
| "device_step x st (Deny user hs now code) s = fst (deny_request x st user hs now code s)"
| "device_step x st (Heartbeat user hs now v) s = fst (heartbeat user hs now v s)"
| "device_step x st (LogoutDevice user now) s = fst (logout_device user now s)"
| "device_step x st (RevokeDevice user hs now i) s = fst (revoke_device x st user hs now i s)"
| "device_step x st (Authenticate now token ip) s = fst (authenticate_access_token x now token ip s)"

lemma device_step_writes: "device_writes s (device_step x st e s)"
  by (cases e) (simp_all add: handler_writes)

interpretation device: absorbing "device_step x st" device_ok device_final for x st
proof
  fix s e k
  assume ok: "device_ok s"
  then show "device_ok (device_step x st e s)"
    using device_step_writes device_writes_ok by blast
  show "device_final k (device_step x st e s)" if "device_final k s"
    using that device_step_writes device_writes_final by blast
qed

subsection \<open>What a handler's answer says\<close>

lemma credential_join_Some:
  "credential_join s c = Some (d, u) \<Longrightarrow>
     d \<in> set (devices s) \<and> dev_id d = crd_device c \<and> u \<in> set (users s) \<and> usr_id u = dev_owner d"
  by (auto simp: credential_join_def split: option.splits dest: find_row_Some)

lemma credential_join_total:
  assumes "device_ok s" and "c \<in> set (credentials s)"
  obtains d u where "credential_join s c = Some (d, u)"
proof -
  from assms have "crd_device c \<in> dev_id ` set (devices s)" by (auto simp: device_ok_def)
  then obtain d where d: "find_row dev_id (crd_device c) (devices s) = Some d"
    using find_row_None by (metis not_None_eq)
  with assms have "dev_owner d \<in> usr_id ` set (users s)"
    by (meson device_ok_def find_row_Some image_subset_iff)
  then obtain u where "find_row usr_id (dev_owner d) (users s) = Some u"
    using find_row_None by (metis not_None_eq)
  with d that show ?thesis by (simp add: credential_join_def)
qed

lemma authenticate_Some:
  assumes "authenticate_access_token x now token ip s = (s', Some user)"
  obtains c d u where "c \<in> set (credentials s)" "crd_access_digest c = sha256 x token"
    "crd_revoked_at c = None" "now < crd_access_expires_at c" "credential_join s c = Some (d, u)"
    "dev_revoked_at d = None" "usr_disabled_at u = None"
    "user = from_device (dev_owner d) (dev_id d) (usr_email u) (usr_role u) (usr_must_change_password u)"
proof -
  let ?P = "\<lambda>c. crd_access_digest c = sha256 x token \<and> crd_revoked_at c = None \<and> now < crd_access_expires_at c
     \<and> (case credential_join s c of None \<Rightarrow> False
        | Some (d, u) \<Rightarrow> dev_revoked_at d = None \<and> usr_disabled_at u = None)"
  from assms obtain c where c: "find ?P (credentials s) = Some c"
    by (auto simp: authenticate_access_token_def split: if_splits option.splits)
  then have pc: "?P c" "c \<in> set (credentials s)" by (auto simp: find_Some_iff)
  then obtain d u where j: "credential_join s c = Some (d, u)" "dev_revoked_at d = None" "usr_disabled_at u = None"
    by (auto split: option.splits)
  have "user = from_device (dev_owner d) (dev_id d) (usr_email u) (usr_role u) (usr_must_change_password u)"
    using assms c by (auto simp: authenticate_access_token_def Let_def j(1) split: if_splits)
  with that pc j show ?thesis by blast
qed

lemma authenticated_device_live:
  assumes "authenticate_access_token x now token ip s = (s', Some user)" and "device_final (DeviceRevoked i) s"
  shows "au_device user \<noteq> Some i"
  using assms by (auto elim!: authenticate_Some simp: from_device_def settled_def dest: credential_join_Some)

lemma authenticated_access_live:
  assumes "authenticate_access_token x now token ip s = (s', Some user)"
    and "device_final (AccessRevoked dg) s"
  shows "sha256 x token \<noteq> dg"
  using assms by (auto elim!: authenticate_Some simp: settled_def)

lemma locked_out:
  "device_final (DeviceRevoked i) s \<Longrightarrow>
   map_option au_device (snd (authenticate_access_token x now token ip s)) \<noteq> Some (Some i)"
proof (cases "authenticate_access_token x now token ip s")
  fix s' v
  assume "device_final (DeviceRevoked i) s" and "authenticate_access_token x now token ip s = (s', v)"
  then show ?thesis by (cases v) (auto dest: authenticated_device_live)
qed

lemma access_dead:
  "device_final (AccessRevoked (sha256 x token)) s \<Longrightarrow> snd (authenticate_access_token x now token ip s) = None"
proof (cases "authenticate_access_token x now token ip s")
  fix s' v
  assume "device_final (AccessRevoked (sha256 x token)) s" and "authenticate_access_token x now token ip s = (s', v)"
  then show ?thesis by (cases v) (auto dest: authenticated_access_live)
qed

lemma find_refresh_Some:
  "find_refresh dg s = Some (c, d, u) \<Longrightarrow>
     c \<in> set (credentials s) \<and> crd_refresh_digest c = dg \<and> credential_join s c = Some (d, u)"
  by (auto simp: find_refresh_def split: option.splits dest: find_row_Some)

lemma revoked_device_final:
  "i \<in> dev_id ` set (devices s) \<Longrightarrow> (\<And>d. dev_id d = i \<Longrightarrow> d \<in> set (devices s) \<Longrightarrow> p d) \<Longrightarrow>
   device_final (DeviceRevoked i) (revoke_devices p now s)"
  unfolding revoke_devices_def by (auto intro!: settled_by_update)

lemma revoke_credentials_devices [simp]: "devices (revoke_credentials p now s) = devices s"
  and add_audit_devices [simp]: "devices (add_audit t a r s) = devices s"
  by (simp_all add: revoke_credentials_def add_audit_def)

lemma refresh_reuse_final:
  assumes ok: "device_ok s" and spent: "device_final (RefreshRevoked (sha256 x token) i) s"
    and form: "starts_with token ''mdr_''" "length token = 47"
    and r: "refresh_token x now d ''refresh_token'' token s = (s', v)"
  shows "v = Inl (api_error 400 ''invalid_grant'') \<and> device_final (DeviceRevoked i) s'"
proof -
  from spent obtain c0 where "c0 \<in> set (credentials s)" "crd_refresh_digest c0 = sha256 x token"
    by (auto simp: settled_def)
  then obtain c where c: "find_row crd_refresh_digest (sha256 x token) (credentials s) = Some c"
    using find_row_None by (metis imageI not_None_eq)
  then have cs: "c \<in> set (credentials s)" "crd_revoked_at c \<noteq> None" "crd_device c = i"
    using spent by (auto simp: settled_def dest: find_row_Some)
  obtain dv u where j: "credential_join s c = Some (dv, u)"
    using credential_join_total [OF ok cs(1)] .
  have "i \<in> dev_id ` set (devices s)" using credential_join_Some [OF j] cs(3) by (metis imageI)
  then have "device_final (DeviceRevoked i) (revoke_devices (\<lambda>r. dev_id r = i) now s)"
    by (rule revoked_device_final)
  then show ?thesis
    using r form cs by (auto simp: refresh_token_def find_refresh_def c j)
qed

lemma refresh_success:
  assumes ok: "device_ok s" and r: "refresh_token x now dr gt token s = (s', Inr tokens)"
  obtains c d u where "find_refresh (sha256 x token) s = Some (c, d, u)" "crd_revoked_at c = None"
    "device_final (RefreshRevoked (sha256 x token) (crd_device c)) s'"
    "device_final (AccessRevoked (crd_access_digest c)) s'"
    "starts_with token ''mdr_''" "length token = 47"
proof -
  from r obtain c d u where f: "find_refresh (sha256 x token) s = Some (c, d, u)" "crd_revoked_at c = None"
      "starts_with token ''mdr_''" "length token = 47"
    and i: "issue_credentials x now dr (crd_device c) (revoke_credentials (\<lambda>r. crd_id r = crd_id c) now s)
              = Inr (s', tokens)"
    by (auto simp: refresh_token_def result_simps split: if_splits option.splits)
  let ?s = "revoke_credentials (\<lambda>r. crd_id r = crd_id c) now s"
  from find_refresh_Some [OF f(1)] have c: "c \<in> set (credentials s)" "crd_refresh_digest c = sha256 x token"
    by auto
  have uniq: "r = c" if "crd_refresh_digest r = sha256 x token" "r \<in> set (credentials s)" for r
    using ok c that by (auto simp: device_ok_def dest: distinct_key_unique)
  have uniq': "r = c" if "crd_access_digest r = crd_access_digest c" "r \<in> set (credentials s)" for r
    using ok c that by (auto simp: device_ok_def dest: distinct_key_unique)
  have "device_final (RefreshRevoked (sha256 x token) (crd_device c)) ?s"
    "device_final (AccessRevoked (crd_access_digest c)) ?s"
    unfolding revoke_credentials_def using c
    by (auto intro!: settled_by_update simp: rev_image_eqI dest: uniq uniq')
  moreover have "device_writes ?s s'" by (rule issue_credentials_writes [OF i writes_refl])
  ultimately show ?thesis
    using that f device_writes_final by blast
qed

lemma exchange_success:
  assumes ok: "device_ok s" and r: "exchange_token x now d gt code s = (s', Inr tokens)"
  shows "device_final (CodeSpent (sha256 x code)) s'"
proof -
  from r obtain g where g: "find_row gra_code_digest (sha256 x code) (grants s) = Some g"
      "gra_status g = GrantApproved"
    and e: "exchange_approved x now d g (set_grant (gra_id g) (\<lambda>_. True)
        (\<lambda>r. r\<lparr>gra_poll_after := now + seconds (gra_poll_interval r)\<rparr>) s) = Inr (s', tokens)"
    by (auto simp: exchange_token_def Let_def result_simps split: if_splits option.splits grant_status.splits)
  let ?s1 = "set_grant (gra_id g) (\<lambda>_. True) (\<lambda>r. r\<lparr>gra_poll_after := now + seconds (gra_poll_interval r)\<rparr>) s"
  from e obtain s2 dv v where i: "issue_credentials x now d dv ?s1 = Inr (s2, v)"
    and s': "grants s' = update_where (\<lambda>r. gra_id r = gra_id g \<and> gra_status r = GrantApproved)
               (\<lambda>r. r\<lparr>gra_status := GrantConsumed\<rparr>) (grants s2)"
    by (auto simp: exchange_approved_def result_simps Let_def add_audit_def set_grant_def)
  from i have s2: "grants s2 = grants ?s1"
    by (auto simp: issue_credentials_def result_simps insert_credential_def)
  have g_in: "g \<in> set (grants s)" "gra_code_digest g = sha256 x code" using find_row_Some [OF g(1)] by auto
  have uniq: "r = g" if "r \<in> set (grants s)" "gra_code_digest r = gra_code_digest g" for r
    using ok that g_in by (auto simp: device_ok_def dest: distinct_key_unique)
  have key: "gra_code_digest g \<in> gra_code_digest ` set (grants s2)"
    unfolding s2 set_grant_def using g_in by (simp add: image_update_where) (metis imageI)
  have row: "gra_id r = gra_id g \<and> gra_status r = GrantApproved"
    if "r \<in> set (grants s2)" "gra_code_digest r = gra_code_digest g" for r
  proof -
    from that(1) obtain r0 where r0: "r0 \<in> set (grants s)"
      "r = (if gra_id r0 = gra_id g \<and> True then r0\<lparr>gra_poll_after := now + seconds (gra_poll_interval r0)\<rparr> else r0)"
      unfolding s2 set_grant_def by (auto simp: set_update_where)
    then have "gra_code_digest r0 = gra_code_digest g" using that(2) by (simp split: if_splits)
    with uniq r0(1) have "r0 = g" by blast
    with r0(2) g(2) show ?thesis by simp
  qed
  have "settled gra_code_digest (\<lambda>g. gra_status g = GrantConsumed) (gra_code_digest g) (grants s')"
    unfolding s' by (rule settled_by_update [OF key]) (use row in auto)
  then show ?thesis using g_in by simp
qed

lemma exchange_spent:
  assumes "device_final (CodeSpent (sha256 x code)) s"
  shows "\<not> isOk (snd (exchange_token x now d gt code s))"
proof -
  have "gra_status g = GrantConsumed"
    if "find_row gra_code_digest (sha256 x code) (grants s) = Some g" for g
    using assms find_row_Some [OF that] by (auto simp: settled_def)
  then show ?thesis
    by (auto simp: exchange_token_def Let_def split: option.splits)
qed

subsection \<open>Issued tokens authenticate\<close>

lemma issue_credentials_Inr:
  assumes "issue_credentials x now d i s = Inr (s', access, refresh)"
  obtains c ra where "insert_credential c s = Inr s'" "draw_access d = Some ra"
    "access = ''mdb_'' @ b64_encode x ra" "crd_access_digest c = sha256 x access" "crd_device c = i"
    "crd_revoked_at c = None" "crd_access_expires_at c = now + seconds ACCESS_TOKEN_TTL_SECONDS"
proof -
  from assms obtain ra rr where r: "draw_access d = Some ra" "draw_refresh d = Some rr"
    "access = ''mdb_'' @ b64_encode x ra" "refresh = ''mdr_'' @ b64_encode x rr"
    by (auto simp: issue_credentials_def random_token_def Let_def result_simps split: option.splits)
  let ?c = "\<lparr>crd_id = draw_id d, crd_device = i, crd_access_digest = sha256 x access,
        crd_refresh_digest = sha256 x refresh, crd_access_expires_at = now + seconds ACCESS_TOKEN_TTL_SECONDS,
        crd_refresh_expires_at = now + seconds REFRESH_TOKEN_TTL_SECONDS, crd_revoked_at = None\<rparr>"
  have "insert_credential ?c s = Inr s'"
    using assms r by (auto simp: issue_credentials_def random_token_def Let_def result_simps)
  with r that [of ?c ra] show ?thesis by simp
qed

lemma find_append_new:
  "(\<And>c. c \<in> set rows \<Longrightarrow> \<not> P c) \<Longrightarrow> P r \<Longrightarrow> find P (rows @ [r]) = Some r"
  by (induction rows) auto

text \<open>A credential that was just inserted, for a device that is not revoked and belongs to an
  enabled account, authenticates until it expires.\<close>

lemma fresh_credential_authenticates:
  assumes ins: "insert_credential c s = Inr s1"
    and c: "crd_access_digest c = sha256 x token" "crd_revoked_at c = None" "now < crd_access_expires_at c"
    and s2: "credentials s2 = credentials s1" "devices s2 = devices s" "users s2 = users s"
    and form: "starts_with token ''mdb_''" "length token = 47"
    and dv: "find_row dev_id (crd_device c) (devices s) = Some dv" "dev_revoked_at dv = None"
    and u: "find_row usr_id (dev_owner dv) (users s) = Some u" "usr_disabled_at u = None"
  shows "snd (authenticate_access_token x now token ip s2) =
    Some (from_device (dev_owner dv) (dev_id dv) (usr_email u) (usr_role u) (usr_must_change_password u))"
proof -
  let ?P = "\<lambda>c. crd_access_digest c = sha256 x token \<and> crd_revoked_at c = None \<and> now < crd_access_expires_at c
     \<and> (case credential_join s2 c of None \<Rightarrow> False
        | Some (d, u) \<Rightarrow> dev_revoked_at d = None \<and> usr_disabled_at u = None)"
  have j: "credential_join s2 c = Some (dv, u)"
    using dv u s2 by (simp add: credential_join_def)
  have "\<not> ?P r" if "r \<in> set (credentials s)" for r
    using that insert_credential_fresh(3) [OF ins] c(1) by (metis imageI)
  moreover have "?P c" using c j dv u by simp
  ultimately have "find ?P (credentials s @ [c]) = Some c" by (intro find_append_new) auto
  then have "find ?P (credentials s2) = Some c"
    using s2 insert_credential_fresh(1) [OF ins] by simp
  with form j show ?thesis by (simp add: authenticate_access_token_def Let_def)
qed

section \<open>Properties\<close>

text \<open>
  C4. Reuse detection: once a refresh token has been exchanged for a new pair, presenting
  it again at any later time is refused, and from then on, whatever requests follow, no
  access token whatsoever authenticates the device it belonged to. The access token issued
  together with it stops working at the exchange already.
\<close>

theorem refresh_reuse_detected:
  assumes ok: "device_ok s" and first: "refresh_token x now1 dr1 gt token s = (s1, Inr tokens)"
    and cred: "find_refresh (sha256 x token) s = Some (c, d, u)"
    and again: "refresh_token x now2 dr2 ''refresh_token'' token (fold (device_step x st) es s1) = (s2, r)"
  shows "r = Inl (api_error 400 ''invalid_grant'')
    \<and> map_option au_device (snd (authenticate_access_token x now3 t ip (fold (device_step x st) es' s2)))
        \<noteq> Some (Some (crd_device c))
    \<and> (sha256 x t' = crd_access_digest c \<longrightarrow>
        snd (authenticate_access_token x now4 t' ip' (fold (device_step x st) es s1)) = None)"
proof -
  have ok1: "device_ok s1" using ok refresh_token_writes device_writes_ok first by (metis fst_conv)
  let ?t = "fold (device_step x st) es s1"
  have okt: "device_ok ?t" by (rule device.run_inv [OF ok1])
  from refresh_success [OF ok first] cred
  have f: "device_final (RefreshRevoked (sha256 x token) (crd_device c)) s1"
    "device_final (AccessRevoked (crd_access_digest c)) s1" "starts_with token ''mdr_''" "length token = 47"
    by auto
  note reuse = refresh_reuse_final [OF okt device.run_final [OF ok1 f(1)] f(3,4) again]
  have "device_ok s2" using okt refresh_token_writes device_writes_ok again by (metis fst_conv)
  then have "device_final (DeviceRevoked (crd_device c)) (fold (device_step x st) es' s2)"
    using reuse device.run_final by blast
  then have "map_option au_device (snd (authenticate_access_token x now3 t ip (fold (device_step x st) es' s2)))
        \<noteq> Some (Some (crd_device c))"
    by (rule locked_out)
  moreover have "snd (authenticate_access_token x now4 t' ip' ?t) = None" if "sha256 x t' = crd_access_digest c"
    using access_dead device.run_final [OF ok1 f(2)] that by metis
  ultimately show ?thesis using reuse by blast
qed

text \<open>
  After an owner revokes one of their devices, no access token authenticates that device
  again, in any later state of the service.
\<close>

lemma revoked_device_locked_out:
  assumes ok: "device_ok s" and revoke: "revoke_device x st user hs now i s = (s1, Inr ())"
  shows "map_option au_device (snd (authenticate_access_token x now' token ip (fold (device_step x st) es s1)))
           \<noteq> Some (Some i)"
proof -
  from revoke have r: "s1 = add_audit ''device_revoked'' (Some (au_id user)) (Some i)
      (revoke_credentials (\<lambda>c. crd_device c = i) now
        (revoke_devices (\<lambda>d. dev_id d = i \<and> dev_owner d = au_id user) now s))"
    and e: "list_ex (\<lambda>d. dev_id d = i \<and> dev_owner d = au_id user) (devices s)"
    by (auto simp: revoke_device_def revoke_owned_device_def split: sum.splits if_splits)
  from e obtain d where d: "d \<in> set (devices s)" "dev_id d = i" "dev_owner d = au_id user"
    by (auto simp: list_ex_iff)
  have "dev_owner d' = au_id user" if "d' \<in> set (devices s)" "dev_id d' = i" for d'
    using ok d that distinct_key_unique [of dev_id "devices s" d' d] by (auto simp: device_ok_def)
  then have "device_final (DeviceRevoked i)
      (revoke_devices (\<lambda>d. dev_id d = i \<and> dev_owner d = au_id user) now s)"
    using d by (intro revoked_device_final) auto
  then have "device_final (DeviceRevoked i) s1" by (simp add: r)
  moreover have "device_ok s1" using ok revoke_device_writes device_writes_ok revoke by (metis fst_conv)
  ultimately have "device_final (DeviceRevoked i) (fold (device_step x st) es s1)"
    by (rule device.run_final [rotated])
  then show ?thesis by (rule locked_out)
qed

text \<open>
  A device code is exchanged for tokens at most once: after a successful exchange every
  later exchange of the same code fails, whatever happens in between.
\<close>

lemma device_code_single_use:
  assumes ok: "device_ok s" and first: "exchange_token x now d gt code s = (s1, Inr tokens)"
  shows "\<not> isOk (snd (exchange_token x now' d' gt' code (fold (device_step x st) es s1)))"
proof -
  have "device_ok s1" using ok exchange_token_writes device_writes_ok first by (metis fst_conv)
  then show ?thesis
    using exchange_spent device.run_final exchange_success [OF ok first] by blast
qed

text \<open>
  C5. The authorization flow, end to end: when an account approves the pending request of a
  device code and the code is then exchanged, the access token authenticates requests of
  exactly that account and that device, for one hour, as long as the account stays enabled.
\<close>

theorem device_flow_authenticates:
  assumes codec: "token_codec x" and ok: "device_ok s"
    and g: "find_row gra_code_digest (sha256 x code) (grants s) = Some g" "gra_user_code g = ucode"
    and norm: "normalize_user_code typed = Inr ucode"
    and approve: "approve_request x st user hs t0 i typed s = (s1, Inr i')"
    and exchange: "exchange_token x t1 d gt code s1 = (s2, Inr (access, refresh))"
    and draw: "draw_access d = Some ra" "length ra = 32"
    and u: "find_row usr_id (au_id user) (users s) = Some u" "usr_disabled_at u = None"
    and time: "t2 < t1 + seconds 3600"
  shows "snd (authenticate_access_token x t2 access ip s2) =
    Some (from_device (au_id user) i (usr_email u) (usr_role u) (usr_must_change_password u))"
proof -
  have gu: "find_row gra_user_code ucode (grants s) = Some g"
    using ok g find_row_Some [OF g(1)] by (auto simp: device_ok_def find_row_iff)
  from approve gu norm have ap: "approve_pending user t0 i g s = Inr (s1, i')"
    by (auto simp: approve_request_def result_simps split: sum.splits if_splits)
  then obtain sd where ins: "insert_device
              \<lparr>dev_id = i, dev_owner = au_id user, dev_name = gra_device_name g,
               dev_client_name = gra_client_name g, dev_operating_system = gra_operating_system g,
               dev_client_version = gra_client_version g, dev_created_at = t0,
               dev_last_active_at = None, dev_last_ip = None, dev_revoked_at = None\<rparr> s = Inr sd"
    and s1: "devices s1 = devices sd" "users s1 = users sd"
      "grants s1 = update_where (\<lambda>r. gra_id r = gra_id g \<and> gra_status r = GrantPending)
        (\<lambda>r. r\<lparr>gra_status := GrantApproved, gra_owner := Some (au_id user), gra_device := Some i\<rparr>) (grants sd)"
    and pending: "gra_status g = GrantPending"
    by (auto simp: approve_pending_def result_simps Let_def set_grant_def add_audit_def)
  note sd = insert_device_fresh [OF ins]
  have g1: "find_row gra_code_digest (sha256 x code) (grants s1) =
      Some (g\<lparr>gra_status := GrantApproved, gra_owner := Some (au_id user), gra_device := Some i\<rparr>)"
    using g pending by (simp add: s1 sd find_row_update_where)
  from exchange g1 obtain sx where
    e: "issue_credentials x t1 d i (set_grant (gra_id g) (\<lambda>_. True)
          (\<lambda>r. r\<lparr>gra_poll_after := t1 + seconds (gra_poll_interval r)\<rparr>) s1) = Inr (sx, access, refresh)"
    and s2: "credentials s2 = credentials sx" "devices s2 = devices sx" "users s2 = users sx"
    by (auto simp: exchange_token_def Let_def result_simps exchange_approved_def set_grant_def add_audit_def
        split: if_splits)
  let ?si = "set_grant (gra_id g) (\<lambda>_. True) (\<lambda>r. r\<lparr>gra_poll_after := t1 + seconds (gra_poll_interval r)\<rparr>) s1"
  obtain c ra' where
    c: "insert_credential c ?si = Inr sx" "crd_access_digest c = sha256 x access" "crd_device c = i"
      "crd_revoked_at c = None" "crd_access_expires_at c = t1 + seconds ACCESS_TOKEN_TTL_SECONDS"
    and a': "draw_access d = Some ra'" "access = ''mdb_'' @ b64_encode x ra'"
    by (rule issue_credentials_Inr [OF e]) blast
  then have a: "access = ''mdb_'' @ b64_encode x ra" using draw by simp
  have form: "starts_with access ''mdb_''" "length access = 47"
    using codec draw(2) by (simp_all add: a token_codec_def starts_with_def)
  have dv: "find_row dev_id i (devices ?si) = Some
      \<lparr>dev_id = i, dev_owner = au_id user, dev_name = gra_device_name g,
       dev_client_name = gra_client_name g, dev_operating_system = gra_operating_system g,
       dev_client_version = gra_client_version g, dev_created_at = t0,
       dev_last_active_at = None, dev_last_ip = None, dev_revoked_at = None\<rparr>"
    using sd(2) find_row_None [of dev_id i "devices s"]
    by (simp add: set_grant_def s1 sd find_row_append) (simp add: find_row_def)
  have us: "users ?si = users s" by (simp add: set_grant_def s1 sd)
  have sx: "devices sx = devices ?si" "users sx = users ?si"
    using insert_credential_fresh(1) [OF c(1)] by simp_all
  show ?thesis
    using fresh_credential_authenticates [OF c(1,2,4) _ s2(1) _ _ form, of t2 _ u ip] dv u time c(3,5) s2 sx us
    by (simp add: ACCESS_TOKEN_TTL_SECONDS_def)
qed

section \<open>User codes\<close>

lemma alphabet_facts:
  "length user_code_alphabet = 32"
  "list_all (\<lambda>c. c < 128 \<and> \<not> is_whitespace c \<and> c \<noteq> 45 \<and> \<not> (97 \<le> c \<and> c \<le> 122)) user_code_alphabet"
  by (simp_all add: user_code_alphabet_def lit_def is_whitespace_def)

lemma alphabet_char:
  "c \<in> set user_code_alphabet \<Longrightarrow> c < 128 \<and> \<not> is_whitespace c \<and> c \<noteq> 45 \<and> \<not> (97 \<le> c \<and> c \<le> 122)"
  using alphabet_facts(2) by (simp add: list_all_iff)

lemma byte_split_ascii:
  "list_all (\<lambda>c. c < 128) s \<Longrightarrow> n \<le> length s \<Longrightarrow> byte_split_at n s = Some (take n s, drop n s)"
  by (induction n s rule: byte_split_at.induct) (auto simp: utf8_len_def take_Cons' drop_Cons')

lemma user_code_char:
  "user_code_check v \<Longrightarrow> c \<in> set v \<Longrightarrow> c \<in> set user_code_alphabet \<or> c = 45"
proof -
  assume v: "user_code_check v" and c: "c \<in> set v"
  have "v = take 4 v @ v ! 4 # drop 5 v"
    using v id_take_nth_drop [of 4 v] by (simp add: user_code_check_def)
  with c have "c \<in> set (take 4 v @ drop 5 v) \<or> c = v ! 4"
    by (metis Un_iff set_ConsD set_append)
  with v show ?thesis by (auto simp: user_code_check_def list_all_iff)
qed

lemma validate_user_code_ok:
  assumes v: "user_code_check v"
  shows "validate_user_code v = Inr v"
proof -
  have a: "list_all (\<lambda>c. c < 128) v"
    using user_code_char [OF v] alphabet_char by (fastforce simp: list_all_iff)
  have "of_char b \<in> set user_code_alphabet" if "b \<in> set (map char_of v)" "b \<noteq> CHR ''-''" for b
  proof -
    from that obtain c where c: "c \<in> set v" "b = char_of c" by auto
    then have "(of_char b :: nat) = c" using a by (auto simp: list_all_iff of_char_of)
    moreover have "c \<noteq> 45" using that(2) c(2) sextet_marks by metis
    ultimately show ?thesis using user_code_char [OF v c(1)] by simp
  qed
  moreover have "length v = 9" "v ! 4 = 45" using v by (simp_all add: user_code_check_def)
  ultimately show ?thesis
    by (auto simp: validate_user_code_def Let_def utf8_ascii [OF a] list_all_iff sextet_marks)
qed

lemma normalize_formatted:
  assumes v: "user_code_check v" and w: "to_ascii_uppercase w = v" "trim w = w"
  shows "normalize_user_code w = Inr v"
proof -
  have "v ! 4 \<in> set v" using v by (intro nth_mem) (simp add: user_code_check_def)
  then have "45 \<in> set v" using v by (simp add: user_code_check_def)
  then show ?thesis by (simp add: normalize_user_code_def w validate_user_code_ok [OF v])
qed

lemma no_whitespace_trim: "list_all (\<lambda>c. \<not> is_whitespace c) s \<Longrightarrow> trim s = s"
  by (simp add: trim_def trim_by_none)

text \<open>
  Every user code the service generates has the format the table demands, and the
  account may type it as printed, in lower case or without the hyphen: all three are
  normalized back to the stored code.
\<close>

lemma user_code_roundtrip:
  assumes raw: "length raw = 8" and code: "new_user_code (Some raw) = Inr code"
  shows "user_code_check code \<and> normalize_user_code code = Inr code
    \<and> normalize_user_code (to_ascii_lowercase code) = Inr code
    \<and> normalize_user_code (filter (\<lambda>c. c \<noteq> 45) code) = Inr code"
proof -
  define chars where "chars = map (\<lambda>b. user_code_alphabet ! (of_char b mod length user_code_alphabet)) raw"
  have len: "length chars = 8" using raw by (simp add: chars_def)
  have sym: "c \<in> set user_code_alphabet" if "c \<in> set chars" for c
    using that alphabet_facts(1) by (auto simp: chars_def)
  have c: "code = take 4 chars @ 45 # drop 4 chars"
    using code by (simp add: new_user_code_def chars_def Let_def)
  have in_code: "x \<in> set user_code_alphabet \<or> x = 45" if "x \<in> set code" for x
    using that sym by (auto simp: c dest: in_set_takeD in_set_dropD)
  have check: "user_code_check code"
    using len sym by (auto simp: user_code_check_def c nth_append list_all_iff dest: in_set_takeD in_set_dropD)
  have up: "(if 97 \<le> x \<and> x \<le> 122 then x - 32 else x) = x \<and> \<not> is_whitespace x
      \<and> (if 97 \<le> ascii_lower x \<and> ascii_lower x \<le> 122 then ascii_lower x - 32 else ascii_lower x) = x
      \<and> \<not> is_whitespace (ascii_lower x) \<and> x < 128" if "x \<in> set code" for x
    using in_code [OF that] alphabet_char [of x] by (auto simp: ascii_lower_def is_whitespace_def)
  have "to_ascii_uppercase code = code" "trim code = code"
    "to_ascii_uppercase (to_ascii_lowercase code) = code" "trim (to_ascii_lowercase code) = to_ascii_lowercase code"
    using up by (auto simp: to_ascii_uppercase_def to_ascii_lowercase_def list_all_iff
        intro!: no_whitespace_trim map_idI)
  then have "normalize_user_code code = Inr code" "normalize_user_code (to_ascii_lowercase code) = Inr code"
    by (simp_all add: normalize_formatted check)
  moreover have "normalize_user_code (filter (\<lambda>c. c \<noteq> 45) code) = Inr code"
  proof -
    have chars_up: "x \<in> set code" if "x \<in> set chars" for x
      using that append_take_drop_id [of 4 chars] by (metis Un_iff c list.set_intros(2) set_append)
    have no: "45 \<notin> set chars" using sym alphabet_char by blast
    have "filter (\<lambda>c. c \<noteq> 45) code = filter (\<lambda>c. c \<noteq> 45) (take 4 chars @ drop 4 chars)"
      unfolding c filter_append by simp
    also have "\<dots> = chars" using no by (auto simp: filter_id_conv)
    finally have f: "filter (\<lambda>c. c \<noteq> 45) code = chars" .
    have "to_ascii_uppercase chars = chars" "trim chars = chars" and asc: "list_all (\<lambda>c. c < 128) chars"
      using up chars_up by (auto simp: to_ascii_uppercase_def list_all_iff intro!: no_whitespace_trim map_idI)
    with no len show ?thesis unfolding f
      by (simp add: normalize_user_code_def text_len_ascii byte_split_ascii validate_user_code_ok check flip: c)
  qed
  ultimately show ?thesis using check by blast
qed

text \<open>
  What a typed code may be, in characters instead of bytes: \<open>str::is_char_boundary\<close>, and
  the nine characters that \<^const>\<open>validate_user_code\<close> lets through (it allows a hyphen at any
  place besides the one it demands).
\<close>

definition is_char_boundary :: "ustr \<Rightarrow> nat \<Rightarrow> bool" where
  "is_char_boundary s n \<longleftrightarrow> list_ex (\<lambda>k. text_len (take k s) = n) [0..<Suc (length s)]"

definition typed_code :: "ustr \<Rightarrow> bool" where
  "typed_code v \<longleftrightarrow> length v = 9 \<and> v ! 4 = 45 \<and> set v \<subseteq> insert 45 (set user_code_alphabet)"

lemma is_char_boundary_iff: "is_char_boundary s n \<longleftrightarrow> (\<exists>a b. s = a @ b \<and> text_len a = n)"
proof
  assume "is_char_boundary s n"
  then obtain k where "text_len (take k s) = n" by (auto simp: is_char_boundary_def list_ex_iff simp del: upt_Suc)
  then show "\<exists>a b. s = a @ b \<and> text_len a = n" using append_take_drop_id [of k s, symmetric] by blast
next
  assume "\<exists>a b. s = a @ b \<and> text_len a = n"
  then obtain a b where "s = a @ b" "text_len a = n" by blast
  then show "is_char_boundary s n"
    by (auto simp: is_char_boundary_def list_ex_iff simp del: upt_Suc intro!: bexI [of _ "length a"])
qed

lemma is_char_boundary_Nil [simp]: "is_char_boundary [] n \<longleftrightarrow> n = 0"
  by (auto simp: is_char_boundary_iff text_len_def)

lemma is_char_boundary_Cons:
  "is_char_boundary (c # s) n \<longleftrightarrow> n = 0 \<or> (utf8_len c \<le> n \<and> is_char_boundary s (n - utf8_len c))"
proof -
  have "(\<exists>a b. c # s = a @ b \<and> text_len a = n)
      \<longleftrightarrow> n = 0 \<or> (\<exists>a b. s = a @ b \<and> utf8_len c + text_len a = n)"
  proof
    assume "\<exists>a b. c # s = a @ b \<and> text_len a = n"
    then show "n = 0 \<or> (\<exists>a b. s = a @ b \<and> utf8_len c + text_len a = n)"
      by (auto simp: Cons_eq_append_conv text_len_def)
  next
    assume "n = 0 \<or> (\<exists>a b. s = a @ b \<and> utf8_len c + text_len a = n)"
    then show "\<exists>a b. c # s = a @ b \<and> text_len a = n"
    proof
      assume "n = 0"
      then show ?thesis by (intro exI [of _ "[]"] exI [of _ "c # s"]) (simp add: text_len_def)
    next
      assume "\<exists>a b. s = a @ b \<and> utf8_len c + text_len a = n"
      then obtain a b where "s = a @ b" "utf8_len c + text_len a = n" by blast
      then show ?thesis by (intro exI [of _ "c # a"] exI [of _ b]) (simp add: text_len_def)
    qed
  qed
  also have "(\<exists>a b. s = a @ b \<and> utf8_len c + text_len a = n) \<longleftrightarrow> utf8_len c \<le> n \<and> is_char_boundary s (n - utf8_len c)"
    by (auto simp: is_char_boundary_iff)
  finally show ?thesis by (simp add: is_char_boundary_iff)
qed

lemma byte_split_at_boundary:
  "case byte_split_at n s of
     None \<Rightarrow> \<not> is_char_boundary s n
   | Some (a, b) \<Rightarrow> s = a @ b \<and> text_len a = n \<and> is_char_boundary s n"
proof (induction n s rule: byte_split_at.induct)
  case (1 n)
  then show ?case by (simp add: text_len_def)
next
  case (2 n c s)
  then show ?case
    by (cases "byte_split_at (n - utf8_len c) s") (auto simp: is_char_boundary_Cons text_len_def)
qed

lemma utf8_bytes_ascii:
  assumes "list_all (\<lambda>b. of_char b < (128 :: nat)) (utf8_encode s)"
  shows "list_all (\<lambda>c. c < 128) s"
  using assms
proof (induction s)
  case (Cons c s)
  have "c < 128"
  proof (rule ccontr)
    assume "\<not> c < 128"
    then have "128 + c mod 64 \<in> set (utf8_char c)" by (simp add: utf8_char_def)
    then have "char_of (128 + c mod 64) \<in> set (utf8_encode (c # s))" by (auto simp: utf8_encode_def)
    then have "of_char (char_of (128 + c mod 64) :: char) < (128 :: nat)"
      using Cons.prems unfolding list_all_iff by blast
    moreover have "128 + c mod 64 < 256" using mod_less_divisor [of 64 c] by linarith
    ultimately show False by (simp add: of_char_of)
  qed
  moreover have "list_all (\<lambda>c. c < 128) s" using Cons by (simp add: utf8_encode_def)
  ultimately show ?case by simp
qed (simp add: utf8_encode_def)

lemma typed_code_ascii: "typed_code v \<Longrightarrow> list_all (\<lambda>c. c < 128) v"
  using alphabet_char by (fastforce simp: typed_code_def list_all_iff)

lemma validate_user_code_spec:
  "validate_user_code v = (if typed_code v then Inr v else Inl (api_error 400 ''invalid_request''))"
proof (cases "list_all (\<lambda>c. c < 128) v")
  case True
  have code: "(of_char (char_of c :: char) :: nat) = c" if "c \<in> set v" for c
    using True that by (auto simp: list_all_iff of_char_of)
  have mark: "char_of c = CHR ''-'' \<longleftrightarrow> c = 45" if "c \<in> set v" for c
  proof -
    have "c < 256" using True that by (auto simp: list_all_iff)
    then have "of_char (char_of c :: char) = c" by (simp add: of_char_of)
    then have "c = 45" if "char_of c = CHR ''-''" using that by (simp only: ) simp
    then show ?thesis using sextet_marks(1) by blast
  qed
  have four: "length v = 9 \<Longrightarrow> map char_of v ! 4 = CHR ''-'' \<longleftrightarrow> v ! 4 = 45"
    by (simp add: mark)
  have rest: "list_all (\<lambda>b. of_char b \<in> set user_code_alphabet) (filter (\<lambda>b. b \<noteq> CHR ''-'') (map char_of v))
      \<longleftrightarrow> set v \<subseteq> insert 45 (set user_code_alphabet)"
  proof -
    have "(char_of c \<noteq> CHR ''-'' \<longrightarrow> of_char (char_of c :: char) \<in> set user_code_alphabet)
        \<longleftrightarrow> c \<in> insert 45 (set user_code_alphabet)" if "c \<in> set v" for c
      using mark [OF that] code [OF that] by auto
    then show ?thesis unfolding list_all_iff set_filter set_map by blast
  qed
  have "validate_user_code v = Inr v \<longleftrightarrow> typed_code v"
    using four rest by (auto simp: validate_user_code_def Let_def utf8_ascii [OF True] typed_code_def)
  then show ?thesis by (auto simp: validate_user_code_def Let_def)
next
  case False
  then have "\<not> list_all (\<lambda>b. of_char b < (128 :: nat)) (utf8_encode v)" using utf8_bytes_ascii by blast
  then have "\<not> list_all (\<lambda>b. of_char b \<in> set user_code_alphabet) (filter (\<lambda>b. b \<noteq> CHR ''-'') (utf8_encode v))"
    using alphabet_char by (fastforce simp: list_all_iff)
  moreover have "\<not> typed_code v" using False typed_code_ascii by blast
  ultimately show ?thesis by (simp add: validate_user_code_def Let_def)
qed

text \<open>
  C6. What the normalization of a typed user code answers, for every text. Trimmed and
  upper-cased, nine characters of the alphabet and hyphens with a hyphen in the middle are
  taken as they are, eight characters of the alphabet get the hyphen inserted, everything
  else is refused with 400, with one exception that is a defect: eight bytes without a
  hyphen whose fourth byte does not end a character (three letters, a letter with an
  accent, three letters, for instance) panic the handler.
\<close>

theorem normalize_user_code_panics:
  "normalize_user_code value =
     (let w = to_ascii_uppercase (trim value) in
      if text_len w = 8 \<and> 45 \<notin> set w \<and> \<not> is_char_boundary w 4 then Inl Panicked
      else if typed_code w then Inr w
      else if length w = 8 \<and> set w \<subseteq> set user_code_alphabet then Inr (take 4 w @ 45 # drop 4 w)
      else Inl (api_error 400 ''invalid_request''))
   \<and> normalize_user_code (lit ''aaa'' @ [233] @ lit ''aaa'') = Inl Panicked"
proof
  define w where "w = to_ascii_uppercase (trim value)"
  have hyphen: "45 \<in> set v" if "typed_code v" for v
    using that nth_mem [of 4 v] by (simp add: typed_code_def)
  have plain: "text_len w = 8" "45 \<notin> set w" "byte_split_at 4 w = Some (take 4 w, drop 4 w)"
    if "length w = 8" "set w \<subseteq> set user_code_alphabet"
  proof -
    have "list_all (\<lambda>c. c < 128) w" using that alphabet_char by (auto simp: list_all_iff)
    then show "text_len w = 8" "byte_split_at 4 w = Some (take 4 w, drop 4 w)"
      using that by (simp_all add: text_len_ascii byte_split_ascii)
    show "45 \<notin> set w" using that alphabet_char by blast
  qed
  have split: "a = take 4 w \<and> b = drop 4 w" "length w = 8" "set w \<subseteq> set user_code_alphabet"
    if "byte_split_at 4 w = Some (a, b)" "typed_code (a @ 45 # b)" "45 \<notin> set w" for a b
  proof -
    have ab: "w = a @ b" "text_len a = 4" using byte_split_at_boundary [where n = 4 and s = w] that(1) by auto
    have "list_all (\<lambda>c. c < 128) a" using typed_code_ascii [OF that(2)] by simp
    then have "length a = 4" using ab(2) by (simp add: text_len_ascii)
    then show "a = take 4 w \<and> b = drop 4 w" "length w = 8" "set w \<subseteq> set user_code_alphabet"
      using that(2,3) ab(1) by (auto simp: typed_code_def)
  qed
  have inserted: "typed_code (take 4 w @ 45 # drop 4 w)" if "length w = 8" "set w \<subseteq> set user_code_alphabet"
    using that set_take_subset [where n = 4 and xs = w] set_drop_subset [where n = 4 and xs = w]
    by (fastforce simp: typed_code_def nth_append)
  have "normalize_user_code value =
     (if text_len w = 8 \<and> 45 \<notin> set w \<and> \<not> is_char_boundary w 4 then Inl Panicked
      else if typed_code w then Inr w
      else if length w = 8 \<and> set w \<subseteq> set user_code_alphabet then Inr (take 4 w @ 45 # drop 4 w)
      else Inl (api_error 400 ''invalid_request''))"
  proof (cases "text_len w = 8 \<and> 45 \<notin> set w")
    case True
    then have "\<not> typed_code w" using hyphen by blast
    show ?thesis
    proof (cases "byte_split_at 4 w")
      case None
      then have "\<not> is_char_boundary w 4" using byte_split_at_boundary [where n = 4 and s = w] by simp
      then show ?thesis using True None by (simp add: normalize_user_code_def w_def [symmetric])
    next
      case (Some p)
      obtain a b where p: "p = (a, b)" by (cases p)
      have "is_char_boundary w 4" using byte_split_at_boundary [where n = 4 and s = w] Some p by auto
      moreover have "typed_code (a @ 45 # b) \<longleftrightarrow> length w = 8 \<and> set w \<subseteq> set user_code_alphabet"
      proof
        assume "typed_code (a @ 45 # b)"
        then show "length w = 8 \<and> set w \<subseteq> set user_code_alphabet" using split(2,3) Some p True by blast
      next
        assume w: "length w = 8 \<and> set w \<subseteq> set user_code_alphabet"
        then have "a = take 4 w" "b = drop 4 w" using plain(3) Some p by simp_all
        with w show "typed_code (a @ 45 # b)" using inserted by blast
      qed
      moreover have "a = take 4 w \<and> b = drop 4 w" if "typed_code (a @ 45 # b)"
        using split(1) [of a b] that Some p True by simp
      ultimately show ?thesis
        using True Some p \<open>\<not> typed_code w\<close>
        by (simp add: normalize_user_code_def w_def [symmetric] validate_user_code_spec)
    qed
  next
    case False
    then show ?thesis
      using plain by (auto simp: normalize_user_code_def w_def [symmetric] validate_user_code_spec Let_def)
  qed
  then show "normalize_user_code value =
     (let w = to_ascii_uppercase (trim value) in
      if text_len w = 8 \<and> 45 \<notin> set w \<and> \<not> is_char_boundary w 4 then Inl Panicked
      else if typed_code w then Inr w
      else if length w = 8 \<and> set w \<subseteq> set user_code_alphabet then Inr (take 4 w @ 45 # drop 4 w)
      else Inl (api_error 400 ''invalid_request''))"
    by (simp only: w_def Let_def)
  show "normalize_user_code (lit ''aaa'' @ [233] @ lit ''aaa'') = Inl Panicked"
    by (simp add: normalize_user_code_def trim_def trim_by_def to_ascii_uppercase_def lit_def
        is_whitespace_def text_len_def utf8_len_def)
qed

section \<open>A service with one device\<close>

definition zero_raw :: bytes where
  "zero_raw = replicate 32 CHR 0x00"

definition demo_user :: user_row where
  "demo_user = \<lparr>usr_id = 1, usr_email = lit ''a@b.c'', usr_password_hash = ''h'', usr_role = Owner,
     usr_created_at = 0, usr_updated_at = 0, usr_managed_by = None, usr_quota_bytes = None,
     usr_disabled_at = None, usr_must_change_password = False\<rparr>"

definition demo_auth :: auth_user where
  "demo_auth = from_api 1 7 (lit ''a@b.c'') Owner"

definition demo_settings :: auth_settings where
  "demo_settings = \<lparr>cookie_secure = True, session_ttl_seconds = 3600\<rparr>"

definition demo_device :: device_row where
  "demo_device = \<lparr>dev_id = 2, dev_owner = 1, dev_name = lit ''n'', dev_client_name = lit ''c'',
     dev_operating_system = lit ''o'', dev_client_version = lit ''v'', dev_created_at = 0,
     dev_last_active_at = None, dev_last_ip = None, dev_revoked_at = None\<rparr>"

definition demo_credential :: credential_row where
  "demo_credential = \<lparr>crd_id = 3, crd_device = 2, crd_access_digest = replicate 32 CHR ''C'',
     crd_refresh_digest = replicate 32 CHR ''B'', crd_access_expires_at = 100,
     crd_refresh_expires_at = 100, crd_revoked_at = None\<rparr>"

definition demo_grant :: grant_row where
  "demo_grant = \<lparr>gra_id = 4, gra_code_digest = replicate 32 CHR ''D'', gra_user_code = lit ''ABCD-2345'',
     gra_client_name = lit ''c'', gra_device_name = lit ''n'', gra_operating_system = lit ''o'',
     gra_client_version = lit ''v'', gra_requested_ip = None, gra_expires_at = 1000,
     gra_poll_interval = 5, gra_poll_after = 0, gra_status = GrantPending, gra_owner = None,
     gra_device = None, gra_created_at = 0\<rparr>"

definition demo_db :: db where
  "demo_db = empty_db\<lparr>users := [demo_user], devices := [demo_device], credentials := [demo_credential],
     grants := [demo_grant]\<rparr>"

definition demo_draw :: token_draw where
  "demo_draw = \<lparr>draw_access = Some zero_raw, draw_refresh = Some zero_raw, draw_id = 9\<rparr>"

definition demo_refresh :: string where
  "demo_refresh = ''mdr_'' @ replicate 43 CHR ''B''"

definition demo_code :: string where
  "demo_code = replicate 43 CHR ''D''"

lemmas demo_defs = demo_user_def demo_auth_def demo_settings_def demo_device_def demo_credential_def
  demo_grant_def demo_db_def demo_draw_def demo_refresh_def demo_code_def empty_db_def

lemma demo_ok: "device_ok demo_db"
  by (simp add: device_ok_def demo_defs)

lemma sample_zero: "b64_encode sample_externals zero_raw = replicate 43 CHR ''A''"
proof -
  have "digits_of b k 0 = replicate k 0" for b k by (induction k) auto
  moreover have "value_of b (replicate k 0) = 0" for b k by (induction k) auto
  moreover have "sextet_char 0 = CHR ''A''" unfolding sextet_char_def by code_simp
  ultimately show ?thesis
    by (simp add: sample_externals_def sample_encode_def zero_raw_def map_replicate)
qed

lemma sample_sha256: "sha256 sample_externals b = take 32 (rev b @ replicate 32 CHR 0x00)"
  by (simp add: sample_externals_def)

lemma demo_refresh_run:
  "\<exists>s1 tokens. refresh_token sample_externals 5 demo_draw ''refresh_token'' demo_refresh demo_db = (s1, Inr tokens)
     \<and> find_refresh (sha256 sample_externals demo_refresh) demo_db = Some (demo_credential, demo_device, demo_user)"
  by (simp add: refresh_token_def find_refresh_def credential_join_def sample_sha256 sample_zero
      issue_credentials_def random_token_def insert_credential_def revoke_credentials_def update_where_def
      find_row_def starts_with_def Let_def demo_defs)

theorem refresh_reuse_detected_witness:
  "\<exists>s1 tokens. refresh_token sample_externals 5 demo_draw ''refresh_token'' demo_refresh demo_db = (s1, Inr tokens)
     \<and> snd (refresh_token sample_externals 6 demo_draw ''refresh_token'' demo_refresh s1)
         = Inl (api_error 400 ''invalid_grant'')"
proof -
  from demo_refresh_run obtain s1 tokens
    where r: "refresh_token sample_externals 5 demo_draw ''refresh_token'' demo_refresh demo_db = (s1, Inr tokens)"
      "find_refresh (sha256 sample_externals demo_refresh) demo_db = Some (demo_credential, demo_device, demo_user)"
    by blast
  obtain s2 v where
    a: "refresh_token sample_externals 6 demo_draw ''refresh_token'' demo_refresh (fold (device_step x st) [] s1) = (s2, v)"
    for x st by (cases "refresh_token sample_externals 6 demo_draw ''refresh_token'' demo_refresh s1") simp
  from refresh_reuse_detected [OF demo_ok r a] r a show ?thesis by simp
qed

definition demo_approved :: db where
  "demo_approved = fst (approve_request sample_externals demo_settings demo_auth [] 1 6 (lit ''abcd2345'') demo_db)"

lemma demo_normalize: "normalize_user_code (lit ''abcd2345'') = Inr (lit ''ABCD-2345'')"
proof -
  have "user_code_check (lit ''ABCD-2345'')"
    by (simp add: user_code_check_def user_code_alphabet_def lit_def)
  from validate_user_code_ok [OF this] show ?thesis
    by (simp add: normalize_user_code_def trim_def trim_by_def to_ascii_uppercase_def lit_def
      is_whitespace_def text_len_def utf8_len_def)
qed

lemma demo_approve:
  "approve_request sample_externals demo_settings demo_auth [] 1 6 (lit ''abcd2345'') demo_db = (demo_approved, Inr 6)"
  and demo_approved_tables: "users demo_approved = [demo_user]"
    "grants demo_approved = [demo_grant\<lparr>gra_status := GrantApproved, gra_owner := Some 1, gra_device := Some 6\<rparr>]"
    "credentials demo_approved = [demo_credential]" "map dev_id (devices demo_approved) = [2, 6]"
  unfolding demo_approved_def
  by (simp_all add: approve_request_def reject_device_actor_def require_csrf_def
      demo_normalize [unfolded lit_def, simplified]
      approve_pending_def insert_device_def label_check_def trim_by_def set_grant_def update_where_def
      find_row_def add_audit_def from_api_def Let_def lit_def demo_defs)

lemma demo_exchange:
  "\<exists>s2. exchange_token sample_externals 2 demo_draw ''urn:ietf:params:oauth:grant-type:device_code'' demo_code demo_approved
      = (s2, Inr (''mdb_'' @ replicate 43 CHR ''A'', ''mdr_'' @ replicate 43 CHR ''A''))"
proof -
  have d: "dev_id ` set (devices demo_approved) = {2, 6}"
    using demo_approved_tables(4) by (metis list.set(1,2) set_map)
  show ?thesis
    by (simp add: exchange_token_def sample_sha256 sample_zero demo_approved_tables find_row_def demo_code_def
      demo_grant_def exchange_approved_def issue_credentials_def random_token_def insert_credential_def
      set_grant_def demo_draw_def demo_credential_def Let_def d)
qed

theorem device_flow_authenticates_witness:
  "\<exists>s2. snd (authenticate_access_token sample_externals 3 (''mdb_'' @ replicate 43 CHR ''A'') None s2) =
    Some (from_device 1 6 (lit ''a@b.c'') Owner False)"
proof -
  from demo_exchange obtain s2 where
    e: "exchange_token sample_externals 2 demo_draw ''urn:ietf:params:oauth:grant-type:device_code'' demo_code demo_approved
      = (s2, Inr (''mdb_'' @ replicate 43 CHR ''A'', ''mdr_'' @ replicate 43 CHR ''A''))" by blast
  have g: "find_row gra_code_digest (sha256 sample_externals demo_code) (grants demo_db) = Some demo_grant"
    "gra_user_code demo_grant = lit ''ABCD-2345''"
    "draw_access demo_draw = Some zero_raw" "length zero_raw = 32"
    "find_row usr_id (au_id demo_auth) (users demo_db) = Some demo_user" "usr_disabled_at demo_user = None"
    by (simp_all add: find_row_def sample_sha256 demo_defs zero_raw_def from_api_def)
  have "snd (authenticate_access_token sample_externals 3 (''mdb_'' @ replicate 43 CHR ''A'') None s2) =
    Some (from_device (au_id demo_auth) 6 (usr_email demo_user) (usr_role demo_user)
      (usr_must_change_password demo_user))"
    by (rule device_flow_authenticates [OF sample_codec demo_ok g(1,2) demo_normalize demo_approve e g(3-6)])
      (simp add: seconds_def)
  then show ?thesis by (auto simp: demo_defs from_api_def)
qed

end
