(* ===== verification/Limiter.thy ===== *)
theory Limiter
  imports Systems
begin

text \<open>
  The login rate limiter of \<open>src/auth/session.rs\<close> (\<open>LoginRateLimiter\<close>). A
  \<open>HashMap\<close> from the digest of an identity to its attempt bucket is the list of its
  key/value pairs; iteration order is the order of the list, and no result below depends on
  it. Instants of the monotonic clock are nanoseconds. The limiter is compared with a
  history that forgets nothing, and its memory bound is an invariant of every run.
\<close>

section \<open>Operations\<close>

definition LOGIN_FAILURE_LIMIT :: nat where
  "LOGIN_FAILURE_LIMIT = 10"

definition LOGIN_FAILURE_WINDOW :: int where
  "LOGIN_FAILURE_WINDOW = 15 * 60 * 1000000000"

definition MAX_LOGIN_IDENTITIES :: nat where
  "MAX_LOGIN_IDENTITIES = 10000"

type_synonym buckets = "(bytes \<times> instant list) list"

definition saturating_duration_since :: "instant \<Rightarrow> instant \<Rightarrow> int" where
  "saturating_duration_since now earlier = max 0 (now - earlier)"

definition recent :: "instant \<Rightarrow> instant list \<Rightarrow> instant list" where
  "recent now failed_at =
     filter (\<lambda>t. saturating_duration_since now t < LOGIN_FAILURE_WINDOW) failed_at"

definition prune_buckets :: "buckets \<Rightarrow> instant \<Rightarrow> buckets" where
  "prune_buckets bs now =
     filter (\<lambda>(k, ts). ts \<noteq> []) (map (\<lambda>(k, ts). (k, recent now ts)) bs)"

definition bucket_get :: "buckets \<Rightarrow> bytes \<Rightarrow> instant list option" where
  "bucket_get bs k = map_of bs k"

definition bucket_remove :: "bytes \<Rightarrow> buckets \<Rightarrow> buckets" where
  "bucket_remove k bs = filter (\<lambda>(k', _). k' \<noteq> k) bs"

text \<open>\<open>entry(key).or_default().failed_at.push_back(now)\<close>.\<close>

definition bucket_push :: "bytes \<Rightarrow> instant \<Rightarrow> buckets \<Rightarrow> buckets" where
  "bucket_push k now bs =
     (if bucket_get bs k = None then bs @ [(k, [now])]
      else map (\<lambda>(k', ts). if k' = k then (k', ts @ [now]) else (k', ts)) bs)"

text \<open>\<open>min_by_key(|(_, bucket)| bucket.failed_at.back())\<close>: \<open>None\<close> is the least key, and the
  first of several minima is taken.\<close>

definition back_le :: "instant list \<Rightarrow> instant list \<Rightarrow> bool" where
  "back_le a b \<longleftrightarrow> a = [] \<or> (b \<noteq> [] \<and> last a \<le> last b)"

fun oldest_key :: "buckets \<Rightarrow> bytes option" where
  "oldest_key [] = None"
| "oldest_key [(k, ts)] = Some k"
| "oldest_key ((k, ts) # (k', ts') # bs) =
     (if back_le ts ts' then oldest_key ((k, ts) # bs) else oldest_key ((k', ts') # bs))"

definition retry_after_at :: "bytes \<Rightarrow> instant \<Rightarrow> buckets \<Rightarrow> buckets \<times> nat option" where
  "retry_after_at k now bs =
     (let bs' = prune_buckets bs now in
      (bs', case bucket_get bs' k of
              None \<Rightarrow> None
            | Some attempts \<Rightarrow>
                if length attempts < LOGIN_FAILURE_LIMIT then None
                else (case attempts of
                        [] \<Rightarrow> None
                      | oldest # _ \<Rightarrow>
                          Some (max (nat (max 0 (LOGIN_FAILURE_WINDOW - saturating_duration_since now oldest)
                                          div 1000000000)) 1))))"

definition record_failure_at :: "bytes \<Rightarrow> instant \<Rightarrow> buckets \<Rightarrow> buckets" where
  "record_failure_at k now bs =
     (let bs' = prune_buckets bs now;
          bs'' = (if bucket_get bs' k = None \<and> MAX_LOGIN_IDENTITIES \<le> length bs'
                  then (case oldest_key bs' of None \<Rightarrow> bs' | Some key \<Rightarrow> bucket_remove key bs')
                  else bs')
      in bucket_push k now bs'')"

definition clear :: "bytes \<Rightarrow> buckets \<Rightarrow> buckets" where
  "clear k bs = bucket_remove k bs"

section \<open>Buckets as a finite map of failure times\<close>

definition failures :: "buckets \<Rightarrow> bytes \<Rightarrow> instant list" where
  "failures bs k = (case bucket_get bs k of None \<Rightarrow> [] | Some ts \<Rightarrow> ts)"

definition limiter_ok :: "buckets \<Rightarrow> bool" where
  "limiter_ok bs \<longleftrightarrow> distinct (map fst bs) \<and> length bs \<le> MAX_LOGIN_IDENTITIES
     \<and> list_all (\<lambda>(k, ts). ts \<noteq> []) bs"

lemma failures_simps [simp]:
  "failures [] k = []"
  "failures ((k', ts) # bs) k = (if k = k' then ts else failures bs k)"
  by (simp_all add: failures_def bucket_get_def)

lemma bucket_get_None_iff: "bucket_get bs k = None \<longleftrightarrow> k \<notin> fst ` set bs"
  by (simp add: bucket_get_def map_of_eq_None_iff)

lemma failures_absent: "k \<notin> fst ` set bs \<Longrightarrow> failures bs k = []"
  by (induction bs) auto

lemma recent_append [simp]: "recent now (xs @ ys) = recent now xs @ recent now ys"
  by (simp add: recent_def)

lemma recent_recent: "now \<le> now' \<Longrightarrow> recent now' (recent now xs) = recent now' xs"
  unfolding recent_def by (induction xs) (auto simp: saturating_duration_since_def)

lemma prune_Cons:
  "prune_buckets ((k, ts) # bs) now =
     (if recent now ts = [] then prune_buckets bs now else (k, recent now ts) # prune_buckets bs now)"
  by (simp add: prune_buckets_def)

lemma keys_prune: "fst ` set (prune_buckets bs now) \<subseteq> fst ` set bs"
  by (force simp: prune_buckets_def)

lemma distinct_prune: "distinct (map fst bs) \<Longrightarrow> distinct (map fst (prune_buckets bs now))"
proof (induction bs)
  case Nil
  then show ?case by (simp add: prune_buckets_def)
next
  case (Cons b bs)
  obtain k ts where b: "b = (k, ts)" by (cases b)
  have "k \<notin> fst ` set (prune_buckets bs now)" if "k \<notin> fst ` set bs"
    using that keys_prune [of bs now] by blast
  with Cons show ?case by (simp add: b prune_Cons)
qed

lemma failures_prune:
  "distinct (map fst bs) \<Longrightarrow> failures (prune_buckets bs now) k = recent now (failures bs k)"
proof (induction bs)
  case Nil
  then show ?case by (simp add: prune_buckets_def recent_def)
next
  case (Cons b bs)
  obtain k' ts where b: "b = (k', ts)" by (cases b)
  have "failures bs k' = []" using Cons.prems b by (simp add: failures_absent)
  with Cons show ?case by (auto simp: b prune_Cons recent_def)
qed

lemma failures_push:
  "failures (bucket_push k t bs) k' = (if k' = k then failures bs k @ [t] else failures bs k')"
proof (cases "bucket_get bs k")
  case None
  then have "failures (bs @ [(k, [t])]) k' = (if k' = k then [t] else failures bs k')"
    by (induction bs) (auto simp: bucket_get_def failures_def split: if_splits)
  with None show ?thesis by (simp add: bucket_push_def failures_absent bucket_get_None_iff)
next
  case (Some ts)
  then have "k \<in> fst ` set bs" by (metis bucket_get_None_iff option.distinct(1))
  then have "failures (map (\<lambda>(k', ts). if k' = k then (k', ts @ [t]) else (k', ts)) bs) k =
        failures bs k @ [t]"
    by (induction bs) force+
  moreover have "failures (map (\<lambda>(k', ts). if k' = k then (k', ts @ [t]) else (k', ts)) bs) k' =
        failures bs k'" if "k' \<noteq> k"
    using that by (induction bs) auto
  ultimately have "failures (map (\<lambda>(k', ts). if k' = k then (k', ts @ [t]) else (k', ts)) bs) k' =
        (if k' = k then failures bs k @ [t] else failures bs k')"
    by simp
  with Some show ?thesis by (simp add: bucket_push_def)
qed

lemma failures_remove: "failures (bucket_remove k bs) k' = (if k' = k then [] else failures bs k')"
  by (induction bs) (auto simp: bucket_remove_def)

lemma keys_push: "fst ` set (bucket_push k t bs) = insert k (fst ` set bs)"
proof (cases "bucket_get bs k")
  case (Some ts)
  then have "k \<in> fst ` set bs" by (metis bucket_get_None_iff option.distinct(1))
  then show ?thesis using Some by (force simp: bucket_push_def image_iff split: if_splits)
qed (simp add: bucket_push_def)

lemma keys_remove: "fst ` set (bucket_remove k bs) = fst ` set bs - {k}"
  by (force simp: bucket_remove_def)

lemma map_fst_push:
  "map fst (bucket_push k t bs) = map fst bs @ (if bucket_get bs k = None then [k] else [])"
  by (auto simp: bucket_push_def comp_def split_beta intro!: map_cong)

lemma distinct_remove: "distinct (map fst bs) \<Longrightarrow> distinct (map fst (bucket_remove k bs))"
  by (simp add: bucket_remove_def distinct_map_filter_key)

lemma distinct_push: "distinct (map fst bs) \<Longrightarrow> distinct (map fst (bucket_push k t bs))"
  by (simp add: map_fst_push bucket_get_None_iff)

lemma length_remove_key:
  "distinct (map fst bs) \<Longrightarrow> k \<in> fst ` set bs \<Longrightarrow> Suc (length (bucket_remove k bs)) = length bs"
proof (induction bs)
  case Nil
  then show ?case by simp
next
  case (Cons b bs)
  obtain k' ts where b: "b = (k', ts)" by (cases b)
  have "filter (\<lambda>(k', _). k' \<noteq> k) bs = bs" if "k \<notin> fst ` set bs"
    using that by (force simp: filter_id_conv)
  with Cons show ?case by (auto simp: b bucket_remove_def)
qed

lemma length_push: "length (bucket_push k t bs) = length bs + (if bucket_get bs k = None then 1 else 0)"
  by (simp add: bucket_push_def)

lemma length_prune: "length (prune_buckets bs now) \<le> length bs"
  unfolding prune_buckets_def by (metis length_filter_le length_map)

lemma oldest_key_in: "bs \<noteq> [] \<Longrightarrow> \<exists>k \<in> fst ` set bs. oldest_key bs = Some k"
  by (induction bs rule: oldest_key.induct) auto

lemma nonempty_push:
  "list_all (\<lambda>(k, ts). ts \<noteq> []) bs \<Longrightarrow> list_all (\<lambda>(k, ts). ts \<noteq> []) (bucket_push k t bs)"
  by (auto simp: bucket_push_def list_all_iff split: if_splits)

lemmas limiter_key_simps = distinct_prune distinct_remove distinct_push keys_push keys_remove

lemma nonempty_prune: "list_all (\<lambda>(k, ts). ts \<noteq> []) (prune_buckets bs now)"
  by (auto simp: prune_buckets_def list_all_iff)

lemma nonempty_remove:
  "list_all (\<lambda>(k, ts). ts \<noteq> []) bs \<Longrightarrow> list_all (\<lambda>(k, ts). ts \<noteq> []) (bucket_remove k bs)"
  by (auto simp: bucket_remove_def list_all_iff)

section \<open>Runs of the limiter\<close>

datatype limiter_event = Failed bytes instant | Asked bytes instant | Cleared bytes

fun limiter_step :: "limiter_event \<Rightarrow> buckets \<Rightarrow> buckets" where
  "limiter_step (Failed k t) bs = record_failure_at k t bs"
| "limiter_step (Asked k t) bs = fst (retry_after_at k t bs)"
| "limiter_step (Cleared k) bs = clear k bs"

lemma prune_ok: "limiter_ok bs \<Longrightarrow> limiter_ok (prune_buckets bs now)"
  using length_prune [of bs now]
  by (simp add: limiter_ok_def distinct_prune nonempty_prune del: list_all_iff)

lemma evict_room:
  assumes ok: "limiter_ok bs" and full: "MAX_LOGIN_IDENTITIES \<le> length bs"
  obtains key where "oldest_key bs = Some key" "limiter_ok (bucket_remove key bs)"
    "length (bucket_remove key bs) < MAX_LOGIN_IDENTITIES"
proof -
  from full have "bs \<noteq> []" by (auto simp: MAX_LOGIN_IDENTITIES_def)
  then obtain key where key: "key \<in> fst ` set bs" "oldest_key bs = Some key"
    using oldest_key_in by blast
  with ok have "Suc (length (bucket_remove key bs)) = length bs"
    by (intro length_remove_key) (auto simp: limiter_ok_def)
  with ok key that show ?thesis
    by (simp add: limiter_ok_def distinct_remove nonempty_remove del: list_all_iff)
qed

lemma push_ok:
  "limiter_ok bs \<Longrightarrow> bucket_get bs k = None \<longrightarrow> length bs < MAX_LOGIN_IDENTITIES
   \<Longrightarrow> limiter_ok (bucket_push k t bs)"
  by (auto simp: limiter_ok_def distinct_push nonempty_push length_push)

lemma record_failure_ok: "limiter_ok bs \<Longrightarrow> limiter_ok (record_failure_at k now bs)"
proof -
  assume "limiter_ok bs"
  then have ok: "limiter_ok (prune_buckets bs now)" (is "limiter_ok ?b") by (rule prune_ok)
  show ?thesis
  proof (cases "bucket_get ?b k = None \<and> MAX_LOGIN_IDENTITIES \<le> length ?b")
    case True
    then obtain key where "oldest_key ?b = Some key" "limiter_ok (bucket_remove key ?b)"
        "length (bucket_remove key ?b) < MAX_LOGIN_IDENTITIES"
      using evict_room [OF ok] by blast
    with True show ?thesis by (simp add: record_failure_at_def Let_def push_ok)
  next
    case False
    with ok show ?thesis by (auto simp: record_failure_at_def Let_def intro!: push_ok)
  qed
qed

lemma clear_ok: "limiter_ok bs \<Longrightarrow> limiter_ok (clear k bs)"
proof -
  assume "limiter_ok bs"
  moreover have "length (bucket_remove k bs) \<le> length bs" by (simp add: bucket_remove_def)
  ultimately show ?thesis
    by (simp add: limiter_ok_def clear_def distinct_remove nonempty_remove)
qed

interpretation limiter: invariant_system limiter_step limiter_ok
proof
  fix bs e
  assume ok: "limiter_ok bs"
  show "limiter_ok (limiter_step e bs)"
    by (cases e) (simp_all add: record_failure_ok clear_ok prune_ok retry_after_at_def Let_def ok)
qed

subsection \<open>The history the limiter stands for\<close>

text \<open>
  The abstract limiter is a clock and, for every identity, all failures since its last
  success; nothing is pruned or evicted. A run is admitted when its instants do not go
  backwards and no identity outside a fixed set of at most \<open>MAX_LOGIN_IDENTITIES\<close> fails,
  so that no eviction is forced.
\<close>

type_synonym limiter_history = "instant \<times> (bytes \<Rightarrow> instant list)"

fun history_step :: "limiter_event \<Rightarrow> limiter_history \<Rightarrow> limiter_history" where
  "history_step (Failed k t) (c, h) = (t, h(k := h k @ [t]))"
| "history_step (Asked k t) (c, h) = (t, h)"
| "history_step (Cleared k) (c, h) = (c, h(k := []))"

fun in_order :: "bytes list \<Rightarrow> instant \<Rightarrow> limiter_event list \<Rightarrow> bool" where
  "in_order ks c [] = True"
| "in_order ks c (Failed k t # es) = (c \<le> t \<and> k \<in> set ks \<and> in_order ks t es)"
| "in_order ks c (Asked k t # es) = (c \<le> t \<and> in_order ks t es)"
| "in_order ks c (Cleared k # es) = in_order ks c es"

definition matches_history :: "bytes list \<Rightarrow> buckets \<Rightarrow> limiter_history \<Rightarrow> bool" where
  "matches_history ks bs a \<longleftrightarrow> fst ` set bs \<subseteq> set ks
     \<and> (\<forall>k now. fst a \<le> now \<longrightarrow> recent now (failures bs k) = recent now (snd a k))"

text \<open>The answer of the abstract limiter: blocked for the rest of the oldest failure's window
  from the tenth recent failure on.\<close>

definition blocked_for :: "instant \<Rightarrow> instant list \<Rightarrow> nat option" where
  "blocked_for now h =
     (case recent now h of
        [] \<Rightarrow> None
      | oldest # newer \<Rightarrow>
          if length newer < LOGIN_FAILURE_LIMIT - 1 then None
          else Some (max (nat ((LOGIN_FAILURE_WINDOW - saturating_duration_since now oldest) div 1000000000)) 1))"

lemma matches_prune:
  "limiter_ok bs \<Longrightarrow> matches_history ks bs (c, h) \<Longrightarrow> c \<le> t \<Longrightarrow>
   matches_history ks (prune_buckets bs t) (t, h)"
  using keys_prune [of bs t]
  by (auto simp: matches_history_def failures_prune limiter_ok_def recent_recent)

lemma no_eviction:
  assumes ok: "limiter_ok bs" and keys: "fst ` set bs \<subseteq> set ks" and few: "length ks \<le> MAX_LOGIN_IDENTITIES"
    and new: "bucket_get bs k = None" and k: "k \<in> set ks"
  shows "length bs < MAX_LOGIN_IDENTITIES"
proof -
  have "length bs = card (fst ` set bs)"
    using ok by (metis length_map limiter_ok_def distinct_card set_map)
  also have "\<dots> < card (set ks)"
    using keys k new by (intro psubset_card_mono) (auto simp: bucket_get_None_iff)
  also have "\<dots> \<le> length ks" by (rule card_length)
  finally show ?thesis using few by simp
qed

lemma matches_failed:
  assumes ok: "limiter_ok bs" and m: "matches_history ks bs (c, h)" and t: "c \<le> t" and k: "k \<in> set ks"
    and few: "length ks \<le> MAX_LOGIN_IDENTITIES"
  shows "matches_history ks (record_failure_at k t bs) (t, h(k := h k @ [t]))"
proof -
  let ?b = "prune_buckets bs t"
  from matches_prune [OF ok m t] have p: "matches_history ks ?b (t, h)" .
  have "\<not> (bucket_get ?b k = None \<and> MAX_LOGIN_IDENTITIES \<le> length ?b)"
    using no_eviction [OF prune_ok [OF ok], of t ks k] p k few by (auto simp: matches_history_def)
  then have "record_failure_at k t bs = bucket_push k t ?b"
    by (auto simp: record_failure_at_def Let_def)
  with p k show ?thesis by (auto simp: matches_history_def failures_push keys_push)
qed

lemma matches_cleared:
  "matches_history ks bs (c, h) \<Longrightarrow> matches_history ks (clear k bs) (c, h(k := []))"
  by (auto simp: matches_history_def clear_def failures_remove keys_remove)

definition admits_history :: "bytes list \<Rightarrow> limiter_history \<Rightarrow> limiter_event list \<Rightarrow> bool" where
  "admits_history ks a es \<longleftrightarrow> length ks \<le> MAX_LOGIN_IDENTITIES \<and> in_order ks (fst a) es"

interpretation limiter_history: refinement limiter_step limiter_ok history_step
  "matches_history ks" "admits_history ks" for ks
proof
  fix a e es
  assume "admits_history ks a (e # es)"
  then show "admits_history ks (history_step e a) es"
    by (cases e; cases a) (auto simp: admits_history_def)
next
  fix bs a e es
  assume "limiter_ok bs" "matches_history ks bs a" "admits_history ks a (e # es)"
  then show "matches_history ks (limiter_step e bs) (history_step e a)"
    by (cases e; cases a)
      (auto simp: admits_history_def retry_after_at_def Let_def
        intro: matches_failed matches_prune matches_cleared)
qed

lemma retry_after_blocked_for:
  assumes ok: "limiter_ok bs"
  shows "snd (retry_after_at k now bs) = blocked_for now (failures bs k)"
proof -
  let ?b = "prune_buckets bs now"
  have f: "failures ?b k = recent now (failures bs k)"
    using ok by (simp add: failures_prune limiter_ok_def)
  have pos: "saturating_duration_since now x < LOGIN_FAILURE_WINDOW" if "x \<in> set (recent now ts)" for x ts
    using that by (simp add: recent_def)
  show ?thesis
  proof (cases "recent now (failures bs k)")
    case Nil
    with f show ?thesis
      by (auto simp: retry_after_at_def blocked_for_def Let_def failures_def LOGIN_FAILURE_LIMIT_def
          split: option.splits)
  next
    case (Cons oldest newer)
    with f have "bucket_get ?b k = Some (oldest # newer)"
      by (auto simp: failures_def split: option.splits)
    moreover have "saturating_duration_since now oldest < LOGIN_FAILURE_WINDOW"
      using pos [of oldest "failures bs k"] Cons by simp
    ultimately show ?thesis using Cons
      by (auto simp: retry_after_at_def blocked_for_def Let_def LOGIN_FAILURE_LIMIT_def)
  qed
qed

section \<open>Properties\<close>

lemma window_seconds: "nat ((900000000000 - max 0 d) div 1000000000) \<le> 900" for d :: int
proof -
  have "(900000000000 - max 0 d) div 1000000000 \<le> 900000000000 div 1000000000"
    by (intro zdiv_mono1) auto
  then show ?thesis by simp
qed

lemma blocked_for_bounds: "blocked_for now h = Some r \<Longrightarrow> 1 \<le> r \<and> r \<le> 900"
  using window_seconds
  by (auto simp: blocked_for_def LOGIN_FAILURE_WINDOW_def saturating_duration_since_def
      split: list.splits if_splits)

lemma limiter_ok_empty: "limiter_ok []"
  by (simp add: limiter_ok_def MAX_LOGIN_IDENTITIES_def)

text \<open>
  C3. As long as at most ten thousand identities fail in a run whose clock does not go
  backwards, the limiter answers exactly as the history that forgets nothing: an identity is
  refused if and only if ten failures since its last success lie within the fifteen-minute
  window, for the rest of the window of the oldest of them. Pruning never loses a failure
  that still counts, and success or other identities never count against it.
\<close>

theorem limiter_refines_history:
  assumes "length ks \<le> MAX_LOGIN_IDENTITIES" and "in_order ks c es"
    and "fold history_step es (c, \<lambda>_. []) = (c', h)" and "c' \<le> now"
  shows "snd (retry_after_at k now (fold limiter_step es [])) = blocked_for now (h k)"
proof -
  have "matches_history ks (fold limiter_step es []) (fold history_step es (c, \<lambda>_. []))"
    using assms by (intro limiter_history.run_refines)
      (auto simp: limiter_ok_empty matches_history_def admits_history_def)
  moreover have "limiter_ok (fold limiter_step es [])"
    by (rule limiter.run_inv [OF limiter_ok_empty])
  ultimately show ?thesis
    using assms(3,4) by (simp add: retry_after_blocked_for matches_history_def blocked_for_def)
qed

theorem limiter_refines_history_witness:
  "snd (retry_after_at ''a'' 20 (fold limiter_step
     (map (\<lambda>t. Failed ''a'' t) [1 .. 10] @ [Failed ''b'' 11, Cleared ''b'']) [])) = Some 899"
proof -
  let ?es = "map (\<lambda>t. Failed ''a'' t) [1 .. 10] @ [Failed ''b'' 11, Cleared ''b'']"
  have io: "in_order [''a'', ''b''] 0 ?es" by code_simp
  obtain c h where f: "fold history_step ?es (0, \<lambda>_. []) = (c, h)"
    by (cases "fold history_step ?es (0, \<lambda>_. [])")
  have "c = fst (fold history_step ?es (0, \<lambda>_. []))" and "h ''a'' = snd (fold history_step ?es (0, \<lambda>_. [])) ''a''"
    by (simp_all only: f fst_conv snd_conv)
  then have "c = 11" "h ''a'' = [1 .. 10]" by (simp_all add: upto.simps)
  moreover have "blocked_for 20 [1 .. 10] = Some 899" by code_simp
  ultimately show ?thesis
    using limiter_refines_history [OF _ io f, of 20 "''a''"] by (simp add: MAX_LOGIN_IDENTITIES_def)
qed

text \<open>
  In every run, whatever its clock, the limiter holds at most ten thousand buckets, none
  of them empty and one per identity, and a refusal asks the client to wait between one
  second and fifteen minutes.
\<close>

lemma limiter_bounded:
  "length (fold limiter_step es []) \<le> 10000
   \<and> distinct (map fst (fold limiter_step es []))
   \<and> [] \<notin> snd ` set (fold limiter_step es [])
   \<and> snd (retry_after_at k now (fold limiter_step es [])) \<in> insert None (Some ` {1 .. 900})"
proof -
  have ok: "limiter_ok (fold limiter_step es [])" (is "limiter_ok ?b")
    by (rule limiter.run_inv [OF limiter_ok_empty])
  have "snd (retry_after_at k now ?b) \<in> insert None (Some ` {1 .. 900})"
    using blocked_for_bounds [of now "failures ?b k"]
    by (cases "blocked_for now (failures ?b k)") (auto simp: retry_after_blocked_for [OF ok])
  with ok show ?thesis by (force simp: limiter_ok_def MAX_LOGIN_IDENTITIES_def list_all_iff)
qed

end
