(* ===== verification/Session.thy ===== *)
theory Session
  imports Devices Limiter
begin

text \<open>
  Accounts and browser sessions: \<open>src/auth/session.rs\<close> and \<open>bootstrap_owner\<close> of
  \<open>src/auth.rs\<close>. The state of the service here is the limiter's buckets and the
  database. Password verification and hashing run outside any transaction; what other
  requests do meanwhile is in the functions \<open>between\<close> (the database) and
  \<open>meanwhile\<close> (the limiter) of the environment, and the phases of a login are definitions
  of their own that interleave with those of other logins. Random bytes, identifiers and the clock readings are
  fields of the request's environment.
\<close>

section \<open>Passwords\<close>

definition verify_login_password :: "externals \<Rightarrow> string \<Rightarrow> string option \<Rightarrow> ustr \<Rightarrow> bool" where
  "verify_login_password x dummy encoded_hash password =
     (let user_exists = (encoded_hash \<noteq> None);
          encoded = (case encoded_hash of None \<Rightarrow> dummy | Some h \<Rightarrow> h);
          hash_is_valid = hash_parses x encoded;
          hash = (if hash_is_valid then encoded else dummy);
          verified = verify_hash x hash password
      in user_exists \<and> hash_is_valid \<and> verified)"

section \<open>Login\<close>

type_synonym auth_state = "buckets \<times> db"

record login_env =
  le_checked_at :: instant
  le_failed_at :: instant
  le_now :: instant
  le_dummy_hash :: string
  le_session_raw :: "bytes option"
  le_csrf_raw :: "bytes option"
  le_session_id :: uuid
  le_meanwhile :: "buckets \<Rightarrow> buckets"
  le_between :: "db \<Rightarrow> db"

record user_response =
  ur_id :: uuid
  ur_email :: ustr
  ur_role :: role
  ur_must_change_password :: bool

definition public_user :: "user_row \<Rightarrow> user_response" where
  "public_user u = \<lparr>ur_id = usr_id u, ur_email = usr_email u, ur_role = usr_role u,
     ur_must_change_password = usr_must_change_password u\<rparr>"

definition public_user_from_auth :: "auth_user \<Rightarrow> user_response" where
  "public_user_from_auth u = \<lparr>ur_id = au_id u, ur_email = au_email u, ur_role = au_role u,
     ur_must_change_password = au_must_change_password u\<rparr>"

record login_response =
  lr_user :: user_response
  lr_csrf_token :: string
  lr_cookies :: "string list"

definition identity_digest :: "externals \<Rightarrow> ustr \<Rightarrow> bytes" where
  "identity_digest x identity = sha256 x (utf8_encode identity)"

text \<open>
  \<open>i64::try_from(ttl)\<close>, \<open>Duration::seconds\<close> (which panics beyond
  \<open>i64::MAX / 1000\<close> seconds) and \<open>checked_add_signed\<close> up to the last instant
  chrono represents (the end of the year 262142).
\<close>

definition session_expiry :: "nat \<Rightarrow> instant \<Rightarrow> api_error + instant" where
  "session_expiry ttl now =
     (if 2 ^ 63 \<le> ttl \<or> ttl = 0 then Inl (api_error 500 ''service_unavailable'')
      else if (2 ^ 63 - 1) div 1000 < ttl then Inl Panicked
      else if chrono_max < now + seconds (int ttl) then Inl (api_error 500 ''service_unavailable'')
      else Inr (now + seconds (int ttl)))"

definition login_cookies :: "auth_settings \<Rightarrow> string \<Rightarrow> string \<Rightarrow> string list" where
  "login_cookies settings session_token csrf_token =
     [add_cookie (session_cookie_name settings) session_token True (session_ttl_seconds settings)
        (cookie_secure settings) False,
      add_cookie (csrf_cookie_name settings) csrf_token False (session_ttl_seconds settings)
        (cookie_secure settings) True]"

text \<open>The transaction that re-reads the account and persists the session.\<close>

definition open_session :: "externals \<Rightarrow> user_row \<Rightarrow> uuid \<Rightarrow> bytes \<Rightarrow> bytes \<Rightarrow> instant \<Rightarrow> instant \<Rightarrow> db
    \<Rightarrow> api_error + db" where
  "open_session x user session_id session_raw csrf_raw expires_at now s =
     bindE (guardE (map_option usr_password_hash
              (find (\<lambda>u. usr_id u = usr_id user \<and> usr_disabled_at u = None) (users s))
              = Some (usr_password_hash user)) (api_error 401 ''invalid_credentials'')) (\<lambda>_.
     bindE (mapErr db_unavailable (insert_session
              \<lparr>ses_id = session_id, ses_user = usr_id user, ses_token_digest = sha256 x session_raw,
               ses_csrf_digest = sha256 x csrf_raw, ses_expires_at = expires_at, ses_revoked_at = None,
               ses_created_at = now, ses_last_seen_at = None\<rparr> s)) (\<lambda>s'.
       Inr (add_audit ''login_success'' (Some (usr_id user)) None s')))"

definition login_verified :: "externals \<Rightarrow> auth_settings \<Rightarrow> login_env \<Rightarrow> user_row \<Rightarrow> db
    \<Rightarrow> login_response outcome" where
  "login_verified x settings env user s =
     (case bindE (okOr (secure_token x (le_session_raw env)) (api_error 500 ''service_unavailable''))
             (\<lambda>(session_raw, session_token).
           bindE (okOr (secure_token x (le_csrf_raw env)) (api_error 500 ''service_unavailable''))
             (\<lambda>(csrf_raw, csrf_token).
           bindE (session_expiry (session_ttl_seconds settings) (le_now env)) (\<lambda>expires_at.
           bindE (open_session x user (le_session_id env) session_raw csrf_raw expires_at (le_now env) s)
             (\<lambda>s2. Inr (s2, \<lparr>lr_user = public_user user, lr_csrf_token = csrf_token,
                       lr_cookies = login_cookies settings session_token csrf_token\<rparr>))))) of
        Inl e \<Rightarrow> (s, Inl e)
      | Inr (s2, r) \<Rightarrow> (s2, Inr r))"

text \<open>
  The handler works in three phases: it asks the limiter, it reads the account and compares
  the password on a blocking thread, and only then it records the failure or clears the
  bucket of the limiter, as other requests have left it by then. A request outside of any
  interleaving is the composition \<open>login\<close>, in which \<open>le_meanwhile\<close> is what the
  limiter and \<open>le_between\<close> what the database went through during the comparison.
\<close>

definition login_check :: "externals \<Rightarrow> login_env \<Rightarrow> ustr \<Rightarrow> buckets \<Rightarrow> buckets \<times> (api_error + ustr)" where
  "login_check x env raw_email bs =
     (let email = to_lowercase x (trim raw_email);
          (bs1, retry_after) = retry_after_at (identity_digest x email) (le_checked_at env) bs
      in (bs1, case retry_after of
                 Some r \<Rightarrow> Inl (with_interval 429 ''too_many_attempts'' (int r))
               | None \<Rightarrow> Inr email))"

record login_attempt =
  la_email :: ustr
  la_user :: "user_row option"
  la_accepted :: bool

definition login_verify :: "externals \<Rightarrow> login_env \<Rightarrow> ustr \<Rightarrow> ustr \<Rightarrow> db \<Rightarrow> login_attempt" where
  "login_verify x env email password s =
     (let user = find (\<lambda>u. sql_lower x (usr_email u) = email \<and> usr_disabled_at u = None) (users s);
          password_valid = (text_len password \<le> 1024
            \<and> verify_login_password x (le_dummy_hash env) (map_option usr_password_hash user) password)
      in \<lparr>la_email = email, la_user = user, la_accepted = (valid_email email \<and> password_valid)\<rparr>)"

definition login_conclude :: "externals \<Rightarrow> auth_settings \<Rightarrow> login_env \<Rightarrow> login_attempt \<Rightarrow> auth_state
    \<Rightarrow> auth_state \<times> (api_error + login_response)" where
  "login_conclude x settings env a st =
     (let (bs, s) = st; key = identity_digest x (la_email a) in
      if \<not> la_accepted a
      then ((record_failure_at key (le_failed_at env) bs,
             add_audit ''login_failure'' (map_option usr_id (la_user a)) None s),
            Inl (api_error 401 ''invalid_credentials''))
      else case la_user a of
             None \<Rightarrow> ((bs, s), Inl Panicked)
           | Some u \<Rightarrow> (let (s', r) = login_verified x settings env u s in ((clear key bs, s'), r)))"

definition login :: "externals \<Rightarrow> auth_settings \<Rightarrow> login_env \<Rightarrow> ustr \<Rightarrow> ustr \<Rightarrow> auth_state
    \<Rightarrow> auth_state \<times> (api_error + login_response)" where
  "login x settings env raw_email password st =
     (let (bs, s) = st; (bs1, checked) = login_check x env raw_email bs
      in case checked of
           Inl e \<Rightarrow> ((bs1, s), Inl e)
         | Inr email \<Rightarrow>
             login_conclude x settings env (login_verify x env email password s)
               (le_meanwhile env bs1, le_between env s))"

section \<open>Authenticating a request\<close>

definition allowed_while_changing_password :: "string \<Rightarrow> bool" where
  "allowed_while_changing_password path \<longleftrightarrow>
     path = ''/api/auth/me'' \<or> path = ''/api/auth/password'' \<or> path = ''/api/auth/logout''"

definition authentication_required :: api_error where
  "authentication_required = api_error 401 ''authentication_required''"

definition session_live :: "instant \<Rightarrow> db \<Rightarrow> session_row \<Rightarrow> bool" where
  "session_live now s r \<longleftrightarrow> ses_revoked_at r = None \<and> now < ses_expires_at r
     \<and> (case find_row usr_id (ses_user r) (users s) of None \<Rightarrow> False | Some u \<Rightarrow> usr_disabled_at u = None)"

definition session_user :: "externals \<Rightarrow> instant \<Rightarrow> string \<Rightarrow> db \<Rightarrow> (session_row \<times> user_row) option" where
  "session_user x now token s =
     (if length token \<noteq> 43 then None
      else case b64_decode x token of
        None \<Rightarrow> None
      | Some raw_token \<Rightarrow>
          if length raw_token \<noteq> 32 then None
          else case find (\<lambda>r. ses_token_digest r = sha256 x raw_token \<and> session_live now s r) (sessions s) of
            None \<Rightarrow> None
          | Some r \<Rightarrow> map_option (\<lambda>u. (r, u)) (find_row usr_id (ses_user r) (users s)))"

definition touch_session :: "instant \<Rightarrow> session_row \<Rightarrow> db \<Rightarrow> db" where
  "touch_session now r s =
     (let stale = (\<lambda>v. case v of None \<Rightarrow> True | Some seen \<Rightarrow> seen < now - seconds 300) in
      if stale (ses_last_seen_at r)
      then s\<lparr>sessions := update_where (\<lambda>q. ses_id q = ses_id r \<and> stale (ses_last_seen_at q))
                          (\<lambda>q. q\<lparr>ses_last_seen_at := Some now\<rparr>) (sessions s)\<rparr>
      else s)"

definition from_request_parts :: "externals \<Rightarrow> auth_settings \<Rightarrow> instant \<Rightarrow> http_method \<Rightarrow> string \<Rightarrow> headers
    \<Rightarrow> auth_user option \<Rightarrow> db \<Rightarrow> auth_user outcome" where
  "from_request_parts x settings now m path hs extension s =
     (case extension of
        Some user \<Rightarrow> (s, Inr user)
      | None \<Rightarrow>
          (case bearer_token hs of
             Some token \<Rightarrow>
               if \<not> starts_with token ''mdb_'' then (s, Inl authentication_required)
               else
                 (case authenticate_access_token x now token (forwarded_ip hs) s of
                    (s', None) \<Rightarrow> (s', Inl authentication_required)
                  | (s', Some user) \<Rightarrow>
                      if au_must_change_password user then (s', Inl (api_error 403 ''password_change_required''))
                      else if \<not> device_request_allowed m path then (s', Inl (api_error 403 ''insufficient_scope''))
                      else (s', Inr user))
           | None \<Rightarrow>
               (case cookie_value hs (session_cookie_name settings) of
                  None \<Rightarrow> (s, Inl authentication_required)
                | Some token \<Rightarrow>
                    (case session_user x now token s of
                       None \<Rightarrow> (s, Inl authentication_required)
                     | Some (r, u) \<Rightarrow>
                         (let user = \<lparr>au_id = usr_id u, au_session = ses_id r, au_email = usr_email u,
                                      au_role = usr_role u, au_must_change_password = usr_must_change_password u,
                                      au_csrf_digest = ses_csrf_digest r, au_api_key = None, au_device = None\<rparr>;
                              s' = touch_session now r s
                          in if au_must_change_password user \<and> \<not> allowed_while_changing_password path
                             then (s', Inl (api_error 403 ''password_change_required''))
                             else (s', Inr user))))))"

section \<open>Managing sessions\<close>

definition me :: "auth_user \<Rightarrow> user_response" where
  "me user = public_user_from_auth user"

text \<open>The order of the listing: the current session first, then by latest activity.\<close>

definition list_sessions :: "auth_user \<Rightarrow> instant \<Rightarrow> db \<Rightarrow> (session_row \<times> bool) list" where
  "list_sessions user now s =
     (let rows = filter (\<lambda>r. ses_user r = au_id user \<and> ses_revoked_at r = None \<and> now < ses_expires_at r)
                   (sessions s);
          active = (\<lambda>r. case ses_last_seen_at r of None \<Rightarrow> ses_created_at r | Some t \<Rightarrow> t);
          sorted = sort_key (\<lambda>r. - active r) (sort_key (\<lambda>r. - ses_created_at r) rows)
      in map (\<lambda>r. (r, ses_id r = au_session user))
           (filter (\<lambda>r. ses_id r = au_session user) sorted @ filter (\<lambda>r. ses_id r \<noteq> au_session user) sorted))"

definition revoke_where :: "(session_row \<Rightarrow> bool) \<Rightarrow> instant \<Rightarrow> db \<Rightarrow> db" where
  "revoke_where p now s =
     s\<lparr>sessions := update_where (\<lambda>r. p r \<and> ses_revoked_at r = None)
                    (\<lambda>r. r\<lparr>ses_revoked_at := Some now\<rparr>) (sessions s)\<rparr>"

definition revoke_session :: "externals \<Rightarrow> auth_settings \<Rightarrow> auth_user \<Rightarrow> headers \<Rightarrow> instant \<Rightarrow> uuid \<Rightarrow> db
    \<Rightarrow> unit outcome" where
  "revoke_session x settings user hs now session_id s =
     (if \<not> require_csrf x hs user settings then (s, Inl (api_error 403 ''csrf_failed''))
      else if session_id = au_session user then (s, Inl (api_error 409 ''cannot_revoke_current_session''))
      else
        (let hit = (\<lambda>r. ses_id r = session_id \<and> ses_user r = au_id user \<and> now < ses_expires_at r) in
         if count_where (\<lambda>r. hit r \<and> ses_revoked_at r = None) (sessions s) \<noteq> 1
         then (revoke_where hit now s, Inl (api_error 404 ''session_not_found''))
         else (add_audit ''session_revoked'' (Some (au_id user)) (Some session_id) (revoke_where hit now s), Inr ())))"

definition revoke_other_sessions :: "externals \<Rightarrow> auth_settings \<Rightarrow> auth_user \<Rightarrow> headers \<Rightarrow> instant \<Rightarrow> db
    \<Rightarrow> unit outcome" where
  "revoke_other_sessions x settings user hs now s =
     (if \<not> require_csrf x hs user settings then (s, Inl (api_error 403 ''csrf_failed''))
      else
        (let hit = (\<lambda>r. ses_user r = au_id user \<and> ses_id r \<noteq> au_session user \<and> now < ses_expires_at r);
             s1 = revoke_where hit now s
         in if 0 < count_where (\<lambda>r. hit r \<and> ses_revoked_at r = None) (sessions s)
            then (add_audit ''sessions_revoked'' (Some (au_id user)) None s1, Inr ()) else (s1, Inr ())))"

text \<open>\<open>logout\<close> answers with cookies that expire at once.\<close>

definition logout :: "externals \<Rightarrow> auth_settings \<Rightarrow> auth_user \<Rightarrow> headers \<Rightarrow> instant \<Rightarrow> db
    \<Rightarrow> string list outcome" where
  "logout x settings user hs now s =
     (if \<not> require_csrf x hs user settings then (s, Inl (api_error 403 ''csrf_failed''))
      else (add_audit ''logout'' (Some (au_id user)) None (revoke_where (\<lambda>r. ses_id r = au_session user) now s),
            Inr [add_cookie (session_cookie_name settings) '''' True 0 (cookie_secure settings) False,
                 add_cookie (csrf_cookie_name settings) '''' False 0 (cookie_secure settings) True]))"

section \<open>Changing the password\<close>

record password_env =
  pe_now :: instant
  pe_dummy_hash :: string
  pe_salt :: bytes
  pe_between :: "db \<Rightarrow> db"

definition set_password :: "uuid \<Rightarrow> string \<Rightarrow> string \<Rightarrow> instant \<Rightarrow> db \<Rightarrow> db \<times> nat" where
  "set_password i current_hash new_hash now s =
     (let hit = (\<lambda>u. usr_id u = i \<and> usr_password_hash u = current_hash \<and> usr_disabled_at u = None) in
      (s\<lparr>users := update_where hit (\<lambda>u. u\<lparr>usr_password_hash := new_hash, usr_must_change_password := False,
                                      usr_updated_at := now\<rparr>) (users s)\<rparr>,
       count_where hit (users s)))"

text \<open>The transaction: the update is conditional on the hash that was verified.\<close>

definition commit_password :: "uuid \<Rightarrow> uuid \<Rightarrow> string \<Rightarrow> string \<Rightarrow> instant \<Rightarrow> db \<Rightarrow> unit outcome" where
  "commit_password i current_session current_hash new_hash now s =
     (let (s1, rows) = set_password i current_hash new_hash now s
      in if rows \<noteq> 1 then (s, Inl (api_error 409 ''credentials_changed''))
         else (add_audit ''password_changed'' (Some i) None
                 (revoke_where (\<lambda>r. ses_user r = i \<and> ses_id r \<noteq> current_session) now s1), Inr ()))"

definition change_password :: "externals \<Rightarrow> auth_settings \<Rightarrow> password_env \<Rightarrow> auth_user \<Rightarrow> headers \<Rightarrow> ustr \<Rightarrow> ustr
    \<Rightarrow> db \<Rightarrow> unit outcome" where
  "change_password x settings env user hs current_password new_password s =
     (if \<not> require_csrf x hs user settings then (s, Inl (api_error 403 ''csrf_failed''))
      else if 1024 < text_len current_password \<or> 1024 < text_len new_password
           \<or> length new_password < 12 \<or> current_password = new_password
      then (s, Inl (api_error 400 ''password_requirements''))
      else case find (\<lambda>u. usr_id u = au_id user \<and> usr_disabled_at u = None) (users s) of
        None \<Rightarrow> (s, Inl authentication_required)
      | Some u \<Rightarrow>
          if \<not> verify_login_password x (pe_dummy_hash env) (Some (usr_password_hash u)) current_password
          then (s, Inl (api_error 401 ''current_password_incorrect''))
          else case hash_password x (pe_salt env) new_password of
            None \<Rightarrow> (s, Inl service_unavailable)
          | Some new_hash \<Rightarrow>
              commit_password (au_id user) (au_session user) (usr_password_hash u) new_hash (pe_now env)
                (pe_between env s))"

section \<open>The first account\<close>

datatype bootstrap_error = NoCredentials | InvalidEmail | InvalidPassword | HashFailed | InsertFailed db_error

text \<open>The audit event names the owner created last.\<close>

definition bootstrap_audit :: "db \<Rightarrow> db" where
  "bootstrap_audit s =
     (case rev (sort_key usr_created_at (filter (\<lambda>u. usr_role u = Owner) (users s))) of
        [] \<Rightarrow> s
      | u # _ \<Rightarrow> add_audit ''owner_bootstrap'' (Some (usr_id u)) None s)"

definition bootstrap_owner :: "externals \<Rightarrow> instant \<Rightarrow> uuid \<Rightarrow> bytes \<Rightarrow> (ustr \<times> ustr) option \<Rightarrow> db
    \<Rightarrow> db \<times> (bootstrap_error + unit)" where
  "bootstrap_owner x now new_id salt creds s =
     (if list_ex (\<lambda>u. usr_role u = Owner) (users s) then (s, Inr ())
      else case bindE (okOr creds NoCredentials) (\<lambda>(raw_email, password).
             let email = to_lowercase x (trim raw_email) in
             bindE (guardE (valid_email email) InvalidEmail) (\<lambda>_.
             bindE (guardE (valid_password password) InvalidPassword) (\<lambda>_.
             bindE (okOr (hash_password x salt password) HashFailed) (\<lambda>hash.
             bindE (mapErr InsertFailed (insert_user (sql_lower x)
                      \<lparr>usr_id = new_id, usr_email = email, usr_password_hash = hash, usr_role = Owner,
                       usr_created_at = now, usr_updated_at = now, usr_managed_by = None, usr_quota_bytes = None,
                       usr_disabled_at = None, usr_must_change_password = False\<rparr> s)) (\<lambda>s1.
               Inr (bootstrap_audit s1)))))) of
        Inl e \<Rightarrow> (s, Inl e)
      | Inr s2 \<Rightarrow> (s2, Inr ()))"

section \<open>Committed changes\<close>

text \<open>
  The service as the sequence of the transactions its requests commit, in any interleaving:
  each event is one committed statement or transaction of the handlers above, or an event of
  the device service.
\<close>

datatype session_event =
    FailedLogin "uuid option"
  | OpenSession user_row uuid bytes bytes instant instant
  | RequestAuth instant http_method string headers "auth_user option"
  | RevokeSession auth_user headers instant uuid
  | RevokeOthers auth_user headers instant
  | Logout auth_user headers instant
  | CommitPassword uuid uuid string string instant
  | DeviceEvent device_event

fun session_step :: "externals \<Rightarrow> auth_settings \<Rightarrow> session_event \<Rightarrow> db \<Rightarrow> db" where
  "session_step x st (FailedLogin u) s = add_audit ''login_failure'' u None s"
| "session_step x st (OpenSession u i sraw craw e now) s =
     (case open_session x u i sraw craw e now s of Inl _ \<Rightarrow> s | Inr s' \<Rightarrow> s')"
| "session_step x st (RequestAuth now m path hs ext) s = fst (from_request_parts x st now m path hs ext s)"
| "session_step x st (RevokeSession u hs now i) s = fst (revoke_session x st u hs now i s)"
| "session_step x st (RevokeOthers u hs now) s = fst (revoke_other_sessions x st u hs now s)"
| "session_step x st (Logout u hs now) s = fst (logout x st u hs now s)"
| "session_step x st (CommitPassword i c h h' now) s = fst (commit_password i c h h' now s)"
| "session_step x st (DeviceEvent e) s = device_step x st e s"

definition session_ok :: "db \<Rightarrow> bool" where
  "session_ok s \<longleftrightarrow> distinct (map ses_id (sessions s)) \<and> distinct (map ses_token_digest (sessions s))
     \<and> distinct (map usr_id (users s)) \<and> ses_user ` set (sessions s) \<subseteq> usr_id ` set (users s)"

definition session_revoked :: "uuid \<Rightarrow> db \<Rightarrow> bool" where
  "session_revoked i s \<longleftrightarrow> settled ses_id (\<lambda>r. ses_revoked_at r \<noteq> None) i (sessions s)"

text \<open>A write keeps the session invariant and every revocation.\<close>

definition session_safe :: "db \<Rightarrow> db \<Rightarrow> bool" where
  "session_safe s s' \<longleftrightarrow> (session_ok s \<longrightarrow> session_ok s') \<and> (\<forall>i. session_revoked i s \<longrightarrow> session_revoked i s')"

lemma session_safe_refl [simp]: "session_safe s s"
  by (simp add: session_safe_def)

lemma session_safe_trans: "session_safe s t \<Longrightarrow> session_safe t u \<Longrightarrow> session_safe s u"
  by (simp add: session_safe_def)

lemma session_safe_frame: "sessions s' = sessions s \<Longrightarrow> users s' = users s \<Longrightarrow> session_safe s s'"
  by (simp add: session_safe_def session_ok_def session_revoked_def)

lemma device_write_frame: "device_write s s' \<Longrightarrow> sessions s' = sessions s \<and> users s' = users s"
  by (induction rule: device_write.induct)
    (auto simp: insert_grant_def insert_device_def insert_credential_def add_audit_def result_simps)

lemma device_writes_frame: "device_writes s s' \<Longrightarrow> sessions s' = sessions s \<and> users s' = users s"
  by (induction rule: rtranclp_induct) (auto dest: device_write_frame)

lemma device_writes_safe: "device_writes s s' \<Longrightarrow> session_safe s s'"
  using device_writes_frame session_safe_frame by blast

lemma audit_safe [simp]: "session_safe s (add_audit t a r s') \<longleftrightarrow> session_safe s s'"
  by (simp add: session_safe_def session_ok_def session_revoked_def add_audit_def)

lemma sessions_update_safe:
  assumes "\<And>r. p r \<Longrightarrow> ses_id (f r) = ses_id r \<and> ses_token_digest (f r) = ses_token_digest r
    \<and> ses_user (f r) = ses_user r \<and> (ses_revoked_at r \<noteq> None \<longrightarrow> ses_revoked_at (f r) \<noteq> None)"
  shows "session_safe s (s\<lparr>sessions := update_where p f (sessions s)\<rparr>)"
  using assms
  by (auto simp: session_safe_def session_ok_def session_revoked_def map_update_where image_update_where
      intro!: settled_update)

lemma revoke_where_safe: "session_safe s (revoke_where p now s)"
  unfolding revoke_where_def by (rule sessions_update_safe) simp

lemma touch_session_safe: "session_safe s (touch_session now r s)"
  unfolding touch_session_def Let_def by (auto intro!: sessions_update_safe)

lemma insert_session_fresh:
  assumes "insert_session r s = Inr s'"
  shows "s' = s\<lparr>sessions := sessions s @ [r]\<rparr>" and "ses_id r \<notin> ses_id ` set (sessions s)"
    and "ses_token_digest r \<notin> ses_token_digest ` set (sessions s)" and "ses_user r \<in> usr_id ` set (users s)"
  using assms by (auto simp: insert_session_def result_simps intro!: fresh_key)

lemma insert_session_safe: "insert_session r s = Inr s' \<Longrightarrow> session_safe s s'"
  using insert_session_fresh [of r s s']
  by (simp add: session_safe_def session_ok_def session_revoked_def settled_fresh)

lemma open_session_safe: "open_session x u i sraw craw e now s = Inr s' \<Longrightarrow> session_safe s s'"
  by (auto simp: open_session_def result_simps dest: insert_session_safe)

lemma set_password_safe: "session_safe s (fst (set_password i h h' now s))"
  by (simp add: set_password_def Let_def session_safe_def session_ok_def session_revoked_def
      map_update_where image_update_where)

lemma commit_password_safe: "session_safe s (fst (commit_password i c h h' now s))"
  using session_safe_trans [OF set_password_safe revoke_where_safe]
  by (simp add: commit_password_def split_beta)

lemma authenticate_safe: "session_safe s (fst (authenticate_access_token x now token ip s))"
  by (rule device_writes_safe [OF authenticate_writes])

lemma from_request_parts_safe: "session_safe s (fst (from_request_parts x st now m path hs ext s))"
proof (cases ext)
  case (Some user)
  then show ?thesis by (simp add: from_request_parts_def)
next
  case None
  show ?thesis
  proof (cases "bearer_token hs")
    case (Some token)
    obtain s' v where "authenticate_access_token x now token (forwarded_ip hs) s = (s', v)" by (cases "authenticate_access_token x now token (forwarded_ip hs) s")
    moreover from this have "session_safe s s'" by (metis authenticate_safe fst_conv)
    ultimately show ?thesis using None Some by (simp add: from_request_parts_def split: option.splits)
  next
    case no: None
    show ?thesis using None no
      by (simp add: from_request_parts_def Let_def touch_session_safe split: option.splits)
  qed
qed

lemma session_step_safe: "session_safe s (session_step x st e s)"
proof (cases e)
  case (OpenSession u i sraw craw e now)
  then show ?thesis by (auto intro: open_session_safe split: sum.splits)
next
  case (DeviceEvent d)
  then show ?thesis by (simp add: device_writes_safe device_step_writes)
qed (simp_all add: from_request_parts_safe commit_password_safe revoke_session_def revoke_other_sessions_def
  logout_def revoke_where_safe Let_def)

interpretation session: absorbing "session_step x st" session_ok session_revoked for x st
  using session_step_safe [of _ x st] by unfold_locales (auto simp: session_safe_def)

section \<open>Properties of sessions\<close>

lemma session_user_Some:
  assumes "session_user x now token s = Some (r, u)"
  shows "r \<in> set (sessions s)" and "session_live now s r" and "find_row usr_id (ses_user r) (users s) = Some u"
    and "\<exists>raw. b64_decode x token = Some raw \<and> ses_token_digest r = sha256 x raw"
  using assms by (auto simp: session_user_def find_Some_iff split: if_splits option.splits)

lemma session_live_user:
  "session_live now s r \<Longrightarrow> find_row usr_id (ses_user r) (users s) = Some u \<Longrightarrow>
   ses_revoked_at r = None \<and> now < ses_expires_at r \<and> usr_disabled_at u = None"
  by (simp add: session_live_def)

lemma authenticated_device_user:
  "authenticate_access_token x now token ip s = (s', Some user) \<Longrightarrow> au_device user \<noteq> None"
  by (auto elim!: authenticate_Some simp: from_device_def)

lemma cookie_authentication:
  assumes a: "from_request_parts x st now m path hs None s = (s', Inr user)" and d: "au_device user = None"
  obtains r u token where "cookie_value hs (session_cookie_name st) = Some token"
    "session_user x now token s = Some (r, u)" "au_id user = usr_id u" "au_session user = ses_id r"
    "au_csrf_digest user = ses_csrf_digest r"
    "usr_must_change_password u \<longrightarrow> allowed_while_changing_password path"
proof (cases "bearer_token hs")
  case (Some token)
  obtain s1 v where "authenticate_access_token x now token (forwarded_ip hs) s = (s1, v)"
    by (cases "authenticate_access_token x now token (forwarded_ip hs) s")
  with a Some d show ?thesis
    by (auto simp: from_request_parts_def split: if_splits option.splits dest: authenticated_device_user)
next
  case None
  with a obtain token r u where "cookie_value hs (session_cookie_name st) = Some token"
    "session_user x now token s = Some (r, u)"
    by (auto simp: from_request_parts_def split: option.splits)
  with a None that [of token r u] show ?thesis
    by (auto simp: from_request_parts_def Let_def split: if_splits)
qed

text \<open>
  C7. A request that authenticates with a cookie carries the token of a stored session that
  is neither revoked nor expired and belongs to an enabled account, and acts for that account;
  while the account must change its password only the three permitted paths are served.
\<close>

theorem session_authentication_sound:
  assumes "from_request_parts x st now m path hs None s = (s', Inr user)" and "au_device user = None"
  shows "\<exists>r u token raw. cookie_value hs (session_cookie_name st) = Some token
    \<and> b64_decode x token = Some raw \<and> r \<in> set (sessions s) \<and> ses_token_digest r = sha256 x raw
    \<and> au_session user = ses_id r \<and> ses_revoked_at r = None \<and> now < ses_expires_at r
    \<and> u \<in> set (users s) \<and> usr_id u = ses_user r \<and> au_id user = usr_id u \<and> usr_disabled_at u = None
    \<and> (usr_must_change_password u \<longrightarrow> allowed_while_changing_password path)"
proof -
  obtain r u token where c: "cookie_value hs (session_cookie_name st) = Some token"
    "session_user x now token s = Some (r, u)" "au_id user = usr_id u" "au_session user = ses_id r"
    "usr_must_change_password u \<longrightarrow> allowed_while_changing_password path"
    using cookie_authentication [OF assms] by metis
  note su = session_user_Some [OF c(2)]
  from su(4) obtain raw where raw: "b64_decode x token = Some raw" "ses_token_digest r = sha256 x raw" by blast
  have "u \<in> set (users s) \<and> usr_id u = ses_user r" by (rule find_row_Some [OF su(3)])
  with c raw su(1) session_live_user [OF su(2,3)] show ?thesis by blast
qed

lemma revoked_session_rejected:
  assumes "session_revoked i s" and "from_request_parts x st now m path hs None s = (s', Inr user)"
    and "au_device user = None"
  shows "au_session user \<noteq> i"
proof -
  obtain r u token where "session_user x now token s = Some (r, u)" "au_session user = ses_id r"
    using cookie_authentication [OF assms(2,3)] by metis
  then show ?thesis
    using assms(1) session_user_Some [of x now token s r u] session_live_user
    by (auto simp: session_revoked_def settled_def)
qed

lemma revoke_where_revokes:
  assumes "i \<in> ses_id ` set (sessions s)" and "\<And>r. r \<in> set (sessions s) \<Longrightarrow> ses_id r = i \<Longrightarrow> p r"
  shows "session_revoked i (revoke_where p now s)"
  unfolding session_revoked_def revoke_where_def using assms by (auto intro!: settled_by_update)

lemma session_revoked_audit [simp]: "session_revoked i (add_audit t a r s) = session_revoked i s"
  by (simp add: session_revoked_def add_audit_def)

lemma logout_revokes:
  assumes "session_ok s" and "logout x st user hs now s = (s1, Inr cs)" and "au_session user \<in> ses_id ` set (sessions s)"
  shows "session_revoked (au_session user) s1"
  using assms by (auto simp: logout_def intro!: revoke_where_revokes split: if_splits)

text \<open>
  Once a session has been logged out, no request authenticates with it again, in any
  later state and under any interleaving of the transactions of other requests.
\<close>

lemma logged_out_session_is_dead:
  assumes ok: "session_ok s" and lo: "logout x st user hs now s = (s1, Inr cs)"
    and own: "au_session user \<in> ses_id ` set (sessions s)"
    and later: "from_request_parts x st now' m path hs' None (fold (session_step x st) es s1) = (s2, Inr u)"
    and cookie: "au_device u = None"
  shows "au_session u \<noteq> au_session user"
proof -
  have "session_ok s1"
    using session_step_safe [of s x st "Logout user hs now"] ok lo by (simp add: session_safe_def)
  then have "session_revoked (au_session user) (fold (session_step x st) es s1)"
    using session.run_final logout_revokes [OF ok lo own] by blast
  then show ?thesis using revoked_session_rejected later cookie by blast
qed

lemma commit_password_revokes:
  assumes ok: "session_ok s" and c: "commit_password i cur h h' now s = (s1, Inr ())"
    and r: "r \<in> set (sessions s)" "ses_user r = i" "ses_id r \<noteq> cur"
  shows "session_revoked (ses_id r) s1"
proof -
  let ?t = "fst (set_password i h h' now s)"
  from c have "s1 = add_audit ''password_changed'' (Some i) None
      (revoke_where (\<lambda>r. ses_user r = i \<and> ses_id r \<noteq> cur) now ?t)"
    by (simp add: commit_password_def split_beta split: if_splits)
  moreover have t: "sessions ?t = sessions s" by (simp add: set_password_def Let_def)
  have "q = r" if "q \<in> set (sessions s)" "ses_id q = ses_id r" for q
    using ok r(1) that by (auto simp: session_ok_def dest: distinct_key_unique)
  then have "session_revoked (ses_id r) (revoke_where (\<lambda>r. ses_user r = i \<and> ses_id r \<noteq> cur) now ?t)"
    using r by (intro revoke_where_revokes) (auto simp: t)
  ultimately show ?thesis by simp
qed

text \<open>
  C8. A password change succeeds only if the current password verified against the hash that
  is still stored when the change commits; from then on no other session of the account, even
  one opened while the passwords were being checked, authenticates any request.
\<close>

theorem password_change_ends_other_sessions:
  assumes ch: "change_password x st env user hs cur new s = (s1, Inr ())"
    and ok: "session_ok (pe_between env s)"
    and r: "r \<in> set (sessions (pe_between env s))" "ses_user r = au_id user" "ses_id r \<noteq> au_session user"
  shows "(\<exists>h u. u \<in> set (users (pe_between env s)) \<and> usr_id u = au_id user \<and> usr_password_hash u = h
            \<and> hash_parses x h \<and> verify_hash x h cur)
    \<and> (\<forall>es now' m path hs' s2 u. au_device u = None \<longrightarrow>
        from_request_parts x st now' m path hs' None (fold (session_step x st) es s1) = (s2, Inr u)
        \<longrightarrow> au_session u \<noteq> ses_id r)"
proof -
  from ch obtain u :: user_row and h' where v: "verify_login_password x (pe_dummy_hash env) (Some (usr_password_hash u)) cur"
    and c: "commit_password (au_id user) (au_session user) (usr_password_hash u) h' (pe_now env)
              (pe_between env s) = (s1, Inr ())"
    by (auto simp: change_password_def split: if_splits option.splits)
  let ?s = "pe_between env s"
  from c have "count_where (\<lambda>q. usr_id q = au_id user \<and> usr_password_hash q = usr_password_hash u
      \<and> usr_disabled_at q = None) (users ?s) = 1"
    by (auto simp: commit_password_def set_password_def Let_def split: if_splits)
  then have "\<exists>q \<in> set (users ?s). usr_id q = au_id user \<and> usr_password_hash q = usr_password_hash u"
    by (force simp: count_where_def length_Suc_conv filter_eq_Cons_iff)
  moreover have "hash_parses x (usr_password_hash u) \<and> verify_hash x (usr_password_hash u) cur"
    using v by (simp add: verify_login_password_def Let_def split: if_splits)
  moreover have "session_revoked (ses_id r) s1" by (rule commit_password_revokes [OF ok c r])
  moreover have "session_ok s1"
    using commit_password_safe [of ?s] ok c by (metis fst_conv session_safe_def)
  ultimately show ?thesis
    using session.run_final revoked_session_rejected by metis
qed

section \<open>Properties of logging in\<close>

lemma cookie_piece:
  assumes "cookie_safe n" and "cookie_safe v"
  shows "split_once CHR ''='' (trim_by char_whitespace (n @ CHR ''='' # v)) = Some (n, v)"
    and "split_once CHR ''='' (trim_by char_whitespace (CHR '' '' # n @ CHR ''='' # v)) = Some (n, v)"
    and "CHR '';'' \<notin> set (n @ CHR ''='' # v)"
proof -
  have nw: "list_all (\<lambda>c. \<not> char_whitespace c) (n @ CHR ''='' # v)"
    using assms token_char_props
    by (auto simp: cookie_safe_def list_all_iff char_whitespace_def is_whitespace_def)
  have eq: "CHR ''='' \<notin> set n" using assms token_char_props by (auto simp: cookie_safe_def list_all_iff)
  show "split_once CHR ''='' (trim_by char_whitespace (n @ CHR ''='' # v)) = Some (n, v)"
    by (simp add: trim_by_none [OF nw] split_once_append [OF eq])
  have "char_whitespace CHR '' ''" by (simp add: char_whitespace_def is_whitespace_def)
  then have "trim_by char_whitespace (CHR '' '' # n @ CHR ''='' # v) = trim_by char_whitespace (n @ CHR ''='' # v)"
    by (simp add: trim_by_def)
  then show "split_once CHR ''='' (trim_by char_whitespace (CHR '' '' # n @ CHR ''='' # v)) = Some (n, v)"
    by (simp add: trim_by_none [OF nw] split_once_append [OF eq])
  show "CHR '';'' \<notin> set (n @ CHR ''='' # v)"
    using assms token_char_props by (auto simp: cookie_safe_def list_all_iff)
qed

lemma cookie_value_pair:
  assumes safe: "cookie_safe n1" "cookie_safe v1" "cookie_safe n2" "cookie_safe v2" and ne: "n1 \<noteq> n2"
    and hs: "header_str hs ''cookie'' = Some (cookie_header [(n1, v1), (n2, v2)])"
  shows "cookie_value hs n1 = Some v1" and "cookie_value hs n2 = Some v2"
proof -
  have "CHR '';'' \<notin> set (CHR '' '' # n2 @ CHR ''='' # v2)" using cookie_piece(3) [OF safe(3,4)] by simp
  then have "split_on CHR '';'' (cookie_header [(n1, v1), (n2, v2)])
      = [n1 @ CHR ''='' # v1, CHR '' '' # n2 @ CHR ''='' # v2]"
    using split_on_append [OF cookie_piece(3) [OF safe(1,2)], of "CHR '' '' # n2 @ CHR ''='' # v2"]
    by (simp add: split_on_none)
  then show "cookie_value hs n1 = Some v1" "cookie_value hs n2 = Some v2"
    using ne by (simp_all add: cookie_value_def hs cookie_piece(1,2) safe)
qed

lemma cookie_value_single:
  assumes safe: "cookie_safe n" "cookie_safe v" and hs: "header_str hs ''cookie'' = Some (cookie_header [(n, v)])"
  shows "cookie_value hs n = Some v"
  using cookie_piece(1,3) [OF safe] by (simp add: cookie_value_def hs split_on_none)

lemma cookie_names_safe: "cookie_safe (session_cookie_name st)" "cookie_safe (csrf_cookie_name st)"
  "session_cookie_name st \<noteq> csrf_cookie_name st"
  by (simp_all add: session_cookie_name_def csrf_cookie_name_def cookie_safe_def token_char_def ascii_alnum_def)

text \<open>The headers of a request that returns the login's cookies and its CSRF token.\<close>

definition browser_headers :: "auth_settings \<Rightarrow> string \<Rightarrow> string \<Rightarrow> headers" where
  "browser_headers st session_token csrf_token =
     [(''cookie'', cookie_header [(session_cookie_name st, session_token), (csrf_cookie_name st, csrf_token)]),
      (''x-csrf-token'', csrf_token)]"

lemma visible_safe:
  "cookie_safe v \<Longrightarrow>
   list_all (\<lambda>c. (32 \<le> (of_char c :: nat) \<and> (of_char c :: nat) < 127) \<or> (of_char c :: nat) = 9) v"
  by (auto simp: cookie_safe_def list_all_iff dest: token_char_props)

lemma browser_headers_read:
  assumes "cookie_safe a" and "cookie_safe b"
  shows "cookie_value (browser_headers st a b) (session_cookie_name st) = Some a"
    and "cookie_value (browser_headers st a b) (csrf_cookie_name st) = Some b"
    and "header_str (browser_headers st a b) ''x-csrf-token'' = Some b"
    and "bearer_token (browser_headers st a b) = None"
proof -
  have "header_str (browser_headers st a b) ''cookie'' =
      Some (cookie_header [(session_cookie_name st, a), (csrf_cookie_name st, b)])"
    using assms cookie_names_safe [of st]
    by (simp add: browser_headers_def header_str_def visible_safe)
  then show "cookie_value (browser_headers st a b) (session_cookie_name st) = Some a"
    "cookie_value (browser_headers st a b) (csrf_cookie_name st) = Some b"
    using assms cookie_names_safe [of st] by (blast intro: cookie_value_pair)+
  show "header_str (browser_headers st a b) ''x-csrf-token'' = Some b"
    "bearer_token (browser_headers st a b) = None"
    using visible_safe [OF assms(2)] by (simp_all add: browser_headers_def header_str_def bearer_token_def)
qed

lemma open_session_Inr:
  assumes "open_session x user i sraw craw e now s = Inr s'"
  obtains u r s1 where "u \<in> set (users s)" "usr_id u = usr_id user" "usr_disabled_at u = None"
    "usr_password_hash u = usr_password_hash user" "insert_session r s = Inr s1"
    "s' = add_audit ''login_success'' (Some (usr_id user)) None s1"
    "r = \<lparr>ses_id = i, ses_user = usr_id user, ses_token_digest = sha256 x sraw,
          ses_csrf_digest = sha256 x craw, ses_expires_at = e, ses_revoked_at = None,
          ses_created_at = now, ses_last_seen_at = None\<rparr>"
proof -
  from assms obtain u where "find (\<lambda>u. usr_id u = usr_id user \<and> usr_disabled_at u = None) (users s) = Some u"
    "usr_password_hash u = usr_password_hash user"
    by (auto simp: open_session_def result_simps)
  moreover from this have "u \<in> set (users s)" "usr_id u = usr_id user" "usr_disabled_at u = None"
    by (auto simp: find_Some_iff)
  ultimately show ?thesis using assms that by (auto simp: open_session_def result_simps)
qed

lemmas login_phase_defs = login_def login_check_def login_verify_def login_conclude_def

lemma login_Inr:
  assumes "login x st env email pw (bs, s) = ((bs', s'), Inr resp)"
  obtains u where "snd (retry_after_at (identity_digest x (to_lowercase x (trim email))) (le_checked_at env) bs) = None"
    "u \<in> set (users s)" "sql_lower x (usr_email u) = to_lowercase x (trim email)" "usr_disabled_at u = None"
    "valid_email (to_lowercase x (trim email))"
    "hash_parses x (usr_password_hash u)" "verify_hash x (usr_password_hash u) pw"
    "login_verified x st env u (le_between env s) = (s', Inr resp)"
proof -
  let ?e = "to_lowercase x (trim email)"
  let ?f = "find (\<lambda>u. sql_lower x (usr_email u) = ?e \<and> usr_disabled_at u = None) (users s)"
  obtain bs1 ra where ra: "retry_after_at (identity_digest x ?e) (le_checked_at env) bs = (bs1, ra)"
    by (cases "retry_after_at (identity_digest x ?e) (le_checked_at env) bs")
  from assms ra have "ra = None" by (auto simp: login_phase_defs Let_def split: option.splits)
  with assms ra have v: "valid_email ?e"
      "verify_login_password x (le_dummy_hash env) (map_option usr_password_hash ?f) pw"
    by (auto simp: login_phase_defs Let_def split: if_splits)
  then obtain u where u: "?f = Some u" by (auto simp: verify_login_password_def Let_def)
  then have "u \<in> set (users s)" "sql_lower x (usr_email u) = ?e" "usr_disabled_at u = None"
    by (auto simp: find_Some_iff)
  moreover have "hash_parses x (usr_password_hash u)" "verify_hash x (usr_password_hash u) pw"
    using v(2) u by (auto simp: verify_login_password_def Let_def split: if_splits)
  moreover have "login_verified x st env u (le_between env s) = (s', Inr resp)"
    using assms ra \<open>ra = None\<close> v u by (auto simp: login_phase_defs Let_def split: if_splits prod.splits)
  ultimately show ?thesis using that ra \<open>ra = None\<close> v(1) by simp
qed

lemma login_verified_Inr:
  assumes "login_verified x st env u s = (s', Inr resp)"
  obtains sraw craw e where "le_session_raw env = Some sraw" "le_csrf_raw env = Some craw"
    "session_expiry (session_ttl_seconds st) (le_now env) = Inr e"
    "open_session x u (le_session_id env) sraw craw e (le_now env) s = Inr s'"
    "resp = \<lparr>lr_user = public_user u, lr_csrf_token = b64_encode x craw,
             lr_cookies = login_cookies st (b64_encode x sraw) (b64_encode x craw)\<rparr>"
  using assms that
  by (auto simp: login_verified_def Let_def result_simps secure_token_def split: sum.splits)

text \<open>
  A login succeeds only for an email address that is not blocked, an enabled account of
  that address and a password that verifies against its hash; and the session is stored only
  if, when it commits, the account is still enabled and its hash is still the one verified, so
  that a concurrent password change or lock wins.
\<close>

lemma login_sound:
  assumes "login x st env email pw (bs, s) = ((bs', s'), Inr resp)"
  shows "\<exists>u v. u \<in> set (users s) \<and> sql_lower x (usr_email u) = to_lowercase x (trim email)
    \<and> usr_disabled_at u = None \<and> verify_hash x (usr_password_hash u) pw
    \<and> snd (retry_after_at (identity_digest x (to_lowercase x (trim email))) (le_checked_at env) bs) = None
    \<and> v \<in> set (users (le_between env s)) \<and> usr_id v = usr_id u \<and> usr_disabled_at v = None
    \<and> usr_password_hash v = usr_password_hash u
    \<and> map ses_user (sessions s') = map ses_user (sessions (le_between env s)) @ [usr_id u]"
proof -
  obtain u where u: "snd (retry_after_at (identity_digest x (to_lowercase x (trim email))) (le_checked_at env) bs) = None"
    "u \<in> set (users s)" "sql_lower x (usr_email u) = to_lowercase x (trim email)" "usr_disabled_at u = None"
    "verify_hash x (usr_password_hash u) pw" "login_verified x st env u (le_between env s) = (s', Inr resp)"
    using login_Inr [OF assms] by metis
  obtain sraw craw e where
    o: "open_session x u (le_session_id env) sraw craw e (le_now env) (le_between env s) = Inr s'"
    using login_verified_Inr [OF u(6)] by metis
  obtain v r s1 where v: "v \<in> set (users (le_between env s))" "usr_id v = usr_id u" "usr_disabled_at v = None"
    "usr_password_hash v = usr_password_hash u" "insert_session r (le_between env s) = Inr s1"
    "s' = add_audit ''login_success'' (Some (usr_id u)) None s1" "ses_user r = usr_id u"
    using open_session_Inr [OF o] by (metis session_row.select_convs(2))
  have "map ses_user (sessions s') = map ses_user (sessions (le_between env s)) @ [usr_id u]"
    using insert_session_fresh(1) [OF v(5)] v(7) by (simp add: v(6) add_audit_def)
  with u v show ?thesis by blast
qed

text \<open>
  What a browser makes of the answer to a login: the pair in front of the first semicolon of
  every \<open>Set-Cookie\<close> header goes into the \<open>Cookie\<close> header of its later requests, and
  the frontend adds the CSRF token of the response body.
\<close>

definition set_cookie_pair :: "string \<Rightarrow> string" where
  "set_cookie_pair c = takeWhile (\<lambda>b. b \<noteq> CHR '';'') c"

fun joined_cookies :: "string list \<Rightarrow> string" where
  "joined_cookies [] = ''''"
| "joined_cookies [c] = c"
| "joined_cookies (c # cs) = c @ ''; '' @ joined_cookies cs"

definition follow_up_headers :: "login_response \<Rightarrow> headers" where
  "follow_up_headers resp =
     [(''cookie'', joined_cookies (map set_cookie_pair (lr_cookies resp))),
      (''x-csrf-token'', lr_csrf_token resp)]"

lemma set_cookie_pair_add:
  assumes "cookie_safe n" and "cookie_safe v"
  shows "set_cookie_pair (add_cookie n v http_only max_age secure strict) = n @ ''='' @ v"
proof -
  have "\<forall>c \<in> set (n @ ''='' @ v). c \<noteq> CHR '';''" using cookie_piece(3) [OF assms] by auto
  then have "takeWhile (\<lambda>b. b \<noteq> CHR '';'') ((n @ ''='' @ v) @ CHR '';'' # r) = n @ ''='' @ v" for r
    by (subst takeWhile_append2) auto
  then show ?thesis by (simp add: set_cookie_pair_def add_cookie_def)
qed

lemma follow_up_login_cookies:
  assumes "cookie_safe a" and "cookie_safe b" and "lr_cookies resp = login_cookies st a b" and "lr_csrf_token resp = b"
  shows "follow_up_headers resp = browser_headers st a b"
  using assms cookie_names_safe
  by (simp add: follow_up_headers_def browser_headers_def login_cookies_def set_cookie_pair_add)

text \<open>
  C9. Logging in works: a browser that sends back the cookies the answer to a successful login
  sets is authenticated as the account and the session just opened, until the session expires,
  and passes the CSRF check with the token of the response.
\<close>

theorem login_roundtrip:
  assumes codec: "token_codec x" and log: "login x st env email pw (bs, s) = ((bs', s'), Inr resp)"
    and raws: "le_session_raw env = Some sraw" "length sraw = 32" "le_csrf_raw env = Some craw" "length craw = 32"
    and keys: "distinct (map usr_id (users (le_between env s)))"
    and time: "session_expiry (session_ttl_seconds st) (le_now env) = Inr e" "now' < e"
    and u: "find_row usr_id (ur_id (lr_user resp)) (users s') = Some u"
    and path: "usr_must_change_password u \<longrightarrow> allowed_while_changing_password path"
  shows "\<exists>user s2. from_request_parts x st now' m path (follow_up_headers resp) None s' = (s2, Inr user)
    \<and> au_id user = ur_id (lr_user resp) \<and> au_session user = le_session_id env
    \<and> require_csrf x (follow_up_headers resp) user st"
proof -
  obtain acc where lv: "login_verified x st env acc (le_between env s) = (s', Inr resp)" using login_Inr [OF log] by metis
  obtain sr cr ex where lv': "le_session_raw env = Some sr" "le_csrf_raw env = Some cr"
    "session_expiry (session_ttl_seconds st) (le_now env) = Inr ex"
    "open_session x acc (le_session_id env) sr cr ex (le_now env) (le_between env s) = Inr s'"
    "resp = \<lparr>lr_user = public_user acc, lr_csrf_token = b64_encode x cr,
             lr_cookies = login_cookies st (b64_encode x sr) (b64_encode x cr)\<rparr>"
    by (rule login_verified_Inr [OF lv]) blast
  then have os: "open_session x acc (le_session_id env) sraw craw e (le_now env) (le_between env s) = Inr s'"
    and resp: "ur_id (lr_user resp) = usr_id acc" "lr_csrf_token resp = b64_encode x craw"
      "lr_cookies resp = login_cookies st (b64_encode x sraw) (b64_encode x craw)"
    using raws time(1) by (simp_all add: public_user_def)
  obtain v r s1 where o: "v \<in> set (users (le_between env s))" "usr_id v = usr_id acc" "usr_disabled_at v = None"
    "insert_session r (le_between env s) = Inr s1"
    "s' = add_audit ''login_success'' (Some (usr_id acc)) None s1"
    "r = \<lparr>ses_id = le_session_id env, ses_user = usr_id acc, ses_token_digest = sha256 x sraw,
          ses_csrf_digest = sha256 x craw, ses_expires_at = e, ses_revoked_at = None,
          ses_created_at = le_now env, ses_last_seen_at = None\<rparr>"
    by (rule open_session_Inr [OF os]) blast
  note fresh = insert_session_fresh [OF o(4)]
  have s': "sessions s' = sessions (le_between env s) @ [r]" "users s' = users (le_between env s)"
    by (simp_all add: o(5) add_audit_def fresh(1))
  have uv1: "find_row usr_id (usr_id acc) (users s') = Some v"
    using o(1,2) keys by (simp add: s' find_row_iff)
  moreover have "u = v" using u uv1 by (simp add: resp)
  ultimately have uv: "find_row usr_id (usr_id acc) (users s') = Some v" "u = v" .
  let ?P = "\<lambda>q. ses_token_digest q = sha256 x sraw \<and> session_live now' s' q"
  have "\<not> ?P q" if "q \<in> set (sessions (le_between env s))" for q
    using that fresh(3) o(6) by (metis imageI session_row.select_convs(3))
  moreover have "?P r" using time(2) uv o(3) by (simp add: o(6) session_live_def)
  ultimately have "find ?P (sessions s') = Some r" unfolding s'(1) by (intro find_append_new) auto
  then have su: "session_user x now' (b64_encode x sraw) s' = Some (r, v)"
    using codec raws uv(1) by (simp add: session_user_def token_codec_def) (simp add: o(6))
  have safe: "cookie_safe (b64_encode x sraw)" "cookie_safe (b64_encode x craw)"
    using codec raws by (simp_all add: token_codec_def cookie_safe_def)
  note hs = follow_up_login_cookies [OF safe resp(3,2)]
  note rd = browser_headers_read [OF safe, of st]
  have csrf: "require_csrf x (follow_up_headers resp) user st" if "au_csrf_digest user = sha256 x craw" "au_api_key user = None"
      "au_device user = None" for user
    using codec raws that by (simp add: require_csrf_def hs resp rd token_codec_def)
  show ?thesis
    using path rd su csrf uv(2) o(2)
    by (auto simp: from_request_parts_def hs resp Let_def o(6))
qed

subsection \<open>Guessing is bounded\<close>

text \<open>
  Logins in any interleaving of their phases: the requests in flight with what they carry
  between the phases, next to the limiter and the database, and the transactions of all
  other handlers of this theory.
\<close>

datatype login_flight = Checked ustr ustr | Compared login_attempt

record login_pool =
  pool_buckets :: buckets
  pool_db :: db
  pool_flights :: "(login_env \<times> login_flight) list"

datatype login_event =
    LoginCheck login_env ustr ustr
  | LoginVerify nat
  | LoginConclude nat
  | LoginOther session_event

definition flight_at :: "login_pool \<Rightarrow> nat \<Rightarrow> (login_env \<times> login_flight) option" where
  "flight_at p i = (if i < length (pool_flights p) then Some (pool_flights p ! i) else None)"

fun login_step :: "externals \<Rightarrow> auth_settings \<Rightarrow> login_event \<Rightarrow> login_pool \<Rightarrow> login_pool" where
  "login_step x st (LoginCheck env raw_email password) p =
     (case login_check x env raw_email (pool_buckets p) of
        (bs, Inl _) \<Rightarrow> p\<lparr>pool_buckets := bs\<rparr>
      | (bs, Inr email) \<Rightarrow> p\<lparr>pool_buckets := bs, pool_flights := pool_flights p @ [(env, Checked email password)]\<rparr>)"
| "login_step x st (LoginVerify i) p =
     (case flight_at p i of
        Some (env, Checked email password) \<Rightarrow>
          p\<lparr>pool_flights := (pool_flights p)[i := (env, Compared (login_verify x env email password (pool_db p)))]\<rparr>
      | _ \<Rightarrow> p)"
| "login_step x st (LoginConclude i) p =
     (case flight_at p i of
        Some (env, Compared a) \<Rightarrow>
          (let w = fst (login_conclude x st env a (pool_buckets p, pool_db p))
           in p\<lparr>pool_buckets := fst w, pool_db := snd w,
                pool_flights := take i (pool_flights p) @ drop (Suc i) (pool_flights p)\<rparr>)
      | _ \<Rightarrow> p)"
| "login_step x st (LoginOther e) p = p\<lparr>pool_db := session_step x st e (pool_db p)\<rparr>"

text \<open>A request that runs its phases without interference is the handler.\<close>

lemma login_phases_in_turn:
  assumes "le_meanwhile env = id" and "le_between env = id" and "pool_flights p = []"
    and "snd (login_check x env email (pool_buckets p)) = Inr e"
  shows "fold (login_step x st) [LoginCheck env email pw, LoginVerify 0, LoginConclude 0] p
    = (let w = fst (login x st env email pw (pool_buckets p, pool_db p)) in p\<lparr>pool_buckets := fst w, pool_db := snd w\<rparr>)"
  using assms by (simp add: login_def flight_at_def split_beta Let_def)

text \<open>How many passwords a run compares for the identity \<open>key\<close>, and how many of its requests
  are in flight, before or after their comparison.\<close>

definition before_comparison :: "externals \<Rightarrow> bytes \<Rightarrow> login_env \<times> login_flight \<Rightarrow> bool" where
  "before_comparison x key f = (case snd f of Checked email _ \<Rightarrow> identity_digest x email = key | Compared _ \<Rightarrow> False)"

definition after_comparison :: "externals \<Rightarrow> bytes \<Rightarrow> login_env \<times> login_flight \<Rightarrow> bool" where
  "after_comparison x key f = (case snd f of Checked _ _ \<Rightarrow> False | Compared a \<Rightarrow> identity_digest x (la_email a) = key)"

definition in_flight :: "externals \<Rightarrow> bytes \<Rightarrow> login_pool \<Rightarrow> nat" where
  "in_flight x key p = count_where (before_comparison x key) (pool_flights p)
     + count_where (after_comparison x key) (pool_flights p)"

definition compares :: "externals \<Rightarrow> bytes \<Rightarrow> login_event \<Rightarrow> login_pool \<Rightarrow> bool" where
  "compares x key e p = (case e of
     LoginVerify i \<Rightarrow> (case flight_at p i of Some f \<Rightarrow> before_comparison x key f | None \<Rightarrow> False) | _ \<Rightarrow> False)"

fun compared :: "externals \<Rightarrow> auth_settings \<Rightarrow> bytes \<Rightarrow> login_event list \<Rightarrow> login_pool \<Rightarrow> nat" where
  "compared x st key [] p = 0"
| "compared x st key (e # es) p = (if compares x key e p then 1 else 0) + compared x st key es (login_step x st e p)"

text \<open>
  The runs the bound is about: every clock reading lies in the window that begins at
  \<open>t0\<close>, no request concludes with a right password for the identity, at most \<open>k\<close> of its
  requests are in flight after each step, and failures are recorded only for the identities
  \<open>ks\<close>, few enough that the limiter evicts none.
\<close>

definition in_window :: "instant \<Rightarrow> instant \<Rightarrow> bool" where
  "in_window t0 t \<longleftrightarrow> t0 \<le> t \<and> t < t0 + LOGIN_FAILURE_WINDOW"

fun guess_event :: "externals \<Rightarrow> bytes \<Rightarrow> bytes list \<Rightarrow> instant \<Rightarrow> login_event \<Rightarrow> login_pool \<Rightarrow> bool" where
  "guess_event x key ks t0 (LoginCheck env _ _) p = in_window t0 (le_checked_at env)"
| "guess_event x key ks t0 (LoginConclude i) p =
     (case flight_at p i of
        Some (env, Compared a) \<Rightarrow>
          (if la_accepted a then identity_digest x (la_email a) \<noteq> key
           else in_window t0 (le_failed_at env) \<and> identity_digest x (la_email a) \<in> set ks)
      | _ \<Rightarrow> True)"
| "guess_event x key ks t0 _ p = True"

fun guessing_run :: "externals \<Rightarrow> auth_settings \<Rightarrow> bytes \<Rightarrow> bytes list \<Rightarrow> nat \<Rightarrow> instant \<Rightarrow> login_event list
    \<Rightarrow> login_pool \<Rightarrow> bool" where
  "guessing_run x st key ks k t0 [] p = (in_flight x key p \<le> k)"
| "guessing_run x st key ks k t0 (e # es) p =
     (in_flight x key p \<le> k \<and> guess_event x key ks t0 e p \<and> guessing_run x st key ks k t0 es (login_step x st e p))"

definition since :: "instant \<Rightarrow> instant list \<Rightarrow> nat" where
  "since t0 ts = length (filter (\<lambda>t. t0 \<le> t) ts)"

lemma since_le_recent:
  "t0 \<le> now \<Longrightarrow> now < t0 + LOGIN_FAILURE_WINDOW \<Longrightarrow> since t0 ts \<le> length (recent now ts)"
proof (induction ts)
  case (Cons t ts)
  then show ?case by (auto simp: since_def recent_def saturating_duration_since_def)
qed (simp add: since_def)

lemma since_recent:
  "t0 \<le> now \<Longrightarrow> now < t0 + LOGIN_FAILURE_WINDOW \<Longrightarrow> since t0 (recent now ts) = since t0 ts"
proof (induction ts)
  case (Cons t ts)
  then show ?case by (auto simp: since_def recent_def saturating_duration_since_def)
qed (simp add: since_def recent_def)

lemma not_blocked_few: "blocked_for now h = None \<Longrightarrow> length (recent now h) < 10"
  by (auto simp: blocked_for_def LOGIN_FAILURE_LIMIT_def split: list.splits if_splits)

lemma guessing_run_flights: "guessing_run x st key ks k t0 es p \<Longrightarrow> in_flight x key p \<le> k"
  by (cases es) simp_all

definition pool_ok :: "bytes list \<Rightarrow> login_pool \<Rightarrow> bool" where
  "pool_ok ks p \<longleftrightarrow> limiter_ok (pool_buckets p) \<and> fst ` set (pool_buckets p) \<subseteq> set ks
     \<and> length ks \<le> MAX_LOGIN_IDENTITIES"

definition guesses :: "externals \<Rightarrow> bytes \<Rightarrow> instant \<Rightarrow> login_pool \<Rightarrow> nat" where
  "guesses x key t0 p = since t0 (failures (pool_buckets p) key) + count_where (after_comparison x key) (pool_flights p)"

lemma flight_at_Some: "flight_at p i = Some f \<Longrightarrow> i < length (pool_flights p) \<and> pool_flights p ! i = f"
  by (simp add: flight_at_def split: if_splits)

lemma since_prune:
  "limiter_ok bs \<Longrightarrow> in_window t0 t \<Longrightarrow> since t0 (failures (prune_buckets bs t) key) = since t0 (failures bs key)"
  by (simp add: failures_prune limiter_ok_def since_recent in_window_def)

text \<open>A failure of any identity of \<open>ks\<close> adds itself and loses none of the window.\<close>

lemma record_failure_since:
  assumes ok: "limiter_ok bs" "fst ` set bs \<subseteq> set ks" "length ks \<le> MAX_LOGIN_IDENTITIES" and k: "k' \<in> set ks" and t: "in_window t0 t"
  shows "since t0 (failures (record_failure_at k' t bs) key) = since t0 (failures bs key) + (if k' = key then 1 else 0)"
    and "fst ` set (record_failure_at k' t bs) \<subseteq> set ks"
proof -
  let ?b = "prune_buckets bs t"
  have keys: "fst ` set ?b \<subseteq> set ks" using ok(2) keys_prune [of bs t] by blast
  then have "\<not> (bucket_get ?b k' = None \<and> MAX_LOGIN_IDENTITIES \<le> length ?b)"
    using no_eviction [OF prune_ok [OF ok(1)] _ ok(3) _ k, of t] by auto
  then have r: "record_failure_at k' t bs = bucket_push k' t ?b" by (auto simp: record_failure_at_def Let_def)
  then show "fst ` set (record_failure_at k' t bs) \<subseteq> set ks" using keys k by (simp add: keys_push)
  have "since t0 (ts @ [t]) = Suc (since t0 ts)" for ts using t by (simp add: since_def in_window_def)
  then show "since t0 (failures (record_failure_at k' t bs) key) = since t0 (failures bs key) + (if k' = key then 1 else 0)"
    using since_prune [OF ok(1) t] by (simp add: r failures_push)
qed

lemma retry_after_prunes: "fst (retry_after_at k now bs) = prune_buckets bs now"
  by (simp add: retry_after_at_def Let_def)

text \<open>Only a request the limiter lets through joins those in flight, and then fewer than ten
  failures of the window are recorded.\<close>

lemma guess_check:
  assumes ok: "pool_ok ks p" and t: "in_window t0 (le_checked_at env)" and p': "p' = login_step x st (LoginCheck env email pw) p"
  shows "pool_ok ks p' \<and> since t0 (failures (pool_buckets p') key) = since t0 (failures (pool_buckets p) key)
    \<and> count_where (after_comparison x key) (pool_flights p') = count_where (after_comparison x key) (pool_flights p)
    \<and> (count_where (before_comparison x key) (pool_flights p') = count_where (before_comparison x key) (pool_flights p)
       \<or> (count_where (before_comparison x key) (pool_flights p') = Suc (count_where (before_comparison x key) (pool_flights p))
          \<and> since t0 (failures (pool_buckets p) key) < 10))"
proof -
  let ?e = "to_lowercase x (trim email)" let ?bs = "pool_buckets p" let ?t = "le_checked_at env"
  have lim: "limiter_ok ?bs" using ok by (simp add: pool_ok_def)
  have b: "pool_buckets p' = prune_buckets ?bs ?t"
    unfolding p' by (simp add: login_check_def split_beta Let_def retry_after_prunes split: option.splits)
  have ok': "pool_ok ks p'"
    using ok keys_prune [of ?bs ?t] prune_ok [OF lim] by (auto simp: pool_ok_def b)
  have few: "since t0 (failures ?bs k) < 10" if "snd (retry_after_at k ?t ?bs) = None" for k
    using that retry_after_blocked_for [OF lim] not_blocked_few since_le_recent t
    by (metis in_window_def le_less_trans)
  show ?thesis
  proof (cases "snd (retry_after_at (identity_digest x ?e) ?t ?bs)")
    case (Some r)
    then have "pool_flights p' = pool_flights p" unfolding p' by (simp add: login_check_def split_beta Let_def)
    then show ?thesis using ok' by (simp add: b since_prune [OF lim t])
  next
    case None
    then have "pool_flights p' = pool_flights p @ [(env, Checked ?e pw)]"
      unfolding p' by (simp add: login_check_def split_beta Let_def)
    then show ?thesis
      using ok' few [OF None] by (auto simp: b since_prune [OF lim t] count_where_def
          before_comparison_def after_comparison_def)
  qed
qed

lemma guess_verify:
  assumes "flight_at p i = Some (env, Checked email pw)" and p': "p' = login_step x st (LoginVerify i) p"
  shows "pool_buckets p' = pool_buckets p"
    and "count_where (after_comparison x key) (pool_flights p')
      = count_where (after_comparison x key) (pool_flights p) + (if identity_digest x email = key then 1 else 0)"
    and "count_where (before_comparison x key) (pool_flights p)
      = count_where (before_comparison x key) (pool_flights p') + (if identity_digest x email = key then 1 else 0)"
proof -
  note i = flight_at_Some [OF assms(1)]
  let ?f = "(env, Compared (login_verify x env email pw (pool_db p)))"
  have fl: "pool_flights p' = (pool_flights p)[i := ?f]" and "pool_buckets p' = pool_buckets p"
    using assms(1) unfolding p' by simp_all
  then show "pool_buckets p' = pool_buckets p" by simp
  have "la_email (login_verify x env email pw (pool_db p)) = email" by (simp add: login_verify_def Let_def)
  then show "count_where (after_comparison x key) (pool_flights p')
      = count_where (after_comparison x key) (pool_flights p) + (if identity_digest x email = key then 1 else 0)"
    "count_where (before_comparison x key) (pool_flights p)
      = count_where (before_comparison x key) (pool_flights p') + (if identity_digest x email = key then 1 else 0)"
    using i count_where_nth(1) [of i "pool_flights p"] count_where_nth(2) [of i "pool_flights p" _ ?f]
    by (simp_all add: fl before_comparison_def after_comparison_def)
qed

lemma guess_conclude:
  assumes ok: "pool_ok ks p" and f: "flight_at p i = Some (env, Compared a)" and e: "guess_event x key ks t0 (LoginConclude i) p"
    and p': "p' = login_step x st (LoginConclude i) p"
  shows "pool_ok ks p' \<and> guesses x key t0 p' = guesses x key t0 p
    \<and> count_where (before_comparison x key) (pool_flights p') = count_where (before_comparison x key) (pool_flights p)"
proof -
  let ?k = "identity_digest x (la_email a)" let ?bs = "pool_buckets p"
  have lim: "limiter_ok ?bs" "fst ` set ?bs \<subseteq> set ks" "length ks \<le> MAX_LOGIN_IDENTITIES" using ok by (simp_all add: pool_ok_def)
  have fl: "pool_flights p' = take i (pool_flights p) @ drop (Suc i) (pool_flights p)"
    using f unfolding p' by (simp add: Let_def)
  note i = flight_at_Some [OF f]
  have before: "count_where (before_comparison x key) (pool_flights p') = count_where (before_comparison x key) (pool_flights p)"
    using i count_where_nth(1) [of i "pool_flights p" "before_comparison x key"] by (simp add: fl before_comparison_def)
  have after: "count_where (after_comparison x key) (pool_flights p)
      = count_where (after_comparison x key) (pool_flights p') + (if ?k = key then 1 else 0)"
    using i count_where_nth(1) [of i "pool_flights p" "after_comparison x key"] by (simp add: fl after_comparison_def)
  show ?thesis
  proof (cases "la_accepted a")
    case True
    then have "?k \<noteq> key" using e f by simp
    moreover have "pool_buckets p' = ?bs \<or> pool_buckets p' = clear ?k ?bs"
      using f True unfolding p' by (auto simp: login_conclude_def Let_def split: option.splits prod.splits)
    moreover have "fst ` set (clear ?k ?bs) \<subseteq> set ks" using lim(2) by (auto simp: clear_def keys_remove)
    moreover have "failures (clear ?k ?bs) key = failures ?bs key"
      using \<open>?k \<noteq> key\<close> by (simp add: clear_def failures_remove)
    ultimately have "failures (pool_buckets p') key = failures ?bs key" "pool_ok ks p'"
      using lim clear_ok [OF lim(1), of ?k] by (elim disjE; simp add: pool_ok_def)+
    then show ?thesis using before after \<open>?k \<noteq> key\<close> by (simp add: guesses_def)
  next
    case False
    then have b: "pool_buckets p' = record_failure_at ?k (le_failed_at env) ?bs"
      using f unfolding p' by (simp add: login_conclude_def Let_def)
    have "in_window t0 (le_failed_at env)" "?k \<in> set ks" using e f False by simp_all
    then show ?thesis
      using record_failure_since [OF lim, of ?k t0 "le_failed_at env"] record_failure_ok [OF lim(1)] lim before after
      by (simp add: pool_ok_def guesses_def b)
  qed
qed

lemma guesses_remaining:
  assumes "pool_ok ks p" and "guessing_run x st key ks k t0 es p"
  shows "compared x st key es p
    \<le> max (count_where (before_comparison x key) (pool_flights p)) (9 + k - guesses x key t0 p)"
  using assms
proof (induction es arbitrary: p)
  case Nil
  then show ?case by simp
next
  case (Cons e es)
  let ?p' = "login_step x st e p"
  let ?n = "\<lambda>p. count_where (before_comparison x key) (pool_flights p)"
  let ?g = "guesses x key t0"
  have ev: "guess_event x key ks t0 e p" and run: "guessing_run x st key ks k t0 es ?p'" using Cons.prems(2) by simp_all
  have room: "in_flight x key ?p' \<le> k" by (rule guessing_run_flights [OF run])
  have step: "compared x st key es ?p' \<le> max (?n ?p') (9 + k - ?g ?p')" if "pool_ok ks ?p'"
    by (rule Cons.IH [OF that run])
  show ?case
  proof (cases e)
    case (LoginCheck env email pw)
    then have t: "in_window t0 (le_checked_at env)" using ev by simp
    note c = guess_check [OF Cons.prems(1) t refl, of x st email pw key, folded LoginCheck]
    have "?n ?p' \<le> max (?n p) (9 + k - ?g p)"
      using c room unfolding in_flight_def guesses_def by linarith
    moreover have "?g ?p' = ?g p" using c by (simp add: guesses_def)
    ultimately show ?thesis using step c by (simp add: compares_def LoginCheck)
  next
    case (LoginVerify i)
    show ?thesis
    proof (cases "\<exists>env email pw. flight_at p i = Some (env, Checked email pw)")
      case True
      then obtain env email pw where f: "flight_at p i = Some (env, Checked email pw)" by blast
      note v = guess_verify [where x = x and st = st, OF f refl, folded LoginVerify]
      have ok: "pool_ok ks ?p'" using Cons.prems(1) by (simp add: pool_ok_def v(1))
      have "?g ?p' = ?g p + (if identity_digest x email = key then 1 else 0)" by (simp add: guesses_def v)
      moreover have "compares x key e p \<longleftrightarrow> identity_digest x email = key"
        by (simp add: compares_def LoginVerify f before_comparison_def)
      ultimately show ?thesis using step [OF ok] v(3) [of key] by (auto simp: max_def split: if_splits)
    next
      case False
      then have same: "?p' = p" and "\<not> compares x key e p"
        by (auto simp: LoginVerify compares_def before_comparison_def split: option.splits login_flight.splits)
      then show ?thesis using step Cons.prems(1) by simp
    qed
  next
    case (LoginConclude i)
    show ?thesis
    proof (cases "\<exists>env a. flight_at p i = Some (env, Compared a)")
      case True
      then obtain env a where f: "flight_at p i = Some (env, Compared a)" by blast
      note c = guess_conclude [OF Cons.prems(1) f ev [unfolded LoginConclude] refl, of st, folded LoginConclude]
      show ?thesis using step c by (simp add: compares_def LoginConclude)
    next
      case False
      then have "?p' = p" by (auto simp: LoginConclude split: option.splits login_flight.splits)
      then show ?thesis using step Cons.prems(1) by (simp add: compares_def LoginConclude)
    qed
  next
    case (LoginOther s)
    then show ?thesis using step Cons.prems(1) by (simp add: compares_def pool_ok_def guesses_def)
  qed
qed

text \<open>
  C10. Password guessing is bounded, in every interleaving of the phases of concurrent logins
  with one another and with other transactions: while no request for an address
  succeeds and no bucket is evicted (at most \<open>MAX_LOGIN_IDENTITIES\<close> identities fail), fewer
  than \<open>10 + k\<close> passwords are compared for the address within fifteen minutes, where \<open>k\<close>
  is the largest number of its requests in flight at a time. One request at a time gives the
  documented ten; the limiter alone does not bound \<open>k\<close>, because it counts a failure only
  after the comparison. A success clears the bucket and starts a new count.
\<close>

theorem login_guesses_limited:
  assumes "limiter_ok (pool_buckets p)" and "fst ` set (pool_buckets p) \<subseteq> set ks"
    and "length ks \<le> MAX_LOGIN_IDENTITIES"
    and "guessing_run x st (identity_digest x (to_lowercase x (trim email))) ks k t0 es p"
  shows "compared x st (identity_digest x (to_lowercase x (trim email))) es p < 10 + k"
proof -
  let ?key = "identity_digest x (to_lowercase x (trim email))"
  have "pool_ok ks p" using assms(1-3) by (simp add: pool_ok_def)
  from guesses_remaining [OF this assms(4)] guessing_run_flights [OF assms(4)]
  show ?thesis by (auto simp: in_flight_def)
qed

section \<open>The first account\<close>

lemma users_bootstrap_audit [simp]: "users (bootstrap_audit s) = users s"
  by (auto simp: bootstrap_audit_def add_audit_def split: list.splits)

text \<open>
  Starting the service creates at most one owner: when the bootstrap succeeds there is an
  owner, it added at most one account, the address and password of which are acceptable, and
  running it again, with any credentials, changes nothing.
\<close>

lemma bootstrap_owner_once:
  assumes b: "bootstrap_owner x now i salt creds s = (s1, Inr ())"
  shows "list_ex (\<lambda>u. usr_role u = Owner) (users s1)
    \<and> bootstrap_owner x now' i' salt' creds' s1 = (s1, Inr ())
    \<and> (users s1 = users s \<or> (\<exists>u email pw. users s1 = users s @ [u] \<and> creds = Some (email, pw)
         \<and> usr_email u = to_lowercase x (trim email) \<and> valid_email (usr_email u) \<and> valid_password pw
         \<and> hash_password x salt pw = Some (usr_password_hash u) \<and> usr_disabled_at u = None))"
proof (cases "list_ex (\<lambda>u. usr_role u = Owner) (users s)")
  case True
  with b show ?thesis by (simp add: bootstrap_owner_def)
next
  case False
  with b obtain email pw hash s2 where c: "creds = Some (email, pw)" "valid_email (to_lowercase x (trim email))"
      "valid_password pw" "hash_password x salt pw = Some hash"
    and ins: "insert_user (sql_lower x)
        \<lparr>usr_id = i, usr_email = to_lowercase x (trim email), usr_password_hash = hash, usr_role = Owner,
         usr_created_at = now, usr_updated_at = now, usr_managed_by = None, usr_quota_bytes = None,
         usr_disabled_at = None, usr_must_change_password = False\<rparr> s = Inr s2"
    and s1: "users s1 = users s2"
    by (auto simp: bootstrap_owner_def result_simps Let_def split: sum.splits)
  from ins have s2: "users s2 = users s @
      [\<lparr>usr_id = i, usr_email = to_lowercase x (trim email), usr_password_hash = hash, usr_role = Owner,
        usr_created_at = now, usr_updated_at = now, usr_managed_by = None, usr_quota_bytes = None,
        usr_disabled_at = None, usr_must_change_password = False\<rparr>]"
    by (auto simp: insert_user_def result_simps)
  then have o: "list_ex (\<lambda>u. usr_role u = Owner) (users s1)" by (simp add: s1)
  moreover from o have "bootstrap_owner x now' i' salt' creds' s1 = (s1, Inr ())"
    by (simp add: bootstrap_owner_def)
  ultimately show ?thesis using c s2 s1 by auto
qed

section \<open>An example run\<close>

definition demo_env :: login_env where
  "demo_env = \<lparr>le_checked_at = 5, le_failed_at = 6, le_now = 7, le_dummy_hash = ''d'',
     le_session_raw = Some zero_raw, le_csrf_raw = Some zero_raw, le_session_id = 11,
     le_meanwhile = id, le_between = id\<rparr>"

definition demo_store :: db where
  "demo_store = empty_db\<lparr>users := [demo_user]\<rparr>"

lemma demo_digest: "sha256 sample_externals zero_raw = zero_raw"
  by (simp add: sample_sha256 zero_raw_def)

lemma zero_raw_length: "length zero_raw = 32"
  by (simp add: zero_raw_def)

lemma sample_text: "to_lowercase sample_externals = to_ascii_lowercase" "sql_lower sample_externals = to_ascii_lowercase"
  "hash_parses sample_externals h" "verify_hash sample_externals h p = (utf8_encode p = h)"
  "hash_password sample_externals salt p = Some (utf8_encode p)"
  by (simp_all add: sample_externals_def)

lemma demo_email: "to_ascii_lowercase (trim (lit '' A@b.c'')) = lit ''a@b.c''"
  "to_ascii_lowercase (lit ''a@b.c'') = lit ''a@b.c''" "valid_email (lit ''a@b.c'')"
  "utf8_encode (lit ''h'') = ''h''" "utf8_encode (lit ''g'') = ''g''"
  by (simp_all add: trim_def trim_by_def lit_def is_whitespace_def to_ascii_lowercase_def ascii_lower_def
      valid_email_def text_len_def utf8_len_def utf8_encode_def utf8_char_def) code_simp+

lemma demo_login:
  "\<exists>s'. login sample_externals demo_settings demo_env (lit '' A@b.c'') (lit ''h'') ([], demo_store) =
     (([], s'), Inr \<lparr>lr_user = public_user demo_user, lr_csrf_token = replicate 43 CHR ''A'',
        lr_cookies = login_cookies demo_settings (replicate 43 CHR ''A'') (replicate 43 CHR ''A'')\<rparr>)
     \<and> users s' = [demo_user] \<and> map ses_id (sessions s') = [11]"
proof -
  have "text_len (lit ''h'') \<le> 1024" by (simp add: text_len_def lit_def utf8_len_def)
  moreover have "retry_after_at k t [] = ([], None)" for k t
    by (simp add: retry_after_at_def prune_buckets_def bucket_get_def)
  moreover have "session_expiry 3600 7 = Inr 3600000007"
    by (simp add: session_expiry_def chrono_max_def seconds_def)
  ultimately show ?thesis
    by (simp add: login_phase_defs demo_store_def empty_db_def sample_text demo_email
        demo_user_def verify_login_password_def clear_def bucket_remove_def
        login_verified_def demo_env_def secure_token_def sample_zero demo_settings_def
        open_session_def insert_session_def demo_digest zero_raw_length add_audit_def Let_def)
qed

theorem login_roundtrip_witness:
  "\<exists>s' resp user s2. snd (login sample_externals demo_settings demo_env (lit '' A@b.c'') (lit ''h'') ([], demo_store)) = Inr resp
     \<and> from_request_parts sample_externals demo_settings 8 GET ''/api/drive'' (follow_up_headers resp) None s' = (s2, Inr user)
     \<and> au_id user = 1 \<and> au_session user = 11"
proof -
  from demo_login obtain s' resp where
    l: "login sample_externals demo_settings demo_env (lit '' A@b.c'') (lit ''h'') ([], demo_store) = (([], s'), Inr resp)"
      "users s' = [demo_user]" "ur_id (lr_user resp) = 1"
    by (fastforce simp: public_user_def demo_user_def)
  have x: "session_expiry (session_ttl_seconds demo_settings) (le_now demo_env) = Inr 3600000007"
    by (simp add: session_expiry_def chrono_max_def seconds_def demo_settings_def demo_env_def)
  have e: "le_session_raw demo_env = Some zero_raw" "le_csrf_raw demo_env = Some zero_raw"
    "le_between demo_env demo_store = demo_store" "le_session_id demo_env = 11"
    by (simp_all add: demo_env_def)
  have u: "find_row usr_id (ur_id (lr_user resp)) (users s') = Some demo_user" "\<not> usr_must_change_password demo_user"
    using l by (simp_all add: find_row_def demo_user_def)
  have "distinct (map usr_id (users (le_between demo_env demo_store)))"
    unfolding e by (simp add: demo_store_def)
  then obtain user s2 where "from_request_parts sample_externals demo_settings 8 GET ''/api/drive'' (follow_up_headers resp) None s' = (s2, Inr user)"
    "au_id user = 1" "au_session user = 11"
    using login_roundtrip [OF sample_codec l(1) e(1) zero_raw_length e(2) zero_raw_length _ x _ u(1),
        of 8 "''/api/drive''" GET] l(3) e(4) u(2) by auto
  with l(1) show ?thesis by (metis snd_conv)
qed

definition demo_session :: session_row where
  "demo_session = \<lparr>ses_id = 11, ses_user = 1, ses_token_digest = zero_raw, ses_csrf_digest = zero_raw,
     ses_expires_at = 100, ses_revoked_at = None, ses_created_at = 0, ses_last_seen_at = Some 0\<rparr>"

definition demo_sessions :: db where
  "demo_sessions = demo_store\<lparr>sessions := [demo_session, demo_session\<lparr>ses_id := 12,
     ses_token_digest := replicate 32 CHR ''x''\<rparr>]\<rparr>"

definition demo_headers :: headers where
  "demo_headers = browser_headers demo_settings (replicate 43 CHR ''A'') (replicate 43 CHR ''A'')"

definition demo_browser_user :: auth_user where
  "demo_browser_user = \<lparr>au_id = 1, au_session = 11, au_email = lit ''a@b.c'', au_role = Owner,
     au_must_change_password = False, au_csrf_digest = zero_raw, au_api_key = None, au_device = None\<rparr>"

lemma sample_decode_zero: "b64_decode sample_externals (replicate 43 CHR ''A'') = Some zero_raw"
  using sample_codec zero_raw_length sample_zero by (metis token_codec_def)

lemma demo_headers_read:
  "cookie_value demo_headers (session_cookie_name demo_settings) = Some (replicate 43 CHR ''A'')"
  "cookie_value demo_headers (csrf_cookie_name demo_settings) = Some (replicate 43 CHR ''A'')"
  "header_str demo_headers ''x-csrf-token'' = Some (replicate 43 CHR ''A'')"
  "bearer_token demo_headers = None"
  unfolding demo_headers_def
  by (intro browser_headers_read; simp add: cookie_safe_def list_all_iff token_char_def ascii_alnum_def)+

lemma demo_csrf: "require_csrf sample_externals demo_headers demo_browser_user demo_settings"
  by (simp add: require_csrf_def demo_headers_read sample_decode_zero zero_raw_length demo_digest demo_browser_user_def)

lemma demo_request:
  "from_request_parts sample_externals demo_settings 9 GET ''/api/drive'' demo_headers None demo_sessions
    = (demo_sessions, Inr demo_browser_user)"
  by (simp add: from_request_parts_def demo_headers_read session_user_def sample_decode_zero zero_raw_length
      demo_digest session_live_def demo_sessions_def demo_store_def demo_session_def demo_user_def
      demo_browser_user_def touch_session_def find_row_def seconds_def empty_db_def Let_def)

lemma demo_sessions_ok: "session_ok demo_sessions"
  by (simp add: session_ok_def demo_sessions_def demo_session_def demo_store_def demo_user_def empty_db_def
      zero_raw_def)

theorem session_authentication_sound_witness:
  "\<exists>r \<in> set (sessions demo_sessions). ses_id r = 11 \<and> ses_revoked_at r = None \<and> 9 < ses_expires_at r"
  using session_authentication_sound [OF demo_request] by (auto simp: demo_browser_user_def)

definition demo_password_env :: password_env where
  "demo_password_env = \<lparr>pe_now = 8, pe_dummy_hash = ''d'', pe_salt = [], pe_between = id\<rparr>"

lemma demo_browser_id: "au_id demo_browser_user = 1" "au_session demo_browser_user = 11"
  by (simp_all add: demo_browser_user_def)

lemma demo_change:
  "\<exists>s1. change_password sample_externals demo_settings demo_password_env demo_browser_user demo_headers
      (lit ''h'') (lit ''twelve chars'') demo_sessions = (s1, Inr ())"
proof -
  have "text_len (lit ''h'') = 1" "text_len (lit ''twelve chars'') = 12"
    by (simp_all add: text_len_def lit_def utf8_len_def)
  then show ?thesis
    by (simp add: change_password_def demo_csrf demo_browser_id demo_sessions_def demo_store_def demo_user_def
        verify_login_password_def sample_text demo_email commit_password_def
        set_password_def demo_password_env_def count_where_def Let_def empty_db_def)
      (simp add: lit_def)
qed

theorem password_change_ends_other_sessions_witness:
  "\<exists>s1. change_password sample_externals demo_settings demo_password_env demo_browser_user demo_headers
      (lit ''h'') (lit ''twelve chars'') demo_sessions = (s1, Inr ())
    \<and> (\<forall>u s2. au_device u = None \<longrightarrow>
        from_request_parts sample_externals demo_settings 9 GET ''/api/drive'' [] None s1 = (s2, Inr u)
        \<longrightarrow> au_session u \<noteq> 12)"
proof -
  from demo_change obtain s1 where
    c: "change_password sample_externals demo_settings demo_password_env demo_browser_user demo_headers
      (lit ''h'') (lit ''twelve chars'') demo_sessions = (s1, Inr ())" by blast
  let ?r = "demo_session\<lparr>ses_id := 12, ses_token_digest := replicate 32 CHR ''x''\<rparr>"
  have i: "pe_between demo_password_env demo_sessions = demo_sessions" by (simp add: demo_password_env_def)
  have "?r \<in> set (sessions demo_sessions)" "ses_user ?r = au_id demo_browser_user"
    "ses_id ?r \<noteq> au_session demo_browser_user"
    by (simp_all add: demo_sessions_def demo_session_def demo_browser_user_def)
  from conjunct2 [OF password_change_ends_other_sessions [OF c, unfolded i, OF demo_sessions_ok this]]
  have "au_session u \<noteq> 12" if "au_device u = None"
      "from_request_parts sample_externals demo_settings 9 GET ''/api/drive'' [] None s1 = (s2, Inr u)" for u s2
    using that by (elim allE [where x = "[]"]) (auto simp: demo_session_def)
  with c show ?thesis by blast
qed

text \<open>Two logins of one address in flight at once: both are compared before either is counted.\<close>

definition demo_race :: "login_event list" where
  "demo_race = [LoginCheck demo_env (lit '' A@b.c'') (lit ''g''), LoginCheck demo_env (lit '' A@b.c'') (lit ''g''),
     LoginVerify 0, LoginVerify 1, LoginConclude 0, LoginConclude 0]"

theorem login_guesses_limited_witness:
  "compared sample_externals demo_settings (identity_digest sample_externals (lit ''a@b.c'')) demo_race
     \<lparr>pool_buckets = [], pool_db = demo_store, pool_flights = []\<rparr> < 10 + 2"
proof -
  let ?key = "identity_digest sample_externals (lit ''a@b.c'')"
  have c: "login_check sample_externals demo_env (lit '' A@b.c'') [] = ([], Inr (lit ''a@b.c''))"
    by (simp add: login_check_def sample_text demo_email retry_after_at_def prune_buckets_def bucket_get_def)
  have v: "\<not> la_accepted (login_verify sample_externals env (lit ''a@b.c'') (lit ''g'') demo_store)"
    "la_email (login_verify sample_externals env (lit ''a@b.c'') (lit ''g'') demo_store) = lit ''a@b.c''" for env
    by (simp_all add: login_verify_def verify_login_password_def demo_store_def demo_user_def sample_text demo_email Let_def)
  have w: "in_window 0 (le_checked_at demo_env)" "in_window 0 (le_failed_at demo_env)"
    by (simp_all add: in_window_def demo_env_def LOGIN_FAILURE_WINDOW_def)
  have "guessing_run sample_externals demo_settings ?key [?key] 2 0 demo_race
     \<lparr>pool_buckets = [], pool_db = demo_store, pool_flights = []\<rparr>"
    by (simp add: demo_race_def c v w flight_at_def in_flight_def count_where_def before_comparison_def
        after_comparison_def login_conclude_def Let_def)
  then show ?thesis
    using login_guesses_limited [of "\<lparr>pool_buckets = [], pool_db = demo_store, pool_flights = []\<rparr>" "[?key]"
        sample_externals demo_settings "lit '' A@b.c''" 2 0 demo_race]
    by (simp add: limiter_ok_empty MAX_LOGIN_IDENTITIES_def sample_text demo_email)
qed

end
