(* ===== verification/Entry_Tree.thy ===== *)
theory Entry_Tree
  imports Database
begin

text \<open>
  The folder tree as an invariant of the \<open>drive_entries\<close> table: identifiers are unique,
  every parent is a folder of the same owner, and the parent relation has no cycle. On such a
  table the recursive queries return exactly the ancestors and descendants of an entry, and
  the number of iterations they are run with is enough.
\<close>

section \<open>The parent relation\<close>

definition par :: "(entry \<Rightarrow> bool) \<Rightarrow> entry list \<Rightarrow> (uuid \<times> uuid) set" where
  "par p es = {(ent_id c, x) | c x. c \<in> set es \<and> p c \<and> ent_parent c = Some x}"

abbreviation parent_rel :: "entry list \<Rightarrow> (uuid \<times> uuid) set" where
  "parent_rel es \<equiv> par (\<lambda>_. True) es"

definition parents_ok :: "entry list \<Rightarrow> bool" where
  "parents_ok es \<longleftrightarrow> (\<forall>c \<in> set es. \<forall>x. ent_parent c = Some x \<longrightarrow>
     (\<exists>e \<in> set es. ent_id e = x \<and> ent_kind e = Folder \<and> ent_owner e = ent_owner c))"

definition forest :: "entry list \<Rightarrow> bool" where
  "forest es \<longleftrightarrow> distinct (map ent_id es) \<and> parents_ok es \<and> acyclic (parent_rel es)"

definition ancestors :: "entry list \<Rightarrow> uuid \<Rightarrow> uuid set" where
  "ancestors es x = {y. (x, y) \<in> (parent_rel es)\<^sup>+}"

definition height :: "entry list \<Rightarrow> uuid \<Rightarrow> nat" where
  "height es x = card (ancestors es x)"

lemma forestD:
  assumes "forest es"
  shows "distinct (map ent_id es)" and "parents_ok es" and "acyclic (parent_rel es)"
  using assms by (simp_all add: forest_def)

lemma parI: "c \<in> set es \<Longrightarrow> p c \<Longrightarrow> ent_parent c = Some x \<Longrightarrow> (ent_id c, x) \<in> par p es"
  by (auto simp: par_def)

lemma par_subset: "par p es \<subseteq> parent_rel es"
  by (auto simp: par_def)

lemma parents_ok_target:
  assumes "parents_ok es" and "(x, y) \<in> parent_rel es"
  obtains e where "e \<in> set es" and "ent_id e = y" and "ent_kind e = Folder"
  using assms unfolding parents_ok_def par_def by blast

lemma ancestors_subset:
  assumes "parents_ok es"
  shows "ancestors es x \<subseteq> ent_id ` set es"
proof
  fix y
  assume "y \<in> ancestors es x"
  then obtain z where "(z, y) \<in> parent_rel es"
    unfolding ancestors_def by (blast elim: tranclE)
  then show "y \<in> ent_id ` set es"
    using assms by (blast elim: parents_ok_target)
qed

lemma height_less_length:
  assumes "forest es" and "x \<in> ent_id ` set es"
  shows "height es x < length es"
proof -
  have "x \<notin> ancestors es x"
    using forestD(3) [OF assms(1)] by (simp add: ancestors_def acyclic_def)
  with ancestors_subset [OF forestD(2) [OF assms(1)], of x] assms(2)
  have "ancestors es x \<subset> ent_id ` set es" by blast
  then have "height es x < card (ent_id ` set es)"
    unfolding height_def by (intro psubset_card_mono) simp
  also have "\<dots> \<le> length es"
    by (metis card_length length_map list.set_map)
  finally show ?thesis .
qed

lemma height_less:
  assumes "forest es" and "(x, y) \<in> parent_rel es"
  shows "height es y < height es x"
proof -
  have "ancestors es y \<subset> ancestors es x"
  proof
    show "ancestors es y \<subseteq> ancestors es x"
      unfolding ancestors_def using assms(2) by (auto intro: trancl_into_trancl2)
    have "y \<in> ancestors es x" using assms(2) by (auto simp: ancestors_def)
    moreover have "y \<notin> ancestors es y"
      using forestD(3) [OF assms(1)] by (simp add: ancestors_def acyclic_def)
    ultimately show "ancestors es y \<noteq> ancestors es x" by blast
  qed
  moreover have "finite (ancestors es x)"
    using ancestors_subset [OF forestD(2) [OF assms(1)]] by (rule finite_subset) simp
  ultimately show ?thesis
    unfolding height_def by (rule psubset_card_mono [rotated])
qed

section \<open>Upward queries\<close>

lemma find_entry_iff:
  assumes "distinct (map ent_id es)"
  shows "find (\<lambda>e. ent_id e = x \<and> p e) es = Some e \<longleftrightarrow> e \<in> set es \<and> ent_id e = x \<and> p e"
proof
  assume "find (\<lambda>e. ent_id e = x \<and> p e) es = Some e"
  then show "e \<in> set es \<and> ent_id e = x \<and> p e"
    by (auto simp: find_Some_iff)
next
  assume e: "e \<in> set es \<and> ent_id e = x \<and> p e"
  then obtain e' where e': "find (\<lambda>e. ent_id e = x \<and> p e) es = Some e'"
    by (cases "find (\<lambda>e. ent_id e = x \<and> p e) es") (auto simp: find_None_iff)
  then have "e' \<in> set es \<and> ent_id e' = x" by (auto simp: find_Some_iff)
  with e have "e' = e" using distinct_key_unique [OF assms] by metis
  with e' show "find (\<lambda>e. ent_id e = x \<and> p e) es = Some e" by simp
qed

definition parent_closed :: "(entry \<Rightarrow> bool) \<Rightarrow> entry list \<Rightarrow> bool" where
  "parent_closed p es \<longleftrightarrow> (\<forall>c \<in> set es. \<forall>e \<in> set es. p c \<and> ent_parent c = Some (ent_id e) \<longrightarrow> p e)"

lemma parent_closed_True [simp]: "parent_closed (\<lambda>_. True) es"
  by (simp add: parent_closed_def)

lemma parent_closed_owner:
  assumes "parents_ok es" and "distinct (map ent_id es)"
  shows "parent_closed (\<lambda>e. ent_owner e = u) es"
  unfolding parent_closed_def
proof (intro ballI impI)
  fix c e
  assume c: "c \<in> set es" and e: "e \<in> set es"
    and h: "ent_owner c = u \<and> ent_parent c = Some (ent_id e)"
  with assms(1) obtain e' where "e' \<in> set es" "ent_id e' = ent_id e" "ent_owner e' = ent_owner c"
    unfolding parents_ok_def by blast
  with e h show "ent_owner e = u"
    using distinct_key_unique [OF assms(2)] by metis
qed

lemma rtrancl_unique_step:
  assumes "\<And>z. (x, z) \<in> r \<longleftrightarrow> z = w"
  shows "(x, y) \<in> r\<^sup>* \<longleftrightarrow> x = y \<or> (w, y) \<in> r\<^sup>*"
proof
  assume "(x, y) \<in> r\<^sup>*"
  then show "x = y \<or> (w, y) \<in> r\<^sup>*"
    by (cases rule: converse_rtranclE) (use assms in auto)
next
  assume "x = y \<or> (w, y) \<in> r\<^sup>*"
  with assms show "(x, y) \<in> r\<^sup>*" by (auto intro: converse_rtrancl_into_rtrancl)
qed

lemma relpow_subset:
  fixes r r' :: "('a \<times> 'a) set"
  assumes "r \<subseteq> r'"
  shows "r ^^ m \<subseteq> r' ^^ m"
proof (induction m)
  case 0
  show ?case by simp
next
  case (Suc m)
  then have "r ^^ m O r \<subseteq> r' ^^ m O r'" using assms by (rule relcomp_mono)
  then show ?case by simp
qed

lemma parent_rel_from:
  assumes "distinct (map ent_id es)" and "e \<in> set es"
  shows "(ent_id e, z) \<in> parent_rel es \<longleftrightarrow> ent_parent e = Some z"
proof
  assume "(ent_id e, z) \<in> parent_rel es"
  then obtain c where "c \<in> set es" "ent_id c = ent_id e" "ent_parent c = Some z"
    by (auto simp: par_def)
  then show "ent_parent e = Some z"
    using distinct_key_unique [OF assms(1)] assms(2) by metis
next
  assume "ent_parent e = Some z"
  with assms(2) show "(ent_id e, z) \<in> parent_rel es" by (auto simp: par_def)
qed

lemma climb_iff:
  assumes f: "forest es" and cl: "parent_closed p es"
    and "e \<in> set es" and "p e" and "height es (ent_id e) < n"
  shows "set (climb p n es (Some (ent_id e)))
    = {a \<in> set es. (ent_id e, ent_id a) \<in> (parent_rel es)\<^sup>*}"
  using assms(3-5)
proof (induction n arbitrary: e)
  case 0
  then show ?case by simp
next
  case (Suc n)
  note d = forestD(1) [OF f]
  have found: "find (\<lambda>r. ent_id r = ent_id e \<and> p r) es = Some e"
    using Suc.prems by (simp add: find_entry_iff [OF d])
  have same_id: "a = e" if "a \<in> set es" and "ent_id e = ent_id a" for a
    using that Suc.prems(1) distinct_key_unique [OF d] by metis
  show ?case
  proof (cases "ent_parent e")
    case None
    then have "\<not> (\<exists>z. (ent_id e, z) \<in> parent_rel es)"
      using parent_rel_from [OF d Suc.prems(1)] by simp
    then have "(ent_id e, y) \<in> (parent_rel es)\<^sup>* \<longleftrightarrow> ent_id e = y" for y
      by (metis converse_rtranclE rtrancl.rtrancl_refl)
    then have "{a \<in> set es. (ent_id e, ent_id a) \<in> (parent_rel es)\<^sup>*} = {e}"
      using Suc.prems(1) same_id by auto
    moreover have "climb p n es None = []" by (cases n) auto
    ultimately show ?thesis using found None by simp
  next
    case (Some x)
    then have edge: "(ent_id e, x) \<in> parent_rel es"
      using parent_rel_from [OF d Suc.prems(1)] by simp
    then obtain q where q: "q \<in> set es" "ent_id q = x"
      using parents_ok_target [OF forestD(2) [OF f]] by metis
    have pq: "p q"
      using cl Suc.prems(1,2) q Some unfolding parent_closed_def by blast
    have "height es (ent_id q) < n"
      using height_less [OF f edge] q(2) Suc.prems(3) by simp
    then have IH: "set (climb p n es (Some x)) = {a \<in> set es. (x, ent_id a) \<in> (parent_rel es)\<^sup>*}"
      using Suc.IH [OF q(1) pq] q(2) by simp
    have "(ent_id e, y) \<in> (parent_rel es)\<^sup>* \<longleftrightarrow> ent_id e = y \<or> (x, y) \<in> (parent_rel es)\<^sup>*" for y
      by (rule rtrancl_unique_step) (use parent_rel_from [OF d Suc.prems(1)] Some in auto)
    then have "{a \<in> set es. (ent_id e, ent_id a) \<in> (parent_rel es)\<^sup>*}
        = insert e {a \<in> set es. (x, ent_id a) \<in> (parent_rel es)\<^sup>*}"
      using Suc.prems(1) same_id by auto
    then show ?thesis using found Some IH by simp
  qed
qed

lemma climb_ids:
  assumes "forest es" and "x \<in> ent_id ` set es"
  shows "ent_id ` set (climb (\<lambda>_. True) (length es) es (Some x)) = {y. (x, y) \<in> (parent_rel es)\<^sup>*}"
proof -
  from assms(2) obtain e where e: "e \<in> set es" "ent_id e = x" by blast
  have "ent_id ` set (climb (\<lambda>_. True) (length es) es (Some x))
      = ent_id ` {a \<in> set es. (x, ent_id a) \<in> (parent_rel es)\<^sup>*}"
    using climb_iff [OF assms(1) parent_closed_True e(1)] height_less_length [OF assms] e(2) by simp
  also have "\<dots> = {y. (x, y) \<in> (parent_rel es)\<^sup>*}"
  proof -
    have "y \<in> ent_id ` set es" if "(x, y) \<in> (parent_rel es)\<^sup>*" for y
      using that assms(2) by (metis parents_ok_target [OF forestD(2) [OF assms(1)]] image_eqI rtranclE)
    then show ?thesis by auto
  qed
  finally show ?thesis .
qed

text \<open>More iterations than rows never change the answer of an upward query.\<close>

lemma climb_stable:
  assumes "forest es" and "parent_closed p es" and "length es \<le> n"
  shows "set (climb p n es x) = set (climb p (length es) es x)"
proof (cases x)
  case None
  have "climb p k es None = []" for k by (cases k) auto
  then show ?thesis using None by simp
next
  case (Some i)
  show ?thesis
  proof (cases "find (\<lambda>e. ent_id e = i \<and> p e) es")
    case None
    then have "climb p k es (Some i) = []" for k by (cases k) auto
    then show ?thesis using Some by simp
  next
    case (Some e)
    then have e: "e \<in> set es" "ent_id e = i" "p e"
      using find_entry_iff [OF forestD(1) [OF assms(1)]] by blast+
    have "height es i < length es"
      using height_less_length [OF assms(1)] e by blast
    then show ?thesis
      using climb_iff [OF assms(1,2) e(1,3), of n] climb_iff [OF assms(1,2) e(1,3), of "length es"]
        assms(3) e(2) \<open>x = Some i\<close> by simp
  qed
qed

section \<open>Downward queries\<close>

lemma set_children_of:
  "set (concat (map (children_of p es) fr)) =
     {c \<in> set es. p c \<and> (\<exists>r \<in> set fr. ent_parent c = Some (ent_id r))}"
  by (auto simp: children_of_def)

lemma descend_iff:
  assumes d: "distinct (map ent_id es)" and "set fr \<subseteq> set es"
  shows "fst ` set (descend p n es fr k) =
     {e \<in> set es. \<exists>r \<in> set fr. \<exists>m < n. (ent_id e, ent_id r) \<in> par p es ^^ m}"
  using assms(2)
proof (induction n arbitrary: fr k)
  case 0
  then show ?case by simp
next
  case (Suc n)
  let ?next = "concat (map (children_of p es) fr)"
  have sub: "set ?next \<subseteq> set es" by (auto simp: children_of_def)
  have level0: "{e \<in> set es. \<exists>r \<in> set fr. ent_id e = ent_id r} = set fr"
    using Suc.prems distinct_key_unique [OF d] by (auto 4 3)
  have shift: "(\<exists>r \<in> set ?next. \<exists>m < n. (ent_id e, ent_id r) \<in> par p es ^^ m) \<longleftrightarrow>
      (\<exists>r \<in> set fr. \<exists>m < n. (ent_id e, ent_id r) \<in> par p es ^^ Suc m)" for e
  proof
    assume "\<exists>r \<in> set ?next. \<exists>m < n. (ent_id e, ent_id r) \<in> par p es ^^ m"
    then obtain c r m where "c \<in> set es" "p c" "r \<in> set fr" "ent_parent c = Some (ent_id r)"
      "m < n" "(ent_id e, ent_id c) \<in> par p es ^^ m"
      unfolding set_children_of by blast
    then show "\<exists>r \<in> set fr. \<exists>m < n. (ent_id e, ent_id r) \<in> par p es ^^ Suc m"
      by (auto intro: relpow_Suc_I parI)
  next
    assume "\<exists>r \<in> set fr. \<exists>m < n. (ent_id e, ent_id r) \<in> par p es ^^ Suc m"
    then obtain r m y where "r \<in> set fr" "m < n" "(ent_id e, y) \<in> par p es ^^ m" "(y, ent_id r) \<in> par p es"
      by (auto elim: relpow_Suc_E)
    then show "\<exists>r \<in> set ?next. \<exists>m < n. (ent_id e, ent_id r) \<in> par p es ^^ m"
      unfolding set_children_of par_def by blast
  qed
  have less_Suc: "(\<exists>m < Suc n. Q m) \<longleftrightarrow> Q 0 \<or> (\<exists>m < n. Q (Suc m))" for Q
    by (auto simp: less_Suc_eq_0_disj)
  have split: "(\<exists>r \<in> set fr. \<exists>m < Suc n. (ent_id e, ent_id r) \<in> par p es ^^ m) \<longleftrightarrow>
      (\<exists>r \<in> set fr. ent_id e = ent_id r) \<or>
      (\<exists>r \<in> set fr. \<exists>m < n. (ent_id e, ent_id r) \<in> par p es ^^ Suc m)" for e
    unfolding less_Suc by (simp add: bex_disj_distrib)
  show ?case
  proof (cases "fr = []")
    case True
    then show ?thesis by simp
  next
    case False
    have "fst ` set (descend p (Suc n) es fr k) = set fr \<union> fst ` set (descend p n es ?next (Suc k))"
      using False by (auto simp: image_Un image_image)
    also have "\<dots> = {e \<in> set es. \<exists>r \<in> set fr. \<exists>m < Suc n. (ent_id e, ent_id r) \<in> par p es ^^ m}"
      unfolding Suc.IH [OF sub] shift split by (subst level0 [symmetric]) blast
    finally show ?thesis .
  qed
qed

lemma height_relpow:
  assumes "forest es" and "(x, y) \<in> parent_rel es ^^ m"
  shows "m + height es y \<le> height es x"
  using assms(2)
proof (induction m arbitrary: x)
  case 0
  then show ?case by simp
next
  case (Suc m)
  then obtain z where z: "(x, z) \<in> parent_rel es" "(z, y) \<in> parent_rel es ^^ m"
    by (metis relpow_Suc_D2)
  from height_less [OF assms(1) z(1)] Suc.IH [OF z(2)] show ?case by simp
qed

definition subtree_of :: "(entry \<Rightarrow> bool) \<Rightarrow> entry list \<Rightarrow> uuid \<Rightarrow> entry set" where
  "subtree_of p es x = {e \<in> set es. (ent_id e, x) \<in> (par p es)\<^sup>*}"

lemma descend_subtree:
  assumes f: "forest es" and r: "r \<in> set es" and n: "length es \<le> n"
  shows "fst ` set (descend p n es [r] k) = subtree_of p es (ent_id r)"
proof -
  have "\<exists>m < n. (ent_id e, ent_id r) \<in> par p es ^^ m"
    if e: "e \<in> set es" and reach: "(ent_id e, ent_id r) \<in> (par p es)\<^sup>*" for e
  proof -
    from reach obtain m where m: "(ent_id e, ent_id r) \<in> par p es ^^ m"
      by (auto simp: rtrancl_power)
    then have "(ent_id e, ent_id r) \<in> parent_rel es ^^ m"
      using relpow_subset [OF par_subset] by blast
    then have "m \<le> height es (ent_id e)" using height_relpow [OF f] by fastforce
    also have "\<dots> < length es" using height_less_length [OF f] e by blast
    finally have "m < n" using n by simp
    with m show ?thesis by blast
  qed
  then show ?thesis
    using descend_iff [OF forestD(1) [OF f], of "[r]" p n k] r
    by (auto simp: subtree_of_def relpow_imp_rtrancl)
qed

text \<open>More iterations than rows never change the answer of a downward query.\<close>

lemma descend_stable:
  assumes "forest es" and "r \<in> set es" and "length es \<le> n"
  shows "fst ` set (descend p n es [r] k) = fst ` set (descend p (length es) es [r] k)"
  using descend_subtree [OF assms(1,2)] assms(3) by simp

section \<open>Changes to the table that keep the forest\<close>

lemma forest_insert:
  assumes f: "forest es" and fresh: "ent_id new \<notin> ent_id ` set es"
    and parent: "\<And>x. ent_parent new = Some x \<Longrightarrow>
      \<exists>e \<in> set es. ent_id e = x \<and> ent_kind e = Folder \<and> ent_owner e = ent_owner new"
  shows "forest (es @ [new])"
proof -
  have targets: "y \<in> ent_id ` set es" if "(x, y) \<in> parent_rel es" for x y
    using that by (metis parents_ok_target [OF forestD(2) [OF f]] image_eqI)
  have "acyclic (parent_rel (es @ [new]))"
  proof (cases "ent_parent new")
    case None
    then have "parent_rel (es @ [new]) = parent_rel es" by (auto simp: par_def)
    then show ?thesis using forestD(3) [OF f] by simp
  next
    case (Some x)
    then have eq: "parent_rel (es @ [new]) = insert (ent_id new, x) (parent_rel es)"
      by (auto simp: par_def)
    from parent [OF Some] have "x \<in> ent_id ` set es" by blast
    then have "x \<noteq> ent_id new" using fresh by blast
    then have "(x, ent_id new) \<notin> (parent_rel es)\<^sup>*"
      using targets fresh by (metis rtranclE)
    then show ?thesis unfolding eq using forestD(3) [OF f] by simp
  qed
  moreover have "parents_ok (es @ [new])"
    using forestD(2) [OF f] parent unfolding parents_ok_def by fastforce
  moreover have "distinct (map ent_id (es @ [new]))"
    using forestD(1) [OF f] fresh by auto
  ultimately show ?thesis by (simp add: forest_def)
qed

lemma forest_update:
  assumes f: "forest es"
    and same: "\<And>e. ent_id (g e) = ent_id e \<and> ent_owner (g e) = ent_owner e
      \<and> ent_kind (g e) = ent_kind e \<and> ent_parent (g e) = ent_parent e"
  shows "forest (map g es)"
proof -
  have "map (ent_id \<circ> g) es = map ent_id es" using same by simp
  moreover have "parent_rel (map g es) = parent_rel es"
    using same unfolding par_def by (auto simp: image_iff) (metis+)
  moreover have "parents_ok (map g es)"
    using forestD(2) [OF f] same unfolding parents_ok_def by simp
  ultimately show ?thesis using f by (simp only: forest_def map_map)
qed

lemma forest_reparent:
  assumes f: "forest es" and old: "old \<in> set es"
    and new: "ent_id new = ent_id old" "ent_owner new = ent_owner old" "ent_kind new = ent_kind old"
    and parent: "\<And>x. ent_parent new = Some x \<Longrightarrow>
      (\<exists>e \<in> set es. ent_id e = x \<and> ent_kind e = Folder \<and> ent_owner e = ent_owner new)
      \<and> (x, ent_id old) \<notin> (parent_rel es)\<^sup>*"
  shows "forest (update_where (\<lambda>e. ent_id e = ent_id old) (\<lambda>_. new) es)"
proof -
  let ?es = "update_where (\<lambda>e. ent_id e = ent_id old) (\<lambda>_. new) es"
  have ids: "map ent_id ?es = map ent_id es"
    using new(1) by (simp add: update_where_def)
  have rel: "parent_rel ?es \<subseteq> (case ent_parent new of None \<Rightarrow> parent_rel es
      | Some x \<Rightarrow> insert (ent_id old, x) (parent_rel es))"
    using new(1) by (auto simp: par_def set_update_where split: option.splits if_splits)
  have "acyclic (parent_rel ?es)"
  proof (cases "ent_parent new")
    case None
    with rel have "parent_rel ?es \<subseteq> parent_rel es" by simp
    with forestD(3) [OF f] show ?thesis by (rule acyclic_subset)
  next
    case (Some x)
    with parent [OF Some] have "acyclic (insert (ent_id old, x) (parent_rel es))"
      using forestD(3) [OF f] by simp
    moreover have "parent_rel ?es \<subseteq> insert (ent_id old, x) (parent_rel es)"
      using rel Some by simp
    ultimately show ?thesis by (rule acyclic_subset)
  qed
  moreover have "parents_ok ?es"
    unfolding parents_ok_def
  proof (intro ballI allI impI)
    fix c x
    assume c: "c \<in> set ?es" and x: "ent_parent c = Some x"
    have keep: "\<exists>e' \<in> set ?es. ent_id e' = x \<and> ent_kind e' = Folder \<and> ent_owner e' = u"
      if "e \<in> set es" "ent_id e = x" "ent_kind e = Folder" "ent_owner e = u" for e u
    proof (cases "ent_id e = ent_id old")
      case True
      then have "e = old" using that(1) old distinct_key_unique [OF forestD(1) [OF f]] by metis
      then show ?thesis using that old new by (force simp: set_update_where)
    next
      case False
      then show ?thesis using that by (force simp: set_update_where)
    qed
    show "\<exists>e \<in> set ?es. ent_id e = x \<and> ent_kind e = Folder \<and> ent_owner e = ent_owner c"
    proof (cases "ent_id c = ent_id old")
      case True
      with c have "c = new" using new(1) by (auto simp: set_update_where split: if_splits)
      with parent x keep show ?thesis by metis
    next
      case False
      with c have "c \<in> set es" using new(1) by (auto simp: set_update_where split: if_splits)
      with x forestD(2) [OF f] keep show ?thesis unfolding parents_ok_def by metis
    qed
  qed
  ultimately show ?thesis
    using forestD(1) [OF f] ids by (simp add: forest_def)
qed

lemma forest_filter:
  assumes f: "forest es"
    and closed: "\<And>c e. c \<in> set es \<Longrightarrow> e \<in> set es \<Longrightarrow> ent_parent c = Some (ent_id e) \<Longrightarrow> q c \<Longrightarrow> q e"
  shows "forest (filter q es)"
proof -
  have "parent_rel (filter q es) \<subseteq> parent_rel es" by (auto simp: par_def)
  then have "acyclic (parent_rel (filter q es))"
    using forestD(3) [OF f] by (rule acyclic_subset [rotated])
  moreover have "parents_ok (filter q es)"
    using forestD(2) [OF f] closed unfolding parents_ok_def by auto metis
  ultimately show ?thesis
    using distinct_map_filter_key [OF forestD(1) [OF f]] by (simp add: forest_def)
qed

end
