(* ===== verification/Drive.thy ===== *)
theory Drive
  imports Entry_Tree Credentials Systems
begin

text \<open>
  The drive handlers of \<open>src/drive.rs\<close>: listing, creating, renaming, moving, copying,
  trashing and restoring entries, one by one and in batches, and the Photos folder. A handler
  maps the database to the database it leaves and its result; a transaction that fails leaves
  the database as it was. The case mapping and the collation of the database are the arguments
  \<open>lower\<close> and \<open>collate\<close>; identifiers drawn by a request are an argument, in the
  order in which they are drawn; \<open>now\<close> is the instant of the request's transaction.
\<close>

type_synonym 'a drive_outcome = "db \<times> (drive_error + 'a)"

section \<open>Queries\<close>

definition owned :: "uuid \<Rightarrow> entry \<Rightarrow> bool" where
  "owned owner e \<longleftrightarrow> ent_owner e = owner"

definition parent_chain :: "uuid \<Rightarrow> uuid \<Rightarrow> db \<Rightarrow> entry list" where
  "parent_chain owner i s = climb (owned owner) (length (entries s)) (entries s) (Some i)"

definition ensure_active_entry :: "uuid \<Rightarrow> uuid \<Rightarrow> bool \<Rightarrow> db \<Rightarrow> drive_error + unit" where
  "ensure_active_entry owner i require_folder s =
     (let chain = parent_chain owner i s in
      guardE (list_ex (\<lambda>e. ent_id e = i \<and> ent_deleted_at e = None
                            \<and> (\<not> require_folder \<or> ent_kind e = Folder)) chain
              \<and> \<not> list_ex (\<lambda>e. ent_deleted_at e \<noteq> None) chain) NotFound)"

text \<open>The columns of a summary that come from the tables modelled here.\<close>

record entry_summary =
  sum_entry :: entry
  sum_size_bytes :: "int option"
  sum_mime :: "string option"

definition current_version :: "db \<Rightarrow> uuid \<Rightarrow> version_row option" where
  "current_version s f =
     (case find_row fil_id f (files s) of
        None \<Rightarrow> None
      | Some r \<Rightarrow> (case fil_current_version r of None \<Rightarrow> None | Some v \<Rightarrow> find_row ver_id v (versions s)))"

definition summary :: "db \<Rightarrow> entry \<Rightarrow> entry_summary" where
  "summary s e =
     (let v = current_version s (ent_id e) in
      \<lparr>sum_entry = e, sum_size_bytes = map_option ver_size_bytes v,
       sum_mime = (case v of None \<Rightarrow> None
                   | Some r \<Rightarrow> (case find_row obj_id (ver_object r) (objects s) of
                                 None \<Rightarrow> None | Some b \<Rightarrow> obj_mime b))\<rparr>)"

definition fetch_entry :: "uuid \<Rightarrow> uuid \<Rightarrow> db \<Rightarrow> drive_error + entry_summary" where
  "fetch_entry owner i s =
     (case find (\<lambda>e. ent_id e = i \<and> ent_owner e = owner \<and> ent_deleted_at e = None) (entries s) of
        None \<Rightarrow> Inl NotFound
      | Some e \<Rightarrow>
          if list_ex (\<lambda>a. ent_deleted_at a \<noteq> None) (parent_chain owner i s) then Inl NotFound
          else Inr (summary s e))"

definition ensure_mutable_entry :: "uuid \<Rightarrow> uuid \<Rightarrow> db \<Rightarrow> drive_error + unit" where
  "ensure_mutable_entry owner i s =
     (case find (\<lambda>e. ent_id e = i \<and> ent_owner e = owner \<and> ent_deleted_at e = None) (entries s) of
        None \<Rightarrow> Inl NotFound
      | Some e \<Rightarrow> if ent_system_role e \<noteq> None then Inl Protected else Inr ())"

definition folder_contains :: "uuid \<Rightarrow> uuid \<Rightarrow> uuid \<Rightarrow> db \<Rightarrow> bool" where
  "folder_contains owner folder_id candidate s =
     list_ex (\<lambda>(e, d). ent_id e = candidate)
       (descend (\<lambda>c. ent_owner c = owner \<and> ent_deleted_at c = None) (length (entries s)) (entries s)
          (filter (\<lambda>e. ent_id e = folder_id \<and> ent_owner e = owner \<and> ent_kind e = Folder) (entries s)) 0)"

definition require_request_csrf :: "externals \<Rightarrow> headers \<Rightarrow> auth_user \<Rightarrow> auth_settings \<Rightarrow> drive_error + unit" where
  "require_request_csrf x hs user settings = guardE (require_csrf x hs user settings) Csrf"

section \<open>Listing\<close>

record list_query =
  lq_parent :: "uuid option"
  lq_limit :: "nat option"
  lq_offset :: "nat option"
  lq_sort_by :: "string option"
  lq_order :: "string option"

record entry_page =
  pg_entries :: "entry_summary list"
  pg_limit :: nat
  pg_next_offset :: "nat option"

text \<open>The value of the sort column; \<open>stats\<close> is the table \<open>folder_stats\<close>, maintained by a
  stored procedure.\<close>

definition column_key :: "(ustr \<Rightarrow> int) \<Rightarrow> (uuid \<Rightarrow> int option) \<Rightarrow> db \<Rightarrow> sort_column \<Rightarrow> entry \<Rightarrow> int" where
  "column_key collate stats s column e =
     (let bytes = (case sum_size_bytes (summary s e) of None \<Rightarrow> 0 | Some n \<Rightarrow> n) in
      case column of
        LowerName \<Rightarrow> collate (ent_name e)
      | CreatedAt \<Rightarrow> ent_created_at e
      | UpdatedAt \<Rightarrow> ent_updated_at e
      | DeletedAt \<Rightarrow> (case ent_deleted_at e of None \<Rightarrow> 0 | Some t \<Rightarrow> t)
      | FolderSize \<Rightarrow> (case stats (ent_id e) of None \<Rightarrow> bytes | Some n \<Rightarrow> n)
      | FileSize \<Rightarrow> bytes)"

definition ordered :: "(entry \<Rightarrow> int) \<Rightarrow> direction \<Rightarrow> entry list \<Rightarrow> entry list" where
  "ordered key d es =
     sort_key (\<lambda>e. case d of Asc \<Rightarrow> key e | Desc \<Rightarrow> - key e) (sort_key ent_id es)"

text \<open>\<open>LIMIT limit + 1 OFFSET offset\<close>, the test for more rows and \<open>truncate\<close>.\<close>

definition page_of :: "db \<Rightarrow> entry list \<Rightarrow> nat \<Rightarrow> nat \<Rightarrow> entry_page" where
  "page_of s rows limit offset =
     (let fetched = take (limit + 1) (drop offset rows) in
      \<lparr>pg_entries = map (summary s) (take limit fetched), pg_limit = limit,
       pg_next_offset = (if limit < length fetched then Some (offset + limit) else None)\<rparr>)"

definition list_folder :: "(ustr \<Rightarrow> int) \<Rightarrow> (uuid \<Rightarrow> int option) \<Rightarrow> auth_user \<Rightarrow> list_query \<Rightarrow> db
    \<Rightarrow> drive_error + entry_page" where
  "list_folder collate stats user q s =
     bindE (case lq_parent q of None \<Rightarrow> Inr () | Some p \<Rightarrow> ensure_active_entry (au_id user) p True s) (\<lambda>_.
     bindE (page_limit (lq_limit q)) (\<lambda>limit.
     bindE (page_offset (lq_offset q)) (\<lambda>offset.
     bindE (sort_parts (lq_sort_by q) (lq_order q) ''name'' ''asc'' True) (\<lambda>(column, d).
       Inr (page_of s
         (ordered (column_key collate stats s column) d
           (filter (\<lambda>e. ent_owner e = au_id user \<and> ent_deleted_at e = None \<and> ent_parent e = lq_parent q)
             (entries s))) limit offset)))))"

definition list_trash :: "(ustr \<Rightarrow> int) \<Rightarrow> auth_user \<Rightarrow> list_query \<Rightarrow> db \<Rightarrow> drive_error + entry_page" where
  "list_trash collate user q s =
     bindE (guardE (lq_parent q = None) BadRequest) (\<lambda>_.
     bindE (page_limit (lq_limit q)) (\<lambda>limit.
     bindE (page_offset (lq_offset q)) (\<lambda>offset.
     bindE (sort_parts (lq_sort_by q) (lq_order q) ''deleted_at'' ''desc'' False) (\<lambda>(column, d).
       Inr (page_of s
         (ordered (column_key collate (\<lambda>_. None) s column) d
           (filter (\<lambda>e. ent_owner e = au_id user \<and> ent_deleted_at e \<noteq> None) (entries s))) limit offset)))))"

definition get_entry :: "auth_user \<Rightarrow> uuid \<Rightarrow> db \<Rightarrow> drive_error + entry_summary" where
  "get_entry user i s = fetch_entry (au_id user) i s"

section \<open>Creating, renaming, moving\<close>

definition sql :: "db_error + 'a \<Rightarrow> drive_error + 'a" where
  "sql m = mapErr map_database_error m"

definition new_entry :: "uuid \<Rightarrow> uuid \<Rightarrow> uuid option \<Rightarrow> kind \<Rightarrow> ustr \<Rightarrow> system_role option \<Rightarrow> instant \<Rightarrow> entry" where
  "new_entry i owner parent k name srole now =
     \<lparr>ent_id = i, ent_owner = owner, ent_parent = parent, ent_kind = k, ent_name = name,
      ent_created_at = now, ent_updated_at = now, ent_deleted_at = None, ent_system_role = srole\<rparr>"

definition create_folder :: "externals \<Rightarrow> auth_settings \<Rightarrow> auth_user \<Rightarrow> headers \<Rightarrow> instant \<Rightarrow> uuid \<Rightarrow> ustr
    \<Rightarrow> uuid option \<Rightarrow> db \<Rightarrow> entry_summary drive_outcome" where
  "create_folder x settings user hs now i raw_name parent s =
     (case bindE (require_request_csrf x hs user settings) (\<lambda>_.
           bindE (normalize_name raw_name) (\<lambda>name.
           bindE (case parent of None \<Rightarrow> Inr () | Some p \<Rightarrow> ensure_active_entry (au_id user) p True s) (\<lambda>_.
           bindE (sql (insert_entry (sql_lower x) (new_entry i (au_id user) parent Folder name None now) s)) (\<lambda>s1.
             sql (insert_folder i s1))))) of
        Inl e \<Rightarrow> (s, Inl e)
      | Inr s2 \<Rightarrow> (s2, fetch_entry (au_id user) i s2))"

definition active_row :: "uuid \<Rightarrow> entry \<Rightarrow> bool" where
  "active_row owner e \<longleftrightarrow> ent_owner e = owner \<and> ent_deleted_at e = None"

definition rename_entry :: "externals \<Rightarrow> auth_settings \<Rightarrow> auth_user \<Rightarrow> headers \<Rightarrow> instant \<Rightarrow> uuid \<Rightarrow> ustr
    \<Rightarrow> db \<Rightarrow> entry_summary drive_outcome" where
  "rename_entry x settings user hs now i raw_name s =
     (case bindE (require_request_csrf x hs user settings) (\<lambda>_.
           bindE (normalize_name raw_name) (\<lambda>name.
           bindE (ensure_active_entry (au_id user) i False s) (\<lambda>_.
           bindE (ensure_mutable_entry (au_id user) i s) (\<lambda>_.
             sql (update_entry (sql_lower x) False (active_row (au_id user))
                    (\<lambda>e. e\<lparr>ent_name := name, ent_updated_at := now\<rparr>) i s))))) of
        Inl e \<Rightarrow> (s, Inl e)
      | Inr (s1, _) \<Rightarrow> (s1, fetch_entry (au_id user) i s1))"

definition move_entry :: "externals \<Rightarrow> auth_settings \<Rightarrow> auth_user \<Rightarrow> headers \<Rightarrow> instant \<Rightarrow> uuid \<Rightarrow> uuid option
    \<Rightarrow> db \<Rightarrow> entry_summary drive_outcome" where
  "move_entry x settings user hs now i parent s =
     (case bindE (require_request_csrf x hs user settings) (\<lambda>_.
           bindE (ensure_active_entry (au_id user) i False s) (\<lambda>_.
           bindE (ensure_mutable_entry (au_id user) i s) (\<lambda>_.
           bindE (case parent of
                    None \<Rightarrow> Inr ()
                  | Some p \<Rightarrow>
                      bindE (ensure_active_entry (au_id user) p True s) (\<lambda>_.
                        guardE (\<not> (p = i \<or> folder_contains (au_id user) i p s)) Conflict)) (\<lambda>_.
             sql (update_entry (sql_lower x) True (active_row (au_id user))
                    (\<lambda>e. e\<lparr>ent_parent := parent, ent_updated_at := now\<rparr>) i s))))) of
        Inl e \<Rightarrow> (s, Inl e)
      | Inr (s1, _) \<Rightarrow> (s1, fetch_entry (au_id user) i s1))"

section \<open>Trash\<close>

definition subtree :: "uuid \<Rightarrow> uuid \<Rightarrow> db \<Rightarrow> entry list" where
  "subtree owner i s =
     map fst (descend (owned owner) (length (entries s)) (entries s)
       (filter (\<lambda>e. ent_id e = i \<and> ent_owner e = owner) (entries s)) 0)"

text \<open>The two statements on shares of the subtree: revoke them and drop their access sessions.\<close>

definition shared_in :: "uuid \<Rightarrow> uuid list \<Rightarrow> share_row \<Rightarrow> bool" where
  "shared_in owner ids r \<longleftrightarrow> shr_owner r = owner
     \<and> (case shr_resource r of None \<Rightarrow> False | Some x \<Rightarrow> x \<in> set ids)"

definition revoke_subtree_shares :: "uuid \<Rightarrow> uuid list \<Rightarrow> instant \<Rightarrow> db \<Rightarrow> db" where
  "revoke_subtree_shares owner ids now s =
     s\<lparr>shares := update_where (\<lambda>r. shared_in owner ids r \<and> shr_revoked_at r = None)
                  (\<lambda>r. r\<lparr>shr_revoked_at := Some now\<rparr>) (shares s)\<rparr>"

definition drop_subtree_access :: "uuid \<Rightarrow> uuid list \<Rightarrow> db \<Rightarrow> db" where
  "drop_subtree_access owner ids s =
     s\<lparr>access_sessions := filter (\<lambda>a. \<not> list_ex (\<lambda>r. shr_id r = acc_share a \<and> shared_in owner ids r) (shares s))
                           (access_sessions s)\<rparr>"

definition trash_owned_entry :: "(ustr \<Rightarrow> ustr) \<Rightarrow> uuid \<Rightarrow> instant \<Rightarrow> uuid \<Rightarrow> db \<Rightarrow> drive_error + db" where
  "trash_owned_entry lower owner now i s =
     bindE (ensure_mutable_entry owner i s) (\<lambda>_.
     bindE (sql (update_entry lower False (active_row owner)
                   (\<lambda>e. e\<lparr>ent_deleted_at := Some now, ent_updated_at := now\<rparr>) i s)) (\<lambda>(s1, rows).
     bindE (guardE (rows = 1) NotFound) (\<lambda>_.
       let ids = map ent_id (subtree owner i s1) in
       Inr (add_audit ''entry_trashed'' (Some owner) (Some i)
              (drop_subtree_access owner ids (revoke_subtree_shares owner ids now s1))))))"

definition trash_entry :: "externals \<Rightarrow> auth_settings \<Rightarrow> auth_user \<Rightarrow> headers \<Rightarrow> instant \<Rightarrow> uuid
    \<Rightarrow> db \<Rightarrow> unit drive_outcome" where
  "trash_entry x settings user hs now i s =
     rollback s (bindE (require_request_csrf x hs user settings) (\<lambda>_.
                 bindE (ensure_active_entry (au_id user) i False s) (\<lambda>_.
                 bindE (trash_owned_entry (sql_lower x) (au_id user) now i s) (\<lambda>s1. Inr (s1, ())))))"

definition restore_entry :: "externals \<Rightarrow> auth_settings \<Rightarrow> auth_user \<Rightarrow> headers \<Rightarrow> instant \<Rightarrow> uuid
    \<Rightarrow> db \<Rightarrow> entry_summary drive_outcome" where
  "restore_entry x settings user hs now i s =
     (case bindE (require_request_csrf x hs user settings) (\<lambda>_.
           bindE (okOr (find (\<lambda>e. ent_id e = i \<and> ent_owner e = au_id user \<and> ent_deleted_at e \<noteq> None) (entries s))
                    NotFound) (\<lambda>row.
           bindE (case ent_parent row of None \<Rightarrow> Inr () | Some p \<Rightarrow> ensure_active_entry (au_id user) p True s) (\<lambda>_.
           bindE (sql (update_entry (sql_lower x) False (\<lambda>e. ent_owner e = au_id user \<and> ent_deleted_at e \<noteq> None)
                    (\<lambda>e. e\<lparr>ent_deleted_at := None, ent_updated_at := now\<rparr>) i s)) (\<lambda>(s1, rows).
           bindE (guardE (rows = 1) NotFound) (\<lambda>_.
             Inr (add_audit ''entry_restored'' (Some (au_id user)) (Some i) s1)))))) of
        Inl e \<Rightarrow> (s, Inl e)
      | Inr s2 \<Rightarrow> (s2, fetch_entry (au_id user) i s2))"

section \<open>Batches: moving and copying\<close>

definition move_owned_entry :: "(ustr \<Rightarrow> ustr) \<Rightarrow> uuid \<Rightarrow> instant \<Rightarrow> uuid \<Rightarrow> uuid option \<Rightarrow> db \<Rightarrow> drive_error + db" where
  "move_owned_entry lower owner now i parent s =
     bindE (ensure_mutable_entry owner i s) (\<lambda>_.
     bindE (case parent of
              None \<Rightarrow> Inr ()
            | Some p \<Rightarrow> guardE (\<not> (p = i \<or> folder_contains owner i p s)) Conflict) (\<lambda>_.
     bindE (sql (update_entry lower True (active_row owner)
                   (\<lambda>e. e\<lparr>ent_parent := parent, ent_updated_at := now\<rparr>) i s)) (\<lambda>(s1, rows).
     bindE (guardE (rows = 1) NotFound) (\<lambda>_. Inr s1))))"

definition name_taken :: "(ustr \<Rightarrow> ustr) \<Rightarrow> uuid \<Rightarrow> uuid option \<Rightarrow> ustr \<Rightarrow> db \<Rightarrow> bool" where
  "name_taken lower owner parent name s =
     list_ex (\<lambda>e. ent_owner e = owner \<and> ent_deleted_at e = None \<and> ent_parent e = parent
                  \<and> lower (ent_name e) = lower name) (entries s)"

definition available_copy_name :: "(ustr \<Rightarrow> ustr) \<Rightarrow> uuid \<Rightarrow> uuid option \<Rightarrow> ustr \<Rightarrow> bool \<Rightarrow> db
    \<Rightarrow> drive_error + ustr" where
  "available_copy_name lower owner parent original is_file s =
     okOr (find (\<lambda>candidate. \<not> name_taken lower owner parent candidate s)
             (map (\<lambda>attempt. copy_display_name original attempt is_file) [1..<41])) Conflict"

record copy_job =
  cj_source :: uuid
  cj_parent :: "uuid option"
  cj_rename :: bool
  cj_depth :: nat

definition MAX_COPY_ENTRIES :: nat where "MAX_COPY_ENTRIES = 500"
definition MAX_BATCH_ENTRIES :: nat where "MAX_BATCH_ENTRIES = 100"

text \<open>\<open>ORDER BY kind DESC, lower(name), id\<close>: folders before files.\<close>

definition children_in_order :: "(ustr \<Rightarrow> int) \<Rightarrow> uuid \<Rightarrow> uuid \<Rightarrow> db \<Rightarrow> uuid list" where
  "children_in_order collate owner i s =
     map ent_id (sort_key (\<lambda>e. case ent_kind e of Folder \<Rightarrow> 0 :: nat | File \<Rightarrow> 1)
       (sort_key (\<lambda>e. collate (ent_name e)) (sort_key ent_id
         (filter (\<lambda>e. ent_owner e = owner \<and> ent_parent e = Some i \<and> ent_deleted_at e = None) (entries s)))))"

text \<open>Copying the current version of a file: the new version refers to the same object.\<close>

definition copy_version :: "uuid \<Rightarrow> uuid \<Rightarrow> uuid \<Rightarrow> instant \<Rightarrow> db \<Rightarrow> drive_error + db" where
  "copy_version source new_id version_id now s =
     (case current_version s source of
        None \<Rightarrow> Inr s
      | Some v \<Rightarrow>
          (case find_row obj_id (ver_object v) (objects s) of
             None \<Rightarrow> Inr s
           | Some b \<Rightarrow>
               bindE (sql (insert_version \<lparr>ver_id = version_id, ver_file = new_id, ver_object = ver_object v,
                             ver_size_bytes = ver_size_bytes v, ver_original_modified_at = None,
                             ver_created_at = now\<rparr> s)) (\<lambda>s1.
               bindE (sql (set_current_version (Some version_id) new_id s1)) (\<lambda>s2.
                 Inr (enqueue_media_index_jobs version_id (obj_mime b) s2)))))"

text \<open>The \<open>n\<close>-th entry copied by a request draws the identifiers \<open>ids (2 * n)\<close> and, for a
  version, \<open>ids (2 * n + 1)\<close>.\<close>

definition copy_rows :: "(ustr \<Rightarrow> int) \<Rightarrow> (nat \<Rightarrow> uuid) \<Rightarrow> uuid \<Rightarrow> instant \<Rightarrow> copy_job \<Rightarrow> nat \<Rightarrow> entry
    \<Rightarrow> db \<Rightarrow> drive_error + db \<times> uuid list" where
  "copy_rows collate ids owner now job copied source s =
     (let new_id = ids (2 * copied) in
      if ent_kind source = Folder
      then bindE (sql (insert_folder new_id s)) (\<lambda>s1.
             Inr (s1, children_in_order collate owner (cj_source job) s1))
      else bindE (sql (insert_file new_id s)) (\<lambda>s1.
           bindE (copy_version (cj_source job) new_id (ids (2 * copied + 1)) now s1) (\<lambda>s2.
             Inr (s2, []))))"

definition copy_one_entry :: "(ustr \<Rightarrow> ustr) \<Rightarrow> (ustr \<Rightarrow> int) \<Rightarrow> (nat \<Rightarrow> uuid) \<Rightarrow> uuid \<Rightarrow> instant \<Rightarrow> copy_job \<Rightarrow> nat
    \<Rightarrow> db \<Rightarrow> drive_error + db \<times> nat \<times> uuid \<times> uuid list" where
  "copy_one_entry lower collate ids owner now job copied s =
     bindE (guardE (cj_depth job \<le> 40) BadRequest) (\<lambda>_.
     let copied' = copied + 1 in
     bindE (guardE (copied' \<le> MAX_COPY_ENTRIES) BadRequest) (\<lambda>_.
     bindE (okOr (find (\<lambda>e. ent_id e = cj_source job \<and> ent_owner e = owner \<and> ent_deleted_at e = None) (entries s))
              NotFound) (\<lambda>source.
     bindE (guardE (ent_system_role source = None) Protected) (\<lambda>_.
     bindE (if cj_rename job
            then available_copy_name lower owner (cj_parent job) (ent_name source) (ent_kind source = File) s
            else Inr (ent_name source)) (\<lambda>name.
     let new_id = ids (2 * copied) in
     bindE (sql (insert_entry lower (new_entry new_id owner (cj_parent job) (ent_kind source) name None now) s)) (\<lambda>s1.
     bindE (copy_rows collate ids owner now job copied source s1) (\<lambda>(s4, children).
       Inr (add_audit ''entry_copied'' (Some owner) (Some new_id) s4, copied', new_id, children))))))))"

text \<open>
  The work list of \<open>copy_owned_entry\<close>: a stack, \<open>pop\<close> takes the last job pushed, here the
  head of the list. Every round counts one more copy and fails beyond
  \<open>MAX_COPY_ENTRIES\<close>, so the loop ends even when the target lies inside the source.
\<close>

lemma copy_one_entry_counts:
  "copy_one_entry lower collate ids owner now job copied s = Inr (s', copied', r) \<Longrightarrow>
   copied' = Suc copied \<and> copied' \<le> MAX_COPY_ENTRIES"
  by (auto simp: copy_one_entry_def Let_def result_simps)

function copy_loop :: "(ustr \<Rightarrow> ustr) \<Rightarrow> (ustr \<Rightarrow> int) \<Rightarrow> (nat \<Rightarrow> uuid) \<Rightarrow> uuid \<Rightarrow> instant \<Rightarrow> copy_job list
    \<Rightarrow> uuid option \<Rightarrow> nat \<Rightarrow> db \<Rightarrow> drive_error + db \<times> nat \<times> uuid option" where
  "copy_loop lower collate ids owner now [] root copied s = Inr (s, copied, root)"
| "copy_loop lower collate ids owner now (job # pending) root copied s =
     (case copy_one_entry lower collate ids owner now job copied s of
        Inl e \<Rightarrow> Inl e
      | Inr (s', copied', new_id, children) \<Rightarrow>
          copy_loop lower collate ids owner now
            (map (\<lambda>c. \<lparr>cj_source = c, cj_parent = Some new_id, cj_rename = False, cj_depth = cj_depth job + 1\<rparr>)
               children @ pending)
            (case root of None \<Rightarrow> Some new_id | Some r \<Rightarrow> Some r) copied' s')"
  by pat_completeness auto
termination
  by (relation "measure (\<lambda>(lower, collate, ids, owner, now, pending, root, copied, s).
        (MAX_COPY_ENTRIES - copied) + (if pending = [] then 0 else 1))")
    (auto dest: copy_one_entry_counts)

definition copy_owned_entry :: "(ustr \<Rightarrow> ustr) \<Rightarrow> (ustr \<Rightarrow> int) \<Rightarrow> (nat \<Rightarrow> uuid) \<Rightarrow> uuid \<Rightarrow> instant \<Rightarrow> uuid
    \<Rightarrow> uuid option \<Rightarrow> bool \<Rightarrow> nat \<Rightarrow> nat \<Rightarrow> db \<Rightarrow> drive_error + db \<times> nat \<times> uuid" where
  "copy_owned_entry lower collate ids owner now source parent rename depth copied s =
     bindE (copy_loop lower collate ids owner now
              [\<lparr>cj_source = source, cj_parent = parent, cj_rename = rename, cj_depth = depth\<rparr>] None copied s)
       (\<lambda>(s', copied', root). bindE (okOr root BadRequest) (\<lambda>r. Inr (s', copied', r)))"

fun batch_loop :: "(ustr \<Rightarrow> ustr) \<Rightarrow> (ustr \<Rightarrow> int) \<Rightarrow> (nat \<Rightarrow> uuid) \<Rightarrow> string \<Rightarrow> uuid \<Rightarrow> instant \<Rightarrow> uuid option
    \<Rightarrow> uuid list \<Rightarrow> nat \<Rightarrow> db \<Rightarrow> drive_error + db \<times> uuid list" where
  "batch_loop lower collate ids action owner now parent [] copied s = Inr (s, [])"
| "batch_loop lower collate ids action owner now parent (i # is) copied s =
     bindE (if action = ''trash'' then bindE (trash_owned_entry lower owner now i s) (\<lambda>s1. Inr (s1, copied, i))
            else if action = ''move'' then bindE (move_owned_entry lower owner now i parent s) (\<lambda>s1. Inr (s1, copied, i))
            else if action = ''copy'' then copy_owned_entry lower collate ids owner now i parent True 0 copied s
            else Inl BadRequest) (\<lambda>(s1, copied1, r).
     bindE (batch_loop lower collate ids action owner now parent is copied1 s1) (\<lambda>(s2, rs).
       Inr (s2, r # rs)))"

definition batch_entries :: "externals \<Rightarrow> auth_settings \<Rightarrow> (ustr \<Rightarrow> int) \<Rightarrow> (nat \<Rightarrow> uuid) \<Rightarrow> auth_user \<Rightarrow> headers
    \<Rightarrow> instant \<Rightarrow> string \<Rightarrow> uuid list \<Rightarrow> uuid option \<Rightarrow> db \<Rightarrow> uuid list drive_outcome" where
  "batch_entries x settings collate ids user hs now action targets parent s =
     rollback s
       (bindE (require_request_csrf x hs user settings) (\<lambda>_.
        bindE (guardE (targets \<noteq> [] \<and> length targets \<le> MAX_BATCH_ENTRIES) BadRequest) (\<lambda>_.
        bindE (guardE (distinct targets) BadRequest) (\<lambda>_.
        bindE (guardE (action = ''move'' \<or> action = ''copy'' \<or> action = ''trash'') BadRequest) (\<lambda>_.
        bindE (if action = ''trash'' then guardE (parent = None) BadRequest
               else case parent of
                 None \<Rightarrow> Inr ()
               | Some p \<Rightarrow> bindE (ensure_active_entry (au_id user) p True s) (\<lambda>_.
                             guardE (p \<notin> set targets) BadRequest)) (\<lambda>_.
          batch_loop (sql_lower x) collate ids action (au_id user) now parent targets 0 s))))))"

section \<open>The Photos folder\<close>

definition photos_folder_id :: "uuid \<Rightarrow> db \<Rightarrow> uuid option" where
  "photos_folder_id owner s =
     map_option ent_id (find (\<lambda>e. ent_owner e = owner \<and> ent_system_role e = Some Photos \<and> ent_deleted_at e = None)
       (entries s))"

definition photos_names :: "ustr list" where
  "photos_names = [lit ''Photos'', lit ''Pictures'', lit ''Photos Library'']"

definition next_photos_folder_name :: "(ustr \<Rightarrow> ustr) \<Rightarrow> uuid \<Rightarrow> db \<Rightarrow> drive_error + ustr" where
  "next_photos_folder_name lower owner s =
     okOr (find (\<lambda>name. \<not> name_taken lower owner None name s) photos_names) Conflict"

definition adoptable :: "(ustr \<Rightarrow> ustr) \<Rightarrow> ustr \<Rightarrow> bool" where
  "adoptable lower name \<longleftrightarrow> lower name \<in> set [lit ''photos'', lit ''pictures'', lit ''photos library'']"

definition adoption_rank :: "(ustr \<Rightarrow> ustr) \<Rightarrow> ustr \<Rightarrow> nat" where
  "adoption_rank lower name =
     (if lower name = lit ''photos'' then 0 else if lower name = lit ''pictures'' then 1 else 2)"

definition adopted_folder :: "(ustr \<Rightarrow> ustr) \<Rightarrow> uuid \<Rightarrow> db \<Rightarrow> uuid option" where
  "adopted_folder lower owner s =
     (case sort_key (\<lambda>e. adoption_rank lower (ent_name e)) (sort_key ent_id
             (filter (\<lambda>e. ent_owner e = owner \<and> ent_parent e = None \<and> ent_kind e = Folder \<and> ent_deleted_at e = None
                          \<and> ent_system_role e = None \<and> adoptable lower (ent_name e)) (entries s))) of
        [] \<Rightarrow> None
      | e # _ \<Rightarrow> Some (ent_id e))"

text \<open>One list element per attempt of the loop, with the identifier it would draw.\<close>

fun ensure_photos_loop :: "(ustr \<Rightarrow> ustr) \<Rightarrow> uuid \<Rightarrow> instant \<Rightarrow> uuid list \<Rightarrow> db \<Rightarrow> uuid drive_outcome" where
  "ensure_photos_loop lower owner now [] s = (s, Inl Conflict)"
| "ensure_photos_loop lower owner now (i # tries) s =
     (case photos_folder_id owner s of
        Some f \<Rightarrow> (s, Inr f)
      | None \<Rightarrow>
          (case adopted_folder lower owner s of
             Some f \<Rightarrow>
               (case update_entry lower False
                       (\<lambda>e. ent_owner e = owner \<and> ent_system_role e = None \<and> ent_deleted_at e = None)
                       (\<lambda>e. e\<lparr>ent_system_role := Some Photos, ent_updated_at := now\<rparr>) f s of
                  Inl e \<Rightarrow> (s, Inl (map_database_error e))
                | Inr (s1, rows) \<Rightarrow>
                    if rows = 1 then (s1, Inr f) else ensure_photos_loop lower owner now tries s)
           | None \<Rightarrow>
               (case next_photos_folder_name lower owner s of
                  Inl e \<Rightarrow> (s, Inl e)
                | Inr name \<Rightarrow>
                    (case insert_entry lower (new_entry i owner None Folder name (Some Photos) now) s of
                       Inl e \<Rightarrow>
                         if map_database_error e = Conflict then ensure_photos_loop lower owner now tries s
                         else (s, Inl (map_database_error e))
                     | Inr s1 \<Rightarrow>
                         (case insert_folder i s1 of
                            Inl e \<Rightarrow> (s, Inl (map_database_error e))
                          | Inr s2 \<Rightarrow> (s2, Inr i))))))"

definition ensure_photos_folder :: "(ustr \<Rightarrow> ustr) \<Rightarrow> uuid \<Rightarrow> instant \<Rightarrow> uuid list \<Rightarrow> db \<Rightarrow> uuid drive_outcome" where
  "ensure_photos_folder lower owner now tries s = ensure_photos_loop lower owner now (take 4 tries) s"

end
