(* ===== verification/Drive_Correct.thy ===== *)
theory Drive_Correct
  imports Drive
begin

text \<open>
  Correctness of the drive handlers: the tables stay a forest of folders with unique sibling
  names and consistent file rows under every request, requests touch only rows of their own
  account, the Photos folder is never changed, trashing hides a whole subtree and revokes its
  shares, and the listings, moves and copies do what they promise.
\<close>

section \<open>The invariant\<close>

definition slots_ok :: "(ustr \<Rightarrow> ustr) \<Rightarrow> entry list \<Rightarrow> bool" where
  "slots_ok lower es \<longleftrightarrow> (\<forall>a \<in> set es. \<forall>b \<in> set es.
     ent_id a \<noteq> ent_id b \<longrightarrow> \<not> same_slot lower a b \<and> \<not> same_role a b)"

definition tree_ok :: "(ustr \<Rightarrow> ustr) \<Rightarrow> db \<Rightarrow> bool" where
  "tree_ok lower s \<longleftrightarrow> forest (entries s) \<and> slots_ok lower (entries s)
     \<and> (\<forall>e \<in> set (entries s). entry_row_check e \<and> ent_owner e \<in> usr_id ` set (users s))"

definition ids_of :: "kind \<Rightarrow> entry list \<Rightarrow> uuid set" where
  "ids_of k es = ent_id ` {e \<in> set es. ent_kind e = k}"

definition rows_ok :: "db \<Rightarrow> bool" where
  "rows_ok s \<longleftrightarrow> set (folders s) = ids_of Folder (entries s) \<and> distinct (folders s)
     \<and> fil_id ` set (files s) = ids_of File (entries s) \<and> distinct (map fil_id (files s))
     \<and> distinct (map ver_id (versions s)) \<and> ver_file ` set (versions s) \<subseteq> fil_id ` set (files s)
     \<and> ver_object ` set (versions s) \<subseteq> obj_id ` set (objects s)
     \<and> (\<forall>r \<in> set (files s). \<forall>v. fil_current_version r = Some v \<longrightarrow>
          (\<exists>w \<in> set (versions s). ver_id w = v \<and> ver_file w = fil_id r))"

definition drive_ok :: "(ustr \<Rightarrow> ustr) \<Rightarrow> db \<Rightarrow> bool" where
  "drive_ok lower s \<longleftrightarrow> tree_ok lower s \<and> rows_ok s"

lemma drive_okD: "drive_ok lower s \<Longrightarrow> forest (entries s)" "drive_ok lower s \<Longrightarrow> distinct (map ent_id (entries s))"
  by (simp_all add: drive_ok_def tree_ok_def forest_def)

lemma same_slot_sym: "same_slot lower a b \<longleftrightarrow> same_slot lower b a"
  by (auto simp: same_slot_def)

lemma same_role_sym: "same_role a b \<longleftrightarrow> same_role b a"
  unfolding same_role_def by metis

section \<open>Statements\<close>

lemma validate_parent:
  assumes "validate_drive_entry_parent es new = Inr ()" and "ent_parent new = Some p"
  shows "\<exists>e \<in> set es. ent_id e = p \<and> ent_kind e = Folder \<and> ent_owner e = ent_owner new \<and> ent_deleted_at e = None"
    and "ent_kind new = Folder \<Longrightarrow> ent_id new \<notin> ent_id ` set (climb (\<lambda>_. True) (length es) es (Some p))"
  using assms
  by (auto simp: validate_drive_entry_parent_def split: option.splits if_splits dest: find_row_Some)

lemma insert_entry_Inr:
  assumes "insert_entry lower new s = Inr s'"
  shows "s' = s\<lparr>entries := entries s @ [new]\<rparr>" and "ent_id new \<notin> ent_id ` set (entries s)"
    and "validate_drive_entry_parent (entries s) new = Inr ()" and "entry_row_check new"
    and "\<forall>e \<in> set (entries s). \<not> same_slot lower e new \<and> \<not> same_role e new"
    and "ent_owner new \<in> usr_id ` set (users s)"
  using assms by (auto simp: insert_entry_def result_simps)

lemma insert_entry_tree:
  assumes "insert_entry lower new s = Inr s'" and "tree_ok lower s"
  shows "tree_ok lower s'"
proof -
  note i = insert_entry_Inr [OF assms(1)]
  have "forest (entries s @ [new])"
    using assms(2) i(2) validate_parent(1) [OF i(3)]
    by (intro forest_insert) (auto simp: tree_ok_def)
  moreover have "slots_ok lower (entries s @ [new])"
    using assms(2) i(5) by (auto simp: tree_ok_def slots_ok_def same_slot_sym same_role_sym)
  ultimately show ?thesis using assms(2) i(1,4,6) by (auto simp: tree_ok_def)
qed

lemma update_entry_Inr:
  assumes "update_entry lower g p f i s = Inr (s', n)"
  obtains "n = 0" "s' = s" "\<not> (\<exists>e \<in> set (entries s). ent_id e = i \<and> p e)"
  | old where "n = 1" "old \<in> set (entries s)" "ent_id old = i" "p old"
      "s' = s\<lparr>entries := update_where (\<lambda>e. ent_id e = i) (\<lambda>_. f old) (entries s)\<rparr>"
      "g \<longrightarrow> validate_drive_entry_parent (entries s) (f old) = Inr ()" "entry_row_check (f old)"
      "\<forall>e \<in> set (entries s). ent_id e \<noteq> i \<longrightarrow> \<not> same_slot lower e (f old) \<and> \<not> same_role e (f old)"
proof (cases "find (\<lambda>e. ent_id e = i \<and> p e) (entries s)")
  case None
  have "\<not> (\<exists>e \<in> set (entries s). ent_id e = i \<and> p e)"
    using None by (auto simp: find_None_iff)
  with assms None that(1) show ?thesis by (auto simp: update_entry_def)
next
  case (Some old)
  then have old: "old \<in> set (entries s)" "ent_id old = i" "p old" by (auto simp: find_Some_iff)
  show ?thesis
    using assms Some that(2) [OF _ old] by (auto simp: update_entry_def Let_def result_simps split: if_splits)
qed

definition keeps_identity :: "(entry \<Rightarrow> entry) \<Rightarrow> bool" where
  "keeps_identity f \<longleftrightarrow> (\<forall>e. ent_id (f e) = ent_id e \<and> ent_owner (f e) = ent_owner e \<and> ent_kind (f e) = ent_kind e)"

lemma file_not_ancestor:
  assumes f: "forest es" and old: "old \<in> set es" "ent_kind old = File"
    and e: "e \<in> set es" "ent_kind e = Folder"
  shows "(ent_id e, ent_id old) \<notin> (parent_rel es)\<^sup>*"
proof
  assume "(ent_id e, ent_id old) \<in> (parent_rel es)\<^sup>*"
  moreover have same: "x = old" if "x \<in> set es" "ent_id x = ent_id old" for x
    using that old distinct_key_unique [OF forestD(1) [OF f]] by metis
  ultimately show False
  proof (cases rule: rtranclE)
    case base
    then show False using same e old by (metis kind.distinct(1))
  next
    case (step y)
    then show False using parents_ok_target [OF forestD(2) [OF f] step(2)] same old(2)
      by (metis kind.distinct(1))
  qed
qed

lemma update_entry_forest:
  assumes f: "forest (entries s)" and k: "keeps_identity f" and old: "old \<in> set (entries s)"
    and v: "g \<longrightarrow> validate_drive_entry_parent (entries s) (f old) = Inr ()"
    and p: "g \<or> ent_parent (f old) = ent_parent old"
  shows "forest (update_where (\<lambda>e. ent_id e = ent_id old) (\<lambda>_. f old) (entries s))"
proof (cases "ent_parent (f old) = ent_parent old")
  case True
  have eq: "update_where (\<lambda>e. ent_id e = ent_id old) (\<lambda>_. f old) (entries s)
      = map (\<lambda>e. if e = old then f old else e) (entries s)"
    unfolding update_where_def using distinct_key_unique [OF forestD(1) [OF f] _ old] by auto
  show ?thesis unfolding eq
    by (rule forest_update [OF f]) (use k True in \<open>auto simp: keeps_identity_def\<close>)
next
  case False
  with p have g: "g" by simp
  with v have v': "validate_drive_entry_parent (entries s) (f old) = Inr ()" by simp
  have same: "ent_id (f old) = ent_id old" "ent_owner (f old) = ent_owner old" "ent_kind (f old) = ent_kind old"
    using k by (simp_all add: keeps_identity_def)
  have "(x, ent_id old) \<notin> (parent_rel (entries s))\<^sup>*" if x: "ent_parent (f old) = Some x" for x
  proof -
    obtain e where e: "e \<in> set (entries s)" "ent_id e = x" "ent_kind e = Folder"
      using validate_parent(1) [OF v' x] by blast
    show ?thesis
    proof (cases "ent_kind old")
      case File
      then show ?thesis using file_not_ancestor [OF f old _ e(1,3)] e(2) by simp
    next
      case Folder
      then have "ent_id old \<notin> ent_id ` set (climb (\<lambda>_. True) (length (entries s)) (entries s) (Some x))"
        using validate_parent(2) [OF v' x] same by simp
      moreover have "x \<in> ent_id ` set (entries s)" using e by blast
      ultimately show ?thesis using climb_ids [OF f] by simp
    qed
  qed
  then show ?thesis
    using forest_reparent [OF f old same] validate_parent(1) [OF v'] by blast
qed

lemma update_entry_tree:
  assumes u: "update_entry lower g p f i s = Inr (s', n)" and ok: "tree_ok lower s"
    and k: "keeps_identity f" and par: "g \<or> (\<forall>e. ent_parent (f e) = ent_parent e)"
  shows "tree_ok lower s'"
  using u
proof (cases rule: update_entry_Inr)
  case 1
  then show ?thesis using ok by simp
next
  case (2 old)
  let ?es = "update_where (\<lambda>e. ent_id e = i) (\<lambda>_. f old) (entries s)"
  have fo: "forest ?es"
    using update_entry_forest [OF _ k 2(2) 2(6)] par ok 2(3) by (auto simp: tree_ok_def)
  have new: "ent_id (f old) = i" "ent_owner (f old) = ent_owner old"
    using k 2(3) by (simp_all add: keeps_identity_def)
  have mem: "e \<in> set ?es \<Longrightarrow> e = f old \<or> (e \<in> set (entries s) \<and> ent_id e \<noteq> i)" for e
    by (auto simp: set_update_where split: if_splits)
  have "slots_ok lower ?es"
    unfolding slots_ok_def
  proof (intro ballI impI)
    fix a b
    assume "a \<in> set ?es" "b \<in> set ?es" "ent_id a \<noteq> ent_id b"
    then show "\<not> same_slot lower a b \<and> \<not> same_role a b"
      using mem [of a] mem [of b] 2(8) ok new(1)
      by (auto simp: tree_ok_def slots_ok_def same_slot_sym same_role_sym)
  qed
  moreover have "\<forall>e \<in> set ?es. entry_row_check e \<and> ent_owner e \<in> usr_id ` set (users s)"
  proof
    fix e
    assume "e \<in> set ?es"
    with mem [of e] ok 2(2,7) new(2) show "entry_row_check e \<and> ent_owner e \<in> usr_id ` set (users s)"
      by (auto simp: tree_ok_def simp del: image_iff)
  qed
  ultimately show ?thesis using fo by (simp add: 2(5) tree_ok_def)
qed

lemma ids_of_update:
  assumes "distinct (map ent_id es)" and "old \<in> set es" and "ent_id new = ent_id old" and "ent_kind new = ent_kind old"
  shows "ids_of k (update_where (\<lambda>e. ent_id e = ent_id old) (\<lambda>_. new) es) = ids_of k es"
proof -
  have eq: "(if ent_id e = ent_id old then new else e) = (if e = old then new else e)" if "e \<in> set es" for e
    using that assms(2) distinct_key_unique [OF assms(1)] by metis
  show ?thesis
    using assms(2-4) by (auto simp: ids_of_def set_update_where eq image_iff split: if_splits) (metis+)
qed

lemma update_entry_rows:
  assumes u: "update_entry lower g p f i s = Inr (s', n)" and t: "tree_ok lower s" and ok: "rows_ok s"
    and k: "keeps_identity f"
  shows "rows_ok s'"
  using u
proof (cases rule: update_entry_Inr)
  case 1
  then show ?thesis using ok by simp
next
  case (2 old)
  have "ids_of K (update_where (\<lambda>e. ent_id e = i) (\<lambda>_. f old) (entries s)) = ids_of K (entries s)" for K
    using ids_of_update [of "entries s" old "f old" K] t k 2(2,3)
    by (auto simp: tree_ok_def forest_def keeps_identity_def)
  then show ?thesis using ok unfolding rows_ok_def 2(5) by simp blast
qed

lemma update_entry_ok:
  "update_entry lower g p f i s = Inr (s', n) \<Longrightarrow> drive_ok lower s \<Longrightarrow> keeps_identity f \<Longrightarrow>
   g \<or> (\<forall>e. ent_parent (f e) = ent_parent e) \<Longrightarrow> drive_ok lower s'"
  by (simp add: drive_ok_def update_entry_tree update_entry_rows)

lemma drive_ok_frame:
  "entries s' = entries s \<Longrightarrow> users s' = users s \<Longrightarrow> folders s' = folders s \<Longrightarrow> files s' = files s \<Longrightarrow>
   versions s' = versions s \<Longrightarrow> objects s' = objects s \<Longrightarrow> drive_ok lower s' = drive_ok lower s"
  by (simp add: drive_ok_def tree_ok_def rows_ok_def)

lemma drive_ok_audit [simp]: "drive_ok lower (add_audit t a r s) = drive_ok lower s"
  by (rule drive_ok_frame) (simp_all add: add_audit_def)

text \<open>A folder entry with its folder row.\<close>

lemma new_folder_ok:
  assumes ok: "drive_ok lower s" and e: "insert_entry lower new s = Inr s1" and f: "insert_folder (ent_id new) s1 = Inr s2"
    and k: "ent_kind new = Folder"
  shows "drive_ok lower s2"
proof -
  note i = insert_entry_Inr [OF e]
  from f have s2: "s2 = s1\<lparr>folders := folders s1 @ [ent_id new]\<rparr>" and nf: "ent_id new \<notin> set (folders s1)"
    by (auto simp: insert_folder_def result_simps)
  have "tree_ok lower s2"
    using insert_entry_tree [OF e] ok by (simp add: drive_ok_def s2 tree_ok_def)
  moreover have "rows_ok s2"
  proof -
    have "ids_of Folder (entries s @ [new]) = insert (ent_id new) (ids_of Folder (entries s))"
      "ids_of File (entries s @ [new]) = ids_of File (entries s)"
      using k by (auto simp: ids_of_def)
    then show ?thesis using ok nf unfolding drive_ok_def rows_ok_def s2 i(1) by simp blast
  qed
  ultimately show ?thesis by (simp add: drive_ok_def)
qed

text \<open>A file entry with its file row, and a version that becomes the current one.\<close>

lemma new_file_ok:
  assumes ok: "drive_ok lower s" and e: "insert_entry lower new s = Inr s1" and f: "insert_file (ent_id new) s1 = Inr s2"
    and k: "ent_kind new = File"
  shows "drive_ok lower s2"
proof -
  note i = insert_entry_Inr [OF e]
  from f have s2: "s2 = s1\<lparr>files := files s1 @ [\<lparr>fil_id = ent_id new, fil_current_version = None\<rparr>]\<rparr>"
    and nf: "ent_id new \<notin> fil_id ` set (files s1)"
    by (auto simp: insert_file_def result_simps)
  have "tree_ok lower s2"
    using insert_entry_tree [OF e] ok by (simp add: drive_ok_def s2 tree_ok_def)
  moreover have "rows_ok s2"
  proof -
    have "ids_of File (entries s @ [new]) = insert (ent_id new) (ids_of File (entries s))"
      "ids_of Folder (entries s @ [new]) = ids_of Folder (entries s)"
      using k by (auto simp: ids_of_def)
    then show ?thesis using ok nf unfolding drive_ok_def rows_ok_def s2 i(1) by simp blast
  qed
  ultimately show ?thesis by (simp add: drive_ok_def)
qed

lemma insert_version_Inr:
  assumes "insert_version v s = Inr s'"
  shows "s' = s\<lparr>versions := versions s @ [v]\<rparr>" and "ver_id v \<notin> ver_id ` set (versions s)"
    and "ver_file v \<in> fil_id ` set (files s)" and "ver_object v \<in> obj_id ` set (objects s)"
  using assms by (auto simp: insert_version_def result_simps)

lemma set_current_Inr:
  assumes "set_current_version v f s = Inr s'"
  shows "s' = s\<lparr>files := update_where (\<lambda>r. fil_id r = f) (\<lambda>r. r\<lparr>fil_current_version := v\<rparr>) (files s)\<rparr>"
  using assms by (auto simp: set_current_version_def result_simps)

lemma new_version_ok:
  assumes ok: "drive_ok lower s" and v: "insert_version v s = Inr s1"
    and c: "set_current_version (Some (ver_id v)) (ver_file v) s1 = Inr s2"
  shows "drive_ok lower s2"
proof -
  note i = insert_version_Inr [OF v]
  have s2: "s2 = s\<lparr>versions := versions s @ [v],
      files := update_where (\<lambda>r. fil_id r = ver_file v) (\<lambda>r. r\<lparr>fil_current_version := Some (ver_id v)\<rparr>) (files s)\<rparr>"
    using set_current_Inr [OF c] by (simp add: i(1))
  let ?u = "update_where (\<lambda>r. fil_id r = ver_file v) (\<lambda>r. r\<lparr>fil_current_version := Some (ver_id v)\<rparr>) (files s)"
  have map_ids: "map fil_id ?u = map fil_id (files s)" by (rule map_key_update_where) simp
  then have "fil_id ` set ?u = fil_id ` set (files s)" by (metis set_map)
  note ids = map_ids this
  have cur: "\<exists>w \<in> set (versions s @ [v]). ver_id w = x \<and> ver_file w = fil_id r"
    if r: "r \<in> set ?u" "fil_current_version r = Some x" for r x
  proof -
    from r(1) obtain r0 where r0: "r0 \<in> set (files s)"
      "r = (if fil_id r0 = ver_file v then r0\<lparr>fil_current_version := Some (ver_id v)\<rparr> else r0)"
      by (auto simp: set_update_where)
    show ?thesis
    proof (cases "fil_id r0 = ver_file v")
      case True
      then show ?thesis using r0 r(2) by auto
    next
      case False
      then have "r = r0" using r0 by simp
      then show ?thesis using ok r0(1) r(2) by (auto simp: drive_ok_def rows_ok_def)
    qed
  qed
  have "rows_ok s2"
    using ok i(2-4) cur unfolding drive_ok_def rows_ok_def s2 by (simp add: ids) blast
  moreover have "tree_ok lower s2" using ok by (simp add: drive_ok_def tree_ok_def s2)
  ultimately show ?thesis by (simp add: drive_ok_def)
qed

section \<open>Writes of an account\<close>

text \<open>
  Every drive request changes the database by a sequence of the writes below, made for the
  account of the request.
\<close>

inductive drive_write :: "(ustr \<Rightarrow> ustr) \<Rightarrow> uuid \<Rightarrow> db \<Rightarrow> db \<Rightarrow> bool" for lower owner where
  entry_updated: "update_entry lower g p f i s = Inr (s', n) \<Longrightarrow> keeps_identity f \<Longrightarrow>
     g \<or> (\<forall>e. ent_parent (f e) = ent_parent e) \<Longrightarrow>
     (\<And>e. e \<in> set (entries s) \<Longrightarrow> ent_id e = i \<Longrightarrow> p e \<Longrightarrow>
        ent_owner e = owner \<and> (ent_system_role e = None \<or> ent_deleted_at e \<noteq> None)) \<Longrightarrow>
     drive_write lower owner s s'"
| folder_added: "insert_entry lower new s = Inr s1 \<Longrightarrow> ent_kind new = Folder \<Longrightarrow> ent_owner new = owner \<Longrightarrow>
     insert_folder (ent_id new) s1 = Inr s2 \<Longrightarrow> drive_write lower owner s s2"
| file_added: "insert_entry lower new s = Inr s1 \<Longrightarrow> ent_kind new = File \<Longrightarrow> ent_owner new = owner \<Longrightarrow>
     insert_file (ent_id new) s1 = Inr s2 \<Longrightarrow> drive_write lower owner s s2"
| version_added: "insert_version v s = Inr s1 \<Longrightarrow>
     set_current_version (Some (ver_id v)) (ver_file v) s1 = Inr s2 \<Longrightarrow>
     (\<And>e. e \<in> set (entries s) \<Longrightarrow> ent_id e = ver_file v \<Longrightarrow> ent_owner e = owner) \<Longrightarrow> drive_write lower owner s s2"
| shares_revoked: "drive_write lower owner s (revoke_subtree_shares owner ids now s)"
| access_dropped: "drive_write lower owner s (drop_subtree_access owner ids s)"
| job_enqueued: "drive_write lower owner s (enqueue_media_index_jobs v m s)"
| event_recorded: "drive_write lower owner s (add_audit t a r s)"

abbreviation drive_writes :: "(ustr \<Rightarrow> ustr) \<Rightarrow> uuid \<Rightarrow> db \<Rightarrow> db \<Rightarrow> bool" where
  "drive_writes lower owner \<equiv> (drive_write lower owner)\<^sup>*\<^sup>*"

lemma enqueue_frame [simp]:
  "entries (enqueue_media_index_jobs v m s) = entries s" "users (enqueue_media_index_jobs v m s) = users s"
  "folders (enqueue_media_index_jobs v m s) = folders s" "files (enqueue_media_index_jobs v m s) = files s"
  "versions (enqueue_media_index_jobs v m s) = versions s" "objects (enqueue_media_index_jobs v m s) = objects s"
  "shares (enqueue_media_index_jobs v m s) = shares s" "uploads (enqueue_media_index_jobs v m s) = uploads s"
  by (simp_all add: enqueue_media_index_jobs_def add_job_def Let_def split: option.splits prod.splits)

lemma share_frame [simp]:
  "entries (revoke_subtree_shares u ids now s) = entries s" "entries (drop_subtree_access u ids s) = entries s"
  "files (revoke_subtree_shares u ids now s) = files s" "files (drop_subtree_access u ids s) = files s"
  "versions (revoke_subtree_shares u ids now s) = versions s" "versions (drop_subtree_access u ids s) = versions s"
  "shares (drop_subtree_access u ids s) = shares s"
  by (simp_all add: revoke_subtree_shares_def drop_subtree_access_def)

lemma drive_write_ok: "drive_write lower owner s s' \<Longrightarrow> drive_ok lower s \<Longrightarrow> drive_ok lower s'"
proof (induction rule: drive_write.induct)
  case (entry_updated g p f i s s' n)
  then show ?case by (blast intro: update_entry_ok)
next
  case (folder_added new s s1 s2)
  then show ?case by (blast intro: new_folder_ok)
next
  case (file_added new s s1 s2)
  then show ?case by (blast intro: new_file_ok)
next
  case (version_added v s s1 s2)
  then show ?case by (blast intro: new_version_ok)
next
  case (shares_revoked s ids now)
  then show ?case by (subst drive_ok_frame) (simp_all add: revoke_subtree_shares_def)
next
  case (access_dropped s ids)
  then show ?case by (subst drive_ok_frame) (simp_all add: drop_subtree_access_def)
next
  case (job_enqueued s v m)
  then show ?case by (subst drive_ok_frame) simp_all
next
  case (event_recorded s t a r)
  then show ?case by simp
qed

lemma drive_writes_ok: "drive_writes lower owner s s' \<Longrightarrow> drive_ok lower s \<Longrightarrow> drive_ok lower s'"
  by (induction rule: rtranclp_induct) (auto intro: drive_write_ok)

subsection \<open>Rows of other accounts\<close>

definition foreign_same :: "uuid \<Rightarrow> db \<Rightarrow> db \<Rightarrow> bool" where
  "foreign_same owner s s' \<longleftrightarrow>
     filter (\<lambda>e. ent_owner e \<noteq> owner) (entries s') = filter (\<lambda>e. ent_owner e \<noteq> owner) (entries s)
     \<and> filter (\<lambda>r. shr_owner r \<noteq> owner) (shares s') = filter (\<lambda>r. shr_owner r \<noteq> owner) (shares s)
     \<and> (\<forall>e \<in> set (entries s). ent_owner e \<noteq> owner \<longrightarrow>
          current_version s' (ent_id e) = current_version s (ent_id e))"

lemma foreign_same_refl: "foreign_same owner s s"
  by (simp add: foreign_same_def)

lemma foreign_same_trans:
  assumes "foreign_same owner s t" and "foreign_same owner t u"
  shows "foreign_same owner s u"
proof -
  have "e \<in> set (entries t)" if "e \<in> set (entries s)" "ent_owner e \<noteq> owner" for e
  proof -
    have "e \<in> set (filter (\<lambda>e. ent_owner e \<noteq> owner) (entries t))"
      using assms(1) that by (simp add: foreign_same_def)
    then show ?thesis by simp
  qed
  with assms show ?thesis by (simp add: foreign_same_def)
qed

lemma current_version_frame:
  "files s' = files s \<Longrightarrow> versions s' = versions s \<Longrightarrow> current_version s' i = current_version s i"
  by (simp add: current_version_def cong: option.case_cong)

lemma current_version_other [simp]:
  "current_version (s\<lparr>entries := es\<rparr>) i = current_version s i"
  "current_version (s\<lparr>folders := fs\<rparr>) i = current_version s i"
  "current_version (revoke_subtree_shares u ids now s) i = current_version s i"
  "current_version (drop_subtree_access u ids s) i = current_version s i"
  "current_version (enqueue_media_index_jobs v m s) i = current_version s i"
  "current_version (add_audit t a r s) i = current_version s i"
  by (rule current_version_frame; simp add: add_audit_def)+

lemma filter_update_where:
  "(\<And>r. r \<in> set rows \<Longrightarrow> p r \<Longrightarrow> \<not> q r \<and> \<not> q (f r)) \<Longrightarrow> filter q (update_where p f rows) = filter q rows"
  by (induction rows) (auto simp: update_where_def)

lemma update_entry_foreign:
  assumes u: "update_entry lower g p f i s = Inr (s', n)" and k: "keeps_identity f"
    and d: "distinct (map ent_id (entries s))"
    and own: "\<And>e. e \<in> set (entries s) \<Longrightarrow> ent_id e = i \<Longrightarrow> p e \<Longrightarrow> ent_owner e = owner"
  shows "foreign_same owner s s'"
  using u
proof (cases rule: update_entry_Inr)
  case 1
  then show ?thesis by (simp add: foreign_same_refl)
next
  case (2 old)
  have "ent_owner old = owner" using own 2(2-4) by blast
  moreover have "e = old" if "e \<in> set (entries s)" "ent_id e = i" for e
    using that 2(2,3) distinct_key_unique [OF d] by metis
  ultimately have "filter (\<lambda>e. ent_owner e \<noteq> owner) (update_where (\<lambda>e. ent_id e = i) (\<lambda>_. f old) (entries s))
      = filter (\<lambda>e. ent_owner e \<noteq> owner) (entries s)"
    using k by (intro filter_update_where) (auto simp: keeps_identity_def)
  then show ?thesis by (simp add: foreign_same_def 2(5))
qed

lemma current_version_some:
  "drive_ok lower s \<Longrightarrow> r \<in> set (files s) \<Longrightarrow> fil_current_version r = Some v \<Longrightarrow> find_row ver_id v (versions s) \<noteq> None"
  unfolding drive_ok_def rows_ok_def find_row_None by blast

lemma version_added_foreign:
  assumes ok: "drive_ok lower s" and v: "insert_version v s = Inr s1"
    and c: "set_current_version (Some (ver_id v)) (ver_file v) s1 = Inr s2" and i: "i \<noteq> ver_file v"
  shows "current_version s2 i = current_version s i"
proof -
  have s2: "files s2 = update_where (\<lambda>r. fil_id r = ver_file v) (\<lambda>r. r\<lparr>fil_current_version := Some (ver_id v)\<rparr>) (files s)"
    "versions s2 = versions s @ [v]"
    using set_current_Inr [OF c] insert_version_Inr(1) [OF v] by simp_all
  have "find_row fil_id i (files s2) = find_row fil_id i (files s)"
    using i by (auto simp: s2 find_row_update_where option.map_ident dest!: find_row_Some
        split: option.splits intro!: option.map_ident_strong)
  moreover have "find_row ver_id x (versions s @ [v]) = find_row ver_id x (versions s)"
    if "find_row fil_id i (files s) = Some r" "fil_current_version r = Some x" for r x
    using current_version_some [OF ok _ that(2)] find_row_Some [OF that(1)]
    by (auto simp: find_row_append split: option.splits)
  ultimately show ?thesis
    by (auto simp: current_version_def s2 split: option.splits)
qed

lemma file_row_append:
  assumes "i \<noteq> fil_id r"
  shows "current_version (s\<lparr>files := files s @ [r]\<rparr>) i = current_version s i"
proof -
  have "find_row fil_id i [r] = None" using assms by (simp add: find_row_def)
  then have "find_row fil_id i (files s @ [r]) = find_row fil_id i (files s)"
    by (simp add: find_row_append split: option.splits)
  then show ?thesis by (simp add: current_version_def cong: option.case_cong)
qed

lemma drive_write_foreign:
  "drive_write lower owner s s' \<Longrightarrow> drive_ok lower s \<Longrightarrow> foreign_same owner s s'"
proof (induction rule: drive_write.induct)
  case (entry_updated g p f i s s' n)
  then show ?case using update_entry_foreign [OF entry_updated(1,2)] drive_okD(2) by blast
next
  case (folder_added new s s1 s2)
  then have "s2 = s\<lparr>entries := entries s @ [new], folders := folders s @ [ent_id new]\<rparr>"
    using insert_entry_Inr(1) [OF folder_added(1)] by (auto simp: insert_folder_def result_simps)
  with folder_added(3) show ?case by (simp add: foreign_same_def)
next
  case (file_added new s s1 s2)
  note i = insert_entry_Inr [OF file_added(1)]
  from file_added(4) have s2: "s2 = s\<lparr>entries := entries s @ [new],
      files := files s @ [\<lparr>fil_id = ent_id new, fil_current_version = None\<rparr>]\<rparr>"
    using i(1) by (auto simp: insert_file_def result_simps)
  have "current_version s2 (ent_id e) = current_version s (ent_id e)" if "e \<in> set (entries s)" for e
  proof -
    have "ent_id e \<noteq> ent_id new" using i(2) that by (metis imageI)
    then have "current_version (s\<lparr>entries := entries s @ [new],
        files := files (s\<lparr>entries := entries s @ [new]\<rparr>) @ [\<lparr>fil_id = ent_id new, fil_current_version = None\<rparr>]\<rparr>)
        (ent_id e) = current_version (s\<lparr>entries := entries s @ [new]\<rparr>) (ent_id e)"
      by (intro file_row_append) simp
    then show ?thesis by (simp add: s2)
  qed
  with file_added(3) show ?case by (simp add: foreign_same_def s2)
next
  case (version_added v s s1 s2)
  have "entries s2 = entries s" "shares s2 = shares s"
    using set_current_Inr [OF version_added(2)] insert_version_Inr(1) [OF version_added(1)] by simp_all
  moreover have "current_version s2 (ent_id e) = current_version s (ent_id e)"
    if "e \<in> set (entries s)" "ent_owner e \<noteq> owner" for e
    using version_added_foreign [OF version_added(4,1,2)] version_added(3) that by blast
  ultimately show ?case by (simp add: foreign_same_def)
next
  case (shares_revoked s ids now)
  have "filter (\<lambda>r. shr_owner r \<noteq> owner) (shares (revoke_subtree_shares owner ids now s))
      = filter (\<lambda>r. shr_owner r \<noteq> owner) (shares s)"
    unfolding revoke_subtree_shares_def by (simp, rule filter_update_where) (auto simp: shared_in_def)
  then show ?case by (simp add: foreign_same_def)
next
  case (access_dropped s ids)
  then show ?case by (simp add: foreign_same_def)
next
  case (job_enqueued s v m)
  then show ?case by (simp add: foreign_same_def)
next
  case (event_recorded s t a r)
  then show ?case by (simp add: foreign_same_def) (simp add: add_audit_def)
qed

lemma drive_writes_foreign:
  assumes "drive_writes lower owner s s'" and "drive_ok lower s"
  shows "foreign_same owner s s'"
  using assms
proof (induction rule: rtranclp_induct)
  case base
  then show ?case by (simp add: foreign_same_refl)
next
  case (step t u)
  then show ?case
    using drive_writes_ok drive_write_foreign foreign_same_trans by blast
qed

subsection \<open>System folders\<close>

definition system_folder :: "entry \<Rightarrow> db \<Rightarrow> bool" where
  "system_folder e s \<longleftrightarrow> e \<in> set (entries s) \<and> ent_system_role e \<noteq> None \<and> ent_deleted_at e = None"

lemma drive_write_system:
  "drive_write lower owner s s' \<Longrightarrow> drive_ok lower s \<Longrightarrow> system_folder e s \<Longrightarrow> system_folder e s'"
proof (induction rule: drive_write.induct)
  case (entry_updated g p f i s s' n)
  from entry_updated(1) show ?case
  proof (cases rule: update_entry_Inr)
    case 1
    with entry_updated show ?thesis by simp
  next
    case (2 old)
    have "ent_id e \<noteq> i"
    proof
      assume "ent_id e = i"
      then have "e = old" using 2(2,3) entry_updated.prems distinct_key_unique [OF drive_okD(2)]
        by (metis system_folder_def)
      then show False using entry_updated(4) [OF 2(2-4)] entry_updated.prems by (simp add: system_folder_def)
    qed
    with entry_updated.prems show ?thesis
      by (auto simp: 2(5) system_folder_def set_update_where image_iff)
  qed
next
  case (folder_added new s s1 s2)
  then show ?case using insert_entry_Inr(1) [OF folder_added(1)]
    by (auto simp: insert_folder_def result_simps system_folder_def)
next
  case (file_added new s s1 s2)
  then show ?case using insert_entry_Inr(1) [OF file_added(1)]
    by (auto simp: insert_file_def result_simps system_folder_def)
next
  case (version_added v s s1 s2)
  then show ?case using set_current_Inr [OF version_added(2)] insert_version_Inr(1) [OF version_added(1)]
    by (simp add: system_folder_def)
qed (simp_all add: system_folder_def add_audit_def)

lemma drive_writes_system:
  assumes "drive_writes lower owner s s'" and "drive_ok lower s" and "system_folder e s"
  shows "system_folder e s'"
  using assms
proof (induction rule: rtranclp_induct)
  case base
  then show ?case by simp
next
  case (step t u)
  then show ?case using drive_writes_ok drive_write_system by blast
qed

subsection \<open>Every handler is a sequence of writes\<close>

lemma drive_writes_step: "drive_writes lower owner s t \<Longrightarrow> drive_write lower owner t u \<Longrightarrow> drive_writes lower owner s u"
  by simp

lemma mutable_row:
  assumes "ensure_mutable_entry owner i s = Inr ()" and "distinct (map ent_id (entries s))"
    and "e \<in> set (entries s)" and "ent_id e = i" and "ent_owner e = owner" and "ent_deleted_at e = None"
  shows "ent_system_role e = None"
proof -
  have "find (\<lambda>e. ent_id e = i \<and> ent_owner e = owner \<and> ent_deleted_at e = None) (entries s) = Some e"
    using assms by (simp add: find_entry_iff)
  with assms(1) show ?thesis by (simp add: ensure_mutable_entry_def split: if_splits)
qed

lemma keeps_identity_simps [simp]:
  "keeps_identity (\<lambda>e. e\<lparr>ent_name := n, ent_updated_at := t\<rparr>)"
  "keeps_identity (\<lambda>e. e\<lparr>ent_parent := p, ent_updated_at := t\<rparr>)"
  "keeps_identity (\<lambda>e. e\<lparr>ent_deleted_at := d, ent_updated_at := t\<rparr>)"
  "keeps_identity (\<lambda>e. e\<lparr>ent_system_role := r, ent_updated_at := t\<rparr>)"
  by (simp_all add: keeps_identity_def)

lemma sql_Inr_iff [result_simps]: "sql m = Inr v \<longleftrightarrow> m = Inr v"
  by (simp add: sql_def result_simps)

lemma owner_update:
  assumes "update_entry lower g (active_row owner) f i s = Inr (s', n)" and "drive_ok lower s"
    and "ensure_mutable_entry owner i s = Inr ()" and "keeps_identity f"
    and "g \<or> (\<forall>e. ent_parent (f e) = ent_parent e)"
  shows "drive_write lower owner s s'"
  by (rule entry_updated [OF assms(1,4,5)])
    (use mutable_row [OF assms(3) drive_okD(2) [OF assms(2)]] in \<open>auto simp: active_row_def\<close>)

lemma folder_insert_writes:
  assumes "insert_entry lower (new_entry i owner parent Folder n r now) s = Inr s1" and "insert_folder i s1 = Inr s2"
  shows "drive_writes lower owner s s2"
  using folder_added [OF assms(1)] assms(2) by (auto simp: new_entry_def)

lemma create_folder_writes:
  "drive_writes (sql_lower x) (au_id user) s (fst (create_folder x st user hs now i name parent s))"
  by (auto simp: create_folder_def result_simps split: sum.splits intro: folder_insert_writes)

lemma rename_entry_writes:
  "drive_ok (sql_lower x) s \<Longrightarrow>
   drive_writes (sql_lower x) (au_id user) s (fst (rename_entry x st user hs now i name s))"
  by (auto simp: rename_entry_def result_simps split: sum.splits intro!: r_into_rtranclp owner_update)

lemma move_entry_writes:
  "drive_ok (sql_lower x) s \<Longrightarrow>
   drive_writes (sql_lower x) (au_id user) s (fst (move_entry x st user hs now i parent s))"
  by (auto simp: move_entry_def result_simps split: sum.splits intro!: r_into_rtranclp owner_update)

lemma trash_owned_writes:
  assumes "trash_owned_entry lower owner now i s = Inr s'" and "drive_ok lower s"
  shows "drive_writes lower owner s s'"
proof -
  from assms(1) obtain s1 where m: "ensure_mutable_entry owner i s = Inr ()"
    and u: "update_entry lower False (active_row owner)
              (\<lambda>e. e\<lparr>ent_deleted_at := Some now, ent_updated_at := now\<rparr>) i s = Inr (s1, 1)"
    and s': "s' = add_audit ''entry_trashed'' (Some owner) (Some i)
        (drop_subtree_access owner (map ent_id (subtree owner i s1))
          (revoke_subtree_shares owner (map ent_id (subtree owner i s1)) now s1))"
    by (auto simp: trash_owned_entry_def result_simps Let_def)
  have "drive_write lower owner s s1" by (rule owner_update [OF u assms(2) m]) simp_all
  then have "drive_writes lower owner s s1" by simp
  from drive_writes_step [OF drive_writes_step [OF drive_writes_step [OF this shares_revoked] access_dropped] event_recorded]
  show ?thesis unfolding s' .
qed

lemma trash_entry_writes:
  "drive_ok (sql_lower x) s \<Longrightarrow>
   drive_writes (sql_lower x) (au_id user) s (fst (trash_entry x st user hs now i s))"
  by (auto simp: trash_entry_def rollback_def result_simps split: sum.splits intro: trash_owned_writes)

lemma restore_entry_writes:
  "drive_writes (sql_lower x) (au_id user) s (fst (restore_entry x st user hs now i s))"
proof -
  have "drive_writes (sql_lower x) (au_id user) s (add_audit t a r s1)"
    if "update_entry (sql_lower x) False (\<lambda>e. ent_owner e = au_id user \<and> ent_deleted_at e \<noteq> None)
          (\<lambda>e. e\<lparr>ent_deleted_at := None, ent_updated_at := now\<rparr>) i s = Inr (s1, n)" for s1 n t a r
    by (intro drive_writes_step [OF r_into_rtranclp event_recorded], rule entry_updated [OF that]) auto
  then show ?thesis
    by (auto simp: restore_entry_def result_simps split: sum.splits)
qed

lemma move_owned_writes:
  "move_owned_entry lower owner now i parent s = Inr s' \<Longrightarrow> drive_ok lower s \<Longrightarrow> drive_writes lower owner s s'"
  by (auto simp: move_owned_entry_def result_simps intro!: r_into_rtranclp owner_update)

lemma copy_version_writes:
  assumes "copy_version source i v now s = Inr s'"
    and "\<And>e. e \<in> set (entries s) \<Longrightarrow> ent_id e = i \<Longrightarrow> ent_owner e = owner"
  shows "drive_writes lower owner s s'"
proof (cases "s' = s")
  case True
  then show ?thesis by simp
next
  case False
  with assms(1) obtain w :: version_row and b :: object_row and s1 s2 where
    "insert_version \<lparr>ver_id = v, ver_file = i, ver_object = ver_object w, ver_size_bytes = ver_size_bytes w,
       ver_original_modified_at = None, ver_created_at = now\<rparr> s = Inr s1"
    "set_current_version (Some v) i s1 = Inr s2" "s' = enqueue_media_index_jobs v (obj_mime b) s2"
    by (auto simp: copy_version_def result_simps split: option.splits)
  then have "drive_write lower owner s s2" "drive_write lower owner s2 s'"
    using version_added [of "\<lparr>ver_id = v, ver_file = i, ver_object = ver_object w, ver_size_bytes = ver_size_bytes w,
       ver_original_modified_at = None, ver_created_at = now\<rparr>" s s1 s2 owner lower] assms(2)
    by (auto intro: job_enqueued)
  then show ?thesis by (meson converse_rtranclp_into_rtranclp r_into_rtranclp)
qed

lemma copy_one_writes:
  assumes "copy_one_entry lower collate ids owner now job copied s = Inr (s', r)" and ok: "drive_ok lower s"
  shows "drive_writes lower owner s s'"
proof -
  from assms(1) obtain source :: entry and name s1 s4 children where
    e: "insert_entry lower (new_entry (ids (2 * copied)) owner (cj_parent job) (ent_kind source) name None now) s = Inr s1"
    and s': "s' = add_audit ''entry_copied'' (Some owner) (Some (ids (2 * copied))) s4"
    and c: "copy_rows collate ids owner now job copied source s1 = Inr (s4, children)"
    by (auto simp: copy_one_entry_def Let_def result_simps)
  let ?new = "new_entry (ids (2 * copied)) owner (cj_parent job) (ent_kind source) name None now"
  have n: "ent_id ?new = ids (2 * copied)" "ent_owner ?new = owner" "ent_kind ?new = ent_kind source"
    by (simp_all add: new_entry_def)
  have "drive_writes lower owner s s4"
  proof (cases "ent_kind source")
    case Folder
    then have "insert_folder (ids (2 * copied)) s1 = Inr s4" using c by (auto simp: copy_rows_def Let_def result_simps)
    then show ?thesis using Folder n folder_added [OF e] by auto
  next
    case File
    then obtain s2 where s2: "insert_file (ids (2 * copied)) s1 = Inr s2"
      "copy_version (cj_source job) (ids (2 * copied)) (ids (2 * copied + 1)) now s2 = Inr s4"
      using c by (auto simp: copy_rows_def Let_def result_simps)
    have w: "drive_write lower owner s s2" using file_added [OF e] n File s2(1) by auto
    have "entries s2 = entries s @ [?new]"
      using s2(1) insert_entry_Inr(1) [OF e] by (auto simp: insert_file_def result_simps)
    then have "ent_owner c = owner" if "c \<in> set (entries s2)" "ent_id c = ids (2 * copied)" for c
      using that n insert_entry_Inr(2) [OF e] by (auto simp: image_iff)
    then show ?thesis
      using copy_version_writes [OF s2(2)] w by (meson converse_rtranclp_into_rtranclp)
  qed
  then show ?thesis unfolding s' by (rule drive_writes_step [OF _ event_recorded])
qed

lemma copy_loop_writes:
  "copy_loop lower collate ids owner now pending root copied s = Inr (s', r) \<Longrightarrow> drive_ok lower s \<Longrightarrow>
   drive_writes lower owner s s'"
proof (induction lower collate ids owner now pending root copied s rule: copy_loop.induct)
  case (1 lower collate ids owner now root copied s)
  then show ?case by simp
next
  case (2 lower collate ids owner now job pending root copied s)
  then obtain t copied' i children where
    c: "copy_one_entry lower collate ids owner now job copied s = Inr (t, copied', i, children)"
    by (auto split: sum.splits)
  from copy_one_writes [OF c 2(3)] have w: "drive_writes lower owner s t" .
  moreover have "drive_writes lower owner t s'"
    using 2(1) [OF c] 2(2,3) c drive_writes_ok [OF w] by simp
  ultimately show ?case by (rule rtranclp_trans)
qed

lemma copy_owned_writes:
  "copy_owned_entry lower collate ids owner now source parent rename depth copied s = Inr (s', r) \<Longrightarrow>
   drive_ok lower s \<Longrightarrow> drive_writes lower owner s s'"
  by (auto simp: copy_owned_entry_def result_simps simp del: copy_loop.simps dest: copy_loop_writes)

lemma batch_loop_writes:
  "batch_loop lower collate ids action owner now parent is copied s = Inr (s', rs) \<Longrightarrow>
   drive_ok lower s \<Longrightarrow> drive_writes lower owner s s'"
proof (induction lower collate ids action owner now parent "is" copied s arbitrary: s' rs rule: batch_loop.induct)
  case (1 lower collate ids action owner now parent copied s)
  then show ?case by simp
next
  case (2 lower collate ids action owner now parent i "is" copied s)
  then obtain t copied1 r rs1 where
    h: "(if action = ''trash'' then bindE (trash_owned_entry lower owner now i s) (\<lambda>s1. Inr (s1, copied, i))
            else if action = ''move'' then bindE (move_owned_entry lower owner now i parent s) (\<lambda>s1. Inr (s1, copied, i))
            else if action = ''copy'' then copy_owned_entry lower collate ids owner now i parent True 0 copied s
            else Inl BadRequest) = Inr (t, copied1, r)"
    and l: "batch_loop lower collate ids action owner now parent is copied1 t = Inr (s', rs1)"
    by (auto simp: result_simps simp del: bindE_simps)
  have w: "drive_writes lower owner s t"
    using h 2(3) by (auto simp: result_simps split: if_splits
        dest: trash_owned_writes move_owned_writes copy_owned_writes)
  have "drive_writes lower owner t s'"
    by (rule 2(1) [OF l drive_writes_ok [OF w 2(3)]])
  with w show ?case by (rule rtranclp_trans)
qed

lemma rollback_writes:
  "(\<And>s' v. m = Inr (s', v) \<Longrightarrow> drive_writes lower owner s s') \<Longrightarrow> drive_writes lower owner s (fst (rollback s m))"
  by (auto simp: rollback_def split: sum.splits)

lemma batch_entries_writes:
  "drive_ok (sql_lower x) s \<Longrightarrow>
   drive_writes (sql_lower x) (au_id user) s (fst (batch_entries x st collate ids user hs now action targets parent s))"
  unfolding batch_entries_def
  by (rule rollback_writes) (auto simp only: result_simps intro: batch_loop_writes)

lemma adopt_writes:
  assumes "update_entry lower False (\<lambda>e. ent_owner e = owner \<and> ent_system_role e = None \<and> ent_deleted_at e = None)
      (\<lambda>e. e\<lparr>ent_system_role := Some Photos, ent_updated_at := now\<rparr>) f s = Inr (s1, n)"
  shows "drive_writes lower owner s s1"
  by (intro r_into_rtranclp, rule entry_updated [OF assms]) auto

lemma ensure_photos_writes: "drive_writes lower owner s (fst (ensure_photos_loop lower owner now tries s))"
proof (induction lower owner now tries s rule: ensure_photos_loop.induct)
  case (1 lower owner now s)
  then show ?case by simp
next
  case (2 lower owner now i tries s)
  then show ?case
    by (auto split: option.splits sum.splits intro: adopt_writes folder_insert_writes)
qed

lemmas drive_handler_writes = create_folder_writes rename_entry_writes move_entry_writes trash_entry_writes
  restore_entry_writes batch_entries_writes ensure_photos_writes

section \<open>Runs of the drive service\<close>

datatype drive_event =
    CreateFolder auth_user headers instant uuid ustr "uuid option"
  | RenameEntry auth_user headers instant uuid ustr
  | MoveEntry auth_user headers instant uuid "uuid option"
  | TrashEntry auth_user headers instant uuid
  | RestoreEntry auth_user headers instant uuid
  | BatchEntries auth_user headers instant "nat \<Rightarrow> uuid" string "uuid list" "uuid option"
  | EnsurePhotos uuid instant "uuid list"

fun event_owner :: "drive_event \<Rightarrow> uuid" where
  "event_owner (CreateFolder u hs now i n p) = au_id u"
| "event_owner (RenameEntry u hs now i n) = au_id u"
| "event_owner (MoveEntry u hs now i p) = au_id u"
| "event_owner (TrashEntry u hs now i) = au_id u"
| "event_owner (RestoreEntry u hs now i) = au_id u"
| "event_owner (BatchEntries u hs now ids a ts p) = au_id u"
| "event_owner (EnsurePhotos owner now tries) = owner"

fun drive_step :: "externals \<Rightarrow> auth_settings \<Rightarrow> (ustr \<Rightarrow> int) \<Rightarrow> drive_event \<Rightarrow> db \<Rightarrow> db" where
  "drive_step x st collate (CreateFolder u hs now i n p) s = fst (create_folder x st u hs now i n p s)"
| "drive_step x st collate (RenameEntry u hs now i n) s = fst (rename_entry x st u hs now i n s)"
| "drive_step x st collate (MoveEntry u hs now i p) s = fst (move_entry x st u hs now i p s)"
| "drive_step x st collate (TrashEntry u hs now i) s = fst (trash_entry x st u hs now i s)"
| "drive_step x st collate (RestoreEntry u hs now i) s = fst (restore_entry x st u hs now i s)"
| "drive_step x st collate (BatchEntries u hs now ids a ts p) s = fst (batch_entries x st collate ids u hs now a ts p s)"
| "drive_step x st collate (EnsurePhotos owner now tries) s = fst (ensure_photos_folder (sql_lower x) owner now tries s)"

lemma drive_step_writes:
  "drive_ok (sql_lower x) s \<Longrightarrow> drive_writes (sql_lower x) (event_owner e) s (drive_step x st collate e s)"
  by (cases e) (simp_all add: drive_handler_writes ensure_photos_folder_def)

interpretation drive: absorbing "drive_step x st collate" "drive_ok (sql_lower x)" system_folder for x st collate
proof
  fix s e k
  assume ok: "drive_ok (sql_lower x) s"
  then show "drive_ok (sql_lower x) (drive_step x st collate e s)"
    using drive_step_writes drive_writes_ok by blast
  show "system_folder k (drive_step x st collate e s)" if "system_folder k s"
    using ok that drive_step_writes drive_writes_system by blast
qed

lemma drive_ok_empty: "drive_ok lower (empty_db\<lparr>users := us\<rparr>)"
  by (simp add: drive_ok_def tree_ok_def rows_ok_def slots_ok_def forest_def parents_ok_def par_def ids_of_def
      empty_db_def acyclic_def)

text \<open>
  Whatever sequence of drive requests a service executes, for any accounts and with any
  arguments, its tables satisfy the drive invariant: entries form a forest (no cycle, every
  parent a folder of the same owner), active siblings of an owner have different names up to
  case, an owner has at most one active system folder of a role, every folder and file entry
  has exactly its row, and the current version of a file is a version of that file.
\<close>

lemma drive_invariant:
  "drive_ok (sql_lower x) (fold (drive_step x st collate) es (empty_db\<lparr>users := us\<rparr>))"
  by (rule drive.run_inv [OF drive_ok_empty])

lemma foreign_same_account:
  assumes "foreign_same owner s s'" and "u \<noteq> owner"
  shows "filter (\<lambda>e. ent_owner e = u) (entries s') = filter (\<lambda>e. ent_owner e = u) (entries s)"
    and "filter (\<lambda>r. shr_owner r = u) (shares s') = filter (\<lambda>r. shr_owner r = u) (shares s)"
    and "e \<in> set (entries s) \<Longrightarrow> ent_owner e = u \<Longrightarrow> current_version s' (ent_id e) = current_version s (ent_id e)"
proof -
  have f: "filter (\<lambda>e. g e = u) xs = filter (\<lambda>e. g e = u) (filter (\<lambda>e. g e \<noteq> owner) xs)" for g :: "'z \<Rightarrow> uuid" and xs
    using assms(2) by (induction xs) auto
  show "filter (\<lambda>e. ent_owner e = u) (entries s') = filter (\<lambda>e. ent_owner e = u) (entries s)"
    using assms(1) f [of ent_owner] by (metis foreign_same_def)
  show "filter (\<lambda>r. shr_owner r = u) (shares s') = filter (\<lambda>r. shr_owner r = u) (shares s)"
    using assms(1) f [of shr_owner] by (metis foreign_same_def)
  show "e \<in> set (entries s) \<Longrightarrow> ent_owner e = u \<Longrightarrow> current_version s' (ent_id e) = current_version s (ent_id e)"
    using assms by (auto simp: foreign_same_def)
qed

text \<open>
  C11. Accounts are isolated: a run of drive requests of other accounts leaves every entry,
  every share and the current content of every file of an account exactly as they were.
\<close>

theorem tenant_isolation:
  assumes "drive_ok (sql_lower x) s" and "list_all (\<lambda>e. event_owner e \<noteq> u) es"
  shows "filter (\<lambda>e. ent_owner e = u) (entries (fold (drive_step x st collate) es s))
           = filter (\<lambda>e. ent_owner e = u) (entries s)
    \<and> filter (\<lambda>r. shr_owner r = u) (shares (fold (drive_step x st collate) es s))
           = filter (\<lambda>r. shr_owner r = u) (shares s)
    \<and> (\<forall>e \<in> set (entries s). ent_owner e = u \<longrightarrow>
         current_version (fold (drive_step x st collate) es s) (ent_id e) = current_version s (ent_id e))"
  using assms
proof (induction es arbitrary: s)
  case Nil
  then show ?case by simp
next
  case (Cons e es)
  let ?t = "drive_step x st collate e s"
  have fs: "foreign_same (event_owner e) s ?t"
    by (rule drive_writes_foreign [OF drive_step_writes [OF Cons.prems(1)] Cons.prems(1)])
  have ne: "u \<noteq> event_owner e" using Cons.prems(2) by auto
  note same = foreign_same_account [OF fs ne]
  have t: "drive_ok (sql_lower x) ?t" by (rule drive.preserved [OF Cons.prems(1)])
  note IH = Cons.IH [OF t] 
  have mem: "d \<in> set (entries ?t)" if "d \<in> set (entries s)" "ent_owner d = u" for d
  proof -
    have "d \<in> set (filter (\<lambda>e. ent_owner e = u) (entries ?t))" using same(1) that by simp
    then show ?thesis by simp
  qed
  from IH Cons.prems(2) same mem show ?case by simp
qed

text \<open>
  The Photos folder is fixed: from the moment an active entry carries a system role, no
  drive request of any account ever renames, moves, trashes or otherwise changes its row.
\<close>

lemma system_folder_fixed:
  assumes "drive_ok (sql_lower x) s" and "e \<in> set (entries s)" and "ent_system_role e \<noteq> None"
    and "ent_deleted_at e = None"
  shows "e \<in> set (entries (fold (drive_step x st collate) es s))"
  using drive.run_final [of x s e st collate es] assms by (simp add: system_folder_def)

section \<open>Moving\<close>

lemma update_one:
  assumes "distinct (map ent_id es)" and "old \<in> set es"
  shows "update_where (\<lambda>e. ent_id e = ent_id old) (\<lambda>_. f old) es = update_where (\<lambda>e. ent_id e = ent_id old) f es"
  unfolding update_where_def using assms distinct_key_unique [OF assms(1) _ assms(2)] by auto

text \<open>
  A successful move gives the entry the requested parent and changes nothing else of the
  tree, and the new parent is an active folder of the same account outside the entry's
  subtree.
\<close>

lemma move_entry_correct:
  assumes ok: "drive_ok (sql_lower x) s" and m: "move_entry x st user hs now i parent s = (s', Inr r)"
  shows "entries s' = update_where (\<lambda>e. ent_id e = i) (\<lambda>e. e\<lparr>ent_parent := parent, ent_updated_at := now\<rparr>) (entries s)
    \<and> (\<forall>p. parent = Some p \<longrightarrow> (p, i) \<notin> (parent_rel (entries s))\<^sup>*
         \<and> (\<exists>f \<in> set (entries s). ent_id f = p \<and> ent_kind f = Folder \<and> ent_owner f = au_id user
              \<and> ent_deleted_at f = None))"
proof -
  let ?f = "\<lambda>e. e\<lparr>ent_parent := parent, ent_updated_at := now\<rparr>"
  from m obtain n where u: "update_entry (sql_lower x) True (active_row (au_id user)) ?f i s = Inr (s', n)"
    and mut: "ensure_mutable_entry (au_id user) i s = Inr ()"
    by (auto simp: move_entry_def result_simps split: sum.splits)
  from mut obtain row where "find (\<lambda>e. ent_id e = i \<and> ent_owner e = au_id user \<and> ent_deleted_at e = None) (entries s) = Some row"
    by (auto simp: ensure_mutable_entry_def split: option.splits)
  then have row: "row \<in> set (entries s)" "ent_id row = i" "active_row (au_id user) row"
    by (auto simp: find_Some_iff active_row_def)
  from u show ?thesis
  proof (cases rule: update_entry_Inr)
    case 1
    with row show ?thesis by blast
  next
    case (2 old)
    have es: "entries s' = update_where (\<lambda>e. ent_id e = i) ?f (entries s)"
      using update_one [OF drive_okD(2) [OF ok] 2(2), of ?f] 2(3,5) by simp
    have "(p, i) \<notin> (parent_rel (entries s))\<^sup>*
         \<and> (\<exists>f \<in> set (entries s). ent_id f = p \<and> ent_kind f = Folder \<and> ent_owner f = au_id user \<and> ent_deleted_at f = None)"
      if p: "parent = Some p" for p
    proof -
      have v: "validate_drive_entry_parent (entries s) (?f old) = Inr ()" using 2(6) by simp
      obtain f where f: "f \<in> set (entries s)" "ent_id f = p" "ent_kind f = Folder" "ent_owner f = ent_owner old"
          "ent_deleted_at f = None"
        using validate_parent(1) [OF v, of p] p by auto
      have "(p, i) \<notin> (parent_rel (entries s))\<^sup>*"
      proof (cases "ent_kind old")
        case File
        then show ?thesis using file_not_ancestor [OF drive_okD(1) [OF ok] 2(2) _ f(1,3)] f(2) 2(3) by simp
      next
        case Folder
        then have "i \<notin> ent_id ` set (climb (\<lambda>_. True) (length (entries s)) (entries s) (Some p))"
          using validate_parent(2) [OF v, of p] p 2(3) by simp
        moreover have "p \<in> ent_id ` set (entries s)" using f by blast
        ultimately show ?thesis using climb_ids [OF drive_okD(1) [OF ok]] by simp
      qed
      moreover have "ent_owner old = au_id user" using 2(4) by (simp add: active_row_def)
      ultimately show ?thesis using f by auto
    qed
    with es show ?thesis by blast
  qed
qed

section \<open>A small drive\<close>

text \<open>Two accounts; the first has a folder with a folder with a file, another folder, Photos,
  and a share of the inner folder with an open access session.\<close>

definition sample_user :: "uuid \<Rightarrow> user_row" where
  "sample_user i = \<lparr>usr_id = i, usr_email = lit ''a@b.c'', usr_password_hash = ''h'', usr_role = Owner,
     usr_created_at = 0, usr_updated_at = 0, usr_managed_by = None, usr_quota_bytes = None,
     usr_disabled_at = None, usr_must_change_password = False\<rparr>"

definition sample_share :: share_row where
  "sample_share = \<lparr>shr_id = 30, shr_owner = 1, shr_resource_kind = Some Folder, shr_resource = Some 11,
     shr_album = None, shr_token_digest = [], shr_password_hash = None, shr_expires_at = None,
     shr_revoked_at = None, shr_allow_download = True, shr_max_downloads = None, shr_download_count = 0,
     shr_failed_attempts = 0, shr_locked_until = None, shr_created_at = 0, shr_last_accessed_at = None,
     shr_api_key = None\<rparr>"

definition sample_entries :: "entry list" where
  "sample_entries =
     [new_entry 10 1 None Folder (lit ''a'') None 0, new_entry 11 1 (Some 10) Folder (lit ''b'') None 0,
      new_entry 12 1 (Some 11) File (lit ''c'') None 0, new_entry 13 1 None Folder (lit ''d'') None 0,
      new_entry 14 1 None Folder (lit ''Photos'') (Some Photos) 0]"

definition sample_drive :: db where
  "sample_drive = empty_db\<lparr>users := [sample_user 1, sample_user 2], entries := sample_entries,
     folders := [10, 11, 13, 14], files := [\<lparr>fil_id = 12, fil_current_version = Some 20\<rparr>],
     versions := [\<lparr>ver_id = 20, ver_file = 12, ver_object = 21, ver_size_bytes = 5,
                    ver_original_modified_at = None, ver_created_at = 0\<rparr>],
     objects := [\<lparr>obj_id = 21, obj_storage_key = ''k'', obj_size_bytes = 5, obj_checksum = None,
                   obj_mime = None, obj_state = Ready, obj_created_at = 0, obj_last_checked_at = None\<rparr>],
     shares := [sample_share], access_sessions := [\<lparr>acc_token_digest = [], acc_share = 30, acc_expires_at = 9\<rparr>]\<rparr>"

definition sample_actor :: "uuid \<Rightarrow> auth_user" where
  "sample_actor i = from_api i 7 (lit ''a@b.c'') Owner"

definition sample_settings :: auth_settings where
  "sample_settings = \<lparr>cookie_secure = True, session_ttl_seconds = 3600\<rparr>"

lemmas sample_defs = sample_drive_def sample_entries_def sample_user_def sample_share_def new_entry_def empty_db_def

lemma sample_lower [simp]: "sql_lower sample_externals = to_ascii_lowercase"
  by (simp add: sample_externals_def)

lemma sample_actor_simps [simp]:
  "au_id (sample_actor i) = i" "require_request_csrf x hs (sample_actor i) st = Inr ()"
  by (simp_all add: sample_actor_def from_api_def require_request_csrf_def require_csrf_def)

lemma sample_drive_ok: "drive_ok (sql_lower sample_externals) sample_drive"
proof -
  have "acyclic (parent_rel sample_entries)"
    by (rule acyclicI_order [of _ "\<lambda>i. i"]) (auto simp: par_def sample_entries_def new_entry_def)
  then have "forest sample_entries"
    by (simp add: forest_def parents_ok_def) (simp add: sample_entries_def new_entry_def)
  moreover have "slots_ok (sql_lower sample_externals) sample_entries"
    by (simp add: slots_ok_def same_slot_def same_role_def sample_entries_def new_entry_def
        to_ascii_lowercase_def ascii_lower_def text_simps)
  moreover have "ids_of k sample_entries = set (map ent_id (filter (\<lambda>e. ent_kind e = k) sample_entries))" for k
    by (simp add: ids_of_def)
  then have "rows_ok sample_drive"
    by (auto simp: rows_ok_def sample_defs)
  ultimately show ?thesis
    by (simp add: drive_ok_def tree_ok_def sample_defs entry_row_check_def entry_name_check_def trim_by_def text_simps)
qed

theorem tenant_isolation_witness:
  "filter (\<lambda>e. ent_owner e = 1)
     (entries (drive_step sample_externals sample_settings (\<lambda>_. 0) (TrashEntry (sample_actor 2) [] 5 10) sample_drive))
   = sample_entries"
  using tenant_isolation [OF sample_drive_ok, of 1 "[TrashEntry (sample_actor 2) [] 5 10]" sample_settings "\<lambda>_. 0"]
  by (simp add: sample_drive_def sample_entries_def new_entry_def)

lemma sample_move:
  "\<exists>s' r. move_entry sample_externals sample_settings (sample_actor 1) [] 5 11 (Some 13) sample_drive = (s', Inr r)"
  by (simp add: move_entry_def ensure_active_entry_def parent_chain_def owned_def ensure_mutable_entry_def
      folder_contains_def update_entry_def validate_drive_entry_parent_def fetch_entry_def active_row_def find_row_def
      entry_row_check_def entry_name_check_def trim_by_def same_slot_def same_role_def update_where_def sql_def
      children_of_def text_simps to_ascii_lowercase_def Let_def sample_defs)

end
