(* ===== verification/Drive_Results.thy ===== *)
theory Drive_Results
  imports Drive_Correct "HOL-Library.Multiset"
begin

text \<open>
  What the drive handlers promise to their callers: an entry is visible exactly when it and
  all its ancestors are active, trashing hides a whole subtree and ends its shares, restoring
  undoes a trash, pages enumerate a folder, and a folder creation succeeds exactly when its
  name is valid and free.
\<close>

section \<open>Visibility\<close>

text \<open>The entries on the path from an entry to its root.\<close>

definition path_up :: "db \<Rightarrow> uuid \<Rightarrow> entry set" where
  "path_up s i = {a \<in> set (entries s). (i, ent_id a) \<in> (parent_rel (entries s))\<^sup>*}"

definition visible :: "uuid \<Rightarrow> uuid \<Rightarrow> db \<Rightarrow> entry \<Rightarrow> bool" where
  "visible owner i s e \<longleftrightarrow> e \<in> set (entries s) \<and> ent_id e = i \<and> ent_owner e = owner
     \<and> (\<forall>a \<in> path_up s i. ent_deleted_at a = None)"

lemma path_up_self: "e \<in> set (entries s) \<Longrightarrow> e \<in> path_up s (ent_id e)"
  by (simp add: path_up_def)

lemma visible_active: "visible owner i s e \<Longrightarrow> ent_deleted_at e = None"
  using path_up_self by (auto simp: visible_def)

lemma parent_chain_set:
  assumes "drive_ok lower s" and "e \<in> set (entries s)" and "ent_owner e = owner"
  shows "set (parent_chain owner (ent_id e) s) = path_up s (ent_id e)"
  unfolding parent_chain_def path_up_def owned_def
proof (rule climb_iff)
  show f: "forest (entries s)" using assms(1) by (rule drive_okD)
  show "parent_closed (\<lambda>e. ent_owner e = owner) (entries s)"
    by (rule parent_closed_owner [OF forestD(2,1) [OF f]])
  show "height (entries s) (ent_id e) < length (entries s)"
    using height_less_length [OF f] assms(2) by blast
qed (use assms in auto)

lemma parent_chain_none:
  assumes "\<not> (\<exists>e \<in> set (entries s). ent_id e = i \<and> ent_owner e = owner)"
  shows "parent_chain owner i s = []"
proof (cases "length (entries s)")
  case (Suc n)
  have "find (\<lambda>e. ent_id e = i \<and> ent_owner e = owner) (entries s) = None"
    using assms by (auto simp: find_None_iff)
  then show ?thesis by (simp add: parent_chain_def owned_def Suc)
qed (simp add: parent_chain_def)

lemma visible_unique:
  assumes ok: "drive_ok lower s" and e: "e \<in> set (entries s)" "ent_id e = i" "ent_owner e = owner"
  shows "visible owner i s a \<longleftrightarrow> a = e \<and> (\<forall>b \<in> path_up s i. ent_deleted_at b = None)"
  using e distinct_key_unique [OF drive_okD(2) [OF ok] _ e(1)] unfolding visible_def by metis

lemma ensure_active_iff:
  assumes ok: "drive_ok lower s"
  shows "ensure_active_entry owner i folder s = Inr () \<longleftrightarrow>
    (\<exists>e. visible owner i s e \<and> (folder \<longrightarrow> ent_kind e = Folder))"
proof (cases "\<exists>e \<in> set (entries s). ent_id e = i \<and> ent_owner e = owner")
  case True
  then obtain e :: entry where e: "e \<in> set (entries s)" "ent_id e = i" "ent_owner e = owner" by blast
  have c: "set (parent_chain owner i s) = path_up s i" using parent_chain_set [OF ok e(1,3)] e(2) by simp
  have mem: "e \<in> path_up s i" using e path_up_self by blast
  have u: "a = e" if "a \<in> path_up s i" "ent_id a = i" for a
    using that e distinct_key_unique [OF drive_okD(2) [OF ok] _ e(1)] by (auto simp: path_up_def)
  have "ensure_active_entry owner i folder s = Inr () \<longleftrightarrow>
      (\<exists>a \<in> path_up s i. ent_id a = i \<and> ent_deleted_at a = None \<and> (\<not> folder \<or> ent_kind a = Folder))
      \<and> (\<forall>a \<in> path_up s i. ent_deleted_at a = None)"
    by (simp add: ensure_active_entry_def Let_def result_simps list_ex_iff c)
  also have "\<dots> \<longleftrightarrow> (\<forall>a \<in> path_up s i. ent_deleted_at a = None) \<and> (folder \<longrightarrow> ent_kind e = Folder)"
    using mem u e(2) by metis
  finally show ?thesis unfolding visible_unique [OF ok e] by blast
next
  case False
  then have "\<not> (\<exists>e. visible owner i s e)" unfolding visible_def by blast
  with False show ?thesis by (simp add: ensure_active_entry_def parent_chain_none)
qed

lemma fetch_entry_iff:
  assumes ok: "drive_ok lower s"
  shows "fetch_entry owner i s = Inr r \<longleftrightarrow> (\<exists>e. visible owner i s e \<and> r = summary s e)"
proof (cases "find (\<lambda>e. ent_id e = i \<and> ent_owner e = owner \<and> ent_deleted_at e = None) (entries s)")
  case None
  then have "\<not> visible owner i s e" for e
    using visible_active [of owner i s e] unfolding find_None_iff visible_def by blast
  with None show ?thesis by (simp add: fetch_entry_def)
next
  case (Some e)
  then have e: "e \<in> set (entries s)" "ent_id e = i" "ent_owner e = owner" "ent_deleted_at e = None"
    by (auto simp: find_Some_iff)
  have c: "set (parent_chain owner i s) = path_up s i" using parent_chain_set [OF ok e(1,3)] e(2) by simp
  have "fetch_entry owner i s = Inr r \<longleftrightarrow> (\<forall>a \<in> path_up s i. ent_deleted_at a = None) \<and> r = summary s e"
    using Some by (auto simp: fetch_entry_def list_ex_iff c)
  then show ?thesis unfolding visible_unique [OF ok e(1-3)] by blast
qed

lemma ensure_active_error:
  assumes "drive_ok lower s" and "\<not> (\<exists>e. visible owner i s e \<and> (folder \<longrightarrow> ent_kind e = Folder))"
  shows "ensure_active_entry owner i folder s = Inl NotFound"
proof -
  have "ensure_active_entry owner i folder s \<in> {Inl NotFound, Inr ()}"
    by (simp add: ensure_active_entry_def Let_def guardE_def)
  then show ?thesis using ensure_active_iff [OF assms(1)] assms(2) by blast
qed

lemma fetch_entry_error: "fetch_entry owner i s = Inl e \<Longrightarrow> e = NotFound"
  by (auto simp: fetch_entry_def split: option.splits if_splits)

lemma fetch_entry_hidden:
  assumes "drive_ok lower s" and "\<not> (\<exists>e. visible owner i s e)"
  shows "fetch_entry owner i s = Inl NotFound"
  using fetch_entry_iff [OF assms(1)] assms(2) fetch_entry_error by (metis sumE)

section \<open>Subtrees\<close>

lemma owned_path:
  assumes f: "forest es" and r: "r \<in> set es" "ent_owner r = owner"
    and p: "(x, ent_id r) \<in> (parent_rel es)\<^sup>*"
  shows "(x, ent_id r) \<in> (par (owned owner) es)\<^sup>* \<and> (\<forall>c \<in> set es. ent_id c = x \<longrightarrow> ent_owner c = owner)"
  using p
proof (induction rule: converse_rtrancl_induct)
  case base
  then show ?case using r distinct_key_unique [OF forestD(1) [OF f]] by (metis rtrancl.rtrancl_refl)
next
  case (step x z)
  then obtain c where c: "c \<in> set es" "ent_id c = x" "ent_parent c = Some z" by (auto simp: par_def)
  obtain e where e: "e \<in> set es" "ent_id e = z" "ent_owner e = ent_owner c"
    using forestD(2) [OF f] c unfolding parents_ok_def by blast
  have o: "ent_owner c = owner" using step.IH e by auto
  have "(x, z) \<in> par (owned owner) es" using c o by (auto simp: par_def owned_def)
  moreover have "c' = c" if "c' \<in> set es" "ent_id c' = x" for c'
    using that c distinct_key_unique [OF forestD(1) [OF f]] by metis
  ultimately show ?case using step.IH o by (auto intro: converse_rtrancl_into_rtrancl)
qed

lemma find_unique_filter:
  assumes "distinct (map ent_id es)" and "r \<in> set es" and "p r"
  shows "filter (\<lambda>e. ent_id e = ent_id r \<and> p e) es = [r]"
  using assms
proof (induction es)
  case Nil
  then show ?case by simp
next
  case (Cons a es)
  show ?case
  proof (cases "a = r")
    case True
    with Cons.prems have "\<not> (\<exists>e \<in> set es. ent_id e = ent_id r \<and> p e)"
      by simp (metis image_eqI)
    then show ?thesis using True Cons.prems(3) by (auto simp: filter_empty_conv)
  next
    case False
    with Cons show ?thesis by force
  qed
qed

lemma subtree_set:
  assumes f: "forest (entries s)" and r: "r \<in> set (entries s)" "ent_owner r = owner"
  shows "set (subtree owner (ent_id r) s) = {e \<in> set (entries s). (ent_id e, ent_id r) \<in> (parent_rel (entries s))\<^sup>*}"
proof -
  have "set (subtree owner (ent_id r) s) = subtree_of (owned owner) (entries s) (ent_id r)"
    using find_unique_filter [OF forestD(1) [OF f] r(1), of "\<lambda>e. ent_owner e = owner"] r(2)
      descend_subtree [OF f r(1) order_refl, of "owned owner" 0] by (simp add: subtree_def)
  also have "\<dots> = {e \<in> set (entries s). (ent_id e, ent_id r) \<in> (parent_rel (entries s))\<^sup>*}"
    using owned_path [OF f r] rtrancl_mono [OF par_subset, of "owned owner" "entries s"]
    by (auto simp: subtree_of_def)
  finally show ?thesis .
qed

section \<open>Trash\<close>

lemma parent_rel_update:
  assumes "\<And>e. ent_id (f e) = ent_id e \<and> ent_parent (f e) = ent_parent e"
  shows "parent_rel (update_where q f es) = parent_rel es"
proof -
  let ?g = "\<lambda>e. if q e then f e else e"
  have g: "ent_id (?g e) = ent_id e" "ent_parent (?g e) = ent_parent e" for e using assms by auto
  have "parent_rel (map ?g es) = {(ent_id (?g c), y) | c y. c \<in> set es \<and> ent_parent (?g c) = Some y}"
    unfolding par_def set_map by blast
  then show ?thesis unfolding g update_where_def by (simp add: par_def)
qed

lemma update_entry_one:
  assumes "update_entry lower g p f i s = Inr (s', 1)" and "distinct (map ent_id (entries s))"
  shows "s' = s\<lparr>entries := update_where (\<lambda>e. ent_id e = i) f (entries s)\<rparr>"
  using assms(1)
proof (cases rule: update_entry_Inr)
  case (2 old)
  show ?thesis unfolding 2(5) using update_one [OF assms(2) 2(2), of f] by (simp only: 2(3))
qed simp

lemma trash_entry_Inr:
  assumes ok: "drive_ok (sql_lower x) s" and t: "trash_entry x st user hs now i s = (s', Inr v)"
  obtains row where "visible (au_id user) i s row" and "require_request_csrf x hs user st = Inr ()"
    and "entries s' = update_where (\<lambda>e. ent_id e = i)
           (\<lambda>e. e\<lparr>ent_deleted_at := Some now, ent_updated_at := now\<rparr>) (entries s)"
    and "shares s' = update_where (\<lambda>r. shared_in (au_id user) (map ent_id (subtree (au_id user) i s')) r
           \<and> shr_revoked_at r = None) (\<lambda>r. r\<lparr>shr_revoked_at := Some now\<rparr>) (shares s)"
    and "access_sessions s' = filter (\<lambda>a. \<not> list_ex (\<lambda>r. shr_id r = acc_share a
           \<and> shared_in (au_id user) (map ent_id (subtree (au_id user) i s')) r) (shares s')) (access_sessions s)"
proof -
  let ?f = "\<lambda>e. e\<lparr>ent_deleted_at := Some now, ent_updated_at := now\<rparr>"
  from t obtain s1 where act: "ensure_active_entry (au_id user) i False s = Inr ()"
    and csrf: "require_request_csrf x hs user st = Inr ()"
    and u: "update_entry (sql_lower x) False (active_row (au_id user)) ?f i s = Inr (s1, 1)"
    and s': "s' = add_audit ''entry_trashed'' (Some (au_id user)) (Some i)
        (drop_subtree_access (au_id user) (map ent_id (subtree (au_id user) i s1))
          (revoke_subtree_shares (au_id user) (map ent_id (subtree (au_id user) i s1)) now s1))"
    by (auto simp: trash_entry_def rollback_def trash_owned_entry_def result_simps Let_def split: sum.splits)
  from act obtain row where row: "visible (au_id user) i s row" by (auto simp: ensure_active_iff [OF ok])
  have e: "entries s' = entries s1" by (simp add: s' add_audit_def drop_subtree_access_def revoke_subtree_shares_def)
  have "subtree (au_id user) i s' = subtree (au_id user) i s1" by (simp add: subtree_def e)
  moreover have "entries s1 = update_where (\<lambda>e. ent_id e = i) ?f (entries s)"
    "shares s1 = shares s" "access_sessions s1 = access_sessions s"
    by (simp_all add: update_entry_one [OF u drive_okD(2) [OF ok]])
  ultimately show thesis
    using row csrf e by (intro that [of row])
      (simp_all add: s' add_audit_def drop_subtree_access_def revoke_subtree_shares_def)
qed

lemma trashed_row:
  assumes "entries s' = update_where (\<lambda>e. ent_id e = i)
      (\<lambda>e. e\<lparr>ent_deleted_at := Some now, ent_updated_at := now\<rparr>) (entries s)"
    and "row \<in> set (entries s)" and "ent_id row = i"
  shows "row\<lparr>ent_deleted_at := Some now, ent_updated_at := now\<rparr> \<in> set (entries s')"
  using assms by (auto simp: set_update_where image_iff)

text \<open>
  C12. Trashing an entry hides it and everything below it: afterwards no entry of the subtree
  can be fetched, listed or used as a parent, all shares of entries of the subtree are revoked,
  and none of their access sessions is left.
\<close>

theorem trash_hides_subtree:
  assumes ok: "drive_ok (sql_lower x) s" and t: "trash_entry x st user hs now i s = (s', Inr v)"
    and below: "e \<in> set (entries s)" "(ent_id e, i) \<in> (parent_rel (entries s))\<^sup>*"
  shows "fetch_entry (au_id user) (ent_id e) s' = Inl NotFound
    \<and> ensure_active_entry (au_id user) (ent_id e) folder s' = Inl NotFound
    \<and> (\<forall>r \<in> set (shares s'). shr_owner r = au_id user \<and> shr_resource r = Some (ent_id e) \<longrightarrow>
         shr_revoked_at r \<noteq> None \<and> shr_id r \<notin> acc_share ` set (access_sessions s'))"
proof -
  let ?f = "\<lambda>e. e\<lparr>ent_deleted_at := Some now, ent_updated_at := now\<rparr>"
  obtain row where row: "visible (au_id user) i s row"
    and es: "entries s' = update_where (\<lambda>e. ent_id e = i) ?f (entries s)"
    and sh: "shares s' = update_where (\<lambda>r. shared_in (au_id user) (map ent_id (subtree (au_id user) i s')) r
           \<and> shr_revoked_at r = None) (\<lambda>r. r\<lparr>shr_revoked_at := Some now\<rparr>) (shares s)"
    and acc: "access_sessions s' = filter (\<lambda>a. \<not> list_ex (\<lambda>r. shr_id r = acc_share a
           \<and> shared_in (au_id user) (map ent_id (subtree (au_id user) i s')) r) (shares s')) (access_sessions s)"
    by (rule trash_entry_Inr [OF ok t]) blast
  have ok': "drive_ok (sql_lower x) s'"
    using drive_writes_ok [OF trash_entry_writes [OF ok] ok] t by (metis fst_conv)
  have r': "?f row \<in> set (entries s')" "ent_id (?f row) = i" "ent_owner (?f row) = au_id user"
    using trashed_row [OF es] row by (auto simp: visible_def)
  have rel: "parent_rel (entries s') = parent_rel (entries s)" unfolding es by (rule parent_rel_update) simp
  have "?f row \<in> path_up s' (ent_id e)" using r'(1,2) below(2) rel by (simp add: path_up_def)
  then have hid: "\<not> (\<exists>a. visible (au_id user) (ent_id e) s' a)" unfolding visible_def by force
  have "map ent_id (entries s') = map ent_id (entries s)" unfolding es by (rule map_key_update_where) simp
  then have "ent_id e \<in> ent_id ` set (entries s')" using below(1) by (metis image_eqI set_map)
  then have sub: "ent_id e \<in> set (map ent_id (subtree (au_id user) i s'))"
    using subtree_set [OF drive_okD(1) [OF ok'] r'(1,3)] below(2) rel r'(2) by (auto simp: image_iff)
  have "shr_revoked_at r \<noteq> None \<and> shr_id r \<notin> acc_share ` set (access_sessions s')"
    if "r \<in> set (shares s')" "shr_owner r = au_id user" "shr_resource r = Some (ent_id e)" for r
  proof -
    have "shared_in (au_id user) (map ent_id (subtree (au_id user) i s')) r"
      using that sub by (simp add: shared_in_def)
    then show ?thesis using that(1) unfolding acc using sh
      by (auto simp: list_ex_iff set_update_where image_iff split: if_splits)
  qed
  then show ?thesis using fetch_entry_hidden [OF ok' hid] ensure_active_error [OF ok'] hid by blast
qed

lemma visible_update:
  assumes "entries s' = update_where q f (entries s)"
    and f: "\<And>e. ent_id (f e) = ent_id e \<and> ent_parent (f e) = ent_parent e \<and> ent_owner (f e) = ent_owner e
      \<and> ent_deleted_at (f e) = ent_deleted_at e"
    and v: "visible owner i s e"
  shows "visible owner i s' (if q e then f e else e)"
proof -
  have rel: "parent_rel (entries s') = parent_rel (entries s)"
    unfolding assms(1) by (rule parent_rel_update) (simp add: f)
  have "ent_deleted_at a = None" if "a \<in> path_up s' i" for a
  proof -
    from that obtain b where b: "b \<in> set (entries s)" "a = (if q b then f b else b)"
      unfolding path_up_def assms(1) set_update_where by blast
    then have "b \<in> path_up s i" using that rel f [of b] by (auto simp: path_up_def split: if_splits)
    then show ?thesis using v b f [of b] by (auto simp: visible_def)
  qed
  then show ?thesis using v f [of e] by (auto simp: visible_def assms(1) set_update_where)
qed

lemma parent_visible_after_trash:
  assumes ok: "drive_ok lower s" and ok': "drive_ok lower s'" and v: "visible owner i s row" and p: "ent_parent row = Some p"
    and es: "entries s' = update_where (\<lambda>e. ent_id e = i)
      (\<lambda>e. e\<lparr>ent_deleted_at := Some now, ent_updated_at := now\<rparr>) (entries s)"
  shows "ensure_active_entry owner p True s' = Inr ()"
proof -
  note f = drive_okD(1) [OF ok]
  have row: "row \<in> set (entries s)" "ent_id row = i" "ent_owner row = owner" using v by (auto simp: visible_def)
  have step: "(i, p) \<in> parent_rel (entries s)" using row p by (auto simp: par_def)
  have no: "(p, i) \<notin> (parent_rel (entries s))\<^sup>*"
    using forestD(3) [OF f] step unfolding acyclic_def by (meson rtrancl_into_trancl2)
  have rel: "parent_rel (entries s') = parent_rel (entries s)" unfolding es by (rule parent_rel_update) simp
  have old: "a \<in> set (entries s)" if "a \<in> set (entries s')" "ent_id a \<noteq> i" for a
    using that unfolding es by (auto simp: set_update_where split: if_splits)
  obtain e where e: "e \<in> set (entries s)" "ent_id e = p" "ent_kind e = Folder" "ent_owner e = owner"
    using forestD(2) [OF f] row p unfolding parents_ok_def by blast
  then have "e \<in> set (entries s')" using no unfolding es by (auto simp: set_update_where image_iff)
  moreover have "ent_deleted_at a = None" if a: "a \<in> path_up s' p" for a
  proof -
    have r: "a \<in> set (entries s')" "(p, ent_id a) \<in> (parent_rel (entries s))\<^sup>*"
      using a rel by (auto simp: path_up_def)
    then have "a \<in> path_up s i"
      using old no step by (auto simp: path_up_def intro: converse_rtrancl_into_rtrancl)
    then show ?thesis using v by (auto simp: visible_def)
  qed
  ultimately show ?thesis using e unfolding ensure_active_iff [OF ok'] visible_def by blast
qed

lemma slot_kept:
  assumes "drive_ok lower s" and "row \<in> set (entries s)" and "e \<in> set (entries s)" and "ent_id e \<noteq> ent_id row"
  shows "\<not> same_slot lower e (row\<lparr>ent_updated_at := t\<rparr>) \<and> \<not> same_role e (row\<lparr>ent_updated_at := t\<rparr>)"
proof -
  have "\<not> same_slot lower e row \<and> \<not> same_role e row"
    using assms by (auto simp: drive_ok_def tree_ok_def slots_ok_def)
  then show ?thesis by (simp add: same_slot_def same_role_def)
qed

lemma restore_after_trash:
  assumes ok: "drive_ok lower s" and row: "row \<in> set (entries s)" "ent_id row = i" "ent_deleted_at row = None"
      "ent_owner row = owner"
    and es: "entries s1 = update_where (\<lambda>e. ent_id e = i)
      (\<lambda>e. e\<lparr>ent_deleted_at := Some now, ent_updated_at := now\<rparr>) (entries s)"
  shows "update_entry lower False (\<lambda>e. ent_owner e = owner \<and> ent_deleted_at e \<noteq> None)
      (\<lambda>e. e\<lparr>ent_deleted_at := None, ent_updated_at := t\<rparr>) i s1
    = Inr (s1\<lparr>entries := update_where (\<lambda>e. ent_id e = i) (\<lambda>e. e\<lparr>ent_updated_at := t\<rparr>) (entries s)\<rparr>, 1)"
proof -
  let ?r = "row\<lparr>ent_deleted_at := Some now, ent_updated_at := now\<rparr>"
  have d: "distinct (map ent_id (entries s1))"
    using drive_okD(2) [OF ok] by (simp add: es map_key_update_where)
  have r: "?r \<in> set (entries s1)" by (rule trashed_row [OF es row(1,2)])
  have fnd: "find (\<lambda>e. ent_id e = i \<and> ent_owner e = owner \<and> ent_deleted_at e \<noteq> None) (entries s1) = Some ?r"
    unfolding find_entry_iff [OF d] using r row by simp
  have new: "row\<lparr>ent_deleted_at := None, ent_updated_at := t\<rparr> = row\<lparr>ent_updated_at := t\<rparr>" using row(3) by simp
  have chk: "entry_row_check (row\<lparr>ent_updated_at := t\<rparr>)"
    using ok row(1) by (simp add: drive_ok_def tree_ok_def entry_row_check_def)
  have "e \<in> set (entries s)" if "e \<in> set (entries s1)" "ent_id e \<noteq> i" for e
    using that unfolding es by (auto simp: set_update_where split: if_splits)
  then have slots: "\<forall>e \<in> set (entries s1). ent_id e \<noteq> i \<longrightarrow>
      \<not> same_slot lower e (row\<lparr>ent_updated_at := t\<rparr>) \<and> \<not> same_role e (row\<lparr>ent_updated_at := t\<rparr>)"
    using slot_kept [OF ok row(1)] row(2) by blast
  have "update_where (\<lambda>e. ent_id e = i) (\<lambda>_. row\<lparr>ent_updated_at := t\<rparr>) (entries s1)
      = update_where (\<lambda>e. ent_id e = i) (\<lambda>e. e\<lparr>ent_updated_at := t\<rparr>) (entries s)"
    unfolding es update_where_def map_map
    using distinct_key_unique [OF drive_okD(2) [OF ok] _ row(1)] row(2) by (intro map_cong) auto
  then show ?thesis
    unfolding update_entry_def fnd using chk slots by (simp add: new Let_def)
qed

text \<open>
  C13. Restoring undoes a trash: an entry that was trashed can at once be restored by its
  owner, and then the tree is the one before, but for the time of the last update of the entry.
\<close>

theorem trash_restore_roundtrip:
  assumes ok: "drive_ok (sql_lower x) s" and t: "trash_entry x st user hs now i s = (s1, Inr v)"
  shows "\<exists>s2 r. restore_entry x st user hs now' i s1 = (s2, Inr r)
    \<and> entries s2 = update_where (\<lambda>e. ent_id e = i) (\<lambda>e. e\<lparr>ent_updated_at := now'\<rparr>) (entries s)"
proof -
  let ?f = "\<lambda>e. e\<lparr>ent_deleted_at := Some now, ent_updated_at := now\<rparr>"
  obtain row where v: "visible (au_id user) i s row" and csrf: "require_request_csrf x hs user st = Inr ()"
    and es: "entries s1 = update_where (\<lambda>e. ent_id e = i) ?f (entries s)"
    by (rule trash_entry_Inr [OF ok t]) blast
  have row: "row \<in> set (entries s)" "ent_id row = i" "ent_deleted_at row = None" "ent_owner row = au_id user"
    using v visible_active [OF v] by (auto simp: visible_def)
  have ok1: "drive_ok (sql_lower x) s1"
    using drive_writes_ok [OF trash_entry_writes [OF ok] ok] t by (metis fst_conv)
  have fnd: "find (\<lambda>e. ent_id e = i \<and> ent_owner e = au_id user \<and> ent_deleted_at e \<noteq> None) (entries s1) = Some (?f row)"
    unfolding find_entry_iff [OF drive_okD(2) [OF ok1]] using trashed_row [OF es row(1,2)] row by simp
  have par: "(case ent_parent (?f row) of None \<Rightarrow> Inr () | Some p \<Rightarrow> ensure_active_entry (au_id user) p True s1) = Inr ()"
    using parent_visible_after_trash [OF ok ok1 v _ es] by (simp split: option.splits)
  define s2 where "s2 = add_audit ''entry_restored'' (Some (au_id user)) (Some i)
    (s1\<lparr>entries := update_where (\<lambda>e. ent_id e = i) (\<lambda>e. e\<lparr>ent_updated_at := now'\<rparr>) (entries s)\<rparr>)"
  have run: "restore_entry x st user hs now' i s1 = (s2, fetch_entry (au_id user) i s2)"
    unfolding restore_entry_def csrf fnd okOr_simps bindE_simps par restore_after_trash [OF ok row es] s2_def
    by (simp add: sql_def)
  have e2: "entries s2 = update_where (\<lambda>e. ent_id e = i) (\<lambda>e. e\<lparr>ent_updated_at := now'\<rparr>) (entries s)"
    by (simp add: s2_def add_audit_def)
  have ok2: "drive_ok (sql_lower x) s2"
    using drive_writes_ok [OF restore_entry_writes ok1, of st user hs now' i] run by simp
  have "visible (au_id user) i s2 (if ent_id row = i then row\<lparr>ent_updated_at := now'\<rparr> else row)"
    by (rule visible_update [OF e2 _ v]) simp
  then have "\<exists>r. fetch_entry (au_id user) i s2 = Inr r" using fetch_entry_iff [OF ok2] by blast
  with run e2 show ?thesis by auto
qed

section \<open>Listing\<close>

text \<open>A client that follows \<open>next_offset\<close> from the first page on, for at most \<open>n\<close> pages.\<close>

fun follow :: "(nat option \<Rightarrow> drive_error + entry_page) \<Rightarrow> nat \<Rightarrow> nat option \<Rightarrow> entry_summary list option" where
  "follow list_page 0 offset = None"
| "follow list_page (Suc n) offset =
     (case list_page offset of
        Inl e \<Rightarrow> None
      | Inr pg \<Rightarrow>
          (case pg_next_offset pg of
             None \<Rightarrow> Some (pg_entries pg)
           | Some k \<Rightarrow> map_option ((@) (pg_entries pg)) (follow list_page n (Some k))))"

lemma page_of_simps:
  "pg_entries (page_of s rows l k) = map (summary s) (take l (drop k rows))"
  "pg_next_offset (page_of s rows l k) = (if k + l < length rows then Some (k + l) else None)"
  by (auto simp: page_of_def Let_def min_def)

lemma follow_pages:
  assumes "\<And>k. (case k of None \<Rightarrow> 0 | Some k' \<Rightarrow> k') \<le> length rows \<Longrightarrow>
      list_page k = Inr (page_of s rows l (case k of None \<Rightarrow> 0 | Some k' \<Rightarrow> k'))"
    and "0 < l" and "k \<le> length rows" and "length rows < n + k" and "offset = Some k \<or> offset = None \<and> k = 0"
  shows "follow list_page n offset = Some (map (summary s) (drop k rows))"
  using assms(3-5)
proof (induction n arbitrary: k offset)
  case 0
  then show ?case by simp
next
  case (Suc n)
  have pg: "list_page offset = Inr (page_of s rows l k)" using assms(1) [of offset] Suc.prems by auto
  show ?case
  proof (cases "k + l < length rows")
    case True
    have "follow list_page n (Some (k + l)) = Some (map (summary s) (drop (k + l) rows))"
      by (rule Suc.IH) (use True Suc.prems assms(2) in auto)
    moreover have "take l (drop k rows) @ drop (k + l) rows = drop k rows"
      by (metis add.commute append_take_drop_id drop_drop)
    ultimately show ?thesis
      using True pg by (simp add: page_of_simps flip: map_append)
  next
    case False
    then show ?thesis using pg by (simp add: page_of_simps)
  qed
qed

text \<open>
  C14. Paging is complete: a client that follows the offsets it is given receives every active
  child of the folder exactly once, in the requested order, whatever the page size, as long as
  the folder has at most 1,000,000 children (the largest offset the service accepts) and
  the database does not change between the pages.
\<close>

theorem listing_enumerates_folder:
  assumes "case lq_parent q of None \<Rightarrow> True | Some p \<Rightarrow> ensure_active_entry (au_id user) p True s = Inr ()"
    and "page_limit (lq_limit q) = Inr l"
    and "sort_parts (lq_sort_by q) (lq_order q) ''name'' ''asc'' True = Inr (column, d)"
    and "rows = filter (\<lambda>e. ent_owner e = au_id user \<and> ent_deleted_at e = None \<and> ent_parent e = lq_parent q) (entries s)"
    and "length rows \<le> 1000000" and "length rows < n"
  shows "\<exists>es. follow (\<lambda>k. list_folder collate stats user (q\<lparr>lq_offset := k\<rparr>) s) n None = Some (map (summary s) es)
    \<and> mset es = mset rows
    \<and> sorted (map (\<lambda>e. case d of Asc \<Rightarrow> column_key collate stats s column e
                              | Desc \<Rightarrow> - column_key collate stats s column e) es)"
proof (intro exI conjI)
  let ?es = "ordered (column_key collate stats s column) d rows"
  have len: "length ?es = length rows" by (simp add: ordered_def)
  have l: "0 < l" using assms(2) by (auto simp: page_limit_def Let_def split: if_splits)
  have pg: "list_folder collate stats user (q\<lparr>lq_offset := k\<rparr>) s
      = Inr (page_of s ?es l (case k of None \<Rightarrow> 0 | Some k' \<Rightarrow> k'))"
    if "(case k of None \<Rightarrow> 0 | Some k' \<Rightarrow> k') \<le> length ?es" for k
    using assms that len
    by (simp add: list_folder_def page_offset_def Let_def split: option.splits)
  show "follow (\<lambda>k. list_folder collate stats user (q\<lparr>lq_offset := k\<rparr>) s) n None = Some (map (summary s) ?es)"
    using follow_pages [of ?es "\<lambda>k. list_folder collate stats user (q\<lparr>lq_offset := k\<rparr>) s" s l 0 n None, OF pg l] assms(6) len
    by simp
  show "mset ?es = mset rows" by (simp add: ordered_def)
  show "sorted (map (\<lambda>e. case d of Asc \<Rightarrow> column_key collate stats s column e
      | Desc \<Rightarrow> - column_key collate stats s column e) ?es)"
    unfolding ordered_def by (rule sorted_sort_key)
qed

section \<open>Creation\<close>

lemma climb_subset: "set (climb p n es y) \<subseteq> set es"
proof (induction p n es y rule: climb.induct)
  case (3 p n es x)
  show ?case
  proof (cases "find (\<lambda>e. ent_id e = x \<and> p e) es")
    case (Some e)
    then have "e \<in> set es" by (auto simp: find_Some_iff)
    then show ?thesis using 3 Some by simp
  qed simp
qed simp_all

lemma insert_folder_entry:
  assumes ok: "drive_ok lower s" and fresh: "i \<notin> ent_id ` set (entries s)" and own: "owner \<in> usr_id ` set (users s)"
    and par: "\<And>p. parent = Some p \<Longrightarrow> \<exists>f. visible owner p s f \<and> ent_kind f = Folder"
    and chk: "entry_name_check name"
  shows "insert_entry lower (new_entry i owner parent Folder name None now) s =
    (if name_taken lower owner parent name s then Inl UniqueViolation
     else Inr (s\<lparr>entries := entries s @ [new_entry i owner parent Folder name None now]\<rparr>))"
proof -
  let ?new = "new_entry i owner parent Folder name None now"
  have "validate_drive_entry_parent (entries s) ?new = Inr ()"
  proof (cases parent)
    case None
    then show ?thesis by (simp add: validate_drive_entry_parent_def new_entry_def)
  next
    case (Some p)
    then obtain f where f: "visible owner p s f" "ent_kind f = Folder" using par by blast
    then have "find_row ent_id p (entries s) = Some f"
      using find_row_iff [OF drive_okD(2) [OF ok]] by (auto simp: visible_def)
    moreover have "i \<notin> set (map ent_id (climb (\<lambda>_. True) (length (entries s)) (entries s) (Some p)))"
      using fresh climb_subset by fastforce
    ultimately show ?thesis using f visible_active [OF f(1)]
      by (simp add: validate_drive_entry_parent_def new_entry_def Some visible_def)
  qed
  moreover have "entry_row_check ?new" using chk by (simp add: entry_row_check_def new_entry_def)
  moreover have "(\<forall>e \<in> set (entries s). ent_id e \<noteq> ent_id ?new \<and> \<not> same_slot lower e ?new \<and> \<not> same_role e ?new)
      \<longleftrightarrow> \<not> name_taken lower owner parent name s"
    using fresh by (auto simp: name_taken_def list_ex_iff same_slot_def same_role_def new_entry_def)
  ultimately show ?thesis using own by (simp add: insert_entry_def new_entry_def)
qed

lemma path_appended:
  assumes "parents_ok es" and "ent_id new \<notin> ent_id ` set es"
    and "(z, y) \<in> (parent_rel (es @ [new]))\<^sup>*" and "z \<noteq> ent_id new"
  shows "(z, y) \<in> (parent_rel es)\<^sup>* \<and> y \<noteq> ent_id new"
  using assms(3)
proof (induction rule: rtrancl_induct)
  case base
  then show ?case using assms(4) by simp
next
  case (step y w)
  then have "(y, w) \<in> parent_rel es" by (auto simp: par_def)
  moreover from this have "w \<in> ent_id ` set es" using parents_ok_target [OF assms(1)] by blast
  ultimately show ?case using step.IH assms(2) by (metis rtrancl.rtrancl_into_rtrancl)
qed

lemma new_entry_visible:
  assumes ok: "drive_ok lower s" and fresh: "i \<notin> ent_id ` set (entries s)" and new: "ent_id new = i" "ent_owner new = owner"
      "ent_deleted_at new = None"
    and par: "\<And>p. ent_parent new = Some p \<Longrightarrow> \<exists>f. visible owner p s f"
    and es: "entries s' = entries s @ [new]"
  shows "visible owner i s' new"
proof -
  have "ent_deleted_at a = None" if a: "a \<in> set (entries s')" and r: "(i, ent_id a) \<in> (parent_rel (entries s'))\<^sup>*" for a
  proof (cases "ent_id a = i")
    case True
    then show ?thesis using a fresh new by (auto simp: es)
  next
    case False
    from r show ?thesis
    proof (cases rule: converse_rtranclE)
      case base
      then show ?thesis using False by simp
    next
      case (step p)
      then have p: "ent_parent new = Some p" using fresh new(1) by (auto simp: par_def es image_iff)
      then obtain f where f: "visible owner p s f" using par by blast
      then have "p \<noteq> i" using fresh by (auto simp: visible_def)
      then have "(p, ent_id a) \<in> (parent_rel (entries s))\<^sup>*"
        using path_appended [of "entries s" new p "ent_id a"] step(2) fresh new(1) drive_okD(1) [OF ok]
        by (simp add: es forest_def)
      then show ?thesis using f a False new(1) by (auto simp: visible_def path_up_def es)
    qed
  qed
  then show ?thesis using new by (auto simp: visible_def path_up_def es)
qed

lemma drive_ok_ids:
  assumes "drive_ok lower s"
  shows "set (folders s) \<subseteq> ent_id ` set (entries s)" and "fil_id ` set (files s) \<subseteq> ent_id ` set (entries s)"
proof -
  have "ids_of k (entries s) \<subseteq> ent_id ` set (entries s)" for k by (auto simp: ids_of_def)
  then show "set (folders s) \<subseteq> ent_id ` set (entries s)" "fil_id ` set (files s) \<subseteq> ent_id ` set (entries s)"
    using assms by (auto simp only: drive_ok_def rows_ok_def)
qed

lemma new_folder_fetched:
  assumes ok: "drive_ok lower s" and fresh: "i \<notin> ent_id ` set (entries s)"
    and new: "new = new_entry i owner parent Folder name None now"
    and ins: "insert_entry lower new s = Inr (s\<lparr>entries := entries s @ [new]\<rparr>)"
    and par: "\<And>p. parent = Some p \<Longrightarrow> \<exists>f. visible owner p s f"
  defines "s' \<equiv> s\<lparr>entries := entries s @ [new], folders := folders s @ [i]\<rparr>"
  shows "insert_folder i (s\<lparr>entries := entries s @ [new]\<rparr>) = Inr s'"
    and "fetch_entry owner i s' = Inr \<lparr>sum_entry = new, sum_size_bytes = None, sum_mime = None\<rparr>"
proof -
  have n: "ent_id new = i" "ent_owner new = owner" "ent_deleted_at new = None" "ent_parent new = parent"
    "ent_kind new = Folder"
    by (simp_all add: new new_entry_def)
  have nf: "i \<notin> set (folders s)" "i \<notin> fil_id ` set (files s)"
    using drive_ok_ids [OF ok] fresh by blast+
  then show f: "insert_folder i (s\<lparr>entries := entries s @ [new]\<rparr>) = Inr s'"
    by (simp add: insert_folder_def s'_def n)
  have "find_row fil_id i (files s) = None" using nf(2) by (simp only: find_row_None not_False_eq_True)
  then have "current_version s' i = None" by (simp add: current_version_def s'_def)
  then have sm: "summary s' new = \<lparr>sum_entry = new, sum_size_bytes = None, sum_mime = None\<rparr>"
    by (simp add: summary_def n)
  have "drive_ok lower s'" using new_folder_ok [OF ok ins _ n(5)] f n(1) by simp
  moreover have "visible owner i s' new"
    by (rule new_entry_visible [OF ok fresh n(1-3)]) (use par n(4) in \<open>auto simp: s'_def\<close>)
  ultimately show "fetch_entry owner i s' = Inr \<lparr>sum_entry = new, sum_size_bytes = None, sum_mime = None\<rparr>"
    unfolding sm [symmetric] using fetch_entry_iff by blast
qed

text \<open>
  Creating a folder, on every branch: the request is refused for a missing CSRF proof, an
  invalid name, an invisible parent and a taken name, in this order and without any write;
  otherwise the folder is created under its normalized name and returned.
\<close>

lemma create_folder_correct:
  assumes ok: "drive_ok (sql_lower x) s" and fresh: "i \<notin> ent_id ` set (entries s)"
    and own: "au_id user \<in> usr_id ` set (users s)"
  shows "create_folder x st user hs now i raw parent s =
    (if \<not> require_csrf x hs user st then (s, Inl Csrf)
     else case normalize_name raw of
       Inl e \<Rightarrow> (s, Inl e)
     | Inr name \<Rightarrow>
         if \<exists>p. parent = Some p \<and> \<not> (\<exists>f. visible (au_id user) p s f \<and> ent_kind f = Folder) then (s, Inl NotFound)
         else if name_taken (sql_lower x) (au_id user) parent name s then (s, Inl Conflict)
         else let new = new_entry i (au_id user) parent Folder name None now in
           (s\<lparr>entries := entries s @ [new], folders := folders s @ [i]\<rparr>,
            Inr \<lparr>sum_entry = new, sum_size_bytes = None, sum_mime = None\<rparr>))"
proof (cases "require_csrf x hs user st")
  case False
  then show ?thesis by (simp add: create_folder_def require_request_csrf_def)
next
  case csrf: True
  show ?thesis
  proof (cases "normalize_name raw")
    case (Inl e)
    then show ?thesis using csrf by (simp add: create_folder_def require_request_csrf_def)
  next
    case (Inr name)
    note h = csrf Inr
    let ?new = "new_entry i (au_id user) parent Folder name None now"
    let ?par = "case parent of None \<Rightarrow> Inr () | Some p \<Rightarrow> ensure_active_entry (au_id user) p True s"
    show ?thesis
    proof (cases "\<exists>p. parent = Some p \<and> \<not> (\<exists>f. visible (au_id user) p s f \<and> ent_kind f = Folder)")
      case True
      then obtain p where p: "parent = Some p" "\<not> (\<exists>f. visible (au_id user) p s f \<and> ent_kind f = Folder)"
        by blast
      then have "?par = Inl NotFound" by (simp add: ensure_active_error [OF ok])
      then show ?thesis using h True by (simp add: create_folder_def require_request_csrf_def)
    next
      case False
      have par: "?par = Inr ()" using False by (auto simp: ensure_active_iff [OF ok] split: option.splits)
      have chk: "entry_name_check name" using normalize_name_facts [OF Inr] by blast
      have vis: "\<exists>f. visible (au_id user) p s f" if "parent = Some p" for p using False that by blast
      have ins: "insert_entry (sql_lower x) ?new s = (if name_taken (sql_lower x) (au_id user) parent name s
          then Inl UniqueViolation else Inr (s\<lparr>entries := entries s @ [?new]\<rparr>))"
        by (rule insert_folder_entry [OF ok fresh own _ chk]) (use False in blast)
      show ?thesis
      proof (cases "name_taken (sql_lower x) (au_id user) parent name s")
        case True
        then show ?thesis using h False par ins
          by (simp add: create_folder_def require_request_csrf_def sql_def map_database_error_def)
      next
        case free: False
        with ins have ins': "insert_entry (sql_lower x) ?new s = Inr (s\<lparr>entries := entries s @ [?new]\<rparr>)" by simp
        show ?thesis using h False par free ins' new_folder_fetched [OF ok fresh refl ins' vis]
          by (simp add: create_folder_def require_request_csrf_def sql_def Let_def)
      qed
    qed
  qed
qed

section \<open>The Photos folder\<close>

lemma photos_found:
  assumes ok: "drive_ok lower s" and e: "e \<in> set (entries s)" "ent_owner e = owner" "ent_system_role e = Some Photos"
    "ent_deleted_at e = None"
  shows "photos_folder_id owner s = Some (ent_id e)"
proof -
  let ?p = "\<lambda>e. ent_owner e = owner \<and> ent_system_role e = Some Photos \<and> ent_deleted_at e = None"
  have "find ?p (entries s) \<noteq> None" using e by (auto simp: find_None_iff)
  then obtain a where f: "find ?p (entries s) = Some a" by blast
  then have a: "a \<in> set (entries s)" "?p a" by (auto simp: find_Some_iff)
  then have "same_role a e" using e by (simp add: same_role_def)
  then have "ent_id a = ent_id e"
    using ok a(1) e(1) by (auto simp: drive_ok_def tree_ok_def slots_ok_def)
  then show ?thesis by (simp add: photos_folder_id_def f)
qed

lemma adopted_photos:
  assumes u: "update_entry lower False (\<lambda>e. ent_owner e = owner \<and> ent_system_role e = None \<and> ent_deleted_at e = None)
      (\<lambda>e. e\<lparr>ent_system_role := Some Photos, ent_updated_at := now\<rparr>) f s = Inr (s1, 1)" and ok: "drive_ok lower s1"
  shows "photos_folder_id owner s1 = Some f"
  using u
proof (cases rule: update_entry_Inr)
  case (2 old)
  let ?n = "old\<lparr>ent_system_role := Some Photos, ent_updated_at := now\<rparr>"
  have "?n \<in> set (entries s1)" using 2(2,3) by (auto simp: 2(5) set_update_where image_iff)
  then show ?thesis using photos_found [OF ok, of ?n owner] 2(3,4) by simp
qed simp

lemma inserted_photos:
  assumes e: "insert_entry lower (new_entry i owner None Folder name (Some Photos) now) s = Inr s1"
    and f: "insert_folder i s1 = Inr s2" and ok: "drive_ok lower s2"
  shows "photos_folder_id owner s2 = Some i"
proof -
  let ?n = "new_entry i owner None Folder name (Some Photos) now"
  have "?n \<in> set (entries s2)"
    using f insert_entry_Inr(1) [OF e] by (auto simp: insert_folder_def result_simps)
  then show ?thesis using photos_found [OF ok, of ?n owner] by (simp add: new_entry_def)
qed

lemma ensure_photos_loop_found:
  "drive_ok lower s \<Longrightarrow> ensure_photos_loop lower owner now tries s = (s', Inr f) \<Longrightarrow> photos_folder_id owner s' = Some f"
proof (induction lower owner now tries s rule: ensure_photos_loop.induct)
  case (1 lower owner now s)
  then show ?case by simp
next
  case (2 lower owner now i tries s)
  have ok': "drive_ok lower s'"
    using drive_writes_ok [OF ensure_photos_writes 2(3)] 2(4) by (metis fst_conv)
  show ?case
    using 2 ok' by (auto split: option.splits sum.splits if_splits intro: adopted_photos [unfolded One_nat_def] inserted_photos)
qed

text \<open>
  A service that asks for the Photos folder gets the active Photos folder of the account,
  and asking again, at any later time, returns the same folder and writes nothing.
\<close>

lemma ensure_photos_folder_stable:
  assumes ok: "drive_ok lower s" and e: "ensure_photos_folder lower owner now tries s = (s', Inr f)" and "tries' \<noteq> []"
  shows "photos_folder_id owner s' = Some f \<and> ensure_photos_folder lower owner later tries' s' = (s', Inr f)"
proof -
  have "photos_folder_id owner s' = Some f"
    using ensure_photos_loop_found [OF ok] e by (simp add: ensure_photos_folder_def)
  then show ?thesis using assms(3) by (cases tries') (simp_all add: ensure_photos_folder_def)
qed

section \<open>Witnesses\<close>

lemmas run_defs = ensure_active_entry_def parent_chain_def owned_def ensure_mutable_entry_def
  update_entry_def fetch_entry_def active_row_def find_row_def entry_row_check_def entry_name_check_def trim_by_def
  same_slot_def same_role_def update_where_def sql_def children_of_def text_simps to_ascii_lowercase_def
  ascii_lower_def Let_def sample_defs

lemma sample_trash:
  "\<exists>s'. trash_entry sample_externals sample_settings (sample_actor 1) [] 5 10 sample_drive = (s', Inr ())"
  by (simp add: trash_entry_def rollback_def trash_owned_entry_def run_defs)

theorem trash_hides_subtree_witness:
  "\<exists>s'. trash_entry sample_externals sample_settings (sample_actor 1) [] 5 10 sample_drive = (s', Inr ())
     \<and> fetch_entry 1 12 s' = Inl NotFound"
proof -
  from sample_trash obtain s'
    where t: "trash_entry sample_externals sample_settings (sample_actor 1) [] 5 10 sample_drive = (s', Inr ())" ..
  let ?e = "new_entry 12 1 (Some 11) File (lit ''c'') None 0"
  let ?b = "new_entry 11 1 (Some 10) Folder (lit ''b'') None 0"
  have "(12, 11) \<in> parent_rel (entries sample_drive)" "(11, 10) \<in> parent_rel (entries sample_drive)"
    using parI [of ?e "entries sample_drive" "\<lambda>_. True" 11] parI [of ?b "entries sample_drive" "\<lambda>_. True" 10]
    by (simp_all add: sample_defs)
  then have "(ent_id ?e, 10) \<in> (parent_rel (entries sample_drive))\<^sup>*"
    by (auto simp: new_entry_def intro: converse_rtrancl_into_rtrancl)
  moreover have "?e \<in> set (entries sample_drive)" by (simp add: sample_defs)
  ultimately show ?thesis
    using trash_hides_subtree [OF sample_drive_ok t, of ?e] t by (simp add: new_entry_def)
qed

theorem trash_restore_roundtrip_witness:
  "\<exists>s1 s2 r. trash_entry sample_externals sample_settings (sample_actor 1) [] 5 10 sample_drive = (s1, Inr ())
     \<and> restore_entry sample_externals sample_settings (sample_actor 1) [] 6 10 s1 = (s2, Inr r)"
  using sample_trash trash_restore_roundtrip [OF sample_drive_ok] by meson

theorem listing_enumerates_folder_witness:
  "\<exists>es. follow (\<lambda>k. list_folder (\<lambda>_. 0) (\<lambda>_. None) (sample_actor 1)
       (\<lparr>lq_parent = None, lq_limit = Some 2, lq_offset = None, lq_sort_by = None, lq_order = None\<rparr>\<lparr>lq_offset := k\<rparr>)
       sample_drive) 4 None = Some (map (summary sample_drive) es)
     \<and> mset es = mset (filter (\<lambda>e. ent_parent e = None) sample_entries)"
proof -
  let ?q = "\<lparr>lq_parent = None, lq_limit = Some 2, lq_offset = None, lq_sort_by = None, lq_order = None\<rparr>"
  have "sort_parts (lq_sort_by ?q) (lq_order ?q) ''name'' ''asc'' True = Inr (LowerName, Asc)"
    "page_limit (lq_limit ?q) = Inr 2"
    by (simp_all add: sort_parts_def page_limit_def)
  moreover have "filter (\<lambda>e. ent_parent e = None) sample_entries = filter (\<lambda>e. ent_owner e = au_id (sample_actor 1)
      \<and> ent_deleted_at e = None \<and> ent_parent e = lq_parent ?q) (entries sample_drive)"
    by (simp add: sample_defs)
  moreover have "length (filter (\<lambda>e. ent_parent e = None) sample_entries) = 3" by (simp add: sample_defs)
  ultimately show ?thesis
    using listing_enumerates_folder [where q = ?q and user = "sample_actor 1" and s = sample_drive and l = 2
        and column = LowerName and d = Asc and rows = "filter (\<lambda>e. ent_parent e = None) sample_entries" and n = 4
        and collate = "\<lambda>_. 0" and stats = "\<lambda>_. None"] by auto
qed

section \<open>Recursive queries\<close>

lemma folder_contains_iff:
  assumes f: "forest (entries s)" and r: "r \<in> set (entries s)" "ent_owner r = owner" "ent_kind r = Folder"
  shows "folder_contains owner (ent_id r) c s \<longleftrightarrow>
    (\<exists>e \<in> set (entries s). ent_id e = c \<and> (c, ent_id r) \<in> (par (\<lambda>e. ent_owner e = owner \<and> ent_deleted_at e = None) (entries s))\<^sup>*)"
proof -
  have "filter (\<lambda>e. ent_id e = ent_id r \<and> ent_owner e = owner \<and> ent_kind e = Folder) (entries s) = [r]"
    using find_unique_filter [OF forestD(1) [OF f] r(1), of "\<lambda>e. ent_owner e = owner \<and> ent_kind e = Folder"] r(2,3) by simp
  then have "folder_contains owner (ent_id r) c s \<longleftrightarrow>
      c \<in> ent_id ` fst ` set (descend (\<lambda>e. ent_owner e = owner \<and> ent_deleted_at e = None) (length (entries s)) (entries s) [r] 0)"
    by (force simp: folder_contains_def list_ex_iff image_iff)
  then show ?thesis
    using descend_subtree [OF f r(1) order_refl, of "\<lambda>e. ent_owner e = owner \<and> ent_deleted_at e = None" 0]
    by (auto simp: subtree_of_def)
qed

text \<open>
  C35. The recursive queries compute what they are meant to, on every drive that satisfies the
  invariant: the check that an entry is active is the condition that no entry from it up to the
  root is in the trash; the subtree of an entry is the set of entries from which it is reached
  along parents; and a folder contains an entry if it is reached from it along active entries of
  the account.
\<close>

theorem tree_queries_reference:
  assumes ok: "drive_ok lower s"
  shows "(ensure_active_entry owner i folder s = Inr () \<longleftrightarrow>
        (\<exists>e \<in> set (entries s). ent_id e = i \<and> ent_owner e = owner \<and> (folder \<longrightarrow> ent_kind e = Folder)
          \<and> (\<forall>a \<in> set (entries s). (i, ent_id a) \<in> (parent_rel (entries s))\<^sup>* \<longrightarrow> ent_deleted_at a = None)))
    \<and> (\<forall>r \<in> set (entries s). ent_owner r = owner \<longrightarrow>
        set (subtree owner (ent_id r) s) = {e \<in> set (entries s). (ent_id e, ent_id r) \<in> (parent_rel (entries s))\<^sup>*})
    \<and> (\<forall>r \<in> set (entries s). ent_owner r = owner \<and> ent_kind r = Folder \<longrightarrow>
        (folder_contains owner (ent_id r) c s \<longleftrightarrow>
          (\<exists>e \<in> set (entries s). ent_id e = c
            \<and> (c, ent_id r) \<in> (par (\<lambda>e. ent_owner e = owner \<and> ent_deleted_at e = None) (entries s))\<^sup>*)))"
proof -
  have f: "forest (entries s)" by (rule drive_okD(1) [OF ok])
  show ?thesis
    using ensure_active_iff [OF ok, of owner i folder] subtree_set [OF f] folder_contains_iff [OF f]
    unfolding visible_def path_up_def by blast
qed

theorem tree_queries_reference_witness:
  "ensure_active_entry 1 12 False sample_drive = Inr () \<longleftrightarrow>
     (\<forall>a \<in> set (entries sample_drive). (12, ent_id a) \<in> (parent_rel (entries sample_drive))\<^sup>* \<longrightarrow> ent_deleted_at a = None)"
proof -
  have "\<exists>e \<in> set (entries sample_drive). ent_id e = 12 \<and> ent_owner e = 1" by (simp add: sample_defs)
  with tree_queries_reference [OF sample_drive_ok, of 1 12 False 0] show ?thesis by blast
qed

end
