(* ===== verification/Utf8.thy ===== *)
theory Utf8
  imports Prelude
begin

text \<open>
  \<open>str::from_utf8\<close> and \<open>String::from_utf8_lossy\<close>: a scan of one scalar value at the
  front of a byte slice, the validity test with the position information that
  \<open>Utf8Error::error_len\<close> exposes, and the replacement of malformed parts.
\<close>

datatype utf8_verdict = Scalar | Malformed | Truncated

definition cont :: "nat \<Rightarrow> nat \<Rightarrow> nat \<Rightarrow> bool" where
  "cont lo hi b \<longleftrightarrow> lo \<le> b \<and> b \<le> hi"

text \<open>The admissible range of the second byte and the number of bytes of a sequence.\<close>

definition lead :: "nat \<Rightarrow> (nat \<times> nat \<times> nat) option" where
  "lead b =
     (if b < 128 then Some (1, 0, 0)
      else if b < 194 then None
      else if b < 224 then Some (2, 128, 191)
      else if b = 224 then Some (3, 160, 191)
      else if b = 237 then Some (3, 128, 159)
      else if b < 240 then Some (3, 128, 191)
      else if b = 240 then Some (4, 144, 191)
      else if b < 244 then Some (4, 128, 191)
      else if b = 244 then Some (4, 128, 143)
      else None)"

fun scan_tail :: "nat \<Rightarrow> nat \<Rightarrow> nat \<Rightarrow> nat \<Rightarrow> nat list \<Rightarrow> nat \<times> utf8_verdict" where
  "scan_tail 0 lo hi seen bs = (seen, Scalar)"
| "scan_tail (Suc n) lo hi seen [] = (seen, Truncated)"
| "scan_tail (Suc n) lo hi seen (b # bs) =
     (if cont lo hi b then scan_tail n 128 191 (Suc seen) bs else (seen, Malformed))"

text \<open>Bytes consumed and verdict for the sequence at the front.\<close>

definition utf8_scan :: "nat \<Rightarrow> nat list \<Rightarrow> nat \<times> utf8_verdict" where
  "utf8_scan b bs =
     (case lead b of
        None \<Rightarrow> (1, Malformed)
      | Some (n, lo, hi) \<Rightarrow> scan_tail (n - 1) lo hi 1 bs)"

lemma scan_tail_ge: "fst (scan_tail n lo hi seen bs) \<ge> seen"
  by (induction n lo hi seen bs rule: scan_tail.induct) auto

lemma utf8_scan_pos: "(n, v) = utf8_scan b bs \<Longrightarrow> 0 < n"
  using scan_tail_ge by (auto simp: utf8_scan_def split: option.splits prod.splits) (metis Suc_le_lessD fst_conv)

text \<open>The first ill-formed sequence, if any: \<open>error_len().is_none()\<close> says it is a truncated one.\<close>

function utf8_error :: "nat list \<Rightarrow> utf8_verdict option" where
  "utf8_error [] = None"
| "utf8_error (b # bs) =
     (case utf8_scan b bs of
        (n, Scalar) \<Rightarrow> utf8_error (drop n (b # bs))
      | (n, Malformed) \<Rightarrow> Some Malformed
      | (n, Truncated) \<Rightarrow> Some Truncated)"
  by pat_completeness auto
termination
  by (relation "measure length") (auto dest: utf8_scan_pos)

function utf8_lossy :: "nat list \<Rightarrow> nat list" where
  "utf8_lossy [] = []"
| "utf8_lossy (b # bs) =
     (case utf8_scan b bs of
        (n, Scalar) \<Rightarrow> take n (b # bs) @ utf8_lossy (drop n (b # bs))
      | (n, _) \<Rightarrow> [239, 191, 189] @ utf8_lossy (drop n (b # bs)))"
  by pat_completeness auto
termination
  by (relation "measure length") (auto dest: utf8_scan_pos)

definition from_utf8 :: "bytes \<Rightarrow> bool" where
  "from_utf8 bs \<longleftrightarrow> utf8_error (map of_char bs) = None"

definition valid_utf8_prefix :: "bytes \<Rightarrow> bool" where
  "valid_utf8_prefix bs \<longleftrightarrow> utf8_error (map of_char bs) \<noteq> Some Malformed"

definition from_utf8_lossy :: "bytes \<Rightarrow> bytes" where
  "from_utf8_lossy bs = map char_of (utf8_lossy (map of_char bs))"

text \<open>Encoded scalar values are well-formed.\<close>

definition scalar :: "nat \<Rightarrow> bool" where
  "scalar c \<longleftrightarrow> c < 55296 \<or> (57344 \<le> c \<and> c < 1114112)"

lemma utf8_char_cases:
  assumes "scalar c"
  obtains "c < 128" "utf8_char c = [c]"
  | "utf8_char c = [192 + c div 64, 128 + c mod 64]" "2 \<le> c div 64" "c div 64 < 32"
  | "utf8_char c = [224 + c div 4096, 128 + c div 64 mod 64, 128 + c mod 64]" "c div 4096 < 16"
      "c div 4096 = 0 \<longrightarrow> 32 \<le> c div 64 mod 64" "c div 4096 = 13 \<longrightarrow> c div 64 mod 64 < 32"
  | "utf8_char c = [240 + c div 262144, 128 + c div 4096 mod 64, 128 + c div 64 mod 64, 128 + c mod 64]"
      "c div 262144 < 5" "c div 262144 = 0 \<longrightarrow> 16 \<le> c div 4096 mod 64" "c div 262144 = 4 \<longrightarrow> c div 4096 mod 64 < 16"
proof -
  consider "c < 128" | "128 \<le> c" "c < 2048" | "2048 \<le> c" "c < 65536" | "65536 \<le> c" by linarith
  then show thesis
  proof cases
    case 1
    then show thesis by (intro that(1)) (simp_all add: utf8_char_def)
  next
    case 2
    then show thesis by (intro that(2)) (simp_all add: utf8_char_def)
  next
    case 3
    define q where "q = c div 64"
    have q: "32 \<le> q" "q < 1024" "q < 864 \<or> 896 \<le> q" using 3 assms by (auto simp: scalar_def q_def)
    have d: "c div 4096 = q div 64" by (simp add: q_def div_mult2_eq [symmetric])
    have "q div 64 < 16" "q div 64 = 0 \<longrightarrow> 32 \<le> q mod 64" "q div 64 = 13 \<longrightarrow> q mod 64 < 32"
      using q div_mult_mod_eq [of q 64] mod_less_divisor [of 64 q] by linarith+
    then show thesis using that(3) 3 unfolding d q_def by (simp add: utf8_char_def d q_def)
  next
    case 4
    define q where "q = c div 4096"
    have q: "16 \<le> q" "q < 272" using 4 assms by (auto simp: scalar_def q_def)
    have d: "c div 262144 = q div 64" by (simp add: q_def div_mult2_eq [symmetric])
    have "q div 64 < 5" "q div 64 = 0 \<longrightarrow> 16 \<le> q mod 64" "q div 64 = 4 \<longrightarrow> q mod 64 < 16"
      using q div_mult_mod_eq [of q 64] mod_less_divisor [of 64 q] by linarith+
    then show thesis using that(4) 4 unfolding d q_def by (simp add: utf8_char_def d q_def)
  qed
qed

lemma scan_tail_2: "scan_tail 2 lo hi 1 (a # b # bs) = (if cont lo hi a then if cont 128 191 b then (3, Scalar) else (2, Malformed) else (1, Malformed))"
  by (simp add: numeral_2_eq_2 numeral_3_eq_3)

lemma scan_tail_3: "scan_tail 3 lo hi 1 (a # b # c # bs) = (if cont lo hi a then if cont 128 191 b
    then if cont 128 191 c then (4, Scalar) else (3, Malformed) else (2, Malformed) else (1, Malformed))"
  by (simp add: numeral_3_eq_3)

lemma scan_three:
  "d < 16 \<Longrightarrow> d = 0 \<longrightarrow> 32 \<le> m \<Longrightarrow> d = 13 \<longrightarrow> m < 32 \<Longrightarrow> m < 64 \<Longrightarrow> k < 64 \<Longrightarrow>
   utf8_scan (224 + d) ((128 + m) # (128 + k) # rest) = (3, Scalar)"
  by (auto simp: utf8_scan_def lead_def cont_def scan_tail_2 [simplified])

lemma scan_four:
  "d < 5 \<Longrightarrow> d = 0 \<longrightarrow> 16 \<le> m \<Longrightarrow> d = 4 \<longrightarrow> m < 16 \<Longrightarrow> m < 64 \<Longrightarrow> k < 64 \<Longrightarrow> j < 64 \<Longrightarrow>
   utf8_scan (240 + d) ((128 + m) # (128 + k) # (128 + j) # rest) = (4, Scalar)"
  by (auto simp: utf8_scan_def lead_def cont_def scan_tail_3 [simplified])

lemma scan_utf8_char:
  assumes "scalar c" and "utf8_char c = b # r"
  shows "utf8_scan b (r @ rest) = (Suc (length r), Scalar)"
  using assms(1)
proof (cases rule: utf8_char_cases)
  case 1
  then show ?thesis using assms(2) by (simp add: utf8_scan_def lead_def)
next
  case 2
  then show ?thesis using assms(2) by (auto simp: utf8_scan_def lead_def cont_def)
next
  case 3
  with assms(2) have "b = 224 + c div 4096" "r = [128 + c div 64 mod 64, 128 + c mod 64]" by auto
  with 3 show ?thesis using scan_three [of "c div 4096" "c div 64 mod 64" "c mod 64" rest] by simp
next
  case 4
  with assms(2) have "b = 240 + c div 262144" "r = [128 + c div 4096 mod 64, 128 + c div 64 mod 64, 128 + c mod 64]"
    by auto
  with 4 show ?thesis
    using scan_four [of "c div 262144" "c div 4096 mod 64" "c div 64 mod 64" "c mod 64" rest] by simp
qed

lemma utf8_char_Cons: obtains b r where "utf8_char c = b # r"
  by (cases "utf8_char c") (auto simp: utf8_char_def split: if_splits)

text \<open>Well-formed text is accepted and left alone.\<close>

lemma utf8_text:
  assumes "list_all scalar s"
  shows "utf8_error (concat (map utf8_char s)) = None \<and> utf8_lossy (concat (map utf8_char s)) = concat (map utf8_char s)"
  using assms
proof (induction s)
  case Nil
  then show ?case by simp
next
  case (Cons c s)
  obtain b r where c: "utf8_char c = b # r" by (rule utf8_char_Cons)
  have "utf8_scan b (r @ concat (map utf8_char s)) = (Suc (length r), Scalar)"
    using scan_utf8_char [OF _ c] Cons.prems by simp
  then show ?case using Cons by (simp add: c)
qed

lemma of_char_utf8: "list_all scalar s \<Longrightarrow> map of_char (utf8_encode s) = concat (map utf8_char s)"
proof -
  assume s: "list_all scalar s"
  have "b < 256" if "b \<in> set (utf8_char c)" "scalar c" for b c
    using that(2,1) by (cases rule: utf8_char_cases) auto
  then have "map (\<lambda>b. b mod 256) (concat (map utf8_char s)) = concat (map utf8_char s)"
    using s by (intro map_idI) (auto simp: list_all_iff)
  then show ?thesis by (simp add: utf8_encode_def comp_def of_char_of)
qed

lemma from_utf8_encode [simp]: "list_all scalar s \<Longrightarrow> from_utf8 (utf8_encode s)"
  by (simp add: from_utf8_def of_char_utf8 utf8_text)

lemma from_utf8_lossy_encode [simp]: "list_all scalar s \<Longrightarrow> from_utf8_lossy (utf8_encode s) = utf8_encode s"
  unfolding from_utf8_lossy_def of_char_utf8 by (simp add: utf8_text) (simp add: utf8_encode_def)

end
