(* ===== verification/Storage.thy ===== *)
theory Storage
  imports Credentials Utf8 Systems
begin

text \<open>
  The local object store of \<open>src/storage/mod.rs\<close> and the mount check of
  \<open>src/storage/mount.rs\<close>. A \<open>volume\<close> holds the staging files of uploads by staging
  key, the shard directories and the finalized objects by path below \<open>objects\<close>, and the
  outcome of the mount check at the time of the call. The \<open>uuid\<close> crate's text format is the
  argument \<open>c\<close>; the floating-point computation of the percentage floor is a field of the
  settings. The operations fail for the state of the volume (mount, keys, obstacles, missing
  and existing files); other errors of the disk are not outcomes here.
\<close>

section \<open>Errors and settings\<close>

datatype io_kind = IoNotFound | IoAlreadyExists | IoOther

datatype storage_error =
    MissingRoot | OutsideExpectedMount | MountMissing | DeviceMismatch | MountInfoUnavailable
  | LowSpace | UnknownCapacity | UnsafeKey | ObjectCollision | CorruptDerivative | StorageIo io_kind

record local_storage =
  require_mount :: bool
  require_device_match :: bool
  expected_device :: "ustr option"
  min_free_bytes :: nat
  percent_ceil :: "nat \<Rightarrow> nat"

section \<open>Capacity\<close>

text \<open>A reading of free and total bytes, or the error of the system call.\<close>

type_synonym reading = "storage_error + nat \<times> nat"

definition capacity :: "reading \<Rightarrow> storage_error + nat \<times> nat" where
  "capacity r = bindE r (\<lambda>(free_bytes, total_bytes).
     if total_bytes = 0 then Inl UnknownCapacity else Inr (free_bytes, total_bytes))"

definition required_free_bytes :: "local_storage \<Rightarrow> nat \<Rightarrow> nat" where
  "required_free_bytes st total_bytes = max (min_free_bytes st) (min (percent_ceil st total_bytes) total_bytes)"

definition used_bytes :: "nat \<times> nat \<Rightarrow> nat" where
  "used_bytes u = snd u - fst u"

definition health :: "local_storage \<Rightarrow> storage_error + unit \<Rightarrow> reading \<Rightarrow> storage_error + unit" where
  "health st mounted r =
     bindE mounted (\<lambda>_. bindE (capacity r) (\<lambda>(free_bytes, total_bytes).
       guardE (\<not> free_bytes < required_free_bytes st total_bytes) LowSpace))"

definition check_write_capacity :: "local_storage \<Rightarrow> storage_error + unit \<Rightarrow> reading \<Rightarrow> nat \<Rightarrow> storage_error + unit" where
  "check_write_capacity st mounted r additional_bytes =
     bindE mounted (\<lambda>_. bindE (capacity r) (\<lambda>(free_bytes, total_bytes).
       guardE (\<not> (additional_bytes > free_bytes
                   \<or> free_bytes - additional_bytes < required_free_bytes st total_bytes)) LowSpace))"

section \<open>The mount check\<close>

definition is_octal :: "char \<Rightarrow> bool" where
  "is_octal b \<longleftrightarrow> 48 \<le> (of_char b :: nat) \<and> (of_char b :: nat) \<le> 55"

text \<open>The value of three octal digits, in \<open>u8\<close> arithmetic.\<close>

definition octal_byte :: "char \<Rightarrow> char \<Rightarrow> char \<Rightarrow> char" where
  "octal_byte a b d =
     char_of (unat ((of_char a - 48) * 64 + (of_char b - 48) * 8 + (of_char d - 48 :: 8 word)))"

fun decode_octal :: "bytes \<Rightarrow> bytes" where
  "decode_octal (x # a # b # d # s) =
     (if x = CHR 0x5C \<and> is_octal a \<and> is_octal b \<and> is_octal d
      then octal_byte a b d # decode_octal s
      else x # decode_octal (a # b # d # s))"
| "decode_octal s = s"

definition decode_mount_field :: "ustr \<Rightarrow> bytes" where
  "decode_mount_field field = from_utf8_lossy (decode_octal (utf8_encode field))"

text \<open>\<open>str::lines\<close>, \<open>split_once(" - ")\<close> and \<open>split_whitespace\<close>.\<close>

definition lines :: "ustr \<Rightarrow> ustr list" where
  "lines s = (let ls = split_on 10 s in
     map (\<lambda>l. if l \<noteq> [] \<and> last l = 13 then butlast l else l) (if last ls = [] then butlast ls else ls))"

fun split_once_at :: "'a list \<Rightarrow> 'a list \<Rightarrow> ('a list \<times> 'a list) option" where
  "split_once_at p [] = (if p = [] then Some ([], []) else None)"
| "split_once_at p (c # s) =
     (if starts_with (c # s) p then Some ([], drop (length p) (c # s))
      else map_option (\<lambda>(a, b). (c # a, b)) (split_once_at p s))"

fun split_whitespace :: "ustr \<Rightarrow> ustr list" where
  "split_whitespace [] = []"
| "split_whitespace (c # s) =
     (if is_whitespace c then split_whitespace s
      else if s = [] \<or> is_whitespace (hd s) then [c] # split_whitespace s
      else (case split_whitespace s of [] \<Rightarrow> [[c]] | w # ws \<Rightarrow> (c # w) # ws))"

record mount_entry =
  mnt_device :: ustr
  mnt_point :: bytes

definition parse_mountinfo :: "ustr \<Rightarrow> mount_entry list" where
  "parse_mountinfo contents =
     List.map_filter (\<lambda>line.
       case split_once_at (lit '' - '') line of
         None \<Rightarrow> None
       | Some (mount_fields, _) \<Rightarrow>
           (let fields = split_whitespace mount_fields in
            if 4 < length fields
            then Some \<lparr>mnt_device = fields ! 2, mnt_point = decode_mount_field (fields ! 4)\<rparr>
            else None)) (lines contents)"

text \<open>Equality of absolute paths ignores repeated separators and current-directory components.\<close>

definition components :: "bytes \<Rightarrow> bytes list" where
  "components p = filter (\<lambda>d. d \<noteq> [] \<and> d \<noteq> ''.'') (split_on CHR ''/'' p)"

definition path_eq :: "bytes \<Rightarrow> bytes \<Rightarrow> bool" where
  "path_eq p q \<longleftrightarrow> components p = components q \<and> starts_with p ''/'' = starts_with q ''/''"

definition verify_mount :: "ustr option \<Rightarrow> bytes \<Rightarrow> bool \<Rightarrow> ustr option \<Rightarrow> storage_error + unit" where
  "verify_mount mountinfo expected_mount device_match device =
     bindE (okOr mountinfo MountInfoUnavailable) (\<lambda>contents.
     bindE (okOr (find (\<lambda>e. path_eq (mnt_point e) expected_mount) (parse_mountinfo contents)) MountMissing) (\<lambda>e.
       guardE (\<not> (device_match \<and> device \<noteq> Some (mnt_device e))) DeviceMismatch))"

text \<open>What the system reports about the configured paths: their canonical forms and whether they are
  directories.\<close>

record mount_view =
  mv_root :: "bytes option"
  mv_expected :: "bytes option"
  mv_root_is_dir :: bool
  mv_expected_is_dir :: bool
  mv_mountinfo :: "ustr option"

definition validate_mount :: "local_storage \<Rightarrow> mount_view \<Rightarrow> storage_error + unit" where
  "validate_mount st v =
     bindE (okOr (mv_root v) MissingRoot) (\<lambda>root.
     bindE (okOr (mv_expected v) MountMissing) (\<lambda>expected.
     bindE (guardE (mv_root_is_dir v \<and> mv_expected_is_dir v) MissingRoot) (\<lambda>_.
     bindE (guardE (starts_with (components root) (components expected)) OutsideExpectedMount) (\<lambda>_.
       verify_mount (mv_mountinfo v) expected (require_device_match st) (expected_device st)))))"

definition ensure_mounted :: "local_storage \<Rightarrow> mount_view \<Rightarrow> storage_error + unit" where
  "ensure_mounted st v = (if require_mount st then validate_mount st v else Inr ())"

section \<open>Keys and paths\<close>

record uuid_crate =
  uuid_text :: "uuid \<Rightarrow> string"
  uuid_parse :: "string \<Rightarrow> uuid option"

text \<open>What the store relies on: the hyphenated form has 36 characters, starts with eight lower-case
  hexadecimal digits, contains hexadecimal digits and hyphens only, and is parsed back.\<close>

definition uuid_codec :: "uuid_crate \<Rightarrow> bool" where
  "uuid_codec c \<longleftrightarrow> (\<forall>u. uuid_parse c (uuid_text c u) = Some u \<and> length (uuid_text c u) = 36
     \<and> list_all lower_hex_digit (take 8 (uuid_text c u))
     \<and> list_all (\<lambda>d. lower_hex_digit d \<or> d = CHR ''-'') (uuid_text c u))"

definition storage_key :: "uuid_crate \<Rightarrow> uuid \<Rightarrow> string" where
  "storage_key c object_id =
     (let i = uuid_text c object_id in take 2 i @ ''/'' @ take 2 (drop 2 i) @ ''/'' @ i)"

text \<open>Paths are relative to \<open>root/objects\<close>.\<close>

definition object_path :: "uuid_crate \<Rightarrow> string \<Rightarrow> storage_error + string list" where
  "object_path c key =
     (case split_on CHR ''/'' key of
        first # second # filename # rest \<Rightarrow>
          if rest \<noteq> [] \<or> length first \<noteq> 2 \<or> length second \<noteq> 2
             \<or> \<not> list_all lower_hex_digit first \<or> \<not> list_all lower_hex_digit second
          then Inl UnsafeKey
          else (case uuid_parse c filename of
                  None \<Rightarrow> Inl UnsafeKey
                | Some object_id \<Rightarrow>
                    let canonical = uuid_text c object_id in
                    if canonical \<noteq> filename \<or> take 2 canonical \<noteq> first \<or> take 2 (drop 2 canonical) \<noteq> second
                    then Inl UnsafeKey
                    else Inr [first, second, canonical])
      | _ \<Rightarrow> Inl UnsafeKey)"

section \<open>The volume\<close>

datatype node = Regular bytes | Obstacle
datatype dir_node = Directory | NotDirectory

record volume =
  vol_mounted :: "storage_error + unit"
  vol_staging :: "uuid \<Rightarrow> bytes option"
  vol_dirs :: "string list \<Rightarrow> dir_node option"
  vol_objects :: "string list \<Rightarrow> node option"

definition create_staging_file :: "uuid \<Rightarrow> volume \<Rightarrow> storage_error + volume" where
  "create_staging_file k v =
     bindE (vol_mounted v) (\<lambda>_.
     bindE (guardE (vol_staging v k = None) (StorageIo IoAlreadyExists)) (\<lambda>_.
       Inr (v\<lparr>vol_staging := (vol_staging v)(k \<mapsto> [])\<rparr>)))"

definition remove_staging_file :: "uuid \<Rightarrow> volume \<Rightarrow> storage_error + volume" where
  "remove_staging_file k v =
     bindE (vol_mounted v) (\<lambda>_. Inr (v\<lparr>vol_staging := (vol_staging v)(k := None)\<rparr>))"

text \<open>The components of the parent directory, each checked and, below \<open>objects\<close>, created on demand.\<close>

fun ensure_dirs :: "bool \<Rightarrow> string list \<Rightarrow> string list \<Rightarrow> volume \<Rightarrow> storage_error + volume" where
  "ensure_dirs create_missing prefix [] v = Inr v"
| "ensure_dirs create_missing prefix (d # ds) v =
     (let current = prefix @ [d] in
      case vol_dirs v current of
        Some Directory \<Rightarrow> ensure_dirs create_missing current ds v
      | Some NotDirectory \<Rightarrow> Inl UnsafeKey
      | None \<Rightarrow>
          if create_missing
          then ensure_dirs create_missing current ds (v\<lparr>vol_dirs := (vol_dirs v)(current \<mapsto> Directory)\<rparr>)
          else Inl (StorageIo IoNotFound))"

definition ensure_object_parent :: "uuid_crate \<Rightarrow> string \<Rightarrow> bool \<Rightarrow> volume \<Rightarrow> storage_error + volume" where
  "ensure_object_parent c key create_missing v =
     bindE (object_path c key) (\<lambda>destination.
       case vol_dirs v [] of
         Some Directory \<Rightarrow> ensure_dirs create_missing [] (take 2 destination) v
       | Some NotDirectory \<Rightarrow> Inl UnsafeKey
       | None \<Rightarrow> Inl (StorageIo IoNotFound))"

text \<open>
  One attempt of the rename loop; when neither file exists the loop sleeps and looks again, and
  with no other actor it ends in the error after its last attempt.
\<close>

definition promote_staging_file :: "uuid_crate \<Rightarrow> uuid \<Rightarrow> string \<Rightarrow> volume \<Rightarrow> storage_error + volume \<times> string list" where
  "promote_staging_file c k key v =
     bindE (vol_mounted v) (\<lambda>_.
     bindE (object_path c key) (\<lambda>destination.
     bindE (ensure_object_parent c key True v) (\<lambda>v1.
       case (vol_staging v1 k, vol_objects v1 destination) of
         (Some _, Some _) \<Rightarrow> Inl ObjectCollision
       | (Some data, None) \<Rightarrow>
           Inr (v1\<lparr>vol_staging := (vol_staging v1)(k := None),
                   vol_objects := (vol_objects v1)(destination \<mapsto> Regular data)\<rparr>, destination)
       | (None, Some _) \<Rightarrow> Inr (v1, destination)
       | (None, None) \<Rightarrow> Inl (StorageIo IoNotFound))))"

definition open_object :: "uuid_crate \<Rightarrow> string \<Rightarrow> volume \<Rightarrow> storage_error + bytes" where
  "open_object c key v =
     bindE (vol_mounted v) (\<lambda>_.
     bindE (object_path c key) (\<lambda>path.
     bindE (ensure_object_parent c key False v) (\<lambda>_.
       case vol_objects v path of
         Some (Regular data) \<Rightarrow> Inr data
       | Some Obstacle \<Rightarrow> Inl UnsafeKey
       | None \<Rightarrow> Inl (StorageIo IoNotFound))))"

definition object_exists :: "uuid_crate \<Rightarrow> string \<Rightarrow> volume \<Rightarrow> storage_error + bool" where
  "object_exists c key v =
     bindE (vol_mounted v) (\<lambda>_.
     bindE (object_path c key) (\<lambda>path.
       case ensure_object_parent c key False v of
         Inl e \<Rightarrow> if e = StorageIo IoNotFound then Inr False else Inl e
       | Inr _ \<Rightarrow>
           (case vol_objects v path of
              Some (Regular data) \<Rightarrow> Inr True
            | Some Obstacle \<Rightarrow> Inl UnsafeKey
            | None \<Rightarrow> Inr False)))"

definition remove_object :: "uuid_crate \<Rightarrow> string \<Rightarrow> volume \<Rightarrow> storage_error + volume" where
  "remove_object c key v =
     bindE (vol_mounted v) (\<lambda>_.
     bindE (object_path c key) (\<lambda>path.
       case ensure_object_parent c key False v of
         Inl e \<Rightarrow> if e = StorageIo IoNotFound then Inr v else Inl e
       | Inr _ \<Rightarrow>
           (case vol_objects v path of
              Some (Regular data) \<Rightarrow> Inr (v\<lparr>vol_objects := (vol_objects v)(path := None)\<rparr>)
            | Some Obstacle \<Rightarrow> Inl UnsafeKey
            | None \<Rightarrow> Inr v)))"

section \<open>Paths stay inside the store\<close>

lemma split_on_three:
  assumes "split_on d s = [a, b, e]"
  shows "s = a @ d # b @ d # e"
proof -
  have join: "concat (map (\<lambda>p. d # p) (split_on d s)) = d # s" for s
  proof (induction s)
    case Nil
    then show ?case by simp
  next
    case (Cons x s)
    obtain p ps where "split_on d s = p # ps" by (cases "split_on d s") auto
    with Cons show ?case by auto
  qed
  from join [of s] show ?thesis using assms by simp
qed

lemma uuid_text_no_slash:
  assumes "uuid_codec c"
  shows "CHR ''/'' \<notin> set (uuid_text c u)"
proof -
  have "list_all (\<lambda>d. lower_hex_digit d \<or> d = CHR ''-'') (uuid_text c u)" using assms by (simp add: uuid_codec_def)
  moreover have "\<not> lower_hex_digit CHR ''/''" by code_simp
  ultimately show ?thesis by (auto simp: list_all_iff)
qed

lemma object_path_Inr:
  assumes "object_path c key = Inr p"
  obtains u where "p = [take 2 (uuid_text c u), take 2 (drop 2 (uuid_text c u)), uuid_text c u]"
    and "split_on CHR ''/'' key = p"
  using assms that
  by (simp add: object_path_def Let_def split: list.splits if_splits option.splits) metis

lemma object_path_join: "object_path c key = Inr p \<Longrightarrow> key = p ! 0 @ ''/'' @ p ! 1 @ ''/'' @ p ! 2"
  by (erule object_path_Inr) (auto dest!: split_on_three)

lemma object_path_inj: "object_path c key = Inr p \<Longrightarrow> object_path c key' = Inr p \<Longrightarrow> key = key'"
  using object_path_join by metis

lemma object_path_storage_key:
  assumes "uuid_codec c"
  shows "object_path c (storage_key c u) = Inr [take 2 (uuid_text c u), take 2 (drop 2 (uuid_text c u)), uuid_text c u]"
proof -
  let ?t = "uuid_text c u"
  have t: "length ?t = 36" "list_all lower_hex_digit (take 8 ?t)" "uuid_parse c ?t = Some u"
    using assms by (auto simp: uuid_codec_def)
  have ns: "CHR ''/'' \<notin> set (take 2 ?t)" "CHR ''/'' \<notin> set (take 2 (drop 2 ?t))" "CHR ''/'' \<notin> set ?t"
    using uuid_text_no_slash [OF assms, of u] by (auto dest: in_set_takeD in_set_dropD)
  have sp: "split_on CHR ''/'' (storage_key c u) = [take 2 ?t, take 2 (drop 2 ?t), ?t]"
    using ns by (simp add: storage_key_def Let_def split_on_append split_on_none)
  have "set (take 2 ?t) \<subseteq> set (take 8 ?t)" "set (take 2 (drop 2 ?t)) \<subseteq> set (take 8 ?t)"
    using set_take_subset_set_take [of 2 8 ?t] set_drop_subset [of 2 "take 4 ?t"]
      set_take_subset_set_take [of 4 8 ?t] by (auto simp: take_drop)
  then have "list_all lower_hex_digit (take 2 ?t)" "list_all lower_hex_digit (take 2 (drop 2 ?t))"
    using t(2) by (auto simp: list_all_iff)
  then show ?thesis using t by (simp add: object_path_def sp Let_def)
qed

text \<open>
  A storage key addresses a file inside the object store and nothing else: the keys that
  are accepted are exactly those of object identifiers, each is mapped to its own path, and
  every component of a path consists of hexadecimal digits and hyphens, so no key can name a
  parent directory or another object.
\<close>

lemma object_path_confined:
  assumes "uuid_codec c"
  shows "(object_path c key = Inr p \<longleftrightarrow> (\<exists>u. key = storage_key c u
       \<and> p = [take 2 (uuid_text c u), take 2 (drop 2 (uuid_text c u)), uuid_text c u]))
    \<and> (object_path c key = Inr p \<and> object_path c key' = Inr p \<longrightarrow> key = key')
    \<and> (object_path c key = Inr p \<longrightarrow> list_all (list_all (\<lambda>d. lower_hex_digit d \<or> d = CHR ''-'')) p)"
proof (intro conjI impI)
  show eq: "object_path c key = Inr p \<longleftrightarrow> (\<exists>u. key = storage_key c u
       \<and> p = [take 2 (uuid_text c u), take 2 (drop 2 (uuid_text c u)), uuid_text c u])"
  proof
    assume p: "object_path c key = Inr p"
    then obtain u where "p = [take 2 (uuid_text c u), take 2 (drop 2 (uuid_text c u)), uuid_text c u]"
      by (rule object_path_Inr)
    moreover from this have "key = storage_key c u"
      using object_path_join [OF p] by (simp add: storage_key_def Let_def)
    ultimately show "\<exists>u. key = storage_key c u
       \<and> p = [take 2 (uuid_text c u), take 2 (drop 2 (uuid_text c u)), uuid_text c u]" by blast
  next
    assume "\<exists>u. key = storage_key c u
       \<and> p = [take 2 (uuid_text c u), take 2 (drop 2 (uuid_text c u)), uuid_text c u]"
    then show "object_path c key = Inr p" using object_path_storage_key [OF assms] by auto
  qed
  show "key = key'" if "object_path c key = Inr p \<and> object_path c key' = Inr p" using that object_path_inj by blast
  show "list_all (list_all (\<lambda>d. lower_hex_digit d \<or> d = CHR ''-'')) p" if "object_path c key = Inr p"
  proof -
    from that eq obtain u where u: "p = [take 2 (uuid_text c u), take 2 (drop 2 (uuid_text c u)), uuid_text c u]" by blast
    have "list_all (\<lambda>d. lower_hex_digit d \<or> d = CHR ''-'') (uuid_text c u)" using assms by (simp add: uuid_codec_def)
    then show ?thesis by (auto simp: u list_all_iff dest: in_set_takeD in_set_dropD)
  qed
qed

text \<open>A concrete text format: eight, four, four, four and twelve digits.\<close>

definition hex_text :: "uuid \<Rightarrow> string" where
  "hex_text u = map hex_lower (digits_of 16 32 (unat u))"

definition hyphenate :: "string \<Rightarrow> string" where
  "hyphenate s = take 8 s @ ''-'' @ take 4 (drop 8 s) @ ''-'' @ take 4 (drop 12 s) @ ''-'' @ take 4 (drop 16 s)
     @ ''-'' @ drop 20 s"

definition sample_crate :: uuid_crate where
  "sample_crate = \<lparr>uuid_text = (\<lambda>u. hyphenate (hex_text u)),
     uuid_parse = (\<lambda>s. Some (of_nat (value_of 16 (map hex_value (filter (\<lambda>d. d \<noteq> CHR ''-'') s)))))\<rparr>"

lemma hex_text_digits: "d \<in> set (hex_text u) \<Longrightarrow> lower_hex_digit d \<and> d \<noteq> CHR ''-''"
proof -
  assume "d \<in> set (hex_text u)"
  then obtain n where n: "n < 16" "d = hex_lower n" by (auto simp: hex_text_def dest: digits_of_less [rotated])
  then have "lower_hex_digit d" using hex_digits_16(3) by blast
  moreover have "\<not> lower_hex_digit CHR ''-''" by code_simp
  ultimately show ?thesis by auto
qed

lemma hyphenate_digits:
  "filter (\<lambda>d. d \<noteq> CHR ''-'') (hyphenate (hex_text u)) = hex_text u"
proof -
  have f: "filter (\<lambda>d. d \<noteq> CHR ''-'') s = s" if "set s \<subseteq> set (hex_text u)" for s
    using that hex_text_digits by (intro filter_True) auto
  have d: "drop n s = take m (drop n s) @ drop (n + m) s" for n m :: nat and s :: string
    by (metis add.commute append_take_drop_id drop_drop)
  have "take 8 (hex_text u) @ take 4 (drop 8 (hex_text u)) @ take 4 (drop 12 (hex_text u))
      @ take 4 (drop 16 (hex_text u)) @ drop 20 (hex_text u) = hex_text u"
    using d [of 8 "hex_text u" 4] d [of 12 "hex_text u" 4] d [of 16 "hex_text u" 4] append_take_drop_id [of 8 "hex_text u"]
    by simp
  then show ?thesis
    by (simp add: hyphenate_def) (simp add: f set_take_subset set_drop_subset
        order_trans [OF set_take_subset set_drop_subset])
qed

lemma sample_uuid_codec: "uuid_codec sample_crate"
proof -
  have "value_of 16 (map hex_value (hex_text u)) = unat u" for u
  proof -
    have "map hex_value (hex_text u) = digits_of 16 32 (unat u)"
      unfolding hex_text_def map_map comp_def
      by (intro map_idI) (auto simp: hex_digits_16(2) dest: digits_of_less [rotated])
    moreover have "unat u < 16 ^ 32" using unsigned_less [of u] by simp
    ultimately show ?thesis using value_of_digits_of by simp
  qed
  moreover have "length (hyphenate (hex_text u)) = 36" for u by (simp add: hyphenate_def hex_text_def)
  moreover have "list_all lower_hex_digit (take 8 (hyphenate (hex_text u)))" for u
    using hex_text_digits [of _ u] by (auto simp: hyphenate_def hex_text_def list_all_iff dest!: in_set_takeD)
  moreover have "d \<in> set (hyphenate (hex_text u)) \<Longrightarrow> lower_hex_digit d \<or> d = CHR ''-''" for d u
    using hex_text_digits [of d u] by (auto simp: hyphenate_def dest: in_set_takeD in_set_dropD)
  ultimately show ?thesis
    by (simp add: uuid_codec_def sample_crate_def hyphenate_digits list_all_iff)
qed

section \<open>Mount points\<close>

text \<open>How the kernel writes a mount point: space, tab, newline and backslash in octal.\<close>

definition kernel_escape :: "ustr \<Rightarrow> ustr" where
  "kernel_escape p = concat (map (\<lambda>ch.
     if ch = 32 then lit [CHR 0x5C, CHR ''0'', CHR ''4'', CHR ''0'']
     else if ch = 9 then lit [CHR 0x5C, CHR ''0'', CHR ''1'', CHR ''1'']
     else if ch = 10 then lit [CHR 0x5C, CHR ''0'', CHR ''1'', CHR ''2'']
     else if ch = 92 then lit [CHR 0x5C, CHR ''1'', CHR ''3'', CHR ''4'']
     else [ch]) p)"

lemma decode_octal_plain: "x \<noteq> CHR 0x5C \<Longrightarrow> decode_octal (x # s) = x # decode_octal s"
  by (cases "(x # s)" rule: decode_octal.cases) auto

lemma decode_octal_plains: "CHR 0x5C \<notin> set xs \<Longrightarrow> decode_octal (xs @ s) = xs @ decode_octal s"
  by (induction xs) (auto simp: decode_octal_plain)

lemma char_marks: "char_of (32 :: nat) = CHR 0x20" "char_of (9 :: nat) = CHR 0x09" "char_of (10 :: nat) = CHR 0x0A"
  "char_of (92 :: nat) = CHR 0x5C"
  by code_simp+

lemma char_marks2: "char_of (48 :: nat) = CHR ''0''" "char_of (49 :: nat) = CHR ''1''" "char_of (50 :: nat) = CHR ''2''"
  "char_of (51 :: nat) = CHR ''3''" "char_of (52 :: nat) = CHR ''4''"
  by code_simp+

lemma octal_bytes:
  "octal_byte CHR ''0'' CHR ''4'' CHR ''0'' = CHR 0x20" "octal_byte CHR ''0'' CHR ''1'' CHR ''1'' = CHR 0x09"
  "octal_byte CHR ''0'' CHR ''1'' CHR ''2'' = CHR 0x0A" "octal_byte CHR ''1'' CHR ''3'' CHR ''4'' = CHR 0x5C"
  "is_octal CHR ''0''" "is_octal CHR ''1''" "is_octal CHR ''2''" "is_octal CHR ''3''" "is_octal CHR ''4''"
  by (simp_all add: octal_byte_def is_octal_def char_marks)

lemma utf8_encode_append: "utf8_encode (a @ b) = utf8_encode a @ utf8_encode b"
  by (simp add: utf8_encode_def)

lemma utf8_char_plain:
  assumes "scalar ch" and "ch \<noteq> 92"
  shows "CHR 0x5C \<notin> set (utf8_encode [ch])"
proof -
  have "b \<noteq> 92" if "b \<in> set (utf8_char ch)" for b
    using assms(1) by (cases rule: utf8_char_cases) (use that assms(2) in auto)
  moreover have "b < 256" if "b \<in> set (utf8_char ch)" for b
    using assms(1) by (cases rule: utf8_char_cases) (use that in auto)
  moreover have "b = 92" if "char_of b = CHR 0x5C" "b < 256" for b :: nat
  proof -
    have "of_char (char_of b :: char) = (92 :: nat)" using that(1) by simp
    then show ?thesis using that(2) by (simp add: of_char_of)
  qed
  ultimately show ?thesis by (auto simp: utf8_encode_def image_iff)
qed

text \<open>
  Mount points are read back exactly as they are: for every path, whatever characters it
  contains, decoding the kernel's escaped form gives the path.
\<close>

lemma mount_point_roundtrip:
  assumes "list_all scalar p"
  shows "decode_mount_field (kernel_escape p) = utf8_encode p"
proof -
  have "decode_octal (utf8_encode (kernel_escape p)) = utf8_encode p"
    using assms
  proof (induction p)
    case Nil
    then show ?case by (simp add: kernel_escape_def utf8_encode_def)
  next
    case (Cons ch p)
    let ?e = "kernel_escape [ch]"
    have split: "kernel_escape (ch # p) = ?e @ kernel_escape p" "utf8_encode (ch # p) = utf8_encode [ch] @ utf8_encode p"
      by (simp_all add: kernel_escape_def utf8_encode_def)
    have "decode_octal (utf8_encode ?e @ s) = utf8_encode [ch] @ decode_octal s" for s
    proof (cases "ch \<in> {32, 9, 10, 92}")
      case True
      then show ?thesis
        by (auto simp: kernel_escape_def utf8_encode_def utf8_char_def text_simps octal_bytes char_marks char_marks2)
    next
      case False
      then have "?e = [ch]" by (simp add: kernel_escape_def)
      then show ?thesis using decode_octal_plains utf8_char_plain False Cons.prems by simp
    qed
    then show ?case using Cons by (simp add: split utf8_encode_append)
  qed
  then show ?thesis using assms by (simp add: decode_mount_field_def)
qed

section \<open>The store as a map from keys to contents\<close>

text \<open>
  What the clients rely on: promoting a staged file gives its content to the key and takes it
  from the staging area, promoting again changes nothing, removing leaves no content, and no
  operation touches another key or another staging file.
\<close>

locale blob_store =
  fixes inv :: "'v \<Rightarrow> bool"
    and read :: "'k \<Rightarrow> 'v \<Rightarrow> bytes option"
    and staged :: "'u \<Rightarrow> 'v \<Rightarrow> bytes option"
    and promote :: "'u \<Rightarrow> 'k \<Rightarrow> 'v \<Rightarrow> 'e + 'v"
    and remove :: "'k \<Rightarrow> 'v \<Rightarrow> 'e + 'v"
  assumes promote_inv: "inv v \<Longrightarrow> promote u k v = Inr v' \<Longrightarrow> inv v'"
    and promote_read: "promote u k v = Inr v' \<Longrightarrow> staged u v = Some d \<Longrightarrow> read k v' = Some d"
    and promote_again: "promote u k v = Inr v' \<Longrightarrow> staged u v = None \<Longrightarrow> read k v' = read k v"
    and promote_taken: "promote u k v = Inr v' \<Longrightarrow> staged u v' = None"
    and promote_other: "promote u k v = Inr v' \<Longrightarrow> k' \<noteq> k \<Longrightarrow> read k' v' = read k' v"
    and promote_staged: "promote u k v = Inr v' \<Longrightarrow> u' \<noteq> u \<Longrightarrow> staged u' v' = staged u' v"
    and remove_inv: "inv v \<Longrightarrow> remove k v = Inr v' \<Longrightarrow> inv v'"
    and remove_read: "inv v \<Longrightarrow> remove k v = Inr v' \<Longrightarrow> read k v' = None"
    and remove_other: "remove k v = Inr v' \<Longrightarrow> k' \<noteq> k \<Longrightarrow> read k' v' = read k' v"
    and remove_staged: "remove k v = Inr v' \<Longrightarrow> staged u v' = staged u v"
begin

lemma promote_twice:
  assumes "promote u k v = Inr v'" and "promote u k v' = Inr v''"
  shows "read k v'' = read k v'"
  using promote_again [OF assms(2)] promote_taken [OF assms(1)] by simp

lemma promote_then_remove:
  assumes "inv v" and "promote u k v = Inr v'" and "remove k v' = Inr v''" and "k' \<noteq> k"
  shows "read k v'' = None \<and> read k' v'' = read k' v"
  using remove_read [OF promote_inv [OF assms(1,2)] assms(3)] assms by (simp add: remove_other promote_other)

end

text \<open>The invariant of a volume: an object has its shard directories.\<close>

definition vol_ok :: "volume \<Rightarrow> bool" where
  "vol_ok v \<longleftrightarrow> (\<forall>p. vol_objects v p \<noteq> None \<longrightarrow>
     vol_dirs v [] = Some Directory \<and> vol_dirs v (take 1 p) = Some Directory \<and> vol_dirs v (take 2 p) = Some Directory)"

definition object_at :: "uuid_crate \<Rightarrow> string \<Rightarrow> volume \<Rightarrow> bytes option" where
  "object_at c key v =
     (case object_path c key of
        Inl e \<Rightarrow> None
      | Inr p \<Rightarrow> (case vol_objects v p of Some (Regular data) \<Rightarrow> Some data | _ \<Rightarrow> None))"

definition promote_file :: "uuid_crate \<Rightarrow> uuid \<Rightarrow> string \<Rightarrow> volume \<Rightarrow> storage_error + volume" where
  "promote_file c k key v = bindE (promote_staging_file c k key v) (\<lambda>(v', p). Inr v')"

lemma ensure_dirs_Inr:
  "ensure_dirs m prefix ds v = Inr v' \<Longrightarrow>
   vol_staging v' = vol_staging v \<and> vol_objects v' = vol_objects v \<and> vol_mounted v' = vol_mounted v
   \<and> (\<forall>d. vol_dirs v d = Some Directory \<longrightarrow> vol_dirs v' d = Some Directory)
   \<and> (\<forall>n \<le> length ds. 0 < n \<longrightarrow> vol_dirs v' (prefix @ take n ds) = Some Directory)"
proof (induction m prefix ds v rule: ensure_dirs.induct)
  case (1 m prefix v)
  then show ?case by simp
next
  case (2 m prefix d ds v)
  let ?c = "prefix @ [d]"
  obtain w where w: "ensure_dirs m ?c ds w = Inr v'" "vol_dirs w ?c = Some Directory"
    "vol_staging w = vol_staging v" "vol_objects w = vol_objects v" "vol_mounted w = vol_mounted v"
    "\<forall>d. vol_dirs v d = Some Directory \<longrightarrow> vol_dirs w d = Some Directory"
    and IH: "ensure_dirs m ?c ds w = Inr v' \<Longrightarrow>
       vol_staging v' = vol_staging w \<and> vol_objects v' = vol_objects w \<and> vol_mounted v' = vol_mounted w
       \<and> (\<forall>d. vol_dirs w d = Some Directory \<longrightarrow> vol_dirs v' d = Some Directory)
       \<and> (\<forall>n \<le> length ds. 0 < n \<longrightarrow> vol_dirs v' (?c @ take n ds) = Some Directory)"
  proof (cases "vol_dirs v ?c")
    case None
    show thesis
      by (rule that [of "v\<lparr>vol_dirs := (vol_dirs v)(?c \<mapsto> Directory)\<rparr>"])
        (use 2 None in \<open>auto simp: Let_def split: if_splits\<close>)
  next
    case (Some n)
    show thesis
      by (rule that [of v]) (use 2 Some in \<open>auto simp: Let_def split: dir_node.splits\<close>)
  qed
  note r = IH [OF w(1)]
  have "vol_dirs v' (prefix @ take n (d # ds)) = Some Directory" if "n \<le> length (d # ds)" "0 < n" for n
  proof (cases "n = 1")
    case True
    then show ?thesis using r w(2) by simp
  next
    case False
    with that obtain k where "n = Suc k" "0 < k" "k \<le> length ds" by (cases n) auto
    then show ?thesis using r by simp
  qed
  with r w show ?case by simp
qed

lemma ensure_parent_Inr:
  assumes "ensure_object_parent c key m v = Inr v'"
  shows "vol_staging v' = vol_staging v" and "vol_objects v' = vol_objects v" and "vol_mounted v' = vol_mounted v"
    and "vol_dirs v d = Some Directory \<Longrightarrow> vol_dirs v' d = Some Directory"
    and "object_path c key = Inr p \<Longrightarrow> vol_dirs v' [] = Some Directory \<and> vol_dirs v' (take 1 p) = Some Directory
      \<and> vol_dirs v' (take 2 p) = Some Directory"
proof -
  obtain q where q: "object_path c key = Inr q" "vol_dirs v [] = Some Directory" "ensure_dirs m [] (take 2 q) v = Inr v'"
    using assms by (auto simp: ensure_object_parent_def result_simps split: option.splits)
      (metis dir_node.exhaust dir_node.simps(3,4) sum.distinct(1))
  note r = ensure_dirs_Inr [OF q(3)]
  from r show "vol_staging v' = vol_staging v" "vol_objects v' = vol_objects v" "vol_mounted v' = vol_mounted v"
    "vol_dirs v d = Some Directory \<Longrightarrow> vol_dirs v' d = Some Directory" by auto
  have "length (take 2 q) = 2" using q(1) by (rule object_path_Inr) simp
  then show "object_path c key = Inr p \<Longrightarrow> vol_dirs v' [] = Some Directory \<and> vol_dirs v' (take 1 p) = Some Directory
      \<and> vol_dirs v' (take 2 p) = Some Directory"
    using r q(1,2) by (auto simp: min_def dest: spec [of _ "1 :: nat"] spec [of _ "2 :: nat"])
qed

lemma promote_staging_Inr:
  assumes "promote_staging_file c k key v = Inr (v', p)"
  shows "object_path c key = Inr p" and "vol_mounted v' = vol_mounted v"
    and "vol_staging v' = (vol_staging v)(k := None)"
    and "vol_objects v' = (case vol_staging v k of
           None \<Rightarrow> vol_objects v | Some d \<Rightarrow> (vol_objects v)(p \<mapsto> Regular d))"
    and "vol_staging v k = None \<Longrightarrow> vol_objects v p \<noteq> None" and "vol_staging v k \<noteq> None \<Longrightarrow> vol_objects v p = None"
    and "vol_ok v \<Longrightarrow> vol_ok v'"
proof -
  from assms obtain v1 where o: "object_path c key = Inr p" and e: "ensure_object_parent c key True v = Inr v1"
    and m: "(case (vol_staging v1 k, vol_objects v1 p) of
         (Some _, Some _) \<Rightarrow> Inl ObjectCollision
       | (Some data, None) \<Rightarrow> Inr (v1\<lparr>vol_staging := (vol_staging v1)(k := None),
                   vol_objects := (vol_objects v1)(p \<mapsto> Regular data)\<rparr>, p)
       | (None, Some _) \<Rightarrow> Inr (v1, p)
       | (None, None) \<Rightarrow> Inl (StorageIo IoNotFound)) = Inr (v', p)"
    by (auto simp: promote_staging_file_def result_simps split: option.splits)
  note f = ensure_parent_Inr [OF e]
  show "object_path c key = Inr p" by (rule o)
  show "vol_mounted v' = vol_mounted v" "vol_staging v' = (vol_staging v)(k := None)"
    "vol_objects v' = (case vol_staging v k of
           None \<Rightarrow> vol_objects v | Some d \<Rightarrow> (vol_objects v)(p \<mapsto> Regular d))"
    "vol_staging v k = None \<Longrightarrow> vol_objects v p \<noteq> None" "vol_staging v k \<noteq> None \<Longrightarrow> vol_objects v p = None"
    using m f(1-3) by (auto split: option.splits)
  have "vol_dirs v' = vol_dirs v1" "\<And>q. vol_objects v' q \<noteq> None \<Longrightarrow> q = p \<or> vol_objects v q \<noteq> None"
    using m f(2) by (auto split: option.splits if_splits)
  then show "vol_ok v \<Longrightarrow> vol_ok v'" unfolding vol_ok_def using f(4) f(5) [OF o] by metis
qed

lemma promote_file_Inr: "promote_file c k key v = Inr v' \<longleftrightarrow> (\<exists>p. promote_staging_file c k key v = Inr (v', p))"
  by (auto simp: promote_file_def result_simps)

lemma object_at_cong: "vol_objects v' = vol_objects v \<Longrightarrow> object_at c key v' = object_at c key v"
  by (simp add: object_at_def cong: sum.case_cong)

lemma object_at_upd:
  assumes "object_path c key = Inr p" and "vol_objects v' = (vol_objects v)(p := n)"
  shows "object_at c key' v' = (if key' = key then (case n of Some (Regular d) \<Rightarrow> Some d | _ \<Rightarrow> None) else object_at c key' v)"
proof (cases "object_path c key'")
  case (Inr q)
  then have "q = p \<longleftrightarrow> key' = key" using assms(1) object_path_inj by auto
  then show ?thesis using Inr assms by (simp add: object_at_def)
qed (use assms(1) in \<open>auto simp: object_at_def\<close>)

lemma remove_object_Inr:
  assumes "remove_object c key v = Inr v'" and "vol_ok v"
  obtains p where "object_path c key = Inr p" and "v' = v\<lparr>vol_objects := (vol_objects v)(p := None)\<rparr>"
proof -
  from assms(1) obtain p where o: "object_path c key = Inr p" and
    m: "(case ensure_object_parent c key False v of
         Inl e \<Rightarrow> if e = StorageIo IoNotFound then Inr v else Inl e
       | Inr _ \<Rightarrow>
           (case vol_objects v p of
              Some (Regular data) \<Rightarrow> Inr (v\<lparr>vol_objects := (vol_objects v)(p := None)\<rparr>)
            | Some Obstacle \<Rightarrow> Inl UnsafeKey
            | None \<Rightarrow> Inr v)) = Inr v'"
    by (auto simp: remove_object_def result_simps)
  have "vol_objects v p = None \<and> v' = v \<or> v' = v\<lparr>vol_objects := (vol_objects v)(p := None)\<rparr>"
  proof (cases "ensure_object_parent c key False v")
    case (Inl e)
    have "vol_objects v p = None"
    proof (rule ccontr)
      assume "vol_objects v p \<noteq> None"
      then have d: "vol_dirs v [] = Some Directory" "vol_dirs v (take 1 p) = Some Directory" "vol_dirs v (take 2 p) = Some Directory"
        using assms(2) by (auto simp: vol_ok_def)
      obtain a b e where "p = [a, b, e]" using o by (rule object_path_Inr) blast
      then have "ensure_object_parent c key False v = Inr v" using o d by (simp add: ensure_object_parent_def)
      with Inl show False by simp
    qed
    with m Inl show ?thesis by (simp split: if_splits)
  next
    case (Inr v1)
    with m show ?thesis by (auto split: option.splits node.splits)
  qed
  then show thesis using that [OF o] by (metis fun_upd_triv volume.surjective volume.update_convs(4))
qed

lemma remove_object_frame:
  assumes "remove_object c key v = Inr v'"
  obtains p where "object_path c key = Inr p" and "v' = v \<or> v' = v\<lparr>vol_objects := (vol_objects v)(p := None)\<rparr>"
proof -
  from assms obtain p where o: "object_path c key = Inr p" and m: "vol_mounted v = Inr ()"
    by (auto simp: remove_object_def result_simps)
  have "v' = v \<or> v' = v\<lparr>vol_objects := (vol_objects v)(p := None)\<rparr>"
  proof (cases "ensure_object_parent c key False v")
    case (Inl e)
    then show ?thesis using assms o m by (auto simp: remove_object_def split: if_splits)
  next
    case (Inr w)
    then show ?thesis using assms o m
      by (cases "vol_objects v p"; (cases "the (vol_objects v p)")?) (auto simp: remove_object_def)
  qed
  with o that show thesis by blast
qed

interpretation blobs: blob_store vol_ok "object_at c" "\<lambda>k v. vol_staging v k" "promote_file c" "remove_object c" for c
proof
  fix k key v v' d key' k'
  show "vol_ok v \<Longrightarrow> promote_file c k key v = Inr v' \<Longrightarrow> vol_ok v'"
    using promote_staging_Inr(7) by (auto simp: promote_file_Inr)
  show "vol_staging v' k = None" if "promote_file c k key v = Inr v'"
    using that promote_staging_Inr(3) by (auto simp: promote_file_Inr)
  show "vol_staging v' k' = vol_staging v k'" if "promote_file c k key v = Inr v'" "k' \<noteq> k"
    using that promote_staging_Inr(3) by (auto simp: promote_file_Inr)
  show "object_at c key v' = Some d" if p: "promote_file c k key v = Inr v'" and "vol_staging v k = Some d"
  proof -
    from p obtain q where q: "promote_staging_file c k key v = Inr (v', q)" by (auto simp: promote_file_Inr)
    show ?thesis using object_at_upd [OF promote_staging_Inr(1) [OF q]] promote_staging_Inr(4) [OF q] that(2) by simp
  qed
  show "object_at c key v' = object_at c key v" if p: "promote_file c k key v = Inr v'" and "vol_staging v k = None"
  proof -
    from p obtain q where q: "promote_staging_file c k key v = Inr (v', q)" by (auto simp: promote_file_Inr)
    show ?thesis using promote_staging_Inr(4) [OF q] that(2) by (intro object_at_cong) simp
  qed
  show "object_at c key' v' = object_at c key' v" if p: "promote_file c k key v = Inr v'" and "key' \<noteq> key"
  proof -
    from p obtain q where q: "promote_staging_file c k key v = Inr (v', q)" by (auto simp: promote_file_Inr)
    show ?thesis
    proof (cases "vol_staging v k")
      case None
      then show ?thesis using promote_staging_Inr(4) [OF q] by (intro object_at_cong) simp
    next
      case (Some d)
      then show ?thesis
        using object_at_upd [OF promote_staging_Inr(1) [OF q], of v' v "Some (Regular d)" key'] promote_staging_Inr(4) [OF q] that(2)
        by simp
    qed
  qed
  show "vol_ok v'" if "vol_ok v" "remove_object c key v = Inr v'"
    using that(2,1) by (rule remove_object_Inr) (use that(1) in \<open>auto simp: vol_ok_def\<close>)
  show "object_at c key v' = None" if "vol_ok v" "remove_object c key v = Inr v'"
    using that(2,1) by (rule remove_object_Inr) (auto simp: object_at_def)
  show "object_at c key' v' = object_at c key' v" if "remove_object c key v = Inr v'" "key' \<noteq> key"
    using that(1)
  proof (rule remove_object_frame)
    fix p
    assume "object_path c key = Inr p" "v' = v \<or> v' = v\<lparr>vol_objects := (vol_objects v)(p := None)\<rparr>"
    then show ?thesis using object_at_upd [of c key p v' v None key'] that(2) by auto
  qed
  show "vol_staging v' k = vol_staging v k" if "remove_object c key v = Inr v'"
    using that by (rule remove_object_frame) auto
qed

end
