(* ===== verification/Previews.thy ===== *)
theory Previews
  imports Storage
begin

text \<open>
  The store of media derivatives (\<open>src/storage/preview.rs\<close>): one directory per file
  version with the cards, viewer images, posters and browser videos the indexer publishes.
  A derivative is served only if the file on disk has the size and the digest its row records.
\<close>

section \<open>State\<close>

record previews =
  pv_mounted :: "storage_error + unit"
  pv_dirs :: "uuid \<Rightarrow> dir_node option"
  pv_files :: "uuid \<Rightarrow> string \<Rightarrow> node option"

definition char_lower :: "char \<Rightarrow> char" where
  "char_lower c = (let n = (of_char c :: nat) in if 65 \<le> n \<and> n \<le> 90 then char_of (n + 32) else c)"

definition variants :: "string list" where
  "variants = [''card'', ''viewer'', ''video_poster'', ''video_preview'']"

text \<open>Decimal digits of a recipe version, which is a 16-bit integer.\<close>

definition derivative_filename :: "string \<Rightarrow> int \<Rightarrow> storage_error + string" where
  "derivative_filename variant recipe =
     (if recipe \<le> 0 then Inl UnsafeKey
      else if variant = ''video_preview'' then Inr (variant @ ''-v'' @ show_nat (nat recipe) @ ''.'' @ ''mp4'')
      else if variant \<in> {''card'', ''viewer'', ''video_poster''} then Inr (variant @ ''-v'' @ show_nat (nat recipe) @ ''.'' @ ''webp'')
      else Inl UnsafeKey)"

definition ensure_directory :: "uuid \<Rightarrow> previews \<Rightarrow> storage_error + previews" where
  "ensure_directory v pv =
     (case pv_dirs pv v of
        Some Directory \<Rightarrow> Inr pv
      | Some NotDirectory \<Rightarrow> Inl UnsafeKey
      | None \<Rightarrow> Inr (pv\<lparr>pv_dirs := (pv_dirs pv)(v \<mapsto> Directory)\<rparr>))"

section \<open>Publishing and reading\<close>

text \<open>
  What a publication observes: the free space, a failure of writing or syncing the staging
  file, and whether the volume is still mounted when the file is moved into place.
\<close>

record publish_env =
  pu_reading :: reading
  pu_write :: "io_kind option"
  pu_remount :: "storage_error + unit"
  pu_rename :: "io_kind option"

definition publish_derivative :: "publish_env \<Rightarrow> uuid \<Rightarrow> string \<Rightarrow> int \<Rightarrow> bytes \<Rightarrow> previews \<Rightarrow> previews \<times> (storage_error + unit)" where
  "publish_derivative env v variant recipe d pv =
     (case bindE (guardE (\<not> (variant \<notin> set variants \<or> recipe \<le> 0 \<or> d = [])) UnsafeKey) (\<lambda>_.
           bindE (pv_mounted pv) (\<lambda>_.
           bindE (capacity (pu_reading env)) (\<lambda>(free_bytes, total_bytes).
           bindE (guardE (\<not> free_bytes < min (length d + 64 * 1024 * 1024) (2 ^ 64 - 1)) LowSpace) (\<lambda>_.
             ensure_directory v pv)))) of
        Inl e \<Rightarrow> (pv, Inl e)
      | Inr pv1 \<Rightarrow>
          (case bindE (derivative_filename variant recipe) (\<lambda>name.
                bindE (case pu_write env of None \<Rightarrow> Inr () | Some e \<Rightarrow> Inl (StorageIo e)) (\<lambda>_.
                bindE (pu_remount env) (\<lambda>_.
                bindE (case pu_rename env of None \<Rightarrow> Inr () | Some e \<Rightarrow> Inl (StorageIo e)) (\<lambda>_. Inr name)))) of
             Inl e \<Rightarrow> (pv1, Inl e)
           | Inr name \<Rightarrow>
               (pv1\<lparr>pv_files := (pv_files pv1)(v := (pv_files pv1 v)(name \<mapsto> Regular d))\<rparr>, Inr ())))"

definition is_hexdigit :: "char \<Rightarrow> bool" where
  "is_hexdigit c = (let n = (of_char c :: nat) in (48 \<le> n \<and> n \<le> 57) \<or> (65 \<le> n \<and> n \<le> 70) \<or> (97 \<le> n \<and> n \<le> 102))"

definition read_derivative :: "externals \<Rightarrow> uuid \<Rightarrow> string \<Rightarrow> int \<Rightarrow> int \<Rightarrow> string \<Rightarrow> nat \<Rightarrow> previews \<Rightarrow> storage_error + bytes" where
  "read_derivative x v variant recipe expected_size expected_checksum max_bytes pv =
     bindE (guardE (\<not> (variant \<notin> set variants \<or> recipe \<le> 0 \<or> expected_size \<le> 0 \<or> nat expected_size > max_bytes
              \<or> length expected_checksum \<noteq> 64 \<or> \<not> list_all is_hexdigit expected_checksum)) CorruptDerivative) (\<lambda>_.
     bindE (pv_mounted pv) (\<lambda>_.
     bindE (guardE (pv_dirs pv v = Some Directory) MissingRoot) (\<lambda>_.
     bindE (derivative_filename variant recipe) (\<lambda>name.
       case pv_files pv v name of
         None \<Rightarrow> Inl (StorageIo IoNotFound)
       | Some Obstacle \<Rightarrow> Inl UnsafeKey
       | Some (Regular d) \<Rightarrow>
           bindE (guardE (\<not> (int (length d) \<noteq> expected_size \<or> length d > max_bytes)) CorruptDerivative) (\<lambda>_.
           bindE (guardE (map char_lower (hex_digest (sha256 x d)) = map char_lower expected_checksum) CorruptDerivative) (\<lambda>_.
             Inr d))))))"

section \<open>What is read is what was published\<close>

lemma read_derivative_Inr:
  assumes "read_derivative x v variant recipe n checksum m pv = Inr d"
  obtains name where "derivative_filename variant recipe = Inr name" and "pv_files pv v name = Some (Regular d)"
    and "int (length d) = n" and "length d \<le> m" and "d \<noteq> []"
    and "map char_lower (hex_digest (sha256 x d)) = map char_lower checksum"
proof -
  from assms obtain name where n: "derivative_filename variant recipe = Inr name" and "0 < n" and
    r: "(case pv_files pv v name of
         None \<Rightarrow> Inl (StorageIo IoNotFound)
       | Some Obstacle \<Rightarrow> Inl UnsafeKey
       | Some (Regular d) \<Rightarrow>
           bindE (guardE (\<not> (int (length d) \<noteq> n \<or> length d > m)) CorruptDerivative) (\<lambda>_.
           bindE (guardE (map char_lower (hex_digest (sha256 x d)) = map char_lower checksum) CorruptDerivative) (\<lambda>_.
             Inr d))) = Inr d"
    unfolding read_derivative_def bindE_Inr_iff guardE_Inr_iff by auto
  from r obtain d' where "pv_files pv v name = Some (Regular d')"
    by (cases "pv_files pv v name"; cases "the (pv_files pv v name)") auto
  with r \<open>0 < n\<close> show thesis by (intro that [OF n]) (auto simp: result_simps)
qed

lemma hex_digest_checksum:
  assumes "length b = 32"
  shows "length (hex_digest b) = 64" and "list_all is_hexdigit (hex_digest b)"
proof -
  have hex: "\<forall>n < 16. is_hexdigit (hex_lower n)" by code_simp
  have "byte_hi a < 16 \<and> byte_lo a < 16" for a
    using of_char_less [of a] by (simp add: byte_hi_def byte_lo_def less_mult_imp_div_less)
  with hex show "list_all is_hexdigit (hex_digest b)" by (simp add: hex_digest_def list_all_iff)
  have "length (hex_digest b) = 2 * length b" by (induction b) (simp_all add: hex_digest_def)
  then show "length (hex_digest b) = 64" by (simp add: assms)
qed

text \<open>A published derivative is read back under its size and digest, and no other derivative changes.\<close>

lemma publish_read:
  assumes p: "publish_derivative env v variant recipe d pv = (pv', Inr ())" and x: "digest_size x" and m: "length d \<le> m"
  shows "read_derivative x v variant recipe (int (length d)) (hex_digest (sha256 x d)) m pv' = Inr d"
proof -
  from p obtain pv1 name where g: "variant \<in> set variants" "0 < recipe" "d \<noteq> []" "pv_mounted pv = Inr ()"
    and e: "ensure_directory v pv = Inr pv1" and n: "derivative_filename variant recipe = Inr name"
    and pv': "pv' = pv1\<lparr>pv_files := (pv_files pv1)(v := (pv_files pv1 v)(name \<mapsto> Regular d))\<rparr>"
    by (auto simp: publish_derivative_def result_simps split: sum.splits prod.splits)
  have "pv_dirs pv1 v = Some Directory" "pv_mounted pv1 = Inr ()"
    using e g(4) by (auto simp: ensure_directory_def split: option.splits dir_node.splits)
  then show ?thesis
    using g n m hex_digest_checksum [of "sha256 x d"] x by (simp add: read_derivative_def pv' digest_size_def not_le)
qed

end
