(* ===== verification/Uploads.thy ===== *)
theory Uploads
  imports Drive_Results Previews
begin

text \<open>
  Resumable uploads (\<open>src/transfers.rs\<close>): creating an upload under the account's quota,
  appending chunks to its staging file, finalizing it into a file of the drive, rejecting a
  checksum mismatch and cancelling. A \<open>store\<close> is the database with the volume. Everything
  a request observes besides the store (the time, the identifiers it draws, readings of the
  free space, failures of system calls) is an argument, so that every error branch can be
  taken.
\<close>

section \<open>Errors\<close>

datatype transfer_error =
    TBadRequest | TUnsupportedPreview | TNotFound | TAuthenticationRequired | TConflict | TChecksumMismatch
  | TOffsetConflict nat | TGone | TPayloadTooLarge | TQuotaExceeded | TStorage storage_error | TInconsistent
  | TDatabase | TDrive drive_error | TRangeNotSatisfiable nat | TPanicked

definition transfer_error_response :: "transfer_error \<Rightarrow> (nat \<times> string) option" where
  "transfer_error_response e = (case e of
      TBadRequest \<Rightarrow> Some (400, ''invalid_request'')
    | TUnsupportedPreview \<Rightarrow> Some (415, ''preview_unsupported'')
    | TNotFound \<Rightarrow> Some (404, ''not_found'')
    | TAuthenticationRequired \<Rightarrow> Some (401, ''authentication_required'')
    | TConflict \<Rightarrow> Some (409, ''conflict'')
    | TChecksumMismatch \<Rightarrow> Some (409, ''checksum_mismatch'')
    | TOffsetConflict n \<Rightarrow> Some (409, ''offset_mismatch'')
    | TGone \<Rightarrow> Some (410, ''upload_closed'')
    | TPayloadTooLarge \<Rightarrow> Some (413, ''payload_too_large'')
    | TQuotaExceeded \<Rightarrow> Some (507, ''quota_exceeded'')
    | TStorage s \<Rightarrow> Some (if s = LowSpace then (507, ''storage_low'') else (503, ''storage_unavailable''))
    | TInconsistent \<Rightarrow> Some (503, ''storage_unavailable'')
    | TDatabase \<Rightarrow> Some (503, ''service_unavailable'')
    | TDrive d \<Rightarrow> Some (drive_error_response d)
    | TRangeNotSatisfiable n \<Rightarrow> Some (416, ''range_not_satisfiable'')
    | TPanicked \<Rightarrow> None)"

definition map_transfer_error :: "db_error \<Rightarrow> transfer_error" where
  "map_transfer_error e = (case e of
      UniqueViolation \<Rightarrow> TConflict
    | CheckViolation \<Rightarrow> TConflict
    | ForeignKeyViolation \<Rightarrow> TNotFound
    | OtherDbError \<Rightarrow> TDatabase)"

definition tsql :: "db_error + 'a \<Rightarrow> transfer_error + 'a" where
  "tsql m = mapErr map_transfer_error m"

definition tdrive :: "drive_error + 'a \<Rightarrow> transfer_error + 'a" where
  "tdrive m = mapErr TDrive m"

definition tstore :: "storage_error + 'a \<Rightarrow> transfer_error + 'a" where
  "tstore m = mapErr TStorage m"

section \<open>State\<close>

record store =
  st_db :: db
  st_vol :: volume

type_synonym 'a transfer_outcome = "store \<times> (transfer_error + 'a)"

record transfer_settings =
  max_file_size :: nat
  owner_quota_bytes :: nat
  upload_session_ttl_seconds :: nat

section \<open>Statements on \<open>upload_sessions\<close>\<close>

definition insert_upload :: "upload_row \<Rightarrow> db \<Rightarrow> db_error + db" where
  "insert_upload u s =
     bindE (guardE (entry_name_check (upl_filename u) \<and> 0 \<le> upl_expected_size u \<and> 0 \<le> upl_received_size u
              \<and> upl_received_size u \<le> upl_expected_size u) CheckViolation) (\<lambda>_.
     bindE (guardE (\<forall>r \<in> set (uploads s). upl_id r \<noteq> upl_id u \<and> upl_staging_key r \<noteq> upl_staging_key u)
              UniqueViolation) (\<lambda>_.
     bindE (guardE (upl_owner u \<in> usr_id ` set (users s)
              \<and> (case upl_target_parent u of None \<Rightarrow> True | Some p \<Rightarrow> p \<in> set (folders s))
              \<and> (case upl_replace_file u of None \<Rightarrow> True | Some f \<Rightarrow> f \<in> fil_id ` set (files s)))
              ForeignKeyViolation) (\<lambda>_.
       Inr (s\<lparr>uploads := uploads s @ [u]\<rparr>))))"

definition upload_row_check :: "upload_row \<Rightarrow> bool" where
  "upload_row_check u \<longleftrightarrow> 0 \<le> upl_received_size u \<and> upl_received_size u \<le> upl_expected_size u
     \<and> (case upl_state u of
          Finalizing \<Rightarrow> upl_object u \<noteq> None \<and> upl_final_file u \<noteq> None
        | Completed \<Rightarrow> upl_final_file u \<noteq> None
        | _ \<Rightarrow> True)"

definition update_upload :: "uuid \<Rightarrow> (upload_row \<Rightarrow> bool) \<Rightarrow> (upload_row \<Rightarrow> upload_row) \<Rightarrow> db \<Rightarrow> db_error + db" where
  "update_upload i p f s =
     bindE (guardE (\<forall>u \<in> set (uploads s). upl_id u = i \<and> p u \<longrightarrow> upload_row_check (f u)) CheckViolation) (\<lambda>_.
       Inr (s\<lparr>uploads := update_where (\<lambda>u. upl_id u = i \<and> p u) f (uploads s)\<rparr>))"

definition fetch_upload :: "uuid \<Rightarrow> uuid \<Rightarrow> db \<Rightarrow> transfer_error + upload_row" where
  "fetch_upload owner i s = okOr (find (\<lambda>u. upl_id u = i \<and> upl_owner u = owner) (uploads s)) TNotFound"

definition require_not_expired :: "instant \<Rightarrow> upload_row \<Rightarrow> transfer_error + unit" where
  "require_not_expired now u = guardE (\<not> upl_expires_at u \<le> now) TGone"

definition require_active :: "instant \<Rightarrow> upload_row \<Rightarrow> transfer_error + unit" where
  "require_active now u =
     (if upl_state u \<noteq> Active then
        (if upl_state u = Expired \<or> upl_state u = UpFailed then Inl TGone else Inl TConflict)
      else require_not_expired now u)"

section \<open>Quota\<close>

text \<open>Sums are cast to \<open>BIGINT\<close>.\<close>

definition bigint :: "int \<Rightarrow> db_error + int" where
  "bigint n = (if - (2 ^ 63) \<le> n \<and> n < 2 ^ 63 then Inr n else Inl OtherDbError)"

definition ready_version :: "db \<Rightarrow> entry \<Rightarrow> version_row option" where
  "ready_version s e =
     (case current_version s (ent_id e) of
        None \<Rightarrow> None
      | Some v \<Rightarrow>
          (case find_row obj_id (ver_object v) (objects s) of
             None \<Rightarrow> None
           | Some b \<Rightarrow> if obj_state b = Ready then Some v else None))"

definition account_used_bytes :: "uuid \<Rightarrow> db \<Rightarrow> int" where
  "account_used_bytes owner s =
     sum_list (map ver_size_bytes (List.map_filter (ready_version s) (filter (\<lambda>e. ent_owner e = owner) (entries s))))"

definition open_upload :: "instant \<Rightarrow> upload_row \<Rightarrow> bool" where
  "open_upload now u \<longleftrightarrow> upl_state u = Finalizing \<or> (upl_state u = Active \<and> now < upl_expires_at u)"

definition open_uploads :: "uuid \<Rightarrow> instant \<Rightarrow> db \<Rightarrow> upload_row list" where
  "open_uploads owner now s = filter (\<lambda>u. upl_owner u = owner \<and> open_upload now u) (uploads s)"

record quota_usage =
  qu_used :: int
  qu_reserved :: int
  qu_pending :: int

text \<open>\<open>importing\<close> is the number of bytes the Drive importer is about to commit for the account.\<close>

definition usage_of :: "uuid \<Rightarrow> instant \<Rightarrow> int \<Rightarrow> db \<Rightarrow> db_error + quota_usage" where
  "usage_of owner now importing s =
     bindE (bigint (account_used_bytes owner s)) (\<lambda>used.
     bindE (bigint (sum_list (map upl_expected_size (open_uploads owner now s)))) (\<lambda>expected.
     bindE (bigint importing) (\<lambda>g.
     bindE (bigint (expected + g)) (\<lambda>reserved.
     bindE (bigint (sum_list (map (\<lambda>u. upl_expected_size u - upl_received_size u) (open_uploads owner now s)))) (\<lambda>pending.
       Inr \<lparr>qu_used = used, qu_reserved = reserved, qu_pending = pending\<rparr>)))))"

definition quota_limit :: "transfer_settings \<Rightarrow> user_row \<Rightarrow> transfer_error + nat" where
  "quota_limit ts account =
     (if usr_role account = Member then
        bindE (okOr (usr_quota_bytes account) TInconsistent) (\<lambda>q. if 0 \<le> q then Inr (nat q) else Inl TInconsistent)
      else Inr (owner_quota_bytes ts))"

definition checked_add_u64 :: "nat \<Rightarrow> nat \<Rightarrow> nat option" where
  "checked_add_u64 a b = (if a + b < 2 ^ 64 then Some (a + b) else None)"

definition required_reservation :: "quota_usage \<Rightarrow> nat \<Rightarrow> nat option" where
  "required_reservation q expected_size =
     (case checked_add_u64 (nat (qu_used q)) (nat (qu_reserved q)) of
        None \<Rightarrow> None
      | Some n \<Rightarrow> checked_add_u64 n expected_size)"

section \<open>Creating an upload\<close>

record create_request =
  cq_filename :: ustr
  cq_expected_size :: nat
  cq_parent :: "uuid option"
  cq_file :: "uuid option"
  cq_modified_at :: "instant option"

record create_env =
  ce_now :: instant
  ce_reading :: reading
  ce_id :: uuid
  ce_staging_key :: uuid
  ce_importing :: int

definition load_replace_target :: "uuid \<Rightarrow> uuid \<Rightarrow> db \<Rightarrow> transfer_error + uuid option \<times> ustr" where
  "load_replace_target owner f s =
     (case find (\<lambda>e. ent_id e = f \<and> ent_owner e = owner \<and> ent_kind e = File \<and> ent_deleted_at e = None) (entries s) of
        None \<Rightarrow> Inl TNotFound
      | Some e \<Rightarrow> if f \<in> fil_id ` set (files s) then Inr (ent_parent e, ent_name e) else Inl TNotFound)"

text \<open>The parent and the name of the new file: those of the file to replace, if there is one.\<close>

definition upload_target :: "uuid \<Rightarrow> create_request \<Rightarrow> ustr \<Rightarrow> db \<Rightarrow> transfer_error + uuid option \<times> ustr" where
  "upload_target owner r filename s =
     (case cq_file r of
        None \<Rightarrow> Inr (cq_parent r, filename)
      | Some f \<Rightarrow>
          bindE (load_replace_target owner f s) (\<lambda>(parent, name).
          bindE (guardE (\<not> (cq_parent r \<noteq> None \<and> cq_parent r \<noteq> parent)) TBadRequest) (\<lambda>_.
          bindE (guardE (eq_ignore_ascii_case filename name) TBadRequest) (\<lambda>_.
            Inr (parent, name)))))"

definition upload_expiry :: "nat \<Rightarrow> instant \<Rightarrow> transfer_error + instant" where
  "upload_expiry ttl now =
     (if 2 ^ 63 \<le> ttl then Inl TBadRequest
      else if (2 ^ 63 - 1) div 1000 < ttl then Inl TPanicked
      else if chrono_max < now + seconds (int ttl) then Inl TBadRequest
      else Inr (now + seconds (int ttl)))"

definition active_account :: "uuid \<Rightarrow> db \<Rightarrow> transfer_error + user_row" where
  "active_account i s =
     bindE (okOr (find_row usr_id i (users s)) TAuthenticationRequired) (\<lambda>u.
     bindE (guardE (usr_disabled_at u = None) TAuthenticationRequired) (\<lambda>_. Inr u))"

definition check_quota :: "transfer_settings \<Rightarrow> user_row \<Rightarrow> quota_usage \<Rightarrow> nat \<Rightarrow> transfer_error + unit" where
  "check_quota ts account q expected_size =
     bindE (quota_limit ts account) (\<lambda>limit.
     bindE (okOr (required_reservation q expected_size) TQuotaExceeded) (\<lambda>n.
       guardE (\<not> n > limit) TQuotaExceeded))"

text \<open>Everything a creation checks before it touches the volume.\<close>

definition admit_upload :: "externals \<Rightarrow> auth_settings \<Rightarrow> local_storage \<Rightarrow> transfer_settings \<Rightarrow> create_env \<Rightarrow> auth_user
    \<Rightarrow> headers \<Rightarrow> create_request \<Rightarrow> store \<Rightarrow> transfer_error + uuid option \<times> ustr \<times> instant" where
  "admit_upload x st ls ts env user hs r s =
     bindE (tdrive (require_request_csrf x hs user st)) (\<lambda>_.
     bindE (tdrive (normalize_name (cq_filename r))) (\<lambda>filename.
     bindE (guardE (\<not> cq_expected_size r > max_file_size ts) TPayloadTooLarge) (\<lambda>_.
     bindE (guardE (cq_expected_size r < 2 ^ 63) TPayloadTooLarge) (\<lambda>_.
     bindE (upload_target (au_id user) r filename (st_db s)) (\<lambda>(parent, name).
     bindE (case parent of None \<Rightarrow> Inr () | Some p \<Rightarrow> tdrive (ensure_active_entry (au_id user) p True (st_db s))) (\<lambda>_.
     bindE (upload_expiry (upload_session_ttl_seconds ts) (ce_now env)) (\<lambda>expires_at.
     bindE (active_account (au_id user) (st_db s)) (\<lambda>account.
     bindE (tsql (usage_of (au_id user) (ce_now env) (ce_importing env) (st_db s))) (\<lambda>usage.
     bindE (check_quota ts account usage (cq_expected_size r)) (\<lambda>_.
     bindE (okOr (checked_add_u64 (nat (qu_pending usage)) (cq_expected_size r)) TPayloadTooLarge) (\<lambda>wanted.
     bindE (tstore (check_write_capacity ls (vol_mounted (st_vol s)) (ce_reading env) wanted)) (\<lambda>_.
       Inr (parent, name, expires_at)))))))))))))"

definition create_upload :: "externals \<Rightarrow> auth_settings \<Rightarrow> local_storage \<Rightarrow> transfer_settings \<Rightarrow> create_env \<Rightarrow> auth_user
    \<Rightarrow> headers \<Rightarrow> create_request \<Rightarrow> store \<Rightarrow> uuid transfer_outcome" where
  "create_upload x st ls ts env user hs r s =
     (case admit_upload x st ls ts env user hs r s of
        Inl e \<Rightarrow> (s, Inl e)
      | Inr (parent, name, expires_at) \<Rightarrow>
          (case create_staging_file (ce_staging_key env) (st_vol s) of
             Inl e \<Rightarrow> (s, Inl (TStorage e))
           | Inr v \<Rightarrow>
               (case insert_upload
                       \<lparr>upl_id = ce_id env, upl_owner = au_id user, upl_target_parent = parent, upl_filename = name,
                        upl_expected_size = int (cq_expected_size r), upl_received_size = 0,
                        upl_staging_key = ce_staging_key env, upl_state = Active, upl_expires_at = expires_at,
                        upl_updated_at = ce_now env, upl_object = None, upl_final_file = None,
                        upl_staging_cleaned_at = None, upl_replace_file = cq_file r,
                        upl_original_modified_at = cq_modified_at r\<rparr> (st_db s) of
                  Inl e \<Rightarrow>
                    (case remove_staging_file (ce_staging_key env) v of
                       Inl _ \<Rightarrow> (s\<lparr>st_vol := v\<rparr>, Inl (map_transfer_error e))
                     | Inr v' \<Rightarrow> (s\<lparr>st_vol := v'\<rparr>, Inl (map_transfer_error e)))
                | Inr d \<Rightarrow> (s\<lparr>st_db := d, st_vol := v\<rparr>, Inr (ce_id env)))))"

definition photo_extensions :: "string list" where
  "photo_extensions = [''jpg'', ''jpeg'', ''png'', ''gif'', ''webp'', ''avif'', ''bmp'', ''tif'', ''tiff'', ''heic'',
     ''heif'', ''mp4'', ''mov'', ''webm'', ''mkv'', ''avi'', ''m4v'', ''mpeg'', ''mpg'', ''3gp'', ''mts'', ''m2ts'']"

definition create_photo_upload :: "externals \<Rightarrow> auth_settings \<Rightarrow> local_storage \<Rightarrow> transfer_settings \<Rightarrow> create_env
    \<Rightarrow> uuid list \<Rightarrow> auth_user \<Rightarrow> headers \<Rightarrow> create_request \<Rightarrow> store \<Rightarrow> uuid transfer_outcome" where
  "create_photo_upload x st ls ts env tries user hs r s =
     (case bindE (tdrive (require_request_csrf x hs user st)) (\<lambda>_.
           bindE (guardE (cq_parent r = None) TBadRequest) (\<lambda>_.
             guardE (to_ascii_lowercase (last (split_on 46 (cq_filename r))) \<in> set (map lit photo_extensions))
               TBadRequest)) of
        Inl e \<Rightarrow> (s, Inl e)
      | Inr _ \<Rightarrow>
          (case ensure_photos_folder (sql_lower x) (au_id user) (ce_now env) tries (st_db s) of
             (d, Inl e) \<Rightarrow> (s\<lparr>st_db := d\<rparr>, Inl (TDrive e))
           | (d, Inr f) \<Rightarrow> create_upload x st ls ts env user hs (r\<lparr>cq_parent := Some f\<rparr>) (s\<lparr>st_db := d\<rparr>)))"

definition head_upload :: "instant \<Rightarrow> auth_user \<Rightarrow> uuid \<Rightarrow> store \<Rightarrow> transfer_error + int \<times> int" where
  "head_upload now user i s =
     bindE (fetch_upload (au_id user) i (st_db s)) (\<lambda>u.
     bindE (guardE (\<not> (upl_state u = Expired \<or> upl_state u = UpFailed)) TGone) (\<lambda>_.
     bindE (guardE (\<not> (upl_state u = Active \<and> upl_expires_at u \<le> now)) TGone) (\<lambda>_.
       Inr (upl_received_size u, upl_expected_size u))))"

section \<open>Appending\<close>

definition MAX_PATCH_BYTES :: nat where "MAX_PATCH_BYTES = 67108864"

datatype frame = Data bytes | Trailers | Broken

text \<open>
  What can go wrong while a chunk is appended: opening, measuring or truncating the staging
  file, which leaves it as it was; seeking, when it is already truncated; the \<open>n\<close>-th write, after some of its bytes; the final sync; the truncation
  after an error, whose result is ignored; the database update.
\<close>

record patch_env =
  pe_now :: instant
  pe_reading :: "nat \<Rightarrow> reading"
  pe_open :: "io_kind option"
  pe_seek :: "io_kind option"
  pe_write :: "nat \<Rightarrow> (io_kind \<times> nat) option"
  pe_sync :: "io_kind option"
  pe_truncated :: bool
  pe_update :: "db_error option"

fun write_patch_body :: "local_storage \<Rightarrow> patch_env \<Rightarrow> storage_error + unit \<Rightarrow> nat \<Rightarrow> nat \<Rightarrow> nat \<Rightarrow> bytes \<Rightarrow> frame list
    \<Rightarrow> bytes \<times> (transfer_error + nat)" where
  "write_patch_body ls env mounted n max_bytes written file [] = (file, Inr written)"
| "write_patch_body ls env mounted n max_bytes written file (Broken # body) = (file, Inl TBadRequest)"
| "write_patch_body ls env mounted n max_bytes written file (Trailers # body) =
     write_patch_body ls env mounted n max_bytes written file body"
| "write_patch_body ls env mounted n max_bytes written file (Data d # body) =
     (if d = [] then write_patch_body ls env mounted n max_bytes written file body
      else if 2 ^ 64 \<le> written + length d \<or> max_bytes < written + length d then (file, Inl TPayloadTooLarge)
      else case check_write_capacity ls mounted (pe_reading env n) (length d) of
        Inl e \<Rightarrow> (file, Inl (TStorage e))
      | Inr _ \<Rightarrow>
          (case pe_write env n of
             Some (e, k) \<Rightarrow> (file @ take k d, Inl (TStorage (StorageIo e)))
           | None \<Rightarrow> write_patch_body ls env mounted (Suc n) max_bytes (written + length d) (file @ d) body))"

definition header_u64 :: "headers \<Rightarrow> string \<Rightarrow> nat option" where
  "header_u64 hs name = (case header_str hs name of None \<Rightarrow> None | Some v \<Rightarrow> parse_u64 v)"

definition patch_headers :: "headers \<Rightarrow> transfer_error + nat" where
  "patch_headers hs =
     bindE (guardE (header_str hs ''content-type'' = Some ''application/offset+octet-stream'') TBadRequest) (\<lambda>_.
     bindE (okOr (header_u64 hs ''upload-offset'') TBadRequest) (\<lambda>offset.
     bindE (if map_of hs ''content-length'' = None then Inr ()
            else bindE (okOr (header_u64 hs ''content-length'') TBadRequest) (\<lambda>length.
                   guardE (\<not> (length = 0 \<or> length > MAX_PATCH_BYTES)) TPayloadTooLarge)) (\<lambda>_.
       Inr offset)))"

text \<open>The session, its offset and the number of bytes the request may still write.\<close>

definition patch_session :: "patch_env \<Rightarrow> uuid \<Rightarrow> uuid \<Rightarrow> nat \<Rightarrow> db \<Rightarrow> transfer_error + upload_row \<times> nat \<times> nat" where
  "patch_session env owner i offset s =
     bindE (fetch_upload owner i s) (\<lambda>u.
     bindE (require_active (pe_now env) u) (\<lambda>_.
     bindE (guardE (0 \<le> upl_received_size u) TInconsistent) (\<lambda>_.
     let current = nat (upl_received_size u) in
     bindE (guardE (current = offset) (TOffsetConflict current)) (\<lambda>_.
     bindE (guardE (0 \<le> upl_expected_size u) TInconsistent) (\<lambda>_.
     let expected = nat (upl_expected_size u) in
     bindE (guardE (\<not> current \<ge> expected) TConflict) (\<lambda>_.
       Inr (u, current, min (expected - current) MAX_PATCH_BYTES)))))))"

definition commit_patch :: "patch_env \<Rightarrow> uuid \<Rightarrow> uuid \<Rightarrow> nat \<Rightarrow> db \<Rightarrow> transfer_error + db" where
  "commit_patch env owner i new_offset s =
     bindE (guardE (new_offset < 2 ^ 63) TPayloadTooLarge) (\<lambda>_.
     bindE (case pe_update env of None \<Rightarrow> Inr () | Some e \<Rightarrow> Inl (map_transfer_error e)) (\<lambda>_.
       tsql (update_upload i (\<lambda>u. upl_owner u = owner \<and> upl_state u = Active)
         (\<lambda>u. u\<lparr>upl_received_size := int new_offset, upl_updated_at := pe_now env\<rparr>) s)))"

text \<open>The file after an error: cut back to the offset unless the truncation fails too.\<close>

definition after_error :: "patch_env \<Rightarrow> nat \<Rightarrow> bytes \<Rightarrow> bytes" where
  "after_error env offset file = (if pe_truncated env then take offset file else file)"

definition patch_upload :: "externals \<Rightarrow> auth_settings \<Rightarrow> local_storage \<Rightarrow> patch_env \<Rightarrow> auth_user \<Rightarrow> headers \<Rightarrow> uuid
    \<Rightarrow> frame list \<Rightarrow> store \<Rightarrow> nat transfer_outcome" where
  "patch_upload x st ls env user hs i body s =
     (case bindE (tdrive (require_request_csrf x hs user st)) (\<lambda>_.
           bindE (patch_headers hs) (\<lambda>offset. patch_session env (au_id user) i offset (st_db s))) of
        Inl e \<Rightarrow> (s, Inl e)
      | Inr (u, offset, max_bytes) \<Rightarrow>
          let k = upl_staging_key u; v = st_vol s;
              left = (\<lambda>file. s\<lparr>st_vol := v\<lparr>vol_staging := (vol_staging v)(k \<mapsto> file)\<rparr>\<rparr>) in
          case vol_staging v k of
            None \<Rightarrow> (s, Inl (TStorage (StorageIo IoNotFound)))
          | Some file \<Rightarrow>
              (case pe_open env of
                 Some e \<Rightarrow> (s, Inl (TStorage (StorageIo e)))
               | None \<Rightarrow>
                   if length file < offset then (s, Inl TInconsistent)
                   else case pe_seek env of
                     Some e \<Rightarrow> (left (take offset file), Inl (TStorage (StorageIo e)))
                   | None \<Rightarrow>
                     (case write_patch_body ls env (vol_mounted v) 0 max_bytes 0 (take offset file) body of
                        (file', Inl e) \<Rightarrow> (left (after_error env offset file'), Inl e)
                      | (file', Inr appended) \<Rightarrow>
                          if appended = 0 then (left (after_error env offset file'), Inl TBadRequest)
                          else case pe_sync env of
                            Some e \<Rightarrow> (left (after_error env offset file'), Inl (TStorage (StorageIo e)))
                          | None \<Rightarrow>
                              (case commit_patch env (au_id user) i (offset + appended) (st_db s) of
                                 Inl e \<Rightarrow> (left file', Inl e)
                               | Inr d \<Rightarrow> ((left file')\<lparr>st_db := d\<rparr>, Inr (offset + appended))))))"

section \<open>Finalizing\<close>

record finalize_env =
  fe_now :: instant
  fe_object_id :: uuid
  fe_file_id :: uuid
  fe_version_id :: uuid

record upload_finalized =
  uf_file :: uuid
  uf_version :: "uuid option"
  uf_checksum :: "string option"

definition completed_upload :: "uuid \<Rightarrow> uuid option \<Rightarrow> string option \<Rightarrow> upload_finalized" where
  "completed_upload file_id version_id checksum = \<lparr>uf_file = file_id, uf_version = version_id, uf_checksum = checksum\<rparr>"

definition declared_checksum :: "headers \<Rightarrow> transfer_error + string option" where
  "declared_checksum hs =
     (if map_of hs ''x-content-sha256'' = None then Inr None
      else case header_str hs ''x-content-sha256'' of
        None \<Rightarrow> Inl TBadRequest
      | Some text \<Rightarrow>
          let value = map char_lower (trim_by char_whitespace text) in
          if length value = 64 \<and> list_all lower_hex_digit value then Inr (Some value) else Inl TBadRequest)"

definition confirm_replace_locked :: "uuid \<Rightarrow> uuid \<Rightarrow> upload_row \<Rightarrow> db \<Rightarrow> transfer_error + unit" where
  "confirm_replace_locked owner f u s =
     (case find (\<lambda>e. ent_id e = f \<and> ent_owner e = owner \<and> ent_kind e = File \<and> ent_deleted_at e = None) (entries s) of
        None \<Rightarrow> Inl TNotFound
      | Some e \<Rightarrow> guardE (\<not> (ent_parent e \<noteq> upl_target_parent u \<or> ent_name e \<noteq> upl_filename u)) TConflict)"

definition add_version :: "uuid \<Rightarrow> uuid \<Rightarrow> uuid \<Rightarrow> upload_row \<Rightarrow> instant \<Rightarrow> db \<Rightarrow> transfer_error + db" where
  "add_version v f b u now s =
     bindE (tsql (insert_version \<lparr>ver_id = v, ver_file = f, ver_object = b, ver_size_bytes = upl_expected_size u,
        ver_original_modified_at = upl_original_modified_at u, ver_created_at = now\<rparr> s)) (\<lambda>s1.
       tsql (set_current_version (Some v) f s1))"

text \<open>The rows of the new content: a version of the file to replace, or a new file.\<close>

definition add_content :: "(ustr \<Rightarrow> ustr) \<Rightarrow> finalize_env \<Rightarrow> uuid \<Rightarrow> upload_row \<Rightarrow> db \<Rightarrow> transfer_error + db \<times> uuid" where
  "add_content lower env owner u s =
     (case upl_replace_file u of
        Some f \<Rightarrow>
          bindE (confirm_replace_locked owner f u s) (\<lambda>_.
          bindE (add_version (fe_version_id env) f (fe_object_id env) u (fe_now env) s) (\<lambda>s1.
          bindE (tsql (update_entry lower False (\<lambda>e. ent_owner e = owner) (\<lambda>e. e\<lparr>ent_updated_at := fe_now env\<rparr>) f s1))
            (\<lambda>(s2, n). Inr (s2, f))))
      | None \<Rightarrow>
          bindE (tsql (insert_entry lower
              (new_entry (fe_file_id env) owner (upl_target_parent u) File (upl_filename u) None (fe_now env)) s)) (\<lambda>s1.
          bindE (tsql (insert_file (fe_file_id env) s1)) (\<lambda>s2.
          bindE (add_version (fe_version_id env) (fe_file_id env) (fe_object_id env) u (fe_now env) s2) (\<lambda>s3.
            Inr (s3, fe_file_id env)))))"

definition target_active :: "uuid \<Rightarrow> upload_row \<Rightarrow> db \<Rightarrow> transfer_error + unit" where
  "target_active owner u s =
     (case upl_target_parent u of None \<Rightarrow> Inr () | Some p \<Rightarrow> tdrive (ensure_active_entry owner p True s))"

text \<open>The transaction that turns an active upload into a finalizing one.\<close>

definition reserve_content :: "externals \<Rightarrow> uuid_crate \<Rightarrow> finalize_env \<Rightarrow> uuid \<Rightarrow> upload_row \<Rightarrow> db \<Rightarrow> transfer_error + db" where
  "reserve_content x c env owner u s =
     bindE (require_not_expired (fe_now env) u) (\<lambda>_.
     bindE (guardE (upl_received_size u = upl_expected_size u) TConflict) (\<lambda>_.
     bindE (target_active owner u s) (\<lambda>_.
     bindE (tsql (insert_object \<lparr>obj_id = fe_object_id env, obj_storage_key = storage_key c (fe_object_id env),
        obj_size_bytes = upl_expected_size u, obj_checksum = None, obj_mime = None, obj_state = Pending,
        obj_created_at = fe_now env, obj_last_checked_at = None\<rparr> s)) (\<lambda>s1.
     bindE (add_content (sql_lower x) env owner u s1) (\<lambda>(s2, f).
       tsql (update_upload (upl_id u) (\<lambda>r. upl_owner r = owner \<and> upl_state r = Active)
         (\<lambda>r. r\<lparr>upl_state := Finalizing, upl_object := Some (fe_object_id env), upl_final_file := Some f,
                upl_updated_at := fe_now env\<rparr>) s2))))))"

text \<open>The session as it was fetched, or the file of an upload that is already completed.\<close>

definition begin_finalize :: "externals \<Rightarrow> uuid_crate \<Rightarrow> finalize_env \<Rightarrow> uuid \<Rightarrow> uuid \<Rightarrow> db
    \<Rightarrow> transfer_error + db \<times> (uuid + upload_row)" where
  "begin_finalize x c env owner i s =
     bindE (fetch_upload owner i s) (\<lambda>u.
       case upl_state u of
         Completed \<Rightarrow> bindE (okOr (upl_final_file u) TInconsistent) (\<lambda>f. Inr (s, Inl f))
       | UpFailed \<Rightarrow> Inl TGone
       | Expired \<Rightarrow> Inl TGone
       | Active \<Rightarrow> bindE (reserve_content x c env owner u s) (\<lambda>s1. Inr (s1, Inr u))
       | Finalizing \<Rightarrow> Inr (s, Inr u))"

definition finalize_ids :: "uuid \<Rightarrow> upload_row \<Rightarrow> db \<Rightarrow> transfer_error + uuid \<times> uuid" where
  "finalize_ids owner u s =
     (case (upl_final_file u, upl_object u) of
        (Some f, Some b) \<Rightarrow> Inr (f, b)
      | (None, None) \<Rightarrow>
          if upl_state u = Active then
            (case find (\<lambda>r. upl_id r = upl_id u \<and> upl_owner r = owner) (uploads s) of
               None \<Rightarrow> Inl TDatabase
             | Some r \<Rightarrow> (case (upl_final_file r, upl_object r) of (Some f, Some b) \<Rightarrow> Inr (f, b) | _ \<Rightarrow> Inl TDatabase))
          else Inl TInconsistent
      | _ \<Rightarrow> Inl TInconsistent)"

definition hash_file :: "externals \<Rightarrow> bytes \<Rightarrow> storage_error + nat \<times> string" where
  "hash_file x d = (if length d < 2 ^ 64 then Inr (length d, hex_digest (sha256 x d)) else Inl (StorageIo IoOther))"

definition read_path :: "string list \<Rightarrow> volume \<Rightarrow> storage_error + bytes" where
  "read_path p v =
     (case vol_objects v p of
        Some (Regular d) \<Rightarrow> Inr d
      | Some Obstacle \<Rightarrow> Inl (StorageIo IoOther)
      | None \<Rightarrow> Inl (StorageIo IoNotFound))"

text \<open>The object row, the promoted object's checksum and its detected media type.\<close>

definition publish_object :: "externals \<Rightarrow> uuid_crate \<Rightarrow> uuid \<Rightarrow> upload_row \<Rightarrow> uuid \<Rightarrow> store
    \<Rightarrow> (object_row \<times> string \<times> string option) transfer_outcome" where
  "publish_object x c owner u b s =
     (case bindE (target_active owner u (st_db s)) (\<lambda>_.
           bindE (okOr (find_row obj_id b (objects (st_db s))) TInconsistent) (\<lambda>row.
           bindE (tstore (promote_staging_file c (upl_staging_key u) (obj_storage_key row) (st_vol s))) (\<lambda>(v, path).
             Inr (row, v, path)))) of
        Inl e \<Rightarrow> (s, Inl e)
      | Inr (row, v, path) \<Rightarrow>
          (s\<lparr>st_vol := v\<rparr>,
           bindE (tstore (read_path path v)) (\<lambda>d.
           bindE (tstore (hash_file x d)) (\<lambda>(actual_size, checksum).
           bindE (guardE (0 \<le> obj_size_bytes row \<and> actual_size = nat (obj_size_bytes row)) TInconsistent) (\<lambda>_.
             Inr (row, checksum, sniff_media_type (take 512 d)))))))"

definition latest_version :: "version_row list \<Rightarrow> uuid option" where
  "latest_version vs =
     (case filter (\<lambda>v. list_all (\<lambda>w. ver_created_at w \<le> ver_created_at v) vs) vs of
        [] \<Rightarrow> None
      | v # _ \<Rightarrow> Some (ver_id v))"

definition fails_with :: "upload_row \<Rightarrow> instant \<Rightarrow> upload_row" where
  "fails_with u now = u\<lparr>upl_state := UpFailed, upl_object := None, upl_final_file := None, upl_updated_at := now\<rparr>"

text \<open>The rows of a rejected upload are withdrawn; a replaced file falls back to its latest other version.\<close>

definition withdraw_content :: "uuid \<Rightarrow> upload_row \<Rightarrow> uuid \<Rightarrow> db \<Rightarrow> transfer_error + db" where
  "withdraw_content owner u f s =
     (let new_version = (case find_row fil_id f (files s) of None \<Rightarrow> None | Some r \<Rightarrow> fil_current_version r) in
      if upl_replace_file u \<noteq> None then
        bindE (tsql (set_current_version
            (latest_version (filter (\<lambda>v. ver_file v = f \<and> Some (ver_id v) \<noteq> new_version) (versions s))) f s)) (\<lambda>s1.
          case new_version of
            None \<Rightarrow> Inr s1
          | Some w \<Rightarrow> Inr (delete_versions (\<lambda>v. ver_id v = w \<and> ver_file v = f) s1))
      else if new_version \<noteq> None then
        bindE (tsql (set_current_version None f s)) (\<lambda>s1.
        bindE (tsql (delete_file f (delete_versions (\<lambda>v. ver_file v = f) s1))) (\<lambda>s2.
          if (\<exists>e \<in> set (entries s2). ent_id e = f \<and> ent_kind e = File) then tsql (delete_entry f owner s2) else Inr s2))
      else Inr s)"

definition reject_mismatched_upload :: "uuid_crate \<Rightarrow> instant \<Rightarrow> uuid \<Rightarrow> uuid \<Rightarrow> uuid \<Rightarrow> uuid \<Rightarrow> string \<Rightarrow> store
    \<Rightarrow> unit transfer_outcome" where
  "reject_mismatched_upload c now owner i f b key s =
     (case bindE (fetch_upload owner i (st_db s)) (\<lambda>u.
           if upl_state u = UpFailed then Inr None
           else
             bindE (guardE (\<not> (upl_state u \<noteq> Finalizing \<or> upl_final_file u \<noteq> Some f \<or> upl_object u \<noteq> Some b)) TConflict) (\<lambda>_.
             bindE (tsql (update_upload i (\<lambda>r. upl_owner r = owner \<and> upl_state r = Finalizing) (\<lambda>r. fails_with r now) (st_db s))) (\<lambda>s1.
             bindE (withdraw_content owner u f s1) (\<lambda>s2.
             bindE (tsql (delete_object b s2)) (\<lambda>s3. Inr (Some s3)))))) of
        Inl e \<Rightarrow> (s, Inl e)
      | Inr None \<Rightarrow> (s, Inr ())
      | Inr (Some d) \<Rightarrow>
          (case remove_object c key (st_vol s) of
             Inl _ \<Rightarrow> (s\<lparr>st_db := d\<rparr>, Inr ())
           | Inr v \<Rightarrow> (s\<lparr>st_db := d, st_vol := v\<rparr>, Inr ())))"

text \<open>The last transaction; \<open>None\<close> when another request has completed the upload meanwhile.\<close>

definition commit_finalize :: "instant \<Rightarrow> uuid \<Rightarrow> uuid \<Rightarrow> uuid \<Rightarrow> uuid \<Rightarrow> string \<Rightarrow> string option \<Rightarrow> db
    \<Rightarrow> transfer_error + db \<times> upload_finalized" where
  "commit_finalize now owner i f b checksum mime s =
     bindE (fetch_upload owner i s) (\<lambda>u.
       if upl_state u = Completed then
         bindE (okOr (upl_final_file u) TInconsistent) (\<lambda>g. Inr (s, completed_upload g None None))
       else
         bindE (guardE (\<not> (upl_state u \<noteq> Finalizing \<or> upl_final_file u \<noteq> Some f \<or> upl_object u \<noteq> Some b)) TConflict) (\<lambda>_.
         let s1 = s\<lparr>objects := update_where (\<lambda>r. obj_id r = b \<and> (obj_state r = Pending \<or> obj_state r = Ready))
                     (\<lambda>r. r\<lparr>obj_checksum := Some checksum, obj_mime := mime, obj_state := Ready\<rparr>) (objects s)\<rparr> in
         bindE (tsql (update_upload i (\<lambda>r. upl_owner r = owner \<and> upl_state r = Finalizing)
             (\<lambda>r. r\<lparr>upl_state := Completed, upl_updated_at := now\<rparr>) s1)) (\<lambda>s2.
         bindE (if media_index_task mime \<noteq> None \<or> is_face_indexable_media mime then
                  bindE (okOr (find_row fil_id f (files s2)) TDatabase) (\<lambda>r.
                  bindE (okOr (fil_current_version r) TInconsistent) (\<lambda>w.
                    Inr (enqueue_media_index_jobs w mime s2)))
                else Inr s2) (\<lambda>s3.
         let s4 = add_audit ''upload_completed'' (Some owner) (Some f) s3 in
           Inr (s4, completed_upload f
             (case find_row fil_id f (files s4) of None \<Rightarrow> None | Some r \<Rightarrow> fil_current_version r) (Some checksum))))))"

text \<open>Everything after the first transaction: a request for a finalizing upload starts here.\<close>

definition complete_finalize :: "externals \<Rightarrow> uuid_crate \<Rightarrow> finalize_env \<Rightarrow> uuid \<Rightarrow> headers \<Rightarrow> upload_row \<Rightarrow> store
    \<Rightarrow> upload_finalized transfer_outcome" where
  "complete_finalize x c env owner hs u s =
     (case finalize_ids owner u (st_db s) of
        Inl e \<Rightarrow> (s, Inl e)
      | Inr (f, b) \<Rightarrow>
          (case publish_object x c owner u b s of
             (s1, Inl e) \<Rightarrow> (s1, Inl e)
           | (s1, Inr (row, checksum, mime)) \<Rightarrow>
               (case declared_checksum hs of
                  Inl e \<Rightarrow> (s1, Inl e)
                | Inr declared \<Rightarrow>
                    if declared \<noteq> None \<and> declared \<noteq> Some checksum then
                      (case reject_mismatched_upload c (fe_now env) owner (upl_id u) f b (obj_storage_key row) s1 of
                         (s2, Inl e) \<Rightarrow> (s2, Inl e)
                       | (s2, Inr _) \<Rightarrow> (s2, Inl TChecksumMismatch))
                    else
                      (case commit_finalize (fe_now env) owner (upl_id u) f b checksum mime (st_db s1) of
                         Inl e \<Rightarrow> (s1, Inl e)
                       | Inr (d, r) \<Rightarrow> (s1\<lparr>st_db := d\<rparr>, Inr r)))))"

definition finalize_upload :: "externals \<Rightarrow> auth_settings \<Rightarrow> uuid_crate \<Rightarrow> finalize_env \<Rightarrow> auth_user \<Rightarrow> headers \<Rightarrow> uuid \<Rightarrow> store
    \<Rightarrow> upload_finalized transfer_outcome" where
  "finalize_upload x st c env user hs i s =
     (case bindE (tdrive (require_request_csrf x hs user st)) (\<lambda>_. begin_finalize x c env (au_id user) i (st_db s)) of
        Inl e \<Rightarrow> (s, Inl e)
      | Inr (d, Inl f) \<Rightarrow> (s, Inr (completed_upload f None None))
      | Inr (d, Inr u) \<Rightarrow> complete_finalize x c env (au_id user) hs u (s\<lparr>st_db := d\<rparr>))"

section \<open>Cancelling\<close>

definition cancel_upload :: "externals \<Rightarrow> auth_settings \<Rightarrow> instant \<Rightarrow> auth_user \<Rightarrow> headers \<Rightarrow> uuid \<Rightarrow> store
    \<Rightarrow> unit transfer_outcome" where
  "cancel_upload x st now user hs i s =
     (case bindE (tdrive (require_request_csrf x hs user st)) (\<lambda>_.
           bindE (fetch_upload (au_id user) i (st_db s)) (\<lambda>u.
           bindE (guardE (\<not> (upl_state u = Completed \<or> upl_state u = Finalizing)) TConflict) (\<lambda>_.
           bindE (if upl_state u = Active \<or> upl_state u = Expired then
                    tsql (update_upload i (\<lambda>r. upl_owner r = au_id user \<and> (upl_state r = Active \<or> upl_state r = Expired))
                      (\<lambda>r. r\<lparr>upl_state := Expired, upl_updated_at := now\<rparr>) (st_db s))
                  else Inr (st_db s)) (\<lambda>d. Inr (u, d))))) of
        Inl e \<Rightarrow> (s, Inl e)
      | Inr (u, d) \<Rightarrow>
          (case remove_staging_file (upl_staging_key u) (st_vol s) of
             Inl e \<Rightarrow> (s\<lparr>st_db := d\<rparr>, Inl (TStorage e))
           | Inr v \<Rightarrow>
               (s\<lparr>st_vol := v, st_db := d\<lparr>uploads := update_where
                    (\<lambda>r. upl_id r = i \<and> upl_state r = Expired \<and> upl_staging_cleaned_at r = None)
                    (\<lambda>r. r\<lparr>upl_staging_cleaned_at := Some now\<rparr>) (uploads d)\<rparr>\<rparr>, Inr ())))"

end
