(* ===== verification/Uploads_Correct.thy ===== *)
theory Uploads_Correct
  imports Uploads
begin

text \<open>
  Correctness of uploads. A staging file acknowledges exactly the bytes of the accepted
  chunks, whatever fails in between; finalizing publishes these bytes with their digest as the
  current version of a file, and can be resumed after a crash; an upload is admitted within
  the account's quota; and every operation keeps the store consistent.
\<close>

section \<open>Rows of uploads\<close>

lemma update_upload_Inr:
  assumes "update_upload i p f s = Inr s'"
  shows "s' = s\<lparr>uploads := update_where (\<lambda>u. upl_id u = i \<and> p u) f (uploads s)\<rparr>"
    and "\<And>u. u \<in> set (uploads s) \<Longrightarrow> upl_id u = i \<Longrightarrow> p u \<Longrightarrow> upload_row_check (f u)"
  using assms by (auto simp: update_upload_def result_simps)

lemma fetch_upload_Inr:
  "fetch_upload owner i s = Inr u \<Longrightarrow> u \<in> set (uploads s) \<and> upl_id u = i \<and> upl_owner u = owner"
  by (auto simp: fetch_upload_def result_simps find_Some_iff)

lemma fetch_upload_iff:
  assumes "distinct (map upl_id (uploads s))"
  shows "fetch_upload owner i s = Inr u \<longleftrightarrow> u \<in> set (uploads s) \<and> upl_id u = i \<and> upl_owner u = owner"
proof
  assume u: "u \<in> set (uploads s) \<and> upl_id u = i \<and> upl_owner u = owner"
  then have "find (\<lambda>r. upl_id r = i \<and> upl_owner r = owner) (uploads s) \<noteq> None" by (auto simp: find_None_iff)
  then obtain r where "find (\<lambda>r. upl_id r = i \<and> upl_owner r = owner) (uploads s) = Some r" by auto
  moreover from this have "r = u"
    using u distinct_key_unique [OF assms, of r u] by (auto simp: find_Some_iff)
  ultimately show "fetch_upload owner i s = Inr u" by (simp add: fetch_upload_def)
qed (rule fetch_upload_Inr)

section \<open>Appending\<close>

primrec frame_data :: "frame \<Rightarrow> bytes" where
  "frame_data (Data d) = d"
| "frame_data Trailers = []"
| "frame_data Broken = []"

definition body_data :: "frame list \<Rightarrow> bytes" where
  "body_data body = concat (map frame_data body)"

lemma write_patch_body_Inr:
  "write_patch_body ls env m n mx w data body = (data', Inr k) \<Longrightarrow> w \<le> mx \<Longrightarrow>
   data' = data @ body_data body \<and> k = w + length (body_data body) \<and> k \<le> mx"
  by (induction ls env m n mx w data body rule: write_patch_body.induct)
    (auto simp: body_data_def split: if_splits sum.splits option.splits prod.splits)

lemma write_patch_body_prefix:
  "write_patch_body ls env m n mx w data body = (data', r) \<Longrightarrow> \<exists>t. data' = data @ t"
  by (induction ls env m n mx w data body rule: write_patch_body.induct)
    (auto split: if_splits sum.splits option.splits prod.splits)

lemma patch_session_Inr:
  assumes "patch_session env owner i offset s = Inr (u, n, mx)"
  shows "u \<in> set (uploads s)" and "upl_id u = i" and "upl_owner u = owner" and "upl_state u = Active"
    and "n = nat (upl_received_size u)" and "0 \<le> upl_received_size u" and "upl_received_size u < upl_expected_size u"
    and "int mx \<le> upl_expected_size u - upl_received_size u"
  using assms fetch_upload_Inr [of owner i s]
  by (auto simp: patch_session_def Let_def result_simps require_active_def MAX_PATCH_BYTES_def nat_le_eq_zle min_def of_nat_diff
      split: if_splits)

definition restage :: "upload_row \<Rightarrow> bytes \<Rightarrow> store \<Rightarrow> store" where
  "restage u d s = s\<lparr>st_vol := (st_vol s)\<lparr>vol_staging := (vol_staging (st_vol s))(upl_staging_key u \<mapsto> d)\<rparr>\<rparr>"

text \<open>An active upload whose staging file holds all acknowledged bytes.\<close>

definition appendable :: "uuid \<Rightarrow> uuid \<Rightarrow> store \<Rightarrow> upload_row \<Rightarrow> bytes \<Rightarrow> bool" where
  "appendable owner i s u d \<longleftrightarrow> u \<in> set (uploads (st_db s)) \<and> upl_id u = i \<and> upl_owner u = owner \<and> upl_state u = Active
     \<and> vol_staging (st_vol s) (upl_staging_key u) = Some d \<and> 0 \<le> upl_received_size u
     \<and> upl_received_size u \<le> int (length d) \<and> upl_received_size u < upl_expected_size u"

definition acknowledged :: "upload_row \<Rightarrow> bytes \<Rightarrow> bytes" where
  "acknowledged u d = take (nat (upl_received_size u)) d"

text \<open>
  What a chunk does: nothing, when it is refused; a change of the staging file beyond the
  acknowledged bytes, when it fails; or its data is appended to them.
\<close>

lemma patch_upload_cases:
  assumes p: "patch_upload x st ls env user hs i body s = (s', r)"
  obtains (refused) e where "r = Inl e" and "s' = s"
  | (failed) u d tail e where "appendable (au_id user) i s u d" and "r = Inl e" and "s' = restage u (acknowledged u d @ tail) s"
  | (appended) u d db' where "appendable (au_id user) i s u d" and "body_data body \<noteq> []"
      and "upl_received_size u + int (length (body_data body)) \<le> upl_expected_size u"
      and "r = Inr (nat (upl_received_size u) + length (body_data body))"
      and "commit_patch env (au_id user) i (nat (upl_received_size u) + length (body_data body)) (st_db s) = Inr db'"
      and "s' = (restage u (acknowledged u d @ body_data body) s)\<lparr>st_db := db'\<rparr>"
proof (cases "bindE (tdrive (require_request_csrf x hs user st)) (\<lambda>_.
         bindE (patch_headers hs) (\<lambda>offset. patch_session env (au_id user) i offset (st_db s)))")
  case (Inl e)
  then show thesis using p refused [of e] by (simp add: patch_upload_def)
next
  case (Inr q)
  obtain u n mx where q: "q = (u, n, mx)" by (cases q)
  from Inr q obtain offset where "patch_session env (au_id user) i offset (st_db s) = Inr (u, n, mx)"
    by (auto simp: result_simps)
  note ps = patch_session_Inr [OF this]
  show thesis
  proof (cases "\<exists>d. vol_staging (st_vol s) (upl_staging_key u) = Some d \<and> n \<le> length d \<and> pe_open env = None")
    case False
    then show thesis using p Inr q refused by (auto simp: patch_upload_def Let_def split: option.splits)
  next
    case True
    then obtain d where d: "vol_staging (st_vol s) (upl_staging_key u) = Some d" "n \<le> length d" "pe_open env = None" by blast
    have a: "appendable (au_id user) i s u d" using ps d by (auto simp: appendable_def)
    obtain d' w where w: "write_patch_body ls env (vol_mounted (st_vol s)) 0 mx 0 (take n d) body = (d', w)"
      by (cases "write_patch_body ls env (vol_mounted (st_vol s)) 0 mx 0 (take n d) body")
    obtain tail where tail: "d' = take n d @ tail" using write_patch_body_prefix [OF w] by blast
    have cut: "after_error env n d' = acknowledged u d @ (if pe_truncated env then [] else tail)"
      using d(2) by (simp add: after_error_def tail acknowledged_def ps(5))
    have d': "d' = acknowledged u d @ tail" by (simp add: tail acknowledged_def ps(5))
    show thesis
    proof (cases "pe_seek env")
      case (Some e)
      have "r = Inl (TStorage (StorageIo e))" "s' = restage u (acknowledged u d @ []) s"
        using p d Some by (simp_all add: patch_upload_def Inr q Let_def restage_def acknowledged_def ps(5))
      then show thesis by (rule failed [OF a])
    next
      case None
      note run = p [unfolded patch_upload_def Inr q, simplified, unfolded Let_def d None, simplified, unfolded w prod.case]
      show thesis
    proof (cases "\<exists>k db'. w = Inr k \<and> k \<noteq> 0 \<and> pe_sync env = None \<and> commit_patch env (au_id user) i (n + k) (st_db s) = Inr db'")
      case True
      then obtain k db' where k: "w = Inr k" "k \<noteq> 0" "pe_sync env = None" "commit_patch env (au_id user) i (n + k) (st_db s) = Inr db'"
        by blast
      have b: "d' = take n d @ body_data body" "k = length (body_data body)" "k \<le> mx"
        using write_patch_body_Inr [of ls env _ 0 mx 0 "take n d" body d' k] w k(1) by auto
      show thesis
        by (rule appended [OF a]) (use k b ps run d in \<open>auto simp: restage_def acknowledged_def\<close>)
    next
      case False
      then have "\<exists>e. r = Inl e \<and> (s' = restage u (after_error env n d') s \<or> s' = restage u d' s)"
        using run d(2) by (auto simp: restage_def split: sum.splits if_splits option.splits)
      then show thesis using failed [OF a] cut d' by metis
    qed
    qed
  qed
qed

section \<open>The log of an upload\<close>

definition upload_log :: "uuid \<Rightarrow> store \<Rightarrow> bytes option" where
  "upload_log i s =
     (case find_row upl_id i (uploads (st_db s)) of
        None \<Rightarrow> None
      | Some u \<Rightarrow> map_option (acknowledged u) (vol_staging (st_vol s) (upl_staging_key u)))"

definition keys_ok :: "store \<Rightarrow> bool" where
  "keys_ok s \<longleftrightarrow> distinct (map upl_id (uploads (st_db s))) \<and> distinct (map upl_staging_key (uploads (st_db s)))"

lemma keys_okD:
  assumes "keys_ok s" and "u \<in> set (uploads (st_db s))" and "w \<in> set (uploads (st_db s))"
  shows "upl_id u = upl_id w \<Longrightarrow> u = w" and "upl_staging_key u = upl_staging_key w \<Longrightarrow> u = w"
  using assms distinct_key_unique [of upl_id "uploads (st_db s)"] distinct_key_unique [of upl_staging_key "uploads (st_db s)"]
  by (auto simp: keys_ok_def)

lemma find_upload:
  "keys_ok s \<Longrightarrow> find_row upl_id i (uploads (st_db s)) = Some u \<longleftrightarrow> u \<in> set (uploads (st_db s)) \<and> upl_id u = i"
  by (auto simp: keys_ok_def find_row_iff)

lemma restage_simps [simp]:
  "st_db (restage u d s) = st_db s"
  "vol_staging (st_vol (restage u d s)) = (vol_staging (st_vol s))(upl_staging_key u \<mapsto> d)"
  "vol_objects (st_vol (restage u d s)) = vol_objects (st_vol s)" "vol_dirs (st_vol (restage u d s)) = vol_dirs (st_vol s)"
  "vol_mounted (st_vol (restage u d s)) = vol_mounted (st_vol s)"
  by (simp_all add: restage_def)

lemma commit_patch_Inr:
  assumes "commit_patch env owner i n s = Inr s'"
  shows "s' = s\<lparr>uploads := update_where (\<lambda>u. upl_id u = i \<and> upl_owner u = owner \<and> upl_state u = Active)
           (\<lambda>u. u\<lparr>upl_received_size := int n, upl_updated_at := pe_now env\<rparr>) (uploads s)\<rparr>"
  using assms update_upload_Inr(1) [of i "\<lambda>u. upl_owner u = owner \<and> upl_state u = Active" _ s s']
  by (auto simp: commit_patch_def tsql_def result_simps split: option.splits)

lemma patch_keys:
  assumes "patch_upload x st ls env user hs i body s = (s', r)" and k: "keys_ok s"
  shows "keys_ok s'"
  using assms(1)
  by (rule patch_upload_cases) (use k in \<open>auto simp: keys_ok_def dest!: commit_patch_Inr simp: map_key_update_where\<close>)

lemma length_acknowledged: "appendable owner i s u d \<Longrightarrow> int (length (acknowledged u d)) = upl_received_size u"
  by (auto simp: appendable_def acknowledged_def)

lemma acknowledged_all: "upl_received_size u = int (length d) \<Longrightarrow> acknowledged u d = d"
  by (simp add: acknowledged_def)

text \<open>A chunk extends the log of its own upload by its data if it is accepted, and no log otherwise.\<close>

lemma patch_log:
  assumes p: "patch_upload x st ls env user hs i body s = (s', r)" and k: "keys_ok s" and l: "upload_log j s = Some b"
  shows "upload_log j s' = Some (b @ (if isOk r \<and> i = j then body_data body else []))"
proof -
  from l obtain w where w: "find_row upl_id j (uploads (st_db s)) = Some w"
    and b: "map_option (acknowledged w) (vol_staging (st_vol s) (upl_staging_key w)) = Some b"
    by (auto simp: upload_log_def split: option.splits)
  have wm: "w \<in> set (uploads (st_db s))" "upl_id w = j" using w k by (auto simp: find_upload)
  have keep: "acknowledged u (acknowledged u d @ z) = acknowledged u d" if "appendable (au_id user) i s u d" for u d z
    using that by (auto simp: appendable_def acknowledged_def)
  from p show ?thesis
  proof (cases rule: patch_upload_cases)
    case (refused e)
    then show ?thesis using l by simp
  next
    case (failed u d tail e)
    have "upload_log j (restage u (acknowledged u d @ tail) s) = Some b"
      using w b failed(1) keep keys_okD(2) [OF k wm(1), of u] by (auto simp: upload_log_def appendable_def)
    then show ?thesis using failed by simp
  next
    case (appended u d db')
    note c = commit_patch_Inr [OF appended(5)]
    let ?f = "\<lambda>r. r\<lparr>upl_received_size := int (nat (upl_received_size u) + length (body_data body)), upl_updated_at := pe_now env\<rparr>"
    have u: "u \<in> set (uploads (st_db s))" "upl_id u = i" "upl_owner u = au_id user" "upl_state u = Active"
      "vol_staging (st_vol s) (upl_staging_key u) = Some d" "0 \<le> upl_received_size u"
      using appended(1) by (auto simp: appendable_def)
    have same: "i = j \<longleftrightarrow> w = u" using keys_okD(1) [OF k wm(1) u(1)] wm(2) u(2) by blast
    have row: "find_row upl_id j (uploads db') = Some (if i = j then ?f u else w)"
    proof -
      have "uploads db' = update_where (\<lambda>r. upl_id r = i \<and> upl_owner r = au_id user \<and> upl_state r = Active) ?f (uploads (st_db s))"
        unfolding c by simp
      moreover have "find_row upl_id j (update_where q ?f (uploads (st_db s))) = Some (if q w then ?f w else w)" for q
        by (subst find_row_update_where) (simp_all add: w)
      moreover have "upl_id w = i \<and> upl_owner w = au_id user \<and> upl_state w = Active \<longleftrightarrow> i = j"
        using wm(2) same u(3,4) by blast
      ultimately show ?thesis using same by presburger
    qed
    have "acknowledged (?f u) (acknowledged u d @ body_data body) = acknowledged u d @ body_data body"
      by (rule acknowledged_all) (use length_acknowledged [OF appended(1)] u(6) in simp)
    then show ?thesis
      using row b u same appended(4,6) keys_okD(2) [OF k wm(1) u(1)]
      by (auto simp: upload_log_def isOk_def)
  qed
qed

record patch_request =
  pq_env :: patch_env
  pq_user :: auth_user
  pq_headers :: headers
  pq_upload :: uuid
  pq_body :: "frame list"

primrec run_patches :: "externals \<Rightarrow> auth_settings \<Rightarrow> local_storage \<Rightarrow> patch_request list \<Rightarrow> store
    \<Rightarrow> store \<times> (transfer_error + nat) list" where
  "run_patches x st ls [] s = (s, [])"
| "run_patches x st ls (q # qs) s =
     (let (s1, r) = patch_upload x st ls (pq_env q) (pq_user q) (pq_headers q) (pq_upload q) (pq_body q) s;
          (s2, rs) = run_patches x st ls qs s1
      in (s2, r # rs))"

definition accepted :: "uuid \<Rightarrow> patch_request list \<Rightarrow> (transfer_error + nat) list \<Rightarrow> bytes" where
  "accepted i qs rs = concat (map (\<lambda>(q, r). if isOk r \<and> pq_upload q = i then body_data (pq_body q) else []) (zip qs rs))"

text \<open>
  C15. Chunks for any uploads, in any order and with any failures of the network, the disk or
  the database among them, extend the log of acknowledged bytes of every upload by exactly the
  data of the chunks that were answered with success, in their order: an upload that resumes
  at the acknowledged offset loses and duplicates nothing.
\<close>

theorem resumable_upload_log:
  assumes "keys_ok s" and "upload_log i s = Some b" and "run_patches x st ls qs s = (s', rs)"
  shows "upload_log i s' = Some (b @ accepted i qs rs)"
  using assms
proof (induction qs arbitrary: s b rs)
  case Nil
  then show ?case by (simp add: accepted_def)
next
  case (Cons q qs)
  obtain s1 r where p: "patch_upload x st ls (pq_env q) (pq_user q) (pq_headers q) (pq_upload q) (pq_body q) s = (s1, r)"
    by (cases "patch_upload x st ls (pq_env q) (pq_user q) (pq_headers q) (pq_upload q) (pq_body q) s")
  obtain rs' where r: "run_patches x st ls qs s1 = (s', rs')" "rs = r # rs'"
    using Cons.prems(3) p by (auto simp: Let_def split: prod.splits)
  show ?case
    using Cons.IH [OF patch_keys [OF p Cons.prems(1)] patch_log [OF p Cons.prems(1,2)] r(1)] r(2)
    by (simp add: accepted_def)
qed

end
