(* ===== verification/Deletions.thy ===== *)
theory Deletions
  imports Drive_Correct
begin

text \<open>
  Statements that remove rows, as uploads and maintenance use them: each of them, or the pair
  of them that belongs together, keeps the drive invariant.
\<close>

section \<open>Versions and objects\<close>

lemma version_rows:
  assumes "rows_ok s" and "v \<in> set (versions s)"
  shows "ver_file v \<in> ids_of File (entries s)" and "ver_object v \<in> obj_id ` set (objects s)"
  using assms unfolding rows_ok_def by blast+

lemma current_rows:
  assumes "rows_ok s" and "r \<in> set (files s)" and "fil_current_version r = Some x"
  obtains w where "w \<in> set (versions s)" and "ver_id w = x" and "ver_file w = fil_id r"
  using assms unfolding rows_ok_def by blast

lemma drive_ok_objects:
  assumes "drive_ok lower s" and "entries s' = entries s" "users s' = users s" "folders s' = folders s" "files s' = files s"
    "versions s' = versions s" and "ver_object ` set (versions s) \<subseteq> obj_id ` set (objects s')"
  shows "drive_ok lower s'"
  using assms unfolding drive_ok_def tree_ok_def rows_ok_def by metis

lemma insert_object_ok:
  assumes "insert_object b s = Inr s'" and "drive_ok lower s"
  shows "drive_ok lower s'"
proof -
  have "s' = s\<lparr>objects := objects s @ [b]\<rparr>" using assms(1) by (auto simp: insert_object_def result_simps)
  then show ?thesis using assms(2) by (intro drive_ok_objects [OF assms(2)]) (auto simp: drive_ok_def rows_ok_def)
qed

lemma insert_object_Inr:
  assumes "insert_object b s = Inr s'"
  shows "s' = s\<lparr>objects := objects s @ [b]\<rparr>" and "obj_id b \<notin> obj_id ` set (objects s)"
    and "obj_storage_key b \<notin> obj_storage_key ` set (objects s)"
  using assms by (auto simp: insert_object_def result_simps)

lemma delete_object_Inr:
  assumes "delete_object b s = Inr s'"
  obtains "s' = s" and "b \<notin> obj_id ` set (objects s)"
  | "s' = s\<lparr>objects := filter (\<lambda>r. obj_id r \<noteq> b) (objects s),
              uploads := update_where (\<lambda>u. upl_object u = Some b) (\<lambda>u. u\<lparr>upl_object := None\<rparr>) (uploads s)\<rparr>"
    and "b \<notin> ver_object ` set (versions s)"
    and "\<And>u. u \<in> set (uploads s) \<Longrightarrow> upl_object u = Some b \<Longrightarrow> upl_state u \<noteq> Finalizing"
  using assms by (auto simp: delete_object_def result_simps split: if_splits)

lemma delete_object_ok:
  assumes "delete_object b s = Inr s'" and ok: "drive_ok lower s"
  shows "drive_ok lower s'"
  using assms(1)
proof (cases rule: delete_object_Inr)
  case 1
  then show ?thesis using ok by simp
next
  case 2
  have "ver_object ` set (versions s) \<subseteq> obj_id ` set (filter (\<lambda>r. obj_id r \<noteq> b) (objects s))"
    using 2(2) version_rows(2) [of s] ok by (fastforce simp: drive_ok_def)
  then show ?thesis unfolding 2(1) by (intro drive_ok_objects [OF ok]) simp_all
qed

lemma set_current_ok:
  assumes c: "set_current_version v f s = Inr s'" and ok: "drive_ok lower s"
    and v: "\<And>x. v = Some x \<Longrightarrow> \<exists>w \<in> set (versions s). ver_id w = x \<and> ver_file w = f"
  shows "drive_ok lower s'"
proof -
  note s' = set_current_Inr [OF c]
  let ?u = "update_where (\<lambda>r. fil_id r = f) (\<lambda>r. r\<lparr>fil_current_version := v\<rparr>) (files s)"
  have ids: "map fil_id ?u = map fil_id (files s)" by (rule map_key_update_where) simp
  then have set_ids: "fil_id ` set ?u = fil_id ` set (files s)" by (metis set_map)
  have "\<exists>w \<in> set (versions s). ver_id w = x \<and> ver_file w = fil_id r" if "r \<in> set ?u" "fil_current_version r = Some x" for r x
    using that v ok by (auto simp: set_update_where drive_ok_def rows_ok_def split: if_splits)
  then show ?thesis
    using ok unfolding drive_ok_def tree_ok_def rows_ok_def s' by (simp add: ids set_ids) blast
qed

lemma delete_versions_frame [simp]:
  "entries (delete_versions p s) = entries s" "users (delete_versions p s) = users s" "folders (delete_versions p s) = folders s"
  "uploads (delete_versions p s) = uploads s" "objects (delete_versions p s) = objects s" "shares (delete_versions p s) = shares s"
  "versions (delete_versions p s) = filter (\<lambda>v. \<not> p v) (versions s)"
  by (simp_all add: delete_versions_def Let_def)

lemma delete_versions_files: "map fil_id (files (delete_versions p s)) = map fil_id (files s)"
  by (simp add: delete_versions_def Let_def map_key_update_where)

lemma delete_versions_ok:
  assumes ok: "drive_ok lower s"
  shows "drive_ok lower (delete_versions p s)"
proof -
  define gone where "gone = ver_id ` set (filter p (versions s))"
  let ?u = "update_where (\<lambda>r. case fil_current_version r of None \<Rightarrow> False | Some v \<Rightarrow> v \<in> gone)
                   (\<lambda>r. r\<lparr>fil_current_version := None\<rparr>) (files s)"
  have ids: "map fil_id ?u = map fil_id (files s)" by (rule map_key_update_where) simp
  then have set_ids: "fil_id ` set ?u = fil_id ` set (files s)" by (metis set_map)
  have d: "distinct (map ver_id (versions s))" using ok by (simp add: drive_ok_def rows_ok_def)
  have "\<exists>w \<in> set (filter (\<lambda>v. \<not> p v) (versions s)). ver_id w = x \<and> ver_file w = fil_id r"
    if r: "r \<in> set ?u" "fil_current_version r = Some x" for r x
  proof -
    from r obtain r0 where r0: "r0 \<in> set (files s)" "fil_current_version r0 = Some x" "fil_id r0 = fil_id r" "x \<notin> gone"
      by (auto simp: set_update_where split: if_splits option.splits)
    then obtain w where w: "w \<in> set (versions s)" "ver_id w = x" "ver_file w = fil_id r"
      using ok current_rows [of s r0 x] by (metis drive_ok_def)
    then have "\<not> p w" using r0(4) by (auto simp: gone_def)
    then show ?thesis using w by auto
  qed
  moreover have "distinct (map ver_id (filter (\<lambda>v. \<not> p v) (versions s)))" using d by (rule distinct_map_filter_key)
  moreover have f: "files (delete_versions p s) = ?u" unfolding delete_versions_def Let_def gone_def by simp
  moreover have "ver_file ` set (filter (\<lambda>v. \<not> p v) (versions s)) \<subseteq> fil_id ` set ?u"
    "ver_object ` set (filter (\<lambda>v. \<not> p v) (versions s)) \<subseteq> obj_id ` set (objects s)"
    using ok version_rows [of s] unfolding set_ids drive_ok_def by (auto simp: rows_ok_def)
  moreover have "set (folders s) = ids_of Folder (entries s)" "distinct (folders s)" "fil_id ` set ?u = ids_of File (entries s)"
    "distinct (map fil_id ?u)"
    using ok by (simp_all add: drive_ok_def rows_ok_def ids set_ids)
  ultimately have "rows_ok (delete_versions p s)" unfolding rows_ok_def by simp
  moreover have "tree_ok lower (delete_versions p s)" using ok by (simp add: drive_ok_def tree_ok_def)
  ultimately show ?thesis by (simp add: drive_ok_def)
qed

section \<open>Entries with their rows\<close>

lemma delete_file_Inr:
  assumes "delete_file f s = Inr s'"
  shows "s' = s\<lparr>files := filter (\<lambda>r. fil_id r \<noteq> f) (files s),
              uploads := update_where (\<lambda>u. upl_replace_file u = Some f) (\<lambda>u. u\<lparr>upl_replace_file := None\<rparr>)
                 (filter (\<lambda>u. upl_final_file u \<noteq> Some f) (uploads s))\<rparr>"
    and "f \<notin> ver_file ` set (versions s)"
  using assms by (auto simp: delete_file_def result_simps)

lemma delete_entry_Inr:
  assumes "delete_entry i owner s = Inr s'" and "\<exists>e \<in> set (entries s). ent_id e = i \<and> ent_owner e = owner"
  shows "entries s' = filter (\<lambda>e. ent_id e \<noteq> i) (entries s)" and "files s' = files s" and "folders s' = folders s"
    and "versions s' = versions s" and "objects s' = objects s" and "users s' = users s" and "uploads s' = uploads s"
    and "\<not> (\<exists>e \<in> set (entries s). ent_parent e = Some i \<and> ent_id e \<noteq> i)"
    and "i \<notin> set (folders s)" and "i \<notin> fil_id ` set (files s)"
  using assms by (auto simp: delete_entry_def Let_def result_simps)

lemma forest_delete:
  assumes "forest es" and "\<not> (\<exists>e \<in> set es. ent_parent e = Some i \<and> ent_id e \<noteq> i)"
  shows "forest (filter (\<lambda>e. ent_id e \<noteq> i) es)"
  by (rule forest_filter [OF assms(1)]) (use assms(2) in auto)

lemma ids_of_filter: "ids_of k (filter (\<lambda>e. ent_id e \<noteq> i) es) = ids_of k es - {i}"
  by (auto simp: ids_of_def)

lemma delete_entry_tree:
  assumes e: "delete_entry i owner s = Inr s'" and m: "\<exists>e \<in> set (entries s). ent_id e = i \<and> ent_owner e = owner"
    and t: "tree_ok lower s"
  shows "tree_ok lower s'"
proof -
  note d = delete_entry_Inr [OF e m]
  have "forest (entries s')" using forest_delete [OF _ d(8)] t by (simp add: tree_ok_def d(1))
  then show ?thesis using t by (auto simp: tree_ok_def d(1,6) slots_ok_def)
qed

text \<open>A file row without versions and its entry; a folder row and its entry.\<close>

lemma delete_file_entry_ok:
  assumes f: "delete_file i s = Inr s1" and e: "delete_entry i owner s1 = Inr s2"
    and m: "\<exists>e \<in> set (entries s). ent_id e = i \<and> ent_owner e = owner" and ok: "drive_ok lower s"
  shows "drive_ok lower s2"
proof -
  note df = delete_file_Inr [OF f]
  have m1: "\<exists>e \<in> set (entries s1). ent_id e = i \<and> ent_owner e = owner" using m by (simp add: df(1))
  note de = delete_entry_Inr [OF e m1]
  have "tree_ok lower s1" using ok by (simp add: drive_ok_def tree_ok_def df(1))
  then have t: "tree_ok lower s2" by (rule delete_entry_tree [OF e m1])
  have nf: "i \<notin> set (folders s)" using de(9) by (simp add: df(1))
  have "distinct (map fil_id (filter (\<lambda>r. fil_id r \<noteq> i) (files s)))"
    using ok by (intro distinct_map_filter_key) (simp add: drive_ok_def rows_ok_def)
  moreover have "fil_id ` {r \<in> set (files s). fil_id r \<noteq> i} = fil_id ` set (files s) - {i}" by auto
  ultimately have "rows_ok s2"
    using ok df(2) nf version_rows(1) [of s] by (auto simp: drive_ok_def rows_ok_def de(1-5) df(1) ids_of_filter)
  with t show ?thesis by (simp add: drive_ok_def)
qed

lemma delete_folder_entry_ok:
  assumes e: "delete_entry i owner (delete_folder i s) = Inr s2"
    and m: "\<exists>e \<in> set (entries s). ent_id e = i \<and> ent_owner e = owner" and ok: "drive_ok lower s"
  shows "drive_ok lower s2"
proof -
  let ?s1 = "delete_folder i s"
  have m1: "\<exists>e \<in> set (entries ?s1). ent_id e = i \<and> ent_owner e = owner" using m by (simp add: delete_folder_def)
  note de = delete_entry_Inr [OF e m1]
  have "tree_ok lower ?s1" using ok by (simp add: drive_ok_def tree_ok_def delete_folder_def)
  then have t: "tree_ok lower s2" by (rule delete_entry_tree [OF e m1])
  have nf: "i \<notin> fil_id ` set (files s)" using de(10) by (simp add: delete_folder_def)
  have "rows_ok s2"
    using ok nf version_rows(1) [of s] by (auto simp: drive_ok_def rows_ok_def de(1-5) delete_folder_def ids_of_filter)
  with t show ?thesis by (simp add: drive_ok_def)
qed

end
