(* ===== verification/Uploads_Invariant.thy ===== *)
theory Uploads_Invariant
  imports Uploads_Correct Deletions
begin

text \<open>
  The invariant of the store: the drive invariant, uploads with different identifiers and
  staging files, an active upload's staging file holding its acknowledged bytes (and nothing
  more once all are received), the file of a finalizing or completed upload owned by the
  account of the upload, and object files inside their shard directories. Every upload
  operation and every drive operation keeps it.
\<close>

section \<open>The invariant\<close>

type_synonym ident = "uuid \<times> uuid \<times> kind"

definition idents :: "db \<Rightarrow> ident set" where
  "idents s = (\<lambda>e. (ent_id e, ent_owner e, ent_kind e)) ` set (entries s)"

definition staged :: "(uuid \<Rightarrow> bytes option) \<Rightarrow> upload_row \<Rightarrow> bool" where
  "staged staging u \<longleftrightarrow> (upl_state u = Active \<longrightarrow>
     (\<exists>d. staging (upl_staging_key u) = Some d \<and> upl_received_size u \<le> int (length d)
        \<and> (upl_received_size u = upl_expected_size u \<longrightarrow> int (length d) = upl_expected_size u)))"

definition upload_ok :: "ident set \<Rightarrow> (uuid \<Rightarrow> bytes option) \<Rightarrow> upload_row \<Rightarrow> bool" where
  "upload_ok ids staging u \<longleftrightarrow> upload_row_check u \<and> staged staging u
     \<and> (upl_state u = Active \<longrightarrow> upl_object u = None \<and> upl_final_file u = None)
     \<and> (\<forall>f. upl_final_file u = Some f \<longrightarrow> (f, upl_owner u, File) \<in> ids)"

definition store_ok :: "(ustr \<Rightarrow> ustr) \<Rightarrow> store \<Rightarrow> bool" where
  "store_ok lower s \<longleftrightarrow> drive_ok lower (st_db s) \<and> keys_ok s \<and> vol_ok (st_vol s)
     \<and> (\<forall>u \<in> set (uploads (st_db s)). upload_ok (idents (st_db s)) (vol_staging (st_vol s)) u)"

lemma store_okD:
  assumes "store_ok lower s"
  shows "drive_ok lower (st_db s)" and "keys_ok s" and "vol_ok (st_vol s)"
    and "\<And>u. u \<in> set (uploads (st_db s)) \<Longrightarrow> upload_ok (idents (st_db s)) (vol_staging (st_vol s)) u"
  using assms by (simp_all add: store_ok_def)

lemma upload_ok_mono: "upload_ok ids staging u \<Longrightarrow> ids \<subseteq> ids' \<Longrightarrow> upload_ok ids' staging u"
  by (auto simp: upload_ok_def split: option.splits)

lemma upload_ok_staging:
  "upload_ok ids staging u \<Longrightarrow> upl_state u \<noteq> Active \<or> staging' (upl_staging_key u) = staging (upl_staging_key u) \<Longrightarrow>
   upload_ok ids staging' u"
  by (auto simp: upload_ok_def staged_def)

text \<open>A change of the database that keeps the uploads and loses no entry.\<close>

lemma store_ok_db:
  assumes ok: "store_ok lower s" and d: "drive_ok lower db'" and "uploads db' = uploads (st_db s)"
    and "idents (st_db s) \<subseteq> idents db'"
  shows "store_ok lower (s\<lparr>st_db := db'\<rparr>)"
  using assms upload_ok_mono by (auto simp: store_ok_def keys_ok_def)

section \<open>Drive operations\<close>

lemma update_entry_idents:
  assumes "update_entry lower g p f i s = Inr (s', n)" and k: "keeps_identity f" and d: "distinct (map ent_id (entries s))"
  shows "idents s \<subseteq> idents s'"
  using assms(1)
proof (cases rule: update_entry_Inr)
  case 1
  then show ?thesis by simp
next
  case (2 old)
  have e: "update_where (\<lambda>e. ent_id e = i) (\<lambda>_. f old) (entries s) = update_where (\<lambda>e. ent_id e = i) f (entries s)"
    using update_one [OF d 2(2)] 2(3) by simp
  have "entries s' = update_where (\<lambda>e. ent_id e = i) f (entries s)" unfolding 2(5) by (simp add: e)
  moreover have "map (\<lambda>e. (ent_id e, ent_owner e, ent_kind e)) (update_where q f (entries s))
      = map (\<lambda>e. (ent_id e, ent_owner e, ent_kind e)) (entries s)" for q
    by (rule map_key_update_where) (use k in \<open>simp add: keeps_identity_def\<close>)
  ultimately have "map (\<lambda>e. (ent_id e, ent_owner e, ent_kind e)) (entries s') = map (\<lambda>e. (ent_id e, ent_owner e, ent_kind e)) (entries s)"
    by simp
  then have "idents s' = idents s" unfolding idents_def set_map [symmetric] by (rule arg_cong)
  then show ?thesis by simp
qed

lemma drive_write_frame:
  assumes "drive_write lower owner s s'" and "drive_ok lower s"
  shows "uploads s' = uploads s \<and> idents s \<subseteq> idents s'"
  using assms
proof (induction rule: drive_write.induct)
  case (entry_updated g p f i s s' n)
  then have "idents s \<subseteq> idents s'" by (intro update_entry_idents) (auto dest: drive_okD(2))
  moreover from entry_updated(1) have "uploads s' = uploads s" by (cases rule: update_entry_Inr) simp_all
  ultimately show ?case by simp
next
  case (folder_added new s s1 s2)
  then show ?case by (auto simp: insert_folder_def idents_def result_simps dest: insert_entry_Inr(1))
next
  case (file_added new s s1 s2)
  then show ?case by (auto simp: insert_file_def idents_def result_simps dest: insert_entry_Inr(1))
next
  case (version_added v s s1 s2)
  then show ?case using set_current_Inr [OF version_added(2)] insert_version_Inr(1) [OF version_added(1)] by (simp add: idents_def)
qed (simp_all add: revoke_subtree_shares_def drop_subtree_access_def idents_def add_audit_def)

lemma drive_writes_frame:
  assumes "drive_writes lower owner s s'" and "drive_ok lower s"
  shows "uploads s' = uploads s \<and> idents s \<subseteq> idents s'"
  using assms
proof (induction rule: rtranclp_induct)
  case (step t u)
  then show ?case using drive_write_frame [OF step(2)] drive_writes_ok [OF step(1)] by auto
qed simp

lemma drive_writes_store:
  assumes "drive_writes lower owner (st_db s) db'" and "store_ok lower s"
  shows "store_ok lower (s\<lparr>st_db := db'\<rparr>)"
proof (rule store_ok_db [OF assms(2)])
  have d: "drive_ok lower (st_db s)" using assms(2) by (rule store_okD)
  show "drive_ok lower db'" using assms(1) d by (rule drive_writes_ok)
  show "uploads db' = uploads (st_db s)" "idents (st_db s) \<subseteq> idents db'" using drive_writes_frame [OF assms(1) d] by simp_all
qed

section \<open>Creating, appending, cancelling\<close>

text \<open>An update of one upload's row together with its staging file.\<close>

lemma store_ok_upload:
  assumes ok: "store_ok lower s"
    and u: "u \<in> set (uploads (st_db s))"
    and up: "uploads (st_db s') = update_where (\<lambda>r. upl_id r = upl_id u \<and> p r) f (uploads (st_db s))"
    and f: "\<And>r. upl_id (f r) = upl_id r \<and> upl_staging_key (f r) = upl_staging_key r"
    and d: "drive_ok lower (st_db s')" and ids: "idents (st_db s) \<subseteq> idents (st_db s')"
    and st: "\<And>k. k \<noteq> upl_staging_key u \<Longrightarrow> vol_staging (st_vol s') k = vol_staging (st_vol s) k"
    and new: "p u \<Longrightarrow> upload_ok (idents (st_db s')) (vol_staging (st_vol s')) (f u)" 
    and old: "\<not> p u \<Longrightarrow> upload_ok (idents (st_db s')) (vol_staging (st_vol s')) u"
    and v: "vol_ok (st_vol s')"
  shows "store_ok lower s'"
proof -
  note k = store_okD(2) [OF ok]
  have "keys_ok s'"
    using k f by (simp add: keys_ok_def up map_key_update_where)
  moreover have "upload_ok (idents (st_db s')) (vol_staging (st_vol s')) r" if "r \<in> set (uploads (st_db s'))" for r
  proof -
    from that up obtain r0 where r0: "r0 \<in> set (uploads (st_db s))" "r = (if upl_id r0 = upl_id u \<and> p r0 then f r0 else r0)"
      by (auto simp: set_update_where)
    show ?thesis
    proof (cases "r0 = u")
      case True
      then show ?thesis using r0(2) new old by auto
    next
      case False
      then have "upl_id r0 \<noteq> upl_id u" "upl_staging_key r0 \<noteq> upl_staging_key u" using keys_okD [OF k r0(1) u] by auto
      then show ?thesis
        using r0 store_okD(4) [OF ok r0(1)] ids st by (auto intro: upload_ok_mono upload_ok_staging)
    qed
  qed
  ultimately show ?thesis using d v by (simp add: store_ok_def)
qed

lemma vol_ok_restage [simp]: "vol_ok (st_vol (restage u d s)) = vol_ok (st_vol s)"
  by (simp add: vol_ok_def)

lemma vol_ok_staging [simp]: "vol_ok (v\<lparr>vol_staging := g\<rparr>) = vol_ok v"
  by (simp add: vol_ok_def)

lemma patch_upload_ok:
  assumes p: "patch_upload x st ls env user hs i body s = (s', r)" and ok: "store_ok lower s"
  shows "store_ok lower s'"
  using p
proof (cases rule: patch_upload_cases)
  case (refused e)
  then show ?thesis using ok by simp
next
  case (failed u d tail e)
  have u: "u \<in> set (uploads (st_db s))" using failed(1) by (simp add: appendable_def)
  have "upload_ok (idents (st_db s)) (vol_staging (st_vol s')) u"
    using store_okD(4) [OF ok u] failed(1) length_acknowledged [OF failed(1)]
    by (simp add: failed(3) upload_ok_def staged_def appendable_def)
  then show ?thesis
    by (intro store_ok_upload [OF ok u, where p = "\<lambda>_. False" and f = id])
      (use store_okD [OF ok] in \<open>auto simp: failed(3) update_where_def\<close>)
next
  case (appended u d db')
  note c = commit_patch_Inr [OF appended(5)]
  let ?n = "nat (upl_received_size u) + length (body_data body)"
  let ?f = "\<lambda>r. r\<lparr>upl_received_size := int ?n, upl_updated_at := pe_now env\<rparr>"
  have u: "u \<in> set (uploads (st_db s))" "upl_id u = i" "upl_owner u = au_id user" "upl_state u = Active" "0 \<le> upl_received_size u"
    using appended(1) by (auto simp: appendable_def)
  have "upload_ok (idents (st_db s)) (vol_staging (st_vol s')) (?f u)"
    using store_okD(4) [OF ok u(1)] length_acknowledged [OF appended(1)] u(4,5) appended(3)
    by (simp add: appended(6) upload_ok_def staged_def upload_row_check_def)
  moreover have "idents db' = idents (st_db s)" by (simp add: c idents_def)
  moreover have "drive_ok lower db'" using store_okD(1) [OF ok] by (subst drive_ok_frame [of _ "st_db s"]) (simp_all add: c)
  moreover have "uploads db' = update_where (\<lambda>r. upl_id r = upl_id u \<and> upl_owner r = au_id user \<and> upl_state r = Active) ?f
      (uploads (st_db s))" using u(2) by (simp add: c)
  ultimately show ?thesis
    by (intro store_ok_upload [OF ok u(1), where p = "\<lambda>r. upl_owner r = au_id user \<and> upl_state r = Active" and f = ?f])
      (use store_okD(3) [OF ok] u in \<open>auto simp: appended(6)\<close>)
qed

text \<open>A change of the volume that leaves the staging files of active uploads alone.\<close>

lemma store_ok_vol:
  assumes ok: "store_ok lower s" and "st_db s' = st_db s" and "vol_ok (st_vol s')"
    and "\<And>u. u \<in> set (uploads (st_db s)) \<Longrightarrow> upl_state u = Active \<Longrightarrow>
      vol_staging (st_vol s') (upl_staging_key u) = vol_staging (st_vol s) (upl_staging_key u)"
  shows "store_ok lower s'"
  using assms by (auto simp: store_ok_def keys_ok_def intro: upload_ok_staging)

lemma active_staged:
  assumes "store_ok lower s" and "u \<in> set (uploads (st_db s))" and "upl_state u = Active"
  obtains d where "vol_staging (st_vol s) (upl_staging_key u) = Some d"
  using store_okD(4) [OF assms(1,2)] assms(3) by (auto simp: upload_ok_def staged_def)

lemma insert_upload_Inr:
  assumes "insert_upload u s = Inr s'"
  shows "s' = s\<lparr>uploads := uploads s @ [u]\<rparr>" and "upl_id u \<notin> upl_id ` set (uploads s)"
    and "upl_staging_key u \<notin> upl_staging_key ` set (uploads s)" and "0 \<le> upl_received_size u"
    and "upl_received_size u \<le> upl_expected_size u"
  using assms by (auto simp: insert_upload_def result_simps)

lemma create_upload_ok:
  assumes ok: "store_ok lower s"
  shows "store_ok lower (fst (create_upload x st ls ts env user hs r s))"
proof (cases "admit_upload x st ls ts env user hs r s")
  case (Inl e)
  then show ?thesis using ok by (simp add: create_upload_def)
next
  case (Inr a)
  obtain parent name expires where a: "a = (parent, name, expires)" by (cases a)
  show ?thesis
  proof (cases "create_staging_file (ce_staging_key env) (st_vol s)")
    case (Inl e)
    then show ?thesis using ok Inr a by (simp add: create_upload_def)
  next
    case v: (Inr v)
    then have fresh: "vol_staging (st_vol s) (ce_staging_key env) = None"
      and v': "v = (st_vol s)\<lparr>vol_staging := (vol_staging (st_vol s))(ce_staging_key env \<mapsto> [])\<rparr>"
      by (auto simp: create_staging_file_def result_simps)
    define u where "u = \<lparr>upl_id = ce_id env, upl_owner = au_id user, upl_target_parent = parent, upl_filename = name,
                        upl_expected_size = int (cq_expected_size r), upl_received_size = 0,
                        upl_staging_key = ce_staging_key env, upl_state = Active, upl_expires_at = expires,
                        upl_updated_at = ce_now env, upl_object = None, upl_final_file = None,
                        upl_staging_cleaned_at = None, upl_replace_file = cq_file r,
                        upl_original_modified_at = cq_modified_at r\<rparr>"
    show ?thesis
    proof (cases "insert_upload u (st_db s)")
      case (Inl e)
      have act: "ce_staging_key env \<noteq> upl_staging_key w" if "w \<in> set (uploads (st_db s))" "upl_state w = Active" for w
        by (rule active_staged [OF ok that]) (use fresh in auto)
      have "store_ok lower (s\<lparr>st_vol := (st_vol s)\<lparr>vol_staging := (vol_staging (st_vol s))(ce_staging_key env := q)\<rparr>\<rparr>)" for q
      proof (rule store_ok_vol [OF ok])
        fix w
        assume "w \<in> set (uploads (st_db s))" "upl_state w = Active"
        from act [OF this] show "vol_staging (st_vol (s\<lparr>st_vol := (st_vol s)\<lparr>vol_staging :=
            (vol_staging (st_vol s))(ce_staging_key env := q)\<rparr>\<rparr>)) (upl_staging_key w) = vol_staging (st_vol s) (upl_staging_key w)"
          by simp
      qed (use store_okD(3) [OF ok] in simp_all)
      from this [of "Some []"] this [of None] show ?thesis
        using Inl Inr a v by (auto simp: create_upload_def u_def remove_staging_file_def bindE_def v' split: sum.splits)
    next
      case d: (Inr d)
      note i = insert_upload_Inr [OF d]
      let ?s = "s\<lparr>st_db := d, st_vol := v\<rparr>"
      have "drive_ok lower d" using store_okD(1) [OF ok] by (subst drive_ok_frame [of _ "st_db s"]) (simp_all add: i(1))
      moreover have "upload_ok (idents d) (vol_staging v) w" if "w \<in> set (uploads d)" for w
      proof (cases "w = u")
        case True
        then show ?thesis by (auto simp: u_def v' upload_ok_def upload_row_check_def staged_def)
      next
        case False
        then have w: "w \<in> set (uploads (st_db s))" using that by (simp add: i(1))
        have "upl_staging_key w \<noteq> ce_staging_key env" using i(3) w by (metis imageI u_def upload_row.select_convs(7))
        then show ?thesis using store_okD(4) [OF ok w] by (auto simp: idents_def i(1) v' intro: upload_ok_staging)
      qed
      moreover have "keys_ok ?s" using store_okD(2) [OF ok] i(2,3) by (simp add: keys_ok_def i(1))
      ultimately have "store_ok lower ?s" using store_okD(3) [OF ok] by (simp add: store_ok_def v')
      then show ?thesis using Inr a v d by (simp add: create_upload_def u_def)
    qed
  qed
qed

lemma create_photo_upload_ok:
  assumes ok: "store_ok (sql_lower x) s"
  shows "store_ok (sql_lower x) (fst (create_photo_upload x st ls ts env tries user hs r s))"
proof -
  obtain d f where e: "ensure_photos_folder (sql_lower x) (au_id user) (ce_now env) tries (st_db s) = (d, f)"
    by (cases "ensure_photos_folder (sql_lower x) (au_id user) (ce_now env) tries (st_db s)")
  have "drive_writes (sql_lower x) (au_id user) (st_db s) d"
    using ensure_photos_writes [of "sql_lower x" "au_id user" "st_db s" "ce_now env" "take 4 tries"] e
    by (simp add: ensure_photos_folder_def)
  then have "store_ok (sql_lower x) (s\<lparr>st_db := d\<rparr>)" by (rule drive_writes_store [OF _ ok])
  then show ?thesis
    using ok create_upload_ok by (auto simp: create_photo_upload_def e split: sum.splits)
qed

text \<open>The time at which a staging file was cleaned up is no part of the invariant.\<close>

lemma store_ok_cleaned:
  assumes s: "store_ok lower s"
  shows "store_ok lower (s\<lparr>st_db := (st_db s)\<lparr>uploads := update_where q (\<lambda>r. r\<lparr>upl_staging_cleaned_at := Some now\<rparr>)
        (uploads (st_db s))\<rparr>\<rparr>)"
proof -
  have "upload_ok ids g (r\<lparr>upl_staging_cleaned_at := Some now\<rparr>) = upload_ok ids g r" for ids g r
    by (simp add: upload_ok_def staged_def upload_row_check_def cong: upload_state.case_cong)
  then show ?thesis
    using s drive_ok_frame [of "(st_db s)\<lparr>uploads := update_where q (\<lambda>r. r\<lparr>upl_staging_cleaned_at := Some now\<rparr>)
        (uploads (st_db s))\<rparr>" "st_db s" lower]
    by (auto simp: store_ok_def keys_ok_def idents_def map_key_update_where set_update_where)
qed

lemma cancel_upload_ok:
  assumes ok: "store_ok lower s"
  shows "store_ok lower (fst (cancel_upload x st now user hs i s))"
proof -
  let ?p = "\<lambda>r. upl_owner r = au_id user \<and> (upl_state r = Active \<or> upl_state r = Expired)"
  let ?f = "\<lambda>r. r\<lparr>upl_state := Expired, upl_updated_at := now\<rparr>"
  let ?check = "bindE (tdrive (require_request_csrf x hs user st)) (\<lambda>_.
           bindE (fetch_upload (au_id user) i (st_db s)) (\<lambda>u.
           bindE (guardE (\<not> (upl_state u = Completed \<or> upl_state u = Finalizing)) TConflict) (\<lambda>_.
           bindE (if upl_state u = Active \<or> upl_state u = Expired then
                    tsql (update_upload i ?p ?f (st_db s))
                  else Inr (st_db s)) (\<lambda>d. Inr (u, d)))))"
  show ?thesis
  proof (cases ?check)
    case (Inl e)
    then show ?thesis using ok by (simp add: cancel_upload_def)
  next
    case (Inr a)
    then obtain u d where a: "a = (u, d)" and u: "u \<in> set (uploads (st_db s))" "upl_id u = i" "upl_owner u = au_id user"
      and live: "upl_state u \<noteq> Completed" "upl_state u \<noteq> Finalizing"
      and d: "(if upl_state u = Active \<or> upl_state u = Expired then tsql (update_upload i ?p ?f (st_db s)) else Inr (st_db s)) = Inr d"
      by (auto simp: result_simps dest: fetch_upload_Inr)
    have same: "w = u" if "w \<in> set (uploads (st_db s))" "upl_id w = i" for w
      using keys_okD(1) [OF store_okD(2) [OF ok] that(1) u(1)] that(2) u(2) by simp
    have up: "uploads d = update_where (\<lambda>r. upl_id r = upl_id u \<and> ?p r) ?f (uploads (st_db s))"
      and fr: "idents d = idents (st_db s)" and dok: "drive_ok lower d"
    proof -
      have "d = (st_db s)\<lparr>uploads := update_where (\<lambda>r. upl_id r = upl_id u \<and> ?p r) ?f (uploads (st_db s))\<rparr>"
      proof (cases "upl_state u = Active \<or> upl_state u = Expired")
        case True
        then show ?thesis using d u(2) update_upload_Inr(1) [of i ?p ?f "st_db s" d] by (auto simp: tsql_def result_simps)
      next
        case False
        then have "update_where (\<lambda>r. upl_id r = upl_id u \<and> ?p r) ?f (uploads (st_db s)) = uploads (st_db s)"
          using same u(2) by (intro update_where_none) auto
        then show ?thesis using False d by simp
      qed
      then show "uploads d = update_where (\<lambda>r. upl_id r = upl_id u \<and> ?p r) ?f (uploads (st_db s))"
        "idents d = idents (st_db s)" "drive_ok lower d"
        using store_okD(1) [OF ok] by (simp_all add: idents_def) (subst drive_ok_frame [of _ "st_db s"], simp_all)
    qed
    have dead: "upload_ok (idents d) staging (?f u)" "upl_state u \<noteq> Active \<Longrightarrow> upload_ok (idents d) staging u" for staging
      using store_okD(4) [OF ok u(1)] live by (auto simp: fr upload_ok_def staged_def upload_row_check_def)
    have 1: "store_ok lower s'" if "st_db s' = d" "vol_ok (st_vol s')"
      "\<And>k. k \<noteq> upl_staging_key u \<Longrightarrow> vol_staging (st_vol s') k = vol_staging (st_vol s) k" for s'
      by (rule store_ok_upload [OF ok u(1), where p = ?p and f = ?f]) (use that up fr dok dead u(3) in auto)
    show ?thesis
    proof (cases "remove_staging_file (upl_staging_key u) (st_vol s)")
      case (Inl e)
      then show ?thesis using Inr a 1 [of "s\<lparr>st_db := d\<rparr>"] store_okD(3) [OF ok] by (simp add: cancel_upload_def)
    next
      case v: (Inr v)
      then have v': "v = (st_vol s)\<lparr>vol_staging := (vol_staging (st_vol s))(upl_staging_key u := None)\<rparr>"
        by (auto simp: remove_staging_file_def result_simps)
      have "store_ok lower (s\<lparr>st_db := d, st_vol := v\<rparr>)" by (rule 1) (use store_okD(3) [OF ok] in \<open>auto simp: v'\<close>)
      from store_ok_cleaned [OF this] show ?thesis using Inr a v by (simp add: cancel_upload_def)
    qed
  qed
qed

section \<open>Finalizing\<close>

lemma add_version_Inr:
  assumes "add_version v f b u now s = Inr s'"
  obtains w s1 where "insert_version w s = Inr s1" and "set_current_version (Some (ver_id w)) (ver_file w) s1 = Inr s'"
    and "w = \<lparr>ver_id = v, ver_file = f, ver_object = b, ver_size_bytes = upl_expected_size u,
        ver_original_modified_at = upl_original_modified_at u, ver_created_at = now\<rparr>"
  using assms by (auto simp: add_version_def tsql_def result_simps)

lemma add_version_write:
  assumes "add_version v f b u now s = Inr s'" and ok: "drive_ok lower s"
    and e: "e \<in> set (entries s)" "ent_id e = f" "ent_owner e = owner"
  shows "drive_write lower owner s s'"
  using assms(1)
proof (rule add_version_Inr)
  fix w s1
  assume a: "insert_version w s = Inr s1" "set_current_version (Some (ver_id w)) (ver_file w) s1 = Inr s'"
    "w = \<lparr>ver_id = v, ver_file = f, ver_object = b, ver_size_bytes = upl_expected_size u,
        ver_original_modified_at = upl_original_modified_at u, ver_created_at = now\<rparr>"
  show ?thesis
    by (rule version_added [OF a(1,2)])
      (use a(3) e distinct_key_unique [OF drive_okD(2) [OF ok] _ e(1)] in auto)
qed

lemma confirm_replace_Inr:
  assumes "confirm_replace_locked owner f u s = Inr r"
  obtains e where "e \<in> set (entries s)" and "ent_id e = f" and "ent_owner e = owner" and "ent_kind e = File"
    and "ent_deleted_at e = None" and "ent_parent e = upl_target_parent u" and "ent_name e = upl_filename u"
  using assms by (auto simp: confirm_replace_locked_def result_simps split: option.splits dest: find_SomeD)

lemma add_content_writes:
  assumes c: "add_content lower env owner u s = Inr (s', f)" and ok: "drive_ok lower s"
  shows "drive_writes lower owner s s'" and "(f, owner, File) \<in> idents s'"
proof -
  have "drive_writes lower owner s s' \<and> (f, owner, File) \<in> idents s'"
  proof (cases "upl_replace_file u")
    case None
    let ?e = "new_entry (fe_file_id env) owner (upl_target_parent u) File (upl_filename u) None (fe_now env)"
    from c None obtain s1 s2 where 1: "insert_entry lower ?e s = Inr s1" "insert_file (ent_id ?e) s1 = Inr s2"
      and 2: "add_version (fe_version_id env) (fe_file_id env) (fe_object_id env) u (fe_now env) s2 = Inr s'"
      and f: "f = fe_file_id env"
      by (auto simp: add_content_def tsql_def new_entry_def result_simps)
    have w: "drive_write lower owner s s2" by (rule file_added [OF 1(1) _ _ 1(2)]) (simp_all add: new_entry_def)
    have e: "?e \<in> set (entries s2)" using insert_entry_Inr(1) [OF 1(1)] 1(2) by (auto simp: insert_file_def result_simps)
    have v: "drive_write lower owner s2 s'"
      by (rule add_version_write [OF 2 drive_write_ok [OF w ok] e]) (simp_all add: new_entry_def)
    have "(f, owner, File) \<in> idents s2" using e by (force simp: idents_def f new_entry_def)
    then show ?thesis
      using w v drive_write_frame [OF v drive_write_ok [OF w ok]] by (meson r_into_rtranclp rtranclp.rtrancl_into_rtrancl subsetD)
  next
    case (Some g)
    from c Some obtain s1 n where 1: "confirm_replace_locked owner g u s = Inr ()"
      and 2: "add_version (fe_version_id env) g (fe_object_id env) u (fe_now env) s = Inr s1"
      and 3: "update_entry lower False (\<lambda>e. ent_owner e = owner) (\<lambda>e. e\<lparr>ent_updated_at := fe_now env\<rparr>) g s1 = Inr (s', n)"
      and f: "f = g"
      by (auto simp: add_content_def tsql_def result_simps)
    from 1 obtain e where e: "e \<in> set (entries s)" "ent_id e = g" "ent_owner e = owner" "ent_kind e = File"
      by (rule confirm_replace_Inr)
    have v: "drive_write lower owner s s1" by (rule add_version_write [OF 2 ok e(1-3)])
    note ok1 = drive_write_ok [OF v ok]
    have id1: "(g, owner, File) \<in> idents s1" using drive_write_frame [OF v ok] e by (force simp: idents_def)
    have isfile: "ent_kind a = File" if "a \<in> set (entries s1)" "ent_id a = g" for a
    proof -
      obtain b where "b \<in> set (entries s1)" "ent_id b = g" "ent_kind b = File" using id1 by (auto simp: idents_def)
      then show ?thesis using distinct_key_unique [OF drive_okD(2) [OF ok1] that(1), of b] that(2) by simp
    qed
    have "ent_system_role a = None" if "a \<in> set (entries s1)" "ent_id a = g" for a
      using isfile [OF that] that(1) ok1 by (auto simp: drive_ok_def tree_ok_def entry_row_check_def)
    then have w: "drive_write lower owner s1 s'"
      by (intro entry_updated [OF 3]) (auto simp: keeps_identity_def)
    then show ?thesis
      using v id1 drive_write_frame [OF w ok1] f by (meson r_into_rtranclp rtranclp.rtrancl_into_rtrancl subsetD)
  qed
  then show "drive_writes lower owner s s'" "(f, owner, File) \<in> idents s'" by simp_all
qed

lemma reserve_content_Inr:
  assumes "reserve_content x c env owner u s = Inr s'"
  obtains s1 s2 f where "insert_object \<lparr>obj_id = fe_object_id env, obj_storage_key = storage_key c (fe_object_id env),
        obj_size_bytes = upl_expected_size u, obj_checksum = None, obj_mime = None, obj_state = Pending,
        obj_created_at = fe_now env, obj_last_checked_at = None\<rparr> s = Inr s1"
    and "add_content (sql_lower x) env owner u s1 = Inr (s2, f)"
    and "s' = s2\<lparr>uploads := update_where (\<lambda>r. upl_id r = upl_id u \<and> upl_owner r = owner \<and> upl_state r = Active)
         (\<lambda>r. r\<lparr>upl_state := Finalizing, upl_object := Some (fe_object_id env), upl_final_file := Some f,
                upl_updated_at := fe_now env\<rparr>) (uploads s2)\<rparr>"
    and "upl_received_size u = upl_expected_size u" and "target_active owner u s = Inr ()"
  using assms by (auto simp: reserve_content_def tsql_def result_simps dest!: update_upload_Inr(1))

lemma reserve_content_ok:
  assumes r: "reserve_content x c env owner u (st_db s) = Inr d" and ok: "store_ok (sql_lower x) s"
    and u: "u \<in> set (uploads (st_db s))" "upl_owner u = owner" "upl_state u = Active"
  shows "store_ok (sql_lower x) (s\<lparr>st_db := d\<rparr>)"
  using r
proof (rule reserve_content_Inr)
  fix s1 s2 f
  assume 1: "insert_object \<lparr>obj_id = fe_object_id env, obj_storage_key = storage_key c (fe_object_id env),
        obj_size_bytes = upl_expected_size u, obj_checksum = None, obj_mime = None, obj_state = Pending,
        obj_created_at = fe_now env, obj_last_checked_at = None\<rparr> (st_db s) = Inr s1"
    and 2: "add_content (sql_lower x) env owner u s1 = Inr (s2, f)"
    and d: "d = s2\<lparr>uploads := update_where (\<lambda>r. upl_id r = upl_id u \<and> upl_owner r = owner \<and> upl_state r = Active)
         (\<lambda>r. r\<lparr>upl_state := Finalizing, upl_object := Some (fe_object_id env), upl_final_file := Some f,
                upl_updated_at := fe_now env\<rparr>) (uploads s2)\<rparr>"
  let ?f = "\<lambda>r. r\<lparr>upl_state := Finalizing, upl_object := Some (fe_object_id env), upl_final_file := Some f, upl_updated_at := fe_now env\<rparr>"
  note ok1 = insert_object_ok [OF 1 store_okD(1) [OF ok]]
  note w = add_content_writes [OF 2 ok1]
  have i1: "uploads s1 = uploads (st_db s)" "idents s1 = idents (st_db s)"
    using insert_object_Inr(1) [OF 1] by (simp_all add: idents_def)
  have i2: "uploads s2 = uploads (st_db s)" "idents (st_db s) \<subseteq> idents s2"
    using drive_writes_frame [OF w(1) ok1] by (simp_all add: i1)
  have ids: "idents d = idents s2" by (simp add: d idents_def)
  have "drive_ok (sql_lower x) d"
    using drive_writes_ok [OF w(1) ok1] by (subst drive_ok_frame [of _ s2]) (simp_all add: d)
  moreover have "upload_ok (idents d) g (?f u)" for g
    using store_okD(4) [OF ok u(1)] w(2) u(2) by (simp add: upload_ok_def staged_def upload_row_check_def ids)
  ultimately show ?thesis
    by (intro store_ok_upload [OF ok u(1), where p = "\<lambda>r. upl_owner r = owner \<and> upl_state r = Active" and f = ?f])
      (use i2 ids d u(2,3) store_okD(3) [OF ok] in auto)
qed

lemma begin_finalize_ok:
  assumes b: "begin_finalize x c env owner i (st_db s) = Inr (d, r)" and ok: "store_ok (sql_lower x) s"
  shows "store_ok (sql_lower x) (s\<lparr>st_db := d\<rparr>)"
proof -
  from b obtain u where f: "fetch_upload owner i (st_db s) = Inr u" and
    "d = st_db s \<or> (upl_state u = Active \<and> reserve_content x c env owner u (st_db s) = Inr d)"
    unfolding begin_finalize_def bindE_Inr_iff
    by (elim exE conjE, rename_tac u, case_tac "upl_state u") (auto simp: result_simps)
  then show ?thesis using ok reserve_content_ok [OF _ ok] fetch_upload_Inr [OF f] by auto
qed

lemma publish_object_ok:
  assumes p: "publish_object x c owner u b s = (s', r)" and ok: "store_ok lower s"
    and u: "\<And>w. w \<in> set (uploads (st_db s)) \<Longrightarrow> upl_staging_key w = upl_staging_key u \<Longrightarrow> upl_state w \<noteq> Active"
  shows "store_ok lower s'" and "st_db s' = st_db s"
proof -
  have "s' = s \<or> (\<exists>key v q. promote_staging_file c (upl_staging_key u) key (st_vol s) = Inr (v, q) \<and> s' = s\<lparr>st_vol := v\<rparr>)"
    using p by (auto simp: publish_object_def tstore_def result_simps split: sum.splits)
  then have "store_ok lower s' \<and> st_db s' = st_db s"
  proof (elim disjE exE conjE)
    fix key v q
    assume pr: "promote_staging_file c (upl_staging_key u) key (st_vol s) = Inr (v, q)" and s': "s' = s\<lparr>st_vol := v\<rparr>"
    note pi = promote_staging_Inr [OF pr]
    have "store_ok lower s'"
      by (rule store_ok_vol [OF ok]) (use pi(3,7) store_okD(3) [OF ok] u in \<open>auto simp: s'\<close>)
    then show ?thesis by (simp add: s')
  qed (use ok in simp_all)
  then show "store_ok lower s'" "st_db s' = st_db s" by simp_all
qed

text \<open>The uploads whose row a rejected upload's withdrawal removes or changes keep the rest in order.\<close>

lemma latest_version_mem: "latest_version vs = Some i \<Longrightarrow> \<exists>v \<in> set vs. ver_id v = i"
  by (auto simp: latest_version_def split: list.splits) (metis filter_is_subset list.set_intros(1) subsetD)

definition upload_kept :: "ident set \<Rightarrow> ident set \<Rightarrow> upload_row \<Rightarrow> upload_row \<Rightarrow> bool" where
  "upload_kept ids ids' u u' \<longleftrightarrow>
     upl_id u' = upl_id u \<and> upl_staging_key u' = upl_staging_key u \<and> upl_state u' = upl_state u \<and> upl_owner u' = upl_owner u
     \<and> upl_received_size u' = upl_received_size u \<and> upl_expected_size u' = upl_expected_size u
     \<and> upl_final_file u' = upl_final_file u \<and> (upl_state u = Finalizing \<longrightarrow> upl_object u' = upl_object u)
     \<and> (upl_object u = None \<longrightarrow> upl_object u' = None)
     \<and> (\<forall>f. upl_final_file u = Some f \<longrightarrow> (f, upl_owner u, File) \<in> ids \<longrightarrow> (f, upl_owner u, File) \<in> ids')"

definition uploads_kept :: "db \<Rightarrow> db \<Rightarrow> bool" where
  "uploads_kept s s' \<longleftrightarrow>
     (\<forall>u' \<in> set (uploads s'). \<exists>u \<in> set (uploads s). upload_kept (idents s) (idents s') u u')
     \<and> (distinct (map upl_id (uploads s)) \<longrightarrow> distinct (map upl_id (uploads s')))
     \<and> (distinct (map upl_staging_key (uploads s)) \<longrightarrow> distinct (map upl_staging_key (uploads s')))"

lemma uploads_kept_refl: "uploads s' = uploads s \<Longrightarrow> idents s \<subseteq> idents s' \<Longrightarrow> uploads_kept s s'"
  unfolding uploads_kept_def upload_kept_def by auto

lemma upload_kept_trans: "upload_kept i j u v \<Longrightarrow> upload_kept j k v w \<Longrightarrow> upload_kept i k u w"
  by (simp add: upload_kept_def)

lemma uploads_kept_trans: "uploads_kept s t \<Longrightarrow> uploads_kept t r \<Longrightarrow> uploads_kept s r"
  unfolding uploads_kept_def by (meson upload_kept_trans)

lemma uploads_kept_ok:
  assumes k: "uploads_kept (st_db s) d" and ok: "store_ok lower s" and d: "drive_ok lower d"
  shows "store_ok lower (s\<lparr>st_db := d\<rparr>)"
proof -
  have "upload_ok (idents d) (vol_staging (st_vol s)) u'" if u': "u' \<in> set (uploads d)" for u'
  proof -
    from k u' obtain u where u: "u \<in> set (uploads (st_db s))" "upload_kept (idents (st_db s)) (idents d) u u'"
      unfolding uploads_kept_def by blast
    show ?thesis
      using store_okD(4) [OF ok u(1)] u(2)
      by (cases "upl_state u") (auto simp: upload_ok_def staged_def upload_row_check_def upload_kept_def)
  qed
  then show ?thesis
    using k d store_okD(2,3) [OF ok] by (simp add: store_ok_def keys_ok_def uploads_kept_def)
qed

lemma uploads_kept_update:
  assumes u: "uploads s' = update_where q g (filter p (uploads s))" and i: "idents s' = idents s"
    and g: "\<And>u. u \<in> set (uploads s) \<Longrightarrow> q u \<Longrightarrow> upload_kept (idents s) (idents s) u (g u)"
    and k: "\<And>u. upl_id (g u) = upl_id u \<and> upl_staging_key (g u) = upl_staging_key u"
  shows "uploads_kept s s'"
proof -
  have "\<exists>u \<in> set (uploads s). upload_kept (idents s) (idents s) u u'" if u': "u' \<in> set (uploads s')" for u'
  proof -
    from u' obtain w where w: "w \<in> set (uploads s)" "u' = (if q w then g w else w)" by (auto simp: u set_update_where)
    then show ?thesis using g [OF w(1)] by (auto simp: upload_kept_def intro!: bexI [OF _ w(1)])
  qed
  then show ?thesis
    using k by (simp add: uploads_kept_def i u map_key_update_where distinct_map_filter_key)
qed

lemma delete_file_kept:
  assumes "delete_file f s = Inr s'"
  shows "uploads_kept s s'"
  using delete_file_Inr(1) [OF assms]
  by (intro uploads_kept_update [where q = "\<lambda>u. upl_replace_file u = Some f" and g = "\<lambda>u. u\<lparr>upl_replace_file := None\<rparr>"
        and p = "\<lambda>u. upl_final_file u \<noteq> Some f"]) (simp_all add: upload_kept_def idents_def)

lemma delete_entry_kept:
  assumes e: "delete_entry i owner s = Inr s'" and f: "\<And>u. u \<in> set (uploads s) \<Longrightarrow> upl_final_file u \<noteq> Some i"
  shows "uploads_kept s s'"
proof (cases "\<exists>a \<in> set (entries s). ent_id a = i \<and> ent_owner a = owner")
  case False
  then have "s' = s" using e by (simp add: delete_entry_def)
  then show ?thesis by (simp add: uploads_kept_refl)
next
  case True
  note d = delete_entry_Inr [OF e this]
  have "upload_kept (idents s) (idents s') u u" if "u \<in> set (uploads s)" for u
    using f [OF that] by (auto simp: upload_kept_def idents_def d(1))
  then show ?thesis by (auto simp: uploads_kept_def d(7))
qed

lemma delete_object_kept:
  assumes e: "delete_object b s = Inr s'"
  shows "uploads_kept s s'"
  using e
proof (cases rule: delete_object_Inr)
  case 1
  then show ?thesis by (simp add: uploads_kept_refl)
next
  case 2
  then show ?thesis
    by (intro uploads_kept_update [where q = "\<lambda>u. upl_object u = Some b" and g = "\<lambda>u. u\<lparr>upl_object := None\<rparr>" and p = "\<lambda>_. True"])
      (auto simp: upload_kept_def idents_def)
qed

lemma withdraw_content_kept:
  assumes w: "withdraw_content owner u f s = Inr s'" and ok: "drive_ok lower s" and f: "(f, owner, File) \<in> idents s"
  shows "uploads_kept s s'" and "drive_ok lower s'"
proof -
  define new where "new = (case find_row fil_id f (files s) of None \<Rightarrow> None | Some r \<Rightarrow> fil_current_version r)"
  have id: "idents (s\<lparr>files := fs\<rparr>) = idents s" "idents (delete_versions q s2) = idents s2" for fs q s2
    by (simp_all add: idents_def)
  have "uploads_kept s s' \<and> drive_ok lower s'"
  proof (cases "upl_replace_file u = None")
    case False
    let ?l = "latest_version (filter (\<lambda>v. ver_file v = f \<and> Some (ver_id v) \<noteq> new) (versions s))"
    from w False obtain s1 where c: "set_current_version ?l f s = Inr s1"
      and s': "s' = s1 \<or> (\<exists>w. s' = delete_versions (\<lambda>v. ver_id v = w \<and> ver_file v = f) s1)"
      by (auto simp: withdraw_content_def new_def [symmetric] tsql_def result_simps Let_def split: option.splits) blast
    have ok1: "drive_ok lower s1"
      by (rule set_current_ok [OF c ok]) (auto dest!: latest_version_mem)
    have "idents s1 = idents s" "uploads s1 = uploads s" using set_current_Inr [OF c] by (simp_all add: idents_def)
    then show ?thesis using s' ok1 delete_versions_ok [OF ok1] by (auto simp: id intro: uploads_kept_refl)
  next
    case True
    show ?thesis
    proof (cases new)
      case None
      then have "s' = s" using w True by (simp add: withdraw_content_def new_def [symmetric] Let_def)
      then show ?thesis using ok by (simp add: uploads_kept_refl)
    next
      case (Some v)
      let ?d = "delete_versions (\<lambda>v. ver_file v = f)"
      from w True Some obtain s1 s2 where c: "set_current_version None f s = Inr s1" and d: "delete_file f (?d s1) = Inr s2"
        and e: "(if (\<exists>e \<in> set (entries s2). ent_id e = f \<and> ent_kind e = File) then tsql (delete_entry f owner s2) else Inr s2) = Inr s'"
        by (simp add: withdraw_content_def new_def [symmetric] Let_def tsql_def bindE_Inr_iff mapErr_Inr_iff del: split_paired_Ex) blast
      have i1: "idents s1 = idents s" "uploads s1 = uploads s" using set_current_Inr [OF c] by (simp_all add: idents_def)
      have ok1: "drive_ok lower s1" by (rule set_current_ok [OF c ok]) simp
      have i2: "entries s2 = entries (?d s1)" "idents s2 = idents s" using delete_file_Inr(1) [OF d] i1 by (simp_all add: idents_def)
      have member: "\<exists>e \<in> set (entries r). ent_id e = f \<and> ent_owner e = owner \<and> ent_kind e = File" if "idents r = idents s" for r
        using f unfolding that [symmetric] by (auto simp: idents_def)
      then have "\<exists>e \<in> set (entries s2). ent_id e = f \<and> ent_kind e = File" using i2(2) by blast
      with e have e': "delete_entry f owner s2 = Inr s'" by (simp add: tsql_def result_simps)
      have "\<exists>e \<in> set (entries (?d s1)). ent_id e = f \<and> ent_owner e = owner" using member [of "?d s1"] i1(1) id(2) by auto
      then have "drive_ok lower s'" using delete_file_entry_ok [OF d e' _ delete_versions_ok [OF ok1]] by blast
      moreover have "uploads_kept s (?d s1)" using i1 by (intro uploads_kept_refl) (simp_all add: id)
      moreover have "uploads_kept s2 s'"
        by (rule delete_entry_kept [OF e']) (use delete_file_Inr(1) [OF d] in \<open>auto simp: set_update_where\<close>)
      ultimately show ?thesis using delete_file_kept [OF d] uploads_kept_trans by blast
    qed
  qed
  then show "uploads_kept s s'" "drive_ok lower s'" by simp_all
qed

lemma reject_ok:
  assumes r: "reject_mismatched_upload c now owner i f b key s = (s', q)" and ok: "store_ok lower s"
  shows "store_ok lower s'"
proof -
  let ?p = "\<lambda>r. upl_owner r = owner \<and> upl_state r = Finalizing"
  have "s' = s \<or> (\<exists>u s1 s2 s3 v. fetch_upload owner i (st_db s) = Inr u \<and> upl_state u = Finalizing \<and> upl_final_file u = Some f
      \<and> update_upload i ?p (\<lambda>r. fails_with r now) (st_db s) = Inr s1 \<and> withdraw_content owner u f s1 = Inr s2
      \<and> delete_object b s2 = Inr s3 \<and> (v = st_vol s \<or> remove_object c key (st_vol s) = Inr v) \<and> s' = s\<lparr>st_db := s3, st_vol := v\<rparr>)"
    using r unfolding reject_mismatched_upload_def
    by (auto simp: tsql_def result_simps split: sum.splits option.splits if_splits)
  then consider "s' = s" | u s1 s2 s3 v where "fetch_upload owner i (st_db s) = Inr u" "upl_state u = Finalizing" "upl_final_file u = Some f"
      "update_upload i ?p (\<lambda>r. fails_with r now) (st_db s) = Inr s1" "withdraw_content owner u f s1 = Inr s2" "delete_object b s2 = Inr s3"
      "v = st_vol s \<or> remove_object c key (st_vol s) = Inr v" "s' = s\<lparr>st_db := s3, st_vol := v\<rparr>"
    by blast
  then show ?thesis
  proof cases
    case (2 u s1 s2 s3 v)
    note u = 2(1-3) and 1 = 2(4) and 3 = 2(6) and v = 2(7) and s' = 2(8) and 2 = 2(5)
    note fu = fetch_upload_Inr [OF u(1)] and up = update_upload_Inr(1) [OF 1]
    have uu: "upload_ok (idents (st_db s)) (vol_staging (st_vol s)) u" using store_okD(4) [OF ok] fu by blast
    have id1: "idents s1 = idents (st_db s)" by (simp add: up idents_def)
    have ok1: "drive_ok lower s1" using store_okD(1) [OF ok] by (subst drive_ok_frame [of _ "st_db s"]) (simp_all add: up)
    have failed: "upload_ok ids staging (fails_with u now)" for ids staging
      using uu by (simp add: upload_ok_def staged_def upload_row_check_def fails_with_def)
    have sok1: "store_ok lower (s\<lparr>st_db := s1\<rparr>)"
      by (rule store_ok_upload [OF ok, of u _ ?p "\<lambda>r. fails_with r now"])
        (use fu up failed ok1 id1 u(2) store_okD(3) [OF ok] in \<open>auto simp: fails_with_def\<close>)
    have "(f, owner, File) \<in> idents s1" using uu u(3) fu by (auto simp: upload_ok_def id1)
    note w = withdraw_content_kept [OF 2 ok1 this]
    have "store_ok lower (s\<lparr>st_db := s3\<rparr>)"
      using uploads_kept_ok [of "s\<lparr>st_db := s1\<rparr>" s3] sok1 uploads_kept_trans [OF w(1) delete_object_kept [OF 3]]
        delete_object_ok [OF 3 w(2)] by simp
    moreover have "vol_ok v" "vol_staging v = vol_staging (st_vol s)"
      using v blobs.remove_inv [OF store_okD(3) [OF ok]] store_okD(3) [OF ok] by (auto elim: remove_object_frame)
    ultimately show ?thesis by (auto simp: s' store_ok_def keys_ok_def)
  qed (use ok in simp)
qed

lemma commit_finalize_ok:
  assumes r: "commit_finalize now owner i f b checksum mime (st_db s) = Inr (d, q)" and ok: "store_ok lower s"
  shows "store_ok lower (s\<lparr>st_db := d\<rparr>)"
proof -
  let ?p = "\<lambda>r. upl_owner r = owner \<and> upl_state r = Finalizing"
  let ?g = "\<lambda>r. r\<lparr>upl_state := Completed, upl_updated_at := now\<rparr>"
  let ?h = "\<lambda>r. r\<lparr>obj_checksum := Some checksum, obj_mime := mime, obj_state := Ready\<rparr>"
  let ?os = "update_where (\<lambda>r. obj_id r = b \<and> (obj_state r = Pending \<or> obj_state r = Ready)) ?h (objects (st_db s))"
  have "d = st_db s \<or> (\<exists>u s2 s3. fetch_upload owner i (st_db s) = Inr u \<and> upl_state u = Finalizing \<and> upl_final_file u = Some f
      \<and> update_upload i ?p ?g ((st_db s)\<lparr>objects := ?os\<rparr>) = Inr s2
      \<and> (s3 = s2 \<or> (\<exists>w. s3 = enqueue_media_index_jobs w mime s2)) \<and> d = add_audit ''upload_completed'' (Some owner) (Some f) s3)"
    using r unfolding commit_finalize_def by (auto simp: tsql_def result_simps Let_def split: if_splits)
  then consider "d = st_db s" | u s2 s3 where "fetch_upload owner i (st_db s) = Inr u" "upl_state u = Finalizing"
      "upl_final_file u = Some f" "update_upload i ?p ?g ((st_db s)\<lparr>objects := ?os\<rparr>) = Inr s2"
      "s3 = s2 \<or> (\<exists>w. s3 = enqueue_media_index_jobs w mime s2)" "d = add_audit ''upload_completed'' (Some owner) (Some f) s3"
    by blast
  then show ?thesis
  proof cases
    case (2 u s2 s3)
    note u = 2(1-3) and 1 = 2(4) and d = 2(6) and 2 = 2(5)
    note fu = fetch_upload_Inr [OF u(1)] and up = update_upload_Inr(1) [OF 1]
    have "entries s3 = entries s2" "users s3 = users s2" "folders s3 = folders s2" "files s3 = files s2"
      "versions s3 = versions s2" "objects s3 = objects s2" "uploads s3 = uploads s2"
      using 2 by auto
    then have s3: "entries s3 = entries (st_db s)" "users s3 = users (st_db s)" "folders s3 = folders (st_db s)" "files s3 = files (st_db s)"
      "versions s3 = versions (st_db s)" "objects s3 = ?os" "uploads s3 = update_where (\<lambda>r. upl_id r = i \<and> ?p r) ?g (uploads (st_db s))"
      unfolding up by simp_all
    have objs: "obj_id ` set ?os = obj_id ` set (objects (st_db s))" by (rule image_key_update_where) simp
    have "ver_object ` set (versions (st_db s)) \<subseteq> obj_id ` set (objects (st_db s))"
      using store_okD(1) [OF ok] by (simp add: drive_ok_def rows_ok_def)
    then have "drive_ok lower s3"
      by (intro drive_ok_objects [OF store_okD(1) [OF ok] s3(1-5)]) (simp only: s3(6) objs)
    moreover have "upload_ok (idents (st_db s)) staging (?g u)" for staging
      using store_okD(4) [OF ok, of u] fu u(2,3) by (auto simp: upload_ok_def staged_def upload_row_check_def)
    moreover have "idents d = idents (st_db s)" "uploads d = uploads s3" by (simp_all add: d idents_def add_audit_def s3(1))
    ultimately show ?thesis
      by (intro store_ok_upload [OF ok, of u _ ?p ?g]) (use fu s3(7) u(2) store_okD(3) [OF ok] d in auto)
  qed (use ok in simp)
qed

lemma begin_finalize_Inr:
  assumes "begin_finalize x c env owner i s = Inr (d, Inr u)"
  shows "u \<in> set (uploads s)" and "upl_id u = i" and "upl_owner u = owner"
    and "upl_state u = Active \<and> reserve_content x c env owner u s = Inr d \<or> upl_state u = Finalizing \<and> d = s"
proof -
  from assms have f: "fetch_upload owner i s = Inr u" and
    "upl_state u = Active \<and> reserve_content x c env owner u s = Inr d \<or> upl_state u = Finalizing \<and> d = s"
    unfolding begin_finalize_def bindE_Inr_iff
    by - (elim exE conjE, rename_tac w, case_tac "upl_state w"; auto simp: result_simps)+
  then show "u \<in> set (uploads s)" "upl_id u = i" "upl_owner u = owner"
    "upl_state u = Active \<and> reserve_content x c env owner u s = Inr d \<or> upl_state u = Finalizing \<and> d = s"
    using fetch_upload_Inr [OF f] by auto
qed

lemma reserved_row:
  assumes r: "reserve_content x c env owner u s = Inr d" and ok: "drive_ok (sql_lower x) s"
  obtains f where "uploads d = update_where (\<lambda>r. upl_id r = upl_id u \<and> upl_owner r = owner \<and> upl_state r = Active)
         (\<lambda>r. r\<lparr>upl_state := Finalizing, upl_object := Some (fe_object_id env), upl_final_file := Some f,
                upl_updated_at := fe_now env\<rparr>) (uploads s)"
  using r
proof (rule reserve_content_Inr)
  fix s1 s2 f
  assume 1: "insert_object \<lparr>obj_id = fe_object_id env, obj_storage_key = storage_key c (fe_object_id env),
        obj_size_bytes = upl_expected_size u, obj_checksum = None, obj_mime = None, obj_state = Pending,
        obj_created_at = fe_now env, obj_last_checked_at = None\<rparr> s = Inr s1"
    and 2: "add_content (sql_lower x) env owner u s1 = Inr (s2, f)"
    and d: "d = s2\<lparr>uploads := update_where (\<lambda>r. upl_id r = upl_id u \<and> upl_owner r = owner \<and> upl_state r = Active)
         (\<lambda>r. r\<lparr>upl_state := Finalizing, upl_object := Some (fe_object_id env), upl_final_file := Some f,
                upl_updated_at := fe_now env\<rparr>) (uploads s2)\<rparr>"
  note ok1 = insert_object_ok [OF 1 ok]
  have "uploads s2 = uploads s"
    using drive_writes_frame [OF add_content_writes(1) [OF 2 ok1] ok1] insert_object_Inr(1) [OF 1] by simp
  then show thesis using that d by simp
qed

text \<open>After the first transaction no active upload shares the staging file.\<close>

lemma begin_finalize_inactive:
  assumes b: "begin_finalize x c env owner i (st_db s) = Inr (d, Inr u)" and ok: "store_ok (sql_lower x) s"
    and w: "w \<in> set (uploads d)" "upl_staging_key w = upl_staging_key u"
  shows "upl_state w \<noteq> Active"
proof -
  note bi = begin_finalize_Inr [OF b]
  note same = keys_okD(2) [OF store_okD(2) [OF ok] _ bi(1)]
  from bi(4) show ?thesis
  proof (elim disjE conjE)
    assume a: "upl_state u = Active" and r: "reserve_content x c env owner u (st_db s) = Inr d"
    obtain f where "uploads d = update_where (\<lambda>r. upl_id r = upl_id u \<and> upl_owner r = owner \<and> upl_state r = Active)
         (\<lambda>r. r\<lparr>upl_state := Finalizing, upl_object := Some (fe_object_id env), upl_final_file := Some f,
                upl_updated_at := fe_now env\<rparr>) (uploads (st_db s))"
      using r store_okD(1) [OF ok] by (rule reserved_row)
    then show ?thesis using w same bi(3) by (auto simp: set_update_where split: if_splits)
  next
    assume f: "upl_state u = Finalizing" and "d = st_db s"
    then have "w = u" using w same by blast
    then show ?thesis using f by simp
  qed
qed

lemma finalize_upload_ok:
  assumes ok: "store_ok (sql_lower x) s"
  shows "store_ok (sql_lower x) (fst (finalize_upload x st c env user hs i s))"
proof (cases "bindE (tdrive (require_request_csrf x hs user st)) (\<lambda>_. begin_finalize x c env (au_id user) i (st_db s))")
  case (Inl e)
  then show ?thesis using ok by (simp add: finalize_upload_def)
next
  case (Inr a)
  obtain d r where a: "a = (d, r)" by (cases a)
  from Inr a have b: "begin_finalize x c env (au_id user) i (st_db s) = Inr (d, r)" by (auto simp: result_simps)
  note ok1 = begin_finalize_ok [OF b ok]
  show ?thesis
  proof (cases r)
    case (Inl f)
    then show ?thesis using Inr a ok by (simp add: finalize_upload_def)
  next
    case u: (Inr u)
    note inact = begin_finalize_inactive [OF b [unfolded u] ok]
    have "store_ok (sql_lower x) (fst (complete_finalize x c env (au_id user) hs u (s\<lparr>st_db := d\<rparr>)))"
    proof (cases "finalize_ids (au_id user) u d")
      case ids: (Inr fb)
      obtain f b where fb: "fb = (f, b)" by (cases fb)
      obtain s1 q where p: "publish_object x c (au_id user) u b (s\<lparr>st_db := d\<rparr>) = (s1, q)"
        by (cases "publish_object x c (au_id user) u b (s\<lparr>st_db := d\<rparr>)")
      have ok2: "store_ok (sql_lower x) s1" by (rule publish_object_ok(1) [OF p ok1]) (use inact in auto)
      then show ?thesis
        using ids fb p
        by (auto simp: complete_finalize_def split: sum.splits prod.splits intro: reject_ok commit_finalize_ok)
    qed (use ok1 in \<open>simp add: complete_finalize_def\<close>)
    then show ?thesis using Inr a u by (simp add: finalize_upload_def)
  qed
qed

section \<open>Requests\<close>

datatype store_event =
    DriveRequest drive_event
  | CreateUpload create_env auth_user headers create_request
  | CreatePhotoUpload create_env "uuid list" auth_user headers create_request
  | PatchUpload patch_env auth_user headers uuid "frame list"
  | FinalizeUpload finalize_env auth_user headers uuid
  | CancelUpload instant auth_user headers uuid

record service =
  sv_externals :: externals
  sv_auth :: auth_settings
  sv_storage :: local_storage
  sv_transfers :: transfer_settings
  sv_uuid :: uuid_crate
  sv_collate :: "ustr \<Rightarrow> int"

fun store_step :: "service \<Rightarrow> store_event \<Rightarrow> store \<Rightarrow> store" where
  "store_step v (DriveRequest e) s = s\<lparr>st_db := drive_step (sv_externals v) (sv_auth v) (sv_collate v) e (st_db s)\<rparr>"
| "store_step v (CreateUpload env u hs r) s =
     fst (create_upload (sv_externals v) (sv_auth v) (sv_storage v) (sv_transfers v) env u hs r s)"
| "store_step v (CreatePhotoUpload env tries u hs r) s =
     fst (create_photo_upload (sv_externals v) (sv_auth v) (sv_storage v) (sv_transfers v) env tries u hs r s)"
| "store_step v (PatchUpload env u hs i body) s =
     fst (patch_upload (sv_externals v) (sv_auth v) (sv_storage v) env u hs i body s)"
| "store_step v (FinalizeUpload env u hs i) s =
     fst (finalize_upload (sv_externals v) (sv_auth v) (sv_uuid v) env u hs i s)"
| "store_step v (CancelUpload now u hs i) s = fst (cancel_upload (sv_externals v) (sv_auth v) now u hs i s)"

lemma store_step_ok:
  assumes ok: "store_ok (sql_lower (sv_externals v)) s"
  shows "store_ok (sql_lower (sv_externals v)) (store_step v e s)"
proof (cases e)
  case (DriveRequest d)
  then show ?thesis
    using drive_writes_store [OF drive_step_writes [OF store_okD(1) [OF ok]] ok] by simp
next
  case (PatchUpload env u hs i body)
  obtain s' r where "patch_upload (sv_externals v) (sv_auth v) (sv_storage v) env u hs i body s = (s', r)"
    by (cases "patch_upload (sv_externals v) (sv_auth v) (sv_storage v) env u hs i body s")
  then show ?thesis using patch_upload_ok [OF _ ok] PatchUpload by simp
qed (use ok in \<open>simp_all add: create_upload_ok create_photo_upload_ok finalize_upload_ok cancel_upload_ok\<close>)

interpretation transfers: invariant_system "store_step v" "store_ok (sql_lower (sv_externals v))" for v
  by unfold_locales (rule store_step_ok)

definition empty_store :: "user_row list \<Rightarrow> storage_error + unit \<Rightarrow> (string list \<Rightarrow> dir_node option) \<Rightarrow> store" where
  "empty_store us m dirs = \<lparr>st_db = empty_db\<lparr>users := us\<rparr>,
     st_vol = \<lparr>vol_mounted = m, vol_staging = (\<lambda>_. None), vol_dirs = dirs, vol_objects = (\<lambda>_. None)\<rparr>\<rparr>"

lemma empty_store_ok: "store_ok lower (empty_store us m dirs)"
  using drive_ok_empty [of lower us] by (simp add: store_ok_def empty_store_def keys_ok_def vol_ok_def empty_db_def)

text \<open>
  Whatever drive and upload requests a service that starts with an empty volume has
  served, in any order, with any arguments and any failure of the disk or of a database
  statement inside an append, the database and the volume agree: the drive invariant holds,
  uploads have different identifiers and staging files, the staging file of an active upload
  holds at least the acknowledged bytes and exactly them once all are received, an upload
  that is finalizing or completed names a file of its own account, and object files have
  their shard directories.
\<close>

lemma store_invariant:
  "store_ok (sql_lower (sv_externals v)) (fold (store_step v) es (empty_store us m dirs))"
  by (rule transfers.run_inv [OF empty_store_ok])

end
