(* ===== verification/Uploads_Results.thy ===== *)
theory Uploads_Results
  imports Uploads_Invariant
begin

text \<open>
  What a successful finalization leaves behind, that it can be repeated after a crash, and
  what an admitted upload means for the quota of its account.
\<close>

section \<open>The reserved rows\<close>

lemma find_row_new:
  "key r \<notin> key ` set rows \<Longrightarrow> find_row key (key r) (rows @ [r]) = Some r"
  by (simp add: find_row_append find_row_None [THEN iffD2]) (simp add: find_row_def)

definition upload_version :: "uuid \<Rightarrow> uuid \<Rightarrow> uuid \<Rightarrow> upload_row \<Rightarrow> instant \<Rightarrow> version_row" where
  "upload_version v f b u now = \<lparr>ver_id = v, ver_file = f, ver_object = b, ver_size_bytes = upl_expected_size u,
     ver_original_modified_at = upl_original_modified_at u, ver_created_at = now\<rparr>"

lemma add_version_current:
  assumes "add_version v f b u now s = Inr s'"
  shows "current_version s' f = Some (upload_version v f b u now) \<and> objects s' = objects s"
  using assms
proof (rule add_version_Inr)
  fix w s1
  assume a: "insert_version w s = Inr s1" "set_current_version (Some (ver_id w)) (ver_file w) s1 = Inr s'"
    and w: "w = \<lparr>ver_id = v, ver_file = f, ver_object = b, ver_size_bytes = upl_expected_size u,
        ver_original_modified_at = upl_original_modified_at u, ver_created_at = now\<rparr>"
  note i = insert_version_Inr [OF a(1)] and c = set_current_Inr [OF a(2)]
  have f: "ver_file w = f" "ver_id w = v" by (simp_all add: w)
  obtain r where r: "find_row fil_id f (files s) = Some r"
    using i(3) find_row_None [of fil_id f "files s"] f by (cases "find_row fil_id f (files s)") auto
  have "find_row fil_id f (files s') = Some (r\<lparr>fil_current_version := Some v\<rparr>)"
    using r find_row_Some [OF r] by (simp add: c i(1) f find_row_update_where)
  moreover have "find_row ver_id v (versions s') = Some w"
    using find_row_new [of ver_id w "versions s"] i(2) f by (simp add: c i(1))
  ultimately show ?thesis by (simp add: current_version_def w upload_version_def c i(1))
qed

lemma add_content_current:
  assumes "add_content lower env owner u s = Inr (s', f)"
  shows "current_version s' f = Some (upload_version (fe_version_id env) f (fe_object_id env) u (fe_now env)) \<and> objects s' = objects s"
proof (cases "upl_replace_file u")
  case None
  with assms obtain s1 s2 where "insert_entry lower (new_entry (fe_file_id env) owner (upl_target_parent u) File
      (upl_filename u) None (fe_now env)) s = Inr s1" "insert_file (fe_file_id env) s1 = Inr s2"
    and v: "add_version (fe_version_id env) (fe_file_id env) (fe_object_id env) u (fe_now env) s2 = Inr s'"
    and f: "f = fe_file_id env"
    by (auto simp: add_content_def tsql_def result_simps)
  then have "objects s2 = objects s" by (auto simp: insert_file_def result_simps dest: insert_entry_Inr(1))
  then show ?thesis using add_version_current [OF v] by (simp add: f)
next
  case (Some g)
  with assms obtain s1 n where v: "add_version (fe_version_id env) g (fe_object_id env) u (fe_now env) s = Inr s1"
    and e: "update_entry lower False (\<lambda>e. ent_owner e = owner) (\<lambda>e. e\<lparr>ent_updated_at := fe_now env\<rparr>) g s1 = Inr (s', n)"
    and f: "f = g"
    by (auto simp: add_content_def tsql_def result_simps)
  from e have "files s' = files s1 \<and> versions s' = versions s1 \<and> objects s' = objects s1" by (cases rule: update_entry_Inr) simp_all
  then show ?thesis using add_version_current [OF v] current_version_frame [of s' s1 g] by (simp add: f)
qed

text \<open>What the first transaction of a finalization leaves for the rest of it.\<close>

definition reserved :: "uuid_crate \<Rightarrow> upload_row \<Rightarrow> uuid \<Rightarrow> uuid \<Rightarrow> db \<Rightarrow> bool" where
  "reserved c u f b s \<longleftrightarrow>
     (\<exists>w \<in> set (uploads s). upl_id w = upl_id u \<and> upl_owner w = upl_owner u \<and> upl_staging_key w = upl_staging_key u
        \<and> upl_target_parent w = upl_target_parent u \<and> upl_state w = Finalizing \<and> upl_final_file w = Some f \<and> upl_object w = Some b)
     \<and> (\<exists>v. current_version s f = Some v \<and> ver_object v = b \<and> ver_size_bytes v = upl_expected_size u)
     \<and> (\<exists>r. find_row obj_id b (objects s) = Some r \<and> obj_storage_key r = storage_key c b
        \<and> obj_size_bytes r = upl_expected_size u \<and> obj_state r = Pending)
     \<and> (\<exists>e \<in> set (entries s). ent_id e = f \<and> ent_owner e = upl_owner u \<and> ent_parent e = upl_target_parent u \<and> ent_deleted_at e = None)"

lemma add_version_entries: "add_version v f b u now s = Inr s' \<Longrightarrow> entries s' = entries s"
  by (auto elim!: add_version_Inr dest!: insert_version_Inr(1) set_current_Inr)

lemma add_content_entry:
  assumes "add_content lower env owner u s = Inr (s', f)" and ok: "drive_ok lower s"
  shows "\<exists>e \<in> set (entries s'). ent_id e = f \<and> ent_owner e = owner \<and> ent_parent e = upl_target_parent u \<and> ent_deleted_at e = None"
proof (cases "upl_replace_file u")
  case None
  with assms(1) obtain s1 s2 where i: "insert_entry lower (new_entry (fe_file_id env) owner (upl_target_parent u) File
      (upl_filename u) None (fe_now env)) s = Inr s1" and f: "insert_file (fe_file_id env) s1 = Inr s2" "f = fe_file_id env"
    and v: "add_version (fe_version_id env) (fe_file_id env) (fe_object_id env) u (fe_now env) s2 = Inr s'"
    by (auto simp: add_content_def tsql_def result_simps)
  have "entries s2 = entries s1" using f(1) by (auto simp: insert_file_def result_simps)
  then show ?thesis
    using insert_entry_Inr(1) [OF i] add_version_entries [OF v] f(2) by (simp add: new_entry_def)
next
  case (Some g)
  with assms(1) obtain s1 n where c: "confirm_replace_locked owner g u s = Inr ()"
    and v: "add_version (fe_version_id env) g (fe_object_id env) u (fe_now env) s = Inr s1"
    and e: "update_entry lower False (\<lambda>e. ent_owner e = owner) (\<lambda>e. e\<lparr>ent_updated_at := fe_now env\<rparr>) g s1 = Inr (s', n)"
    and f: "f = g"
    by (auto simp: add_content_def tsql_def result_simps)
  from c obtain a where a: "find (\<lambda>e. ent_id e = g \<and> ent_owner e = owner \<and> ent_kind e = File \<and> ent_deleted_at e = None) (entries s) = Some a"
    and ap: "ent_parent a = upl_target_parent u" by (auto simp: confirm_replace_locked_def result_simps split: option.splits)
  note a' = find_SomeD [OF a]
  note es = add_version_entries [OF v]
  show ?thesis
    using e
  proof (cases rule: update_entry_Inr)
    case 1
    then show ?thesis using a' ap by (auto simp: f es)
  next
    case (2 old)
    have "old = a" using distinct_key_unique [OF drive_okD(2) [OF ok]] a' 2(2,3) es by auto
    then have "a\<lparr>ent_updated_at := fe_now env\<rparr> \<in> set (entries s')"
      using 2(2,3) a' by (auto simp: 2(5) set_update_where image_iff)
    then show ?thesis using a' ap by (intro bexI [where x = "a\<lparr>ent_updated_at := fe_now env\<rparr>"]) (simp_all add: f)
  qed
qed

lemma reserve_content_reserved:
  assumes r: "reserve_content x c env owner u s = Inr d" and ok: "drive_ok (sql_lower x) s"
    and u: "u \<in> set (uploads s)" "upl_owner u = owner" "upl_state u = Active"
  obtains f where "reserved c u f (fe_object_id env) d"
  using r
proof (rule reserve_content_Inr)
  fix s1 s2 f
  let ?b = "\<lparr>obj_id = fe_object_id env, obj_storage_key = storage_key c (fe_object_id env),
        obj_size_bytes = upl_expected_size u, obj_checksum = None, obj_mime = None, obj_state = Pending,
        obj_created_at = fe_now env, obj_last_checked_at = None\<rparr>"
  assume 1: "insert_object ?b s = Inr s1"
    and 2: "add_content (sql_lower x) env owner u s1 = Inr (s2, f)"
    and d: "d = s2\<lparr>uploads := update_where (\<lambda>r. upl_id r = upl_id u \<and> upl_owner r = owner \<and> upl_state r = Active)
         (\<lambda>r. r\<lparr>upl_state := Finalizing, upl_object := Some (fe_object_id env), upl_final_file := Some f,
                upl_updated_at := fe_now env\<rparr>) (uploads s2)\<rparr>"
  note ok1 = insert_object_ok [OF 1 ok] and ac = add_content_current [OF 2]
  have "uploads s2 = uploads s"
    using drive_writes_frame [OF add_content_writes(1) [OF 2 ok1] ok1] insert_object_Inr(1) [OF 1] by simp
  then have "u\<lparr>upl_state := Finalizing, upl_object := Some (fe_object_id env), upl_final_file := Some f,
                upl_updated_at := fe_now env\<rparr> \<in> set (uploads d)"
    using u by (simp add: d set_update_where image_iff) blast
  moreover have "find_row obj_id (fe_object_id env) (objects d) = Some ?b"
    using find_row_new [of obj_id ?b "objects s"] insert_object_Inr(1,2) [OF 1] ac by (simp add: d)
  moreover have "current_version d f = current_version s2 f" by (rule current_version_frame) (simp_all add: d)
  ultimately have "reserved c u f (fe_object_id env) d"
    using ac unfolding reserved_def
    by (intro conjI bexI [where x = "u\<lparr>upl_state := Finalizing, upl_object := Some (fe_object_id env), upl_final_file := Some f,
                upl_updated_at := fe_now env\<rparr>"]) (use add_content_entry [OF 2 ok1] in \<open>auto simp: upload_version_def u(2) d\<close>)
  then show thesis by (rule that)
qed

section \<open>Publishing\<close>

lemma ensure_existing:
  assumes p: "object_path c key = Inr p" and d: "vol_dirs v [] = Some Directory" "vol_dirs v (take 1 p) = Some Directory"
    "vol_dirs v (take 2 p) = Some Directory"
  shows "ensure_object_parent c key m v = Inr v"
proof -
  obtain a b e where "p = [a, b, e]" using p by (rule object_path_Inr) blast
  then show ?thesis using p d by (simp add: ensure_object_parent_def)
qed

lemma object_at_open:
  assumes "object_at c key v = Some d" and "vol_ok v" and "vol_mounted v = Inr ()"
  shows "open_object c key v = Inr d"
proof -
  from assms(1) obtain p where p: "object_path c key = Inr p" "vol_objects v p = Some (Regular d)"
    by (auto simp: object_at_def split: sum.splits option.splits node.splits)
  have "ensure_object_parent c key False v = Inr v"
    using assms(2) p(2) unfolding vol_ok_def by (intro ensure_existing [OF p(1)]) blast+
  then show ?thesis using p assms(3) by (simp add: open_object_def)
qed

lemma promote_repeat:
  assumes p: "promote_staging_file c k key v = Inr (v', q)"
  shows "promote_staging_file c k key v' = Inr (v', q)"
proof -
  note pi = promote_staging_Inr [OF p]
  from p obtain v1 where e: "ensure_object_parent c key True v = Inr v1" and d: "vol_dirs v' = vol_dirs v1"
    and m: "vol_mounted v = Inr ()"
    by (auto simp: promote_staging_file_def result_simps split: option.splits)
  have "ensure_object_parent c key True v' = Inr v'"
    using ensure_parent_Inr(5) [OF e pi(1)] unfolding d [symmetric] by (intro ensure_existing [OF pi(1)]) simp_all
  moreover have "vol_objects v' q \<noteq> None" using pi(4,5) by (auto split: option.splits)
  ultimately show ?thesis using pi(1-3) m by (auto simp: promote_staging_file_def)
qed

lemma publish_object_Inr:
  assumes "publish_object x c owner u b s = (s', Inr (row, checksum, mime))"
  obtains v q d where "find_row obj_id b (objects (st_db s)) = Some row"
    and "promote_staging_file c (upl_staging_key u) (obj_storage_key row) (st_vol s) = Inr (v, q)" and "s' = s\<lparr>st_vol := v\<rparr>"
    and "vol_objects v q = Some (Regular d)" and "checksum = hex_digest (sha256 x d)" and "mime = sniff_media_type (take 512 d)"
    and "int (length d) = obj_size_bytes row" and "target_active owner u (st_db s) = Inr ()"
  using assms
  by (auto simp: publish_object_def tstore_def result_simps hash_file_def read_path_def
      split: sum.splits option.splits node.splits if_splits)

text \<open>A second run of the publication finds everything in place.\<close>

lemma publish_repeat:
  assumes "publish_object x c owner u b s = (s', Inr r)"
  shows "publish_object x c owner u b s' = (s', Inr r)"
proof -
  obtain row checksum mime where r: "r = (row, checksum, mime)" by (cases r)
  show ?thesis
    using assms unfolding r
  proof (rule publish_object_Inr)
    fix v q d
    assume a: "find_row obj_id b (objects (st_db s)) = Some row" and s': "s' = s\<lparr>st_vol := v\<rparr>"
      and p: "promote_staging_file c (upl_staging_key u) (obj_storage_key row) (st_vol s) = Inr (v, q)"
      and t: "target_active owner u (st_db s) = Inr ()"
    have "publish_object x c owner u b s = (s\<lparr>st_vol := v\<rparr>, Inr (row, checksum, mime))" using assms r s' by simp
    then show "publish_object x c owner u b s' = (s', Inr (row, checksum, mime))"
      using a t p promote_repeat [OF p] by (simp add: publish_object_def s' tstore_def)
  qed
qed

lemma commit_finalize_Inr:
  assumes r: "commit_finalize now owner i f b checksum mime s = Inr (d, q)" and f: "fetch_upload owner i s = Inr u"
    and u: "upl_state u = Finalizing"
  shows "current_version d g = current_version s g"
    and "find_row obj_id b (objects s) = Some row \<Longrightarrow> obj_state row = Pending \<or> obj_state row = Ready \<Longrightarrow>
      find_row obj_id b (objects d) = Some (row\<lparr>obj_checksum := Some checksum, obj_mime := mime, obj_state := Ready\<rparr>)"
    and "uploads d = update_where (\<lambda>r. upl_id r = i \<and> upl_owner r = owner \<and> upl_state r = Finalizing)
             (\<lambda>r. r\<lparr>upl_state := Completed, upl_updated_at := now\<rparr>) (uploads s)"
    and "uf_file q = f" and "uf_checksum q = Some checksum" and "entries d = entries s"
    and "uf_version q = (case find_row fil_id f (files s) of None \<Rightarrow> None | Some r \<Rightarrow> fil_current_version r)"
proof -
  let ?os = "update_where (\<lambda>r. obj_id r = b \<and> (obj_state r = Pending \<or> obj_state r = Ready))
     (\<lambda>r. r\<lparr>obj_checksum := Some checksum, obj_mime := mime, obj_state := Ready\<rparr>) (objects s)"
  from r f u obtain s2 s3 where 1: "update_upload i (\<lambda>r. upl_owner r = owner \<and> upl_state r = Finalizing)
             (\<lambda>r. r\<lparr>upl_state := Completed, upl_updated_at := now\<rparr>) (s\<lparr>objects := ?os\<rparr>) = Inr s2"
      and 2: "s3 = s2 \<or> (\<exists>w. s3 = enqueue_media_index_jobs w mime s2)" and d: "d = add_audit ''upload_completed'' (Some owner) (Some f) s3"
      and q: "q = completed_upload f (case find_row fil_id f (files d) of None \<Rightarrow> None | Some r \<Rightarrow> fil_current_version r) (Some checksum)"
    unfolding commit_finalize_def by (auto simp: tsql_def result_simps Let_def split: if_splits)
  note up = update_upload_Inr(1) [OF 1]
  have "files s3 = files s2" "versions s3 = versions s2" "objects s3 = objects s2" "uploads s3 = uploads s2" "entries s3 = entries s2"
    using 2 by auto
  then have d': "files d = files s" "versions d = versions s" "objects d = ?os" "entries d = entries s"
    "uploads d = update_where (\<lambda>r. upl_id r = i \<and> upl_owner r = owner \<and> upl_state r = Finalizing)
             (\<lambda>r. r\<lparr>upl_state := Completed, upl_updated_at := now\<rparr>) (uploads s)"
    unfolding d up add_audit_def by simp_all
  show "current_version d g = current_version s g" using d'(1,2) by (rule current_version_frame)
  show "find_row obj_id b (objects d) = Some (row\<lparr>obj_checksum := Some checksum, obj_mime := mime, obj_state := Ready\<rparr>)"
    if "find_row obj_id b (objects s) = Some row" "obj_state row = Pending \<or> obj_state row = Ready"
    using that find_row_Some [OF that(1)] by (simp add: d'(3) find_row_update_where)
  show "uploads d = update_where (\<lambda>r. upl_id r = i \<and> upl_owner r = owner \<and> upl_state r = Finalizing)
             (\<lambda>r. r\<lparr>upl_state := Completed, upl_updated_at := now\<rparr>) (uploads s)" by (rule d'(5))
  show "uf_file q = f" "uf_checksum q = Some checksum" by (simp_all add: q completed_upload_def)
  show "entries d = entries s" by (rule d'(4))
  show "uf_version q = (case find_row fil_id f (files s) of None \<Rightarrow> None | Some r \<Rightarrow> fil_current_version r)"
    by (simp add: q completed_upload_def d'(1))
qed

section \<open>Finalizing an upload\<close>

text \<open>The run of a successful finalization of an active upload.\<close>

lemma finalize_run:
  assumes ok: "store_ok (sql_lower x) s" and fin: "finalize_upload x st c env user hs i s = (s', Inr r)"
    and u: "fetch_upload (au_id user) i (st_db s) = Inr u" "upl_state u = Active"
  obtains d1 f b row checksum mime s1 d2 where "reserve_content x c env (au_id user) u (st_db s) = Inr d1"
    and "reserved c u f b d1" and "publish_object x c (au_id user) u b (s\<lparr>st_db := d1\<rparr>) = (s1, Inr (row, checksum, mime))"
    and "commit_finalize (fe_now env) (au_id user) i f b checksum mime d1 = Inr (d2, r)" and "s' = s1\<lparr>st_db := d2\<rparr>"
    and "declared_checksum hs = Inr None \<or> declared_checksum hs = Inr (Some checksum)"
    and "tdrive (require_request_csrf x hs user st) = Inr ()"
proof -
  note fu = fetch_upload_Inr [OF u(1)]
  from fin u obtain d1 where csrf: "tdrive (require_request_csrf x hs user st) = Inr ()"
    and rc: "reserve_content x c env (au_id user) u (st_db s) = Inr d1"
    and cf: "complete_finalize x c env (au_id user) hs u (s\<lparr>st_db := d1\<rparr>) = (s', Inr r)"
    by (auto simp: finalize_upload_def begin_finalize_def result_simps split: sum.splits)
  obtain f where res: "reserved c u f (fe_object_id env) d1"
    using rc store_okD(1) [OF ok] by (rule reserve_content_reserved) (use fu u(2) in auto)
  have keys: "keys_ok (s\<lparr>st_db := d1\<rparr>)"
    using store_okD(2) [OF reserve_content_ok [OF rc ok]] fu u(2) by auto
  from res obtain w where w: "w \<in> set (uploads d1)" "upl_id w = i" "upl_owner w = au_id user" "upl_final_file w = Some f"
    "upl_object w = Some (fe_object_id env)" using fu by (auto simp: reserved_def)
  have "fetch_upload (au_id user) i d1 = Inr w"
    using w keys by (subst fetch_upload_iff) (simp_all add: keys_ok_def)
  moreover have "upl_final_file u = None" "upl_object u = None"
    using store_okD(4) [OF ok] fu u(2) by (auto simp: upload_ok_def)
  ultimately have ids: "finalize_ids (au_id user) u d1 = Inr (f, fe_object_id env)"
    using u(2) w fu by (auto simp: finalize_ids_def fetch_upload_def result_simps)
  obtain s1 q where p: "publish_object x c (au_id user) u (fe_object_id env) (s\<lparr>st_db := d1\<rparr>) = (s1, q)"
    by (cases "publish_object x c (au_id user) u (fe_object_id env) (s\<lparr>st_db := d1\<rparr>)")
  with cf ids obtain row checksum mime where q: "q = Inr (row, checksum, mime)"
    by (cases q) (auto simp: complete_finalize_def)
  have "st_db s1 = d1" using p q by (auto elim: publish_object_Inr)
  then show thesis
    using that [OF rc res] cf ids p q csrf fu
    by (auto simp: complete_finalize_def split: sum.splits if_splits prod.splits)
qed

text \<open>The published object and the rows that refer to it.\<close>

definition published :: "externals \<Rightarrow> uuid_crate \<Rightarrow> bytes \<Rightarrow> upload_finalized \<Rightarrow> store \<Rightarrow> string \<Rightarrow> bool" where
  "published x c d r s key \<longleftrightarrow>
     (\<exists>v b. current_version (st_db s) (uf_file r) = Some v \<and> uf_version r = Some (ver_id v)
        \<and> ver_size_bytes v = int (length d) \<and> find_row obj_id (ver_object v) (objects (st_db s)) = Some b
        \<and> obj_state b = Ready \<and> obj_storage_key b = key \<and> obj_mime b = sniff_media_type (take 512 d)
        \<and> obj_checksum b = Some (hex_digest (sha256 x d)) \<and> uf_checksum r = obj_checksum b)
     \<and> open_object c key (st_vol s) = Inr d"

lemma current_version_pointer:
  "current_version s f = Some v \<Longrightarrow> (case find_row fil_id f (files s) of None \<Rightarrow> None | Some r \<Rightarrow> fil_current_version r) = Some (ver_id v)"
  by (auto simp: current_version_def split: option.splits dest: find_row_Some)

lemma visible_child:
  assumes ok: "drive_ok lower s" and e: "e \<in> set (entries s)" "ent_owner e = owner" "ent_deleted_at e = None"
    and p: "case ent_parent e of None \<Rightarrow> True | Some p \<Rightarrow> \<exists>a. visible owner p s a"
  shows "visible owner (ent_id e) s e"
proof -
  have "ent_deleted_at a = None" if "a \<in> path_up s (ent_id e)" for a
    using that [unfolded path_up_def, THEN CollectD, THEN conjunct2]
  proof (cases rule: converse_rtranclE)
    case base
    then show ?thesis using that e distinct_key_unique [OF drive_okD(2) [OF ok]] by (auto simp: path_up_def)
  next
    case (step k)
    then obtain b where b: "b \<in> set (entries s)" "ent_id b = ent_id e" "ent_parent b = Some k" by (auto simp: par_def)
    then have "b = e" using e distinct_key_unique [OF drive_okD(2) [OF ok]] by auto
    then show ?thesis using p b that step(2) by (auto simp: visible_def path_up_def)
  qed
  then show ?thesis using e by (simp add: visible_def)
qed

lemma finalize_effect:
  assumes ok: "store_ok (sql_lower x) s" and fin: "finalize_upload x st c env user hs i s = (s', Inr r)"
    and u: "fetch_upload (au_id user) i (st_db s) = Inr u" "upl_state u = Active"
    and d: "vol_staging (st_vol s) (upl_staging_key u) = Some d"
  shows "\<exists>key. published x c d r s' key
     \<and> (declared_checksum hs = Inr None \<or> declared_checksum hs = Inr (Some (hex_digest (sha256 x d))))
     \<and> (\<forall>k. k \<noteq> key \<longrightarrow> object_at c k (st_vol s') = object_at c k (st_vol s))
     \<and> vol_staging (st_vol s') = (vol_staging (st_vol s))(upl_staging_key u := None)
     \<and> (\<exists>w. fetch_upload (au_id user) i (st_db s') = Inr w \<and> upl_state w = Completed \<and> upl_final_file w = Some (uf_file r))
     \<and> (\<exists>e. visible (au_id user) (uf_file r) (st_db s') e)"
proof -
  obtain d1 f b row checksum mime s1 d2 where rc: "reserve_content x c env (au_id user) u (st_db s) = Inr d1"
    and res: "reserved c u f b d1" and p: "publish_object x c (au_id user) u b (s\<lparr>st_db := d1\<rparr>) = (s1, Inr (row, checksum, mime))"
    and cm: "commit_finalize (fe_now env) (au_id user) i f b checksum mime d1 = Inr (d2, r)" and s': "s' = s1\<lparr>st_db := d2\<rparr>"
    and dc: "declared_checksum hs = Inr None \<or> declared_checksum hs = Inr (Some checksum)"
    using ok fin u by (rule finalize_run)
  note fu = fetch_upload_Inr [OF u(1)]
  have ok1: "store_ok (sql_lower x) (s\<lparr>st_db := d1\<rparr>)" using reserve_content_ok [OF rc ok] fu u(2) by auto
  obtain v q d' where row: "find_row obj_id b (objects d1) = Some row"
    and pr: "promote_staging_file c (upl_staging_key u) (obj_storage_key row) (st_vol s) = Inr (v, q)" and s1: "s1 = s\<lparr>st_db := d1, st_vol := v\<rparr>"
    and vq: "vol_objects v q = Some (Regular d')" and ck: "checksum = hex_digest (sha256 x d')" "mime = sniff_media_type (take 512 d')"
    and len: "int (length d') = obj_size_bytes row" and act: "target_active (au_id user) u d1 = Inr ()"
    using p by (rule publish_object_Inr) auto
  note pi = promote_staging_Inr [OF pr]
  have d': "d' = d" using pi(4) vq d by simp
  from res row obtain w ver where w: "w \<in> set (uploads d1)" "upl_id w = i" "upl_owner w = au_id user" "upl_state w = Finalizing"
      "upl_final_file w = Some f"
    and ver: "current_version d1 f = Some ver" "ver_object ver = b" "ver_size_bytes ver = upl_expected_size u"
    and o: "obj_size_bytes row = upl_expected_size u" "obj_state row = Pending"
    using fu by (auto simp: reserved_def)
  have fw: "fetch_upload (au_id user) i d1 = Inr w"
    using w store_okD(2) [OF ok1] by (subst fetch_upload_iff) (simp_all add: keys_ok_def)
  note cf = commit_finalize_Inr [OF cm fw w(4)]
  have at: "object_at c (obj_storage_key row) v = Some d" using pi(1) vq d' by (simp add: object_at_def)
  have "open_object c (obj_storage_key row) v = Inr d"
    by (rule object_at_open [OF at]) (use pi(2,7) store_okD(3) [OF ok] pr in \<open>auto simp: promote_staging_file_def result_simps\<close>)
  then have "published x c d r s' (obj_storage_key row)"
    using cf(1) [of f] cf(2) [OF row] cf(4,5,7) ver o len ck current_version_pointer [OF ver(1)]
    by (auto simp: published_def s' s1 d')
  moreover have "object_at c k v = object_at c k (st_vol s)" if "k \<noteq> obj_storage_key row" for k
    using blobs.promote_other [of c "upl_staging_key u" "obj_storage_key row" "st_vol s" v k] pr that by (auto simp: promote_file_Inr)
  moreover have "\<exists>w'. fetch_upload (au_id user) i d2 = Inr w' \<and> upl_state w' = Completed \<and> upl_final_file w' = Some f"
  proof (intro exI conjI)
    show "fetch_upload (au_id user) i d2 = Inr (w\<lparr>upl_state := Completed, upl_updated_at := fe_now env\<rparr>)"
      using w store_okD(2) [OF ok1]
      by (subst fetch_upload_iff) (auto simp: keys_ok_def cf(3) map_key_update_where set_update_where image_iff)
  qed (simp_all add: w)
  moreover have "\<exists>e. visible (au_id user) f d1 e"
  proof -
    from res obtain e where e: "e \<in> set (entries d1)" "ent_id e = f" "ent_owner e = au_id user" "ent_parent e = upl_target_parent u"
      "ent_deleted_at e = None" using fu by (auto simp: reserved_def)
    have ok': "drive_ok (sql_lower x) d1" using store_okD(1) [OF ok1] by simp
    have "case ent_parent e of None \<Rightarrow> True | Some p \<Rightarrow> \<exists>a. visible (au_id user) p d1 a"
      using act ensure_active_iff [OF ok'] by (auto simp: e(4) target_active_def tdrive_def result_simps split: option.splits sum.splits)
    then show ?thesis using visible_child [OF ok' e(1,3,5)] e(2) by auto
  qed
  moreover have "visible (au_id user) f d2 e = visible (au_id user) f d1 e" for e
    using cf(6) by (simp add: visible_def path_up_def)
  ultimately show ?thesis using dc ck(1) pi(3) cf(4) by (auto simp: s' s1 d')
qed

text \<open>
  When the finalization of an active upload succeeds, the file it answers with has as its
  current version a ready object of the expected size, whose content is exactly the staged
  bytes, readable through the store, and whose recorded checksum, also part of the answer, is
  the SHA-256 of these bytes (and the one the client declared, if it did); the staging file is
  gone, no other object has changed, and the upload is completed.
\<close>

lemma finalize_publishes:
  assumes ok: "store_ok (sql_lower x) s" and fin: "finalize_upload x st c env user hs i s = (s', Inr r)"
    and u: "fetch_upload (au_id user) i (st_db s) = Inr u" "upl_state u = Active"
    and d: "vol_staging (st_vol s) (upl_staging_key u) = Some d"
  shows "\<exists>key. published x c d r s' key
     \<and> (declared_checksum hs = Inr None \<or> declared_checksum hs = Inr (Some (hex_digest (sha256 x d))))
     \<and> (\<forall>k. k \<noteq> key \<longrightarrow> object_at c k (st_vol s') = object_at c k (st_vol s))
     \<and> vol_staging (st_vol s') = (vol_staging (st_vol s))(upl_staging_key u := None)
     \<and> (\<exists>w. fetch_upload (au_id user) i (st_db s') = Inr w \<and> upl_state w = Completed \<and> upl_final_file w = Some (uf_file r))"
  using finalize_effect [OF ok fin u d] by blast

text \<open>The last transaction depends on its clock only through the update time of the upload.\<close>

definition stamp_upload :: "uuid \<Rightarrow> instant \<Rightarrow> db \<Rightarrow> db" where
  "stamp_upload i now s = s\<lparr>uploads := update_where (\<lambda>r. upl_id r = i) (\<lambda>r. r\<lparr>upl_updated_at := now\<rparr>) (uploads s)\<rparr>"

lemma enqueue_uploads:
  "enqueue_media_index_jobs w m (s\<lparr>uploads := us\<rparr>) = (enqueue_media_index_jobs w m s)\<lparr>uploads := us\<rparr>"
  by (simp add: enqueue_media_index_jobs_def add_job_def Let_def split: option.splits)

lemma commit_finalize_clock:
  assumes cm: "commit_finalize now owner i f b checksum mime s = Inr (d, q)" and u: "fetch_upload owner i s = Inr u" "upl_state u = Finalizing"
    and keys: "distinct (map upl_id (uploads s))"
  shows "commit_finalize now' owner i f b checksum mime s = Inr (stamp_upload i now' d, q)"
proof -
  let ?p = "\<lambda>r. upl_owner r = owner \<and> upl_state r = Finalizing"
  let ?g = "\<lambda>now r. r\<lparr>upl_state := Completed, upl_updated_at := now\<rparr>"
  define s1 where "s1 = s\<lparr>objects := update_where (\<lambda>r. obj_id r = b \<and> (obj_state r = Pending \<or> obj_state r = Ready))
    (\<lambda>r. r\<lparr>obj_checksum := Some checksum, obj_mime := mime, obj_state := Ready\<rparr>) (objects s)\<rparr>"
  have up: "update_upload i ?p (?g now) s1 = Inr (s1\<lparr>uploads := update_where (\<lambda>r. upl_id r = i \<and> ?p r) (?g now) (uploads s1)\<rparr>)"
    using cm u by (auto simp: commit_finalize_def s1_def [symmetric] Let_def tsql_def update_upload_def result_simps)
  then have up': "update_upload i ?p (?g now') s1 = Inr (s1\<lparr>uploads := update_where (\<lambda>r. upl_id r = i \<and> ?p r) (?g now') (uploads s1)\<rparr>)"
    by (auto simp: update_upload_def upload_row_check_def result_simps)
  have own: "?p r" if "r \<in> set (uploads s)" "upl_id r = i" for r
  proof -
    note f = fetch_upload_Inr [OF u(1)]
    have "r = u" using distinct_key_unique [OF keys that(1), of u] f that(2) by simp
    with f u(2) show ?thesis by simp
  qed
  have stamp: "update_where (\<lambda>r. upl_id r = i \<and> ?p r) (?g now') (uploads s1)
      = update_where (\<lambda>r. upl_id r = i) (\<lambda>r. r\<lparr>upl_updated_at := now'\<rparr>)
          (update_where (\<lambda>r. upl_id r = i \<and> ?p r) (?g now) (uploads s1))"
    unfolding update_where_def map_map comp_def
  proof (intro map_cong refl)
    fix r
    assume "r \<in> set (uploads s1)"
    then have r: "r \<in> set (uploads s)" by (simp add: s1_def)
    show "(if upl_id r = i \<and> ?p r then ?g now' r else r) =
        (if upl_id (if upl_id r = i \<and> ?p r then ?g now r else r) = i
         then (if upl_id r = i \<and> ?p r then ?g now r else r)\<lparr>upl_updated_at := now'\<rparr>
         else (if upl_id r = i \<and> ?p r then ?g now r else r))"
      using own [OF r] by (cases "upl_id r = i") simp_all
  qed
  define us where "us = update_where (\<lambda>r. upl_id r = i \<and> ?p r) (?g now) (uploads s1)"
  have up1: "update_upload i ?p (?g now) s1 = Inr (s1\<lparr>uploads := us\<rparr>)" using up by (simp add: us_def)
  have up2: "update_upload i ?p (?g now') s1
      = Inr (s1\<lparr>uploads := update_where (\<lambda>r. upl_id r = i) (\<lambda>r. r\<lparr>upl_updated_at := now'\<rparr>) us\<rparr>)"
    using up' stamp by (simp add: us_def)
  have guard: "upl_final_file u = Some f" "upl_object u = Some b" using cm u by (simp_all add: commit_finalize_def result_simps)
  show ?thesis
    using cm u up1 up2 guard
    by (simp add: commit_finalize_def s1_def [symmetric] Let_def tsql_def result_simps)
      (auto simp: add_audit_def stamp_upload_def enqueue_uploads result_simps split: if_splits)
qed

text \<open>
  C19. A finalization can be repeated after a crash, at any later time, even after the upload
  would have expired. If the service stops after the first transaction, or after the object
  has been moved into place but before the last transaction, the same request to the
  restarted service (with fresh identifiers and another clock reading) gives the answer of the
  uninterrupted run and ends in its state, up to the update time of the upload.
\<close>

theorem finalize_resumes:
  assumes ok: "store_ok (sql_lower x) s" and fin: "finalize_upload x st c env user hs i s = (s', Inr r)"
    and u: "fetch_upload (au_id user) i (st_db s) = Inr u" "upl_state u = Active"
    and crash: "begin_finalize x c env (au_id user) i (st_db s) = Inr (d1, q)" "v = st_vol s \<or> v = st_vol s'"
  shows "finalize_upload x st c env2 user hs i (s\<lparr>st_db := d1, st_vol := v\<rparr>)
    = (s'\<lparr>st_db := stamp_upload i (fe_now env2) (st_db s')\<rparr>, Inr r)"
proof -
  obtain d2 f b row checksum mime s1 d3 where rc: "reserve_content x c env (au_id user) u (st_db s) = Inr d2"
    and res: "reserved c u f b d2" and p: "publish_object x c (au_id user) u b (s\<lparr>st_db := d2\<rparr>) = (s1, Inr (row, checksum, mime))"
    and cm: "commit_finalize (fe_now env) (au_id user) i f b checksum mime d2 = Inr (d3, r)" and s': "s' = s1\<lparr>st_db := d3\<rparr>"
    and dc: "declared_checksum hs = Inr None \<or> declared_checksum hs = Inr (Some checksum)"
    and csrf: "tdrive (require_request_csrf x hs user st) = Inr ()"
    using ok fin u by (rule finalize_run)
  have d1: "d2 = d1" using crash(1) rc u by (simp add: begin_finalize_def)
  note fu = fetch_upload_Inr [OF u(1)]
  from res obtain w where w: "w \<in> set (uploads d1)" "upl_id w = i" "upl_owner w = au_id user" "upl_state w = Finalizing"
      "upl_final_file w = Some f" "upl_object w = Some b" "upl_staging_key w = upl_staging_key u" "upl_target_parent w = upl_target_parent u"
    using fu by (auto simp: reserved_def d1)
  have keys: "keys_ok (s\<lparr>st_db := d1\<rparr>)" using store_okD(2) [OF reserve_content_ok [OF rc ok]] fu u(2) d1 by auto
  then have fw: "fetch_upload (au_id user) i d1 = Inr w"
    using w by (subst fetch_upload_iff) (simp_all add: keys_ok_def)
  have pw: "publish_object x c (au_id user) w b t = publish_object x c (au_id user) u b t" for t
    using w(7,8) by (simp add: publish_object_def target_active_def)
  obtain v1 where s1: "s1 = s\<lparr>st_db := d1, st_vol := v1\<rparr>" using p d1 by (auto elim: publish_object_Inr)
  have "s\<lparr>st_db := d1, st_vol := v\<rparr> = s\<lparr>st_db := d2\<rparr> \<or> s\<lparr>st_db := d1, st_vol := v\<rparr> = s1"
    using crash(2) by (auto simp: s' s1 d1)
  then have "publish_object x c (au_id user) u b (s\<lparr>st_db := d1, st_vol := v\<rparr>) = (s1, Inr (row, checksum, mime))"
    using p publish_repeat [OF p] by presburger
  moreover have "commit_finalize (fe_now env2) (au_id user) i f b checksum mime d1 = Inr (stamp_upload i (fe_now env2) d3, r)"
    by (rule commit_finalize_clock [OF cm [unfolded d1] fw w(4)]) (use keys in \<open>simp add: keys_ok_def\<close>)
  ultimately have "complete_finalize x c env2 (au_id user) hs w (s\<lparr>st_db := d1, st_vol := v\<rparr>)
      = (s'\<lparr>st_db := stamp_upload i (fe_now env2) (st_db s')\<rparr>, Inr r)"
    using w dc by (auto simp: complete_finalize_def finalize_ids_def pw s1 s')
  moreover define t where "t = s\<lparr>st_db := d1, st_vol := v\<rparr>"
  moreover have t: "st_db t = d1" and idle: "t\<lparr>st_db := d1\<rparr> = t" by (simp_all add: t_def)
  ultimately have "complete_finalize x c env2 (au_id user) hs w (t\<lparr>st_db := d1\<rparr>)
      = (s'\<lparr>st_db := stamp_upload i (fe_now env2) (st_db s')\<rparr>, Inr r)" by (simp only: idle)
  then show ?thesis
    using csrf fw w(4) t unfolding t_def [symmetric] by (simp add: finalize_upload_def begin_finalize_def)
qed

section \<open>Admission\<close>

lemma admit_upload_Inr:
  assumes "admit_upload x st ls ts env user hs r s = Inr a"
  obtains account usage limit n where "find_row usr_id (au_id user) (users (st_db s)) = Some account"
    and "usr_disabled_at account = None" and "usage_of (au_id user) (ce_now env) (ce_importing env) (st_db s) = Inr usage"
    and "quota_limit ts account = Inr limit" and "required_reservation usage (cq_expected_size r) = Some n" and "n \<le> limit"
    and "cq_expected_size r \<le> max_file_size ts"
  using assms
  by (auto simp: admit_upload_def active_account_def check_quota_def tsql_def tdrive_def tstore_def result_simps
      split: prod.splits)

lemma required_reservation_bound:
  "required_reservation q k = Some n \<Longrightarrow> qu_used q + qu_reserved q + int k \<le> int n"
  by (auto simp: required_reservation_def checked_add_u64_def split: if_splits option.splits)

lemma usage_of_Inr:
  "usage_of owner now g s = Inr q \<Longrightarrow> qu_used q = account_used_bytes owner s
   \<and> qu_reserved q = sum_list (map upl_expected_size (open_uploads owner now s)) + g"
  by (auto simp: usage_of_def bigint_def result_simps split: if_splits)

lemma create_upload_Inr:
  assumes "create_upload x st ls ts env user hs r s = (s', Inr i)"
  obtains a u d where "admit_upload x st ls ts env user hs r s = Inr a" and "insert_upload u (st_db s) = Inr d" and "st_db s' = d"
    and "upl_owner u = au_id user" and "upl_expected_size u = int (cq_expected_size r)" and "upl_id u = i"
    and "upl_state u = Active" and "upl_received_size u = 0"
    and "vol_staging (st_vol s') = (vol_staging (st_vol s))(upl_staging_key u \<mapsto> [])"
  using assms
  by (auto simp: create_upload_def create_staging_file_def result_simps split: sum.splits prod.splits)

text \<open>
  C20. An admitted upload fits the account's quota: once it is created, the bytes of the
  account's ready files, the declared sizes of all its open uploads (the new one included) and
  the bytes the Drive importer has reserved stay within the limit that applies to the account,
  and its size is within the limit for a single file.
\<close>

theorem create_upload_within_quota:
  assumes "create_upload x st ls ts env user hs r s = (s', Inr i)"
  shows "\<exists>account limit. find_row usr_id (au_id user) (users (st_db s)) = Some account \<and> usr_disabled_at account = None
     \<and> quota_limit ts account = Inr limit \<and> cq_expected_size r \<le> max_file_size ts
     \<and> account_used_bytes (au_id user) (st_db s')
        + sum_list (map upl_expected_size (open_uploads (au_id user) (ce_now env) (st_db s'))) + ce_importing env \<le> int limit"
  using assms
proof (rule create_upload_Inr)
  fix a u d
  assume a: "admit_upload x st ls ts env user hs r s = Inr a" and i: "insert_upload u (st_db s) = Inr d" and d: "st_db s' = d"
    and u: "upl_owner u = au_id user" "upl_expected_size u = int (cq_expected_size r)"
  obtain account usage limit n where q: "find_row usr_id (au_id user) (users (st_db s)) = Some account"
    "usr_disabled_at account = None" "usage_of (au_id user) (ce_now env) (ce_importing env) (st_db s) = Inr usage"
    "quota_limit ts account = Inr limit" "required_reservation usage (cq_expected_size r) = Some n" "n \<le> limit"
    "cq_expected_size r \<le> max_file_size ts"
    using a by (rule admit_upload_Inr)
  note d' = insert_upload_Inr(1) [OF i]
  have used: "account_used_bytes (au_id user) d = account_used_bytes (au_id user) (st_db s)"
    by (simp add: d' account_used_bytes_def ready_version_def [abs_def] current_version_def cong: option.case_cong)
  have "sum_list (map upl_expected_size (open_uploads (au_id user) (ce_now env) d))
      \<le> sum_list (map upl_expected_size (open_uploads (au_id user) (ce_now env) (st_db s))) + int (cq_expected_size r)"
    using u by (simp add: d' open_uploads_def)
  then show ?thesis
    using q used usage_of_Inr [OF q(3)] required_reservation_bound [OF q(5)] d by auto
qed

section \<open>A small store\<close>

text \<open>The sample drive with an upload of three bytes into its first folder, at the given offset, and a mounted volume.\<close>

definition sample_upload :: "int \<Rightarrow> upload_row" where
  "sample_upload n = \<lparr>upl_id = 40, upl_owner = 1, upl_target_parent = Some 10, upl_filename = lit ''x'',
     upl_expected_size = 3, upl_received_size = n, upl_staging_key = 41, upl_state = Active, upl_expires_at = 100,
     upl_updated_at = 0, upl_object = None, upl_final_file = None, upl_staging_cleaned_at = None,
     upl_replace_file = None, upl_original_modified_at = None\<rparr>"

definition sample_volume :: "bytes \<Rightarrow> volume" where
  "sample_volume d = \<lparr>vol_mounted = Inr (), vol_staging = [41 \<mapsto> d], vol_dirs = [[] \<mapsto> Directory], vol_objects = (\<lambda>_. None)\<rparr>"

definition sample_store :: "int \<Rightarrow> bytes \<Rightarrow> store" where
  "sample_store n d = \<lparr>st_db = sample_drive\<lparr>uploads := [sample_upload n]\<rparr>, st_vol = sample_volume d\<rparr>"

definition sample_local :: local_storage where
  "sample_local = \<lparr>require_mount = False, require_device_match = False, expected_device = None, min_free_bytes = 0, percent_ceil = (\<lambda>_. 0)\<rparr>"

definition sample_patch :: patch_env where
  "sample_patch = \<lparr>pe_now = 5, pe_reading = (\<lambda>_. Inr (1000, 1000)), pe_open = None, pe_seek = None, pe_write = (\<lambda>_. None), pe_sync = None,
     pe_truncated = False, pe_update = None\<rparr>"

definition sample_finalize :: finalize_env where
  "sample_finalize = \<lparr>fe_now = 6, fe_object_id = 50, fe_file_id = 51, fe_version_id = 52\<rparr>"

lemmas sample_store_defs = sample_store_def sample_upload_def sample_volume_def sample_drive_def empty_db_def

lemma sample_store_ok:
  assumes "0 \<le> n" and "n \<le> 3" and "n \<le> int (length d)" and "n = 3 \<longrightarrow> length d = 3"
  shows "store_ok (sql_lower sample_externals) (sample_store n d)"
proof -
  have "drive_ok (sql_lower sample_externals) (sample_drive\<lparr>uploads := [sample_upload n]\<rparr>)"
    using sample_drive_ok by (subst drive_ok_frame [of _ sample_drive]) simp_all
  then show ?thesis
    using assms by (simp add: store_ok_def keys_ok_def vol_ok_def upload_ok_def staged_def upload_row_check_def
        sample_store_def sample_upload_def sample_volume_def)
qed

definition sample_requests :: "patch_request list" where
  "sample_requests =
     (let h = [(''content-type'', ''application/offset+octet-stream''), (''upload-offset'', ''0'')] in
      [\<lparr>pq_env = sample_patch\<lparr>pe_write := (\<lambda>_. Some (IoOther, 1))\<rparr>, pq_user = sample_actor 1, pq_headers = h, pq_upload = 40,
        pq_body = [Data ''xy'']\<rparr>,
       \<lparr>pq_env = sample_patch, pq_user = sample_actor 1, pq_headers = h, pq_upload = 40, pq_body = [Data ''a'', Trailers, Data ''b'']\<rparr>])"

lemma sample_requests_run:
  "map isOk (snd (run_patches sample_externals sample_settings sample_local sample_requests (sample_store 0 []))) = [False, True]"
  by (simp add: sample_requests_def patch_upload_def tdrive_def patch_headers_def header_str_def header_u64_def parse_unsigned_def
      patch_session_def fetch_upload_def require_active_def require_not_expired_def sample_patch_def check_write_capacity_def capacity_def
      required_free_bytes_def sample_local_def commit_patch_def tsql_def update_upload_def upload_row_check_def update_where_def
      MAX_PATCH_BYTES_def is_digit_def digits_value_def digit_value_def
      after_error_def Let_def sample_store_defs)

theorem resumable_upload_log_witness:
  "upload_log 40 (fst (run_patches sample_externals sample_settings sample_local sample_requests (sample_store 0 []))) = Some ''ab''"
proof -
  obtain s' rs where r: "run_patches sample_externals sample_settings sample_local sample_requests (sample_store 0 []) = (s', rs)"
    by (cases "run_patches sample_externals sample_settings sample_local sample_requests (sample_store 0 [])")
  obtain a b where "rs = [a, b]" "\<not> isOk a" "isOk b"
    using sample_requests_run r by auto
  then have "accepted 40 sample_requests rs = ''ab''"
    by (simp add: accepted_def sample_requests_def body_data_def Let_def)
  moreover have "keys_ok (sample_store 0 [])" "upload_log 40 (sample_store 0 []) = Some []"
    by (simp_all add: keys_ok_def upload_log_def acknowledged_def find_row_def sample_store_defs)
  ultimately show ?thesis using resumable_upload_log [of "sample_store 0 []" 40 "[]"] r by simp
qed

lemma sample_key:
  "object_path sample_crate (storage_key sample_crate 50) = Inr [take 2 (uuid_text sample_crate 50),
     take 2 (drop 2 (uuid_text sample_crate 50)), uuid_text sample_crate 50]"
  using object_path_storage_key [OF sample_uuid_codec] by simp

lemma sample_key_new: "''k'' \<noteq> storage_key sample_crate 50"
proof -
  have "object_path sample_crate ''k'' = Inl UnsafeKey" by (simp add: object_path_def)
  then show ?thesis using sample_key by auto
qed

lemma sample_sniff: "sniff_media_type ''abc'' = None" "media_index_task None = None" "\<not> is_face_indexable_media None"
  by code_simp+

lemma sample_fetch: "fetch_upload 1 40 (st_db (sample_store n d)) = Inr (sample_upload n)"
  by (simp add: fetch_upload_def sample_store_defs)

lemma sample_finalize_run:
  "isOk (snd (finalize_upload sample_externals sample_settings sample_crate sample_finalize (sample_actor 1) [] 40 (sample_store 3 ''abc'')))"
  by (simp add: finalize_upload_def tdrive_def begin_finalize_def fetch_upload_def reserve_content_def require_not_expired_def
      target_active_def ensure_active_entry_def parent_chain_def owned_def tsql_def insert_object_def add_content_def insert_entry_def
      validate_drive_entry_parent_def find_row_def entry_row_check_def entry_name_check_def trim_by_def same_slot_def same_role_def
      insert_file_def add_version_def insert_version_def set_current_version_def update_where_def update_upload_def upload_row_check_def
      complete_finalize_def finalize_ids_def publish_object_def tstore_def promote_staging_file_def sample_key sample_key_new ensure_object_parent_def
      read_path_def hash_file_def declared_checksum_def commit_finalize_def Let_def new_entry_def text_simps to_ascii_lowercase_def ascii_lower_def sample_sniff
      completed_upload_def sample_finalize_def sample_store_defs sample_entries_def sample_user_def)

text \<open>The finalized sample upload.\<close>

definition sample_final :: "store \<times> (transfer_error + upload_finalized)" where
  "sample_final = finalize_upload sample_externals sample_settings sample_crate sample_finalize (sample_actor 1) [] 40 (sample_store 3 ''abc'')"

lemma sample_final_run:
  obtains s' r where "finalize_upload sample_externals sample_settings sample_crate sample_finalize (sample_actor 1) [] 40
      (sample_store 3 ''abc'') = (s', Inr r)" and "sample_final = (s', Inr r)"
  using sample_finalize_run that unfolding sample_final_def by (metis isOk_iff prod.collapse)

theorem finalize_resumes_witness:
  "\<exists>d. begin_finalize sample_externals sample_crate sample_finalize 1 40 (st_db (sample_store 3 ''abc'')) = Inr (d, Inr (sample_upload 3))
     \<and> finalize_upload sample_externals sample_settings sample_crate (sample_finalize\<lparr>fe_now := 1000, fe_object_id := 60\<rparr>) (sample_actor 1) [] 40
        (sample_store 3 ''abc''\<lparr>st_db := d, st_vol := st_vol (fst sample_final)\<rparr>)
       = ((fst sample_final)\<lparr>st_db := stamp_upload 40 1000 (st_db (fst sample_final))\<rparr>, snd sample_final)
     \<and> upl_expires_at (sample_upload 3) \<le> 1000"
proof -
  obtain s' r where f: "finalize_upload sample_externals sample_settings sample_crate sample_finalize (sample_actor 1) [] 40
      (sample_store 3 ''abc'') = (s', Inr r)" and s: "sample_final = (s', Inr r)" by (rule sample_final_run)
  have u: "fetch_upload (au_id (sample_actor 1)) 40 (st_db (sample_store 3 ''abc'')) = Inr (sample_upload 3)"
    "upl_state (sample_upload 3) = Active" using sample_fetch by (simp_all add: sample_upload_def)
  obtain d where b: "begin_finalize sample_externals sample_crate sample_finalize (au_id (sample_actor 1)) 40 (st_db (sample_store 3 ''abc''))
      = Inr (d, Inr (sample_upload 3))"
  proof (rule finalize_run [OF sample_store_ok f u])
    fix d1
    assume "reserve_content sample_externals sample_crate sample_finalize (au_id (sample_actor 1)) (sample_upload 3)
        (st_db (sample_store 3 ''abc'')) = Inr d1"
    then show thesis using that [of d1] u by (simp add: begin_finalize_def)
  qed simp_all
  from finalize_resumes [OF sample_store_ok f u b, of "st_vol s'" "sample_finalize\<lparr>fe_now := 1000, fe_object_id := 60\<rparr>"] b
  show ?thesis by (simp add: s sample_upload_def)
qed

definition sample_create :: create_env where
  "sample_create = \<lparr>ce_now = 5, ce_reading = Inr (1000, 1000), ce_id = 70, ce_staging_key = 71, ce_importing = 0\<rparr>"

definition sample_request :: create_request where
  "sample_request = \<lparr>cq_filename = lit ''y'', cq_expected_size = 4, cq_parent = Some 13, cq_file = None, cq_modified_at = None\<rparr>"

definition sample_limits :: transfer_settings where
  "sample_limits = \<lparr>max_file_size = 10, owner_quota_bytes = 20, upload_session_ttl_seconds = 60\<rparr>"

lemma sample_create_run:
  "isOk (snd (create_upload sample_externals sample_settings sample_local sample_limits sample_create (sample_actor 1) []
     sample_request (sample_store 0 [])))"
  by (simp add: create_upload_def admit_upload_def tdrive_def normalize_name_def trim_def is_control_def is_whitespace_def text_len_def
      utf8_len_def upload_target_def ensure_active_entry_def parent_chain_def owned_def
      upload_expiry_def seconds_def chrono_max_def active_account_def find_row_def usage_of_def bigint_def account_used_bytes_def
      ready_version_def current_version_def List.map_filter_def open_uploads_def open_upload_def tsql_def check_quota_def
      quota_limit_def required_reservation_def checked_add_u64_def tstore_def check_write_capacity_def capacity_def
      required_free_bytes_def create_staging_file_def insert_upload_def entry_name_check_def trim_by_def text_simps
      sample_local_def sample_limits_def sample_create_def sample_request_def sample_store_defs sample_entries_def sample_user_def
      new_entry_def Let_def)

theorem create_upload_within_quota_witness:
  "account_used_bytes 1 (st_db (fst (create_upload sample_externals sample_settings sample_local sample_limits sample_create (sample_actor 1) []
     sample_request (sample_store 0 []))))
    + sum_list (map upl_expected_size (open_uploads 1 5 (st_db (fst (create_upload sample_externals sample_settings sample_local
        sample_limits sample_create (sample_actor 1) [] sample_request (sample_store 0 [])))))) \<le> 20"
proof -
  obtain s' i where c: "create_upload sample_externals sample_settings sample_local sample_limits sample_create (sample_actor 1) []
     sample_request (sample_store 0 []) = (s', Inr i)"
    using sample_create_run by (metis isOk_iff prod.collapse)
  from create_upload_within_quota [OF c] c show ?thesis
    by (auto simp: sample_create_def quota_limit_def sample_limits_def find_row_def sample_store_defs sample_user_def)
qed

end
