(* ===== verification/Downloads.thy ===== *)
theory Downloads
  imports Uploads Ranges
begin

text \<open>
  Downloads, previews and thumbnails (\<open>src/transfers.rs\<close>): the record of a file's current
  version, conditional and range requests on the stored object or on a derivative of it, and
  the choice of a preview representation. The \<open>httpdate\<close> crate and the isolated
  document converter are parameters.
\<close>

section \<open>Records\<close>

record download_record =
  dl_name :: ustr
  dl_version :: uuid
  dl_size :: int
  dl_key :: string
  dl_mime :: "string option"
  dl_checksum :: "string option"
  dl_state :: object_state
  dl_created :: instant

record http_response =
  rs_status :: nat
  rs_headers :: "(string \<times> string) list"
  rs_body :: bytes

record http_dates =
  fmt_date :: "instant \<Rightarrow> string"
  parse_date :: "string \<Rightarrow> instant option"

text \<open>
  The converter's answer: whether the status is a success, the content type, the announced
  length, and the body unless reading it failed.
\<close>

record conversion =
  cv_success :: bool
  cv_type :: "string option"
  cv_length :: "nat option"
  cv_body :: "bytes option"

record media_services =
  ms_dates :: http_dates
  ms_previews :: "previews option"
  ms_convert :: "(string \<Rightarrow> bytes \<Rightarrow> conversion option) option"

section \<open>The current version of a file\<close>

definition file_chain :: "uuid \<Rightarrow> uuid \<Rightarrow> db \<Rightarrow> entry list" where
  "file_chain owner i s =
     (case find (\<lambda>e. ent_id e = i \<and> ent_owner e = owner \<and> ent_kind e = File) (entries s) of
        None \<Rightarrow> []
      | Some e \<Rightarrow> e # climb (owned owner) (length (entries s)) (entries s) (ent_parent e))"

definition load_download_record :: "uuid \<Rightarrow> uuid \<Rightarrow> db \<Rightarrow> transfer_error + download_record" where
  "load_download_record owner i s =
     bindE (tdrive (ensure_active_entry owner i False s)) (\<lambda>_.
     bindE (okOr (find (\<lambda>e. ent_id e = i \<and> ent_owner e = owner \<and> ent_deleted_at e = None) (entries s)) TNotFound) (\<lambda>e.
     bindE (okOr (current_version s i) TNotFound) (\<lambda>v.
     bindE (okOr (find_row obj_id (ver_object v) (objects s)) TNotFound) (\<lambda>b.
     bindE (guardE (\<not> list_ex (\<lambda>a. ent_deleted_at a \<noteq> None) (file_chain owner i s)) TNotFound) (\<lambda>_.
       Inr \<lparr>dl_name = ent_name e, dl_version = ver_id v, dl_size = ver_size_bytes v, dl_key = obj_storage_key b,
            dl_mime = obj_mime b, dl_checksum = obj_checksum b, dl_state = obj_state b, dl_created = ver_created_at v\<rparr>)))))"

section \<open>Derivatives\<close>

text \<open>The row with the highest recipe version.\<close>

definition latest_derivative :: "uuid \<Rightarrow> string \<Rightarrow> db \<Rightarrow> derivative_row option" where
  "latest_derivative v variant s =
     (let ds = filter (\<lambda>d. der_version d = v \<and> der_variant d = variant) (derivatives s) in
      find (\<lambda>d. list_all (\<lambda>e. der_recipe e \<le> der_recipe d) ds) ds)"

text \<open>An error is only logged by the callers, so that its text is left out.\<close>

definition read_media_derivative :: "externals \<Rightarrow> media_services \<Rightarrow> uuid \<Rightarrow> string \<Rightarrow> string \<Rightarrow> nat \<Rightarrow> db
    \<Rightarrow> unit + (bytes \<times> string) option" where
  "read_media_derivative x ms v variant expected_mime max_bytes s =
     (case ms_previews ms of
        None \<Rightarrow> Inr None
      | Some pv \<Rightarrow>
          (case latest_derivative v variant s of
             None \<Rightarrow> Inr None
           | Some d \<Rightarrow>
               if der_mime d \<noteq> expected_mime then Inl ()
               else case read_derivative x v variant (der_recipe d) (der_size_bytes d) (der_checksum d) max_bytes pv of
                 Inl e \<Rightarrow> Inl ()
               | Inr bytes \<Rightarrow> Inr (Some (bytes, der_checksum d))))"

definition MAX_VIDEO_PREVIEW_BYTES :: nat where "MAX_VIDEO_PREVIEW_BYTES = 33554432"
definition MAX_TEXT_PREVIEW_BYTES :: nat where "MAX_TEXT_PREVIEW_BYTES = 8388608"
definition MAX_OFFICE_PREVIEW_BYTES :: nat where "MAX_OFFICE_PREVIEW_BYTES = 33554432"
definition MAX_DOCUMENT_PDF_BYTES :: nat where "MAX_DOCUMENT_PDF_BYTES = 67108864"

definition read_viewer_derivative :: "externals \<Rightarrow> media_services \<Rightarrow> uuid \<Rightarrow> db \<Rightarrow> unit + (bytes \<times> string) option" where
  "read_viewer_derivative x ms v s = read_media_derivative x ms v ''viewer'' ''image/webp'' 4194304 s"

definition read_video_preview :: "externals \<Rightarrow> media_services \<Rightarrow> uuid \<Rightarrow> db \<Rightarrow> unit + (bytes \<times> string) option" where
  "read_video_preview x ms v s = read_media_derivative x ms v ''video_preview'' ''video/mp4'' MAX_VIDEO_PREVIEW_BYTES s"

section \<open>Conditional and range requests\<close>

definition header_values :: "headers \<Rightarrow> string \<Rightarrow> string list" where
  "header_values hs name = List.map_filter (\<lambda>(n, v). if n = name then header_str [(n, v)] n else None) hs"

definition not_modified :: "headers \<Rightarrow> string \<Rightarrow> bool" where
  "not_modified hs etag = list_ex (\<lambda>v. if_none_match_matches v etag) (header_values hs ''if-none-match'')"

definition if_range_current :: "http_dates \<Rightarrow> headers \<Rightarrow> string \<Rightarrow> instant \<Rightarrow> bool" where
  "if_range_current dates hs etag last_modified =
     (if map_of hs ''if-range'' = None then True
      else case header_str hs ''if-range'' of
        None \<Rightarrow> False
      | Some v \<Rightarrow> if_range_matches (parse_date dates) v etag last_modified)"

definition quoted :: "string \<Rightarrow> string" where
  "quoted s = CHR 0x22 # s @ [CHR 0x22]"

definition sniff_storage :: "uuid_crate \<Rightarrow> string \<Rightarrow> volume \<Rightarrow> transfer_error + string option" where
  "sniff_storage c key v = bindE (tstore (open_object c key v)) (\<lambda>d. Inr (sniff_media_type (take 512 d)))"

definition preview_mime :: "uuid_crate \<Rightarrow> download_record \<Rightarrow> volume \<Rightarrow> transfer_error + string option" where
  "preview_mime c e v =
     (case dl_mime e of
        Some m \<Rightarrow> Inr (safe_preview_mime m)
      | None \<Rightarrow> sniff_storage c (dl_key e) v)"

text \<open>The derivative to serve, its media type and its checksum; \<open>None\<close> stands for the original.\<close>

definition use_derivative :: "bool \<Rightarrow> string \<Rightarrow> unit + (bytes \<times> string) option
    \<Rightarrow> transfer_error + (bytes \<times> string \<times> string) option" where
  "use_derivative allow_original mime found =
     (case found of
        Inr (Some (bytes, checksum)) \<Rightarrow> Inr (Some (bytes, mime, checksum))
      | _ \<Rightarrow> if \<not> allow_original then Inl TUnsupportedPreview else Inr None)"

definition choose_derivative :: "externals \<Rightarrow> media_services \<Rightarrow> bool \<Rightarrow> string option \<Rightarrow> uuid \<Rightarrow> db
    \<Rightarrow> transfer_error + (bytes \<times> string \<times> string) option" where
  "choose_derivative x ms allow_original mime v s =
     (if supports_viewer_derivative mime then use_derivative allow_original ''image/webp'' (read_viewer_derivative x ms v s)
      else if supports_video_preview mime then use_derivative allow_original ''video/mp4'' (read_video_preview x ms v s)
      else if \<not> allow_original then Inl TUnsupportedPreview
      else Inr None)"

definition content_headers :: "bool \<Rightarrow> string option \<Rightarrow> ustr \<Rightarrow> (string \<times> string) list" where
  "content_headers inline mime name =
     [(''accept-ranges'', ''bytes''), (''cache-control'', ''private, no-cache''),
      (''content-type'', case mime of None \<Rightarrow> ''application/octet-stream'' | Some m \<Rightarrow> m),
      (''content-disposition'', (if inline then ''inline'' else ''attachment'') @ ''; filename='' @ quoted ''download''
         @ ''; filename*=UTF-8'' @ [CHR 0x27, CHR 0x27] @ encode_filename (utf8_encode name)),
      (''x-content-type-options'', ''nosniff'')]
     @ (if inline then
          (''content-security-policy'', ''default-src '' @ [CHR 0x27] @ ''none'' @ [CHR 0x27]
             @ (if mime = Some ''application/pdf'' then ''; frame-ancestors '' @ [CHR 0x27] @ ''self'' @ [CHR 0x27] else ''; sandbox''))
          # (if mime = Some ''application/pdf'' then [(''x-frame-options'', ''SAMEORIGIN'')] else [])
        else [])"

definition content_range_header :: "nat \<Rightarrow> nat \<Rightarrow> nat \<Rightarrow> string" where
  "content_range_header a b sz = ''bytes '' @ show_nat a @ ''-'' @ show_nat b @ ''/'' @ show_nat sz"

text \<open>Status, first byte, length and \<open>Content-Range\<close> of the part to send.\<close>

definition select_part :: "string option \<Rightarrow> nat \<Rightarrow> transfer_error + nat \<times> nat \<times> nat \<times> string option" where
  "select_part range_value sz =
     (case parse_range range_value (of_nat sz) of
        Inl _ \<Rightarrow> Inl (TRangeNotSatisfiable sz)
      | Inr None \<Rightarrow> Inr (200, 0, sz, None)
      | Inr (Some r) \<Rightarrow>
          Inr (206, unat (range_start r), unat (range_len r),
               Some (content_range_header (unat (range_start r)) (unat (range_end r)) sz)))"

text \<open>The answer to a conditional or range request on a representation of \<open>sz\<close> bytes.\<close>

definition send_part :: "http_dates \<Rightarrow> headers \<Rightarrow> bool \<Rightarrow> string \<Rightarrow> instant \<Rightarrow> (string \<times> string) list \<Rightarrow> nat \<Rightarrow> transfer_error + bytes
    \<Rightarrow> transfer_error + http_response" where
  "send_part dates hs head_only etag last_modified hdrs sz content =
     (if not_modified hs etag then Inr \<lparr>rs_status = 304, rs_headers = hdrs, rs_body = []\<rparr>
      else
        bindE (select_part (if if_range_current dates hs etag last_modified then header_str hs ''range'' else None) sz)
          (\<lambda>(status, first, len, content_range).
        let hdrs' = hdrs @ [(''content-length'', show_nat len)]
                    @ (case content_range of None \<Rightarrow> [] | Some r \<Rightarrow> [(''content-range'', r)]) in
        if head_only then Inr \<lparr>rs_status = status, rs_headers = hdrs', rs_body = []\<rparr>
        else bindE content (\<lambda>d. Inr \<lparr>rs_status = status, rs_headers = hdrs', rs_body = take len (drop first d)\<rparr>)))"

definition download_response_inner :: "externals \<Rightarrow> media_services \<Rightarrow> uuid_crate \<Rightarrow> uuid \<Rightarrow> uuid \<Rightarrow> headers \<Rightarrow> bool \<Rightarrow> bool \<Rightarrow> bool
    \<Rightarrow> store \<Rightarrow> transfer_error + http_response" where
  "download_response_inner x ms c owner i hs head_only inline allow_original s =
     bindE (load_download_record owner i (st_db s)) (\<lambda>e.
     bindE (guardE (dl_state e = Ready) (TStorage (StorageIo IoOther))) (\<lambda>_.
     bindE (guardE (0 \<le> dl_size e) TInconsistent) (\<lambda>_.
     bindE (if inline then bindE (preview_mime c e (st_vol s)) (\<lambda>m. bindE (okOr m TUnsupportedPreview) (\<lambda>t. Inr (Some t)))
            else Inr None) (\<lambda>mime.
     bindE (okOr (dl_checksum e) TInconsistent) (\<lambda>original_checksum.
     bindE (if inline then choose_derivative x ms allow_original mime (dl_version e) (st_db s) else Inr None) (\<lambda>derivative.
     let sz = (case derivative of None \<Rightarrow> nat (dl_size e) | Some (bytes, _) \<Rightarrow> length bytes);
         representation = (case derivative of None \<Rightarrow> mime | Some (_, m, _) \<Rightarrow> Some m);
         checksum = (case derivative of None \<Rightarrow> original_checksum | Some (_, _, k) \<Rightarrow> k);
         last_modified_header = fmt_date (ms_dates ms) (dl_created e) in
     bindE (okOr (parse_date (ms_dates ms) last_modified_header) TInconsistent) (\<lambda>last_modified.
       send_part (ms_dates ms) hs head_only (quoted checksum) last_modified
         (content_headers inline representation (dl_name e)
            @ [(''etag'', quoted checksum), (''last-modified'', last_modified_header)]) sz
         (case derivative of
            Some (bytes, _) \<Rightarrow> Inr bytes
          | None \<Rightarrow> tstore (open_object c (dl_key e) (st_vol s))))))))))"

definition download_response :: "externals \<Rightarrow> media_services \<Rightarrow> uuid_crate \<Rightarrow> uuid \<Rightarrow> uuid \<Rightarrow> headers \<Rightarrow> bool \<Rightarrow> store
    \<Rightarrow> transfer_error + http_response" where
  "download_response x ms c owner i hs head_only s = download_response_inner x ms c owner i hs head_only False True s"

section \<open>Document previews\<close>

datatype document_preview_kind = Pdf | Text | Office string

text \<open>\<open>Path::extension\<close> of a name without separators, which the table check guarantees.\<close>

definition path_extension :: "ustr \<Rightarrow> ustr option" where
  "path_extension name =
     (if name = lit ''..'' then None
      else case rsplit_once 46 name of
        None \<Rightarrow> None
      | Some (before, after) \<Rightarrow> if before = [] then None else Some after)"

definition office_magics :: "bytes list" where
  "office_magics = [''PK'' @ [CHR 0x03, CHR 0x04], ''PK'' @ [CHR 0x05, CHR 0x06], ''PK'' @ [CHR 0x07, CHR 0x08]]"

definition ole_magic :: bytes where
  "ole_magic = [CHR 0xD0, CHR 0xCF, CHR 0x11, CHR 0xE0, CHR 0xA1, CHR 0xB1, CHR 0x1A, CHR 0xE1]"

definition is_office_container_header :: "bytes \<Rightarrow> bool" where
  "is_office_container_header h \<longleftrightarrow> list_ex (starts_with h) office_magics \<or> starts_with h ole_magic"

definition plain_text_header :: "bytes \<Rightarrow> bool" where
  "plain_text_header h \<longleftrightarrow> CHR 0x00 \<notin> set h \<and> \<not> is_office_container_header h \<and> valid_utf8_prefix h"

definition document_preview_kind_of :: "ustr \<Rightarrow> bytes \<Rightarrow> document_preview_kind option" where
  "document_preview_kind_of name h =
     (if starts_with h ''%PDF-'' then Some Pdf
      else case path_extension name of
        None \<Rightarrow> None
      | Some ext \<Rightarrow>
          let extension = to_ascii_lowercase ext in
          if extension = lit ''pdf'' \<and> starts_with h ''%PDF-'' then Some Pdf
          else if extension \<in> {lit ''txt'', lit ''md'', lit ''markdown'', lit ''json''} \<and> plain_text_header h then Some Text
          else if extension \<in> {lit ''doc'', lit ''ppt'', lit ''xls''} \<and> starts_with h ole_magic
          then Some (Office (if extension = lit ''doc'' then ''doc'' else if extension = lit ''ppt'' then ''ppt'' else ''xls''))
          else if extension \<in> {lit ''docx'', lit ''pptx'', lit ''xlsx''} \<and> list_ex (starts_with h) office_magics
          then Some (Office (if extension = lit ''docx'' then ''docx'' else if extension = lit ''pptx'' then ''pptx'' else ''xlsx''))
          else if extension = lit ''rtf'' \<and> starts_with h ([CHR 0x7B, CHR 0x5C] @ ''rtf'') then Some (Office ''rtf'')
          else if extension = lit ''csv'' \<and> plain_text_header h then Some (Office ''csv'')
          else None)"

definition read_storage_header :: "uuid_crate \<Rightarrow> string \<Rightarrow> volume \<Rightarrow> transfer_error + bytes" where
  "read_storage_header c key v = bindE (tstore (open_object c key v)) (\<lambda>d. Inr (take 512 d))"

definition convert_office :: "media_services \<Rightarrow> string \<Rightarrow> bytes \<Rightarrow> transfer_error + bytes" where
  "convert_office ms format d =
     (case ms_convert ms of
        None \<Rightarrow> Inl TUnsupportedPreview
      | Some convert \<Rightarrow>
          bindE (okOr (convert format d) TUnsupportedPreview) (\<lambda>r.
          bindE (guardE (\<not> (\<not> cv_success r \<or> cv_type r \<noteq> Some ''application/pdf'')) TUnsupportedPreview) (\<lambda>_.
          bindE (guardE (\<not> (case cv_length r of None \<Rightarrow> False | Some n \<Rightarrow> n > MAX_DOCUMENT_PDF_BYTES)) TPayloadTooLarge) (\<lambda>_.
          bindE (okOr (cv_body r) TUnsupportedPreview) (\<lambda>bytes.
          bindE (guardE (\<not> (bytes = [] \<or> length bytes > MAX_DOCUMENT_PDF_BYTES \<or> \<not> starts_with bytes ''%PDF-'')) TUnsupportedPreview) (\<lambda>_.
            Inr bytes))))))"

definition document_bytes :: "media_services \<Rightarrow> uuid_crate \<Rightarrow> download_record \<Rightarrow> document_preview_kind \<Rightarrow> volume
    \<Rightarrow> transfer_error + bytes \<times> string" where
  "document_bytes ms c e kind v =
     (case kind of
        Text \<Rightarrow>
          bindE (guardE (\<not> nat (dl_size e) > MAX_TEXT_PREVIEW_BYTES) TPayloadTooLarge) (\<lambda>_.
          bindE (tstore (open_object c (dl_key e) v)) (\<lambda>d.
          bindE (guardE (from_utf8 d) TUnsupportedPreview) (\<lambda>_. Inr (d, ''text/plain; charset=utf-8''))))
      | Office format \<Rightarrow>
          bindE (guardE (\<not> nat (dl_size e) > MAX_OFFICE_PREVIEW_BYTES) TPayloadTooLarge) (\<lambda>_.
          bindE (guardE (ms_convert ms \<noteq> None) TUnsupportedPreview) (\<lambda>_.
          bindE (tstore (open_object c (dl_key e) v)) (\<lambda>d.
          bindE (convert_office ms format (take (nat (dl_size e)) d)) (\<lambda>bytes. Inr (bytes, ''application/pdf'')))))
      | Pdf \<Rightarrow> Inl TInconsistent)"

definition document_preview_response :: "externals \<Rightarrow> media_services \<Rightarrow> uuid_crate \<Rightarrow> download_record \<Rightarrow> document_preview_kind \<Rightarrow> bool
    \<Rightarrow> volume \<Rightarrow> transfer_error + http_response" where
  "document_preview_response x ms c e kind head_only v =
     bindE (guardE (0 \<le> dl_size e) TInconsistent) (\<lambda>_.
     bindE (document_bytes ms c e kind v) (\<lambda>(bytes, mime).
       Inr \<lparr>rs_status = 200,
            rs_headers =
              [(''content-type'', mime), (''content-disposition'', ''inline; filename='' @ quoted ''preview''),
               (''cache-control'', ''private, no-store''), (''x-content-type-options'', ''nosniff'')]
              @ (if mime = ''application/pdf'' then
                   [(''content-security-policy'', ''default-src '' @ [CHR 0x27] @ ''none'' @ [CHR 0x27] @ ''; frame-ancestors ''
                       @ [CHR 0x27] @ ''self'' @ [CHR 0x27]), (''x-frame-options'', ''SAMEORIGIN'')]
                 else [])
              @ [(''etag'', quoted (hex_digest (sha256 x bytes))), (''last-modified'', fmt_date (ms_dates ms) (dl_created e)),
                 (''content-length'', show_nat (length bytes))],
            rs_body = (if head_only then [] else bytes)\<rparr>))"

definition preview_response_inner :: "externals \<Rightarrow> media_services \<Rightarrow> uuid_crate \<Rightarrow> uuid \<Rightarrow> uuid \<Rightarrow> headers \<Rightarrow> bool \<Rightarrow> bool
    \<Rightarrow> store \<Rightarrow> transfer_error + http_response" where
  "preview_response_inner x ms c owner i hs head_only allow_original_media s =
     bindE (load_download_record owner i (st_db s)) (\<lambda>e.
     bindE (guardE (dl_state e = Ready) TNotFound) (\<lambda>_.
     bindE (read_storage_header c (dl_key e) (st_vol s)) (\<lambda>h.
       case document_preview_kind_of (dl_name e) h of
         Some Pdf \<Rightarrow> download_response_inner x ms c owner i hs head_only True True s
       | Some kind \<Rightarrow> document_preview_response x ms c e kind head_only (st_vol s)
       | None \<Rightarrow> download_response_inner x ms c owner i hs head_only True allow_original_media s)))"

definition preview_response :: "externals \<Rightarrow> media_services \<Rightarrow> uuid_crate \<Rightarrow> uuid \<Rightarrow> uuid \<Rightarrow> headers \<Rightarrow> bool \<Rightarrow> store
    \<Rightarrow> transfer_error + http_response" where
  "preview_response x ms c owner i hs head_only s = preview_response_inner x ms c owner i hs head_only True s"

definition preview_derivative_response :: "externals \<Rightarrow> media_services \<Rightarrow> uuid_crate \<Rightarrow> uuid \<Rightarrow> uuid \<Rightarrow> headers \<Rightarrow> bool \<Rightarrow> store
    \<Rightarrow> transfer_error + http_response" where
  "preview_derivative_response x ms c owner i hs head_only s = preview_response_inner x ms c owner i hs head_only False s"

section \<open>Thumbnails\<close>

definition thumbnail_response :: "externals \<Rightarrow> media_services \<Rightarrow> uuid_crate \<Rightarrow> uuid \<Rightarrow> uuid \<Rightarrow> headers \<Rightarrow> bool \<Rightarrow> store
    \<Rightarrow> transfer_error + http_response" where
  "thumbnail_response x ms c owner i hs head_only s =
     bindE (load_download_record owner i (st_db s)) (\<lambda>e.
     bindE (guardE (dl_state e = Ready) TNotFound) (\<lambda>_.
     bindE (preview_mime c e (st_vol s)) (\<lambda>m.
     bindE (okOr (thumbnail_variant_for_mime m) TNotFound) (\<lambda>(variant, max_bytes).
       case read_media_derivative x ms (dl_version e) variant ''image/webp'' max_bytes (st_db s) of
         Inl _ \<Rightarrow> Inl TNotFound
       | Inr None \<Rightarrow> Inl TNotFound
       | Inr (Some (bytes, checksum)) \<Rightarrow>
           let etag = quoted checksum;
               hdrs = [(''cache-control'', ''private, no-cache''), (''content-type'', ''image/webp''),
                       (''content-disposition'', ''inline; filename='' @ quoted ''thumbnail.webp''),
                       (''x-content-type-options'', ''nosniff''),
                       (''content-security-policy'', ''default-src '' @ [CHR 0x27] @ ''none'' @ [CHR 0x27] @ ''; sandbox''),
                       (''etag'', etag)] in
           if not_modified hs etag then Inr \<lparr>rs_status = 304, rs_headers = hdrs, rs_body = []\<rparr>
           else Inr \<lparr>rs_status = 200, rs_headers = hdrs @ [(''content-length'', show_nat (length bytes))],
                     rs_body = (if head_only then [] else bytes)\<rparr>))))"

end
