(* ===== verification/Downloads_Results.thy ===== *)
theory Downloads_Results
  imports Downloads Uploads_Results
begin

text \<open>
  What a reader gets: the bytes of the current version, whole or in the requested part; what
  an upload published; and, in previews, only representations that a browser may show inline.
\<close>

section \<open>The record of a visible file\<close>

lemma file_chain_visible:
  assumes ok: "drive_ok lower s" and v: "visible owner i s e"
  shows "\<not> list_ex (\<lambda>a. ent_deleted_at a \<noteq> None) (file_chain owner i s)"
proof (cases "find (\<lambda>e. ent_id e = i \<and> ent_owner e = owner \<and> ent_kind e = File) (entries s)")
  case (Some a)
  note f = drive_okD(1) [OF ok]
  have a: "a \<in> set (entries s)" "ent_id a = i" "ent_owner a = owner" using find_SomeD [OF Some] by auto
  have "set (climb (owned owner) (length (entries s)) (entries s) (ent_parent a)) \<subseteq> path_up s i"
  proof (cases "ent_parent a")
    case None
    then show ?thesis by (cases "length (entries s)") simp_all
  next
    case (Some p)
    obtain b where b: "b \<in> set (entries s)" "ent_id b = p" "ent_owner b = owner"
      using forestD(2) [OF f] a(1,3) Some unfolding parents_ok_def by metis
    have "set (climb (owned owner) (length (entries s)) (entries s) (Some p)) = path_up s p"
      using parent_chain_set [OF ok b(1,3)] by (simp add: parent_chain_def b(2))
    moreover have "(i, p) \<in> parent_rel (entries s)" using a Some by (auto simp: par_def)
    ultimately show ?thesis using Some by (auto simp: path_up_def intro: converse_rtrancl_into_rtrancl)
  qed
  moreover have "a \<in> path_up s i" using a path_up_self by blast
  ultimately show ?thesis using v Some by (auto simp: file_chain_def list_ex_iff visible_def)
qed (simp add: file_chain_def)

definition record_of :: "entry \<Rightarrow> version_row \<Rightarrow> object_row \<Rightarrow> download_record" where
  "record_of e v b = \<lparr>dl_name = ent_name e, dl_version = ver_id v, dl_size = ver_size_bytes v, dl_key = obj_storage_key b,
     dl_mime = obj_mime b, dl_checksum = obj_checksum b, dl_state = obj_state b, dl_created = ver_created_at v\<rparr>"

lemma load_visible:
  assumes ok: "drive_ok lower s" and e: "visible owner i s e" and v: "current_version s i = Some v"
    and b: "find_row obj_id (ver_object v) (objects s) = Some b"
  shows "load_download_record owner i s = Inr (record_of e v b)"
proof -
  have m: "e \<in> set (entries s)" "ent_id e = i" "ent_owner e = owner" "ent_deleted_at e = None"
    using e visible_active by (auto simp: visible_def)
  then have "find (\<lambda>e. ent_id e = i \<and> ent_owner e = owner \<and> ent_deleted_at e = None) (entries s) \<noteq> None" by (auto simp: find_None_iff)
  then obtain a where a: "find (\<lambda>e. ent_id e = i \<and> ent_owner e = owner \<and> ent_deleted_at e = None) (entries s) = Some a" by auto
  have "a = e" using find_SomeD [OF a] m distinct_key_unique [OF drive_okD(2) [OF ok]] by auto
  moreover have "ensure_active_entry owner i False s = Inr ()" using e ensure_active_iff [OF ok] by blast
  ultimately show ?thesis
    using a v b file_chain_visible [OF ok e] by (simp add: load_download_record_def tdrive_def record_of_def)
qed

section \<open>Downloads\<close>

text \<open>The \<open>httpdate\<close> crate formats the creation time of the file's current version and parses
  the result (its domain is the years 1970 to 9999).\<close>

definition date_parses :: "http_dates \<Rightarrow> uuid \<Rightarrow> db \<Rightarrow> bool" where
  "date_parses dates i s \<longleftrightarrow>
     (case current_version s i of None \<Rightarrow> True | Some v \<Rightarrow> parse_date dates (fmt_date dates (ver_created_at v)) \<noteq> None)"

text \<open>
  What the headers of a request ask for, said without the handler's own definitions. The
  client has the current representation when an \<open>If-None-Match\<close> header lists its entity tag
  or \<open>*\<close>; its \<open>Range\<close> header counts unless an \<open>If-Range\<close> header names another tag
  than the current one, a weak tag, or a date before the last modification.
\<close>

definition readable :: "string \<Rightarrow> bool" where
  "readable v \<longleftrightarrow> list_all (\<lambda>c. (32 \<le> (of_char c :: nat) \<and> (of_char c :: nat) < 127) \<or> (of_char c :: nat) = 9) v"

definition etag_listed :: "headers \<Rightarrow> string \<Rightarrow> bool" where
  "etag_listed hs etag \<longleftrightarrow>
     (\<exists>v c. (''if-none-match'', v) \<in> set hs \<and> readable v \<and> c \<in> set (split_on (CHR '','') v)
        \<and> trim_by ascii_space c \<in> {''*'', etag, ''W/'' @ etag})"

definition asked_range :: "http_dates \<Rightarrow> headers \<Rightarrow> string \<Rightarrow> instant \<Rightarrow> string option" where
  "asked_range dates hs etag modified =
     (let asked = header_str hs ''range'' in
      case map_of hs ''if-range'' of
        None \<Rightarrow> asked
      | Some v \<Rightarrow>
          if readable v \<and> \<not> starts_with v ''W/''
             \<and> (if starts_with v [CHR 0x22] then v = etag
                else (case parse_date dates v of None \<Rightarrow> False | Some t \<Rightarrow> modified \<le> t))
          then asked else None)"

text \<open>
  The answer to such a request on the stored bytes \<open>d\<close>: not modified; the whole content
  when no range counts; the bytes from \<open>a\<close> to \<open>b\<close> when the range asks for them; and an
  error only when the range asks for nothing the content has.
\<close>

definition answers_range :: "string option \<Rightarrow> bytes \<Rightarrow> http_response \<Rightarrow> bool" where
  "answers_range asked d r \<longleftrightarrow>
     (case asked of
        None \<Rightarrow> rs_status r = 200 \<and> rs_body r = d
      | Some v \<Rightarrow> rs_status r = 206 \<and> (\<exists>a b. asks_for v (length d) a b \<and> a \<le> b \<and> b < length d
          \<and> rs_body r = take (b + 1 - a) (drop a d)
          \<and> (''content-range'', content_range_header a b (length d)) \<in> set (rs_headers r)))
     \<and> (''content-length'', show_nat (length (rs_body r))) \<in> set (rs_headers r)"

definition served_part :: "http_dates \<Rightarrow> headers \<Rightarrow> string \<Rightarrow> instant \<Rightarrow> bytes \<Rightarrow> transfer_error + http_response \<Rightarrow> bool" where
  "served_part dates hs etag modified d answer \<longleftrightarrow>
     (if etag_listed hs etag then (\<exists>r. answer = Inr r \<and> rs_status r = 304 \<and> rs_body r = [])
      else case answer of
        Inr r \<Rightarrow> answers_range (asked_range dates hs etag modified) d r
      | Inl err \<Rightarrow> err = TRangeNotSatisfiable (length d)
          \<and> (\<exists>v. asked_range dates hs etag modified = Some v \<and> \<not> (\<exists>a b. asks_for v (length d) a b)))"

lemma header_str_readable: "header_str [(n, v)] n = (if readable v then Some v else None)"
  by (simp add: header_str_def readable_def)

lemma not_modified_listed: "not_modified hs etag \<longleftrightarrow> etag_listed hs etag"
proof -
  have "if_none_match_matches v etag \<longleftrightarrow>
      (\<exists>c \<in> set (split_on (CHR '','') v). trim_by ascii_space c \<in> {''*'', etag, ''W/'' @ etag})" for v
    by (auto simp: if_none_match_matches_def list_ex_iff Let_def strip_prefix_Some_iff)
  moreover have "v \<in> set (header_values hs n) \<longleftrightarrow> (n, v) \<in> set hs \<and> readable v" for n v
    by (force simp: header_values_def List.map_filter_def header_str_readable split: if_splits)
  ultimately show ?thesis by (auto simp: not_modified_def etag_listed_def list_ex_iff)
qed

lemma if_range_asked:
  "(if if_range_current dates hs etag m then header_str hs ''range'' else None) = asked_range dates hs etag m"
  by (auto simp: if_range_current_def asked_range_def if_range_matches_def header_str_def readable_def Let_def
      split: option.splits)

lemma select_part_answers:
  assumes n: "length d < 2 ^ 64"
  shows "case select_part asked (length d) of
      Inl err \<Rightarrow> err = TRangeNotSatisfiable (length d) \<and> (\<exists>v. asked = Some v \<and> \<not> (\<exists>a b. asks_for v (length d) a b))
    | Inr (st, a, len, cr) \<Rightarrow>
        answers_range asked d \<lparr>rs_status = st, rs_headers = h @ [(''content-length'', show_nat len)]
          @ (case cr of None \<Rightarrow> [] | Some r \<Rightarrow> [(''content-range'', r)]), rs_body = take len (drop a d)\<rparr>"
proof (cases asked)
  case None
  then show ?thesis by (simp add: select_part_def parse_range_def answers_range_def)
next
  case (Some v)
  note asks = parse_range_asks [OF n, of v]
  show ?thesis
  proof (cases "parse_range (Some v) (of_nat (length d))")
    case (Inl e)
    then show ?thesis using asks Some by (simp add: select_part_def)
  next
    case (Inr q)
    then obtain r where r: "parse_range (Some v) (of_nat (length d)) = Inr (Some r)" using asks by (cases q) auto
    have un: "unat (of_nat (length d) :: 64 word) = length d" using n by (simp add: unat_of_nat)
    note b = parse_range_bounds [OF r]
    have len: "unat (range_len r) = unat (range_end r) + 1 - unat (range_start r)"
      using range_len_exact [of r "of_nat (length d)"] b by (simp add: word_le_nat_alt Suc_diff_le)
    have bounds: "unat (range_start r) \<le> unat (range_end r)" "unat (range_end r) < length d"
      using b un by (simp_all add: word_le_nat_alt word_less_nat_alt)
    have "asks_for v (length d) (unat (range_start r)) (unat (range_end r))" using asks r by simp
    with bounds have "\<exists>a b. asks_for v (length d) a b \<and> a \<le> b \<and> b < length d
        \<and> take (unat (range_len r)) (drop (unat (range_start r)) d) = take (b + 1 - a) (drop a d)
        \<and> content_range_header (unat (range_start r)) (unat (range_end r)) (length d) = content_range_header a b (length d)"
      using len by (intro exI [of _ "unat (range_start r)"] exI [of _ "unat (range_end r)"]) simp
    moreover have "unat (range_len r) = length (take (unat (range_len r)) (drop (unat (range_start r)) d))"
      using bounds len by simp
    ultimately show ?thesis using r Some by (simp add: select_part_def answers_range_def) metis
  qed
qed

text \<open>The answer to a download of a visible file with a ready object.\<close>

definition plain_headers :: "http_dates \<Rightarrow> ustr \<Rightarrow> string \<Rightarrow> instant \<Rightarrow> (string \<times> string) list" where
  "plain_headers dates name k created =
     content_headers False None name @ [(''etag'', quoted k), (''last-modified'', fmt_date dates created)]"

lemma download_run:
  assumes ok: "drive_ok lower (st_db s)" and e: "visible owner i (st_db s) e" and v: "current_version (st_db s) i = Some v"
    and b: "find_row obj_id (ver_object v) (objects (st_db s)) = Some b" "obj_state b = Ready" "obj_checksum b = Some k"
    and d: "open_object c (obj_storage_key b) (st_vol s) = Inr d" "int (length d) = ver_size_bytes v"
    and m: "parse_date (ms_dates ms) (fmt_date (ms_dates ms) (ver_created_at v)) = Some m"
  shows "download_response x ms c owner i hs False s =
      (let h = plain_headers (ms_dates ms) (ent_name e) k (ver_created_at v) in
       if not_modified hs (quoted k) then Inr \<lparr>rs_status = 304, rs_headers = h, rs_body = []\<rparr>
       else bindE (select_part (if if_range_current (ms_dates ms) hs (quoted k) m then header_str hs ''range'' else None) (length d))
         (\<lambda>(st, a, len, cr).
         Inr \<lparr>rs_status = st, rs_headers = h @ [(''content-length'', show_nat len)]
                   @ (case cr of None \<Rightarrow> [] | Some r \<Rightarrow> [(''content-range'', r)]), rs_body = take len (drop a d)\<rparr>))"
proof -
  have sz: "nat (ver_size_bytes v) = length d" "0 \<le> ver_size_bytes v" using d(2) by auto
  show ?thesis
    using load_visible [OF ok e v b(1)] b(2,3) d(1) m sz
    by (simp add: download_response_def download_response_inner_def record_of_def tstore_def plain_headers_def send_part_def Let_def case_prod_unfold)
qed

text \<open>
  C21. A download of a visible file with a ready object does what the request's headers ask
  for. If an \<open>If-None-Match\<close> header lists the entity tag, the answer is 304 without content;
  if no \<open>Range\<close> header counts (there is none, or its \<open>If-Range\<close> condition fails), it is
  the whole stored content; if the range that counts asks for the bytes from \<open>a\<close> to \<open>b\<close>, it
  is 206 with exactly these bytes, the matching \<open>Content-Range\<close> and their length; and it is
  the error for an unsatisfiable range only when the range that counts asks for none.
\<close>

theorem download_serves_content:
  assumes ok: "drive_ok lower (st_db s)" and e: "visible owner i (st_db s) e" and v: "current_version (st_db s) i = Some v"
    and b: "find_row obj_id (ver_object v) (objects (st_db s)) = Some b" "obj_state b = Ready" "obj_checksum b = Some k"
    and d: "open_object c (obj_storage_key b) (st_vol s) = Inr d" "int (length d) = ver_size_bytes v" "length d < 2 ^ 64"
    and m: "parse_date (ms_dates ms) (fmt_date (ms_dates ms) (ver_created_at v)) = Some m"
  shows "served_part (ms_dates ms) hs (quoted k) m d (download_response x ms c owner i hs False s)"
proof -
  note run = download_run [OF ok e v b d(1,2) m, of x hs, unfolded not_modified_listed if_range_asked]
  show ?thesis
  proof (cases "etag_listed hs (quoted k)")
    case True
    then show ?thesis by (simp add: run served_part_def Let_def)
  next
    case False
    let ?h = "plain_headers (ms_dates ms) (ent_name e) k (ver_created_at v)"
    let ?a = "asked_range (ms_dates ms) hs (quoted k) m"
    note sel = select_part_answers [OF d(3), of ?a ?h]
    show ?thesis
    proof (cases "select_part ?a (length d)")
      case (Inl err)
      then show ?thesis using sel False by (simp add: run served_part_def Let_def)
    next
      case (Inr q)
      obtain st a len cr where "q = (st, a, len, cr)" by (cases q)
      then show ?thesis using sel False Inr by (simp add: run served_part_def Let_def)
    qed
  qed
qed

section \<open>From an upload to a download\<close>

text \<open>
  C22. What was uploaded is what is downloaded: after a successful finalization of an active
  upload, an unconditional download of the file by its owner answers with status 200 and
  exactly the staged bytes, tagged with their SHA-256 digest.
\<close>

theorem upload_download_roundtrip:
  assumes ok: "store_ok (sql_lower x) s" and fin: "finalize_upload x st c env user hs i s = (s', Inr r)"
    and u: "fetch_upload (au_id user) i (st_db s) = Inr u" "upl_state u = Active"
    and d: "vol_staging (st_vol s) (upl_staging_key u) = Some d"
    and dates: "date_parses (ms_dates ms) (uf_file r) (st_db s')"
    and req: "header_values hs2 ''if-none-match'' = []" "header_str hs2 ''range'' = None"
  shows "\<exists>a. download_response x ms c (au_id user) (uf_file r) hs2 False s' = Inr a \<and> rs_status a = 200 \<and> rs_body a = d
           \<and> (''etag'', quoted (hex_digest (sha256 x d))) \<in> set (rs_headers a)
           \<and> (''content-length'', show_nat (length d)) \<in> set (rs_headers a)"
proof -
  obtain key e where p: "published x c d r s' key" and e: "visible (au_id user) (uf_file r) (st_db s') e"
    using finalize_effect [OF ok fin u d] by blast
  have "store_ok (sql_lower x) s'" using finalize_upload_ok [OF ok, of st c env user hs i] by (simp add: fin)
  then have ok': "drive_ok (sql_lower x) (st_db s')" by (rule store_okD(1))
  from p obtain v b where v: "current_version (st_db s') (uf_file r) = Some v" "int (length d) = ver_size_bytes v"
    and b: "find_row obj_id (ver_object v) (objects (st_db s')) = Some b" "obj_state b = Ready"
      "obj_checksum b = Some (hex_digest (sha256 x d))"
    and o: "open_object c (obj_storage_key b) (st_vol s') = Inr d"
    by (auto simp: published_def)
  have sel: "select_part (if z then header_str hs2 ''range'' else None) (length d) = Inr (200, 0, length d, None)" for z
    by (simp add: req select_part_def parse_range_def)
  obtain m where "parse_date (ms_dates ms) (fmt_date (ms_dates ms) (ver_created_at v)) = Some m"
    using dates v(1) by (auto simp: date_parses_def)
  from download_run [OF ok' e v(1) b o v(2) this, of x hs2]
  show ?thesis by (simp add: not_modified_def req(1) sel Let_def plain_headers_def)
qed

section \<open>Previews\<close>

text \<open>
  An answer that a browser may show inline: its only content type is on the allow-list or is
  plain text, and sniffing is off.
\<close>

definition inline_safe :: "http_response \<Rightarrow> bool" where
  "inline_safe r \<longleftrightarrow>
     (\<exists>t. {v. (''content-type'', v) \<in> set (rs_headers r)} = {t} \<and> t \<in> set (''text/plain; charset=utf-8'' # safe_preview_mimes))
     \<and> (''x-content-type-options'', ''nosniff'') \<in> set (rs_headers r)"

text \<open>The body is a part of a stored derivative that passed the checks of \<^const>\<open>read_derivative\<close>.\<close>

definition from_derivative :: "externals \<Rightarrow> media_services \<Rightarrow> uuid \<Rightarrow> db \<Rightarrow> http_response \<Rightarrow> bool" where
  "from_derivative x ms v s r \<longleftrightarrow>
     (\<exists>bytes k a n. (read_viewer_derivative x ms v s = Inr (Some (bytes, k)) \<or> read_video_preview x ms v s = Inr (Some (bytes, k)))
        \<and> map char_lower (hex_digest (sha256 x bytes)) = map char_lower k \<and> rs_body r = take n (drop a bytes))"

lemma content_type_headers:
  "{v. (''content-type'', v) \<in> set (content_headers inline mime name)}
     = {case mime of None \<Rightarrow> ''application/octet-stream'' | Some m \<Rightarrow> m}"
  by (auto simp: content_headers_def)

lemma preview_mime_safe:
  assumes "preview_mime c e v = Inr (Some m)"
  shows "m \<in> set safe_preview_mimes"
proof (cases "dl_mime e")
  case None
  with assms obtain h where "sniff_media_type h = Some m"
    by (auto simp: preview_mime_def sniff_storage_def result_simps)
  then show ?thesis by (rule sniffed_types)
next
  case (Some t)
  with assms show ?thesis by (auto simp: preview_mime_def safe_preview_mime_def split: if_splits)
qed

lemma use_derivative_Inr:
  assumes "use_derivative allow mime found = Inr q"
  shows "q = None \<and> allow \<or> (\<exists>bytes k. q = Some (bytes, mime, k) \<and> found = Inr (Some (bytes, k)))"
proof (cases found)
  case (Inl e)
  then show ?thesis using assms by (simp add: use_derivative_def split: if_splits)
next
  case (Inr z)
  then show ?thesis using assms by (cases z) (auto simp: use_derivative_def split: if_splits)
qed

lemma choose_derivative_Inr:
  assumes "choose_derivative x ms allow mime v s = Inr q"
  shows "q = None \<and> allow \<or> (\<exists>bytes m k. q = Some (bytes, m, k) \<and> m \<in> {''image/webp'', ''video/mp4''} \<and>
     (read_viewer_derivative x ms v s = Inr (Some (bytes, k)) \<or> read_video_preview x ms v s = Inr (Some (bytes, k))))"
  using assms unfolding choose_derivative_def by (auto split: if_splits dest!: use_derivative_Inr)

lemma derivative_checksum:
  assumes "read_media_derivative x ms v variant mime n s = Inr (Some (bytes, k))"
  shows "map char_lower (hex_digest (sha256 x bytes)) = map char_lower k"
  using assms unfolding read_media_derivative_def
  by (auto split: option.splits if_splits sum.splits elim: read_derivative_Inr)

lemma send_part_Inr:
  assumes "send_part dates hs head_only etag m hdrs n content = Inr r"
  obtains tail where "rs_headers r = hdrs @ tail" and "fst ` set tail \<subseteq> {''content-length'', ''content-range''}"
    and "rs_body r = [] \<or> (\<exists>d a len. content = Inr d \<and> rs_body r = take len (drop a d))"
proof (cases "not_modified hs etag")
  case True
  then show thesis using assms by (intro that [of "[]"]) (auto simp: send_part_def)
next
  case False
  with assms obtain q where q: "select_part (if if_range_current dates hs etag m then header_str hs ''range'' else None) n = Inr q"
    by (auto simp: send_part_def bindE_Inr_iff)
  obtain st a len cr where "q = (st, a, len, cr)" by (cases q)
  with q assms False show thesis
    by (intro that [of "[(''content-length'', show_nat len)] @ (case cr of None \<Rightarrow> [] | Some r \<Rightarrow> [(''content-range'', r)])"])
      (auto simp: send_part_def Let_def result_simps split: if_splits option.splits, blast+)
qed

lemma derivative_types: "''image/webp'' \<in> set safe_preview_mimes" "''video/mp4'' \<in> set safe_preview_mimes"
  by code_simp+

lemma download_inner_inline:
  assumes r: "download_response_inner x ms c owner i hs head_only True allow s = Inr r"
    and e: "load_download_record owner i (st_db s) = Inr e"
  shows "inline_safe r \<and> (allow \<or> from_derivative x ms (dl_version e) (st_db s) r)"
proof -
  from r e obtain mime der sz etag m where m: "preview_mime c e (st_vol s) = Inr (Some mime)"
    and der: "choose_derivative x ms allow (Some mime) (dl_version e) (st_db s) = Inr der"
    and send: "send_part (ms_dates ms) hs head_only etag m
       (content_headers True (case der of None \<Rightarrow> Some mime | Some (_, m, _) \<Rightarrow> Some m) (dl_name e)
         @ [(''etag'', etag), (''last-modified'', fmt_date (ms_dates ms) (dl_created e))]) sz
         (case der of Some (bytes, _) \<Rightarrow> Inr bytes | None \<Rightarrow> tstore (open_object c (dl_key e) (st_vol s))) = Inr r"
    by (simp only: download_response_inner_def bindE_simps if_True bindE_Inr_iff guardE_Inr_iff okOr_Inr_iff Let_def) blast
  let ?content = "case der of Some (bytes, _) \<Rightarrow> Inr bytes | None \<Rightarrow> tstore (open_object c (dl_key e) (st_vol s))"
  let ?t = "case der of None \<Rightarrow> mime | Some (_, m, _) \<Rightarrow> m"
  note ch = choose_derivative_Inr [OF der]
  have t: "?t \<in> set safe_preview_mimes"
    using ch preview_mime_safe [OF m] derivative_types by auto
  from send show ?thesis
  proof (rule send_part_Inr)
    fix tail
    assume h: "rs_headers r = (content_headers True (case der of None \<Rightarrow> Some mime | Some (_, m, _) \<Rightarrow> Some m) (dl_name e)
         @ [(''etag'', etag), (''last-modified'', fmt_date (ms_dates ms) (dl_created e))]) @ tail"
      and tail: "fst ` set tail \<subseteq> {''content-length'', ''content-range''}"
      and body: "rs_body r = [] \<or> (\<exists>d a len. ?content = Inr d \<and> rs_body r = take len (drop a d))"
    have "(''content-type'', z) \<notin> set tail" for z using tail by (auto dest!: subsetD [OF _ imageI])
    then have "{v. (''content-type'', v) \<in> set (rs_headers r)} =
        {v. (''content-type'', v) \<in> set (content_headers True (case der of None \<Rightarrow> Some mime | Some (_, m, _) \<Rightarrow> Some m) (dl_name e))}"
      by (simp add: h)
    also have "\<dots> = {?t}" by (simp add: content_type_headers split: option.split)
    finally have "{v. (''content-type'', v) \<in> set (rs_headers r)} = {?t}" .
    moreover have "(''x-content-type-options'', ''nosniff'') \<in> set (rs_headers r)" by (simp add: h content_headers_def)
    ultimately have "inline_safe r" using t by (auto simp: inline_safe_def)
    moreover have "from_derivative x ms (dl_version e) (st_db s) r" if "\<not> allow"
    proof -
      from ch that obtain bytes m k where q: "der = Some (bytes, m, k)"
        and rd: "read_viewer_derivative x ms (dl_version e) (st_db s) = Inr (Some (bytes, k)) \<or>
          read_video_preview x ms (dl_version e) (st_db s) = Inr (Some (bytes, k))" by blast
      have "map char_lower (hex_digest (sha256 x bytes)) = map char_lower k"
        using rd by (auto simp: read_viewer_derivative_def read_video_preview_def dest: derivative_checksum)
      moreover have "\<exists>a n. rs_body r = take n (drop a bytes)"
        using body
      proof
        assume "rs_body r = []"
        then show ?thesis by (intro exI [of _ 0]) simp
      next
        assume "\<exists>d a len. ?content = Inr d \<and> rs_body r = take len (drop a d)"
        then show ?thesis using q by auto
      qed
      ultimately show ?thesis using rd unfolding from_derivative_def by blast
    qed
    ultimately show ?thesis by blast
  qed
qed

lemma document_response_safe:
  assumes "document_preview_response x ms c e kind head_only v = Inr r"
  shows "inline_safe r"
proof -
  from assms obtain bytes mime where d: "document_bytes ms c e kind v = Inr (bytes, mime)"
    and r: "{t. (''content-type'', t) \<in> set (rs_headers r)} = {mime}"
      "(''x-content-type-options'', ''nosniff'') \<in> set (rs_headers r)"
    by (auto simp: document_preview_response_def bindE_Inr_iff)
  have "mime \<in> {''text/plain; charset=utf-8'', ''application/pdf''}"
    using d by (cases kind) (auto simp: document_bytes_def bindE_Inr_iff)
  then show ?thesis using r by (auto simp: inline_safe_def safe_preview_mimes_def)
qed

text \<open>
  C23. Every successful preview is safe to show inline: its content type is on the allow-list
  or plain text, and sniffing is switched off. A preview for the people a file is shared with,
  which must not hand out original media, answers with a part of a checked derivative, unless
  the stored bytes are a document (PDF, text or an office format) by their signature.
\<close>

theorem preview_safe:
  assumes r: "preview_response_inner x ms c owner i hs head_only allow s = Inr r"
  shows "inline_safe r \<and> (\<exists>e h. load_download_record owner i (st_db s) = Inr e \<and> read_storage_header c (dl_key e) (st_vol s) = Inr h
           \<and> (allow \<or> document_preview_kind_of (dl_name e) h \<noteq> None \<or> from_derivative x ms (dl_version e) (st_db s) r))"
proof -
  from r obtain e h where e: "load_download_record owner i (st_db s) = Inr e" and h: "read_storage_header c (dl_key e) (st_vol s) = Inr h"
    and k: "(case document_preview_kind_of (dl_name e) h of
         Some Pdf \<Rightarrow> download_response_inner x ms c owner i hs head_only True True s
       | Some kind \<Rightarrow> document_preview_response x ms c e kind head_only (st_vol s)
       | None \<Rightarrow> download_response_inner x ms c owner i hs head_only True allow s) = Inr r"
    by (auto simp: preview_response_inner_def bindE_Inr_iff)
  show ?thesis
  proof (cases "document_preview_kind_of (dl_name e) h")
    case None
    then show ?thesis using k e h download_inner_inline [OF _ e] by auto
  next
    case (Some kind)
    have "inline_safe r"
    proof (cases "kind = Pdf")
      case True
      then show ?thesis using Some k download_inner_inline [OF _ e] by auto
    next
      case False
      then have "document_preview_response x ms c e kind head_only (st_vol s) = Inr r" using Some k by (cases kind) auto
      then show ?thesis by (rule document_response_safe)
    qed
    then show ?thesis using e h Some by auto
  qed
qed

section \<open>Witnesses\<close>

definition sample_media :: media_services where
  "sample_media = \<lparr>ms_dates = \<lparr>fmt_date = (\<lambda>t. show_nat (nat t)), parse_date = (\<lambda>t. Some 0)\<rparr>, ms_previews = None, ms_convert = None\<rparr>"

lemma sample_dates: "parse_date (ms_dates sample_media) t = Some 0" "date_parses (ms_dates sample_media) i s"
  by (simp_all add: date_parses_def sample_media_def split: option.splits)

theorem upload_download_roundtrip_witness:
  "\<exists>r a. snd sample_final = Inr r \<and> download_response sample_externals sample_media sample_crate 1 (uf_file r) [] False (fst sample_final) = Inr a
     \<and> rs_status a = 200 \<and> rs_body a = ''abc''"
proof -
  obtain s' r where f: "finalize_upload sample_externals sample_settings sample_crate sample_finalize (sample_actor 1) [] 40
      (sample_store 3 ''abc'') = (s', Inr r)" and s: "sample_final = (s', Inr r)" by (rule sample_final_run)
  have "au_id (sample_actor 1) = 1" by (simp add: sample_actor_def from_api_def)
  then show ?thesis
    using upload_download_roundtrip [OF sample_store_ok f, of "sample_upload 3" "''abc''" sample_media "[]"] sample_fetch sample_dates(2)
    by (auto simp: s sample_store_def sample_volume_def sample_upload_def header_values_def header_str_def List.map_filter_def)
qed

text \<open>A stored PDF file, with the given shares.\<close>

definition sample_pdf :: "share_row list \<Rightarrow> access_row list \<Rightarrow> store" where
  "sample_pdf rs acs = \<lparr>st_db = sample_drive\<lparr>shares := rs, access_sessions := acs, objects := [\<lparr>obj_id = 21, obj_storage_key = storage_key sample_crate 50, obj_size_bytes = 5,
       obj_checksum = Some ''00'', obj_mime = None, obj_state = Ready, obj_created_at = 0, obj_last_checked_at = None\<rparr>]\<rparr>,
     st_vol = \<lparr>vol_mounted = Inr (), vol_staging = (\<lambda>_. None), vol_dirs = (\<lambda>_. Some Directory),
       vol_objects = (\<lambda>_. Some (Regular ''%PDF-''))\<rparr>\<rparr>"

lemma sample_pdf_ok: "drive_ok (sql_lower sample_externals) (st_db (sample_pdf rs acs))"
  using sample_drive_ok by (simp add: sample_pdf_def drive_ok_def tree_ok_def sample_drive_def rows_ok_def)

lemma sample_pdf_visible: "\<exists>e. visible 1 12 (st_db (sample_pdf rs acs)) e"
proof -
  have "ensure_active_entry 1 12 False (st_db (sample_pdf rs acs)) = Inr ()"
    by (simp add: ensure_active_entry_def parent_chain_def owned_def sample_pdf_def sample_drive_def sample_entries_def new_entry_def)
  then show ?thesis using ensure_active_iff [OF sample_pdf_ok] by blast
qed

lemma sample_pdf_rows:
  "current_version (st_db (sample_pdf rs acs)) 12 = Some (hd (versions sample_drive))"
  "find_row obj_id (ver_object (hd (versions sample_drive))) (objects (st_db (sample_pdf rs acs))) = Some (hd (objects (st_db (sample_pdf rs acs))))"
  by (simp_all add: current_version_def find_row_def sample_pdf_def sample_drive_def)

lemma sample_pdf_open: "open_object sample_crate (storage_key sample_crate 50) (st_vol (sample_pdf rs acs)) = Inr ''%PDF-''"
  by (simp add: open_object_def ensure_object_parent_def sample_key sample_pdf_def)

theorem download_serves_content_witness:
  "served_part (ms_dates sample_media) [(''range'', ''bytes=1-2'')] (quoted ''00'') 0 ''%PDF-''
     (download_response sample_externals sample_media sample_crate 1 12 [(''range'', ''bytes=1-2'')] False (sample_pdf [] []))
   \<and> asks_for ''bytes=1-2'' 5 1 2"
proof -
  obtain e where e: "visible 1 12 (st_db (sample_pdf [] [])) e" using sample_pdf_visible by blast
  have "asks_for (''bytes='' @ ''1'' @ ''-'' @ ''2'') 5 1 (min 2 (5 - 1))"
    by (rule asks_for.between) (simp_all add: parse_unsigned_def is_digit_def digits_value_def digit_value_def)
  moreover have "served_part (ms_dates sample_media) [(''range'', ''bytes=1-2'')] (quoted ''00'') 0 ''%PDF-''
     (download_response sample_externals sample_media sample_crate 1 12 [(''range'', ''bytes=1-2'')] False (sample_pdf [] []))"
    by (rule download_serves_content [OF sample_pdf_ok e sample_pdf_rows _ _ _ _ _ sample_dates(1)])
      (use sample_pdf_open [of "[]" "[]"] in \<open>simp_all add: sample_pdf_def sample_drive_def\<close>)
  ultimately show ?thesis by simp
qed

lemma sample_pdf_header:
  "document_preview_kind_of n ''%PDF-'' = Some Pdf" "sniff_media_type ''%PDF-'' = Some ''application/pdf''"
  "supports_viewer_derivative (Some ''application/pdf'') = False" "supports_video_preview (Some ''application/pdf'') = False"
  by (simp add: document_preview_kind_of_def starts_with_def) code_simp+

lemma sample_pdf_preview:
  obtains r where "preview_response_inner sample_externals sample_media sample_crate 1 12 [] False allow (sample_pdf rs acs) = Inr r"
proof -
  obtain e where e: "visible 1 12 (st_db (sample_pdf rs acs)) e" using sample_pdf_visible by blast
  have l: "load_download_record 1 12 (st_db (sample_pdf rs acs))
      = Inr (record_of e (hd (versions sample_drive)) (hd (objects (st_db (sample_pdf rs acs)))))"
    by (rule load_visible [OF sample_pdf_ok e sample_pdf_rows])
  have "isOk (preview_response_inner sample_externals sample_media sample_crate 1 12 [] False allow (sample_pdf rs acs))"
    using l sample_pdf_open [of rs acs]
    by (simp add: preview_response_inner_def download_response_inner_def read_storage_header_def record_of_def tstore_def preview_mime_def
        sniff_storage_def sample_pdf_header choose_derivative_def send_part_def select_part_def parse_range_def not_modified_def header_values_def
        header_str_def List.map_filter_def sample_media_def sample_drive_def sample_pdf_def Let_def)
  then show thesis using that by (auto simp: isOk_iff)
qed

theorem preview_safe_witness:
  "\<exists>r. preview_derivative_response sample_externals sample_media sample_crate 1 12 [] False (sample_pdf [] []) = Inr r \<and> inline_safe r"
proof -
  obtain r where r: "preview_response_inner sample_externals sample_media sample_crate 1 12 [] False False (sample_pdf [] []) = Inr r"
    by (rule sample_pdf_preview)
  then show ?thesis using preview_safe [OF r] by (simp add: preview_derivative_response_def)
qed

end
