(* ===== verification/Shares.thy ===== *)
theory Shares
  imports Downloads
begin

text \<open>
  Public links to files, folders and albums (\<open>src/shares.rs\<close>): creation and revocation
  by the owner, access by anyone who holds the link, the optional password with its lockout
  and its access cookie, and the download limit. A handler maps the database (or the store, when
  it also reads objects) to the state it leaves and its result. The kind of the shared resource
  is \<open>Some File\<close>, \<open>Some Folder\<close> or, for an album, \<open>None\<close>.
\<close>

section \<open>Errors\<close>

datatype share_error =
    ShBadRequest | ShNotFound | ShForbidden | ShPasswordRequired | ShInvalidPassword | ShTooManyAttempts nat
  | ShGone | ShConflict | ShCrypto | ShDatabase db_error | ShDrive drive_error | ShTransfer transfer_error

text \<open>Status, code and \<open>Retry-After\<close>; errors of the drive and of transfers answer for themselves.\<close>

definition share_error_response :: "share_error \<Rightarrow> (nat \<times> string \<times> nat option) option" where
  "share_error_response e =
     (case e of
        ShBadRequest \<Rightarrow> Some (400, ''invalid_request'', None)
      | ShNotFound \<Rightarrow> Some (404, ''not_found'', None)
      | ShForbidden \<Rightarrow> Some (403, ''download_disabled'', None)
      | ShPasswordRequired \<Rightarrow> Some (401, ''password_required'', None)
      | ShInvalidPassword \<Rightarrow> Some (401, ''invalid_password'', None)
      | ShTooManyAttempts n \<Rightarrow> Some (429, ''too_many_attempts'', Some (max n 1))
      | ShGone \<Rightarrow> Some (410, ''share_unavailable'', None)
      | ShConflict \<Rightarrow> Some (409, ''conflict'', None)
      | ShCrypto \<Rightarrow> Some (503, ''service_unavailable'', None)
      | ShDatabase _ \<Rightarrow> Some (503, ''service_unavailable'', None)
      | ShDrive _ \<Rightarrow> None
      | ShTransfer _ \<Rightarrow> None)"

definition map_share_error :: "db_error \<Rightarrow> share_error" where
  "map_share_error e =
     (case e of
        UniqueViolation \<Rightarrow> ShConflict
      | CheckViolation \<Rightarrow> ShConflict
      | ForeignKeyViolation \<Rightarrow> ShNotFound
      | OtherDbError \<Rightarrow> ShDatabase OtherDbError)"

definition shsql :: "db_error + 'a \<Rightarrow> share_error + 'a" where
  "shsql m = mapErr map_share_error m"

definition shdrive :: "drive_error + 'a \<Rightarrow> share_error + 'a" where
  "shdrive m = mapErr ShDrive m"

definition shtransfer :: "transfer_error + 'a \<Rightarrow> share_error + 'a" where
  "shtransfer m = mapErr ShTransfer m"

section \<open>Tokens and pages\<close>

definition SHARE_TOKEN_BYTES :: nat where "SHARE_TOKEN_BYTES = 32"
definition ACCESS_GRANT_TTL_SECONDS :: int where "ACCESS_GRANT_TTL_SECONDS = 30 * 60"
definition PASSWORD_MIN_BYTES :: nat where "PASSWORD_MIN_BYTES = 8"
definition PASSWORD_MAX_BYTES :: nat where "PASSWORD_MAX_BYTES = 128"
definition PASSWORD_FAILURE_LIMIT :: int where "PASSWORD_FAILURE_LIMIT = 5"
definition PASSWORD_LOCKOUT_SECONDS :: int where "PASSWORD_LOCKOUT_SECONDS = 15 * 60"
definition ACCESS_COOKIE_NAME :: string where "ACCESS_COOKIE_NAME = ''my_drive_share_access''"

definition page_values :: "nat option \<Rightarrow> int option \<Rightarrow> share_error + nat \<times> nat" where
  "page_values limit offset =
     (let l = (case limit of None \<Rightarrow> 50 | Some l \<Rightarrow> l);
          n = (case offset of None \<Rightarrow> 0 | Some n \<Rightarrow> n) in
      if l = 0 \<or> l > 100 \<or> \<not> (0 \<le> n \<and> n \<le> 1000000) then Inl ShBadRequest else Inr (l, nat n))"

definition verify_password :: "externals \<Rightarrow> string \<Rightarrow> ustr \<Rightarrow> bool" where
  "verify_password x encoded_hash password \<longleftrightarrow> hash_parses x encoded_hash \<and> verify_hash x encoded_hash password"

definition share_token_digest :: "externals \<Rightarrow> string \<Rightarrow> share_error + bytes" where
  "share_token_digest x token =
     bindE (guardE (\<not> length token > 64) ShNotFound) (\<lambda>_.
     bindE (okOr (b64_decode x token) ShNotFound) (\<lambda>raw.
     bindE (guardE (length raw = SHARE_TOKEN_BYTES) ShNotFound) (\<lambda>_. Inr (sha256 x raw))))"

section \<open>Creating, listing and revoking\<close>

record share_request =
  cs_type :: "kind option"
  cs_resource :: uuid
  cs_expires_at :: "instant option"
  cs_password :: "ustr option"
  cs_allow_download :: "bool option"
  cs_max_downloads :: "nat option"

record created_share =
  cr_id :: uuid
  cr_share_url :: string
  cr_request :: share_request
  cr_password_protected :: bool

text \<open>What a request draws: its instant, the identifier and the token of the share, the password's salt.\<close>

record share_env =
  sn_now :: instant
  sn_id :: uuid
  sn_token :: "bytes option"
  sn_salt :: bytes

definition share_target_check :: "share_row \<Rightarrow> bool" where
  "share_target_check r \<longleftrightarrow>
     (if shr_resource_kind r = None then shr_album r \<noteq> None \<and> shr_resource r = None
      else shr_resource r \<noteq> None \<and> shr_album r = None)"

definition insert_share :: "share_row \<Rightarrow> db \<Rightarrow> db_error + db" where
  "insert_share r s =
     bindE (guardE (length (shr_token_digest r) = 32 \<and> share_target_check r
              \<and> (case shr_max_downloads r of None \<Rightarrow> True | Some n \<Rightarrow> 0 < n)
              \<and> 0 \<le> shr_download_count r \<and> 0 \<le> shr_failed_attempts r) CheckViolation) (\<lambda>_.
     bindE (guardE (\<forall>q \<in> set (shares s). shr_id q \<noteq> shr_id r \<and> shr_token_digest q \<noteq> shr_token_digest r) UniqueViolation) (\<lambda>_.
     bindE (guardE (shr_owner r \<in> usr_id ` set (users s)
              \<and> (case shr_resource r of None \<Rightarrow> True | Some i \<Rightarrow> i \<in> ent_id ` set (entries s))
              \<and> (case shr_album r of None \<Rightarrow> True | Some a \<Rightarrow> a \<in> alb_id ` set (albums s))
              \<and> (case shr_api_key r of None \<Rightarrow> True | Some k \<Rightarrow> k \<in> apk_id ` set (api_keys s))) ForeignKeyViolation) (\<lambda>_.
       Inr (s\<lparr>shares := shares s @ [r]\<rparr>))))"

definition live_key :: "instant \<Rightarrow> api_key_row \<Rightarrow> bool" where
  "live_key now k \<longleftrightarrow> apk_revoked_at k = None \<and> (case apk_expires_at k of None \<Rightarrow> True | Some t \<Rightarrow> t > now)"

definition has_album :: "uuid \<Rightarrow> uuid \<Rightarrow> db \<Rightarrow> bool" where
  "has_album a owner s \<longleftrightarrow> list_ex (\<lambda>r. alb_id r = a \<and> alb_owner r = owner) (albums s)"

definition kind_of :: "uuid \<Rightarrow> uuid \<Rightarrow> db \<Rightarrow> kind option" where
  "kind_of i owner s = map_option ent_kind (find (\<lambda>e. ent_id e = i \<and> ent_owner e = owner) (entries s))"

text \<open>The checks on the request, ending with the two target columns.\<close>

definition share_target :: "instant \<Rightarrow> uuid \<Rightarrow> share_request \<Rightarrow> db \<Rightarrow> share_error + uuid option \<times> uuid option" where
  "share_target now owner q s =
     bindE (guardE (\<not> (case cs_expires_at q of None \<Rightarrow> False | Some t \<Rightarrow> t \<le> now)) ShBadRequest) (\<lambda>_.
     bindE (guardE (\<not> (case cs_password q of None \<Rightarrow> False
              | Some p \<Rightarrow> text_len p < PASSWORD_MIN_BYTES \<or> text_len p > PASSWORD_MAX_BYTES)) ShBadRequest) (\<lambda>_.
     bindE (guardE (case cs_max_downloads q of None \<Rightarrow> True | Some n \<Rightarrow> n < 2 ^ 63) ShBadRequest) (\<lambda>_.
     bindE (guardE (\<not> (case cs_max_downloads q of None \<Rightarrow> False | Some n \<Rightarrow> n = 0)) ShBadRequest) (\<lambda>_.
       case cs_type q of
         None \<Rightarrow> bindE (guardE (has_album (cs_resource q) owner s) ShNotFound) (\<lambda>_. Inr (None, Some (cs_resource q)))
       | Some k \<Rightarrow>
           bindE (shdrive (ensure_active_entry owner (cs_resource q) (k = Folder) s)) (\<lambda>_.
           bindE (guardE (kind_of (cs_resource q) owner s = Some k) ShBadRequest) (\<lambda>_. Inr (Some (cs_resource q), None)))))))"

definition new_share :: "share_env \<Rightarrow> auth_user \<Rightarrow> share_request \<Rightarrow> uuid option \<Rightarrow> uuid option \<Rightarrow> bytes \<Rightarrow> string option \<Rightarrow> share_row" where
  "new_share env user q resource album digest password_hash =
     \<lparr>shr_id = sn_id env, shr_owner = au_id user, shr_resource_kind = cs_type q, shr_resource = resource, shr_album = album,
      shr_token_digest = digest, shr_password_hash = password_hash, shr_expires_at = cs_expires_at q,
      shr_revoked_at = None, shr_allow_download = (case cs_allow_download q of None \<Rightarrow> True | Some b \<Rightarrow> b),
      shr_max_downloads = map_option int (cs_max_downloads q), shr_download_count = 0, shr_failed_attempts = 0,
      shr_locked_until = None, shr_created_at = sn_now env, shr_last_accessed_at = None, shr_api_key = au_api_key user\<rparr>"

definition create_share :: "externals \<Rightarrow> auth_settings \<Rightarrow> share_env \<Rightarrow> auth_user \<Rightarrow> headers \<Rightarrow> share_request \<Rightarrow> db
    \<Rightarrow> db \<times> (share_error + created_share)" where
  "create_share x settings env user hs q s =
     (case bindE (shdrive (require_request_csrf x hs user settings)) (\<lambda>_.
           bindE (share_target (sn_now env) (au_id user) q s) (\<lambda>(resource, album).
           bindE (case cs_password q of
                    None \<Rightarrow> Inr None
                  | Some p \<Rightarrow> bindE (okOr (hash_password x (sn_salt env) p) ShCrypto) (\<lambda>h. Inr (Some h))) (\<lambda>password_hash.
           bindE (okOr (secure_token x (sn_token env)) ShCrypto) (\<lambda>(raw, token).
           bindE (guardE (case au_api_key user of
                    None \<Rightarrow> True
                  | Some k \<Rightarrow> list_ex (\<lambda>r. apk_id r = k \<and> apk_owner r = au_id user \<and> live_key (sn_now env) r) (api_keys s))
                  ShForbidden) (\<lambda>_.
           bindE (shsql (insert_share (new_share env user q resource album (sha256 x raw) password_hash) s)) (\<lambda>s1.
             Inr (add_audit ''share_created'' (Some (au_id user)) (Some (cs_resource q)) s1,
                  \<lparr>cr_id = sn_id env, cr_share_url = ''/s/'' @ token, cr_request = q,
                   cr_password_protected = (password_hash \<noteq> None)\<rparr>))))))) of
        Inl e \<Rightarrow> (s, Inl e)
      | Inr (s', r) \<Rightarrow> (s', Inr r))"

record share_summary =
  ss_share :: share_row
  ss_resource_name :: "ustr option"

definition share_name :: "db \<Rightarrow> share_row \<Rightarrow> ustr option" where
  "share_name s r =
     (case (case shr_resource r of None \<Rightarrow> None
            | Some i \<Rightarrow> find (\<lambda>e. ent_id e = i \<and> ent_owner e = shr_owner r) (entries s)) of
        Some e \<Rightarrow> Some (ent_name e)
      | None \<Rightarrow> (case shr_album r of None \<Rightarrow> None
            | Some a \<Rightarrow> map_option alb_name (find (\<lambda>b. alb_id b = a \<and> alb_owner b = shr_owner r) (albums s))))"

definition list_shares :: "auth_user \<Rightarrow> nat option \<Rightarrow> int option \<Rightarrow> db \<Rightarrow> share_error + share_summary list \<times> nat option" where
  "list_shares user limit offset s =
     bindE (page_values limit offset) (\<lambda>(limit, offset).
       let rows = sort_key (\<lambda>r. - shr_created_at r) (sort_key shr_id (filter (\<lambda>r. shr_owner r = au_id user) (shares s)));
           fetched = take (limit + 1) (drop offset rows) in
       Inr (map (\<lambda>r. \<lparr>ss_share = r, ss_resource_name = share_name s r\<rparr>) (take limit fetched),
            if limit < length fetched then Some (offset + limit) else None))"

definition revoke_share :: "externals \<Rightarrow> auth_settings \<Rightarrow> auth_user \<Rightarrow> headers \<Rightarrow> instant \<Rightarrow> uuid \<Rightarrow> db
    \<Rightarrow> db \<times> (share_error + unit)" where
  "revoke_share x settings user hs now i s =
     (case bindE (shdrive (require_request_csrf x hs user settings)) (\<lambda>_.
             okOr (find (\<lambda>r. shr_id r = i \<and> shr_owner r = au_id user) (shares s)) ShNotFound) of
        Inl e \<Rightarrow> (s, Inl e)
      | Inr r \<Rightarrow>
          (add_audit ''share_revoked'' (Some (au_id user)) (case shr_resource r of None \<Rightarrow> shr_album r | Some i \<Rightarrow> Some i)
             (s\<lparr>shares := update_where (\<lambda>r. shr_id r = i \<and> shr_owner r = au_id user)
                  (\<lambda>r. r\<lparr>shr_revoked_at := (case shr_revoked_at r of None \<Rightarrow> Some now | Some t \<Rightarrow> Some t)\<rparr>) (shares s),
                access_sessions := filter (\<lambda>a. acc_share a \<noteq> i) (access_sessions s)\<rparr>), Inr ()))"

section \<open>Looking up a share\<close>

definition live_share :: "instant \<Rightarrow> share_row \<Rightarrow> bool" where
  "live_share now r \<longleftrightarrow> shr_revoked_at r = None \<and> (case shr_expires_at r of None \<Rightarrow> True | Some t \<Rightarrow> t > now)"

definition fetch_active_share :: "externals \<Rightarrow> instant \<Rightarrow> string \<Rightarrow> db \<Rightarrow> share_error + share_row" where
  "fetch_active_share x now token s =
     bindE (share_token_digest x token) (\<lambda>digest.
     bindE (okOr (find (\<lambda>r. shr_token_digest r = digest \<and> live_share now r) (shares s)) ShNotFound) (\<lambda>r.
       case shr_resource_kind r of
         None \<Rightarrow>
           bindE (okOr (shr_album r) ShNotFound) (\<lambda>a.
           bindE (guardE (has_album a (shr_owner r) s) ShNotFound) (\<lambda>_. Inr r))
       | Some k \<Rightarrow>
           bindE (okOr (shr_resource r) ShNotFound) (\<lambda>i.
           bindE (shdrive (ensure_active_entry (shr_owner r) i (k = Folder) s)) (\<lambda>_.
           bindE (guardE (kind_of i (shr_owner r) s = Some k) ShNotFound) (\<lambda>_. Inr r)))))"

definition subject_id :: "share_row \<Rightarrow> share_error + uuid" where
  "subject_id r = okOr (case shr_resource r of None \<Rightarrow> shr_album r | Some i \<Rightarrow> Some i) ShNotFound"

definition require_password_grant :: "externals \<Rightarrow> instant \<Rightarrow> headers \<Rightarrow> share_row \<Rightarrow> db \<Rightarrow> share_error + unit" where
  "require_password_grant x now hs r s =
     (if shr_password_hash r = None then Inr ()
      else
        bindE (okOr (cookie_value hs ACCESS_COOKIE_NAME) ShPasswordRequired) (\<lambda>grant.
        bindE (okOr (b64_decode x grant) ShPasswordRequired) (\<lambda>raw.
        bindE (guardE (length raw = SHARE_TOKEN_BYTES) ShPasswordRequired) (\<lambda>_.
          guardE (list_ex (\<lambda>a. acc_share a = shr_id r \<and> acc_token_digest a = sha256 x raw \<and> acc_expires_at a > now)
                    (access_sessions s)) ShPasswordRequired))))"

section \<open>Passwords\<close>

definition wait_seconds :: "instant \<Rightarrow> instant \<Rightarrow> nat" where
  "wait_seconds locked_until now = nat (max ((locked_until - now) div seconds 1) 1)"

text \<open>The update of the counter and of the lock after a wrong password.\<close>

definition count_failure :: "instant \<Rightarrow> share_row \<Rightarrow> share_row" where
  "count_failure now r =
     (let lapsed = (case shr_locked_until r of None \<Rightarrow> False | Some t \<Rightarrow> t \<le> now) in
      r\<lparr>shr_failed_attempts := (if lapsed then 1 else shr_failed_attempts r + 1),
        shr_locked_until := (if lapsed then None
          else if shr_failed_attempts r + 1 \<ge> PASSWORD_FAILURE_LIMIT then Some (now + seconds PASSWORD_LOCKOUT_SECONDS) else None)\<rparr>)"

definition unlocked :: "instant \<Rightarrow> share_row \<Rightarrow> bool" where
  "unlocked now r \<longleftrightarrow> (case shr_locked_until r of None \<Rightarrow> True | Some t \<Rightarrow> t \<le> now)"

definition open_to_guesses :: "instant \<Rightarrow> uuid \<Rightarrow> share_row \<Rightarrow> bool" where
  "open_to_guesses now i r \<longleftrightarrow> shr_id r = i \<and> live_share now r \<and> unlocked now r"

definition record_password_failure :: "instant \<Rightarrow> share_row \<Rightarrow> db \<Rightarrow> db \<times> share_error" where
  "record_password_failure now share s =
     (case find (open_to_guesses now (shr_id share)) (shares s) of
        None \<Rightarrow>
          (s, case find (\<lambda>r. shr_id r = shr_id share \<and> live_share now r) (shares s) of
                Some r \<Rightarrow> (case shr_locked_until r of
                    Some t \<Rightarrow> if t > now then ShTooManyAttempts (wait_seconds t now) else ShNotFound
                  | None \<Rightarrow> ShNotFound)
              | None \<Rightarrow> ShNotFound)
      | Some r \<Rightarrow>
          (case subject_id share of
             Inl e \<Rightarrow> (s, e)
           | Inr i \<Rightarrow>
               (add_audit ''share_password_failure'' None (Some i)
                  (s\<lparr>shares := update_where (open_to_guesses now (shr_id share))
                       (count_failure now) (shares s)\<rparr>),
                case shr_locked_until (count_failure now r) of
                  Some t \<Rightarrow> if t > now then ShTooManyAttempts (wait_seconds t now) else ShInvalidPassword
                | None \<Rightarrow> ShInvalidPassword)))"

definition insert_access :: "access_row \<Rightarrow> db \<Rightarrow> db_error + db" where
  "insert_access a s =
     bindE (guardE (length (acc_token_digest a) = 32) CheckViolation) (\<lambda>_.
     bindE (guardE (acc_token_digest a \<notin> acc_token_digest ` set (access_sessions s)) UniqueViolation) (\<lambda>_.
     bindE (guardE (acc_share a \<in> shr_id ` set (shares s)) ForeignKeyViolation) (\<lambda>_.
       Inr (s\<lparr>access_sessions := access_sessions s @ [a]\<rparr>))))"

text \<open>The transaction that resets the counter and stores the access session.\<close>

definition grantable :: "instant \<Rightarrow> uuid \<Rightarrow> bytes \<Rightarrow> share_row \<Rightarrow> bool" where
  "grantable now i digest r \<longleftrightarrow> shr_id r = i \<and> shr_token_digest r = digest \<and> live_share now r \<and> shr_password_hash r \<noteq> None"

definition grant_access :: "externals \<Rightarrow> instant \<Rightarrow> string \<Rightarrow> bytes \<Rightarrow> share_row \<Rightarrow> db \<Rightarrow> share_error + db" where
  "grant_access x now token raw_grant share s =
     bindE (share_token_digest x token) (\<lambda>digest.
     let s1 = s\<lparr>shares := update_where (grantable now (shr_id share) digest)
            (\<lambda>r. r\<lparr>shr_failed_attempts := 0, shr_locked_until := None, shr_last_accessed_at := Some now\<rparr>) (shares s)\<rparr> in
     bindE (guardE (list_ex (grantable now (shr_id share) digest) (shares s)) ShNotFound) (\<lambda>_.
     bindE (okOr (find (\<lambda>r. shr_id r = shr_id share \<and> live_share now r) (shares s1)) ShNotFound) (\<lambda>r.
     let limit = now + seconds ACCESS_GRANT_TTL_SECONDS in
     bindE (shsql (insert_access \<lparr>acc_token_digest = sha256 x raw_grant, acc_share = shr_id r,
        acc_expires_at = min (case shr_expires_at r of None \<Rightarrow> limit | Some t \<Rightarrow> t) limit\<rparr> s1)) (\<lambda>s2.
     bindE (subject_id share) (\<lambda>i.
       Inr (add_audit ''share_password_success'' None (Some i) s2))))))"

definition access_cookie :: "auth_settings \<Rightarrow> string \<Rightarrow> string \<Rightarrow> string" where
  "access_cookie settings token grant =
     ACCESS_COOKIE_NAME @ ''='' @ grant @ ''; Path=/api/public/shares/'' @ token @ ''; Max-Age=1800; SameSite=Strict; HttpOnly''
     @ (if cookie_secure settings then ''; Secure'' else '''')"

text \<open>The share and the hash against which a password is verified.\<close>

definition unlockable :: "externals \<Rightarrow> instant \<Rightarrow> string \<Rightarrow> ustr \<Rightarrow> db \<Rightarrow> share_error + share_row \<times> string" where
  "unlockable x now token password s =
     bindE (fetch_active_share x now token s) (\<lambda>r.
     bindE (okOr (shr_password_hash r) ShBadRequest) (\<lambda>h.
     bindE (guardE (\<not> text_len password > PASSWORD_MAX_BYTES) ShBadRequest) (\<lambda>_.
     bindE (case shr_locked_until r of
              None \<Rightarrow> Inr ()
            | Some t \<Rightarrow> guardE (\<not> t > now) (ShTooManyAttempts (wait_seconds t now))) (\<lambda>_. Inr (r, h)))))"

text \<open>
  The handler reads the share and its lock and compares the password on a blocking thread
  before it writes anything; the transaction that counts a failure or grants access comes
  afterwards and works on the row as other requests have left it. The two phases are
  definitions of their own; \<open>unlock_share\<close> is a request that nothing interrupts.
\<close>

definition unlock_check :: "externals \<Rightarrow> instant \<Rightarrow> string \<Rightarrow> ustr \<Rightarrow> db \<Rightarrow> share_error + share_row \<times> bool" where
  "unlock_check x now token password s =
     bindE (unlockable x now token password s) (\<lambda>(r, h). Inr (r, verify_password x h password))"

definition unlock_conclude :: "externals \<Rightarrow> auth_settings \<Rightarrow> instant \<Rightarrow> bytes option \<Rightarrow> string \<Rightarrow> share_row \<Rightarrow> bool \<Rightarrow> db
    \<Rightarrow> db \<times> (share_error + string)" where
  "unlock_conclude x settings now draw token r valid s =
     (if \<not> valid then (case record_password_failure now r s of (s', e) \<Rightarrow> (s', Inl e))
      else case bindE (okOr (secure_token x draw) ShCrypto) (\<lambda>(raw, grant).
             bindE (grant_access x now token raw r s) (\<lambda>s'. Inr (s', access_cookie settings token grant))) of
        Inl e \<Rightarrow> (s, Inl e)
      | Inr (s', cookie) \<Rightarrow> (s', Inr cookie))"

definition unlock_share :: "externals \<Rightarrow> auth_settings \<Rightarrow> instant \<Rightarrow> bytes option \<Rightarrow> string \<Rightarrow> ustr \<Rightarrow> db
    \<Rightarrow> db \<times> (share_error + string)" where
  "unlock_share x settings now draw token password s =
     (case unlock_check x now token password s of
        Inl e \<Rightarrow> (s, Inl e)
      | Inr (r, valid) \<Rightarrow> unlock_conclude x settings now draw token r valid s)"

section \<open>What a share covers\<close>

text \<open>
  The columns \<open>deleted_at\<close> and \<open>buried\<close> of \<open>entry_index\<close>, which the
  triggers of \<open>0011_library.sql\<close> keep: an indexed entry is buried when an ancestor is in
  the trash.
\<close>

definition buried :: "db \<Rightarrow> entry \<Rightarrow> bool" where
  "buried s e \<longleftrightarrow> list_ex (\<lambda>a. ent_deleted_at a \<noteq> None)
     (climb (owned (ent_owner e)) (length (entries s)) (entries s) (ent_parent e))"

definition shown_in_index :: "uuid \<Rightarrow> db \<Rightarrow> entry \<Rightarrow> bool" where
  "shown_in_index owner s e \<longleftrightarrow> ent_owner e = owner \<and> ent_deleted_at e = None \<and> \<not> buried s e"

definition folder_in_share :: "uuid \<Rightarrow> uuid \<Rightarrow> uuid \<Rightarrow> db \<Rightarrow> bool" where
  "folder_in_share owner share_root folder s =
     (let chain = (case find (\<lambda>e. ent_id e = folder \<and> ent_owner e = owner \<and> ent_kind e = Folder) (entries s) of
          None \<Rightarrow> []
        | Some e \<Rightarrow> e # climb (owned owner) (length (entries s)) (entries s) (ent_parent e)) in
      list_ex (\<lambda>e. ent_id e = share_root \<and> ent_kind e = Folder) chain \<and> \<not> list_ex (\<lambda>e. ent_deleted_at e \<noteq> None) chain)"

definition file_in_share :: "uuid \<Rightarrow> kind option \<Rightarrow> uuid \<Rightarrow> uuid \<Rightarrow> db \<Rightarrow> bool" where
  "file_in_share owner resource_type share_root f s =
     (case resource_type of
        None \<Rightarrow>
          list_ex (\<lambda>m. itm_album m = share_root \<and> itm_file m = f) (album_items s)
          \<and> list_ex (\<lambda>e. ent_id e = f \<and> shown_in_index owner s e \<and> ent_kind e = File) (entries s)
      | Some k \<Rightarrow>
          let chain = file_chain owner f s in
          \<not> list_ex (\<lambda>e. ent_deleted_at e \<noteq> None) chain \<and> list_ex (\<lambda>e. ent_id e = share_root) chain
          \<and> (k = Folder \<or> f = share_root))"

record public_entry =
  pe_id :: uuid
  pe_name :: ustr
  pe_kind :: kind
  pe_size_bytes :: "int option"
  pe_updated_at :: instant

definition public_row :: "db \<Rightarrow> entry \<Rightarrow> public_entry" where
  "public_row s e = \<lparr>pe_id = ent_id e, pe_name = ent_name e, pe_kind = ent_kind e,
     pe_size_bytes = map_option ver_size_bytes (current_version s (ent_id e)), pe_updated_at = ent_updated_at e\<rparr>"

definition fetch_public_entry :: "uuid \<Rightarrow> uuid \<Rightarrow> db \<Rightarrow> share_error + public_entry" where
  "fetch_public_entry owner i s =
     bindE (okOr (find (\<lambda>e. ent_id e = i \<and> ent_owner e = owner \<and> ent_deleted_at e = None) (entries s)) ShNotFound)
       (\<lambda>e. Inr (public_row s e))"

definition fetch_breadcrumbs :: "uuid \<Rightarrow> uuid \<Rightarrow> uuid \<Rightarrow> db \<Rightarrow> (uuid \<times> ustr) list" where
  "fetch_breadcrumbs owner folder root s =
     (let chain = (case find (\<lambda>e. ent_id e = folder \<and> ent_owner e = owner) (entries s) of
          None \<Rightarrow> []
        | Some e \<Rightarrow> e # climb (\<lambda>a. ent_owner a = owner \<and> ent_deleted_at a = None) (length (entries s)) (entries s) (ent_parent e));
          below = takeWhile (\<lambda>e. ent_id e \<noteq> root) chain in
      rev (map (\<lambda>e. (ent_id e, ent_name e)) (take (length below + 1) chain)))"

definition touch_share :: "instant \<Rightarrow> uuid \<Rightarrow> db \<Rightarrow> share_error + db" where
  "touch_share now i s =
     bindE (guardE (list_ex (\<lambda>r. shr_id r = i \<and> live_share now r) (shares s)) ShNotFound) (\<lambda>_.
       Inr (s\<lparr>shares := update_where (\<lambda>r. shr_id r = i \<and> live_share now r)
              (\<lambda>r. r\<lparr>shr_last_accessed_at := Some now\<rparr>) (shares s)\<rparr>))"

section \<open>Visitors\<close>

record public_query =
  pq_folder :: "uuid option"
  pq_limit :: "nat option"
  pq_offset :: "int option"

record public_view =
  pv_share :: uuid
  pv_resource :: public_entry
  pv_folder :: "uuid option"
  pv_breadcrumbs :: "(uuid \<times> ustr) list"
  pv_entries :: "public_entry list"
  pv_allow_download :: bool
  pv_expires_at :: "instant option"
  pv_next_offset :: "nat option"

definition public_page :: "db \<Rightarrow> entry list \<Rightarrow> nat \<Rightarrow> nat \<Rightarrow> public_entry list \<times> nat option" where
  "public_page s rows limit offset =
     (let fetched = take (limit + 1) (drop offset rows) in
      (map (public_row s) (take limit fetched), if limit < length fetched then Some (offset + limit) else None))"

text \<open>The items of an album, newest first, that the index shows.\<close>

definition album_rows :: "uuid \<Rightarrow> uuid \<Rightarrow> db \<Rightarrow> entry list" where
  "album_rows a owner s =
     map fst (sort_key (\<lambda>(e, t). - t) (sort_key (\<lambda>(e, t). ent_id e)
       (List.map_filter (\<lambda>m. if itm_album m = a
            then map_option (\<lambda>e. (e, itm_added_at m)) (find (\<lambda>e. ent_id e = itm_file m \<and> shown_in_index owner s e) (entries s))
            else None) (album_items s))))"

definition public_album :: "instant \<Rightarrow> share_row \<Rightarrow> public_query \<Rightarrow> db \<Rightarrow> share_error + db \<times> public_view" where
  "public_album now r q s =
     bindE (okOr (shr_album r) ShNotFound) (\<lambda>a.
     bindE (guardE (\<not> (case pq_folder q of None \<Rightarrow> False | Some f \<Rightarrow> f \<noteq> a)) ShNotFound) (\<lambda>_.
     bindE (okOr (find (\<lambda>b. alb_id b = a \<and> alb_owner b = shr_owner r) (albums s)) ShNotFound) (\<lambda>album.
     bindE (page_values (pq_limit q) (pq_offset q)) (\<lambda>(limit, offset).
     let page = public_page s (album_rows a (shr_owner r) s) limit offset in
     bindE (touch_share now (shr_id r) s) (\<lambda>s1.
       Inr (s1, \<lparr>pv_share = shr_id r,
         pv_resource = \<lparr>pe_id = a, pe_name = alb_name album, pe_kind = Folder, pe_size_bytes = None, pe_updated_at = alb_updated_at album\<rparr>,
         pv_folder = Some a, pv_breadcrumbs = [(a, alb_name album)], pv_entries = fst page,
         pv_allow_download = shr_allow_download r, pv_expires_at = shr_expires_at r, pv_next_offset = snd page\<rparr>))))))"

text \<open>The folder shown, with its breadcrumbs and a page of its entries; nothing of this for a file.\<close>

definition public_contents :: "(ustr \<Rightarrow> int) \<Rightarrow> share_row \<Rightarrow> uuid \<Rightarrow> public_entry \<Rightarrow> public_query \<Rightarrow> db
    \<Rightarrow> share_error + uuid option \<times> (uuid \<times> ustr) list \<times> public_entry list \<times> nat option" where
  "public_contents collate r i root q s =
     (if shr_resource_kind r = Some File then
        bindE (guardE (\<not> (pq_folder q \<noteq> None \<or> pe_kind root \<noteq> File)) ShNotFound) (\<lambda>_. Inr (None, [], [], None))
      else
        bindE (guardE (pe_kind root = Folder) ShNotFound) (\<lambda>_.
        let folder = (case pq_folder q of None \<Rightarrow> i | Some f \<Rightarrow> f) in
        bindE (guardE (folder_in_share (shr_owner r) i folder s) ShNotFound) (\<lambda>_.
        bindE (shdrive (ensure_active_entry (shr_owner r) folder True s)) (\<lambda>_.
        bindE (page_values (pq_limit q) (pq_offset q)) (\<lambda>(limit, offset).
          let page = public_page s (sort_key (\<lambda>e. collate (ent_name e)) (sort_key ent_id
                (filter (\<lambda>e. ent_owner e = shr_owner r \<and> ent_parent e = Some folder \<and> ent_deleted_at e = None) (entries s)))) limit offset in
          Inr (Some folder, fetch_breadcrumbs (shr_owner r) folder i s, fst page, snd page))))))"

definition public_share :: "externals \<Rightarrow> (ustr \<Rightarrow> int) \<Rightarrow> instant \<Rightarrow> headers \<Rightarrow> string \<Rightarrow> public_query \<Rightarrow> db
    \<Rightarrow> db \<times> (share_error + public_view)" where
  "public_share x collate now hs token q s =
     (case bindE (fetch_active_share x now token s) (\<lambda>r.
           bindE (require_password_grant x now hs r s) (\<lambda>_.
             if shr_resource_kind r = None then public_album now r q s
             else
               bindE (okOr (shr_resource r) ShNotFound) (\<lambda>i.
               bindE (fetch_public_entry (shr_owner r) i s) (\<lambda>root.
               bindE (public_contents collate r i root q s) (\<lambda>(folder, crumbs, es, next_offset).
               bindE (touch_share now (shr_id r) s) (\<lambda>s1.
                 Inr (s1, \<lparr>pv_share = shr_id r, pv_resource = root, pv_folder = folder, pv_breadcrumbs = crumbs, pv_entries = es,
                   pv_allow_download = shr_allow_download r, pv_expires_at = shr_expires_at r, pv_next_offset = next_offset\<rparr>))))))) of
        Inl e \<Rightarrow> (s, Inl e)
      | Inr (s', v) \<Rightarrow> (s', Inr v))"

definition may_download :: "instant \<Rightarrow> uuid \<Rightarrow> share_row \<Rightarrow> bool" where
  "may_download now i r \<longleftrightarrow> shr_id r = i \<and> live_share now r \<and> shr_allow_download r
     \<and> (case shr_max_downloads r of None \<Rightarrow> True | Some n \<Rightarrow> shr_download_count r < n)"

definition reserve_download :: "instant \<Rightarrow> share_row \<Rightarrow> uuid \<Rightarrow> db \<Rightarrow> share_error + db" where
  "reserve_download now share i s =
     bindE (okOr (find (may_download now (shr_id share)) (shares s)) ShGone) (\<lambda>r.
     bindE (shsql (bigint (shr_download_count r + 1))) (\<lambda>_.
       Inr (add_audit ''share_download'' None (Some i)
         (s\<lparr>shares := update_where (may_download now (shr_id share))
              (\<lambda>r. r\<lparr>shr_download_count := shr_download_count r + 1, shr_last_accessed_at := Some now\<rparr>) (shares s)\<rparr>))))"

text \<open>The checks that the three file handlers share: an active share, the grant, the file's place.\<close>

definition shared_file :: "externals \<Rightarrow> instant \<Rightarrow> headers \<Rightarrow> string \<Rightarrow> uuid \<Rightarrow> bool \<Rightarrow> db \<Rightarrow> share_error + share_row" where
  "shared_file x now hs token f for_download s =
     bindE (fetch_active_share x now token s) (\<lambda>r.
     bindE (require_password_grant x now hs r s) (\<lambda>_.
     bindE (guardE (for_download \<longrightarrow> shr_allow_download r) ShForbidden) (\<lambda>_.
     bindE (subject_id r) (\<lambda>i.
     bindE (guardE (file_in_share (shr_owner r) (shr_resource_kind r) i f s) ShNotFound) (\<lambda>_. Inr r)))))"

definition download_shared :: "externals \<Rightarrow> media_services \<Rightarrow> uuid_crate \<Rightarrow> instant \<Rightarrow> headers \<Rightarrow> string \<Rightarrow> uuid \<Rightarrow> store
    \<Rightarrow> store \<times> (share_error + http_response)" where
  "download_shared x ms c now hs token f s =
     (case bindE (shared_file x now hs token f True (st_db s)) (\<lambda>r.
           bindE (reserve_download now r f (st_db s)) (\<lambda>d. Inr (r, d))) of
        Inl e \<Rightarrow> (s, Inl e)
      | Inr (r, d) \<Rightarrow>
          let s1 = s\<lparr>st_db := d\<rparr> in (s1, shtransfer (download_response x ms c (shr_owner r) f hs False s1)))"

definition preview_shared :: "externals \<Rightarrow> media_services \<Rightarrow> uuid_crate \<Rightarrow> instant \<Rightarrow> headers \<Rightarrow> string \<Rightarrow> uuid \<Rightarrow> store
    \<Rightarrow> share_error + http_response" where
  "preview_shared x ms c now hs token f s =
     bindE (shared_file x now hs token f False (st_db s)) (\<lambda>r.
       if shr_allow_download r then shtransfer (preview_response x ms c (shr_owner r) f hs False s)
       else shtransfer (preview_derivative_response x ms c (shr_owner r) f hs False s))"

definition thumbnail_shared :: "externals \<Rightarrow> media_services \<Rightarrow> uuid_crate \<Rightarrow> instant \<Rightarrow> headers \<Rightarrow> string \<Rightarrow> uuid \<Rightarrow> store
    \<Rightarrow> share_error + http_response" where
  "thumbnail_shared x ms c now hs token f s =
     bindE (shared_file x now hs token f False (st_db s)) (\<lambda>r.
       shtransfer (thumbnail_response x ms c (shr_owner r) f hs False s))"

end
