(* ===== verification/Shares_Correct.thy ===== *)
theory Shares_Correct
  imports Shares Uploads_Results
begin

text \<open>
  Shares under any sequence of requests: those of the owner on shares and on the drive, and
  those of visitors. A row keeps its identity, a revocation is final, the download counter only
  grows, and only a checked password moves the lock.
\<close>

section \<open>The system\<close>

datatype share_event =
    CreateShare share_env auth_user headers share_request
  | RevokeShare auth_user headers instant uuid
  | VisitShare instant headers string public_query
  | UnlockShare instant "bytes option" string ustr
  | DownloadShared instant headers string uuid
  | OwnerRequest drive_event

fun share_step :: "service \<Rightarrow> media_services \<Rightarrow> share_event \<Rightarrow> store \<Rightarrow> store" where
  "share_step v ms (CreateShare env u hs q) s = s\<lparr>st_db := fst (create_share (sv_externals v) (sv_auth v) env u hs q (st_db s))\<rparr>"
| "share_step v ms (RevokeShare u hs now i) s = s\<lparr>st_db := fst (revoke_share (sv_externals v) (sv_auth v) u hs now i (st_db s))\<rparr>"
| "share_step v ms (VisitShare now hs token q) s =
     s\<lparr>st_db := fst (public_share (sv_externals v) (sv_collate v) now hs token q (st_db s))\<rparr>"
| "share_step v ms (UnlockShare now draw token p) s =
     s\<lparr>st_db := fst (unlock_share (sv_externals v) (sv_auth v) now draw token p (st_db s))\<rparr>"
| "share_step v ms (DownloadShared now hs token f) s = fst (download_shared (sv_externals v) ms (sv_uuid v) now hs token f s)"
| "share_step v ms (OwnerRequest e) s = s\<lparr>st_db := drive_step (sv_externals v) (sv_auth v) (sv_collate v) e (st_db s)\<rparr>"

section \<open>How rows change\<close>

text \<open>The columns that no statement changes.\<close>

definition share_key :: "share_row \<Rightarrow> share_row" where
  "share_key r = r\<lparr>shr_revoked_at := None, shr_download_count := 0, shr_failed_attempts := 0, shr_locked_until := None,
     shr_last_accessed_at := None\<rparr>"

definition evolves :: "share_row \<Rightarrow> share_row \<Rightarrow> bool" where
  "evolves q r \<longleftrightarrow> share_key r = share_key q \<and> (shr_revoked_at q \<noteq> None \<longrightarrow> shr_revoked_at r \<noteq> None)
     \<and> shr_download_count q \<le> shr_download_count r"

definition calm :: "share_row \<Rightarrow> share_row \<Rightarrow> bool" where
  "calm q r \<longleftrightarrow> evolves q r \<and> shr_failed_attempts r = shr_failed_attempts q \<and> shr_locked_until r = shr_locked_until q"

lemma share_key_columns:
  assumes "share_key r = share_key q"
  shows "shr_id r = shr_id q" "shr_owner r = shr_owner q" "shr_token_digest r = shr_token_digest q"
    "shr_password_hash r = shr_password_hash q" "shr_max_downloads r = shr_max_downloads q"
  using assms by (cases r; cases q; simp add: share_key_def)+

lemma evolves_columns:
  assumes "evolves q r"
  shows "shr_id r = shr_id q" "shr_owner r = shr_owner q" "shr_token_digest r = shr_token_digest q"
    "shr_password_hash r = shr_password_hash q" "shr_max_downloads r = shr_max_downloads q"
  using assms share_key_columns [of r q] by (simp_all add: evolves_def)

lemma evolves_refl [simp]: "evolves r r" "calm r r"
  by (simp_all add: evolves_def calm_def)

lemma calm_trans: "calm p q \<Longrightarrow> calm q r \<Longrightarrow> calm p r"
  by (auto simp: calm_def evolves_def)

lemma list_all2_calm_trans: "list_all2 calm xs ys \<Longrightarrow> list_all2 calm ys zs \<Longrightarrow> list_all2 calm xs zs"
  by (rule list_all2_trans [of calm calm calm]) (auto intro: calm_trans)

lemma list_all2_calm_evolves: "list_all2 calm xs ys \<Longrightarrow> list_all2 evolves xs ys"
  by (erule list_all2_mono) (simp add: calm_def)

lemma drive_write_calm: "drive_write lower owner s s' \<Longrightarrow> list_all2 calm (shares s) (shares s')"
proof (induction rule: drive_write.induct)
  case (entry_updated g p f i s s' n)
  then have "shares s' = shares s" by (auto elim: update_entry_Inr)
  then show ?case by (simp add: list_all2_refl)
next
  case (folder_added new s s1 s2)
  then have "shares s2 = shares s" using insert_entry_Inr(1) [OF folder_added(1)] by (auto simp: insert_folder_def result_simps)
  then show ?case by (simp add: list_all2_refl)
next
  case (file_added new s s1 s2)
  then have "shares s2 = shares s" using insert_entry_Inr(1) [OF file_added(1)] by (auto simp: insert_file_def result_simps)
  then show ?case by (simp add: list_all2_refl)
next
  case (version_added v s s1 s2)
  then have "shares s2 = shares s" using insert_version_Inr(1) [OF version_added(1)] set_current_Inr [OF version_added(2)] by simp
  then show ?case by (simp add: list_all2_refl)
next
  case (shares_revoked s ids now)
  then show ?case
    unfolding revoke_subtree_shares_def
    by (simp, intro list_all2_update_where) (simp_all add: calm_def evolves_def share_key_def)
qed (simp_all add: list_all2_refl add_audit_def)

lemma drive_writes_calm:
  assumes "drive_writes lower owner s s'"
  shows "list_all2 calm (shares s) (shares s')"
  using assms
proof (induction rule: rtranclp_induct)
  case base
  then show ?case by (simp add: list_all2_refl)
next
  case (step t u)
  then show ?case using drive_write_calm list_all2_calm_trans by blast
qed

lemma touch_share_calm: "touch_share now i s = Inr s' \<Longrightarrow> list_all2 calm (shares s) (shares s')"
  by (auto simp: touch_share_def result_simps calm_def evolves_def share_key_def intro!: list_all2_update_where)

lemma public_share_calm: "list_all2 calm (shares s) (shares (fst (public_share x collate now hs token q s)))"
  unfolding public_share_def public_album_def
  by (auto simp: list_all2_refl result_simps Let_def split: sum.splits prod.splits if_splits dest: touch_share_calm)

lemma reserve_download_Inr:
  assumes "reserve_download now share i s = Inr s'"
  obtains r where "r \<in> set (shares s)" and "may_download now (shr_id share) r"
    and "shares s' = update_where (may_download now (shr_id share))
          (\<lambda>r. r\<lparr>shr_download_count := shr_download_count r + 1, shr_last_accessed_at := Some now\<rparr>) (shares s)"
    and "entries s' = entries s" and "access_sessions s' = access_sessions s"
  using assms by (auto simp: reserve_download_def result_simps add_audit_def dest!: find_SomeD)

lemma reserve_download_calm: "reserve_download now share i s = Inr s' \<Longrightarrow> list_all2 calm (shares s) (shares s')"
  by (erule reserve_download_Inr) (auto simp: calm_def evolves_def share_key_def intro!: list_all2_update_where)

lemma revoke_share_calm: "list_all2 calm (shares s) (shares (fst (revoke_share x st u hs now i s)))"
  unfolding revoke_share_def
  by (auto simp: list_all2_refl add_audit_def calm_def evolves_def share_key_def split: sum.splits intro!: list_all2_update_where)

lemma insert_share_Inr:
  assumes "insert_share r s = Inr s'"
  shows "s' = s\<lparr>shares := shares s @ [r]\<rparr>" and "shr_id r \<notin> shr_id ` set (shares s)"
    and "shr_token_digest r \<notin> shr_token_digest ` set (shares s)"
  using assms by (auto simp: insert_share_def result_simps)

lemma create_share_cases:
  assumes "create_share x st env u hs q s = (s', res)"
  obtains e where "s' = s" and "res = Inl e"
  | resource album raw h a where "insert_share (new_share env u q resource album (sha256 x raw) h) s = Inr a"
      and "shares s' = shares s @ [new_share env u q resource album (sha256 x raw) h]"
      and "entries s' = entries s" and "access_sessions s' = access_sessions s" and "isOk res"
proof (cases res)
  case (Inl e)
  then show thesis using assms that(1) unfolding create_share_def by (auto split: sum.splits)
next
  case (Inr z)
  with assms obtain resource album raw h a where i: "insert_share (new_share env u q resource album (sha256 x raw) h) s = Inr a"
    and s': "s' = add_audit ''share_created'' (Some (au_id u)) (Some (cs_resource q)) a"
    unfolding create_share_def by (auto simp: result_simps shsql_def secure_token_def split: sum.splits)
  show thesis
    by (rule that(2) [OF i]) (use insert_share_Inr(1) [OF i] Inr in \<open>simp_all add: s' add_audit_def\<close>)
qed

lemma fetch_active_Inr:
  assumes "fetch_active_share x now token s = Inr r"
  shows "r \<in> set (shares s)" and "share_token_digest x token = Inr (shr_token_digest r)" and "live_share now r"
proof -
  from assms obtain d where d: "share_token_digest x token = Inr d"
    and f: "find (\<lambda>r. shr_token_digest r = d \<and> live_share now r) (shares s) = Some r"
    unfolding fetch_active_share_def by (auto simp: result_simps split: option.splits)
  from find_SomeD [OF f] d show "r \<in> set (shares s)" "share_token_digest x token = Inr (shr_token_digest r)" "live_share now r"
    by auto
qed

lemma unlockable_Inr:
  assumes "unlockable x now token p s = Inr (r, h)"
  shows "fetch_active_share x now token s = Inr r" and "shr_password_hash r = Some h" and "unlocked now r"
  using assms by (auto simp: unlockable_def unlocked_def result_simps split: option.splits)

lemma fetch_active_subject: "fetch_active_share x now token s = Inr r \<Longrightarrow> \<exists>i. subject_id r = Inr i"
  unfolding fetch_active_share_def subject_id_def by (auto simp: result_simps split: option.splits)

lemma record_failure_updates:
  assumes "record_password_failure now r s = (s', e)" and "r \<in> set (shares s)" and "open_to_guesses now (shr_id r) r" and "subject_id r = Inr i"
  shows "shares s' = update_where (open_to_guesses now (shr_id r)) (count_failure now) (shares s)"
    and "entries s' = entries s" and "access_sessions s' = access_sessions s"
proof -
  have "find (open_to_guesses now (shr_id r)) (shares s) \<noteq> None" using assms(2,3) by (auto simp: find_None_iff)
  then obtain q where "find (open_to_guesses now (shr_id r)) (shares s) = Some q" by auto
  then show "shares s' = update_where (open_to_guesses now (shr_id r)) (count_failure now) (shares s)"
    "entries s' = entries s" "access_sessions s' = access_sessions s"
    using assms(1,4) by (auto simp: record_password_failure_def add_audit_def)
qed

lemma grant_access_Inr:
  assumes "grant_access x now token raw share s = Inr s'"
  obtains a digest where "share_token_digest x token = Inr digest"
    and "shares s' = update_where (grantable now (shr_id share) digest)
          (\<lambda>r. r\<lparr>shr_failed_attempts := 0, shr_locked_until := None, shr_last_accessed_at := Some now\<rparr>) (shares s)"
    and "access_sessions s' = access_sessions s @ [a]" and "acc_share a = shr_id share" and "acc_token_digest a = sha256 x raw"
    and "entries s' = entries s"
    and "\<exists>r. find (\<lambda>r. shr_id r = shr_id share \<and> live_share now r) (shares s') = Some r
          \<and> acc_expires_at a = min (case shr_expires_at r of None \<Rightarrow> now + seconds ACCESS_GRANT_TTL_SECONDS | Some t \<Rightarrow> t)
              (now + seconds ACCESS_GRANT_TTL_SECONDS)"
proof -
  from assms obtain digest r s2 where d: "share_token_digest x token = Inr digest"
    and f: "find (\<lambda>r. shr_id r = shr_id share \<and> live_share now r) (update_where (grantable now (shr_id share) digest)
          (\<lambda>r. r\<lparr>shr_failed_attempts := 0, shr_locked_until := None, shr_last_accessed_at := Some now\<rparr>) (shares s)) = Some r"
    and i: "insert_access \<lparr>acc_token_digest = sha256 x raw, acc_share = shr_id r,
        acc_expires_at = min (case shr_expires_at r of None \<Rightarrow> now + seconds ACCESS_GRANT_TTL_SECONDS | Some t \<Rightarrow> t)
          (now + seconds ACCESS_GRANT_TTL_SECONDS)\<rparr>
        (s\<lparr>shares := update_where (grantable now (shr_id share) digest)
          (\<lambda>r. r\<lparr>shr_failed_attempts := 0, shr_locked_until := None, shr_last_accessed_at := Some now\<rparr>) (shares s)\<rparr>) = Inr s2"
    and s': "\<exists>k. s' = add_audit ''share_password_success'' None (Some k) s2"
    unfolding grant_access_def by (auto simp: result_simps shsql_def Let_def)
  note s2 = i [unfolded insert_access_def bindE_Inr_iff guardE_Inr_iff]
  show thesis
    by (rule that [OF d, of "\<lparr>acc_token_digest = sha256 x raw, acc_share = shr_id r,
        acc_expires_at = min (case shr_expires_at r of None \<Rightarrow> now + seconds ACCESS_GRANT_TTL_SECONDS | Some t \<Rightarrow> t)
          (now + seconds ACCESS_GRANT_TTL_SECONDS)\<rparr>"]) (use s2 s' f find_SomeD [OF f] in \<open>auto simp: add_audit_def\<close>)
qed

lemma unlock_share_unfold:
  "unlock_share x settings now draw token password s =
     (case unlockable x now token password s of
        Inl e \<Rightarrow> (s, Inl e)
      | Inr (r, h) \<Rightarrow>
          if \<not> verify_password x h password then (case record_password_failure now r s of (s', e) \<Rightarrow> (s', Inl e))
          else case bindE (okOr (secure_token x draw) ShCrypto) (\<lambda>(raw, grant).
                 bindE (grant_access x now token raw r s) (\<lambda>s'. Inr (s', access_cookie settings token grant))) of
            Inl e \<Rightarrow> (s, Inl e)
          | Inr (s', cookie) \<Rightarrow> (s', Inr cookie))"
  by (simp add: unlock_share_def unlock_check_def unlock_conclude_def split: sum.splits)

lemma unlock_share_cases:
  assumes "unlock_share x st now draw token p s = (s', res)"
  obtains e where "s' = s" and "res = Inl e" and "\<And>r h. unlockable x now token p s = Inr (r, h) \<Longrightarrow> verify_password x h p"
  | r h e where "unlockable x now token p s = Inr (r, h)" and "\<not> verify_password x h p" and "res = Inl e"
      and "shares s' = update_where (open_to_guesses now (shr_id r)) (count_failure now) (shares s)"
      and "entries s' = entries s" and "access_sessions s' = access_sessions s"
  | r h raw where "unlockable x now token p s = Inr (r, h)" and "verify_password x h p" and "draw = Some raw"
      and "res = Inr (access_cookie st token (b64_encode x raw))" and "grant_access x now token raw r s = Inr s'"
proof (cases "unlockable x now token p s")
  case (Inl e)
  then show thesis using assms that(1) by (auto simp: unlock_share_unfold)
next
  case (Inr z)
  obtain r h where z: "z = (r, h)" by (cases z)
  show thesis
  proof (cases "verify_password x h p")
    case True
    show thesis
    proof (cases res)
      case (Inl e)
      then have "s' = s" using assms Inr z True by (auto simp: unlock_share_unfold split: sum.splits)
      then show thesis using that(1) Inl \<open>unlockable x now token p s = Inr z\<close> z True by auto
    next
      case (Inr y)
      with assms \<open>unlockable x now token p s = Inr z\<close> z True obtain raw where "draw = Some raw"
        "res = Inr (access_cookie st token (b64_encode x raw))" "grant_access x now token raw r s = Inr s'"
        by (auto simp: unlock_share_unfold secure_token_def result_simps split: sum.splits)
      then show thesis using that(3) \<open>unlockable x now token p s = Inr z\<close> z True by blast
    qed
  next
    case False
    obtain e where f: "record_password_failure now r s = (s', e)" and e: "res = Inl e"
      using assms Inr z False by (auto simp: unlock_share_unfold split: prod.splits)
    note u = unlockable_Inr [OF Inr [unfolded z]]
    note r = fetch_active_Inr [OF u(1)]
    have "open_to_guesses now (shr_id r) r" using r(3) u(3) by (simp add: open_to_guesses_def)
    moreover obtain i where "subject_id r = Inr i" using fetch_active_subject [OF u(1)] by blast
    ultimately show thesis
      using that(2) [OF Inr [unfolded z] False e] record_failure_updates [OF f r(1)] by blast
  qed
qed

section \<open>The invariant\<close>

definition shares_ok :: "(ustr \<Rightarrow> ustr) \<Rightarrow> store \<Rightarrow> bool" where
  "shares_ok lower s \<longleftrightarrow> drive_ok lower (st_db s) \<and> distinct (map shr_id (shares (st_db s)))
     \<and> distinct (map shr_token_digest (shares (st_db s)))"

lemma evolves_map:
  assumes "list_all2 evolves xs ys"
  shows "map shr_id ys = map shr_id xs" "map shr_token_digest ys = map shr_token_digest xs"
  using assms by (induction rule: list_all2_induct) (simp_all add: evolves_columns)

text \<open>Every request but an unlocking leaves the locks alone.\<close>

lemma step_calm:
  assumes ok: "shares_ok (sql_lower (sv_externals v)) s" and e: "\<And>now draw token p. e \<noteq> UnlockShare now draw token p"
  obtains rs new where "shares (st_db (share_step v ms e s)) = rs @ new" and "list_all2 calm (shares (st_db s)) rs"
    and "\<forall>r \<in> set new. shr_id r \<notin> shr_id ` set (shares (st_db s)) \<and> shr_token_digest r \<notin> shr_token_digest ` set (shares (st_db s))"
    and "distinct (map shr_id new)" and "distinct (map shr_token_digest new)"
proof (cases e)
  case (CreateShare env u hs q)
  obtain s' res where c: "create_share (sv_externals v) (sv_auth v) env u hs q (st_db s) = (s', res)" by (cases "create_share (sv_externals v) (sv_auth v) env u hs q (st_db s)")
  then show thesis
  proof (cases rule: create_share_cases)
    case 1
    then show thesis using that [of "shares (st_db s)" "[]"] c CreateShare by (simp add: list_all2_refl)
  next
    case (2 resource album raw h a)
    then show thesis using that [of "shares (st_db s)" "[new_share env u q resource album (sha256 (sv_externals v) raw) h]"] c CreateShare
        insert_share_Inr(2,3) [OF 2(1)] by (simp add: list_all2_refl)
  qed
next
  case (RevokeShare u hs now i)
  then show thesis using that [of _ "[]"] revoke_share_calm by simp
next
  case (VisitShare now hs token q)
  then show thesis using that [of _ "[]"] public_share_calm by simp
next
  case (UnlockShare now draw token p)
  then show thesis using e by blast
next
  case (DownloadShared now hs token f)
  have "list_all2 calm (shares (st_db s)) (shares (st_db (fst (download_shared (sv_externals v) ms (sv_uuid v) now hs token f s))))"
    unfolding download_shared_def
    by (auto simp: list_all2_refl result_simps Let_def split: sum.splits dest: reserve_download_calm)
  then show thesis using that [of _ "[]"] DownloadShared by simp
next
  case (OwnerRequest d)
  have "drive_ok (sql_lower (sv_externals v)) (st_db s)" using ok by (simp add: shares_ok_def)
  from drive_writes_calm [OF drive_step_writes [OF this]] show thesis using that [of _ "[]"] OwnerRequest by simp
qed

lemma unlock_evolves: "list_all2 evolves (shares s) (shares (fst (unlock_share x st now draw token p s)))"
proof -
  obtain s' res where u: "unlock_share x st now draw token p s = (s', res)" by (cases "unlock_share x st now draw token p s")
  then show ?thesis
  proof (cases rule: unlock_share_cases)
    case 1
    then show ?thesis by (simp add: u list_all2_refl)
  next
    case (2 r h e)
    then show ?thesis
      by (simp add: u, intro list_all2_update_where) (simp_all add: count_failure_def evolves_def share_key_def Let_def)
  next
    case (3 r h raw)
    from 3(5) show ?thesis
      by (rule grant_access_Inr) (simp add: u, intro list_all2_update_where, simp_all add: evolves_def share_key_def)
  qed
qed

lemma step_evolves:
  assumes ok: "shares_ok (sql_lower (sv_externals v)) s"
  obtains rs new where "shares (st_db (share_step v ms e s)) = rs @ new" and "list_all2 evolves (shares (st_db s)) rs"
    and "\<forall>r \<in> set new. shr_id r \<notin> shr_id ` set (shares (st_db s)) \<and> shr_token_digest r \<notin> shr_token_digest ` set (shares (st_db s))"
    and "distinct (map shr_id new)" and "distinct (map shr_token_digest new)"
proof (cases "\<exists>now draw token p. e = UnlockShare now draw token p")
  case True
  then show thesis using that [of _ "[]"] unlock_evolves by auto
next
  case False
  show thesis
  proof (rule step_calm [OF ok, where e = e and ms = ms])
    show "e \<noteq> UnlockShare now draw token p" for now draw token p using False by blast
  qed (rule that, assumption, rule list_all2_calm_evolves)
qed

text \<open>Share requests keep the tables of the drive.\<close>

definition share_only :: "db \<Rightarrow> db \<Rightarrow> bool" where
  "share_only s s' \<longleftrightarrow> s' = s\<lparr>shares := shares s', access_sessions := access_sessions s', audits := audits s'\<rparr>"

lemma share_only_refl [simp]: "share_only s s"
  by (simp add: share_only_def)

lemma share_only_ok:
  assumes "share_only s s'" and "drive_ok lower s"
  shows "drive_ok lower s'"
proof -
  have "drive_ok lower (s\<lparr>shares := shares s', access_sessions := access_sessions s', audits := audits s'\<rparr>)"
    using assms(2) by (subst drive_ok_frame [of _ s]) simp_all
  then show ?thesis using assms(1) by (simp add: share_only_def)
qed

lemma touch_share_only: "touch_share now i s = Inr s' \<Longrightarrow> share_only s s'"
  by (auto simp: touch_share_def result_simps share_only_def)

lemma public_share_only: "share_only s (fst (public_share x collate now hs token q s))"
  unfolding public_share_def public_album_def
  by (auto simp: result_simps Let_def split: sum.splits prod.splits if_splits dest: touch_share_only)

lemma create_share_only: "share_only s (fst (create_share x st env u hs q s))"
proof -
  obtain s' res where c: "create_share x st env u hs q s = (s', res)" by (cases "create_share x st env u hs q s")
  show ?thesis
  proof (cases res)
    case (Inl e)
    then have "s' = s" using c by (auto simp: create_share_def split: sum.splits)
    then show ?thesis by (simp add: c)
  next
    case (Inr z)
    with c obtain r a where "insert_share r s = Inr a" and "s' = add_audit ''share_created'' (Some (au_id u)) (Some (cs_resource q)) a"
      unfolding create_share_def by (auto simp: result_simps shsql_def split: sum.splits)
    then show ?thesis
      by (auto simp: c add_audit_def share_only_def dest: insert_share_Inr(1))
  qed
qed

lemma revoke_share_only: "share_only s (fst (revoke_share x st u hs now i s))"
  unfolding revoke_share_def by (auto simp: share_only_def add_audit_def split: sum.splits)

lemma reserve_download_only: "reserve_download now r f s = Inr s' \<Longrightarrow> share_only s s'"
  by (auto simp: reserve_download_def result_simps add_audit_def share_only_def)

lemma record_failure_only: "share_only s (fst (record_password_failure now r s))"
  by (cases "find (open_to_guesses now (shr_id r)) (shares s)"; cases "subject_id r")
    (auto simp: record_password_failure_def add_audit_def share_only_def)

lemma grant_access_only: "grant_access x now token raw r s = Inr s' \<Longrightarrow> share_only s s'"
  unfolding grant_access_def by (auto simp: result_simps shsql_def insert_access_def add_audit_def share_only_def Let_def)

lemma unlock_share_only: "share_only s (fst (unlock_share x st now draw token p s))"
proof (cases "unlockable x now token p s")
  case (Inl e)
  then show ?thesis by (simp add: unlock_share_unfold)
next
  case (Inr z)
  then show ?thesis
    using record_failure_only [of s now "fst z"]
    by (cases z) (auto simp: unlock_share_unfold result_simps split: sum.splits prod.splits dest: grant_access_only)
qed

lemma share_step_drive_ok:
  assumes ok: "drive_ok (sql_lower (sv_externals v)) (st_db s)"
  shows "drive_ok (sql_lower (sv_externals v)) (st_db (share_step v ms e s))"
proof (cases e)
  case (DownloadShared now hs token f)
  then show ?thesis
    using ok by (auto simp: download_shared_def result_simps Let_def split: sum.splits intro: share_only_ok [OF reserve_download_only])
next
  case (OwnerRequest d)
  then show ?thesis using drive_writes_ok [OF drive_step_writes [OF ok] ok] by simp
qed (use ok in \<open>simp_all add: share_only_ok [OF create_share_only] share_only_ok [OF revoke_share_only] share_only_ok [OF public_share_only]
      share_only_ok [OF unlock_share_only]\<close>)

lemma share_step_ok:
  assumes ok: "shares_ok (sql_lower (sv_externals v)) s"
  shows "shares_ok (sql_lower (sv_externals v)) (share_step v ms e s)"
proof -
  obtain rs new where n: "shares (st_db (share_step v ms e s)) = rs @ new" "list_all2 evolves (shares (st_db s)) rs"
    "\<forall>r \<in> set new. shr_id r \<notin> shr_id ` set (shares (st_db s)) \<and> shr_token_digest r \<notin> shr_token_digest ` set (shares (st_db s))"
    "distinct (map shr_id new)" "distinct (map shr_token_digest new)" using step_evolves [OF ok] by blast
  note m = evolves_map [OF n(2)]
  have "set (map shr_id rs) \<inter> set (map shr_id new) = {}" "set (map shr_token_digest rs) \<inter> set (map shr_token_digest new) = {}"
    unfolding m set_map using n(3) by (auto simp: disjoint_iff image_iff) metis+
  then have "distinct (map shr_id (rs @ new))" "distinct (map shr_token_digest (rs @ new))"
    using ok n(4,5) m by (simp_all only: shares_ok_def map_append distinct_append)
  then show ?thesis using ok n(1) share_step_drive_ok by (simp add: shares_ok_def)
qed


text \<open>A share that has been revoked stays so; its token is never given to another one.\<close>

definition revoked_token :: "bytes \<Rightarrow> store \<Rightarrow> bool" where
  "revoked_token d s \<longleftrightarrow> (\<exists>r \<in> set (shares (st_db s)). shr_token_digest r = d \<and> shr_revoked_at r \<noteq> None)"

interpretation links: invariant_system "share_step v ms" "shares_ok (sql_lower (sv_externals v))" for v ms
  by unfold_locales (rule share_step_ok)

lemma evolves_member:
  assumes "list_all2 evolves xs ys" and "q \<in> set xs"
  obtains r where "r \<in> set ys" and "evolves q r"
  using assms by (auto simp: list_all2_iff in_set_conv_nth set_zip) metis

lemma step_member:
  assumes "shares_ok (sql_lower (sv_externals v)) s" and "q \<in> set (shares (st_db s))"
  obtains r where "r \<in> set (shares (st_db (share_step v ms e s)))" and "evolves q r"
proof (rule step_evolves [OF assms(1), where e = e and ms = ms])
  fix rs new
  assume "shares (st_db (share_step v ms e s)) = rs @ new" and l: "list_all2 evolves (shares (st_db s)) rs"
  then show thesis using evolves_member [OF l assms(2)] that by auto
qed

interpretation revocations: absorbing "share_step v ms" "shares_ok (sql_lower (sv_externals v))" revoked_token for v ms
proof unfold_locales
  fix s d e
  assume ok: "shares_ok (sql_lower (sv_externals v)) s" and "revoked_token d s"
  then obtain q where q: "q \<in> set (shares (st_db s))" "shr_token_digest q = d" "shr_revoked_at q \<noteq> None"
    by (auto simp: revoked_token_def)
  obtain r where "r \<in> set (shares (st_db (share_step v ms e s)))" "evolves q r" using step_member [OF ok q(1)] .
  then show "revoked_token d (share_step v ms e s)"
    using q evolves_columns(3) [of q r] by (auto simp: revoked_token_def evolves_def)
qed

lemma revoked_token_fails:
  assumes ok: "shares_ok lower s" and "revoked_token d s" and "share_token_digest x token = Inr d"
  shows "\<not> isOk (fetch_active_share x now token (st_db s))"
proof
  assume "isOk (fetch_active_share x now token (st_db s))"
  then obtain r where "fetch_active_share x now token (st_db s) = Inr r" by (auto simp: isOk_iff)
  note r = fetch_active_Inr [OF this]
  from assms(2) obtain q where q: "q \<in> set (shares (st_db s))" "shr_token_digest q = d" "shr_revoked_at q \<noteq> None"
    by (auto simp: revoked_token_def)
  have "r = q"
    using ok q(1,2) r(1,2) assms(3) distinct_key_unique [of shr_token_digest "shares (st_db s)" r q] by (auto simp: shares_ok_def)
  then show False using r(3) q(3) by (simp add: live_share_def)
qed

end
