(* ===== verification/Shares_Results.thy ===== *)
theory Shares_Results
  imports Shares_Correct Downloads_Results Session
begin

text \<open>
  What a share gives to whom: only files inside it, only with the password where there is one,
  at most as many downloads as it allows, and nothing after its revocation. The guesses of a
  password are counted in theory \<open>Share_Guesses\<close>.
\<close>

section \<open>Who is refused\<close>

text \<open>No content under a link, whatever the visitor sends.\<close>

definition denied :: "service \<Rightarrow> media_services \<Rightarrow> string \<Rightarrow> store \<Rightarrow> bool" where
  "denied v ms token s \<longleftrightarrow>
     (\<forall>now hs f q.
        \<not> isOk (snd (public_share (sv_externals v) (sv_collate v) now hs token q (st_db s)))
        \<and> \<not> isOk (snd (download_shared (sv_externals v) ms (sv_uuid v) now hs token f s))
        \<and> \<not> isOk (preview_shared (sv_externals v) ms (sv_uuid v) now hs token f s)
        \<and> \<not> isOk (thumbnail_shared (sv_externals v) ms (sv_uuid v) now hs token f s))"

lemma isOk_bindE: "isOk (bindE m f) \<longleftrightarrow> (\<exists>x. m = Inr x \<and> isOk (f x))"
  by (cases m) (simp_all add: isOk_def)

lemma public_share_needs:
  assumes "isOk (snd (public_share x collate now hs token q s))"
  obtains r where "fetch_active_share x now token s = Inr r" and "require_password_grant x now hs r s = Inr ()"
proof -
  from assms have "\<exists>r. fetch_active_share x now token s = Inr r \<and> require_password_grant x now hs r s = Inr ()"
    unfolding public_share_def isOk_def by (auto simp: result_simps split: sum.splits)
  then show thesis using that by blast
qed

lemma shared_file_Inr:
  assumes "shared_file x now hs token f dl s = Inr r"
  obtains i where "fetch_active_share x now token s = Inr r" and "require_password_grant x now hs r s = Inr ()"
    and "dl \<Longrightarrow> shr_allow_download r" and "subject_id r = Inr i" and "file_in_share (shr_owner r) (shr_resource_kind r) i f s"
  using assms by (auto simp: shared_file_def result_simps)

lemma download_shared_needs:
  assumes "isOk (snd (download_shared x ms c now hs token f s))"
  obtains r d where "shared_file x now hs token f True (st_db s) = Inr r" and "reserve_download now r f (st_db s) = Inr d"
    and "fst (download_shared x ms c now hs token f s) = s\<lparr>st_db := d\<rparr>"
    and "snd (download_shared x ms c now hs token f s) = shtransfer (download_response x ms c (shr_owner r) f hs False (s\<lparr>st_db := d\<rparr>))"
proof (cases "bindE (shared_file x now hs token f True (st_db s)) (\<lambda>r. bindE (reserve_download now r f (st_db s)) (\<lambda>d. Inr (r, d)))")
  case (Inl e)
  then show thesis using assms by (simp add: download_shared_def)
next
  case (Inr z)
  then obtain r d where "z = (r, d)" "shared_file x now hs token f True (st_db s) = Inr r" "reserve_download now r f (st_db s) = Inr d"
    by (auto simp: result_simps)
  then show thesis using that Inr by (simp add: download_shared_def Let_def)
qed

lemma deniedI:
  assumes "\<And>now hs r. fetch_active_share (sv_externals v) now token (st_db s) = Inr r \<Longrightarrow>
     \<not> isOk (require_password_grant (sv_externals v) now hs r (st_db s))"
  shows "denied v ms token s"
  unfolding denied_def
proof (intro allI conjI notI)
  fix now hs f q
  show False if "isOk (snd (public_share (sv_externals v) (sv_collate v) now hs token q (st_db s)))"
    using that by (rule public_share_needs) (metis assms isOk_iff)
  have nofile: False if "shared_file (sv_externals v) now hs token f dl (st_db s) = Inr r" for dl r
    using that by (rule shared_file_Inr) (metis assms isOk_iff)
  show False if "isOk (snd (download_shared (sv_externals v) ms (sv_uuid v) now hs token f s))"
    using that by (rule download_shared_needs) (use nofile in blast)
  show False if "isOk (preview_shared (sv_externals v) ms (sv_uuid v) now hs token f s)"
    using that nofile by (auto simp: preview_shared_def isOk_bindE)
  show False if "isOk (thumbnail_shared (sv_externals v) ms (sv_uuid v) now hs token f s)"
    using that nofile by (auto simp: thumbnail_shared_def isOk_bindE)
qed

section \<open>Revocation\<close>

lemma revoke_share_revokes:
  assumes "revoke_share x st u hs now i s = (s', Inr ())" and "r \<in> set (shares s)" "shr_id r = i" and "distinct (map shr_id (shares s))"
  shows "\<exists>q \<in> set (shares s'). shr_token_digest q = shr_token_digest r \<and> shr_revoked_at q \<noteq> None"
proof -
  from assms(1) obtain q where q: "find (\<lambda>r. shr_id r = i \<and> shr_owner r = au_id u) (shares s) = Some q"
    and s': "shares s' = update_where (\<lambda>r. shr_id r = i \<and> shr_owner r = au_id u)
         (\<lambda>r. r\<lparr>shr_revoked_at := (case shr_revoked_at r of None \<Rightarrow> Some now | Some t \<Rightarrow> Some t)\<rparr>) (shares s)"
    unfolding revoke_share_def by (auto simp: result_simps add_audit_def split: sum.splits)
  have "q = r" using find_SomeD [OF q] assms(2-4) distinct_key_unique by metis
  let ?q = "q\<lparr>shr_revoked_at := (case shr_revoked_at q of None \<Rightarrow> Some now | Some t \<Rightarrow> Some t)\<rparr>"
  have "?q \<in> set (shares s')" using find_SomeD [OF q] by (auto simp: s' set_update_where)
  then show ?thesis using \<open>q = r\<close> by (intro bexI [of _ ?q]) (simp_all split: option.split)
qed

lemma evolves_trans: "evolves p q \<Longrightarrow> evolves q r \<Longrightarrow> evolves p r"
  by (auto simp: evolves_def)

lemma share_row_stays:
  assumes "shares_ok (sql_lower (sv_externals v)) s" and "q \<in> set (shares (st_db s))"
  shows "\<exists>r \<in> set (shares (st_db (fold (share_step v ms) es s))). evolves q r"
  using assms
proof (induction es arbitrary: s q)
  case Nil
  then show ?case by (auto intro: bexI [of _ q])
next
  case (Cons e es)
  obtain r where r: "r \<in> set (shares (st_db (share_step v ms e s)))" "evolves q r" using step_member [OF Cons.prems] .
  then show ?case using Cons.IH [OF share_step_ok [OF Cons.prems(1)] r(1)] by (auto intro: evolves_trans)
qed

text \<open>
  C25. A revocation is final: once the owner has revoked a share, no request under its link
  gives any content or accepts a password, at any time and after any further requests of the
  owner, of visitors and of other accounts.
\<close>

theorem revoked_share_dead:
  assumes ok: "shares_ok (sql_lower (sv_externals v)) s" and r: "r \<in> set (shares (st_db s))"
    and token: "share_token_digest (sv_externals v) token = Inr (shr_token_digest r)"
    and rev: "revoke_share (sv_externals v) (sv_auth v) user hs now (shr_id r) (st_db s) = (d, Inr ())"
  shows "denied v ms token (fold (share_step v ms) es (s\<lparr>st_db := d\<rparr>))
     \<and> \<not> isOk (snd (unlock_share (sv_externals v) (sv_auth v) t draw token p (st_db (fold (share_step v ms) es (s\<lparr>st_db := d\<rparr>)))))"
proof -
  let ?s = "fold (share_step v ms) es (s\<lparr>st_db := d\<rparr>)"
  have "share_step v ms (RevokeShare user hs now (shr_id r)) s = s\<lparr>st_db := d\<rparr>" using rev by simp
  then have ok1: "shares_ok (sql_lower (sv_externals v)) (s\<lparr>st_db := d\<rparr>)" using share_step_ok [OF ok] by metis
  have "revoked_token (shr_token_digest r) (s\<lparr>st_db := d\<rparr>)"
    using revoke_share_revokes [OF rev r refl] ok by (auto simp: revoked_token_def shares_ok_def)
  then have "revoked_token (shr_token_digest r) ?s" by (rule revocations.run_final [OF ok1])
  then have dead: "\<not> isOk (fetch_active_share (sv_externals v) t token (st_db ?s))" for t
    using revoked_token_fails [OF links.run_inv [OF ok1]] token by blast
  then have "denied v ms token ?s" by (intro deniedI) (metis isOk_iff)
  moreover have "\<not> isOk (snd (unlock_share (sv_externals v) (sv_auth v) t draw token p (st_db ?s)))"
    using dead [of t] by (cases "fetch_active_share (sv_externals v) t token (st_db ?s)") (auto simp: unlock_share_unfold unlockable_def isOk_def)
  ultimately show ?thesis by blast
qed

section \<open>The download limit\<close>

text \<open>The number of downloads under a token digest that a run answers with content.\<close>

fun served :: "service \<Rightarrow> media_services \<Rightarrow> bytes \<Rightarrow> share_event \<Rightarrow> store \<Rightarrow> bool" where
  "served v ms d (DownloadShared now hs token f) s \<longleftrightarrow> share_token_digest (sv_externals v) token = Inr d
     \<and> isOk (snd (download_shared (sv_externals v) ms (sv_uuid v) now hs token f s))"
| "served v ms d _ s \<longleftrightarrow> False"

fun count_steps :: "(share_event \<Rightarrow> store \<Rightarrow> bool) \<Rightarrow> service \<Rightarrow> media_services \<Rightarrow> share_event list \<Rightarrow> store \<Rightarrow> nat" where
  "count_steps P v ms [] s = 0"
| "count_steps P v ms (e # es) s = (if P e s then 1 else 0) + count_steps P v ms es (share_step v ms e s)"

lemma served_counts:
  assumes ok: "shares_ok (sql_lower (sv_externals v)) s" and q: "q \<in> set (shares (st_db s))" and n: "shr_max_downloads q = Some n"
    and "served v ms (shr_token_digest q) e s"
  shows "shr_download_count q < n"
    and "\<exists>r \<in> set (shares (st_db (share_step v ms e s))). evolves q r \<and> shr_download_count r = shr_download_count q + 1"
proof -
  from assms(4) obtain now hs token f where e: "e = DownloadShared now hs token f"
    and t: "share_token_digest (sv_externals v) token = Inr (shr_token_digest q)"
    and o: "isOk (snd (download_shared (sv_externals v) ms (sv_uuid v) now hs token f s))" by (cases e) auto
  obtain r d where sf: "shared_file (sv_externals v) now hs token f True (st_db s) = Inr r" and rd: "reserve_download now r f (st_db s) = Inr d"
    and fst: "fst (download_shared (sv_externals v) ms (sv_uuid v) now hs token f s) = s\<lparr>st_db := d\<rparr>"
    using o by (rule download_shared_needs)
  have "fetch_active_share (sv_externals v) now token (st_db s) = Inr r" using sf by (rule shared_file_Inr)
  note fr = fetch_active_Inr [OF this]
  have "r = q"
    using ok q fr(1,2) t distinct_key_unique [of shr_token_digest "shares (st_db s)" r q] by (auto simp: shares_ok_def)
  show "shr_download_count q < n"
    "\<exists>r \<in> set (shares (st_db (share_step v ms e s))). evolves q r \<and> shr_download_count r = shr_download_count q + 1"
    using rd
  proof (atomize (full), rule reserve_download_Inr)
    fix a
    assume a: "a \<in> set (shares (st_db s))" "may_download now (shr_id r) a"
      and s': "shares d = update_where (may_download now (shr_id r))
          (\<lambda>r. r\<lparr>shr_download_count := shr_download_count r + 1, shr_last_accessed_at := Some now\<rparr>) (shares (st_db s))"
    have "a = q"
      using ok a q \<open>r = q\<close> distinct_key_unique [of shr_id "shares (st_db s)" a q] by (auto simp: shares_ok_def may_download_def)
    let ?q = "q\<lparr>shr_download_count := shr_download_count q + 1, shr_last_accessed_at := Some now\<rparr>"
    have "?q \<in> set (shares d)" using a(2) q \<open>a = q\<close> by (auto simp: s' set_update_where)
    then show "shr_download_count q < n \<and> (\<exists>r \<in> set (shares (st_db (share_step v ms e s))).
        evolves q r \<and> shr_download_count r = shr_download_count q + 1)"
      using a(2) n \<open>a = q\<close> fst e by (auto simp: may_download_def evolves_def share_key_def intro!: bexI [of _ ?q])
  qed
qed

lemma downloads_bounded:
  assumes "shares_ok (sql_lower (sv_externals v)) s" and "q \<in> set (shares (st_db s))" and "shr_max_downloads q = Some n"
  shows "int (count_steps (served v ms (shr_token_digest q)) v ms es s) \<le> max 0 (n - shr_download_count q)"
  using assms
proof (induction es arbitrary: s q)
  case Nil
  then show ?case by simp
next
  case (Cons e es)
  note ok = share_step_ok [OF Cons.prems(1), of ms e]
  show ?case
  proof (cases "served v ms (shr_token_digest q) e s")
    case True
    note c = served_counts [OF Cons.prems True]
    from c(2) obtain r where r: "r \<in> set (shares (st_db (share_step v ms e s)))" "evolves q r" "shr_download_count r = shr_download_count q + 1"
      by blast
    have "shr_max_downloads r = Some n" "shr_token_digest r = shr_token_digest q" using evolves_columns [OF r(2)] Cons.prems(3) by simp_all
    then show ?thesis using Cons.IH [OF ok r(1)] r(3) c(1) True by simp
  next
    case False
    obtain r where r: "r \<in> set (shares (st_db (share_step v ms e s)))" "evolves q r" using step_member [OF Cons.prems(1,2)] .
    have "shr_max_downloads r = Some n" "shr_token_digest r = shr_token_digest q" using evolves_columns [OF r(2)] Cons.prems(3) by simp_all
    moreover have "shr_download_count q \<le> shr_download_count r" using r(2) by (simp add: evolves_def)
    ultimately show ?thesis using Cons.IH [OF ok r(1)] False by simp
  qed
qed

text \<open>
  C26. A share with a download limit is never downloaded more often: in any run of requests,
  with any number of visitors, at most the remaining number of downloads under its link is
  answered with content.
\<close>

theorem download_limit_holds:
  assumes "shares_ok (sql_lower (sv_externals v)) s" and "r \<in> set (shares (st_db s))"
    and "shr_max_downloads r = Some n" and "shr_download_count r \<le> n"
  shows "int (count_steps (served v ms (shr_token_digest r)) v ms es s) \<le> n - shr_download_count r"
  using downloads_bounded [OF assms(1-3), of ms es] assms(4) by simp

section \<open>The password\<close>

lemma drive_write_access: "drive_write lower owner s s' \<Longrightarrow> set (access_sessions s') \<subseteq> set (access_sessions s)"
proof (induction rule: drive_write.induct)
  case (entry_updated g p f i s s' n)
  then show ?case by (auto elim: update_entry_Inr)
next
  case (folder_added new s s1 s2)
  then show ?case using insert_entry_Inr(1) [OF folder_added(1)] by (auto simp: insert_folder_def result_simps)
next
  case (file_added new s s1 s2)
  then show ?case using insert_entry_Inr(1) [OF file_added(1)] by (auto simp: insert_file_def result_simps)
next
  case (version_added v s s1 s2)
  then show ?case using insert_version_Inr(1) [OF version_added(1)] set_current_Inr [OF version_added(2)] by simp
next
  case (job_enqueued s v m)
  then show ?case by (simp add: enqueue_media_index_jobs_def add_job_def Let_def split: option.splits prod.splits)
qed (auto simp: revoke_subtree_shares_def drop_subtree_access_def add_audit_def)

lemma drive_writes_access: "drive_writes lower owner s s' \<Longrightarrow> set (access_sessions s') \<subseteq> set (access_sessions s)"
  by (induction rule: rtranclp_induct) (auto dest: drive_write_access)

lemma public_share_access: "access_sessions (fst (public_share x collate now hs token q s)) = access_sessions s"
proof -
  have "access_sessions s' = access_sessions s" if "touch_share now i s = Inr s'" for i s'
    using that by (auto simp: touch_share_def result_simps)
  then show ?thesis
    unfolding public_share_def public_album_def
    by (auto simp: result_simps Let_def split: sum.splits prod.splits if_splits)
qed

text \<open>Only an unlocking with the right password adds an access session, one of its own share.\<close>

lemma step_access:
  assumes ok: "shares_ok (sql_lower (sv_externals v)) s" and a: "a \<in> set (access_sessions (st_db (share_step v ms e s)))"
    and n: "a \<notin> set (access_sessions (st_db s))"
  obtains now draw token p r h where "e = UnlockShare now draw token p" and "r \<in> set (shares (st_db s))" and "acc_share a = shr_id r"
    and "shr_password_hash r = Some h" and "verify_password (sv_externals v) h p"
proof (cases e)
  case (CreateShare env u hs q)
  obtain s' res where c: "create_share (sv_externals v) (sv_auth v) env u hs q (st_db s) = (s', res)"
    by (cases "create_share (sv_externals v) (sv_auth v) env u hs q (st_db s)")
  then have "access_sessions s' = access_sessions (st_db s)" by (cases rule: create_share_cases) auto
  then show thesis using a n c CreateShare by simp
next
  case (RevokeShare u hs now i)
  have "set (access_sessions (fst (revoke_share (sv_externals v) (sv_auth v) u hs now i (st_db s)))) \<subseteq> set (access_sessions (st_db s))"
    by (auto simp: revoke_share_def add_audit_def split: sum.splits)
  then show thesis using a n RevokeShare by auto
next
  case (VisitShare now hs token q)
  then show thesis using a n by (simp add: public_share_access)
next
  case (UnlockShare now draw token p)
  obtain s' res where u: "unlock_share (sv_externals v) (sv_auth v) now draw token p (st_db s) = (s', res)"
    by (cases "unlock_share (sv_externals v) (sv_auth v) now draw token p (st_db s)")
  then show thesis
  proof (cases rule: unlock_share_cases)
    case 1
    then show thesis using a n u UnlockShare by simp
  next
    case (2 r h e)
    then show thesis using a n u UnlockShare by simp
  next
    case (3 r h raw)
    note ui = unlockable_Inr [OF 3(1)]
    from 3(5) have "acc_share a = shr_id r" by (rule grant_access_Inr) (use a n u UnlockShare in auto)
    then show thesis using that UnlockShare fetch_active_Inr(1) [OF ui(1)] ui(2) 3(2) by blast
  qed
next
  case (DownloadShared now hs token f)
  have "access_sessions (st_db (fst (download_shared (sv_externals v) ms (sv_uuid v) now hs token f s))) = access_sessions (st_db s)"
    unfolding download_shared_def by (auto simp: result_simps Let_def split: sum.splits elim: reserve_download_Inr)
  then show thesis using a n DownloadShared by simp
next
  case (OwnerRequest d)
  have "drive_ok (sql_lower (sv_externals v)) (st_db s)" using ok by (simp add: shares_ok_def)
  from drive_writes_access [OF drive_step_writes [OF this]] show thesis using a n OwnerRequest by auto
qed

definition barred :: "uuid \<Rightarrow> string \<Rightarrow> store \<Rightarrow> bool" where
  "barred i h s \<longleftrightarrow> (\<exists>r \<in> set (shares (st_db s)). shr_id r = i \<and> shr_password_hash r = Some h)
     \<and> i \<notin> acc_share ` set (access_sessions (st_db s))"

fun wrong_for :: "externals \<Rightarrow> string \<Rightarrow> share_event \<Rightarrow> bool" where
  "wrong_for x h (UnlockShare now draw token p) \<longleftrightarrow> \<not> verify_password x h p"
| "wrong_for x h _ \<longleftrightarrow> True"

lemma step_barred:
  assumes ok: "shares_ok (sql_lower (sv_externals v)) s" and b: "barred i h s" and e: "wrong_for (sv_externals v) h e"
  shows "barred i h (share_step v ms e s)"
proof -
  from b obtain q where q: "q \<in> set (shares (st_db s))" "shr_id q = i" "shr_password_hash q = Some h" by (auto simp: barred_def)
  obtain r where r: "r \<in> set (shares (st_db (share_step v ms e s)))" "evolves q r" using step_member [OF ok q(1)] .
  have "acc_share a \<noteq> i" if a: "a \<in> set (access_sessions (st_db (share_step v ms e s)))" for a
  proof (cases "a \<in> set (access_sessions (st_db s))")
    case True
    then show ?thesis using b unfolding barred_def by (metis imageI)
  next
    case False
    from ok a False show ?thesis
    proof (rule step_access)
      fix now draw token p r' h'
      assume u: "e = UnlockShare now draw token p" "r' \<in> set (shares (st_db s))" "acc_share a = shr_id r'" "shr_password_hash r' = Some h'"
        "verify_password (sv_externals v) h' p"
      show "acc_share a \<noteq> i"
      proof
        assume "acc_share a = i"
        then have "r' = q" using u(2,3) q ok distinct_key_unique [of shr_id "shares (st_db s)" r' q] by (auto simp: shares_ok_def)
        then show False using u q(3) e by simp
      qed
    qed
  qed
  then have "i \<notin> acc_share ` set (access_sessions (st_db (share_step v ms e s)))" by blast
  moreover have "shr_id r = i" "shr_password_hash r = Some h" using evolves_columns [OF r(2)] q(2,3) by simp_all
  ultimately show ?thesis using r(1) unfolding barred_def by blast
qed

lemma run_barred:
  "shares_ok (sql_lower (sv_externals v)) s \<Longrightarrow> barred i h s \<Longrightarrow> list_all (wrong_for (sv_externals v) h) es \<Longrightarrow>
   barred i h (fold (share_step v ms) es s)"
  by (induction es arbitrary: s) (simp_all add: share_step_ok step_barred)

lemma barred_denied:
  assumes ok: "shares_ok lower s" and b: "barred i h s" and token: "share_token_digest (sv_externals v) token = Inr d"
    and r: "r \<in> set (shares (st_db s))" "shr_id r = i" "shr_token_digest r = d"
  shows "denied v ms token s"
proof (rule deniedI)
  fix now hs q
  assume f: "fetch_active_share (sv_externals v) now token (st_db s) = Inr q"
  note fq = fetch_active_Inr [OF f]
  have "shr_token_digest q = shr_token_digest r" using fq(2) token r(3) by simp
  then have "q = r" using ok distinct_key_unique [OF _ fq(1) r(1), of shr_token_digest] by (simp add: shares_ok_def)
  moreover obtain z where z: "z \<in> set (shares (st_db s))" "shr_id z = i" "shr_password_hash z = Some h" using b unfolding barred_def by blast
  moreover have "z = r" using ok z(1,2) r(1,2) distinct_key_unique [of shr_id "shares (st_db s)" z r] by (simp add: shares_ok_def)
  ultimately have h: "shr_password_hash q = Some h" "shr_id q = i" using r(2) by simp_all
  have "\<not> list_ex (\<lambda>a. acc_share a = i \<and> acc_token_digest a = k \<and> acc_expires_at a > now) (access_sessions (st_db s))" for k
    using b unfolding barred_def list_ex_iff by (metis imageI)
  then show "\<not> isOk (require_password_grant (sv_externals v) now hs q (st_db s))"
    using h by (auto simp: require_password_grant_def isOk_iff result_simps)
qed

text \<open>
  C27. Without the password there is no way in: as long as nobody has unlocked a protected
  share, and no request carries a password that verifies against its hash, every request for
  content under its link is refused, whatever cookies it sends and after any sequence of
  requests.
\<close>

theorem protected_share_needs_password:
  assumes ok: "shares_ok (sql_lower (sv_externals v)) s" and r: "r \<in> set (shares (st_db s))" "shr_password_hash r = Some h"
    and none: "shr_id r \<notin> acc_share ` set (access_sessions (st_db s))"
    and token: "share_token_digest (sv_externals v) token = Inr (shr_token_digest r)"
    and es: "list_all (wrong_for (sv_externals v) h) es"
  shows "denied v ms token (fold (share_step v ms) es s)"
proof -
  let ?s = "fold (share_step v ms) es s"
  have "barred (shr_id r) h s" using r none by (auto simp: barred_def)
  then have b: "barred (shr_id r) h ?s" using run_barred [OF ok _ es] by blast
  have "\<exists>q \<in> set (shares (st_db ?s)). evolves r q" using share_row_stays [OF ok r(1)] .
  then obtain q where q: "q \<in> set (shares (st_db ?s))" "evolves r q" by blast
  show ?thesis
    by (rule barred_denied [OF links.run_inv [OF ok] b token q(1)]) (simp_all add: evolves_columns [OF q(2)])
qed

text \<open>
  The password lets a visitor in: an unlocking succeeds only with a password that
  verifies, and the cookie it sets grants access to the share in the state it leaves, for
  half an hour or until the share expires.
\<close>

lemma unlock_roundtrip:
  assumes codec: "token_codec x" and u: "unlock_share x st now (Some raw) token p s = (s', Inr cookie)" and raw: "length raw = 32"
    and hs: "header_str hs ''cookie'' = Some (cookie_header [(ACCESS_COOKIE_NAME, b64_encode x raw)])"
    and ids: "distinct (map shr_id (shares s))"
  shows "cookie = access_cookie st token (b64_encode x raw)
     \<and> (\<exists>r h. fetch_active_share x now token s = Inr r \<and> shr_password_hash r = Some h \<and> verify_password x h p
          \<and> (\<forall>t. t < now + seconds (30 * 60) \<and> (case shr_expires_at r of None \<Rightarrow> True | Some e \<Rightarrow> t < e)
                \<longrightarrow> require_password_grant x t hs r s' = Inr ()))"
  using u
proof (cases rule: unlock_share_cases)
  case 1
  then show ?thesis by simp
next
  case (2 r h e)
  then show ?thesis by simp
next
  case (3 r h raw')
  then have raw': "raw' = raw" by simp
  note ui = unlockable_Inr [OF 3(1)]
  note f = fetch_active_Inr [OF ui(1)]
  have b: "b64_decode x (b64_encode x raw) = Some raw" "list_all token_char (b64_encode x raw)"
    using codec raw by (simp_all add: token_codec_def)
  have c: "cookie_value hs ACCESS_COOKIE_NAME = Some (b64_encode x raw)"
    by (rule cookie_value_single [OF _ _ hs]) (use b(2) in \<open>simp_all add: cookie_safe_def ACCESS_COOKIE_NAME_def token_char_def ascii_alnum_def\<close>)
  have "require_password_grant x t hs r s' = Inr ()"
    if t: "t < now + seconds (30 * 60)" "case shr_expires_at r of None \<Rightarrow> True | Some e \<Rightarrow> t < e" for t
    using 3(5)
  proof (rule grant_access_Inr)
    fix a digest
    assume a: "access_sessions s' = access_sessions s @ [a]" "acc_share a = shr_id r" "acc_token_digest a = sha256 x raw'"
      and sh: "shares s' = update_where (grantable now (shr_id r) digest)
          (\<lambda>r. r\<lparr>shr_failed_attempts := 0, shr_locked_until := None, shr_last_accessed_at := Some now\<rparr>) (shares s)"
      and ex: "\<exists>q. find (\<lambda>q. shr_id q = shr_id r \<and> live_share now q) (shares s') = Some q
          \<and> acc_expires_at a = min (case shr_expires_at q of None \<Rightarrow> now + seconds ACCESS_GRANT_TTL_SECONDS | Some t \<Rightarrow> t)
              (now + seconds ACCESS_GRANT_TTL_SECONDS)"
    from ex obtain q where q: "find (\<lambda>q. shr_id q = shr_id r \<and> live_share now q) (shares s') = Some q"
      and e: "acc_expires_at a = min (case shr_expires_at q of None \<Rightarrow> now + seconds ACCESS_GRANT_TTL_SECONDS | Some t \<Rightarrow> t)
              (now + seconds ACCESS_GRANT_TTL_SECONDS)" by blast
    from find_SomeD [OF q] obtain q0 where q0: "q0 \<in> set (shares s)" "shr_id q0 = shr_id r" "shr_expires_at q = shr_expires_at q0"
      by (auto simp: sh set_update_where split: if_splits)
    have "q0 = r" using distinct_key_unique [OF ids q0(1) f(1)] q0(2) by simp
    then have "t < acc_expires_at a"
      using t q0(3) by (auto simp: e ACCESS_GRANT_TTL_SECONDS_def split: option.splits)
    then show ?thesis
      using c b(1) raw a by (simp add: require_password_grant_def SHARE_TOKEN_BYTES_def raw' list_ex_iff)
  qed
  then show ?thesis using 3(2,4) raw' ui by auto
qed

section \<open>What a share covers\<close>

lemma file_chain_set:
  assumes ok: "drive_ok lower s" and f: "find (\<lambda>e. ent_id e = i \<and> ent_owner e = owner \<and> ent_kind e = File) (entries s) = Some e"
  shows "set (file_chain owner i s) = path_up s i"
proof -
  note e = find_SomeD [OF f]
  note fo = drive_okD(1) [OF ok]
  have uniq: "b = e" if "b \<in> set (entries s)" "ent_id b = i" for b
    using distinct_key_unique [OF drive_okD(2) [OF ok] that(1), of e] that e by auto
  show ?thesis
  proof (cases "ent_parent e")
    case None
    have "climb (owned owner) (length (entries s)) (entries s) None = []" by (cases "length (entries s)") simp_all
    moreover have "path_up s i = {e}"
    proof -
      have "a = e" if "a \<in> path_up s i" for a
        using that [unfolded path_up_def, THEN CollectD, THEN conjunct2]
      proof (cases rule: converse_rtranclE)
        case base
        then show ?thesis using that uniq by (auto simp: path_up_def)
      next
        case (step k)
        then show ?thesis using uniq None by (auto simp: par_def)
      qed
      then show ?thesis using e path_up_self by auto
    qed
    ultimately show ?thesis using f None by (simp add: file_chain_def)
  next
    case (Some p)
    obtain b where b: "b \<in> set (entries s)" "ent_id b = p" "ent_owner b = owner"
      using forestD(2) [OF fo] e Some unfolding parents_ok_def by metis
    have "set (climb (owned owner) (length (entries s)) (entries s) (Some p)) = path_up s p"
      using parent_chain_set [OF ok b(1,3)] by (simp add: parent_chain_def b(2))
    moreover have "path_up s i = insert e (path_up s p)"
    proof (rule set_eqI, rule iffI)
      fix a
      assume a: "a \<in> path_up s i"
      from a [unfolded path_up_def, THEN CollectD, THEN conjunct2] show "a \<in> insert e (path_up s p)"
      proof (cases rule: converse_rtranclE)
        case base
        then show ?thesis using a uniq by (auto simp: path_up_def)
      next
        case (step k)
        then have "k = p" using uniq Some by (auto simp: par_def)
        then show ?thesis using step(2) a by (auto simp: path_up_def)
      qed
    next
      fix a
      assume "a \<in> insert e (path_up s p)"
      moreover have "(i, p) \<in> parent_rel (entries s)" using e Some by (auto simp: par_def)
      ultimately show "a \<in> path_up s i" using e by (auto simp: path_up_def intro: converse_rtrancl_into_rtrancl)
    qed
    ultimately show ?thesis using f Some by (simp add: file_chain_def)
  qed
qed

text \<open>The files that a share is meant to give: visible ones, at or below what is shared.\<close>

definition covers :: "db \<Rightarrow> share_row \<Rightarrow> uuid \<Rightarrow> bool" where
  "covers s r f \<longleftrightarrow> (\<exists>e. visible (shr_owner r) f s e \<and> ent_kind e = File)
     \<and> (case shr_resource_kind r of
          None \<Rightarrow> (\<exists>a. shr_album r = Some a \<and> (\<exists>m \<in> set (album_items s). itm_album m = a \<and> itm_file m = f))
        | Some File \<Rightarrow> shr_resource r = Some f
        | Some Folder \<Rightarrow> (\<exists>i. shr_resource r = Some i \<and> (\<exists>a \<in> path_up s f. ent_id a = i)))"

lemma index_visible:
  assumes ok: "drive_ok lower s" and e: "e \<in> set (entries s)" "shown_in_index owner s e"
  shows "visible owner (ent_id e) s e"
proof (rule visible_child [OF ok e(1)])
  show "ent_owner e = owner" "ent_deleted_at e = None" using e(2) by (simp_all add: shown_in_index_def)
  show "case ent_parent e of None \<Rightarrow> True | Some p \<Rightarrow> \<exists>a. visible owner p s a"
  proof (cases "ent_parent e")
    case (Some p)
    obtain b where b: "b \<in> set (entries s)" "ent_id b = p" "ent_owner b = owner"
      using forestD(2) [OF drive_okD(1) [OF ok]] e(1) Some \<open>ent_owner e = owner\<close> unfolding parents_ok_def by metis
    have "set (parent_chain owner p s) = path_up s p" using parent_chain_set [OF ok b(1,3)] b(2) by simp
    then have "visible owner p s b"
      using b e(2) Some \<open>ent_owner e = owner\<close>
      by (auto simp: visible_def shown_in_index_def buried_def parent_chain_def list_ex_iff)
    then show ?thesis using Some by auto
  qed simp
qed

lemma file_in_share_covers:
  assumes ok: "drive_ok lower s" and t: "share_target_check r" and i: "subject_id r = Inr i"
    and f: "file_in_share (shr_owner r) (shr_resource_kind r) i f s"
  shows "covers s r f"
proof (cases "shr_resource_kind r")
  case None
  then have "shr_album r = Some i" using t i by (auto simp: share_target_check_def subject_id_def result_simps)
  moreover from f None obtain e where "e \<in> set (entries s)" "ent_id e = f" "shown_in_index (shr_owner r) s e" "ent_kind e = File"
    and m: "\<exists>m \<in> set (album_items s). itm_album m = i \<and> itm_file m = f" by (auto simp: file_in_share_def list_ex_iff)
  ultimately show ?thesis using index_visible [OF ok, of e "shr_owner r"] None by (auto simp: covers_def)
next
  case (Some k)
  then have res: "shr_resource r = Some i" using t i by (auto simp: share_target_check_def subject_id_def result_simps)
  have nd: "\<forall>a \<in> set (file_chain (shr_owner r) f s). ent_deleted_at a = None"
    and root: "\<exists>a \<in> set (file_chain (shr_owner r) f s). ent_id a = i" and k: "k = Folder \<or> f = i"
    using f Some by (auto simp: file_in_share_def Let_def list_ex_iff)
  from root obtain e where e: "find (\<lambda>e. ent_id e = f \<and> ent_owner e = shr_owner r \<and> ent_kind e = File) (entries s) = Some e"
    by (cases "find (\<lambda>e. ent_id e = f \<and> ent_owner e = shr_owner r \<and> ent_kind e = File) (entries s)") (auto simp: file_chain_def)
  have "visible (shr_owner r) f s e"
    using find_SomeD [OF e] nd file_chain_set [OF ok e] by (auto simp: visible_def)
  then show ?thesis
    using find_SomeD [OF e] root k res Some file_chain_set [OF ok e] by (cases k) (auto simp: covers_def)
qed

text \<open>The request carries the cookie of an unexpired access session of this share.\<close>

definition holds_grant :: "externals \<Rightarrow> instant \<Rightarrow> headers \<Rightarrow> share_row \<Rightarrow> db \<Rightarrow> bool" where
  "holds_grant x now hs r s \<longleftrightarrow>
     (\<exists>cookie raw a. cookie_value hs ACCESS_COOKIE_NAME = Some cookie \<and> b64_decode x cookie = Some raw \<and> length raw = 32
        \<and> a \<in> set (access_sessions s) \<and> acc_share a = shr_id r \<and> acc_token_digest a = sha256 x raw \<and> acc_expires_at a > now)"

lemma grant_needs_session:
  assumes "require_password_grant x now hs r s = Inr ()"
  shows "shr_password_hash r = None \<or> holds_grant x now hs r s"
proof (cases "shr_password_hash r")
  case (Some h)
  then show ?thesis using assms by (auto simp: require_password_grant_def holds_grant_def SHARE_TOKEN_BYTES_def result_simps list_ex_iff)
qed simp

text \<open>
  C24. A share gives access to nothing else: a download, preview or thumbnail under a link
  succeeds only for an existing, unrevoked and unexpired share with this token, for a visible
  file of its owner that is the shared file, lies in the shared folder or belongs to the shared
  album; with a password, only if the request itself carries, in its access cookie, the token of
  a stored access session of this share that has not expired; and a download only when the
  share allows downloads.
\<close>

theorem share_confined:
  assumes ok: "drive_ok lower (st_db s)" and t: "list_all share_target_check (shares (st_db s))"
    and req: "isOk (snd (download_shared x ms c now hs token f s)) \<or> isOk (preview_shared x ms c now hs token f s)
      \<or> isOk (thumbnail_shared x ms c now hs token f s)"
  shows "\<exists>r \<in> set (shares (st_db s)). share_token_digest x token = Inr (shr_token_digest r) \<and> live_share now r \<and> covers (st_db s) r f
     \<and> (shr_password_hash r = None \<or> holds_grant x now hs r (st_db s))
     \<and> (isOk (snd (download_shared x ms c now hs token f s)) \<longrightarrow> shr_allow_download r)"
proof -
  have core: ?thesis if sf: "shared_file x now hs token f dl (st_db s) = Inr r"
    and dl: "isOk (snd (download_shared x ms c now hs token f s)) \<Longrightarrow> shr_allow_download r" for dl r
    using sf
  proof (rule shared_file_Inr)
    fix i
    assume fa: "fetch_active_share x now token (st_db s) = Inr r" and pg: "require_password_grant x now hs r (st_db s) = Inr ()"
      and i: "subject_id r = Inr i" and fi: "file_in_share (shr_owner r) (shr_resource_kind r) i f (st_db s)"
    note fr = fetch_active_Inr [OF fa]
    have "share_target_check r" using t fr(1) by (auto simp: list_all_iff)
    then have "covers (st_db s) r f" by (rule file_in_share_covers [OF ok _ i fi])
    then show ?thesis using fr grant_needs_session [OF pg] dl by blast
  qed
  have down: "shr_allow_download r" if "isOk (snd (download_shared x ms c now hs token f s))"
    "fetch_active_share x now token (st_db s) = Inr r" for r
    using that(1)
  proof (rule download_shared_needs)
    fix q d
    assume "shared_file x now hs token f True (st_db s) = Inr q"
    then show ?thesis by (rule shared_file_Inr) (use that(2) in auto)
  qed
  have allow: "isOk (snd (download_shared x ms c now hs token f s)) \<Longrightarrow> shr_allow_download r"
    if "shared_file x now hs token f dl (st_db s) = Inr r" for dl r
    using that by (rule shared_file_Inr) (use down in blast)
  from req show ?thesis
  proof (elim disjE)
    assume "isOk (snd (download_shared x ms c now hs token f s))"
    then show ?thesis by (rule download_shared_needs) (use core allow in blast)
  next
    assume "isOk (preview_shared x ms c now hs token f s)"
    then show ?thesis using core allow by (auto simp: preview_shared_def isOk_bindE)
  next
    assume "isOk (thumbnail_shared x ms c now hs token f s)"
    then show ?thesis using core allow by (auto simp: thumbnail_shared_def isOk_bindE)
  qed
qed

section \<open>Witnesses\<close>

text \<open>A shared folder with a password and a limit of two downloads, one of them used.\<close>

definition sample_link :: share_row where
  "sample_link = sample_share\<lparr>shr_token_digest := sha256 sample_externals (replicate 32 CHR 0x01), shr_password_hash := Some ''pw'',
     shr_max_downloads := Some 2, shr_download_count := 1\<rparr>"

definition sample_service :: service where
  "sample_service = \<lparr>sv_externals = sample_externals, sv_auth = sample_settings, sv_storage = sample_local, sv_transfers = sample_limits,
     sv_uuid = sample_crate, sv_collate = (\<lambda>_. 0)\<rparr>"

lemma sample_service_simps [simp]: "sv_externals sample_service = sample_externals" "sv_auth sample_service = sample_settings"
  "sv_uuid sample_service = sample_crate"
  by (simp_all add: sample_service_def)

lemma sample_link_simps [simp]: "shr_id sample_link = 30" "shr_owner sample_link = 1" "shr_password_hash sample_link = Some ''pw''"
  "shr_max_downloads sample_link = Some 2" "shr_download_count sample_link = 1"
  by (simp_all add: sample_link_def sample_share_def)

definition sample_token :: string where
  "sample_token = b64_encode sample_externals (replicate 32 CHR 0x01)"

lemma sample_shared_ok: "shares_ok (sql_lower (sv_externals sample_service)) (sample_pdf [r] acs)"
  using sample_pdf_ok [of "[r]" acs] by (simp add: shares_ok_def sample_pdf_def)

lemma sample_token_digest: "share_token_digest (sv_externals sample_service) sample_token = Inr (shr_token_digest sample_link)"
  using sample_codec
  by (simp add: token_codec_def share_token_digest_def sample_token_def sample_link_def SHARE_TOKEN_BYTES_def)

lemma sample_link_row: "r \<in> set (shares (st_db (sample_pdf [r] acs)))" by (simp add: sample_pdf_def)

lemma sample_wrong: "\<not> verify_password sample_externals ''pw'' (lit ''no'')"
  by (simp add: verify_password_def sample_externals_def) code_simp

theorem download_limit_holds_witness:
  "int (count_steps (served sample_service sample_media (shr_token_digest sample_link)) sample_service sample_media
     [DownloadShared 5 [] sample_token 12, DownloadShared 6 [] sample_token 12] (sample_pdf [sample_link] [])) \<le> 1"
proof -
  have "int (count_steps (served sample_service sample_media (shr_token_digest sample_link)) sample_service sample_media
     [DownloadShared 5 [] sample_token 12, DownloadShared 6 [] sample_token 12] (sample_pdf [sample_link] [])) \<le> 2 - shr_download_count sample_link"
    by (rule download_limit_holds [OF sample_shared_ok sample_link_row]) simp_all
  then show ?thesis by simp
qed

theorem revoked_share_dead_witness:
  "denied sample_service sample_media sample_token (fold (share_step sample_service sample_media) [UnlockShare 6 None sample_token (lit ''no'')]
     (sample_pdf [sample_link] []\<lparr>st_db := fst (revoke_share sample_externals sample_settings (sample_actor 1) [] 5 30 (st_db (sample_pdf [sample_link] [])))\<rparr>))"
proof -
  have r: "revoke_share (sv_externals sample_service) (sv_auth sample_service) (sample_actor 1) [] 5 (shr_id sample_link) (st_db (sample_pdf [sample_link] []))
    = (fst (revoke_share sample_externals sample_settings (sample_actor 1) [] 5 30 (st_db (sample_pdf [sample_link] []))), Inr ())"
    by (simp add: revoke_share_def shdrive_def sample_pdf_def)
  show ?thesis
    using revoked_share_dead [OF sample_shared_ok sample_link_row sample_token_digest r] by blast
qed

theorem protected_share_needs_password_witness:
  "denied sample_service sample_media sample_token
     (fold (share_step sample_service sample_media) [UnlockShare 5 None sample_token (lit ''no'')] (sample_pdf [sample_link] []))"
  by (rule protected_share_needs_password [OF sample_shared_ok sample_link_row _ _ sample_token_digest, where h = "''pw''"])
    (simp_all add: sample_wrong, simp add: sample_pdf_def)

lemma sample_fetch_share:
  assumes "shr_token_digest r = shr_token_digest sample_link" "shr_resource_kind r = Some Folder" "shr_resource r = Some 11" "shr_owner r = 1"
    "shr_revoked_at r = None" "shr_expires_at r = None"
  shows "fetch_active_share sample_externals now sample_token (st_db (sample_pdf [r] acs)) = Inr r"
proof -
  have "ensure_active_entry 1 11 True (st_db (sample_pdf [r] acs)) = Inr ()" "kind_of 11 1 (st_db (sample_pdf [r] acs)) = Some Folder"
    by (simp_all add: ensure_active_entry_def parent_chain_def owned_def kind_of_def sample_pdf_def sample_drive_def sample_entries_def new_entry_def)
  then show ?thesis
    using assms sample_token_digest by (simp add: fetch_active_share_def shdrive_def live_share_def) (simp add: sample_pdf_def live_share_def shdrive_def)
qed

lemma sample_link_columns: "shr_resource_kind sample_link = Some Folder" "shr_resource sample_link = Some 11" "shr_revoked_at sample_link = None"
  "shr_expires_at sample_link = None" "shr_locked_until sample_link = None" "shr_allow_download sample_link" "shr_album sample_link = None"
  by (simp_all add: sample_link_def sample_share_def)

definition sample_unlocked :: "db \<times> (share_error + string)" where
  "sample_unlocked = unlock_share sample_externals sample_settings 5 (Some (replicate 32 CHR 0x02)) sample_token (lit ''pw'')
     (st_db (sample_pdf [sample_link] []))"

lemma sample_unlocked_run: obtains cookie where "snd sample_unlocked = Inr cookie"
proof -
  have v: "verify_password sample_externals ''pw'' (lit ''pw'')" "\<not> text_len (lit ''pw'') > PASSWORD_MAX_BYTES"
    by (simp_all add: verify_password_def sample_externals_def PASSWORD_MAX_BYTES_def) (code_simp+)
  have "isOk (snd sample_unlocked)"
    using sample_fetch_share [of sample_link 5 "[]"] sample_token_digest v
    by (simp add: sample_unlocked_def unlock_share_unfold unlockable_def secure_token_def grant_access_def sample_link_columns Let_def)
      (simp add: sample_pdf_def grantable_def live_share_def update_where_def insert_access_def shsql_def subject_id_def sample_link_columns
        sample_externals_def)
  then show thesis using that by (auto simp: isOk_iff)
qed

theorem share_confined_witness:
  "isOk (preview_shared sample_externals sample_media sample_crate 5 [] sample_token 12 (sample_pdf [sample_link\<lparr>shr_password_hash := None\<rparr>] []))
   \<and> covers (st_db (sample_pdf [sample_link\<lparr>shr_password_hash := None\<rparr>] [])) (sample_link\<lparr>shr_password_hash := None\<rparr>) 12"
proof -
  let ?r = "sample_link\<lparr>shr_password_hash := None\<rparr>"
  let ?s = "sample_pdf [?r] []"
  have f: "fetch_active_share sample_externals 5 sample_token (st_db ?s) = Inr ?r"
    by (rule sample_fetch_share) (simp_all add: sample_link_columns)
  have "file_in_share 1 (Some Folder) 11 12 (st_db ?s)"
    by (simp add: file_in_share_def file_chain_def owned_def sample_pdf_def sample_drive_def sample_entries_def new_entry_def)
  then have sf: "shared_file sample_externals 5 [] sample_token 12 False (st_db ?s) = Inr ?r"
    using f by (simp add: shared_file_def require_password_grant_def subject_id_def sample_link_columns)
  obtain a where "preview_response_inner sample_externals sample_media sample_crate 1 12 [] False True ?s = Inr a" by (rule sample_pdf_preview)
  then have p: "isOk (preview_shared sample_externals sample_media sample_crate 5 [] sample_token 12 ?s)"
    using sf by (simp add: preview_shared_def preview_response_def shtransfer_def sample_link_columns isOk_def)
  have "\<exists>r \<in> set (shares (st_db ?s)). covers (st_db ?s) r 12"
    using share_confined [OF sample_pdf_ok _ disjI2 [OF disjI1 [OF p]]]
    by (auto simp: sample_pdf_def share_target_check_def sample_link_columns)
  then show ?thesis using p by (simp add: sample_pdf_def)
qed

end
