(* ===== verification/Share_Guesses.thy ===== *)
theory Share_Guesses
  imports Shares_Results
begin

text \<open>
  Guessing the password of a share, in any interleaving of the two phases of
  \<open>unlock_share\<close> (\<open>src/shares.rs\<close>): the read of the share with the comparison of the
  password, and the transaction that counts the failure or grants access. Between the phases
  of one request any other request may run.
\<close>

section \<open>Unlockings in flight\<close>

type_synonym unlock_flight = "string \<times> share_row \<times> bool"

record unlock_pool =
  up_store :: store
  up_flights :: "unlock_flight list"

datatype unlock_event =
    UnlockCheck instant string ustr
  | UnlockConclude nat instant "bytes option"
  | ShareOther share_event

definition unlock_at :: "unlock_pool \<Rightarrow> nat \<Rightarrow> unlock_flight option" where
  "unlock_at p i = (if i < length (up_flights p) then Some (up_flights p ! i) else None)"

fun unlock_step :: "service \<Rightarrow> media_services \<Rightarrow> unlock_event \<Rightarrow> unlock_pool \<Rightarrow> unlock_pool" where
  "unlock_step v ms (UnlockCheck now token password) p =
     (case unlock_check (sv_externals v) now token password (st_db (up_store p)) of
        Inl _ \<Rightarrow> p
      | Inr (r, valid) \<Rightarrow> p\<lparr>up_flights := up_flights p @ [(token, r, valid)]\<rparr>)"
| "unlock_step v ms (UnlockConclude i now draw) p =
     (case unlock_at p i of
        None \<Rightarrow> p
      | Some (token, r, valid) \<Rightarrow>
          (let d = fst (unlock_conclude (sv_externals v) (sv_auth v) now draw token r valid (st_db (up_store p)))
           in p\<lparr>up_store := up_store p\<lparr>st_db := d\<rparr>,
                up_flights := take i (up_flights p) @ drop (Suc i) (up_flights p)\<rparr>))"
| "unlock_step v ms (ShareOther e) p = p\<lparr>up_store := share_step v ms e (up_store p)\<rparr>"

text \<open>A request whose phases nothing separates is the handler.\<close>

lemma unlock_phases_in_turn:
  assumes "up_flights p = []" and "unlock_check (sv_externals v) now token pw (st_db (up_store p)) = Inr z"
  shows "fold (unlock_step v ms) [UnlockCheck now token pw, UnlockConclude 0 now draw] p
    = p\<lparr>up_store := share_step v ms (UnlockShare now draw token pw) (up_store p)\<rparr>"
  using assms by (cases z) (simp add: unlock_at_def unlock_share_def Let_def)

text \<open>The requests in flight for the share \<open>i\<close>, and the passwords a run compares with its hash.\<close>

definition flights_of :: "uuid \<Rightarrow> unlock_pool \<Rightarrow> nat" where
  "flights_of i p = count_where (\<lambda>(_, r, _). shr_id r = i) (up_flights p)"

fun guesses_share :: "service \<Rightarrow> uuid \<Rightarrow> unlock_event \<Rightarrow> unlock_pool \<Rightarrow> bool" where
  "guesses_share v i (UnlockCheck now token password) p =
     (case unlock_check (sv_externals v) now token password (st_db (up_store p)) of Inl _ \<Rightarrow> False | Inr (r, _) \<Rightarrow> shr_id r = i)"
| "guesses_share v i _ p = False"

fun passwords_compared :: "service \<Rightarrow> media_services \<Rightarrow> uuid \<Rightarrow> unlock_event list \<Rightarrow> unlock_pool \<Rightarrow> nat" where
  "passwords_compared v ms i [] p = 0"
| "passwords_compared v ms i (e # es) p =
     (if guesses_share v i e p then 1 else 0) + passwords_compared v ms i es (unlock_step v ms e p)"

text \<open>
  The runs of the bound: the clock readings of the phases never go backwards and stay
  below the instant \<open>t_max\<close>, no request concludes with the right password of the share, and at
  most \<open>k\<close> of its requests are in flight at a time. Everything else is arbitrary.
\<close>

fun unlock_run :: "service \<Rightarrow> media_services \<Rightarrow> uuid \<Rightarrow> nat \<Rightarrow> instant \<Rightarrow> instant \<Rightarrow> unlock_event list \<Rightarrow> unlock_pool \<Rightarrow> bool" where
  "unlock_run v ms i k t_max c [] p = (flights_of i p \<le> k)"
| "unlock_run v ms i k t_max c (UnlockCheck now token password # es) p =
     (flights_of i p \<le> k \<and> c \<le> now \<and> now < t_max
      \<and> unlock_run v ms i k t_max now es (unlock_step v ms (UnlockCheck now token password) p))"
| "unlock_run v ms i k t_max c (UnlockConclude n now draw # es) p =
     (flights_of i p \<le> k \<and> c \<le> now \<and> now < t_max
      \<and> (case unlock_at p n of None \<Rightarrow> True | Some (_, r, valid) \<Rightarrow> \<not> (valid \<and> shr_id r = i))
      \<and> unlock_run v ms i k t_max now es (unlock_step v ms (UnlockConclude n now draw) p))"
| "unlock_run v ms i k t_max c (ShareOther e # es) p =
     (flights_of i p \<le> k \<and> (case e of UnlockShare _ _ _ _ \<Rightarrow> False | _ \<Rightarrow> True)
      \<and> unlock_run v ms i k t_max c es (unlock_step v ms (ShareOther e) p))"

lemma unlock_run_flights: "unlock_run v ms i k t_max c es p \<Longrightarrow> flights_of i p \<le> k"
  by (induction v ms i k t_max c es p rule: unlock_run.induct) simp_all

section \<open>The budget of a share\<close>

text \<open>
  How many more passwords can be compared with the hash of a row before \<open>t_max\<close>, when the
  clock shows \<open>c\<close> and \<open>n\<close> requests are in flight: none once the share is dead or locked
  beyond \<open>t_max\<close>; otherwise what the counter leaves before the lock, and the free places of
  those in flight. Requests that were compared before a lock lapses do not count against
  the attempts after it.
\<close>

definition guess_budget :: "nat \<Rightarrow> instant \<Rightarrow> instant \<Rightarrow> share_row \<Rightarrow> nat \<Rightarrow> nat" where
  "guess_budget k t_max c r n =
     (if \<not> live_share c r then 0
      else case shr_locked_until r of
        None \<Rightarrow> nat (PASSWORD_FAILURE_LIMIT - 1 - shr_failed_attempts r) + (k - n)
      | Some u \<Rightarrow> if t_max \<le> u then 0 else nat (PASSWORD_FAILURE_LIMIT - 1) + (if c < u then k else k - n))"

text \<open>The counter of a share without a lock is below the limit.\<close>

definition lock_ok :: "share_row \<Rightarrow> bool" where
  "lock_ok r \<longleftrightarrow> 0 \<le> shr_failed_attempts r \<and> (shr_locked_until r = None \<longrightarrow> shr_failed_attempts r < PASSWORD_FAILURE_LIMIT)"

lemma live_share_mono: "c \<le> c' \<Longrightarrow> live_share c' r \<Longrightarrow> live_share c r"
  by (auto simp: live_share_def split: option.splits)

lemma guess_budget_bound: "lock_ok r \<Longrightarrow> guess_budget k t_max c r n < 5 + k"
  by (auto simp: guess_budget_def lock_ok_def PASSWORD_FAILURE_LIMIT_def split: option.splits)

text \<open>The clock and requests of others do not raise the budget.\<close>

lemma guess_budget_mono: "c \<le> c' \<Longrightarrow> guess_budget k t_max c' r n \<le> guess_budget k t_max c r n"
  using live_share_mono [of c c' r] by (auto simp: guess_budget_def split: option.splits)

lemma calm_lock:
  assumes "calm q r"
  shows "shr_locked_until r = shr_locked_until q" "shr_failed_attempts r = shr_failed_attempts q" "shr_id r = shr_id q"
    "live_share c r \<Longrightarrow> live_share c q" "lock_ok r = lock_ok q"
proof -
  have "share_key r = share_key q" using assms by (simp add: calm_def evolves_def)
  then have e: "shr_expires_at r = shr_expires_at q" by (cases r; cases q; simp add: share_key_def)
  show l: "shr_locked_until r = shr_locked_until q" "shr_failed_attempts r = shr_failed_attempts q" using assms by (simp_all add: calm_def)
  show "shr_id r = shr_id q" using assms evolves_columns by (simp add: calm_def)
  show "live_share c r \<Longrightarrow> live_share c q" using assms e by (auto simp: live_share_def calm_def evolves_def)
  show "lock_ok r = lock_ok q" by (simp add: lock_ok_def l)
qed

lemma calm_budget: "calm q r \<Longrightarrow> guess_budget k t_max c r n \<le> guess_budget k t_max c q n"
  using calm_lock [of q r] by (auto simp: guess_budget_def split: option.splits)

text \<open>A comparison takes a place among those in flight; it needs a live and unlocked row.\<close>

lemma guess_budget_check:
  assumes "lock_ok r" and "live_share now r" and "unlocked now r" and "now < t_max" and "Suc n \<le> k"
  shows "1 + guess_budget k t_max now r (Suc n) \<le> guess_budget k t_max now r n"
  using assms by (auto simp: guess_budget_def unlocked_def split: option.splits)

text \<open>A counted failure pays for the place it frees; a failure that finds the row locked or dead
  frees its place at no cost only where the budget does not depend on it.\<close>

lemma guess_budget_counted:
  assumes "lock_ok r" and "live_share now r" and "unlocked now r" and "now < t_max" and "t_max \<le> now + seconds PASSWORD_LOCKOUT_SECONDS"
    and "0 < n" and "n \<le> k"
  shows "guess_budget k t_max now (count_failure now r) (n - 1) \<le> guess_budget k t_max now r n"
    and "lock_ok (count_failure now r)"
proof -
  have l: "live_share c (count_failure now r) = live_share c r" for c
    by (simp add: count_failure_def live_share_def Let_def)
  show "guess_budget k t_max now (count_failure now r) (n - 1) \<le> guess_budget k t_max now r n"
    using assms
    by (auto simp: guess_budget_def l) (auto simp: count_failure_def unlocked_def lock_ok_def PASSWORD_FAILURE_LIMIT_def Let_def split: option.splits)
  show "lock_ok (count_failure now r)"
    using assms(1) by (auto simp: count_failure_def lock_ok_def PASSWORD_FAILURE_LIMIT_def Let_def split: option.splits)
qed

lemma guess_budget_uncounted:
  assumes "\<not> (live_share now r \<and> unlocked now r)"
  shows "guess_budget k t_max now r m \<le> guess_budget k t_max now r n"
  using assms by (auto simp: guess_budget_def unlocked_def split: option.splits)

section \<open>One step\<close>

definition flights_ok :: "unlock_pool \<Rightarrow> bool" where
  "flights_ok p \<longleftrightarrow> list_all (\<lambda>(_, r, _). isOk (subject_id r)) (up_flights p)"

lemma unlock_check_Inr:
  assumes "unlock_check x now token pw s = Inr (r, valid)"
  shows "r \<in> set (shares s)" and "live_share now r" and "unlocked now r" and "isOk (subject_id r)"
proof -
  from assms obtain h where "unlockable x now token pw s = Inr (r, h)" by (auto simp: unlock_check_def result_simps)
  note u = unlockable_Inr [OF this]
  show "r \<in> set (shares s)" "live_share now r" by (rule fetch_active_Inr [OF u(1)])+
  show "unlocked now r" by (rule u(3))
  show "isOk (subject_id r)" using fetch_active_subject [OF u(1)] by (auto simp: isOk_iff)
qed

lemma unlock_conclude_evolves:
  "list_all2 evolves (shares s) (shares (fst (unlock_conclude x st now draw token r valid s)))"
  "share_only s (fst (unlock_conclude x st now draw token r valid s))"
proof -
  let ?f = "fst (record_password_failure now r s)"
  have f: "list_all2 evolves (shares s) (shares ?f)"
  proof (cases "find (open_to_guesses now (shr_id r)) (shares s)"; cases "subject_id r")
    fix q i
    assume "find (open_to_guesses now (shr_id r)) (shares s) = Some q" "subject_id r = Inr i"
    then show ?thesis
      by (simp add: record_password_failure_def add_audit_def, intro list_all2_update_where)
        (simp_all add: count_failure_def evolves_def share_key_def Let_def)
  qed (simp_all add: record_password_failure_def list_all2_refl)
  have g: "list_all2 evolves (shares s) (shares d) \<and> share_only s d" if "grant_access x now token raw r s = Inr d" for raw d
    using that grant_access_only [OF that]
    by (elim grant_access_Inr) (simp, intro list_all2_update_where, simp_all add: evolves_def share_key_def)
  show "list_all2 evolves (shares s) (shares (fst (unlock_conclude x st now draw token r valid s)))"
    using f g by (auto simp: unlock_conclude_def result_simps list_all2_refl split: sum.splits prod.splits)
  show "share_only s (fst (unlock_conclude x st now draw token r valid s))"
    using record_failure_only [of s now r] g by (auto simp: unlock_conclude_def result_simps split: sum.splits prod.splits)
qed

lemma unlock_conclude_ok:
  assumes "shares_ok lower s"
  shows "shares_ok lower (s\<lparr>st_db := fst (unlock_conclude x st now draw token r valid (st_db s))\<rparr>)"
  using assms evolves_map [OF unlock_conclude_evolves(1)] share_only_ok [OF unlock_conclude_evolves(2)] by (simp add: shares_ok_def)

text \<open>What the transaction does to the row \<open>q\<close>: a failure of this share counts if the row is live
  and unlocked at that moment, anything else leaves its lock alone.\<close>

lemma unlock_conclude_lock:
  assumes d: "distinct (map shr_id (shares s))" and q: "q \<in> set (shares s)" and subj: "isOk (subject_id r)"
    and wrong: "\<not> (valid \<and> shr_id r = shr_id q)"
  shows "(if shr_id r = shr_id q \<and> live_share now q \<and> unlocked now q then count_failure now q else q)
    \<in> set (shares (fst (unlock_conclude x st now draw token r valid s)))"
proof (cases valid)
  case True
  then have "shr_id r \<noteq> shr_id q" using wrong by simp
  then have "\<not> grantable now (shr_id r) digest q" for digest by (auto simp: grantable_def)
  then have "q \<in> set (shares a)" if "grant_access x now token raw r s = Inr a" for raw a
    using that q by (elim grant_access_Inr) (auto simp: set_update_where image_iff)
  then show ?thesis
    using q True wrong by (auto simp: unlock_conclude_def result_simps split: sum.splits prod.splits)
next
  case False
  obtain i where i: "subject_id r = Inr i" using subj by (auto simp: isOk_iff)
  let ?o = "open_to_guesses now (shr_id r)"
  have s': "shares (fst (unlock_conclude x st now draw token r valid s)) =
      (if find ?o (shares s) = None then shares s else update_where ?o (count_failure now) (shares s))"
    using False i by (auto simp: unlock_conclude_def record_password_failure_def add_audit_def split: option.splits prod.splits)
  have o: "?o q \<longleftrightarrow> shr_id r = shr_id q \<and> live_share now q \<and> unlocked now q" by (auto simp: open_to_guesses_def)
  show ?thesis
  proof (cases "?o q")
    case True
    then have "find ?o (shares s) \<noteq> None" using q by (auto simp: find_None_iff)
    then show ?thesis using True q o by (auto simp: s' set_update_where)
  next
    case False
    then show ?thesis using q unfolding o [symmetric] by (auto simp: s' set_update_where image_iff)
  qed
qed

lemma other_step_calm:
  assumes ok: "shares_ok (sql_lower (sv_externals v)) s" and q: "q \<in> set (shares (st_db s))"
    and e: "case e of UnlockShare _ _ _ _ \<Rightarrow> False | _ \<Rightarrow> True"
  obtains r where "r \<in> set (shares (st_db (share_step v ms e s)))" and "calm q r"
proof (rule step_calm [OF ok, where e = e and ms = ms])
  show "e \<noteq> UnlockShare now draw token p" for now draw token p using e by auto
next
  fix rs new
  assume n: "shares (st_db (share_step v ms e s)) = rs @ new" and c: "list_all2 calm (shares (st_db s)) rs"
  from c q obtain r where "r \<in> set rs" "calm q r" by (auto simp: list_all2_iff in_set_conv_nth set_zip) metis
  then show thesis using that n by auto
qed

lemma flights_of_append:
  "flights_of i (p\<lparr>up_flights := up_flights p @ [(token, r, valid)]\<rparr>) = flights_of i p + (if shr_id r = i then 1 else 0)"
  by (simp add: flights_of_def count_where_def)

lemma flights_of_conclude:
  assumes "unlock_at p n = Some (token, r, valid)"
  shows "flights_of i (p\<lparr>up_store := s, up_flights := take n (up_flights p) @ drop (Suc n) (up_flights p)\<rparr>)
    = flights_of i p - (if shr_id r = i then 1 else 0)" and "shr_id r = i \<Longrightarrow> 0 < flights_of i p"
proof -
  have "n < length (up_flights p)" "up_flights p ! n = (token, r, valid)" using assms by (auto simp: unlock_at_def split: if_splits)
  then show "flights_of i (p\<lparr>up_store := s, up_flights := take n (up_flights p) @ drop (Suc n) (up_flights p)\<rparr>)
      = flights_of i p - (if shr_id r = i then 1 else 0)" "shr_id r = i \<Longrightarrow> 0 < flights_of i p"
    using count_where_nth(1) [of n "up_flights p" "\<lambda>(_, r, _). shr_id r = i"] by (simp_all add: flights_of_def)
qed

section \<open>The bound\<close>

definition guess_state :: "service \<Rightarrow> share_row \<Rightarrow> unlock_pool \<Rightarrow> bool" where
  "guess_state v q p \<longleftrightarrow> shares_ok (sql_lower (sv_externals v)) (up_store p) \<and> q \<in> set (shares (st_db (up_store p)))
     \<and> lock_ok q \<and> flights_ok p"

lemma check_step:
  assumes g: "guess_state v q p" and t: "c \<le> now" "now < t_max" and p': "p' = unlock_step v ms (UnlockCheck now token pw) p"
    and room: "flights_of (shr_id q) p' \<le> k"
  shows "guess_state v q p'"
    and "(if guesses_share v (shr_id q) (UnlockCheck now token pw) p then 1 else 0) + guess_budget k t_max now q (flights_of (shr_id q) p')
      \<le> guess_budget k t_max c q (flights_of (shr_id q) p)"
proof -
  have ok: "shares_ok (sql_lower (sv_externals v)) (up_store p)" and q: "q \<in> set (shares (st_db (up_store p)))" "lock_ok q" and fl: "flights_ok p"
    using g by (auto simp: guess_state_def)
  note later = guess_budget_mono [OF t(1), of k t_max q "flights_of (shr_id q) p"]
  have "guess_state v q p' \<and> (if guesses_share v (shr_id q) (UnlockCheck now token pw) p then 1 else 0)
      + guess_budget k t_max now q (flights_of (shr_id q) p') \<le> guess_budget k t_max c q (flights_of (shr_id q) p)"
  proof (cases "unlock_check (sv_externals v) now token pw (st_db (up_store p))")
    case (Inl e)
    then show ?thesis using g later by (simp add: p')
  next
    case (Inr z)
    obtain r valid where z: "z = (r, valid)" by (cases z)
    note u = unlock_check_Inr [OF Inr [unfolded z]]
    have p'': "p' = p\<lparr>up_flights := up_flights p @ [(token, r, valid)]\<rparr>" using Inr z by (simp add: p')
    have g': "guess_state v q p'" using g u(4) by (simp add: p'' guess_state_def flights_ok_def)
    show ?thesis
    proof (cases "shr_id r = shr_id q")
      case True
      have "r = q" using ok distinct_key_unique [OF _ u(1) q(1) True] by (simp add: shares_ok_def)
      then have "1 + guess_budget k t_max now q (Suc (flights_of (shr_id q) p)) \<le> guess_budget k t_max now q (flights_of (shr_id q) p)"
        using guess_budget_check [OF q(2) _ _ t(2)] u(2,3) room True by (simp add: p'' flights_of_append)
      then show ?thesis using g' later Inr z True by (simp add: p'' flights_of_append)
    next
      case False
      then show ?thesis using g' later Inr z by (simp add: p'' flights_of_append)
    qed
  qed
  then show "guess_state v q p'"
    "(if guesses_share v (shr_id q) (UnlockCheck now token pw) p then 1 else 0) + guess_budget k t_max now q (flights_of (shr_id q) p')
      \<le> guess_budget k t_max c q (flights_of (shr_id q) p)" by blast+
qed

lemma conclude_step:
  assumes g: "guess_state v q p" and t: "c \<le> now" "now < t_max" "t_max \<le> now + seconds PASSWORD_LOCKOUT_SECONDS"
    and wrong: "case unlock_at p n of None \<Rightarrow> True | Some (_, r, valid) \<Rightarrow> \<not> (valid \<and> shr_id r = shr_id q)"
    and p': "p' = unlock_step v ms (UnlockConclude n now draw) p" and room: "flights_of (shr_id q) p \<le> k"
  obtains q' where "guess_state v q' p'" and "shr_id q' = shr_id q"
    and "guess_budget k t_max now q' (flights_of (shr_id q) p') \<le> guess_budget k t_max c q (flights_of (shr_id q) p)"
proof (cases "unlock_at p n")
  case None
  then show thesis using that [of q] g guess_budget_mono [OF t(1)] by (simp add: p')
next
  case (Some z)
  obtain token r valid where z: "z = (token, r, valid)" by (cases z)
  have ok: "shares_ok (sql_lower (sv_externals v)) (up_store p)" and q: "q \<in> set (shares (st_db (up_store p)))" "lock_ok q" and fl: "flights_ok p"
    using g by (auto simp: guess_state_def)
  let ?d = "fst (unlock_conclude (sv_externals v) (sv_auth v) now draw token r valid (st_db (up_store p)))"
  have p'': "p' = p\<lparr>up_store := up_store p\<lparr>st_db := ?d\<rparr>, up_flights := take n (up_flights p) @ drop (Suc n) (up_flights p)\<rparr>"
    using Some z by (simp add: p' Let_def)
  have at: "(token, r, valid) \<in> set (up_flights p)" using Some z nth_mem by (fastforce simp: unlock_at_def split: if_splits)
  then have subj: "isOk (subject_id r)" using fl by (auto simp: flights_ok_def list_all_iff)
  have fl': "flights_ok p'" using fl by (auto simp: p'' flights_ok_def list_all_iff dest: in_set_takeD in_set_dropD)
  let ?c = "shr_id r = shr_id q \<and> live_share now q \<and> unlocked now q"
  define q' where "q' = (if ?c then count_failure now q else q)"
  have "q' \<in> set (shares ?d)"
    unfolding q'_def using unlock_conclude_lock [OF _ q(1) subj, of valid now] wrong Some z ok by (simp add: shares_ok_def)
  note later = guess_budget_mono [OF t(1), of k t_max q "flights_of (shr_id q) p"]
  note n = flights_of_conclude(1) [OF Some [unfolded z], of "shr_id q" "up_store p\<lparr>st_db := ?d\<rparr>", folded p'']
    flights_of_conclude(2) [OF Some [unfolded z], of "shr_id q"]
  have b: "lock_ok q' \<and> guess_budget k t_max now q' (flights_of (shr_id q) p') \<le> guess_budget k t_max c q (flights_of (shr_id q) p)"
  proof (cases ?c)
    case True
    then show ?thesis
      using guess_budget_counted [OF q(2) _ _ t(2,3), of "flights_of (shr_id q) p" k] n room later by (simp add: q'_def)
  next
    case False
    show ?thesis
    proof (cases "shr_id r = shr_id q")
      case True
      then have "guess_budget k t_max now q (flights_of (shr_id q) p') \<le> guess_budget k t_max now q (flights_of (shr_id q) p)"
        using False guess_budget_uncounted by simp
      moreover have "q' = q" using False unfolding q'_def by (rule if_not_P)
      ultimately show ?thesis using q(2) later by simp
    next
      case other: False
      then show ?thesis using q(2) later n(1) by (simp add: q'_def)
    qed
  qed
  have "shares_ok (sql_lower (sv_externals v)) (up_store p')" using unlock_conclude_ok [OF ok] by (simp add: p'')
  then have "guess_state v q' p'" using \<open>q' \<in> set (shares ?d)\<close> b fl' by (simp add: guess_state_def p'')
  moreover have "shr_id q' = shr_id q" by (simp add: q'_def count_failure_def Let_def)
  ultimately show thesis using that b by blast
qed

lemma passwords_within_budget:
  assumes "guess_state v q p" and "unlock_run v ms (shr_id q) k t_max c es p" and "t_max \<le> c + seconds PASSWORD_LOCKOUT_SECONDS"
  shows "passwords_compared v ms (shr_id q) es p \<le> guess_budget k t_max c q (flights_of (shr_id q) p)"
  using assms
proof (induction es arbitrary: p q c)
  case Nil
  then show ?case by simp
next
  case (Cons e es)
  let ?p' = "unlock_step v ms e p"
  show ?case
  proof (cases e)
    case (UnlockCheck now token pw)
    then have r: "c \<le> now" "now < t_max" "unlock_run v ms (shr_id q) k t_max now es ?p'" using Cons.prems(2) by simp_all
    note s = check_step [OF Cons.prems(1) r(1,2) refl unlock_run_flights [OF r(3) [unfolded UnlockCheck]], folded UnlockCheck]
    show ?thesis using Cons.IH [OF s(1) r(3)] s(2) Cons.prems(3) r(1) by simp
  next
    case (UnlockConclude n now draw)
    then have r: "c \<le> now" "unlock_run v ms (shr_id q) k t_max now es ?p'" "flights_of (shr_id q) p \<le> k"
      "now < t_max"
      "case unlock_at p n of None \<Rightarrow> True | Some (_, r, valid) \<Rightarrow> \<not> (valid \<and> shr_id r = shr_id q)" using Cons.prems(2) by simp_all
    have t: "t_max \<le> now + seconds PASSWORD_LOCKOUT_SECONDS" using Cons.prems(3) r(1) by simp
    show ?thesis
    proof (rule conclude_step [OF Cons.prems(1) r(1,4) t r(5) refl r(3), of ms draw, folded UnlockConclude])
      fix q'
      assume q': "guess_state v q' ?p'" "shr_id q' = shr_id q"
        and b: "guess_budget k t_max now q' (flights_of (shr_id q) ?p') \<le> guess_budget k t_max c q (flights_of (shr_id q) p)"
      then show ?thesis using Cons.IH [OF q'(1), of now] r(2) t by (simp add: UnlockConclude)
    qed
  next
    case (ShareOther d)
    then have r: "unlock_run v ms (shr_id q) k t_max c es ?p'" "case d of UnlockShare _ _ _ _ \<Rightarrow> False | _ \<Rightarrow> True" using Cons.prems(2) by simp_all
    have ok: "shares_ok (sql_lower (sv_externals v)) (up_store p)" and q: "q \<in> set (shares (st_db (up_store p)))" "lock_ok q" "flights_ok p"
      using Cons.prems(1) by (auto simp: guess_state_def)
    obtain q' where q': "q' \<in> set (shares (st_db (share_step v ms d (up_store p))))" "calm q q'" by (rule other_step_calm [OF ok q(1) r(2)])
    note c = calm_lock [OF q'(2)]
    have g: "guess_state v q' ?p'" using share_step_ok [OF ok, of ms d] q' q(2,3) c(5) by (simp add: guess_state_def ShareOther flights_ok_def)
    have "flights_of i ?p' = flights_of i p" for i by (simp add: ShareOther flights_of_def)
    then show ?thesis
      using Cons.IH [OF g, of c] r(1) c(3) Cons.prems(3) calm_budget [OF q'(2), of k t_max c "flights_of (shr_id q) p"]
      by (simp add: ShareOther)
  qed
qed

text \<open>
  C28. Guessing the password of a share is slow, in every interleaving of concurrent
  unlockings with one another and with all other requests: while no request concludes with
  the right password (which would reset the counter), fewer than \<open>5 + k\<close> passwords are
  compared with the hash within fifteen minutes, where \<open>k\<close> is the largest number of
  unlockings of this share in flight at a time and the clock does not go backwards. One
  request at a time gives the five of \<open>PASSWORD_FAILURE_LIMIT\<close>; the lock alone does not bound \<open>k\<close>, because
  a failure is counted only after the comparison.
\<close>

theorem share_guesses_limited:
  assumes "shares_ok (sql_lower (sv_externals v)) (up_store p)" and "r \<in> set (shares (st_db (up_store p)))" and "lock_ok r"
    and "flights_ok p" and "unlock_run v ms (shr_id r) k (t + seconds PASSWORD_LOCKOUT_SECONDS) t es p"
  shows "passwords_compared v ms (shr_id r) es p < 5 + k"
proof -
  have "guess_state v r p" using assms(1-4) by (simp add: guess_state_def)
  from passwords_within_budget [OF this assms(5)] guess_budget_bound [OF assms(3), of k]
  show ?thesis using order.strict_trans1 by blast
qed

section \<open>A race of two guesses\<close>

definition sample_race :: "unlock_event list" where
  "sample_race = [UnlockCheck 5 sample_token (lit ''no''), UnlockCheck 6 sample_token (lit ''no''),
     UnlockConclude 1 7 None, UnlockConclude 0 8 None]"

theorem share_guesses_limited_witness:
  "passwords_compared sample_service sample_media 30 sample_race \<lparr>up_store = sample_pdf [sample_link] [], up_flights = []\<rparr> < 5 + 2"
proof -
  have s: "unlock_check sample_externals now sample_token (lit ''no'') (st_db (sample_pdf [sample_link] [])) = Inr (sample_link, False)" for now
    using sample_fetch_share [of sample_link now "[]"] sample_wrong
    by (simp add: unlock_check_def unlockable_def sample_link_columns PASSWORD_MAX_BYTES_def lit_def text_len_def utf8_len_def)
  have "unlock_run sample_service sample_media (shr_id sample_link) 2 (0 + seconds PASSWORD_LOCKOUT_SECONDS) 0 sample_race
      \<lparr>up_store = sample_pdf [sample_link] [], up_flights = []\<rparr>"
    by (simp add: sample_race_def s unlock_at_def flights_of_def count_where_def seconds_def PASSWORD_LOCKOUT_SECONDS_def Let_def)
  moreover have "lock_ok sample_link" by (simp add: sample_link_def sample_share_def lock_ok_def PASSWORD_FAILURE_LIMIT_def)
  ultimately show ?thesis
    using share_guesses_limited [of sample_service "\<lparr>up_store = sample_pdf [sample_link] [], up_flights = []\<rparr>" sample_link sample_media 2 0 sample_race]
      sample_shared_ok [of sample_link "[]"] sample_link_row [of sample_link "[]"]
    by (simp add: flights_ok_def)
qed

end
