(* ===== verification/Maintenance.thy ===== *)
theory Maintenance
  imports Uploads
begin

text \<open>
  The maintenance pass of \<open>src/maintenance.rs\<close> and the permanent deletion of trash that the
  drive offers (\<open>purge_trash\<close> of \<open>src/drive.rs\<close>): expired uploads lose their staging
  files, expired trash is purged with its subtrees, objects that no version and no finalizing
  upload refers to are removed from the volume, and the payloads of ready objects are looked
  for. A pass reads the clock once. The functions take the store and return it, together with
  their result, since every statement outside a transaction, and every transaction, is
  committed on its own.
\<close>

section \<open>Errors and settings\<close>

datatype maintenance_error = MDatabase db_error | MStorage storage_error | RetentionOutOfRange | MNotFound

type_synonym 'a maintenance_outcome = "store \<times> (maintenance_error + 'a)"

record maintenance_settings =
  ms_trash_retention_days :: nat
  ms_upload_session_ttl_seconds :: nat

record run_summary =
  expired_uploads_cleaned :: nat
  expired_upload_cleanup_failures :: nat
  trash_roots_purged :: nat
  entries_purged :: nat
  storage_objects_removed :: nat
  storage_object_cleanup_failures :: nat
  missing_payloads :: nat

definition BATCH_SIZE :: nat where "BATCH_SIZE = 100"

definition i64_of :: "nat \<Rightarrow> maintenance_error + int" where
  "i64_of n = (if n < 2 ^ 63 then Inr (int n) else Inl RetentionOutOfRange)"

text \<open>
  \<open>now() - amount * interval\<close>, in microseconds; PostgreSQL refuses instants before
  4714 BC (Julian day 0).
\<close>

definition earliest_instant :: instant where
  "earliest_instant = - 210866803200000000"

definition ago :: "instant \<Rightarrow> int \<Rightarrow> int \<Rightarrow> maintenance_error + instant" where
  "ago now amount unit =
     (if now - amount * unit < earliest_instant then Inl (MDatabase OtherDbError)
      else Inr (now - amount * unit))"

abbreviation one_day :: int where "one_day \<equiv> 86400000000"
abbreviation one_second :: int where "one_second \<equiv> 1000000"

definition mdb :: "db_error + 'a \<Rightarrow> maintenance_error + 'a" where
  "mdb r = mapErr MDatabase r"

definition mstore :: "storage_error + 'a \<Rightarrow> maintenance_error + 'a" where
  "mstore r = mapErr MStorage r"

text \<open>A step on the result of an earlier one; an error ends the function, the writes stay.\<close>

definition and_then :: "'a maintenance_outcome \<Rightarrow> ('a \<Rightarrow> store \<Rightarrow> 'b maintenance_outcome) \<Rightarrow> 'b maintenance_outcome" where
  "and_then r f = (case r of (s, Inl e) \<Rightarrow> (s, Inl e) | (s, Inr a) \<Rightarrow> f a s)"

section \<open>Expired uploads\<close>

definition cleanable :: "instant \<Rightarrow> upload_row \<Rightarrow> bool" where
  "cleanable now u \<longleftrightarrow> upl_staging_cleaned_at u = None
     \<and> ((upl_state u = Active \<and> upl_expires_at u \<le> now) \<or> upl_state u = Expired \<or> upl_state u = UpFailed)"

definition cleanup_candidates :: "instant \<Rightarrow> db \<Rightarrow> upload_row list" where
  "cleanup_candidates now s =
     take BATCH_SIZE (sort_key upl_expires_at (sort_key upl_id (filter (cleanable now) (uploads s))))"

definition expires_with :: "instant \<Rightarrow> upload_row \<Rightarrow> upload_row" where
  "expires_with now u = (if upl_state u = Active then u\<lparr>upl_state := Expired, upl_updated_at := now\<rparr> else u)"

definition expire_uploads :: "instant \<Rightarrow> uuid list \<Rightarrow> db \<Rightarrow> db_error + db" where
  "expire_uploads now ids s =
     bindE (guardE (\<forall>u \<in> set (uploads s). upl_id u \<in> set ids \<longrightarrow> upload_row_check (expires_with now u)) CheckViolation) (\<lambda>_.
       Inr (s\<lparr>uploads := update_where (\<lambda>u. upl_id u \<in> set ids) (expires_with now) (uploads s)\<rparr>))"

definition mark_cleaned :: "instant \<Rightarrow> uuid \<Rightarrow> db \<Rightarrow> db_error + db" where
  "mark_cleaned now i s =
     update_upload i (\<lambda>u. upl_staging_cleaned_at u = None \<and> (upl_state u = Expired \<or> upl_state u = UpFailed))
       (\<lambda>u. u\<lparr>upl_staging_cleaned_at := Some now\<rparr>) s"

fun clean_staging :: "instant \<Rightarrow> (uuid \<times> uuid) list \<Rightarrow> nat \<times> nat \<Rightarrow> store \<Rightarrow> (nat \<times> nat) maintenance_outcome" where
  "clean_staging now [] counts s = (s, Inr counts)"
| "clean_staging now ((i, k) # us) (cleaned, failures) s =
     (case remove_staging_file k (st_vol s) of
        Inl _ \<Rightarrow> clean_staging now us (cleaned, Suc failures) s
      | Inr v \<Rightarrow>
          (case mdb (mark_cleaned now i (st_db s)) of
             Inl e \<Rightarrow> (s\<lparr>st_vol := v\<rparr>, Inl e)
           | Inr d \<Rightarrow> clean_staging now us (Suc cleaned, failures) (s\<lparr>st_db := d, st_vol := v\<rparr>)))"

definition clean_expired_uploads :: "instant \<Rightarrow> store \<Rightarrow> (nat \<times> nat) maintenance_outcome" where
  "clean_expired_uploads now s =
     (let us = cleanup_candidates now (st_db s) in
      case mdb (expire_uploads now (map upl_id us) (st_db s)) of
        Inl e \<Rightarrow> (s, Inl e)
      | Inr d \<Rightarrow> clean_staging now (map (\<lambda>u. (upl_id u, upl_staging_key u)) us) (0, 0) (s\<lparr>st_db := d\<rparr>))"

section \<open>Purging of entries\<close>

text \<open>The rows of a subtree, the deepest first, and the statements that delete them.\<close>

definition purge_order :: "uuid \<Rightarrow> uuid \<Rightarrow> db \<Rightarrow> entry list" where
  "purge_order owner i s =
     map fst (sort_key (\<lambda>(e, d). - int d) (sort_key (\<lambda>(e, d). ent_id e)
       (descend (owned owner) (length (entries s)) (entries s)
          (filter (\<lambda>e. ent_id e = i \<and> ent_owner e = owner) (entries s)) 0)))"

definition purge_entry :: "entry \<Rightarrow> db \<Rightarrow> db_error + db" where
  "purge_entry e s =
     (case ent_kind e of
        File \<Rightarrow> bindE (delete_file (ent_id e) (delete_versions (\<lambda>v. ver_file v = ent_id e) s)) (delete_entry (ent_id e) (ent_owner e))
      | Folder \<Rightarrow> delete_entry (ent_id e) (ent_owner e) (delete_folder (ent_id e) s))"

fun purge_entries :: "entry list \<Rightarrow> db \<Rightarrow> db_error + db" where
  "purge_entries [] s = Inr s"
| "purge_entries (e # es) s = bindE (purge_entry e s) (purge_entries es)"

text \<open>An entry in the trash whose parent is not.\<close>

definition trash_root :: "db \<Rightarrow> entry \<Rightarrow> bool" where
  "trash_root s e \<longleftrightarrow> ent_deleted_at e \<noteq> None
     \<and> (case ent_parent e of
          None \<Rightarrow> True
        | Some p \<Rightarrow> (case find_row ent_id p (entries s) of None \<Rightarrow> True | Some parent \<Rightarrow> ent_deleted_at parent = None))"

definition deleted_before :: "instant \<Rightarrow> entry \<Rightarrow> bool" where
  "deleted_before t e \<longleftrightarrow> (case ent_deleted_at e of None \<Rightarrow> False | Some d \<Rightarrow> d \<le> t)"

definition oldest_first :: "entry list \<Rightarrow> entry list" where
  "oldest_first es = sort_key (\<lambda>e. the (ent_deleted_at e)) (sort_key ent_id es)"

definition expired_roots :: "instant \<Rightarrow> db \<Rightarrow> uuid list" where
  "expired_roots t s =
     map ent_id (take BATCH_SIZE (oldest_first (filter (\<lambda>e. deleted_before t e \<and> trash_root s e) (entries s))))"

definition purge_expired_root :: "instant \<Rightarrow> uuid \<Rightarrow> db \<Rightarrow> db_error + (db \<times> nat) option" where
  "purge_expired_root t i s =
     (case find (\<lambda>e. ent_id e = i \<and> deleted_before t e) (entries s) of
        None \<Rightarrow> Inr None
      | Some root \<Rightarrow>
          let es = purge_order (ent_owner root) i s in
          if es = [] then Inr None
          else bindE (purge_entries es s) (\<lambda>s1.
            Inr (Some (add_audit ''entry_purged'' None (Some i) s1, length es))))"

fun purge_roots :: "instant \<Rightarrow> uuid list \<Rightarrow> nat \<times> nat \<Rightarrow> store \<Rightarrow> (nat \<times> nat) maintenance_outcome" where
  "purge_roots t [] counts s = (s, Inr counts)"
| "purge_roots t (i # is) (roots, n) s =
     (case mdb (purge_expired_root t i (st_db s)) of
        Inl e \<Rightarrow> (s, Inl e)
      | Inr None \<Rightarrow> purge_roots t is (roots, n) s
      | Inr (Some (d, k)) \<Rightarrow> purge_roots t is (Suc roots, n + k) (s\<lparr>st_db := d\<rparr>))"

definition purge_expired_trash :: "instant \<Rightarrow> int \<Rightarrow> store \<Rightarrow> (nat \<times> nat) maintenance_outcome" where
  "purge_expired_trash now days s =
     (case ago now days one_day of
        Inl e \<Rightarrow> (s, Inl e)
      | Inr t \<Rightarrow> purge_roots t (expired_roots t (st_db s)) (0, 0) s)"

section \<open>Objects\<close>

text \<open>No version and no finalizing upload refers to the object.\<close>

definition in_versions :: "uuid \<Rightarrow> db \<Rightarrow> bool" where
  "in_versions b s \<longleftrightarrow> b \<in> ver_object ` set (versions s)"

definition finalizing_object :: "uuid \<Rightarrow> db \<Rightarrow> bool" where
  "finalizing_object b s \<longleftrightarrow> (\<exists>u \<in> set (uploads s). upl_object u = Some b \<and> upl_state u = Finalizing)"

definition unreferenced :: "db \<Rightarrow> object_row \<Rightarrow> bool" where
  "unreferenced s r \<longleftrightarrow> \<not> in_versions (obj_id r) s \<and> \<not> finalizing_object (obj_id r) s"

definition mark_deleting :: "uuid list \<Rightarrow> db \<Rightarrow> db" where
  "mark_deleting ids s =
     s\<lparr>objects := update_where (\<lambda>r. obj_id r \<in> set ids) (\<lambda>r. r\<lparr>obj_state := Deleting\<rparr>) (objects s)\<rparr>"

text \<open>The conditional \<open>DELETE\<close> with the number of deleted rows.\<close>

definition drop_object :: "(object_row \<Rightarrow> bool) \<Rightarrow> uuid \<Rightarrow> db \<Rightarrow> db_error + db \<times> nat" where
  "drop_object p b s =
     (if \<exists>r \<in> set (objects s). obj_id r = b \<and> obj_state r = Deleting \<and> p r
      then bindE (delete_object b s) (\<lambda>d. Inr (d, 1)) else Inr (s, 0))"

fun remove_payloads :: "uuid_crate \<Rightarrow> (uuid \<times> string) list \<Rightarrow> store \<Rightarrow> unit maintenance_outcome" where
  "remove_payloads c [] s = (s, Inr ())"
| "remove_payloads c ((b, key) # bs) s =
     (case mstore (remove_object c key (st_vol s)) of
        Inl e \<Rightarrow> (s, Inl e)
      | Inr v \<Rightarrow>
          (case mdb (drop_object (\<lambda>r. \<not> in_versions b (st_db s)) b (st_db s)) of
             Inl e \<Rightarrow> (s\<lparr>st_vol := v\<rparr>, Inl e)
           | Inr (d, _) \<Rightarrow> remove_payloads c bs (s\<lparr>st_db := d, st_vol := v\<rparr>)))"

definition keyed :: "object_row \<Rightarrow> uuid \<times> string" where
  "keyed r = (obj_id r, obj_storage_key r)"

definition delete_unreferenced_objects :: "uuid_crate \<Rightarrow> uuid list \<Rightarrow> store \<Rightarrow> unit maintenance_outcome" where
  "delete_unreferenced_objects c ids s =
     (if ids = [] then (s, Inr ())
      else
        let bs = filter (\<lambda>r. obj_id r \<in> set ids \<and> unreferenced (st_db s) r) (objects (st_db s)) in
        remove_payloads c (map keyed bs) (s\<lparr>st_db := mark_deleting (map obj_id bs) (st_db s)\<rparr>))"

definition removable :: "instant \<Rightarrow> db \<Rightarrow> object_row \<Rightarrow> bool" where
  "removable t s r \<longleftrightarrow> (obj_state r = Deleting \<or> obj_created_at r \<le> t) \<and> unreferenced s r"

definition removal_candidates :: "instant \<Rightarrow> db \<Rightarrow> object_row list" where
  "removal_candidates t s =
     take BATCH_SIZE (sort_key (\<lambda>r. if obj_state r = Deleting then 0 else 1 :: nat)
       (sort_key obj_created_at (sort_key obj_id (filter (removable t s) (objects s)))))"

fun remove_marked :: "uuid_crate \<Rightarrow> (uuid \<times> string) list \<Rightarrow> nat \<times> nat \<Rightarrow> store \<Rightarrow> (nat \<times> nat) maintenance_outcome" where
  "remove_marked c [] counts s = (s, Inr counts)"
| "remove_marked c ((b, key) # bs) (removed, failures) s =
     (case remove_object c key (st_vol s) of
        Inl _ \<Rightarrow> remove_marked c bs (removed, Suc failures) s
      | Inr v \<Rightarrow>
          (case mdb (drop_object (unreferenced (st_db s)) b (st_db s)) of
             Inl e \<Rightarrow> (s\<lparr>st_vol := v\<rparr>, Inl e)
           | Inr (d, n) \<Rightarrow>
               remove_marked c bs (if n = 1 then (Suc removed, failures) else (removed, Suc failures))
                 (s\<lparr>st_db := d, st_vol := v\<rparr>)))"

definition remove_unreferenced_objects :: "uuid_crate \<Rightarrow> instant \<Rightarrow> int \<Rightarrow> store \<Rightarrow> (nat \<times> nat) maintenance_outcome" where
  "remove_unreferenced_objects c now ttl s =
     (case ago now ttl one_second of
        Inl e \<Rightarrow> (s, Inl e)
      | Inr t \<Rightarrow>
          let bs = removal_candidates t (st_db s) in
          remove_marked c (map keyed bs) (0, 0) (s\<lparr>st_db := mark_deleting (map obj_id bs) (st_db s)\<rparr>))"

text \<open>The look for payloads; an error of the volume rolls the transaction back.\<close>

definition due_check :: "instant \<Rightarrow> object_row \<Rightarrow> bool" where
  "due_check t r \<longleftrightarrow> obj_state r = Ready \<and> (case obj_last_checked_at r of None \<Rightarrow> True | Some d \<Rightarrow> d \<le> t)"

definition check_candidates :: "instant \<Rightarrow> db \<Rightarrow> object_row list" where
  "check_candidates t s =
     (let rs = sort_key obj_created_at (sort_key obj_id (filter (due_check t) (objects s))) in
      take BATCH_SIZE (filter (\<lambda>r. obj_last_checked_at r = None) rs
        @ sort_key (\<lambda>r. the (obj_last_checked_at r)) (filter (\<lambda>r. obj_last_checked_at r \<noteq> None) rs)))"

fun missing_objects :: "uuid_crate \<Rightarrow> volume \<Rightarrow> object_row list \<Rightarrow> storage_error + object_row list" where
  "missing_objects c v [] = Inr []"
| "missing_objects c v (r # rs) =
     bindE (object_exists c (obj_storage_key r) v) (\<lambda>found.
     bindE (missing_objects c v rs) (\<lambda>ms. Inr (if found then ms else r # ms)))"

definition report_missing_payloads :: "uuid_crate \<Rightarrow> instant \<Rightarrow> store \<Rightarrow> nat maintenance_outcome" where
  "report_missing_payloads c now s =
     (let rs = check_candidates (now - one_day) (st_db s) in
      case mstore (missing_objects c (st_vol s) rs) of
        Inl e \<Rightarrow> (s, Inl e)
      | Inr ms \<Rightarrow>
          (s\<lparr>st_db := (st_db s)\<lparr>objects := update_where (\<lambda>r. obj_id r \<in> obj_id ` set rs)
               (\<lambda>r. r\<lparr>obj_last_checked_at := Some now\<rparr>) (objects (st_db s))\<rparr>\<rparr>, Inr (length ms)))"

section \<open>A maintenance pass\<close>

text \<open>At most ten thousand log lines older than ninety days; which ones is up to the database.\<close>

fun drop_first :: "nat \<Rightarrow> ('a \<Rightarrow> bool) \<Rightarrow> 'a list \<Rightarrow> 'a list" where
  "drop_first 0 p rows = rows"
| "drop_first (Suc n) p [] = []"
| "drop_first (Suc n) p (r # rows) = (if p r then drop_first n p rows else r # drop_first (Suc n) p rows)"

definition drop_old_logs :: "instant \<Rightarrow> db \<Rightarrow> db" where
  "drop_old_logs now s =
     s\<lparr>api_logs := drop_first 10000 (\<lambda>l. log_created_at l < now - 90 * one_day) (api_logs s)\<rparr>"

definition run_once :: "uuid_crate \<Rightarrow> maintenance_settings \<Rightarrow> instant \<Rightarrow> store \<Rightarrow> run_summary maintenance_outcome" where
  "run_once c settings now s =
     (case bindE (mstore (vol_mounted (st_vol s))) (\<lambda>_.
           bindE (i64_of (ms_trash_retention_days settings)) (\<lambda>days.
           bindE (i64_of (ms_upload_session_ttl_seconds settings)) (\<lambda>ttl. Inr (days, ttl)))) of
        Inl e \<Rightarrow> (s, Inl e)
      | Inr (days, ttl) \<Rightarrow>
          and_then (clean_expired_uploads now (s\<lparr>st_db := drop_old_logs now (st_db s)\<rparr>)) (\<lambda>(cleaned, f1) s1.
          and_then (purge_expired_trash now days s1) (\<lambda>(roots, n) s2.
          and_then (remove_unreferenced_objects c now ttl s2) (\<lambda>(removed, f2) s3.
          and_then (report_missing_payloads c now s3) (\<lambda>missing s4.
            (s4, Inr \<lparr>expired_uploads_cleaned = cleaned, expired_upload_cleanup_failures = f1,
                      trash_roots_purged = roots, entries_purged = n, storage_objects_removed = removed,
                      storage_object_cleanup_failures = f2, missing_payloads = missing\<rparr>))))))"

section \<open>Permanent deletion on request\<close>

record trash_purge_report =
  tpr_roots :: nat
  tpr_entries :: nat

definition record_purged_root :: "trash_purge_report \<Rightarrow> nat \<Rightarrow> trash_purge_report" where
  "record_purged_root r n = (if n > 0 then r\<lparr>tpr_roots := tpr_roots r + 1, tpr_entries := tpr_entries r + n\<rparr> else r)"

definition trash_roots :: "uuid \<Rightarrow> uuid list option \<Rightarrow> db \<Rightarrow> uuid list" where
  "trash_roots owner ids s =
     map ent_id (take 100 (oldest_first (filter (\<lambda>e. ent_owner e = owner \<and> trash_root s e
        \<and> (case ids of None \<Rightarrow> True | Some is \<Rightarrow> ent_id e \<in> set is)) (entries s))))"

text \<open>The objects of the purged versions are collected before the rows go.\<close>

definition purge_one_trash_root :: "uuid_crate \<Rightarrow> uuid \<Rightarrow> uuid \<Rightarrow> uuid \<Rightarrow> store \<Rightarrow> nat maintenance_outcome" where
  "purge_one_trash_root c owner actor i s =
     (let db = st_db s; es = purge_order owner i db;
          ids = remdups (map ver_object (filter (\<lambda>v. ver_file v \<in> ent_id ` set es) (versions db)))
      in
      if \<not> (\<exists>e \<in> set (entries db). ent_id e = i \<and> ent_owner e = owner \<and> ent_deleted_at e \<noteq> None) \<or> es = []
      then (s, Inr 0)
      else (case mdb (purge_entries es db) of
              Inl e \<Rightarrow> (s, Inl e)
            | Inr d \<Rightarrow>
                (fst (delete_unreferenced_objects c ids
                        (s\<lparr>st_db := add_audit ''entry_purged'' (Some actor) (Some i) d\<rparr>)), Inr (length es))))"

fun purge_batch :: "uuid_crate \<Rightarrow> uuid \<Rightarrow> uuid \<Rightarrow> uuid list \<Rightarrow> trash_purge_report \<Rightarrow> store
    \<Rightarrow> trash_purge_report maintenance_outcome" where
  "purge_batch c owner actor [] r s = (s, Inr r)"
| "purge_batch c owner actor (i # is) r s =
     and_then (purge_one_trash_root c owner actor i s) (\<lambda>n s1.
       purge_batch c owner actor is (record_purged_root r n) s1)"

text \<open>The loop over batches of roots: it goes on only when a batch has purged a root, and stops at five thousand.\<close>

function purge_all :: "uuid_crate \<Rightarrow> uuid \<Rightarrow> uuid \<Rightarrow> trash_purge_report \<Rightarrow> store \<Rightarrow> trash_purge_report maintenance_outcome" where
  "purge_all c owner actor r s =
     (if 5000 \<le> tpr_roots r then (s, Inr r)
      else
        let batch = trash_roots owner None (st_db s) in
        if batch = [] then (s, Inr r)
        else (case purge_batch c owner actor batch r s of
                (s1, Inl e) \<Rightarrow> (s1, Inl e)
              | (s1, Inr r1) \<Rightarrow>
                  if tpr_roots r < tpr_roots r1 then purge_all c owner actor r1 s1 else (s1, Inr r1)))"
  by auto
termination
  by (relation "measure (\<lambda>(c, owner, actor, r, s). 5000 - tpr_roots r)") auto

declare purge_all.simps [simp del]

definition purge_trash_roots :: "uuid_crate \<Rightarrow> uuid \<Rightarrow> uuid \<Rightarrow> uuid list option \<Rightarrow> store \<Rightarrow> trash_purge_report maintenance_outcome" where
  "purge_trash_roots c owner actor only_ids s =
     (let report = \<lparr>tpr_roots = 0, tpr_entries = 0\<rparr> in
      case only_ids of
        Some ids \<Rightarrow>
          (let unique = remdups (sort ids); found = trash_roots owner (Some unique) (st_db s) in
           if unique = [] \<or> length unique > 100 \<or> length found \<noteq> length unique then (s, Inl MNotFound)
           else purge_batch c owner actor found report s)
      | None \<Rightarrow> purge_all c owner actor report s)"

definition purge_error :: "maintenance_error \<Rightarrow> drive_error" where
  "purge_error e = (case e of MNotFound \<Rightarrow> NotFound | MDatabase d \<Rightarrow> map_database_error d | _ \<Rightarrow> DatabaseError)"

definition purge_trash :: "externals \<Rightarrow> auth_settings \<Rightarrow> uuid_crate \<Rightarrow> auth_user \<Rightarrow> headers \<Rightarrow> uuid list option \<Rightarrow> bool option
    \<Rightarrow> store \<Rightarrow> store \<times> (drive_error + nat \<times> nat)" where
  "purge_trash x settings c user hs ids all s =
     (case require_request_csrf x hs user settings of
        Inl e \<Rightarrow> (s, Inl e)
      | Inr _ \<Rightarrow>
          if all = Some True \<or> ids \<noteq> None
          then (case purge_trash_roots c (au_id user) (au_id user) (if all = Some True then None else ids) s of
                  (s1, r) \<Rightarrow> (s1, bindE (mapErr purge_error r) (\<lambda>t. Inr (tpr_roots t, tpr_entries t))))
          else (s, Inl BadRequest))"

end
