(* ===== verification/Maintenance_Correct.thy ===== *)
theory Maintenance_Correct
  imports Maintenance Uploads_Invariant
begin

text \<open>
  Correctness of maintenance. Purging deletes the rows of a subtree deepest first, so that no
  foreign key stops it; what remains satisfies the store invariant, and so does every step of
  a maintenance pass and of a permanent deletion.
\<close>

section \<open>The order of deletion\<close>

lemma height_parent:
  assumes f: "forest es" and p: "(x, y) \<in> parent_rel es"
  shows "height es x = Suc (height es y)"
proof -
  from p obtain a where a: "a \<in> set es" "ent_id a = x" "ent_parent a = Some y" by (auto simp: par_def)
  have one: "z = y" if "(x, z) \<in> parent_rel es" for z
  proof -
    from that obtain b where b: "b \<in> set es" "ent_id b = x" "ent_parent b = Some z" by (auto simp: par_def)
    have "b = a" by (rule distinct_key_unique [OF forestD(1) [OF f] b(1) a(1)]) (simp add: a(2) b(2))
    then show ?thesis using a(3) b(3) by simp
  qed
  have "(x, z) \<in> (parent_rel es)\<^sup>+ \<longleftrightarrow> z = y \<or> (y, z) \<in> (parent_rel es)\<^sup>+" for z
  proof
    assume "(x, z) \<in> (parent_rel es)\<^sup>+"
    then show "z = y \<or> (y, z) \<in> (parent_rel es)\<^sup>+" by (rule converse_tranclE) (auto dest: one)
  qed (use p in \<open>auto intro: trancl_into_trancl2\<close>)
  then have "ancestors es x = insert y (ancestors es y)" unfolding ancestors_def by blast
  moreover have "y \<notin> ancestors es y"
    using forestD(3) [OF f] by (simp add: ancestors_def acyclic_def)
  moreover have "finite (ancestors es y)"
    using ancestors_subset [OF forestD(2) [OF f]] by (rule finite_subset) simp
  ultimately show ?thesis by (simp add: height_def)
qed

lemma descend_depth:
  assumes f: "forest es" and "set fr \<subseteq> set es" and "\<And>r. r \<in> set fr \<Longrightarrow> height es (ent_id r) = h + k"
    and "(e, d) \<in> set (descend p n es fr k)"
  shows "height es (ent_id e) = h + d"
  using assms(2-)
proof (induction n arbitrary: fr k)
  case (Suc n)
  let ?next = "concat (map (children_of p es) fr)"
  have "height es (ent_id c) = h + Suc k" if c: "c \<in> set ?next" for c
  proof -
    from c obtain r where r: "r \<in> set fr" "c \<in> set es" "ent_parent c = Some (ent_id r)" unfolding set_children_of by blast
    then have "(ent_id c, ent_id r) \<in> parent_rel es" by (auto intro: parI)
    from height_parent [OF f this] show ?thesis using Suc.prems(2) [OF r(1)] by simp
  qed
  moreover have "set ?next \<subseteq> set es" by (auto simp: children_of_def)
  ultimately show ?case using Suc.IH [of ?next "Suc k"] Suc.prems by (auto split: if_splits)
qed simp

lemma distinct_children:
  assumes "distinct (map ent_id es)" and "distinct (map ent_id fr)"
  shows "distinct (map ent_id (concat (map (children_of p es) fr)))"
  using assms(2)
proof (induction fr)
  case (Cons r fr)
  have "distinct (map ent_id (children_of p es r))"
    unfolding children_of_def by (rule distinct_map_filter_key [OF assms(1)])
  moreover have "ent_id ` set (children_of p es r) \<inter> ent_id ` set (concat (map (children_of p es) fr)) = {}"
  proof (rule ccontr)
    assume "\<not> ?thesis"
    then obtain a b where "a \<in> set (children_of p es r)" "b \<in> set (concat (map (children_of p es) fr))" "ent_id a = ent_id b"
      by blast
    then have a: "a \<in> set es" "ent_parent a = Some (ent_id r)" "b \<in> set es" "\<exists>q \<in> set fr. ent_parent b = Some (ent_id q)" "ent_id a = ent_id b"
      by (auto simp: children_of_def)
    have "a = b" by (rule distinct_key_unique [OF assms(1) a(1,3,5)])
    with a(2,4) Cons.prems show False by auto
  qed
  ultimately show ?case using Cons by simp
qed simp

lemma distinct_descend:
  assumes f: "forest es" and "set fr \<subseteq> set es" and "\<And>r. r \<in> set fr \<Longrightarrow> height es (ent_id r) = h + k"
    and "distinct (map ent_id fr)"
  shows "distinct (map (ent_id \<circ> fst) (descend p n es fr k))"
  using assms(2-)
proof (induction n arbitrary: fr k)
  case (Suc n)
  let ?next = "concat (map (children_of p es) fr)"
  have sub: "set ?next \<subseteq> set es" by (auto simp: children_of_def)
  have high: "height es (ent_id c) = h + Suc k" if c: "c \<in> set ?next" for c
  proof -
    from c obtain r where r: "r \<in> set fr" "c \<in> set es" "ent_parent c = Some (ent_id r)" unfolding set_children_of by blast
    then have "(ent_id c, ent_id r) \<in> parent_rel es" by (auto intro: parI)
    from height_parent [OF f this] show ?thesis using Suc.prems(2) [OF r(1)] by simp
  qed
  have IH: "distinct (map (ent_id \<circ> fst) (descend p n es ?next (Suc k)))"
    by (rule Suc.IH [OF sub high distinct_children [OF forestD(1) [OF f] Suc.prems(3)]])
  have later: "k < d" if "(e, d) \<in> set (descend p n es fr' (Suc k))" for e d fr'
  proof -
    have "(e, d) \<in> set (descend p n es fr j) \<Longrightarrow> j \<le> d" for n fr j
      by (induction n arbitrary: fr j) (auto split: if_splits dest: Suc_leD)
    from this [OF that] show ?thesis by simp
  qed
  have "ent_id a \<noteq> ent_id b" if a: "a \<in> set fr" and b: "(b, d) \<in> set (descend p n es ?next (Suc k))" for a b d
    using descend_depth [OF f sub high b] Suc.prems(2) [OF a] later [OF b] by auto
  then show ?case using IH Suc.prems(3) by (auto simp: comp_def)
qed simp

text \<open>A list of rows in which every row comes after the rows below it, of a table.\<close>

fun leaf_first :: "entry list \<Rightarrow> entry list \<Rightarrow> bool" where
  "leaf_first [] tbl = True"
| "leaf_first (e # es) tbl \<longleftrightarrow> e \<in> set tbl \<and> (\<forall>c \<in> set tbl. ent_parent c \<noteq> Some (ent_id e))
     \<and> leaf_first es (filter (\<lambda>c. ent_id c \<noteq> ent_id e) tbl)"

lemma leaf_first_sorted:
  assumes "sorted (map (\<lambda>e. - int (h e)) es)" and "distinct (map ent_id es)" and "set es \<subseteq> set tbl"
    and "\<And>c e. c \<in> set tbl \<Longrightarrow> e \<in> set es \<Longrightarrow> ent_parent c = Some (ent_id e) \<Longrightarrow> c \<in> set es \<and> h e < h c"
  shows "leaf_first es tbl"
  using assms
proof (induction es arbitrary: tbl)
  case (Cons e es)
  have "ent_parent c \<noteq> Some (ent_id e)" if c: "c \<in> set tbl" for c
  proof
    assume "ent_parent c = Some (ent_id e)"
    from Cons.prems(4) [OF c _ this] have "c \<in> set (e # es)" "h e < h c" by simp_all
    then show False using Cons.prems(1) by auto
  qed
  moreover have "leaf_first es (filter (\<lambda>c. ent_id c \<noteq> ent_id e) tbl)"
  proof (rule Cons.IH)
    show "set es \<subseteq> set (filter (\<lambda>c. ent_id c \<noteq> ent_id e) tbl)" using Cons.prems(2,3) by (auto simp: image_iff)
    show "c \<in> set es \<and> h a < h c"
      if "c \<in> set (filter (\<lambda>c. ent_id c \<noteq> ent_id e) tbl)" "a \<in> set es" "ent_parent c = Some (ent_id a)" for c a
      using that Cons.prems(4) [of c a] by auto
  qed (use Cons.prems(1,2) in simp_all)
  ultimately show ?case using Cons.prems(3) by simp
qed simp

lemma owned_root:
  assumes "distinct (map ent_id es)" and "e \<in> set es" and "ent_id e = i" and "ent_owner e = owner"
  shows "filter (\<lambda>r. ent_id r = i \<and> ent_owner r = owner) es = [e]"
proof -
  have "filter (\<lambda>r. ent_id r = i) es = [e]"
    using assms(1-3)
  proof (induction es)
    case (Cons a es)
    then show ?case by (auto simp: filter_empty_conv image_iff)
  qed simp
  moreover have "filter (\<lambda>r. ent_id r = i \<and> ent_owner r = owner) es = filter (\<lambda>r. ent_owner r = owner) (filter (\<lambda>r. ent_id r = i) es)"
    by (simp add: conj_commute)
  ultimately show ?thesis using assms(4) by simp
qed

lemma purge_order_rows:
  assumes ok: "drive_ok lower s" and e: "e \<in> set (entries s)" "ent_id e = i" "ent_owner e = owner"
  shows "set (purge_order owner i s) = subtree_of (owned owner) (entries s) i"
    and "distinct (map ent_id (purge_order owner i s))"
    and "leaf_first (purge_order owner i s) (entries s)"
proof -
  let ?es = "entries s"
  note f = drive_okD(1) [OF ok]
  let ?D = "descend (owned owner) (length ?es) ?es [e] 0"
  let ?L = "sort_key (\<lambda>(e, d). - int d) (sort_key (\<lambda>(e, d). ent_id e) ?D)"
  have po: "purge_order owner i s = map fst ?L"
    using owned_root [OF forestD(1) [OF f] e] by (simp add: purge_order_def)
  show set: "set (purge_order owner i s) = subtree_of (owned owner) ?es i"
    using descend_subtree [OF f e(1) order_refl, of "owned owner" 0] by (simp add: po e(2))
  have depth: "height ?es (ent_id a) = height ?es i + d" if "(a, d) \<in> set ?D" for a d
    by (rule descend_depth [OF f _ _ that]) (use e in auto)
  have dd: "distinct (map (ent_id \<circ> fst) ?D)"
    by (rule distinct_descend [OF f, where h = "height ?es i"]) (use e in auto)
  then have "distinct ?D" "inj_on (ent_id \<circ> fst) (set ?D)" by (simp_all add: distinct_map)
  then show dist: "distinct (map ent_id (purge_order owner i s))"
    by (simp add: po distinct_map)
  have "map (\<lambda>a. - int (height ?es (ent_id a))) (purge_order owner i s) = map (\<lambda>(a, d). - int (height ?es i) + - int d) ?L"
    using depth by (auto simp: po)
  moreover have "sorted (map (\<lambda>(a, d). - int (height ?es i) + - int d) ?L)"
    using sorted_sort_key [of "\<lambda>(e, d). - int d" "sort_key (\<lambda>(e, d). ent_id e) ?D"]
    by (simp add: sorted_wrt_map case_prod_beta)
  ultimately have srt: "sorted (map (\<lambda>a. - int (height ?es (ent_id a))) (purge_order owner i s))" by simp
  show "leaf_first (purge_order owner i s) ?es"
  proof (rule leaf_first_sorted [OF srt dist])
    show "set (purge_order owner i s) \<subseteq> set ?es" by (auto simp: set subtree_of_def)
  next
    fix c a
    assume c: "c \<in> set ?es" and a: "a \<in> set (purge_order owner i s)" and p: "ent_parent c = Some (ent_id a)"
    from a have a': "a \<in> set ?es" "(ent_id a, i) \<in> (par (owned owner) ?es)\<^sup>*" by (simp_all add: set subtree_of_def)
    have edge: "(ent_id c, ent_id a) \<in> parent_rel ?es" using c p by (simp add: parI)
    have "ent_owner a = owner"
    proof (cases "ent_id a = i")
      case True
      then have "a = e" using a'(1) e distinct_key_unique [OF forestD(1) [OF f]] by metis
      then show ?thesis using e by simp
    next
      case False
      with a'(2) obtain y where "(ent_id a, y) \<in> par (owned owner) ?es" by (metis converse_rtranclE)
      then obtain b where "b \<in> set ?es" "ent_id b = ent_id a" "owned owner b" by (auto simp: par_def)
      moreover then have "b = a" using a'(1) distinct_key_unique [OF forestD(1) [OF f]] by metis
      ultimately show ?thesis by (simp add: owned_def)
    qed
    moreover obtain b where "b \<in> set ?es" "ent_id b = ent_id a" "ent_owner b = ent_owner c"
      using forestD(2) [OF f] c p unfolding parents_ok_def by blast
    moreover then have "b = a" using a'(1) distinct_key_unique [OF forestD(1) [OF f]] by metis
    ultimately have "owned owner c" by (simp add: owned_def)
    then have "(ent_id c, ent_id a) \<in> par (owned owner) ?es" using c p by (auto intro: parI)
    then have "(ent_id c, i) \<in> (par (owned owner) ?es)\<^sup>*" using a'(2) by (rule converse_rtrancl_into_rtrancl)
    then show "c \<in> set (purge_order owner i s) \<and> height ?es (ent_id a) < height ?es (ent_id c)"
      using c height_parent [OF f edge] by (simp add: set subtree_of_def)
  qed
qed

section \<open>Deleting the rows\<close>

lemma folder_idents:
  assumes ok: "drive_ok lower s" and e: "e \<in> set (entries s)" and "ent_kind e = Folder"
  shows "(ent_id e, w, File) \<notin> idents s"
proof
  assume "(ent_id e, w, File) \<in> idents s"
  then obtain a where a: "a \<in> set (entries s)" "ent_id a = ent_id e" "ent_kind a = File" by (auto simp: idents_def)
  have "a = e" by (rule distinct_key_unique [OF drive_okD(2) [OF ok] a(1) e a(2)])
  with a(3) assms(3) show False by simp
qed

lemma uploads_kept_remove:
  assumes "entries s' = filter (\<lambda>a. ent_id a \<noteq> i) (entries s)" and "uploads s' = uploads s"
    and "\<And>w. (i, w, File) \<notin> idents s"
  shows "uploads_kept s s'"
proof -
  have "upload_kept (idents s) (idents s') u u" if "u \<in> set (uploads s)" for u
    using assms(3) by (auto simp: upload_kept_def idents_def assms(1))
  then show ?thesis by (auto simp: uploads_kept_def assms(2))
qed

lemma delete_entry_succeeds:
  assumes "\<And>c. c \<in> set (entries s) \<Longrightarrow> ent_parent c \<noteq> Some i" and "i \<notin> set (folders s)" and "i \<notin> fil_id ` set (files s)"
  shows "\<exists>s'. delete_entry i owner s = Inr s'"
proof -
  have "\<not> (\<exists>c \<in> set (entries s). ent_parent c = Some i \<and> ent_id c \<noteq> i)" using assms(1) by blast
  then show ?thesis using assms(2,3) by (simp add: delete_entry_def Let_def)
qed

lemma purge_entry_succeeds:
  assumes ok: "drive_ok lower s" and e: "e \<in> set (entries s)" and leaf: "\<And>c. c \<in> set (entries s) \<Longrightarrow> ent_parent c \<noteq> Some (ent_id e)"
  obtains s' where "purge_entry e s = Inr s'" and "drive_ok lower s'" and "uploads_kept s s'"
    and "entries s' = filter (\<lambda>c. ent_id c \<noteq> ent_id e) (entries s)"
    and "versions s' = filter (\<lambda>v. ver_file v \<noteq> ent_id e) (versions s)"
    and "objects s' = objects s"
proof (cases "ent_kind e")
  case File
  let ?d = "delete_versions (\<lambda>v. ver_file v = ent_id e) s"
  let ?i = "ent_id e"
  have okd: "drive_ok lower ?d" by (rule delete_versions_ok [OF ok])
  have "?i \<notin> ver_file ` set (versions ?d)" by auto
  then obtain s1 where s1: "delete_file ?i ?d = Inr s1" by (simp add: delete_file_def)
  note f = delete_file_Inr [OF s1]
  have "?i \<notin> set (folders s)"
  proof
    assume "?i \<in> set (folders s)"
    then obtain a where "a \<in> set (entries s)" "ent_id a = ?i" "ent_kind a = Folder"
      using ok by (auto simp: drive_ok_def rows_ok_def ids_of_def)
    moreover then have "a = e" using distinct_key_unique [OF drive_okD(2) [OF ok]] e by metis
    ultimately show False using File by simp
  qed
  moreover have "?i \<notin> fil_id ` set (files s1)" by (auto simp: f(1))
  ultimately have "\<exists>s2. delete_entry ?i (ent_owner e) s1 = Inr s2"
    using leaf by (intro delete_entry_succeeds) (simp_all add: f(1))
  then obtain s2 where s2: "delete_entry ?i (ent_owner e) s1 = Inr s2" by blast
  have m: "\<exists>a \<in> set (entries s1). ent_id a = ?i \<and> ent_owner a = ent_owner e" using e by (auto simp: f(1))
  note d = delete_entry_Inr [OF s2 m]
  have "uploads_kept s ?d" by (rule uploads_kept_refl) (simp_all add: idents_def)
  moreover have "uploads_kept ?d s1" by (rule delete_file_kept [OF s1])
  moreover have "uploads_kept s1 s2" by (rule delete_entry_kept [OF s2]) (auto simp: f(1) set_update_where)
  ultimately have "uploads_kept s s2" using uploads_kept_trans by blast
  moreover have "drive_ok lower s2" by (rule delete_file_entry_ok [OF s1 s2 _ okd]) (use e in auto)
  moreover have "purge_entry e s = Inr s2" using File s1 s2 by (simp add: purge_entry_def)
  ultimately show thesis using d by (intro that [of s2]) (simp_all add: f(1))
next
  case Folder
  let ?i = "ent_id e"
  have nf: "?i \<notin> fil_id ` set (files s)"
  proof
    assume "?i \<in> fil_id ` set (files s)"
    then obtain a where "a \<in> set (entries s)" "ent_id a = ?i" "ent_kind a = File"
      using ok by (auto simp: drive_ok_def rows_ok_def ids_of_def)
    moreover then have "a = e" using distinct_key_unique [OF drive_okD(2) [OF ok]] e by metis
    ultimately show False using Folder by simp
  qed
  then obtain s2 where s2: "delete_entry ?i (ent_owner e) (delete_folder ?i s) = Inr s2"
    using leaf delete_entry_succeeds [of "delete_folder ?i s" ?i "ent_owner e"] by (auto simp: delete_folder_def)
  have m: "\<exists>a \<in> set (entries (delete_folder ?i s)). ent_id a = ?i \<and> ent_owner a = ent_owner e" using e by (auto simp: delete_folder_def)
  note d = delete_entry_Inr [OF s2 m]
  have nv: "ver_file v \<noteq> ?i" if "v \<in> set (versions s)" for v
  proof
    assume "ver_file v = ?i"
    moreover have "rows_ok s" using ok by (simp add: drive_ok_def)
    moreover from this have "fil_id ` set (files s) = ids_of File (entries s)" by (simp add: rows_ok_def)
    ultimately show False using nf version_rows(1) [OF _ that] by metis
  qed
  have "uploads_kept s (delete_folder ?i s)"
    by (intro uploads_kept_update [where q = "\<lambda>u. upl_target_parent u = Some ?i" and g = "\<lambda>u. u\<lparr>upl_target_parent := None\<rparr>"
          and p = "\<lambda>_. True"]) (simp_all add: delete_folder_def upload_kept_def idents_def)
  moreover have "uploads_kept (delete_folder ?i s) s2"
    using folder_idents [OF ok e Folder] by (intro uploads_kept_remove [OF d(1,7)]) (simp_all add: delete_folder_def idents_def)
  ultimately have "uploads_kept s s2" using uploads_kept_trans by blast
  moreover have "drive_ok lower s2" by (rule delete_folder_entry_ok [OF s2 _ ok]) (use e in auto)
  moreover have "filter (\<lambda>v. ver_file v \<noteq> ?i) (versions s) = versions s" using nv by (simp add: filter_id_conv)
  moreover have "purge_entry e s = Inr s2" using Folder s2 by (simp add: purge_entry_def)
  ultimately show thesis using d by (intro that [of s2]) (simp_all add: delete_folder_def)
qed

lemma purge_entries_succeeds:
  assumes "drive_ok lower s" and "leaf_first es (entries s)"
  obtains s' where "purge_entries es s = Inr s'" and "drive_ok lower s'" and "uploads_kept s s'"
    and "entries s' = filter (\<lambda>c. ent_id c \<notin> ent_id ` set es) (entries s)"
    and "versions s' = filter (\<lambda>v. ver_file v \<notin> ent_id ` set es) (versions s)"
    and "objects s' = objects s"
  using assms
proof (induction es arbitrary: s thesis)
  case Nil
  then show ?case by (simp add: uploads_kept_refl)
next
  case (Cons e es)
  from Cons.prems(3) have e: "e \<in> set (entries s)" "\<And>c. c \<in> set (entries s) \<Longrightarrow> ent_parent c \<noteq> Some (ent_id e)" by auto
  obtain s1 where s1: "purge_entry e s = Inr s1" "drive_ok lower s1" "uploads_kept s s1"
    "entries s1 = filter (\<lambda>c. ent_id c \<noteq> ent_id e) (entries s)"
    "versions s1 = filter (\<lambda>v. ver_file v \<noteq> ent_id e) (versions s)" "objects s1 = objects s"
    by (rule purge_entry_succeeds [OF Cons.prems(2) e])
  from Cons.prems(3) s1(4) have "leaf_first es (entries s1)" by simp
  from Cons.IH [OF _ s1(2) this] obtain s2 where s2: "purge_entries es s1 = Inr s2" "drive_ok lower s2" "uploads_kept s1 s2"
    "entries s2 = filter (\<lambda>c. ent_id c \<notin> ent_id ` set es) (entries s1)"
    "versions s2 = filter (\<lambda>v. ver_file v \<notin> ent_id ` set es) (versions s1)" "objects s2 = objects s1"
    by blast
  have "purge_entries (e # es) s = Inr s2" using s1(1) s2(1) by simp
  moreover have "uploads_kept s s2" using s1(3) s2(3) by (rule uploads_kept_trans)
  ultimately show ?case
    by (rule Cons.prems(1) [OF _ s2(2)]) (simp_all add: s2(4-6) s1(4-6) conj_commute)
qed

section \<open>What maintenance must keep\<close>

text \<open>
  The payload of an object as a download would find it, and the objects that a version or a
  finalizing upload refers to. \<open>tidies\<close> is the contract of all operations here: entries
  disappear only at or below the roots that \<open>Q\<close> admits, versions only with their file, and
  whatever is still referred to has its payload.
\<close>

definition object_content :: "uuid_crate \<Rightarrow> store \<Rightarrow> uuid \<Rightarrow> bytes option" where
  "object_content c s b =
     (case find_row obj_id b (objects (st_db s)) of
        None \<Rightarrow> None | Some r \<Rightarrow> object_at c (obj_storage_key r) (st_vol s))"

definition referenced :: "uuid \<Rightarrow> db \<Rightarrow> bool" where
  "referenced b s \<longleftrightarrow> in_versions b s \<or> finalizing_object b s"

definition tidies :: "uuid_crate \<Rightarrow> (entry \<Rightarrow> bool) \<Rightarrow> store \<Rightarrow> store \<Rightarrow> bool" where
  "tidies c Q s s' \<longleftrightarrow>
     set (entries (st_db s')) \<subseteq> set (entries (st_db s)) \<and> set (versions (st_db s')) \<subseteq> set (versions (st_db s))
     \<and> (\<forall>e \<in> set (entries (st_db s)). e \<in> set (entries (st_db s'))
          \<or> (\<exists>root \<in> set (entries (st_db s)). Q root \<and> (ent_id e, ent_id root) \<in> (parent_rel (entries (st_db s)))\<^sup>*))
     \<and> (\<forall>v \<in> set (versions (st_db s)). ver_file v \<in> ent_id ` set (entries (st_db s')) \<longrightarrow> v \<in> set (versions (st_db s')))
     \<and> (\<forall>b. referenced b (st_db s') \<longrightarrow> referenced b (st_db s) \<and> object_content c s' b = object_content c s b)"

definition objects_ok :: "store \<Rightarrow> bool" where
  "objects_ok s \<longleftrightarrow> distinct (map obj_id (objects (st_db s))) \<and> distinct (map obj_storage_key (objects (st_db s)))"

definition sound_step :: "(ustr \<Rightarrow> ustr) \<Rightarrow> uuid_crate \<Rightarrow> (entry \<Rightarrow> bool) \<Rightarrow> store \<Rightarrow> store \<Rightarrow> bool" where
  "sound_step lower c Q s s' \<longleftrightarrow>
     (store_ok lower s \<longrightarrow> objects_ok s \<longrightarrow> store_ok lower s' \<and> objects_ok s' \<and> tidies c Q s s')"

lemma tidies_refl: "tidies c Q s s"
  by (simp add: tidies_def)

lemma tidiesD:
  assumes "tidies c Q s s'"
  shows "set (entries (st_db s')) \<subseteq> set (entries (st_db s))" and "set (versions (st_db s')) \<subseteq> set (versions (st_db s))"
    and "e \<in> set (entries (st_db s)) \<Longrightarrow> e \<in> set (entries (st_db s'))
          \<or> (\<exists>root \<in> set (entries (st_db s)). Q root \<and> (ent_id e, ent_id root) \<in> (parent_rel (entries (st_db s)))\<^sup>*)"
    and "v \<in> set (versions (st_db s)) \<Longrightarrow> ver_file v \<in> ent_id ` set (entries (st_db s')) \<Longrightarrow> v \<in> set (versions (st_db s'))"
    and "referenced b (st_db s') \<Longrightarrow> referenced b (st_db s) \<and> object_content c s' b = object_content c s b"
  using assms unfolding tidies_def by blast+

lemma tidies_trans:
  assumes a: "tidies c Q s t" and b: "tidies c Q t u"
  shows "tidies c Q s u"
proof -
  let ?E = "\<lambda>s. set (entries (st_db s))"
  have sub: "parent_rel (entries (st_db t)) \<subseteq> parent_rel (entries (st_db s))"
    using tidiesD(1) [OF a] unfolding par_def by blast
  have "e \<in> ?E u \<or> (\<exists>root \<in> ?E s. Q root \<and> (ent_id e, ent_id root) \<in> (parent_rel (entries (st_db s)))\<^sup>*)" if e: "e \<in> ?E s" for e
  proof (cases "e \<in> ?E t")
    case True
    from tidiesD(3) [OF b this] tidiesD(1) [OF a] rtrancl_mono [OF sub] show ?thesis by blast
  next
    case False
    then show ?thesis using tidiesD(3) [OF a e] by blast
  qed
  moreover have "v \<in> set (versions (st_db u))" if "v \<in> set (versions (st_db s))" "ver_file v \<in> ent_id ` ?E u" for v
    using that(2) tidiesD(1) [OF b] by (intro tidiesD(4) [OF b] tidiesD(4) [OF a that(1)]) blast+
  moreover have "referenced k (st_db s) \<and> object_content c u k = object_content c s k" if "referenced k (st_db u)" for k
    using tidiesD(5) [OF b that] tidiesD(5) [OF a, of k] by simp
  ultimately show ?thesis
    unfolding tidies_def using tidiesD(1,2) [OF a] tidiesD(1,2) [OF b] by blast
qed

lemma sound_step_refl [simp]: "sound_step lower c Q s s"
  by (simp add: sound_step_def tidies_refl)

lemma sound_step_trans: "sound_step lower c Q s t \<Longrightarrow> sound_step lower c Q t u \<Longrightarrow> sound_step lower c Q s u"
  unfolding sound_step_def by (blast intro: tidies_trans)

text \<open>Steps that leave entries, versions and the rows and payloads of referenced objects alone.\<close>

lemma sound_step_quiet:
  assumes ok: "store_ok lower s \<Longrightarrow> objects_ok s \<Longrightarrow> store_ok lower s' \<and> objects_ok s'"
    and "entries (st_db s') = entries (st_db s)" and "versions (st_db s') = versions (st_db s)"
    and "\<And>b. store_ok lower s \<Longrightarrow> objects_ok s \<Longrightarrow> referenced b (st_db s') \<Longrightarrow>
       referenced b (st_db s) \<and> object_content c s' b = object_content c s b"
  shows "sound_step lower c Q s s'"
  using assms by (auto simp: sound_step_def tidies_def)

lemma object_content_cong:
  assumes "objects (st_db s') = objects (st_db s)" and "vol_objects (st_vol s') = vol_objects (st_vol s)"
  shows "object_content c s' b = object_content c s b"
  by (simp add: object_content_def assms(1) object_at_cong [OF assms(2)] cong: option.case_cong)

lemma sound_step_silent:
  assumes "store_ok lower s \<Longrightarrow> objects_ok s \<Longrightarrow> store_ok lower s' \<and> objects_ok s'"
    and "entries (st_db s') = entries (st_db s)" and "versions (st_db s') = versions (st_db s)"
    and "objects (st_db s') = objects (st_db s)" and "vol_objects (st_vol s') = vol_objects (st_vol s)"
    and "\<And>b. referenced b (st_db s') \<Longrightarrow> referenced b (st_db s)"
  shows "sound_step lower c Q s s'"
  using assms(6) object_content_cong [OF assms(4,5)] by (intro sound_step_quiet [OF assms(1-3)]) simp_all

lemma store_swap: "s\<lparr>st_vol := v, st_db := d\<rparr> = s\<lparr>st_db := d, st_vol := v\<rparr>"
  by simp

lemma uploads_kept_finalizing:
  assumes "uploads_kept s s'" and "finalizing_object b s'"
  shows "finalizing_object b s"
proof -
  from assms(2) obtain u' where u': "u' \<in> set (uploads s')" "upl_object u' = Some b" "upl_state u' = Finalizing"
    unfolding finalizing_object_def by blast
  with assms(1) obtain u where "u \<in> set (uploads s)" "upload_kept (idents s) (idents s') u u'" unfolding uploads_kept_def by blast
  then show ?thesis using u' unfolding finalizing_object_def upload_kept_def by auto
qed

section \<open>Uploads\<close>

lemma store_ok_uploads:
  assumes ok: "store_ok lower s" and u: "uploads d = update_where q g (uploads (st_db s))"
    and same: "entries d = entries (st_db s)" "users d = users (st_db s)" "folders d = folders (st_db s)"
      "files d = files (st_db s)" "versions d = versions (st_db s)" "objects d = objects (st_db s)"
    and g: "\<And>r. upl_id (g r) = upl_id r \<and> upl_staging_key (g r) = upl_staging_key r"
    and new: "\<And>r ids st. upload_ok ids st r \<Longrightarrow> q r \<Longrightarrow> upload_ok ids st (g r)"
  shows "store_ok lower (s\<lparr>st_db := d\<rparr>)"
proof -
  have "drive_ok lower d" using store_okD(1) [OF ok] same by (subst drive_ok_frame [of _ "st_db s"]) simp_all
  moreover have "idents d = idents (st_db s)" by (simp add: idents_def same)
  moreover have "keys_ok (s\<lparr>st_db := d\<rparr>)" using store_okD(2) [OF ok] g by (simp add: keys_ok_def u map_key_update_where)
  moreover have "upload_ok (idents (st_db s)) (vol_staging (st_vol s)) r" if "r \<in> set (uploads d)" for r
    using that new store_okD(4) [OF ok] by (auto simp: u set_update_where)
  ultimately show ?thesis using store_okD(3) [OF ok] by (simp add: store_ok_def)
qed

lemma store_ok_volume:
  assumes "store_ok lower s" and "vol_ok v"
    and "\<And>u. u \<in> set (uploads (st_db s)) \<Longrightarrow> upl_state u = Active \<Longrightarrow> vol_staging v (upl_staging_key u) = vol_staging (st_vol s) (upl_staging_key u)"
  shows "store_ok lower (s\<lparr>st_vol := v\<rparr>)"
  using assms upload_ok_staging by (auto simp: store_ok_def keys_ok_def)

lemma expires_with_ok: "upload_ok ids st u \<Longrightarrow> upload_ok ids st (expires_with now u)"
  by (simp add: expires_with_def upload_ok_def staged_def upload_row_check_def)

lemma expires_with_frame [simp]:
  "upl_id (expires_with now u) = upl_id u" "upl_staging_key (expires_with now u) = upl_staging_key u"
  "upl_object (expires_with now u) = upl_object u" "upl_state (expires_with now u) \<noteq> Active"
  "upl_state (expires_with now u) = Finalizing \<longleftrightarrow> upl_state u = Finalizing"
  by (simp_all add: expires_with_def)

lemma expire_uploads_Inr:
  assumes "expire_uploads now ids s = Inr d"
  shows "d = s\<lparr>uploads := update_where (\<lambda>u. upl_id u \<in> set ids) (expires_with now) (uploads s)\<rparr>"
  using assms by (simp add: expire_uploads_def result_simps)

lemma expire_uploads_succeeds:
  assumes "store_ok lower s"
  shows "\<exists>d. expire_uploads now ids (st_db s) = Inr d"
proof -
  have "upload_row_check (expires_with now u)" if "u \<in> set (uploads (st_db s))" for u
    using expires_with_ok [OF store_okD(4) [OF assms that]] by (simp add: upload_ok_def)
  then show ?thesis by (simp add: expire_uploads_def)
qed

lemma finalizing_update:
  assumes "uploads d = update_where q g (uploads s)"
    and "\<And>u. q u \<Longrightarrow> upl_object (g u) = upl_object u \<and> (upl_state (g u) = Finalizing \<longleftrightarrow> upl_state u = Finalizing)"
  shows "finalizing_object b d \<longleftrightarrow> finalizing_object b s"
proof -
  have "finalizing_object b d \<longleftrightarrow> (\<exists>u \<in> set (uploads s). let w = if q u then g u else u in upl_object w = Some b \<and> upl_state w = Finalizing)"
    by (simp add: finalizing_object_def assms(1) set_update_where Let_def del: if_image_distrib)
  then show ?thesis using assms(2) by (simp add: finalizing_object_def Let_def)
qed

lemma expire_uploads_sound:
  assumes "expire_uploads now ids (st_db s) = Inr d"
  shows "sound_step lower c Q s (s\<lparr>st_db := d\<rparr>)"
proof -
  note d = expire_uploads_Inr [OF assms]
  have "finalizing_object b d \<longleftrightarrow> finalizing_object b (st_db s)" for b
    by (rule finalizing_update [where q = "\<lambda>u. upl_id u \<in> set ids" and g = "expires_with now"]) (simp_all add: d)
  then have ref: "referenced b d \<longleftrightarrow> referenced b (st_db s)" for b by (simp add: referenced_def in_versions_def d)
  show ?thesis
  proof (rule sound_step_silent)
    assume "store_ok lower s" "objects_ok s"
    then show "store_ok lower (s\<lparr>st_db := d\<rparr>) \<and> objects_ok (s\<lparr>st_db := d\<rparr>)"
      by (auto simp: objects_ok_def d intro!: store_ok_uploads [where q = "\<lambda>u. upl_id u \<in> set ids" and g = "expires_with now"]
          expires_with_ok)
  qed (simp_all add: d ref [unfolded d])
qed

lemma mark_cleaned_Inr:
  assumes "mark_cleaned now i s = Inr d"
  shows "d = s\<lparr>uploads := update_where (\<lambda>u. upl_id u = i \<and> upl_staging_cleaned_at u = None \<and> (upl_state u = Expired \<or> upl_state u = UpFailed))
       (\<lambda>u. u\<lparr>upl_staging_cleaned_at := Some now\<rparr>) (uploads s)\<rparr>"
  using assms by (simp add: mark_cleaned_def update_upload_def result_simps)

lemma mark_cleaned_succeeds:
  assumes "store_ok lower s"
  shows "\<exists>d. mark_cleaned now i (st_db s) = Inr d"
proof -
  have "upload_row_check (u\<lparr>upl_staging_cleaned_at := Some now\<rparr>)" if "u \<in> set (uploads (st_db s))" for u
    using store_okD(4) [OF assms that] by (simp add: upload_ok_def upload_row_check_def cong: upload_state.case_cong)
  then show ?thesis by (simp add: mark_cleaned_def update_upload_def)
qed

text \<open>Removing the staging file of an upload that is not active any more, and the mark in its row.\<close>

definition idle_key :: "uuid \<Rightarrow> store \<Rightarrow> bool" where
  "idle_key k s \<longleftrightarrow> (\<forall>u \<in> set (uploads (st_db s)). upl_staging_key u = k \<longrightarrow> upl_state u \<noteq> Active)"

lemma remove_staging_Inr: "remove_staging_file k v = Inr v' \<Longrightarrow> v' = v\<lparr>vol_staging := (vol_staging v)(k := None)\<rparr>"
  by (auto simp: remove_staging_file_def result_simps)

lemma remove_staging_sound:
  assumes r: "remove_staging_file k (st_vol s) = Inr v" and k: "idle_key k s"
  shows "sound_step lower c Q s (s\<lparr>st_vol := v\<rparr>)"
proof -
  note v = remove_staging_Inr [OF r]
  show ?thesis
  proof (rule sound_step_silent)
    assume "store_ok lower s" "objects_ok s"
    then show "store_ok lower (s\<lparr>st_vol := v\<rparr>) \<and> objects_ok (s\<lparr>st_vol := v\<rparr>)"
      using k by (auto simp: objects_ok_def idle_key_def v dest: store_okD(3) intro!: store_ok_volume)
  qed (simp_all add: v)
qed

lemma mark_cleaned_sound:
  assumes "mark_cleaned now i (st_db s) = Inr d"
  shows "sound_step lower c Q s (s\<lparr>st_db := d\<rparr>)" and "idle_key k (s\<lparr>st_db := d\<rparr>) \<longleftrightarrow> idle_key k s"
proof -
  let ?q = "\<lambda>u. upl_id u = i \<and> upl_staging_cleaned_at u = None \<and> (upl_state u = Expired \<or> upl_state u = UpFailed)"
  let ?g = "\<lambda>u. u\<lparr>upl_staging_cleaned_at := Some now\<rparr>"
  note d = mark_cleaned_Inr [OF assms]
  show "idle_key k (s\<lparr>st_db := d\<rparr>) \<longleftrightarrow> idle_key k s" by (auto simp: idle_key_def d set_update_where)
  have "finalizing_object b d \<longleftrightarrow> finalizing_object b (st_db s)" for b
    by (rule finalizing_update [where q = ?q and g = ?g]) (simp_all add: d)
  then have ref: "referenced b d \<longleftrightarrow> referenced b (st_db s)" for b by (simp add: referenced_def in_versions_def d)
  have new: "upload_ok ids st (?g u)" if "upload_ok ids st u" for ids st u
    using that by (simp add: upload_ok_def staged_def upload_row_check_def cong: upload_state.case_cong)
  show "sound_step lower c Q s (s\<lparr>st_db := d\<rparr>)"
  proof (rule sound_step_silent)
    assume ok: "store_ok lower s" "objects_ok s"
    have "store_ok lower (s\<lparr>st_db := d\<rparr>)" by (rule store_ok_uploads [OF ok(1), where q = ?q and g = ?g]) (simp_all add: d new)
    then show "store_ok lower (s\<lparr>st_db := d\<rparr>) \<and> objects_ok (s\<lparr>st_db := d\<rparr>)" using ok(2) by (simp add: objects_ok_def d)
  qed (simp_all add: d ref [unfolded d])
qed

lemma clean_staging_sound:
  assumes "\<And>i k. (i, k) \<in> set us \<Longrightarrow> idle_key k s"
  shows "sound_step lower c Q s (fst (clean_staging now us n s))"
  using assms
proof (induction us arbitrary: n s)
  case Nil
  then show ?case by simp
next
  case (Cons p us)
  obtain i k a b where p: "p = (i, k)" and n: "n = (a, b)" by (cases p, cases n)
  show ?case
  proof (cases "remove_staging_file k (st_vol s)")
    case (Inl e)
    have "sound_step lower c Q s (fst (clean_staging now us (a, Suc b) s))"
    proof (rule Cons.IH)
      fix i' k' assume "(i', k') \<in> set us"
      then show "idle_key k' s" using Cons.prems [of i' k'] by simp
    qed
    then show ?thesis using Inl p n by simp
  next
    case (Inr v)
    have r: "sound_step lower c Q s (s\<lparr>st_vol := v\<rparr>)" by (rule remove_staging_sound [OF Inr Cons.prems [of i k]]) (simp add: p)
    show ?thesis
    proof (cases "mark_cleaned now i (st_db s)")
      case (Inl e)
      then show ?thesis using Inr r p n by (simp add: mdb_def)
    next
      case m: (Inr d)
      then have m': "mark_cleaned now i (st_db (s\<lparr>st_vol := v\<rparr>)) = Inr d" by simp
      have "idle_key k' (s\<lparr>st_db := d, st_vol := v\<rparr>)" if "(i', k') \<in> set us" for i' k'
        using Cons.prems [of i' k'] that mark_cleaned_sound(2) [OF m] by (simp add: idle_key_def)
      then have IH: "sound_step lower c Q (s\<lparr>st_db := d, st_vol := v\<rparr>) (fst (clean_staging now us (Suc a, b) (s\<lparr>st_db := d, st_vol := v\<rparr>)))"
        by (rule Cons.IH)
      have eq: "fst (clean_staging now (p # us) n s) = fst (clean_staging now us (Suc a, b) (s\<lparr>st_db := d, st_vol := v\<rparr>))"
        using Inr m p n by (simp add: mdb_def)
      have "sound_step lower c Q s (s\<lparr>st_db := d, st_vol := v\<rparr>)"
        using sound_step_trans [OF r mark_cleaned_sound(1) [OF m']] by (simp only: store_swap)
      then show ?thesis unfolding eq using IH by (rule sound_step_trans)
    qed
  qed
qed

lemma clean_expired_sound: "sound_step lower c Q s (fst (clean_expired_uploads now s))"
proof (cases "store_ok lower s")
  case ok: True
  let ?us = "cleanup_candidates now (st_db s)"
  obtain d where d: "expire_uploads now (map upl_id ?us) (st_db s) = Inr d" using expire_uploads_succeeds [OF ok] by blast
  have mem: "w \<in> set (uploads (st_db s))" if "w \<in> set ?us" for w
    using that by (auto simp: cleanup_candidates_def dest: in_set_takeD)
  have "idle_key (upl_staging_key w) (s\<lparr>st_db := d\<rparr>)" if w: "w \<in> set ?us" for w
    unfolding idle_key_def
  proof (intro ballI impI)
    fix u assume "u \<in> set (uploads (st_db (s\<lparr>st_db := d\<rparr>)))" and k: "upl_staging_key u = upl_staging_key w"
    then obtain u0 where u0: "u0 \<in> set (uploads (st_db s))" "u = (if upl_id u0 \<in> set (map upl_id ?us) then expires_with now u0 else u0)"
      by (auto simp: expire_uploads_Inr [OF d] set_update_where)
    then have "upl_staging_key u0 = upl_staging_key w" using k by (auto split: if_splits)
    then have "u0 = w" using keys_okD(2) [OF store_okD(2) [OF ok] u0(1) mem [OF w]] by blast
    then show "upl_state u \<noteq> Active" using u0(2) w by auto
  qed
  then have "sound_step lower c Q (s\<lparr>st_db := d\<rparr>)
      (fst (clean_staging now (map (\<lambda>u. (upl_id u, upl_staging_key u)) ?us) (0, 0) (s\<lparr>st_db := d\<rparr>)))"
    by (intro clean_staging_sound) auto
  then show ?thesis
    using sound_step_trans [OF expire_uploads_sound [OF d]] d by (simp add: clean_expired_uploads_def Let_def mdb_def)
qed (simp add: sound_step_def)

section \<open>Purging\<close>

lemma subtree_of_reach: "e \<in> subtree_of p es x \<Longrightarrow> e \<in> set es \<and> (ent_id e, x) \<in> (parent_rel es)\<^sup>*"
  using rtrancl_mono [OF par_subset] by (auto simp: subtree_of_def)

text \<open>The subtree of an entry can always be purged, and nothing else goes.\<close>

lemma purge_subtree:
  assumes ok: "drive_ok lower s" and e: "e \<in> set (entries s)" "ent_id e = i" "ent_owner e = owner"
  obtains s' where "purge_entries (purge_order owner i s) s = Inr s'" and "purge_order owner i s \<noteq> []"
    and "drive_ok lower s'" and "uploads_kept s s'" and "objects s' = objects s"
    and "entries s' = filter (\<lambda>a. a \<notin> subtree_of (owned owner) (entries s) i) (entries s)"
    and "versions s' = filter (\<lambda>v. ver_file v \<notin> ent_id ` subtree_of (owned owner) (entries s) i) (versions s)"
proof -
  let ?T = "subtree_of (owned owner) (entries s) i"
  note p = purge_order_rows [OF ok e]
  have "e \<in> ?T" using e by (simp add: subtree_of_def)
  then have ne: "purge_order owner i s \<noteq> []" using p(1) by (metis empty_iff list.set(1))
  obtain s' where s': "purge_entries (purge_order owner i s) s = Inr s'" "drive_ok lower s'" "uploads_kept s s'"
    "entries s' = filter (\<lambda>c. ent_id c \<notin> ent_id ` set (purge_order owner i s)) (entries s)"
    "versions s' = filter (\<lambda>v. ver_file v \<notin> ent_id ` set (purge_order owner i s)) (versions s)" "objects s' = objects s"
    by (rule purge_entries_succeeds [OF ok p(3)])
  have "ent_id a \<in> ent_id ` ?T \<longleftrightarrow> a \<in> ?T" if "a \<in> set (entries s)" for a
    using that by (auto simp: subtree_of_def)
  then have "entries s' = filter (\<lambda>a. a \<notin> ?T) (entries s)"
    unfolding s'(4) p(1) by (intro filter_cong) simp_all
  with s' ne show thesis by (intro that) (simp_all add: p(1))
qed

lemma purge_sound:
  assumes d: "drive_ok lower d" "uploads_kept (st_db s) d" "objects d = objects (st_db s)"
    "entries d = filter (\<lambda>a. a \<notin> subtree_of p (entries (st_db s)) (ent_id e)) (entries (st_db s))"
    "versions d = filter (\<lambda>v. ver_file v \<notin> ent_id ` subtree_of p (entries (st_db s)) (ent_id e)) (versions (st_db s))"
    and e: "e \<in> set (entries (st_db s))" and Q: "Q e"
  shows "sound_step lower c Q s (s\<lparr>st_db := add_audit t a r d\<rparr>)"
proof -
  let ?s' = "s\<lparr>st_db := add_audit t a r d\<rparr>" and ?T = "subtree_of p (entries (st_db s)) (ent_id e)"
  have fin: "finalizing_object b (st_db s)" if "finalizing_object b (add_audit t a r d)" for b
    using uploads_kept_finalizing [OF d(2)] that by (simp add: finalizing_object_def add_audit_def)
  have content: "object_content c ?s' b = object_content c s b" for b
    by (rule object_content_cong) (simp_all add: d(3) add_audit_def)
  have "tidies c Q s ?s'"
    unfolding tidies_def
  proof (intro conjI ballI allI impI)
    fix a assume "a \<in> set (entries (st_db s))"
    then show "a \<in> set (entries (st_db ?s')) \<or> (\<exists>root \<in> set (entries (st_db s)). Q root
        \<and> (ent_id a, ent_id root) \<in> (parent_rel (entries (st_db s)))\<^sup>*)"
      using e Q subtree_of_reach by (auto simp: d(4) add_audit_def)
  next
    fix v assume v: "v \<in> set (versions (st_db s))" "ver_file v \<in> ent_id ` set (entries (st_db ?s'))"
    then obtain a where a: "a \<in> set (entries (st_db s))" "a \<notin> ?T" "ent_id a = ver_file v" by (auto simp: d(4) add_audit_def)
    then have "ver_file v \<notin> ent_id ` ?T" by (auto simp: subtree_of_def)
    then show "v \<in> set (versions (st_db ?s'))" using v(1) by (simp add: d(5) add_audit_def)
  next
    fix b assume "referenced b (st_db ?s')"
    then show "referenced b (st_db s)"
      using fin [of b] by (auto simp: referenced_def in_versions_def add_audit_def d(5))
    show "object_content c ?s' b = object_content c s b" by (rule content)
  qed (simp_all add: d(4,5) add_audit_def)
  moreover have "store_ok lower ?s'" if ok: "store_ok lower s"
  proof -
    have "uploads_kept (st_db s) (add_audit t a r d)"
      using uploads_kept_trans [OF d(2)] by (simp add: uploads_kept_refl add_audit_def idents_def)
    moreover have "drive_ok lower (add_audit t a r d)" using d(1) by (subst drive_ok_frame [of _ d]) (simp_all add: add_audit_def)
    ultimately show ?thesis by (rule uploads_kept_ok [OF _ ok])
  qed
  moreover have "objects_ok s \<longleftrightarrow> objects_ok ?s'" by (simp add: objects_ok_def add_audit_def d(3))
  ultimately show ?thesis by (simp add: sound_step_def)
qed

lemma purge_expired_root_sound:
  assumes ok: "drive_ok lower (st_db s)"
  shows "\<exists>r. purge_expired_root t i (st_db s) = Inr r
    \<and> (\<forall>d n. r = Some (d, n) \<longrightarrow> sound_step lower c (deleted_before t) s (s\<lparr>st_db := d\<rparr>))"
proof (cases "find (\<lambda>e. ent_id e = i \<and> deleted_before t e) (entries (st_db s))")
  case None
  then show ?thesis by (simp add: purge_expired_root_def)
next
  case (Some e)
  then have e: "e \<in> set (entries (st_db s))" "ent_id e = i" "deleted_before t e" by (auto simp: find_Some_iff)
  obtain d where d: "purge_entries (purge_order (ent_owner e) i (st_db s)) (st_db s) = Inr d" "purge_order (ent_owner e) i (st_db s) \<noteq> []"
    "drive_ok lower d" "uploads_kept (st_db s) d" "objects d = objects (st_db s)"
    "entries d = filter (\<lambda>a. a \<notin> subtree_of (owned (ent_owner e)) (entries (st_db s)) i) (entries (st_db s))"
    "versions d = filter (\<lambda>v. ver_file v \<notin> ent_id ` subtree_of (owned (ent_owner e)) (entries (st_db s)) i) (versions (st_db s))"
    by (rule purge_subtree [OF ok e(1,2) refl])
  have "sound_step lower c (deleted_before t) s (s\<lparr>st_db := add_audit ''entry_purged'' None (Some i) d\<rparr>)"
    by (rule purge_sound [OF d(3-5), of "owned (ent_owner e)" e]) (simp_all add: d(6,7) e)
  then show ?thesis using Some d(1,2) by (simp add: purge_expired_root_def Let_def)
qed

lemma purge_roots_sound: "sound_step lower c (deleted_before t) s (fst (purge_roots t is n s))"
proof (cases "store_ok lower s \<and> objects_ok s")
  case True
  then show ?thesis
  proof (induction "is" arbitrary: n s)
    case (Cons i "is")
    obtain a b where n: "n = (a, b)" by (cases n)
    obtain r where r: "purge_expired_root t i (st_db s) = Inr r"
      "\<forall>d n. r = Some (d, n) \<longrightarrow> sound_step lower c (deleted_before t) s (s\<lparr>st_db := d\<rparr>)"
      using purge_expired_root_sound [OF store_okD(1)] Cons.prems by blast
    show ?case
    proof (cases r)
      case None
      then show ?thesis using Cons r(1) n by (simp add: mdb_def)
    next
      case (Some p)
      obtain d k where p: "p = (d, k)" by (cases p)
      have one: "sound_step lower c (deleted_before t) s (s\<lparr>st_db := d\<rparr>)" using r(2) Some p by simp
      then have "store_ok lower (s\<lparr>st_db := d\<rparr>) \<and> objects_ok (s\<lparr>st_db := d\<rparr>)" using Cons.prems by (simp add: sound_step_def)
      note IH = Cons.IH [OF this, of "(Suc a, b + k)"]
      show ?thesis using sound_step_trans [OF one IH] r(1) Some p n by (simp add: mdb_def)
    qed
  qed simp
qed (auto simp: sound_step_def)

section \<open>Objects\<close>

lemma unreferenced_iff: "unreferenced s r \<longleftrightarrow> \<not> referenced (obj_id r) s"
  by (simp add: unreferenced_def referenced_def)

lemma object_content_key:
  assumes "map (\<lambda>r. (obj_id r, obj_storage_key r)) (objects d) = map (\<lambda>r. (obj_id r, obj_storage_key r)) (objects (st_db s))"
  shows "object_content c (s\<lparr>st_db := d\<rparr>) b = object_content c s b"
proof -
  have "map_option obj_storage_key (find_row obj_id b rs) = map_option obj_storage_key (find_row obj_id b rs')"
    if "map (\<lambda>r. (obj_id r, obj_storage_key r)) rs = map (\<lambda>r. (obj_id r, obj_storage_key r)) rs'" for rs rs' :: "object_row list"
    using that
  proof (induction rs arbitrary: rs')
    case (Cons r rs)
    then show ?case by (cases rs') (auto simp: find_row_def)
  qed (simp add: find_row_def)
  from this [OF assms] show ?thesis
    by (cases "find_row obj_id b (objects d)"; cases "find_row obj_id b (objects (st_db s))") (simp_all add: object_content_def)
qed

text \<open>A change of columns other than the identifier and the key.\<close>

lemma object_update_sound:
  assumes d: "d = (st_db s)\<lparr>objects := update_where q g (objects (st_db s))\<rparr>"
    and g: "\<And>r. obj_id (g r) = obj_id r \<and> obj_storage_key (g r) = obj_storage_key r"
  shows "sound_step lower c Q s (s\<lparr>st_db := d\<rparr>)"
proof -
  have keys: "map (\<lambda>r. (obj_id r, obj_storage_key r)) (objects d) = map (\<lambda>r. (obj_id r, obj_storage_key r)) (objects (st_db s))"
    unfolding d by (simp add: map_key_update_where g)
  have ids: "map obj_id (objects d) = map obj_id (objects (st_db s))"
    "map obj_storage_key (objects d) = map obj_storage_key (objects (st_db s))"
    using g by (simp_all add: d map_key_update_where)
  have drive: "drive_ok lower d" if "drive_ok lower (st_db s)"
    using that ids(1) by (intro drive_ok_objects [OF that]) (simp_all add: d drive_ok_def rows_ok_def image_key_update_where g)
  show ?thesis
  proof (rule sound_step_quiet)
    assume "store_ok lower s" "objects_ok s"
    then show "store_ok lower (s\<lparr>st_db := d\<rparr>) \<and> objects_ok (s\<lparr>st_db := d\<rparr>)"
      using drive ids by (auto simp: objects_ok_def d idents_def dest: store_okD(1) intro!: store_ok_db)
  next
    fix b assume "referenced b (st_db (s\<lparr>st_db := d\<rparr>))"
    then show "referenced b (st_db s) \<and> object_content c (s\<lparr>st_db := d\<rparr>) b = object_content c s b"
      using object_content_key [OF keys] by (simp add: d referenced_def in_versions_def finalizing_object_def)
  qed (simp_all add: d)
qed

lemma mark_deleting_sound: "sound_step lower c Q s (s\<lparr>st_db := mark_deleting ids (st_db s)\<rparr>)"
  by (rule object_update_sound [OF mark_deleting_def]) simp

text \<open>A payload that nothing refers to: its identifier, and the only row that can carry its key.\<close>

definition disposable :: "uuid \<times> string \<Rightarrow> db \<Rightarrow> bool" where
  "disposable p s \<longleftrightarrow> \<not> referenced (fst p) s \<and> (\<forall>r \<in> set (objects s). obj_storage_key r = snd p \<longrightarrow> obj_id r = fst p)"

lemma remove_payload_sound:
  assumes r: "remove_object c key (st_vol s) = Inr v" and p: "disposable (b, key) (st_db s)"
  shows "sound_step lower c Q s (s\<lparr>st_vol := v\<rparr>)"
proof (rule sound_step_quiet)
  assume ok: "store_ok lower s" "objects_ok s"
  have "vol_staging v = vol_staging (st_vol s)" using r by (auto elim: remove_object_frame)
  then show "store_ok lower (s\<lparr>st_vol := v\<rparr>) \<and> objects_ok (s\<lparr>st_vol := v\<rparr>)"
    using ok blobs.remove_inv [OF store_okD(3) [OF ok(1)] r] by (auto simp: objects_ok_def intro!: store_ok_volume)
next
  fix b' assume ref: "referenced b' (st_db (s\<lparr>st_vol := v\<rparr>))"
  have "object_content c (s\<lparr>st_vol := v\<rparr>) b' = object_content c s b'"
  proof (cases "find_row obj_id b' (objects (st_db s))")
    case (Some q)
    then have q: "q \<in> set (objects (st_db s))" "obj_id q = b'" by (auto dest: find_row_Some)
    then have "obj_storage_key q \<noteq> key" using p ref by (auto simp: disposable_def)
    then show ?thesis using Some blobs.remove_other [OF r] by (simp add: object_content_def)
  qed (simp add: object_content_def)
  with ref show "referenced b' (st_db s) \<and> object_content c (s\<lparr>st_vol := v\<rparr>) b' = object_content c s b'" by simp
qed simp_all

lemma find_row_filter: "k \<noteq> b \<Longrightarrow> find_row key k (filter (\<lambda>r. key r \<noteq> b) rows) = find_row key k rows"
  by (induction rows) (auto simp: find_row_def)

lemma delete_object_sound:
  assumes d: "delete_object b (st_db s) = Inr d" and r: "\<not> referenced b (st_db s)"
  shows "sound_step lower c Q s (s\<lparr>st_db := d\<rparr>)" and "disposable p (st_db s) \<Longrightarrow> disposable p d"
proof -
  have "sound_step lower c Q s (s\<lparr>st_db := d\<rparr>) \<and> (disposable p (st_db s) \<longrightarrow> disposable p d)"
    using d
  proof (cases rule: delete_object_Inr)
    case 1
    then show ?thesis by simp
  next
    case 2
    have fin: "finalizing_object k d \<Longrightarrow> finalizing_object k (st_db s)" for k
      by (rule uploads_kept_finalizing [OF delete_object_kept [OF d]])
    have ref: "referenced k d \<Longrightarrow> referenced k (st_db s)" for k
      using fin [of k] by (auto simp: referenced_def in_versions_def 2(1))
    have "sound_step lower c Q s (s\<lparr>st_db := d\<rparr>)"
    proof (rule sound_step_quiet)
      assume ok: "store_ok lower s" "objects_ok s"
      have "store_ok lower (s\<lparr>st_db := d\<rparr>)"
        by (rule uploads_kept_ok [OF delete_object_kept [OF d] ok(1) delete_object_ok [OF d store_okD(1) [OF ok(1)]]])
      then show "store_ok lower (s\<lparr>st_db := d\<rparr>) \<and> objects_ok (s\<lparr>st_db := d\<rparr>)"
        using ok(2) by (simp add: objects_ok_def 2(1) distinct_map_filter_key)
    next
      fix k assume k: "referenced k (st_db (s\<lparr>st_db := d\<rparr>))"
      then have "referenced k (st_db s)" using ref by simp
      moreover from this have "k \<noteq> b" using r by blast
      ultimately show "referenced k (st_db s) \<and> object_content c (s\<lparr>st_db := d\<rparr>) k = object_content c s k"
        by (simp add: object_content_def 2(1) find_row_filter cong: option.case_cong)
    qed (simp_all add: 2(1))
    moreover have "disposable p (st_db s) \<longrightarrow> disposable p d"
      using ref [of "fst p"] by (auto simp: disposable_def 2(1))
    ultimately show ?thesis by simp
  qed
  then show "sound_step lower c Q s (s\<lparr>st_db := d\<rparr>)" "disposable p (st_db s) \<Longrightarrow> disposable p d" by simp_all
qed

lemma drop_object_sound:
  assumes d: "drop_object q b s = Inr (d, n)"
  shows "d = s \<and> n = 0 \<or> delete_object b s = Inr d \<and> n = 1"
  using d by (auto simp: drop_object_def result_simps split: if_splits)

text \<open>Both loops that remove payloads.\<close>

lemma drop_step_sound:
  assumes r: "remove_object c key (st_vol s) = Inr v" and d: "drop_object q b (st_db s) = Inr (d, n)"
    and p: "disposable (b, key) (st_db s)"
  shows "sound_step lower c Q s (s\<lparr>st_db := d, st_vol := v\<rparr>)" and "disposable p (st_db s) \<Longrightarrow> disposable p d"
proof -
  have un: "\<not> referenced b (st_db s)" using p by (simp add: disposable_def)
  let ?s1 = "s\<lparr>st_vol := v\<rparr>"
  have one: "sound_step lower c Q s ?s1" by (rule remove_payload_sound [OF r p])
  have "sound_step lower c Q ?s1 (?s1\<lparr>st_db := d\<rparr>)"
    using drop_object_sound [OF d] delete_object_sound(1) [of b ?s1 d] un by auto
  from sound_step_trans [OF one this] show "sound_step lower c Q s (s\<lparr>st_db := d, st_vol := v\<rparr>)" by (simp only: store_swap)
  show "disposable p (st_db s) \<Longrightarrow> disposable p d"
    using drop_object_sound [OF d] delete_object_sound(2) [of b s d p] un by auto
qed

lemma remove_payloads_sound:
  assumes "\<And>p. p \<in> set bs \<Longrightarrow> disposable p (st_db s)"
  shows "sound_step lower c Q s (fst (remove_payloads c bs s))"
  using assms
proof (induction bs arbitrary: s)
  case (Cons p bs)
  obtain b key where p: "p = (b, key)" by (cases p)
  have dis: "disposable (b, key) (st_db s)" using Cons.prems [of p] p by simp
  show ?case
  proof (cases "remove_object c key (st_vol s)")
    case (Inr v)
    show ?thesis
    proof (cases "drop_object (\<lambda>r. \<not> in_versions b (st_db s)) b (st_db s)")
      case (Inl e)
      then show ?thesis using Inr p remove_payload_sound [OF Inr dis] by (simp add: mdb_def mstore_def)
    next
      case d: (Inr dn)
      obtain d' n where dn: "dn = (d', n)" by (cases dn)
      note st = drop_step_sound [OF Inr d [unfolded dn] dis]
      have "sound_step lower c Q (s\<lparr>st_db := d', st_vol := v\<rparr>) (fst (remove_payloads c bs (s\<lparr>st_db := d', st_vol := v\<rparr>)))"
        by (rule Cons.IH) (use Cons.prems st(2) in simp)
      with st(1) show ?thesis using sound_step_trans Inr d dn p by (simp add: mdb_def mstore_def) blast
    qed
  qed (simp add: p mstore_def)
qed simp

lemma remove_marked_sound:
  assumes "\<And>p. p \<in> set bs \<Longrightarrow> disposable p (st_db s)"
  shows "sound_step lower c Q s (fst (remove_marked c bs n s))"
  using assms
proof (induction bs arbitrary: s n)
  case (Cons p bs)
  obtain b key i j where p: "p = (b, key)" and n: "n = (i, j)" by (cases p, cases n)
  have dis: "disposable (b, key) (st_db s)" using Cons.prems [of p] p by simp
  have IH: "sound_step lower c Q t (fst (remove_marked c bs m t))" if "\<And>p. p \<in> set bs \<Longrightarrow> disposable p (st_db t)" for t m
    by (rule Cons.IH) (use that in simp)
  show ?case
  proof (cases "remove_object c key (st_vol s)")
    case (Inl e)
    then show ?thesis using IH [of s "(i, Suc j)"] Cons.prems p n by simp
  next
    case (Inr v)
    show ?thesis
    proof (cases "drop_object (unreferenced (st_db s)) b (st_db s)")
      case (Inl e)
      then show ?thesis using Inr p n remove_payload_sound [OF Inr dis] by (simp add: mdb_def)
    next
      case d: (Inr dn)
      obtain d' k where dn: "dn = (d', k)" by (cases dn)
      note st = drop_step_sound [OF Inr d [unfolded dn] dis]
      let ?m = "if k = 1 then (Suc i, j) else (i, Suc j)"
      have "sound_step lower c Q (s\<lparr>st_db := d', st_vol := v\<rparr>) (fst (remove_marked c bs ?m (s\<lparr>st_db := d', st_vol := v\<rparr>)))"
        by (rule IH) (use Cons.prems st(2) in simp)
      with st(1) have "sound_step lower c Q s (fst (remove_marked c bs ?m (s\<lparr>st_db := d', st_vol := v\<rparr>)))" by (rule sound_step_trans)
      then show ?thesis using Inr d dn p n by (simp add: mdb_def)
    qed
  qed
qed simp

lemma disposable_keyed:
  assumes "objects_ok s" and "r \<in> set (objects (st_db s))" and "unreferenced (st_db s) r"
  shows "disposable (keyed r) (mark_deleting ids (st_db s))"
proof -
  have keys: "distinct (map obj_storage_key (objects (st_db s)))" using assms(1) by (simp add: objects_ok_def)
  have "obj_id q = obj_id r" if "q \<in> set (objects (mark_deleting ids (st_db s)))" "obj_storage_key q = obj_storage_key r" for q
  proof -
    from that obtain q0 where q0: "q0 \<in> set (objects (st_db s))" "obj_id q = obj_id q0" "obj_storage_key q0 = obj_storage_key r"
      by (auto simp: mark_deleting_def set_update_where)
    have "q0 = r" by (rule distinct_key_unique [OF keys q0(1) assms(2) q0(3)])
    then show ?thesis using q0(2) by simp
  qed
  then show ?thesis
    using assms(3)
    by (auto simp: disposable_def keyed_def unreferenced_iff referenced_def in_versions_def finalizing_object_def mark_deleting_def)
qed

lemma remove_unreferenced_sound: "sound_step lower c Q s (fst (remove_unreferenced_objects c now ttl s))"
proof (cases "objects_ok s")
  case ok: True
  show ?thesis
  proof (cases "ago now ttl one_second")
    case (Inr t)
    let ?bs = "removal_candidates t (st_db s)" and ?s1 = "s\<lparr>st_db := mark_deleting (map obj_id (removal_candidates t (st_db s))) (st_db s)\<rparr>"
    have mem: "r \<in> set (objects (st_db s))" "unreferenced (st_db s) r" if "r \<in> set ?bs" for r
      using that by (auto simp: removal_candidates_def removable_def dest!: in_set_takeD)
    have "sound_step lower c Q ?s1 (fst (remove_marked c (map keyed ?bs) (0, 0) ?s1))"
      by (rule remove_marked_sound) (auto intro!: disposable_keyed [OF ok] mem simp del: surj_pair)
    then show ?thesis
      using sound_step_trans [OF mark_deleting_sound] Inr by (simp add: remove_unreferenced_objects_def Let_def)
  qed (simp add: remove_unreferenced_objects_def)
qed (simp add: sound_step_def)

lemma delete_unreferenced_sound: "sound_step lower c Q s (fst (delete_unreferenced_objects c ids s))"
proof (cases "objects_ok s")
  case ok: True
  let ?bs = "filter (\<lambda>r. obj_id r \<in> set ids \<and> unreferenced (st_db s) r) (objects (st_db s))"
  let ?s1 = "s\<lparr>st_db := mark_deleting (map obj_id ?bs) (st_db s)\<rparr>"
  have "sound_step lower c Q ?s1 (fst (remove_payloads c (map keyed ?bs) ?s1))"
    by (rule remove_payloads_sound) (auto intro: disposable_keyed [OF ok])
  then show ?thesis
    using sound_step_trans [OF mark_deleting_sound] by (simp add: delete_unreferenced_objects_def Let_def)
qed (simp add: sound_step_def)

lemma report_missing_sound: "sound_step lower c Q s (fst (report_missing_payloads c now s))"
proof -
  let ?rs = "check_candidates (now - one_day) (st_db s)"
  have "sound_step lower c Q s (s\<lparr>st_db := (st_db s)\<lparr>objects := update_where (\<lambda>r. obj_id r \<in> obj_id ` set ?rs)
      (\<lambda>r. r\<lparr>obj_last_checked_at := Some now\<rparr>) (objects (st_db s))\<rparr>\<rparr>)"
    by (rule object_update_sound [OF refl]) simp
  then show ?thesis
    by (cases "missing_objects c (st_vol s) ?rs") (simp_all add: report_missing_payloads_def Let_def mstore_def)
qed

section \<open>A pass\<close>

lemma and_then_sound:
  assumes "sound_step lower c Q s (fst r)" and "\<And>a s1. sound_step lower c Q s1 (fst (f a s1))"
  shows "sound_step lower c Q s (fst (and_then r f))"
  using assms sound_step_trans by (cases r; cases "snd r") (fastforce simp: and_then_def)+

lemma drop_logs_sound: "sound_step lower c Q s (s\<lparr>st_db := drop_old_logs now (st_db s)\<rparr>)"
proof (rule sound_step_silent)
  assume "store_ok lower s" "objects_ok s"
  then show "store_ok lower (s\<lparr>st_db := drop_old_logs now (st_db s)\<rparr>) \<and> objects_ok (s\<lparr>st_db := drop_old_logs now (st_db s)\<rparr>)"
    by (auto simp: drop_old_logs_def objects_ok_def idents_def drive_ok_frame [of "st_db s\<lparr>api_logs := l\<rparr>" "st_db s" for l]
        dest: store_okD(1) intro!: store_ok_db)
qed (simp_all add: drop_old_logs_def referenced_def in_versions_def finalizing_object_def)

lemma run_once_sound:
  "sound_step lower c (deleted_before (now - int (ms_trash_retention_days settings) * one_day)) s (fst (run_once c settings now s))"
proof -
  let ?Q = "deleted_before (now - int (ms_trash_retention_days settings) * one_day)"
  let ?g = "bindE (mstore (vol_mounted (st_vol s))) (\<lambda>_. bindE (i64_of (ms_trash_retention_days settings)) (\<lambda>days.
           bindE (i64_of (ms_upload_session_ttl_seconds settings)) (\<lambda>ttl. Inr (days, ttl))))"
  have purge: "sound_step lower c ?Q s1 (fst (purge_expired_trash now days s1))" if "days = int (ms_trash_retention_days settings)" for days s1
    using purge_roots_sound [of lower c] by (simp add: purge_expired_trash_def ago_def that)
  show ?thesis
  proof (cases ?g)
    case (Inl e)
    then show ?thesis by (simp add: run_once_def)
  next
    case (Inr p)
    then obtain days ttl where p: "p = (days, ttl)" and days: "days = int (ms_trash_retention_days settings)"
      by (auto simp: result_simps i64_of_def split: if_splits)
    show ?thesis
      using Inr p
      by (auto simp: run_once_def split_def intro!: and_then_sound sound_step_trans [OF drop_logs_sound clean_expired_sound]
          purge [OF days] remove_unreferenced_sound report_missing_sound)
  qed
qed

end
