(* ===== verification/Maintenance_Results.thy ===== *)
theory Maintenance_Results
  imports Maintenance_Correct Uploads_Results
begin

text \<open>
  What maintenance guarantees: a service that runs maintenance passes and permanent deletions
  between its requests keeps its invariant, a pass loses nothing but expired trash, and a
  request to empty the trash does so.
\<close>

section \<open>Object rows under requests\<close>

lemma drive_write_objects: "drive_write lower owner s s' \<Longrightarrow> objects s' = objects s"
proof (induction rule: drive_write.induct)
  case (entry_updated g p f i s s' n)
  from entry_updated(1) show ?case by (cases rule: update_entry_Inr) simp_all
next
  case (version_added v s s1 s2)
  then show ?case using set_current_Inr [OF version_added(2)] insert_version_Inr(1) [OF version_added(1)] by simp
qed (auto simp: insert_folder_def insert_file_def revoke_subtree_shares_def drop_subtree_access_def add_audit_def result_simps
    dest: insert_entry_Inr(1))

lemma drive_writes_objects: "drive_writes lower owner s s' \<Longrightarrow> objects s' = objects s"
  by (induction rule: rtranclp_induct) (auto dest: drive_write_objects)

definition keyed_rows :: "object_row list \<Rightarrow> bool" where
  "keyed_rows rs \<longleftrightarrow> distinct (map obj_id rs) \<and> distinct (map obj_storage_key rs)"

lemma objects_ok_iff: "objects_ok s \<longleftrightarrow> keyed_rows (objects (st_db s))"
  by (simp add: objects_ok_def keyed_rows_def)

lemma keyed_rows_insert: "insert_object b s = Inr s' \<Longrightarrow> keyed_rows (objects s) \<Longrightarrow> keyed_rows (objects s')"
  using insert_object_Inr [of b s s'] by (simp add: keyed_rows_def)

lemma keyed_rows_delete:
  assumes "delete_object b s = Inr s'" and "keyed_rows (objects s)"
  shows "keyed_rows (objects s')"
  using assms(1) by (cases rule: delete_object_Inr) (use assms(2) in \<open>simp_all add: keyed_rows_def distinct_map_filter_key\<close>)

lemma keyed_rows_update:
  "(\<And>r. obj_id (g r) = obj_id r \<and> obj_storage_key (g r) = obj_storage_key r) \<Longrightarrow>
   keyed_rows (update_where q g rs) = keyed_rows rs"
  by (simp add: keyed_rows_def map_key_update_where)

lemma withdraw_content_objects:
  assumes "withdraw_content owner u f s = Inr s'"
  shows "objects s' = objects s"
proof -
  have e: "objects s2 = objects s1" if "delete_entry i w s1 = Inr s2" for i w s1 s2
    using that by (auto simp: delete_entry_def Let_def result_simps split: if_splits)
  have c: "objects s2 = objects s1" if "set_current_version v i s1 = Inr s2" for v i s1 s2
    using set_current_Inr [OF that] by simp
  have d: "objects s2 = objects s1" if "delete_file i s1 = Inr s2" for i s1 s2
    using delete_file_Inr(1) [OF that] by simp
  show ?thesis
    using assms unfolding withdraw_content_def
    by (auto simp: Let_def tsql_def result_simps split: if_splits option.splits dest!: e c d)
qed

lemma reserve_content_objects:
  assumes r: "reserve_content x c env owner u s = Inr d" and ok: "drive_ok (sql_lower x) s" and k: "keyed_rows (objects s)"
  shows "keyed_rows (objects d)"
  using r
proof (rule reserve_content_Inr)
  fix s1 s2 f
  assume 1: "insert_object \<lparr>obj_id = fe_object_id env, obj_storage_key = storage_key c (fe_object_id env),
        obj_size_bytes = upl_expected_size u, obj_checksum = None, obj_mime = None, obj_state = Pending,
        obj_created_at = fe_now env, obj_last_checked_at = None\<rparr> s = Inr s1"
    and 2: "add_content (sql_lower x) env owner u s1 = Inr (s2, f)"
    and d: "d = s2\<lparr>uploads := update_where (\<lambda>r. upl_id r = upl_id u \<and> upl_owner r = owner \<and> upl_state r = Active)
         (\<lambda>r. r\<lparr>upl_state := Finalizing, upl_object := Some (fe_object_id env), upl_final_file := Some f,
                upl_updated_at := fe_now env\<rparr>) (uploads s2)\<rparr>"
  have "objects s2 = objects s1"
    by (rule drive_writes_objects [OF add_content_writes(1) [OF 2 insert_object_ok [OF 1 ok]]])
  then show ?thesis using keyed_rows_insert [OF 1 k] by (simp add: d)
qed

lemma begin_finalize_objects:
  assumes "begin_finalize x c env owner i s = Inr (d, q)" and "drive_ok (sql_lower x) s" and "keyed_rows (objects s)"
  shows "keyed_rows (objects d)"
proof (cases q)
  case (Inl f)
  then have "d = s" using assms(1) unfolding begin_finalize_def bindE_Inr_iff
    by - (elim exE conjE, rename_tac w, case_tac "upl_state w"; auto simp: result_simps)
  then show ?thesis using assms(3) by simp
next
  case (Inr u)
  with begin_finalize_Inr(4) [of x c env owner i s d u] assms show ?thesis by (auto intro: reserve_content_objects)
qed

lemma reject_objects:
  assumes "reject_mismatched_upload c now owner i f b key s = (s', q)" and "keyed_rows (objects (st_db s))"
  shows "keyed_rows (objects (st_db s'))"
proof -
  have "st_db s' = st_db s \<or> (\<exists>u s1 s2. update_upload i (\<lambda>r. upl_owner r = owner \<and> upl_state r = Finalizing) (\<lambda>r. fails_with r now) (st_db s) = Inr s1
      \<and> withdraw_content owner u f s1 = Inr s2 \<and> delete_object b s2 = Inr (st_db s'))"
    using assms(1) unfolding reject_mismatched_upload_def
    by (auto simp: tsql_def result_simps split: sum.splits option.splits if_splits)
  then show ?thesis
  proof (elim disjE exE conjE)
    fix u s1 s2
    assume 1: "update_upload i (\<lambda>r. upl_owner r = owner \<and> upl_state r = Finalizing) (\<lambda>r. fails_with r now) (st_db s) = Inr s1"
      and 2: "withdraw_content owner u f s1 = Inr s2" and 3: "delete_object b s2 = Inr (st_db s')"
    have "objects s2 = objects (st_db s)" using withdraw_content_objects [OF 2] update_upload_Inr(1) [OF 1] by simp
    then show ?thesis using keyed_rows_delete [OF 3] assms(2) by simp
  qed (use assms(2) in simp)
qed

lemma commit_objects:
  assumes "commit_finalize now owner i f b checksum mime s = Inr (d, q)" and "keyed_rows (objects s)"
  shows "keyed_rows (objects d)"
proof -
  let ?s1 = "s\<lparr>objects := update_where (\<lambda>r. obj_id r = b \<and> (obj_state r = Pending \<or> obj_state r = Ready))
                     (\<lambda>r. r\<lparr>obj_checksum := Some checksum, obj_mime := mime, obj_state := Ready\<rparr>) (objects s)\<rparr>"
  let ?p = "\<lambda>r. upl_owner r = owner \<and> upl_state r = Finalizing" and ?g = "\<lambda>r. r\<lparr>upl_state := Completed, upl_updated_at := now\<rparr>"
  have "d = s \<or> (\<exists>s2 s3. update_upload i ?p ?g ?s1 = Inr s2 \<and> (s3 = s2 \<or> (\<exists>w. s3 = enqueue_media_index_jobs w mime s2))
      \<and> d = add_audit ''upload_completed'' (Some owner) (Some f) s3)"
    using assms(1) unfolding commit_finalize_def by (auto simp: tsql_def result_simps Let_def split: if_splits)
  then consider "d = s" | s2 s3 where "update_upload i ?p ?g ?s1 = Inr s2"
      "s3 = s2 \<or> (\<exists>w. s3 = enqueue_media_index_jobs w mime s2)" "d = add_audit ''upload_completed'' (Some owner) (Some f) s3"
    by blast
  then show ?thesis
  proof cases
    case (2 s2 s3)
    have "objects d = objects ?s1" using update_upload_Inr(1) [OF 2(1)] 2(2) by (auto simp: 2(3) add_audit_def)
    then show ?thesis using assms(2) by (simp add: keyed_rows_update)
  qed (use assms(2) in simp)
qed

lemma finalize_objects:
  assumes ok: "drive_ok (sql_lower x) (st_db s)" and k: "keyed_rows (objects (st_db s))"
  shows "keyed_rows (objects (st_db (fst (finalize_upload x st c env user hs i s))))"
proof (cases "bindE (tdrive (require_request_csrf x hs user st)) (\<lambda>_. begin_finalize x c env (au_id user) i (st_db s))")
  case (Inl e)
  then show ?thesis using k by (simp add: finalize_upload_def)
next
  case (Inr a)
  obtain d r where a: "a = (d, r)" by (cases a)
  from Inr a have b: "begin_finalize x c env (au_id user) i (st_db s) = Inr (d, r)" by (auto simp: result_simps)
  have kd: "keyed_rows (objects d)" by (rule begin_finalize_objects [OF b ok k])
  have pub: "st_db s1 = st_db t" if "publish_object x c w u o' t = (s1, q)" for s1 q t u w o'
    using that by (auto simp: publish_object_def tstore_def result_simps split: sum.splits)
  have "keyed_rows (objects (st_db (fst (complete_finalize x c env (au_id user) hs u (s\<lparr>st_db := d\<rparr>)))))" for u
    unfolding complete_finalize_def using kd
    by (auto split: sum.splits prod.splits dest!: pub intro: reject_objects commit_objects)
  then show ?thesis using Inr a k by (cases r) (simp_all add: finalize_upload_def)
qed

lemma create_upload_objects: "objects (st_db (fst (create_upload x st ls ts env user hs r s))) = objects (st_db s)"
  by (auto simp: create_upload_def split: sum.splits prod.splits dest!: insert_upload_Inr(1))

lemma create_photo_objects:
  assumes "drive_ok (sql_lower x) (st_db s)"
  shows "objects (st_db (fst (create_photo_upload x st ls ts env tries user hs r s))) = objects (st_db s)"
proof -
  obtain d f where e: "ensure_photos_folder (sql_lower x) (au_id user) (ce_now env) tries (st_db s) = (d, f)"
    by (cases "ensure_photos_folder (sql_lower x) (au_id user) (ce_now env) tries (st_db s)")
  have "drive_writes (sql_lower x) (au_id user) (st_db s) d"
    using ensure_photos_writes [of "sql_lower x" "au_id user" "st_db s" "ce_now env" "take 4 tries"] e
    by (simp add: ensure_photos_folder_def)
  then have "objects d = objects (st_db s)" by (rule drive_writes_objects)
  then show ?thesis by (auto simp: create_photo_upload_def e create_upload_objects split: sum.splits)
qed

lemma patch_objects: "objects (st_db (fst (patch_upload x st ls env user hs i body s))) = objects (st_db s)"
proof -
  obtain s' r where p: "patch_upload x st ls env user hs i body s = (s', r)" by (cases "patch_upload x st ls env user hs i body s")
  then have "objects (st_db s') = objects (st_db s)"
  proof (cases rule: patch_upload_cases)
    case (appended u d db')
    from appended(5) have "objects db' = objects (st_db s)"
      by (auto simp: commit_patch_def tsql_def result_simps split: if_splits dest!: update_upload_Inr(1))
    then show ?thesis by (simp add: appended(6))
  qed simp_all
  then show ?thesis by (simp add: p)
qed

lemma cancel_objects: "objects (st_db (fst (cancel_upload x st now user hs i s))) = objects (st_db s)"
  by (auto simp: cancel_upload_def tsql_def result_simps split: sum.splits if_splits dest!: update_upload_Inr(1))

lemma store_step_objects:
  assumes ok: "store_ok (sql_lower (sv_externals v)) s" and k: "objects_ok s"
  shows "objects_ok (store_step v e s)"
proof (cases e)
  case (DriveRequest d)
  then show ?thesis
    using drive_writes_objects [OF drive_step_writes [OF store_okD(1) [OF ok]]] k by (simp add: objects_ok_iff)
next
  case (FinalizeUpload env u hs i)
  then show ?thesis using finalize_objects [OF store_okD(1) [OF ok]] k by (simp add: objects_ok_iff)
qed (use ok k in \<open>simp_all add: objects_ok_iff create_upload_objects create_photo_objects patch_objects cancel_objects store_okD(1)\<close>)

section \<open>Purging on request\<close>

definition trashed_of :: "uuid \<Rightarrow> entry \<Rightarrow> bool" where
  "trashed_of owner e \<longleftrightarrow> ent_owner e = owner \<and> ent_deleted_at e \<noteq> None"

lemma purge_one_sound:
  assumes ok: "store_ok lower s"
  shows "\<exists>n. snd (purge_one_trash_root c owner actor i s) = Inr n
    \<and> sound_step lower c (trashed_of owner) s (fst (purge_one_trash_root c owner actor i s))
    \<and> (i \<in> ent_id ` {e \<in> set (entries (st_db s)). trashed_of owner e} \<longrightarrow> 0 < n)"
proof (cases "\<exists>e \<in> set (entries (st_db s)). ent_id e = i \<and> trashed_of owner e")
  case False
  then have "purge_one_trash_root c owner actor i s = (s, Inr 0)"
    by (auto simp: purge_one_trash_root_def Let_def trashed_of_def)
  then show ?thesis using False by (auto intro!: exI [of _ 0])
next
  case True
  then obtain e where e: "e \<in> set (entries (st_db s))" "ent_id e = i" "trashed_of owner e" by blast
  then have o: "ent_owner e = owner" by (simp add: trashed_of_def)
  obtain d where d: "purge_entries (purge_order owner i (st_db s)) (st_db s) = Inr d" "purge_order owner i (st_db s) \<noteq> []"
    "drive_ok lower d" "uploads_kept (st_db s) d" "objects d = objects (st_db s)"
    "entries d = filter (\<lambda>a. a \<notin> subtree_of (owned owner) (entries (st_db s)) i) (entries (st_db s))"
    "versions d = filter (\<lambda>v. ver_file v \<notin> ent_id ` subtree_of (owned owner) (entries (st_db s)) i) (versions (st_db s))"
    by (rule purge_subtree [OF store_okD(1) [OF ok] e(1,2) o])
  let ?s1 = "s\<lparr>st_db := add_audit ''entry_purged'' (Some actor) (Some i) d\<rparr>"
  have 1: "sound_step lower c (trashed_of owner) s ?s1"
    by (rule purge_sound [OF d(3-5), of "owned owner" e]) (simp_all add: d(6,7) e)
  have eq: "\<exists>ids. purge_one_trash_root c owner actor i s
      = (fst (delete_unreferenced_objects c ids ?s1), Inr (length (purge_order owner i (st_db s))))"
    using True d(1,2) by (auto simp: purge_one_trash_root_def Let_def mdb_def trashed_of_def)
  then obtain ids where ids: "purge_one_trash_root c owner actor i s
      = (fst (delete_unreferenced_objects c ids ?s1), Inr (length (purge_order owner i (st_db s))))" by blast
  show ?thesis
    using sound_step_trans [OF 1 delete_unreferenced_sound] d(2) by (intro exI [of _ "length (purge_order owner i (st_db s))"]) (simp add: ids)
qed

lemma purge_batch_sound:
  assumes "store_ok lower s" and "objects_ok s"
  shows "\<exists>r'. snd (purge_batch c owner actor is r s) = Inr r'
    \<and> sound_step lower c (trashed_of owner) s (fst (purge_batch c owner actor is r s))
    \<and> tpr_roots r \<le> tpr_roots r'
    \<and> (is \<noteq> [] \<longrightarrow> hd is \<in> ent_id ` {e \<in> set (entries (st_db s)). trashed_of owner e} \<longrightarrow> tpr_roots r < tpr_roots r')"
  using assms
proof (induction "is" arbitrary: r s)
  case Nil
  then show ?case by simp
next
  case (Cons i "is")
  obtain n where n: "snd (purge_one_trash_root c owner actor i s) = Inr n"
    "sound_step lower c (trashed_of owner) s (fst (purge_one_trash_root c owner actor i s))"
    "i \<in> ent_id ` {e \<in> set (entries (st_db s)). trashed_of owner e} \<longrightarrow> 0 < n"
    using purge_one_sound [OF Cons.prems(1)] by blast
  obtain s1 where s1: "purge_one_trash_root c owner actor i s = (s1, Inr n)"
    using n(1) by (cases "purge_one_trash_root c owner actor i s") simp
  have ok: "store_ok lower s1" "objects_ok s1" using n(2) Cons.prems by (simp_all add: s1 sound_step_def)
  obtain r' where r': "snd (purge_batch c owner actor is (record_purged_root r n) s1) = Inr r'"
    "sound_step lower c (trashed_of owner) s1 (fst (purge_batch c owner actor is (record_purged_root r n) s1))"
    "tpr_roots (record_purged_root r n) \<le> tpr_roots r'"
    using Cons.IH [OF ok] by blast
  have "tpr_roots (record_purged_root r n) = (if 0 < n then tpr_roots r + 1 else tpr_roots r)" by (simp add: record_purged_root_def)
  then show ?case
    using r' n(2,3) sound_step_trans [of lower c "trashed_of owner" s s1]
    by (intro exI [of _ r']) (auto simp: s1 and_then_def split: if_splits)
qed

lemma trash_roots_hd:
  assumes "trash_roots owner None s = i # is"
  shows "i \<in> ent_id ` {e \<in> set (entries s). trashed_of owner e}"
proof -
  have "set (trash_roots owner None s) \<subseteq> ent_id ` {e \<in> set (entries s). trashed_of owner e}"
    by (auto simp: trash_roots_def oldest_first_def trash_root_def trashed_of_def dest!: in_set_takeD)
  then show ?thesis unfolding assms by simp
qed

text \<open>Above every entry in the trash there is a root of the trash.\<close>

lemma trash_roots_Nil:
  assumes f: "forest (entries s)" and none: "trash_roots owner None s = []" and e: "e \<in> set (entries s)"
  shows "\<not> trashed_of owner e"
proof
  assume "trashed_of owner e"
  with e obtain m where m: "m \<in> set (entries s)" "trashed_of owner m"
    and least: "\<And>a. a \<in> set (entries s) \<Longrightarrow> trashed_of owner a \<Longrightarrow> height (entries s) (ent_id m) \<le> height (entries s) (ent_id a)"
    using ex_has_least_nat [of "\<lambda>a. a \<in> set (entries s) \<and> trashed_of owner a" e "\<lambda>a. height (entries s) (ent_id a)"] by blast
  have "trash_root s m"
  proof (cases "ent_parent m")
    case None
    then show ?thesis using m(2) by (simp add: trash_root_def trashed_of_def)
  next
    case (Some x)
    then obtain a where a: "a \<in> set (entries s)" "ent_id a = x" "ent_owner a = ent_owner m"
      using forestD(2) [OF f] m(1) unfolding parents_ok_def by blast
    have "(ent_id m, ent_id a) \<in> parent_rel (entries s)" using m(1) Some a(2) by (auto intro: parI)
    from height_parent [OF f this] least [OF a(1)] have "\<not> trashed_of owner a" by auto
    then have "ent_deleted_at a = None" using a(3) m(2) by (simp add: trashed_of_def)
    moreover have "find_row ent_id x (entries s) = Some a" using find_row_iff [OF forestD(1) [OF f]] a by simp
    ultimately show ?thesis using Some m(2) by (simp add: trash_root_def trashed_of_def)
  qed
  then have "m \<in> set (filter (\<lambda>e. ent_owner e = owner \<and> trash_root s e) (entries s))" using m by (simp add: trashed_of_def)
  then have "m \<in> set (oldest_first (filter (\<lambda>e. ent_owner e = owner \<and> trash_root s e) (entries s)))"
    by (simp add: oldest_first_def)
  then show False using none by (auto simp: trash_roots_def)
qed

lemma purge_all_sound:
  assumes "store_ok lower s" and "objects_ok s"
  shows "\<exists>r'. snd (purge_all c owner actor r s) = Inr r'
    \<and> sound_step lower c (trashed_of owner) s (fst (purge_all c owner actor r s))
    \<and> (5000 \<le> tpr_roots r' \<or> (\<forall>e \<in> set (entries (st_db (fst (purge_all c owner actor r s)))). \<not> trashed_of owner e))"
  using assms
proof (induction c owner actor r s rule: purge_all.induct)
  case (1 c owner actor r s)
  let ?batch = "trash_roots owner None (st_db s)"
  consider "5000 \<le> tpr_roots r" | "\<not> 5000 \<le> tpr_roots r" "?batch = []" | "\<not> 5000 \<le> tpr_roots r" "?batch \<noteq> []" by blast
  then show ?case
  proof cases
    case 2
    have "\<forall>e \<in> set (entries (st_db s)). \<not> trashed_of owner e"
      using trash_roots_Nil [OF drive_okD(1) [OF store_okD(1) [OF 1(2)]] 2(2)] by blast
    then show ?thesis using 2 by (simp add: purge_all.simps [of c owner actor r s])
  next
    case 3
    obtain r1 where r1: "snd (purge_batch c owner actor ?batch r s) = Inr r1"
      "sound_step lower c (trashed_of owner) s (fst (purge_batch c owner actor ?batch r s))"
      "?batch \<noteq> [] \<longrightarrow> hd ?batch \<in> ent_id ` {e \<in> set (entries (st_db s)). trashed_of owner e} \<longrightarrow> tpr_roots r < tpr_roots r1"
      using purge_batch_sound [OF 1(2,3)] by blast
    obtain s1 where s1: "purge_batch c owner actor ?batch r s = (s1, Inr r1)"
      using r1(1) by (cases "purge_batch c owner actor ?batch r s") simp
    have more_roots: "tpr_roots r < tpr_roots r1" using r1(3) 3(2) trash_roots_hd [of owner "st_db s"] by (cases ?batch) auto
    have ok: "store_ok lower s1" "objects_ok s1" using r1(2) 1(2,3) by (simp_all add: s1 sound_step_def)
    have eq: "purge_all c owner actor r s = purge_all c owner actor r1 s1"
      using 3 s1 more_roots by (simp add: purge_all.simps [of c owner actor r s])
    show ?thesis
      unfolding eq using 1(1) [OF 3(1) refl 3(2) s1 [symmetric] refl more_roots ok] r1(2) sound_step_trans
      unfolding s1 fst_conv by blast
  qed (simp add: purge_all.simps [of c owner actor r s])
qed

lemma purge_only_sound:
  assumes "store_ok lower s" and "objects_ok s"
  shows "sound_step lower c (trashed_of owner) s (fst (purge_trash_roots c owner actor ids s))"
proof (cases ids)
  case None
  then show ?thesis using purge_all_sound [OF assms, of c owner actor "\<lparr>tpr_roots = 0, tpr_entries = 0\<rparr>"]
    by (auto simp: purge_trash_roots_def Let_def)
next
  case (Some xs)
  then show ?thesis
    using purge_batch_sound [OF assms, of c owner actor "trash_roots owner (Some (remdups (sort xs))) (st_db s)" "\<lparr>tpr_roots = 0, tpr_entries = 0\<rparr>"]
    by (auto simp: purge_trash_roots_def Let_def)
qed

lemma purge_trash_sound:
  assumes "store_ok lower s" and "objects_ok s"
  shows "sound_step lower c (trashed_of (au_id user)) s (fst (purge_trash x settings c user hs ids all s))"
  using purge_only_sound [OF assms]
  by (cases "require_request_csrf x hs user settings") (auto simp: purge_trash_def split_def)

section \<open>The service with its upkeep\<close>

datatype upkeep_event =
    Request store_event
  | RunOnce maintenance_settings instant
  | PurgeTrash auth_user headers "uuid list option" "bool option"

fun upkeep_step :: "service \<Rightarrow> upkeep_event \<Rightarrow> store \<Rightarrow> store" where
  "upkeep_step v (Request e) s = store_step v e s"
| "upkeep_step v (RunOnce settings now) s = fst (run_once (sv_uuid v) settings now s)"
| "upkeep_step v (PurgeTrash user hs ids all) s =
     fst (purge_trash (sv_externals v) (sv_auth v) (sv_uuid v) user hs ids all s)"

definition service_ok :: "(ustr \<Rightarrow> ustr) \<Rightarrow> store \<Rightarrow> bool" where
  "service_ok lower s \<longleftrightarrow> store_ok lower s \<and> objects_ok s"

lemma sound_step_ok: "sound_step lower c Q s s' \<Longrightarrow> service_ok lower s \<Longrightarrow> service_ok lower s'"
  by (simp add: sound_step_def service_ok_def)

lemma upkeep_step_ok:
  assumes ok: "service_ok (sql_lower (sv_externals v)) s"
  shows "service_ok (sql_lower (sv_externals v)) (upkeep_step v e s)"
proof (cases e)
  case (Request r)
  then show ?thesis using ok store_step_ok store_step_objects by (simp add: service_ok_def)
next
  case (RunOnce settings now)
  then show ?thesis using sound_step_ok [OF run_once_sound ok] by simp
next
  case (PurgeTrash user hs ids all)
  then show ?thesis using sound_step_ok [OF purge_trash_sound ok] ok by (simp add: service_ok_def)
qed

interpretation upkeep: invariant_system "upkeep_step v" "service_ok (sql_lower (sv_externals v))" for v
  by unfold_locales (rule upkeep_step_ok)

lemma empty_service_ok: "service_ok lower (empty_store us m dirs)"
  using empty_store_ok [of lower us m dirs] by (simp add: service_ok_def objects_ok_def empty_store_def empty_db_def)

text \<open>
  C16. Whatever drive and upload requests, permanent deletions and maintenance passes a service
  that starts with an empty volume has served, in any order, with any arguments and any failure
  of the disk or of a database statement inside an append, the database and the volume agree:
  the drive invariant holds, uploads have different identifiers and staging files, the staging
  file of an active upload holds at least the acknowledged bytes and exactly them once all are
  received, an upload that is finalizing or completed names a file of its own account, object
  files have their shard directories, and no two object rows share an identifier or a key.
\<close>

theorem service_invariant:
  "service_ok (sql_lower (sv_externals v)) (fold (upkeep_step v) es (empty_store us m dirs))"
  by (rule upkeep.run_inv [OF empty_service_ok])

text \<open>
  C17. A maintenance pass loses nothing but expired trash, also when it fails half-way: an entry
  disappears only at or below one that has been in the trash for the retention period, a file
  that stays keeps all its versions, and every object that a version or a finalizing upload
  still refers to has the same payload on the volume as before, although the pass removes
  staging files, object rows and object files.
\<close>

theorem maintenance_keeps_data:
  assumes "store_ok lower s" and "objects_ok s"
  shows "tidies c (deleted_before (now - int (ms_trash_retention_days settings) * one_day)) s (fst (run_once c settings now s))"
  using run_once_sound [of lower c now settings s] assms by (simp add: sound_step_def)

text \<open>
  C18. The loop that empties the trash ends, and it does what it is asked for: the request
  succeeds, and unless five thousand roots have been purged nothing of the account is left in
  the trash; what disappears was at or below an entry that the account had put into the trash,
  and whatever is still referred to keeps its payload.
\<close>

theorem purge_trash_empties:
  assumes "store_ok lower s" and "objects_ok s" and csrf: "require_request_csrf x hs user settings = Inr ()"
    and p: "purge_trash x settings c user hs ids (Some True) s = (s', r)"
  shows "(\<exists>roots n. r = Inr (roots, n) \<and> (5000 \<le> roots
      \<or> (\<forall>e \<in> set (entries (st_db s')). ent_owner e = au_id user \<longrightarrow> ent_deleted_at e = None)))
    \<and> tidies c (trashed_of (au_id user)) s s'"
proof -
  obtain t where t: "snd (purge_all c (au_id user) (au_id user) \<lparr>tpr_roots = 0, tpr_entries = 0\<rparr> s) = Inr t"
    "5000 \<le> tpr_roots t \<or> (\<forall>e \<in> set (entries (st_db (fst (purge_all c (au_id user) (au_id user) \<lparr>tpr_roots = 0, tpr_entries = 0\<rparr> s)))).
        \<not> trashed_of (au_id user) e)"
    using purge_all_sound [OF assms(1,2)] by blast
  have "purge_all c (au_id user) (au_id user) \<lparr>tpr_roots = 0, tpr_entries = 0\<rparr> s = (s', Inr t)"
    "r = Inr (tpr_roots t, tpr_entries t)"
    using p csrf t(1) by (auto simp: purge_trash_def purge_trash_roots_def Let_def split_def prod_eq_iff)
  moreover have "tidies c (trashed_of (au_id user)) s s'"
    using purge_trash_sound [OF assms(1,2), of c user x settings hs ids "Some True"] assms(1,2) p by (simp add: sound_step_def)
  ultimately show ?thesis using t(2) by (auto simp: trashed_of_def)
qed

section \<open>A store with trash\<close>

definition sample_service :: service where
  "sample_service = \<lparr>sv_externals = sample_externals, sv_auth = sample_settings, sv_storage = sample_local,
     sv_transfers = sample_limits, sv_uuid = sample_crate, sv_collate = (\<lambda>_. 0)\<rparr>"

definition trashed_store :: store where
  "trashed_store = store_step sample_service (DriveRequest (TrashEntry (sample_actor 1) [] 5 10)) (sample_store 0 [])"

lemma trashed_store_ok: "store_ok (sql_lower sample_externals) trashed_store" "objects_ok trashed_store"
proof -
  have ok: "store_ok (sql_lower sample_externals) (sample_store 0 [])" by (rule sample_store_ok) simp_all
  have o: "objects_ok (sample_store 0 [])" by (simp add: objects_ok_def sample_store_defs)
  show "store_ok (sql_lower sample_externals) trashed_store" "objects_ok trashed_store"
    using store_step_ok [of sample_service "sample_store 0 []"] store_step_objects [of sample_service "sample_store 0 []"] ok o
    by (simp_all add: trashed_store_def sample_service_def del: store_step.simps sample_lower)
qed

lemma trashed_entries:
  "entries (st_db trashed_store) =
     update_where (\<lambda>e. ent_id e = 10) (\<lambda>e. e\<lparr>ent_deleted_at := Some 5, ent_updated_at := 5\<rparr>) sample_entries"
  by (simp add: trashed_store_def sample_service_def sample_store_def sample_upload_def sample_volume_def
      trash_entry_def rollback_def trash_owned_entry_def add_audit_def drop_subtree_access_def revoke_subtree_shares_def run_defs)

theorem maintenance_keeps_data_witness:
  "set (entries (st_db trashed_store))
     \<subseteq> set (entries (st_db (fst (run_once sample_crate \<lparr>ms_trash_retention_days = 1, ms_upload_session_ttl_seconds = 60\<rparr> 6 trashed_store))))"
proof -
  let ?s' = "fst (run_once sample_crate \<lparr>ms_trash_retention_days = 1, ms_upload_session_ttl_seconds = 60\<rparr> 6 trashed_store)"
  have keep: "tidies sample_crate (deleted_before (6 - one_day)) trashed_store ?s'"
    using maintenance_keeps_data [OF trashed_store_ok, of sample_crate 6 "\<lparr>ms_trash_retention_days = 1, ms_upload_session_ttl_seconds = 60\<rparr>"]
    by simp
  have "\<not> deleted_before (6 - one_day) e" if "e \<in> set (entries (st_db trashed_store))" for e
    using that by (auto simp: trashed_entries deleted_before_def update_where_def sample_entries_def new_entry_def)
  then show ?thesis using tidiesD(3) [OF keep] by blast
qed

theorem purge_trash_empties_witness:
  "\<exists>s' roots n. purge_trash sample_externals sample_settings sample_crate (sample_actor 1) [] None (Some True) trashed_store
       = (s', Inr (roots, n)) \<and> tidies sample_crate (trashed_of 1) trashed_store s'"
proof -
  obtain s' r where p: "purge_trash sample_externals sample_settings sample_crate (sample_actor 1) [] None (Some True) trashed_store = (s', r)"
    by (cases "purge_trash sample_externals sample_settings sample_crate (sample_actor 1) [] None (Some True) trashed_store")
  from purge_trash_empties [OF trashed_store_ok _ p] p show ?thesis by auto
qed

end
