(* ===== verification/Developer.thy ===== *)
theory Developer
  imports Shares
begin

text \<open>
  The developer API of \<open>src/developer.rs\<close>: keys with scopes, the middleware that
  authenticates and meters the requests under \<open>/api/v1/\<close>, revocation, and the request
  log with its statistics. The rest of the router is the argument \<open>next\<close> of the middleware:
  it gets the user the middleware puts into the request, and returns the status and the number
  of body bytes it has read.
\<close>

section \<open>Scopes\<close>

definition SCOPES :: "string list" where
  "SCOPES = [''drive:read'', ''drive:write'', ''photos:read'', ''photos:write'', ''shares:read'', ''shares:write'']"

definition scope_for :: "string \<Rightarrow> string \<Rightarrow> string option" where
  "scope_for full_path m =
     (case strip_prefix ''/api/v1'' full_path of
        None \<Rightarrow> None
      | Some path \<Rightarrow>
          let read = (m = ''GET'' \<or> m = ''HEAD'') in
          if starts_with path ''/public/'' \<or> starts_with path ''/admin/'' \<or> starts_with path ''/faces/'' then None
          else if path = ''/photos'' \<or> starts_with path ''/albums'' \<or> path = ''/library/photos-folder''
             \<or> path = ''/photos/uploads''
          then Some (if read then ''photos:read'' else ''photos:write'')
          else if path = ''/shares'' \<or> starts_with path ''/shares/''
          then Some (if read then ''shares:read'' else ''shares:write'')
          else if starts_with path ''/drive'' \<or> path = ''/folders'' \<or> starts_with path ''/entries/''
             \<or> starts_with path ''/files/'' \<or> starts_with path ''/uploads'' \<or> path = ''/storage''
          then Some (if read then ''drive:read'' else ''drive:write'')
          else None)"

section \<open>The middleware\<close>

text \<open>The row of the key and of its owner.\<close>

definition key_owner :: "db \<Rightarrow> api_key_row \<Rightarrow> user_row option" where
  "key_owner s k =
     (case find_row usr_id (apk_owner k) (users s) of
        None \<Rightarrow> None
      | Some u \<Rightarrow> if usr_disabled_at u = None \<and> \<not> usr_must_change_password u then Some u else None)"

definition find_key :: "externals \<Rightarrow> instant \<Rightarrow> string \<Rightarrow> db \<Rightarrow> (api_key_row \<times> user_row) option" where
  "find_key x now token s =
     (case find (\<lambda>k. apk_token_digest k = sha256 x token \<and> live_key now k \<and> key_owner s k \<noteq> None) (api_keys s) of
        None \<Rightarrow> None
      | Some k \<Rightarrow> map_option (\<lambda>u. (k, u)) (key_owner s k))"

text \<open>The counter of a key: a window of at least a minute, started by the first request after it.\<close>

definition count_request :: "instant \<Rightarrow> api_key_row \<Rightarrow> api_key_row" where
  "count_request now k =
     (if apk_rate_window k < now - seconds 60
      then k\<lparr>apk_last_used_at := Some now, apk_rate_count := 1, apk_rate_window := now\<rparr>
      else k\<lparr>apk_last_used_at := Some now, apk_rate_count := apk_rate_count k + 1\<rparr>)"

definition countable :: "uuid \<Rightarrow> api_key_row \<Rightarrow> bool" where
  "countable i k \<longleftrightarrow> apk_id k = i \<and> apk_revoked_at k = None"

definition count_key :: "instant \<Rightarrow> uuid \<Rightarrow> db \<Rightarrow> db_error + db \<times> int option" where
  "count_key now i s =
     (case find (countable i) (api_keys s) of
        None \<Rightarrow> Inr (s, None)
      | Some k \<Rightarrow>
          bindE (guardE (apk_rate_count (count_request now k) < 2 ^ 31) OtherDbError) (\<lambda>_.
            Inr (s\<lparr>api_keys := update_where (countable i) (count_request now) (api_keys s)\<rparr>,
                 Some (apk_rate_count (count_request now k)))))"

record api_request =
  rq_path :: string
  rq_method :: string
  rq_route :: "string option"
  rq_headers :: headers
  rq_now :: instant
  rq_elapsed_ms :: nat
  rq_logged_at :: instant
  rq_log_id :: int

type_synonym handler = "auth_user option \<Rightarrow> db \<Rightarrow> db \<times> nat \<times> nat"

fun error_status :: "api_error \<Rightarrow> nat" where
  "error_status (ApiError status code n) = status"
| "error_status Panicked = 500"

text \<open>A line that cannot be written is dropped.\<close>

definition record_log :: "api_request \<Rightarrow> api_key_row \<Rightarrow> nat \<Rightarrow> nat \<Rightarrow> db \<Rightarrow> db" where
  "record_log q k status consumed s =
     (if apk_owner k \<in> usr_id ` set (users s) \<and> apk_id k \<in> apk_id ` set (api_keys s)
      then s\<lparr>api_logs := api_logs s @ [\<lparr>log_id = rq_log_id q, log_owner = apk_owner k, log_key = apk_id k,
               log_method = rq_method q,
               log_route = (case rq_route q of None \<Rightarrow> ''/api/v1/unknown'' | Some r \<Rightarrow> r),
               log_status = status, log_duration_ms = min (rq_elapsed_ms q) (2 ^ 63 - 1),
               log_request_bytes = min consumed (2 ^ 63 - 1), log_created_at = rq_logged_at q\<rparr>]\<rparr>
      else s)"

definition api_token :: "headers \<Rightarrow> string option" where
  "api_token hs =
     (case header_str hs ''authorization'' of
        None \<Rightarrow> None
      | Some h \<Rightarrow>
          (case strip_prefix ''Bearer '' h of
             None \<Rightarrow> None
           | Some token \<Rightarrow> if length token \<noteq> 47 \<or> \<not> starts_with token ''mdk_'' then None else Some token))"

definition invalid_api_key :: api_error where
  "invalid_api_key = api_error 401 ''invalid_api_key''"

text \<open>The request of a known key: its result, and the bytes it has read.\<close>

definition run_metered :: "string \<Rightarrow> api_key_row \<Rightarrow> user_row \<Rightarrow> int option \<Rightarrow> handler \<Rightarrow> db
    \<Rightarrow> db \<times> (api_error + nat) \<times> nat" where
  "run_metered scope k u hits next s =
     (case hits of
        None \<Rightarrow> (s, Inl invalid_api_key, 0)
      | Some n \<Rightarrow>
          if 120 < n then (s, Inl (with_interval 429 ''rate_limit_exceeded'' 60), 0)
          else if scope \<notin> set (apk_scopes k) then (s, Inl (api_error 403 ''insufficient_scope''), 0)
          else (case next (Some (from_api (apk_owner k) (apk_id k) (usr_email u) (usr_role u))) s of
                  (s1, status, consumed) \<Rightarrow> (s1, Inr status, consumed)))"

definition authenticate :: "externals \<Rightarrow> api_request \<Rightarrow> handler \<Rightarrow> db \<Rightarrow> db \<times> (api_error + nat)" where
  "authenticate x q next s =
     (if \<not> starts_with (rq_path q) ''/api/v1/'' then (case next None s of (s1, status, _) \<Rightarrow> (s1, Inr status))
      else case scope_for (rq_path q) (rq_method q) of
        None \<Rightarrow> (s, Inl (api_error 404 ''not_found''))
      | Some scope \<Rightarrow>
          (case api_token (rq_headers q) of
             None \<Rightarrow> (s, Inl invalid_api_key)
           | Some token \<Rightarrow>
               (case find_key x (rq_now q) token s of
                  None \<Rightarrow> (s, Inl invalid_api_key)
                | Some (k, u) \<Rightarrow>
                    (case count_key (rq_now q) (apk_id k) s of
                       Inl e \<Rightarrow> (s, Inl (db_unavailable e))
                     | Inr (s1, hits) \<Rightarrow>
                         (case run_metered scope k u hits next s1 of
                            (s2, r, consumed) \<Rightarrow>
                              (record_log q k (case r of Inl e \<Rightarrow> error_status e | Inr status \<Rightarrow> status) consumed s2, r))))))"

section \<open>Keys\<close>

record key_summary =
  ks_id :: uuid
  ks_owner :: uuid
  ks_name :: ustr
  ks_prefix :: string
  ks_scopes :: "string list"
  ks_created_at :: instant
  ks_expires_at :: "instant option"
  ks_revoked_at :: "instant option"
  ks_last_used_at :: "instant option"

definition key_json :: "api_key_row \<Rightarrow> key_summary" where
  "key_json k = \<lparr>ks_id = apk_id k, ks_owner = apk_owner k, ks_name = apk_name k, ks_prefix = apk_prefix k,
     ks_scopes = apk_scopes k, ks_created_at = apk_created_at k, ks_expires_at = apk_expires_at k,
     ks_revoked_at = apk_revoked_at k, ks_last_used_at = apk_last_used_at k\<rparr>"

definition keys_page :: "auth_user \<Rightarrow> int option \<Rightarrow> db \<Rightarrow> api_error + key_summary list \<times> int option" where
  "keys_page user page s =
     (let offset = (case page of None \<Rightarrow> 0 | Some n \<Rightarrow> n) in
      if \<not> (0 \<le> offset \<and> offset \<le> 1000000) then Inl (api_error 400 ''invalid_request'')
      else
        let rows = take 101 (drop (nat offset) (sort_key (\<lambda>k. - apk_created_at k) (sort_key apk_id
                     (filter (\<lambda>k. apk_owner k = au_id user) (api_keys s)))));
            has_more = 100 < length rows
        in Inr (map key_json (if has_more then butlast rows else rows), if has_more then Some (offset + 100) else None))"

record new_key =
  nk_name :: ustr
  nk_scopes :: "string list"
  nk_expires_at :: "instant option"

record key_env =
  ke_now :: instant
  ke_raw :: "bytes option"
  ke_id :: uuid

definition acceptable_key :: "instant \<Rightarrow> new_key \<Rightarrow> bool" where
  "acceptable_key now q \<longleftrightarrow>
     trim (nk_name q) \<noteq> [] \<and> length (trim (nk_name q)) \<le> 100 \<and> nk_scopes q \<noteq> [] \<and> length (nk_scopes q) \<le> 6
     \<and> set (nk_scopes q) \<subseteq> set SCOPES \<and> (case nk_expires_at q of None \<Rightarrow> True | Some d \<Rightarrow> \<not> d \<le> now)"

definition insert_api_key :: "api_key_row \<Rightarrow> db \<Rightarrow> db_error + db" where
  "insert_api_key k s =
     bindE (guardE (1 \<le> length (apk_name k) \<and> length (apk_name k) \<le> 100 \<and> length (apk_token_digest k) = 32) CheckViolation) (\<lambda>_.
     bindE (guardE (\<forall>r \<in> set (api_keys s). apk_id r \<noteq> apk_id k \<and> apk_token_digest r \<noteq> apk_token_digest k) UniqueViolation) (\<lambda>_.
     bindE (guardE (apk_owner k \<in> usr_id ` set (users s)) ForeignKeyViolation) (\<lambda>_.
       Inr (s\<lparr>api_keys := api_keys s @ [k]\<rparr>))))"

definition create_key :: "externals \<Rightarrow> auth_settings \<Rightarrow> key_env \<Rightarrow> auth_user \<Rightarrow> headers \<Rightarrow> new_key \<Rightarrow> db
    \<Rightarrow> (uuid \<times> string) outcome" where
  "create_key x settings env user hs q s =
     rollback s
      (bindE (guardE (require_csrf x hs user settings) (api_error 403 ''csrf_failed'')) (\<lambda>_.
       bindE (guardE (acceptable_key (ke_now env) q) (api_error 400 ''invalid_request'')) (\<lambda>_.
       bindE (okOr (ke_raw env) (api_error 503 ''service_unavailable'')) (\<lambda>raw.
       let token = ''mdk_'' @ b64_encode x raw in
       bindE (guardE (\<not> 50 \<le> length (filter (\<lambda>k. apk_owner k = au_id user \<and> live_key (ke_now env) k) (api_keys s)))
                (api_error 409 ''key_limit_reached'')) (\<lambda>_.
       bindE (mapErr db_unavailable (insert_api_key
                \<lparr>apk_id = ke_id env, apk_owner = au_id user, apk_name = trim (nk_name q), apk_token_digest = sha256 x token,
                 apk_prefix = take 12 token, apk_scopes = nk_scopes q, apk_created_at = ke_now env,
                 apk_expires_at = nk_expires_at q, apk_revoked_at = None, apk_last_used_at = None,
                 apk_rate_window = ke_now env, apk_rate_count = 0\<rparr> s)) (\<lambda>s1.
         Inr (add_audit ''api_key_created'' (Some (au_id user)) (Some (ke_id env)) s1, (ke_id env, token))))))))"

text \<open>Revocation of a key, of the shares made with it, or of both.\<close>

definition made_with :: "uuid \<Rightarrow> uuid \<Rightarrow> share_row \<Rightarrow> bool" where
  "made_with i owner r \<longleftrightarrow> shr_api_key r = Some i \<and> shr_owner r = owner"

definition revoke_api_key :: "instant \<Rightarrow> uuid \<Rightarrow> db \<Rightarrow> db" where
  "revoke_api_key now i s =
     s\<lparr>api_keys := update_where (\<lambda>k. apk_id k = i)
          (\<lambda>k. k\<lparr>apk_revoked_at := (case apk_revoked_at k of None \<Rightarrow> Some now | Some t \<Rightarrow> Some t)\<rparr>) (api_keys s)\<rparr>"

definition revoke_made_shares :: "instant \<Rightarrow> uuid \<Rightarrow> uuid \<Rightarrow> db \<Rightarrow> db" where
  "revoke_made_shares now i owner s =
     s\<lparr>shares := update_where (\<lambda>r. made_with i owner r \<and> shr_revoked_at r = None)
                  (\<lambda>r. r\<lparr>shr_revoked_at := Some now\<rparr>) (shares s),
       access_sessions := filter (\<lambda>a. \<not> list_ex (\<lambda>r. shr_id r = acc_share a \<and> made_with i owner r) (shares s))
                            (access_sessions s)\<rparr>"

definition revoke :: "externals \<Rightarrow> auth_settings \<Rightarrow> instant \<Rightarrow> auth_user \<Rightarrow> headers \<Rightarrow> uuid \<Rightarrow> bool \<Rightarrow> bool \<Rightarrow> db
    \<Rightarrow> nat outcome" where
  "revoke x settings now user hs i key_too shares_too s =
     rollback s
      (bindE (guardE (require_csrf x hs user settings) (api_error 403 ''csrf_failed'')) (\<lambda>_.
       bindE (guardE (list_ex (\<lambda>k. apk_id k = i \<and> apk_owner k = au_id user) (api_keys s)) (api_error 404 ''not_found'')) (\<lambda>_.
       let s1 = (if key_too then revoke_api_key now i s else s);
           affected = (if shares_too then length (filter (\<lambda>r. made_with i (au_id user) r \<and> shr_revoked_at r = None) (shares s1)) else 0);
           s2 = (if shares_too then revoke_made_shares now i (au_id user) s1 else s1)
       in Inr (add_audit ''api_key_revocation'' (Some (au_id user)) (Some i) s2, affected))))"

definition revoke_key :: "externals \<Rightarrow> auth_settings \<Rightarrow> instant \<Rightarrow> auth_user \<Rightarrow> headers \<Rightarrow> uuid \<Rightarrow> bool \<Rightarrow> db \<Rightarrow> nat outcome" where
  "revoke_key x settings now user hs i shares_too s = revoke x settings now user hs i True shares_too s"

definition revoke_key_shares :: "externals \<Rightarrow> auth_settings \<Rightarrow> instant \<Rightarrow> auth_user \<Rightarrow> headers \<Rightarrow> uuid \<Rightarrow> db \<Rightarrow> nat outcome" where
  "revoke_key_shares x settings now user hs i s = revoke x settings now user hs i False True s"

section \<open>Statistics\<close>

record usage_query =
  uq_all :: "bool option"
  uq_owner :: "uuid option"
  uq_key :: "uuid option"
  uq_days :: "int option"
  uq_before :: "int option"

definition visibility :: "auth_user \<Rightarrow> usage_query \<Rightarrow> api_error + uuid option" where
  "visibility user q =
     (if uq_all q = Some True \<or> (case uq_owner q of None \<Rightarrow> False | Some i \<Rightarrow> i \<noteq> au_id user) then
        if \<not> (au_role user = Owner \<or> au_role user = Admin) then Inl (api_error 403 ''forbidden'')
        else Inr (uq_owner q)
      else Inr (Some (au_id user)))"

definition selected :: "uuid option \<Rightarrow> uuid option \<Rightarrow> api_log_row \<Rightarrow> bool" where
  "selected owner key l \<longleftrightarrow> (case owner of None \<Rightarrow> True | Some i \<Rightarrow> log_owner l = i)
     \<and> (case key of None \<Rightarrow> True | Some i \<Rightarrow> log_key l = i)"

record daily_usage =
  du_day :: int
  du_requests :: nat
  du_errors :: nat
  du_request_bytes :: nat
  du_avg_duration_ms :: nat

record user_usage =
  uu_owner :: uuid
  uu_email :: ustr
  uu_requests :: nat
  uu_errors :: nat
  uu_request_bytes :: nat

text \<open>The UTC day of an instant, as the number of days since 1970; the average is rounded half up.\<close>

definition utc_day :: "instant \<Rightarrow> int" where
  "utc_day t = t div seconds 86400"

definition daily_of :: "api_log_row list \<Rightarrow> int \<Rightarrow> daily_usage" where
  "daily_of ls day =
     (let g = filter (\<lambda>l. utc_day (log_created_at l) = day) ls; n = length g in
      \<lparr>du_day = day, du_requests = n, du_errors = length (filter (\<lambda>l. 400 \<le> log_status l) g),
       du_request_bytes = sum_list (map log_request_bytes g),
       du_avg_duration_ms = (2 * sum_list (map log_duration_ms g) + n) div (2 * n)\<rparr>)"

definition usage_by :: "api_log_row list \<Rightarrow> user_row \<Rightarrow> user_usage" where
  "usage_by ls u =
     (let g = filter (\<lambda>l. log_owner l = usr_id u) ls in
      \<lparr>uu_owner = usr_id u, uu_email = usr_email u, uu_requests = length g,
       uu_errors = length (filter (\<lambda>l. 400 \<le> log_status l) g), uu_request_bytes = sum_list (map log_request_bytes g)\<rparr>)"

definition usage :: "instant \<Rightarrow> auth_user \<Rightarrow> usage_query \<Rightarrow> db \<Rightarrow> api_error + daily_usage list \<times> user_usage list \<times> int" where
  "usage now user q s =
     bindE (visibility user q) (\<lambda>owner.
     let days = (case uq_days q of None \<Rightarrow> 30 | Some d \<Rightarrow> d) in
     bindE (guardE (1 \<le> days \<and> days \<le> 90) (api_error 400 ''invalid_request'')) (\<lambda>_.
     let ls = filter (\<lambda>l. selected owner (uq_key q) l \<and> now - days * seconds 86400 \<le> log_created_at l) (api_logs s);
         us = filter (\<lambda>u. usr_id u \<in> log_owner ` set ls) (users s)
     in Inr (map (daily_of ls) (sort (remdups (map (\<lambda>l. utc_day (log_created_at l)) ls))),
             take 500 (sort_key (\<lambda>r. - int (uu_requests r)) (map (usage_by ls) us)), days)))"

definition logs :: "auth_user \<Rightarrow> usage_query \<Rightarrow> db \<Rightarrow> api_error + api_log_row list \<times> int option" where
  "logs user q s =
     bindE (visibility user q) (\<lambda>owner.
     let rows = take 101 (rev (sort_key log_id (filter (\<lambda>l. selected owner (uq_key q) l
                  \<and> (case uq_before q of None \<Rightarrow> True | Some b \<Rightarrow> log_id l < b)) (api_logs s))));
         has_more = 100 < length rows;
         page = (if has_more then butlast rows else rows)
     in Inr (page, if has_more then Some (log_id (last page)) else None))"

end
