(* ===== verification/Developer_Results.thy ===== *)
theory Developer_Results
  imports Developer Devices
begin

text \<open>
  What the developer API guarantees: a request passes the middleware only with a live key that
  has the scope of the route, a key passes a bounded number of requests per minute, a created
  key works, and a revoked one never works again.
\<close>

section \<open>Scopes\<close>

lemma scope_for_Some:
  assumes "scope_for p m = Some sc"
  obtains path where "p = ''/api/v1'' @ path" and "sc \<in> set SCOPES"
    and "\<not> starts_with path ''/public/''" and "\<not> starts_with path ''/admin/''" and "\<not> starts_with path ''/faces/''"
    and "m = ''GET'' \<or> m = ''HEAD'' \<or> sc \<in> {''drive:write'', ''photos:write'', ''shares:write''}"
proof -
  obtain path where p: "strip_prefix ''/api/v1'' p = Some path"
    using assms by (cases "strip_prefix ''/api/v1'' p") (simp_all add: scope_for_def)
  let ?read = "m = ''GET'' \<or> m = ''HEAD''"
  have bad: "\<not> (starts_with path ''/public/'' \<or> starts_with path ''/admin/'' \<or> starts_with path ''/faces/'')"
    using assms p by (auto simp: scope_for_def Let_def split: if_splits)
  have "sc = (if ?read then ''photos:read'' else ''photos:write'') \<or> sc = (if ?read then ''shares:read'' else ''shares:write'')
      \<or> sc = (if ?read then ''drive:read'' else ''drive:write'')"
    using assms p bad unfolding scope_for_def Let_def by (auto split: if_split_asm)
  then have "sc \<in> set SCOPES" "?read \<or> sc \<in> {''drive:write'', ''photos:write'', ''shares:write''}"
    by (cases ?read; auto simp: SCOPES_def)+
  then show thesis using that [of path] p bad by (simp add: strip_prefix_Some_iff)
qed

section \<open>The middleware\<close>

lemma find_key_Some:
  assumes "find_key x now token s = Some (k, u)"
  shows "k \<in> set (api_keys s)" and "apk_token_digest k = sha256 x token" and "live_key now k" and "key_owner s k = Some u"
  using assms by (auto simp: find_key_def split: option.splits dest: find_SomeD)

lemma key_owner_Some:
  assumes "key_owner s k = Some u"
  shows "u \<in> set (users s)" and "usr_id u = apk_owner k" and "usr_disabled_at u = None" and "\<not> usr_must_change_password u"
  using assms by (auto simp: key_owner_def split: option.splits if_splits dest: find_row_Some)

lemma count_request_frame [simp]:
  "apk_id (count_request now k) = apk_id k" "apk_token_digest (count_request now k) = apk_token_digest k"
  "apk_revoked_at (count_request now k) = apk_revoked_at k" "apk_owner (count_request now k) = apk_owner k"
  "apk_scopes (count_request now k) = apk_scopes k" "apk_expires_at (count_request now k) = apk_expires_at k"
  by (simp_all add: count_request_def)

lemma record_log_frame: "record_log q k n c s = s\<lparr>api_logs := api_logs (record_log q k n c s)\<rparr>"
  by (simp add: record_log_def)

lemma record_log_keys [simp]: "api_keys (record_log q k n c s) = api_keys s" "users (record_log q k n c s) = users s"
  by (simp_all add: record_log_def)

text \<open>The cases of a request under \<open>/api/v1/\<close>.\<close>

lemma authenticate_cases:
  assumes a: "authenticate x q next s = (s', r)" and p: "starts_with (rq_path q) ''/api/v1/''"
  obtains (refused) e where "r = Inl e" and "s' = s"
  | (uncounted) scope token k u s1 e where "scope_for (rq_path q) (rq_method q) = Some scope" "api_token (rq_headers q) = Some token"
      "find_key x (rq_now q) token s = Some (k, u)" "count_key (rq_now q) (apk_id k) s = Inr (s1, None)"
      "r = Inl e" "\<exists>n c. s' = record_log q k n c s1"
  | (counted) scope token k u s1 n s2 c where "scope_for (rq_path q) (rq_method q) = Some scope" "api_token (rq_headers q) = Some token"
      "find_key x (rq_now q) token s = Some (k, u)" "count_key (rq_now q) (apk_id k) s = Inr (s1, Some n)"
      "run_metered scope k u (Some n) next s1 = (s2, r, c)" "\<exists>st. s' = record_log q k st c s2"
proof (cases "scope_for (rq_path q) (rq_method q)")
  case None
  then show thesis using a p by (auto simp: authenticate_def intro: refused)
next
  case sc: (Some scope)
  show thesis
  proof (cases "api_token (rq_headers q)")
    case None
    then show thesis using a p sc by (auto simp: authenticate_def intro: refused)
  next
    case tok: (Some token)
    show thesis
    proof (cases "find_key x (rq_now q) token s")
      case None
      then show thesis using a p sc tok by (auto simp: authenticate_def intro: refused)
    next
      case (Some ku)
      obtain k u where ku: "find_key x (rq_now q) token s = Some (k, u)" using Some by (cases ku) simp
      show thesis
      proof (cases "count_key (rq_now q) (apk_id k) s")
        case (Inl e)
        then show thesis using a p sc tok ku by (auto simp: authenticate_def intro: refused)
      next
        case (Inr v)
        obtain s1 n where v: "count_key (rq_now q) (apk_id k) s = Inr (s1, n)" using Inr by (cases v) simp
        obtain s2 r2 c where m: "run_metered scope k u n next s1 = (s2, r2, c)" by (cases "run_metered scope k u n next s1")
        have eq: "r2 = r" "\<exists>st. s' = record_log q k st c s2" using a p sc tok ku v m by (auto simp: authenticate_def)
        show thesis
        proof (cases n)
          case None
          then have "s2 = s1" "r = Inl invalid_api_key" using m eq(1) by (auto simp: run_metered_def)
          then show thesis using uncounted [OF sc tok ku _ _ ] v None eq(2) by blast
        next
          case (Some i)
          then show thesis using counted [OF sc tok ku] v m eq by blast
        qed
      qed
    qed
  qed
qed

lemma count_key_Inr:
  assumes "count_key now i s = Inr (s1, n)"
  obtains "n = None" and "s1 = s"
  | k where "n = Some (apk_rate_count (count_request now k))" and "k \<in> set (api_keys s)" and "apk_id k = i" and "apk_revoked_at k = None"
      and "s1 = s\<lparr>api_keys := update_where (countable i) (count_request now) (api_keys s)\<rparr>"
proof (cases "find (countable i) (api_keys s)")
  case None
  then show thesis using assms that(1) by (simp add: count_key_def)
next
  case (Some k)
  have "k \<in> set (api_keys s)" "apk_id k = i" "apk_revoked_at k = None"
    using find_SomeD [OF Some] by (simp_all add: countable_def)
  moreover have "n = Some (apk_rate_count (count_request now k))"
      "s1 = s\<lparr>api_keys := update_where (countable i) (count_request now) (api_keys s)\<rparr>"
    using assms Some by (auto simp: count_key_def bindE_Inr_iff)
  ultimately show thesis by (intro that(2))
qed

lemma run_metered_Inr:
  assumes "run_metered scope k u (Some n) next s = (s', Inr status, c)"
  shows "n \<le> 120" and "scope \<in> set (apk_scopes k)"
    and "next (Some (from_api (apk_owner k) (apk_id k) (usr_email u) (usr_role u))) s = (s', status, c)"
  using assms by (auto simp: run_metered_def split: if_splits prod.splits)

lemma run_metered_Inl:
  assumes "run_metered scope k u (Some n) next s = (s', Inl e, c)"
  shows "s' = s"
  using assms by (auto simp: run_metered_def split: if_splits prod.splits)

text \<open>
  A request is metered when the only difference it makes is in the counter columns (last use,
  window and count) of the key \<open>i\<close>: every other column of that key and every other key is
  the same, in the same order, and no other table changes.
\<close>

definition only_counters :: "uuid \<Rightarrow> api_key_row \<Rightarrow> api_key_row \<Rightarrow> bool" where
  "only_counters i k k' \<longleftrightarrow>
     (if apk_id k = i
      then k' = k\<lparr>apk_last_used_at := apk_last_used_at k', apk_rate_window := apk_rate_window k', apk_rate_count := apk_rate_count k'\<rparr>
      else k' = k)"

definition metered :: "uuid \<Rightarrow> db \<Rightarrow> db \<Rightarrow> bool" where
  "metered i s s' \<longleftrightarrow> s' = s\<lparr>api_keys := api_keys s'\<rparr> \<and> list_all2 (only_counters i) (api_keys s) (api_keys s')"

lemma metered_refl: "metered i s s"
  by (simp add: metered_def only_counters_def list_all2_refl)

lemma count_key_metered:
  assumes "count_key now i s = Inr (s1, n)"
  shows "metered i s s1"
  using assms
proof (cases rule: count_key_Inr)
  case (2 k)
  have "list_all2 (only_counters i) (api_keys s) (update_where (countable i) (count_request now) (api_keys s))"
    by (rule list_all2_update_where) (simp_all add: only_counters_def countable_def count_request_def)
  with 2(5) show ?thesis by (simp add: metered_def)
qed (simp_all add: metered_refl)

text \<open>The request log grows by at most one line.\<close>

definition logged :: "db \<Rightarrow> db \<Rightarrow> bool" where
  "logged s s' \<longleftrightarrow> s' = s \<or> (\<exists>l. s' = s\<lparr>api_logs := api_logs s @ [l]\<rparr>)"

lemma record_logged: "logged s (record_log q k n c s)"
  by (auto simp: logged_def record_log_def)

text \<open>The key with the token of the request, live at its instant.\<close>

definition presents_key :: "externals \<Rightarrow> api_request \<Rightarrow> api_key_row \<Rightarrow> db \<Rightarrow> bool" where
  "presents_key x q k s \<longleftrightarrow> (\<exists>token. api_token (rq_headers q) = Some token \<and> k \<in> set (api_keys s)
     \<and> apk_token_digest k = sha256 x token \<and> live_key (rq_now q) k)"

text \<open>
  C29. A request under \<open>/api/v1/\<close> reaches a handler only with the token of a key that is
  neither revoked nor expired, whose owner is neither disabled nor has to change the password,
  and that has the scope of the route; the handler then acts for that owner. The routes of
  administration, public links and faces have no scope, and methods other than GET and HEAD
  need a scope for writing. A request that is refused changes nothing, or nothing but the
  counter columns of the one key whose token it presents and one line of the request log; in
  particular no key is created, revoked, reinstated or given a scope. The handler of an
  accepted request starts from the database with just that counter changed.
\<close>

theorem api_key_confined:
  assumes a: "authenticate x q next s = (s', r)" and p: "starts_with (rq_path q) ''/api/v1/''"
  shows "case r of
      Inl e \<Rightarrow> s' = s \<or> (\<exists>k s1. presents_key x q k s \<and> metered (apk_id k) s s1 \<and> logged s1 s')
    | Inr status \<Rightarrow> (\<exists>scope k u s1 s2 c. scope_for (rq_path q) (rq_method q) = Some scope
        \<and> presents_key x q k s \<and> scope \<in> set (apk_scopes k)
        \<and> u \<in> set (users s) \<and> usr_id u = apk_owner k \<and> usr_disabled_at u = None \<and> \<not> usr_must_change_password u
        \<and> metered (apk_id k) s s1 \<and> logged s2 s'
        \<and> next (Some (from_api (apk_owner k) (apk_id k) (usr_email u) (usr_role u))) s1 = (s2, status, c)
        \<and> \<not> starts_with (rq_path q) ''/api/v1/admin/'' \<and> \<not> starts_with (rq_path q) ''/api/v1/public/''
        \<and> \<not> starts_with (rq_path q) ''/api/v1/faces/''
        \<and> (rq_method q = ''GET'' \<or> rq_method q = ''HEAD'' \<or> scope \<in> {''drive:write'', ''photos:write'', ''shares:write''}))"
  using a p
proof (cases rule: authenticate_cases)
  case (refused e)
  then show ?thesis by simp
next
  case (uncounted scope token k u s1 e)
  have "presents_key x q k s" using uncounted(2) find_key_Some [OF uncounted(3)] by (auto simp: presents_key_def)
  moreover have "logged s1 s'" using uncounted(6) record_logged by blast
  ultimately show ?thesis using uncounted(5) count_key_metered [OF uncounted(4)] by auto
next
  case (counted scope token k u s1 n s2 c)
  note f = find_key_Some [OF counted(3)]
  have k: "presents_key x q k s" using counted(2) f by (auto simp: presents_key_def)
  note m1 = count_key_metered [OF counted(4)]
  have log: "logged s2 s'" using counted(6) record_logged by blast
  show ?thesis
  proof (cases r)
    case (Inl e)
    have "s2 = s1" by (rule run_metered_Inl [OF counted(5) [unfolded Inl]])
    then show ?thesis using Inl k m1 log by auto
  next
    case (Inr status)
    note m = run_metered_Inr [OF counted(5) [unfolded Inr]]
    obtain path where path: "rq_path q = ''/api/v1'' @ path" "\<not> starts_with path ''/public/''" "\<not> starts_with path ''/admin/''"
      "\<not> starts_with path ''/faces/''"
      "rq_method q = ''GET'' \<or> rq_method q = ''HEAD'' \<or> scope \<in> {''drive:write'', ''photos:write'', ''shares:write''}"
      by (rule scope_for_Some [OF counted(1)])
    have "\<not> starts_with (rq_path q) ''/api/v1/admin/''" "\<not> starts_with (rq_path q) ''/api/v1/public/''"
      "\<not> starts_with (rq_path q) ''/api/v1/faces/''"
      using path(1-4) by (auto simp: starts_with_def)
    then show ?thesis unfolding Inr sum.case using counted(1) k key_owner_Some [OF f(4)] m(2,3) m1 log path(5) by blast
  qed
qed


section \<open>Histories of keys\<close>

text \<open>
  The handlers behind the middleware do not write the table of keys: only the developer
  routes do, and these are outside \<open>/api/v1/\<close>.
\<close>

definition keeps_keys :: "handler \<Rightarrow> handler" where
  "keeps_keys h user s = (case h user s of (s1, status, c) \<Rightarrow> (s1\<lparr>api_keys := api_keys s\<rparr>, status, c))"

datatype developer_event =
    ApiRequest api_request handler
  | CreateKey key_env auth_user headers new_key
  | RevokeKey instant auth_user headers uuid bool bool

fun developer_step :: "externals \<Rightarrow> auth_settings \<Rightarrow> developer_event \<Rightarrow> db \<Rightarrow> db" where
  "developer_step x st (ApiRequest q h) s = fst (authenticate x q (keeps_keys h) s)"
| "developer_step x st (CreateKey env user hs q) s = fst (create_key x st env user hs q s)"
| "developer_step x st (RevokeKey now user hs i key_too shares_too) s = fst (revoke x st now user hs i key_too shares_too s)"

definition keys_ok :: "db \<Rightarrow> bool" where
  "keys_ok s \<longleftrightarrow> distinct (map apk_id (api_keys s)) \<and> distinct (map apk_token_digest (api_keys s))
     \<and> list_all (\<lambda>k. 0 \<le> apk_rate_count k) (api_keys s)"

text \<open>A key and its digest, dead for good.\<close>

definition dead_key :: "uuid \<times> bytes \<Rightarrow> db \<Rightarrow> bool" where
  "dead_key d s \<longleftrightarrow> list_ex (\<lambda>k. apk_id k = fst d \<and> apk_token_digest k = snd d \<and> apk_revoked_at k \<noteq> None) (api_keys s)"

text \<open>The ways a step changes the table of keys.\<close>

definition counted_keys :: "api_key_row list \<Rightarrow> api_key_row list \<Rightarrow> bool" where
  "counted_keys ks ks' \<longleftrightarrow> ks' = ks \<or> (\<exists>i now. ks' = update_where (countable i) (count_request now) ks)"

lemma authenticate_keys:
  assumes "authenticate x q (keeps_keys h) s = (s', r)"
  shows "counted_keys (api_keys s) (api_keys s')"
proof (cases "starts_with (rq_path q) ''/api/v1/''")
  case False
  then show ?thesis using assms by (auto simp: authenticate_def keeps_keys_def counted_keys_def split: prod.splits)
next
  case True
  from assms True show ?thesis
  proof (cases rule: authenticate_cases)
    case (refused e)
    then show ?thesis by (simp add: counted_keys_def)
  next
    case (uncounted scope token k u s1 e)
    from uncounted(4) have "s1 = s" by (cases rule: count_key_Inr) simp_all
    then show ?thesis using uncounted(6) by (auto simp: counted_keys_def)
  next
    case (counted scope token k u s1 n s2 c)
    have "api_keys s2 = api_keys s1"
      using counted(5) by (auto simp: run_metered_def keeps_keys_def split: if_splits prod.splits)
    moreover have "api_keys s1 = update_where (countable (apk_id k)) (count_request (rq_now q)) (api_keys s)"
      using counted(4) by (cases rule: count_key_Inr) simp_all
    moreover have "api_keys s' = api_keys s2" using counted(6) by auto
    ultimately have "api_keys s' = update_where (countable (apk_id k)) (count_request (rq_now q)) (api_keys s)" by simp
    then show ?thesis unfolding counted_keys_def by blast
  qed
qed

lemma create_key_Inr:
  assumes "create_key x st env user hs q s = (s', Inr (i, token))"
  obtains raw where "ke_raw env = Some raw" and "i = ke_id env" and "token = ''mdk_'' @ b64_encode x raw" and "acceptable_key (ke_now env) q"
    and "\<forall>r \<in> set (api_keys s). apk_id r \<noteq> i \<and> apk_token_digest r \<noteq> sha256 x token"
    and "users s' = users s"
    and "api_keys s' = api_keys s @ [\<lparr>apk_id = i, apk_owner = au_id user, apk_name = trim (nk_name q), apk_token_digest = sha256 x token,
                 apk_prefix = take 12 token, apk_scopes = nk_scopes q, apk_created_at = ke_now env,
                 apk_expires_at = nk_expires_at q, apk_revoked_at = None, apk_last_used_at = None,
                 apk_rate_window = ke_now env, apk_rate_count = 0\<rparr>]"
  using assms that
  by (auto simp: create_key_def rollback_Inr_iff result_simps insert_api_key_def add_audit_def Let_def)

lemma create_key_keys:
  "api_keys (fst (create_key x st env user hs q s)) = api_keys s
   \<or> (\<exists>k. api_keys (fst (create_key x st env user hs q s)) = api_keys s @ [k] \<and> apk_rate_count k = 0
        \<and> (\<forall>r \<in> set (api_keys s). apk_id r \<noteq> apk_id k \<and> apk_token_digest r \<noteq> apk_token_digest k))"
proof (cases "create_key x st env user hs q s")
  case (Pair s' r)
  show ?thesis
  proof (cases r)
    case (Inl e)
    then show ?thesis using Pair by (auto simp: create_key_def rollback_Inl_iff)
  next
    case (Inr v)
    obtain i token where "create_key x st env user hs q s = (s', Inr (i, token))" using Pair Inr by (cases v) simp
    then show ?thesis using Pair by (cases rule: create_key_Inr) auto
  qed
qed

lemma revoke_keys:
  "api_keys (fst (revoke x st now user hs i key_too shares_too s)) = api_keys s
   \<or> api_keys (fst (revoke x st now user hs i key_too shares_too s)) = api_keys (revoke_api_key now i s)"
  by (cases "revoke x st now user hs i key_too shares_too s")
     (auto simp: revoke_def rollback_def result_simps revoke_api_key_def revoke_made_shares_def add_audit_def Let_def guardE_def
       split: if_splits)


lemma keys_ok_update:
  assumes "keys_ok s" and "api_keys s' = update_where p f (api_keys s)"
    and "\<And>k. apk_id (f k) = apk_id k" and "\<And>k. apk_token_digest (f k) = apk_token_digest k"
    and "\<And>k. 0 \<le> apk_rate_count k \<Longrightarrow> 0 \<le> apk_rate_count (f k)"
  shows "keys_ok s'"
  using assms by (auto simp: keys_ok_def map_key_update_where row_simps list_all_iff)

lemma dead_keyI:
  "k \<in> set (api_keys s) \<Longrightarrow> apk_id k = fst d \<Longrightarrow> apk_token_digest k = snd d \<Longrightarrow> apk_revoked_at k \<noteq> None \<Longrightarrow> dead_key d s"
  by (auto simp: dead_key_def list_ex_iff)

lemma dead_key_update:
  assumes "dead_key d s" and "api_keys s' = update_where p f (api_keys s)"
    and "\<And>k. apk_id (f k) = apk_id k" and "\<And>k. apk_token_digest (f k) = apk_token_digest k"
    and "\<And>k. apk_revoked_at k \<noteq> None \<Longrightarrow> apk_revoked_at (f k) \<noteq> None"
  shows "dead_key d s'"
proof -
  obtain k where k: "k \<in> set (api_keys s)" "apk_id k = fst d" "apk_token_digest k = snd d" "apk_revoked_at k \<noteq> None"
    using assms(1) by (auto simp: dead_key_def list_ex_iff)
  have "(if p k then f k else k) \<in> set (api_keys s')" using k(1) assms(2) by (auto simp: row_simps)
  then show ?thesis by (rule dead_keyI) (use k(2-4) assms(3-5) in auto)
qed

lemma count_request_nonneg: "0 \<le> apk_rate_count k \<Longrightarrow> 0 \<le> apk_rate_count (count_request now k)"
  by (simp add: count_request_def)

lemma developer_step_keys:
  assumes "keys_ok s"
  shows "keys_ok (developer_step x st e s) \<and> (dead_key d s \<longrightarrow> dead_key d (developer_step x st e s))"
proof (cases e)
  case (ApiRequest q h)
  obtain s' r where a: "authenticate x q (keeps_keys h) s = (s', r)" by (cases "authenticate x q (keeps_keys h) s")
  from authenticate_keys [OF a] consider "api_keys s' = api_keys s"
    | i now where "api_keys s' = update_where (countable i) (count_request now) (api_keys s)"
    by (auto simp: counted_keys_def)
  then have "keys_ok s' \<and> (dead_key d s \<longrightarrow> dead_key d s')"
  proof cases
    case 1
    then show ?thesis using assms by (simp add: keys_ok_def dead_key_def)
  next
    case 2
    show ?thesis using keys_ok_update [OF assms 2] dead_key_update [OF _ 2, of d] by (simp add: count_request_nonneg)
  qed
  then show ?thesis using ApiRequest a by simp
next
  case (CreateKey env user hs q)
  then show ?thesis using assms create_key_keys [of x st env user hs q s]
    by (fastforce simp: keys_ok_def dead_key_def)
next
  case (RevokeKey now user hs i key_too shares_too)
  let ?s' = "fst (revoke x st now user hs i key_too shares_too s)"
  have "keys_ok ?s' \<and> (dead_key d s \<longrightarrow> dead_key d ?s')"
    using revoke_keys [of x st now user hs i key_too shares_too s]
  proof
    assume "api_keys ?s' = api_keys s"
    then show ?thesis using assms by (simp add: keys_ok_def dead_key_def)
  next
    assume "api_keys ?s' = api_keys (revoke_api_key now i s)"
    then have k: "api_keys ?s' = update_where (\<lambda>k. apk_id k = i)
        (\<lambda>k. k\<lparr>apk_revoked_at := (case apk_revoked_at k of None \<Rightarrow> Some now | Some t \<Rightarrow> Some t)\<rparr>) (api_keys s)"
      by (simp add: revoke_api_key_def)
    show ?thesis using keys_ok_update [OF assms k] dead_key_update [OF _ k, of d] by (auto split: option.splits)
  qed
  then show ?thesis using RevokeKey by simp
qed

interpretation keys: absorbing "developer_step x st" keys_ok dead_key for x st
  using developer_step_keys by unfold_locales blast+

lemma dead_key_not_found:
  assumes "keys_ok s" and "dead_key (i, sha256 x token) s"
  shows "find_key x now token s = None"
proof (rule ccontr)
  assume "find_key x now token s \<noteq> None"
  then obtain k u where f: "find_key x now token s = Some (k, u)" by auto
  obtain k' where k': "k' \<in> set (api_keys s)" "apk_token_digest k' = sha256 x token" "apk_revoked_at k' \<noteq> None"
    using assms(2) by (auto simp: dead_key_def list_ex_iff)
  have "k = k'" using distinct_key_unique [of apk_token_digest "api_keys s" k k'] assms(1) find_key_Some(1,2) [OF f] k'
    by (auto simp: keys_ok_def)
  then show False using find_key_Some(3) [OF f] k'(3) by (simp add: live_key_def)
qed

lemma revoke_Inr_dead:
  assumes "revoke x st now user hs i True shares_too s = (s', Inr n)" and "k \<in> set (api_keys s)" and "apk_id k = i"
  shows "dead_key (i, apk_token_digest k) s'"
proof -
  have "api_keys s' = api_keys (revoke_api_key now i s)"
    using assms(1) by (auto simp: revoke_def rollback_Inr_iff result_simps revoke_made_shares_def add_audit_def Let_def)
  moreover have "k\<lparr>apk_revoked_at := (case apk_revoked_at k of None \<Rightarrow> Some now | Some t \<Rightarrow> Some t)\<rparr> \<in> set (api_keys (revoke_api_key now i s))"
    using assms(2,3) by (auto simp: revoke_api_key_def row_simps)
  ultimately have "k\<lparr>apk_revoked_at := (case apk_revoked_at k of None \<Rightarrow> Some now | Some t \<Rightarrow> Some t)\<rparr> \<in> set (api_keys s')" by simp
  then show ?thesis by (rule dead_keyI) (auto simp: assms(3) split: option.splits)
qed

lemma authenticate_unknown:
  assumes "starts_with (rq_path q) ''/api/v1/''" and "api_token (rq_headers q) = Some token" and "find_key x (rq_now q) token s = None"
  shows "fst (authenticate x q next s) = s" and "snd (authenticate x q next s) \<in> {Inl (api_error 404 ''not_found''), Inl invalid_api_key}"
  using assms by (simp_all add: authenticate_def split: option.splits)

text \<open>
  C31. Once a key is revoked, no request made with its token passes again: whatever requests, new
  keys and revocations follow, the middleware answers it with \<open>invalid_api_key\<close> (or
  \<open>not_found\<close> where the route has no scope) and leaves the database as it was.
\<close>

theorem revoked_key_refused:
  assumes ok: "keys_ok s" and r: "revoke_key x st now user hs i shares_too s = (s', Inr n)"
    and k: "k \<in> set (api_keys s)" "apk_id k = i"
    and t: "api_token (rq_headers q) = Some token" "sha256 x token = apk_token_digest k"
    and p: "starts_with (rq_path q) ''/api/v1/''"
  shows "fst (authenticate x q next (fold (developer_step x st) es s')) = fold (developer_step x st) es s'
    \<and> snd (authenticate x q next (fold (developer_step x st) es s')) \<in> {Inl (api_error 404 ''not_found''), Inl invalid_api_key}"
proof -
  have "keys_ok s'" using keys.preserved [of s x st "RevokeKey now user hs i True shares_too"] ok r by (simp add: revoke_key_def)
  moreover have "dead_key (i, sha256 x token) s'"
    using revoke_Inr_dead [of x st now user hs i shares_too s s' n k] r k t(2) by (simp add: revoke_key_def)
  ultimately have "keys_ok (fold (developer_step x st) es s')" "dead_key (i, sha256 x token) (fold (developer_step x st) es s')"
    using keys.run_inv keys.run_final by blast+
  then have "find_key x (rq_now q) token (fold (developer_step x st) es s') = None" by (rule dead_key_not_found)
  then show ?thesis using authenticate_unknown [OF p t(1)] by blast
qed


section \<open>The rate limit\<close>

text \<open>The key a request is made with, and the number of requests of a key that pass.\<close>

definition request_key :: "externals \<Rightarrow> api_request \<Rightarrow> db \<Rightarrow> uuid option" where
  "request_key x q s =
     (if starts_with (rq_path q) ''/api/v1/'' then
        case api_token (rq_headers q) of
          None \<Rightarrow> None
        | Some token \<Rightarrow> map_option (\<lambda>(k, u). apk_id k) (find_key x (rq_now q) token s)
      else None)"

fun passed :: "externals \<Rightarrow> uuid \<Rightarrow> (api_request \<times> handler) list \<Rightarrow> db \<Rightarrow> nat" where
  "passed x i [] s = 0"
| "passed x i ((q, h) # rs) s =
     (case authenticate x q (keeps_keys h) s of
        (s1, r) \<Rightarrow> (if isOk r \<and> request_key x q s = Some i then 1 else 0) + passed x i rs s1)"

text \<open>What is left of the limit in the minute after \<open>t\<close>: the counter is set back at most once.\<close>

definition allowance :: "instant \<Rightarrow> api_key_row \<Rightarrow> nat" where
  "allowance t k = nat (120 - apk_rate_count k) + (if apk_rate_window k < t then 120 else 0)"

definition key_allowance :: "instant \<Rightarrow> uuid \<Rightarrow> db \<Rightarrow> nat" where
  "key_allowance t i s = (case find_row apk_id i (api_keys s) of None \<Rightarrow> 0 | Some k \<Rightarrow> allowance t k)"

lemma allowance_count:
  assumes "t \<le> now" and "now \<le> t + seconds 60" and "0 \<le> apk_rate_count k"
  shows "(if apk_rate_count (count_request now k) \<le> 120 then 1 else 0) + allowance t (count_request now k) \<le> allowance t k"
  using assms by (auto simp: allowance_def count_request_def)

lemma authenticate_allowance:
  assumes a: "authenticate x q (keeps_keys h) s = (s', r)" and ok: "keys_ok s"
    and now: "t \<le> rq_now q" "rq_now q \<le> t + seconds 60"
  shows "(if isOk r \<and> request_key x q s = Some i then 1 else 0) + key_allowance t i s' \<le> key_allowance t i s"
proof (cases "starts_with (rq_path q) ''/api/v1/''")
  case False
  then show ?thesis using a
    by (auto simp: authenticate_def keeps_keys_def request_key_def key_allowance_def split: prod.splits)
next
  case True
  from a True show ?thesis
  proof (cases rule: authenticate_cases)
    case (refused e)
    then show ?thesis by simp
  next
    case (uncounted scope token k u s1 e)
    from uncounted(4) have "s1 = s" by (cases rule: count_key_Inr) simp_all
    then show ?thesis using uncounted(5,6) by (auto simp: key_allowance_def)
  next
    case (counted scope token k u s1 n s2 c)
    have key: "request_key x q s = Some (apk_id k)" using counted(2,3) True by (simp add: request_key_def)
    have dk: "distinct (map apk_id (api_keys s))" using ok by (simp add: keys_ok_def)
    have k: "k \<in> set (api_keys s)" using find_key_Some(1) [OF counted(3)] .
    have lookup: "find_row apk_id (apk_id k) (api_keys s) = Some k" using k by (simp add: find_row_iff [OF dk])
    obtain k' where k': "n = apk_rate_count (count_request (rq_now q) k')" "k' \<in> set (api_keys s)" "apk_id k' = apk_id k"
        "apk_revoked_at k' = None" and s1: "s1 = s\<lparr>api_keys := update_where (countable (apk_id k)) (count_request (rq_now q)) (api_keys s)\<rparr>"
      using counted(4) by (cases rule: count_key_Inr) auto
    have "k' = k" using distinct_key_unique [OF dk k'(2) k k'(3)] .
    have s2: "api_keys s2 = api_keys s1"
      using counted(5) by (auto simp: run_metered_def keeps_keys_def split: if_splits prod.splits)
    have s': "api_keys s' = update_where (countable (apk_id k)) (count_request (rq_now q)) (api_keys s)"
      using counted(6) s2 s1 by auto
    have pass: "n \<le> 120" if "isOk r" using counted(5) that by (auto simp: run_metered_def split: if_splits)
    show ?thesis
    proof (cases "i = apk_id k")
      case True
      have "key_allowance t i s' = allowance t (count_request (rq_now q) k)"
        using lookup k'(4) \<open>k' = k\<close> by (simp add: key_allowance_def s' True find_row_update_where countable_def)
      moreover have "0 \<le> apk_rate_count k" using ok k by (auto simp: keys_ok_def list_all_iff)
      ultimately show ?thesis
        using allowance_count [OF now, of k] pass k'(1) \<open>k' = k\<close> lookup True by (auto simp: key_allowance_def)
    next
      case False
      have "key_allowance t i s' = key_allowance t i s"
        using False by (auto simp: key_allowance_def s' find_row_update_where countable_def dest: find_row_Some split: option.splits)
      then show ?thesis using key False by simp
    qed
  qed
qed

lemma passed_allowance:
  assumes "keys_ok s" and "list_all (\<lambda>(q, h). t \<le> rq_now q \<and> rq_now q \<le> t + seconds 60) rs"
  shows "passed x i rs s \<le> key_allowance t i s"
  using assms
proof (induction rs arbitrary: s)
  case Nil
  then show ?case by simp
next
  case (Cons e rs)
  obtain q h where e: "e = (q, h)" by (cases e)
  obtain s' r where a: "authenticate x q (keeps_keys h) s = (s', r)" by (cases "authenticate x q (keeps_keys h) s")
  have "keys_ok s'" using keys.preserved [of s x _ "ApiRequest q h"] Cons.prems(1) a by simp
  then have "passed x i rs s' \<le> key_allowance t i s'" using Cons.IH Cons.prems(2) by simp
  moreover have "(if isOk r \<and> request_key x q s = Some i then 1 else 0) + key_allowance t i s' \<le> key_allowance t i s"
    by (rule authenticate_allowance [OF a Cons.prems(1)]) (use Cons.prems(2) e in auto)
  ultimately show ?case using a e by (simp split: if_splits)
qed

text \<open>
  C30. Of the requests made with one key within a minute, in whatever order they reach the
  database, at most 240 pass: the counter starts again at most once in that minute, and each
  run of it lets 120 through. (The documentation promises 120 per minute; the counter of a
  fixed window gives twice that around its reset.)
\<close>

theorem key_rate_limited:
  assumes ok: "keys_ok s" and m: "list_all (\<lambda>(q, h). t \<le> rq_now q \<and> rq_now q \<le> t + seconds 60) rs"
  shows "passed x i rs s \<le> 240"
proof -
  have "key_allowance t i s \<le> 240"
    using ok by (auto simp: key_allowance_def allowance_def keys_ok_def list_all_iff dest!: find_row_Some split: option.splits)
  then show ?thesis using passed_allowance [OF ok m, of x i] by linarith
qed

section \<open>Created keys\<close>

text \<open>
  A created key works: a request with the token that the creation returned, for a route
  whose scope the key was given and before it expires, reaches the handler, which acts for the
  user who created the key, on a database that differs only in the counter of the key.
\<close>

lemma created_key_works:
  assumes c: "create_key x st env user hs nk s = (s', Inr (i, token))"
    and codec: "token_codec x" and raw: "ke_raw env = Some raw" "length raw = 32"
    and u: "find_row usr_id (au_id user) (users s) = Some u" "usr_disabled_at u = None" "\<not> usr_must_change_password u"
    and p: "starts_with (rq_path q) ''/api/v1/''" "scope_for (rq_path q) (rq_method q) = Some scope" "scope \<in> set (nk_scopes nk)"
    and h: "header_str (rq_headers q) ''authorization'' = Some (''Bearer '' @ token)"
    and e: "case nk_expires_at nk of None \<Rightarrow> True | Some t \<Rightarrow> rq_now q < t"
  shows "\<exists>ks. snd (authenticate x q next s') =
     Inr (fst (snd (next (Some (from_api (au_id user) i (usr_email u) (usr_role u))) (s'\<lparr>api_keys := ks\<rparr>))))"
proof -
  obtain raw' where k: "ke_raw env = Some raw'" "i = ke_id env" "token = ''mdk_'' @ b64_encode x raw'" "acceptable_key (ke_now env) nk"
    "\<forall>r \<in> set (api_keys s). apk_id r \<noteq> i \<and> apk_token_digest r \<noteq> sha256 x token" "users s' = users s"
    "api_keys s' = api_keys s @ [\<lparr>apk_id = i, apk_owner = au_id user, apk_name = trim (nk_name nk), apk_token_digest = sha256 x token,
                 apk_prefix = take 12 token, apk_scopes = nk_scopes nk, apk_created_at = ke_now env,
                 apk_expires_at = nk_expires_at nk, apk_revoked_at = None, apk_last_used_at = None,
                 apk_rate_window = ke_now env, apk_rate_count = 0\<rparr>]"
    using c by (rule create_key_Inr)
  define r where "r = \<lparr>apk_id = i, apk_owner = au_id user, apk_name = trim (nk_name nk), apk_token_digest = sha256 x token,
                 apk_prefix = take 12 token, apk_scopes = nk_scopes nk, apk_created_at = ke_now env,
                 apk_expires_at = nk_expires_at nk, apk_revoked_at = None, apk_last_used_at = None,
                 apk_rate_window = ke_now env, apk_rate_count = 0\<rparr>"
  have r: "api_keys s' = api_keys s @ [r]" "apk_id r = i" "apk_owner r = au_id user" "apk_token_digest r = sha256 x token"
    "apk_scopes r = nk_scopes nk" "apk_expires_at r = nk_expires_at nk" "apk_revoked_at r = None" "apk_rate_count r = 0"
    using k(7) by (simp_all add: r_def)
  have t: "api_token (rq_headers q) = Some token"
    using h codec raw k(1,3) by (simp add: token_codec_def) (simp add: api_token_def strip_prefix_Some_iff [THEN iffD2] starts_with_def)
  have own: "key_owner s' r = Some u" using u k(6) r(3) by (simp add: key_owner_def)
  have "find (\<lambda>k. apk_token_digest k = sha256 x token \<and> live_key (rq_now q) k \<and> key_owner s' k \<noteq> None) (api_keys s') = Some r"
    using k(5) r own e unfolding r(1) by (intro find_append_new) (auto simp: live_key_def)
  then have f: "find_key x (rq_now q) token s' = Some (r, u)" using own by (simp add: find_key_def)
  have "find (countable i) (api_keys s') = Some r"
    using k(5) r unfolding r(1) by (intro find_append_new) (auto simp: countable_def)
  then have n: "count_key (rq_now q) (apk_id r) s' =
      Inr (s'\<lparr>api_keys := update_where (countable i) (count_request (rq_now q)) (api_keys s')\<rparr>, Some 1)"
    using r by (simp add: count_key_def count_request_def)
  show ?thesis
    using p t f n r(2,3,5)
    by (intro exI [of _ "update_where (countable i) (count_request (rq_now q)) (api_keys s')"])
       (simp add: authenticate_def run_metered_def split: prod.splits)
qed


section \<open>Visibility of the statistics\<close>

text \<open>
  A member sees only the log lines of the own keys: whatever filter is asked for, every
  line of the page belongs to the user, unless the user is an owner or an administrator. A page
  holds at most 100 lines, newest first, and with \<open>next_before_id\<close> set the next page goes on
  below the last line of this one.
\<close>

lemma logs_own_only:
  assumes l: "logs user q s = Inr (page, nxt)"
  shows "length page \<le> 100 \<and> sorted (rev (map log_id page)) \<and> set page \<subseteq> set (api_logs s)
    \<and> list_all (\<lambda>l. log_owner l = au_id user \<or> au_role user = Owner \<or> au_role user = Admin) page
    \<and> (case nxt of None \<Rightarrow> True | Some b \<Rightarrow> page \<noteq> [] \<and> b = log_id (last page) \<and> list_all (\<lambda>l. b \<le> log_id l) page)"
proof -
  obtain owner where v: "visibility user q = Inr owner" using l by (auto simp: logs_def bindE_Inr_iff)
  define ls where "ls = filter (\<lambda>l. selected owner (uq_key q) l \<and> (case uq_before q of None \<Rightarrow> True | Some b \<Rightarrow> log_id l < b)) (api_logs s)"
  define rows where "rows = take 101 (rev (sort_key log_id ls))"
  have page: "page = (if 100 < length rows then butlast rows else rows)" "nxt = (if 100 < length rows then Some (log_id (last page)) else None)"
    using l v by (auto simp: logs_def Let_def rows_def ls_def)
  have pt: "page = take (if 100 < length rows then 100 else 101) (rev (sort_key log_id ls))"
    using page(1) by (auto simp: rows_def butlast_take)
  have len: "length page \<le> 100" using page(1) by (auto simp: rows_def)
  have sub: "set page \<subseteq> set ls" using set_take_subset by (fastforce simp: pt)
  have srt: "sorted (rev (map log_id page))"
    by (simp add: pt rev_map take_map [symmetric] rev_take sorted_wrt_drop flip: drop_map)
  have own: "log_owner l = au_id user \<or> au_role user = Owner \<or> au_role user = Admin" if "l \<in> set page" for l
  proof -
    have "selected owner (uq_key q) l" using that sub by (auto simp: ls_def)
    then show ?thesis using v by (auto simp: visibility_def selected_def split: if_splits option.splits)
  qed
  have "list_all (\<lambda>l. log_id (last page) \<le> log_id l) page" if ne: "page \<noteq> []"
  proof -
    have "last page = hd (rev page)" using ne by (simp add: hd_rev)
    moreover have "\<forall>l \<in> set (rev page). log_id (hd (rev page)) \<le> log_id l"
      using srt ne by (cases "rev page") (auto simp: rev_map)
    ultimately show ?thesis by (simp add: list_all_iff)
  qed
  moreover have "page \<noteq> []" if "100 < length rows" using that page(1) by (cases rows) auto
  ultimately show ?thesis using len srt sub own page(2) by (auto simp: ls_def list_all_iff)
qed


section \<open>Witnesses\<close>

definition demo_key_env :: key_env where
  "demo_key_env = \<lparr>ke_now = 5, ke_raw = Some zero_raw, ke_id = 50\<rparr>"

definition demo_new_key :: new_key where
  "demo_new_key = \<lparr>nk_name = lit ''sync'', nk_scopes = [''drive:read''], nk_expires_at = None\<rparr>"

definition demo_token :: string where
  "demo_token = ''mdk_'' @ replicate 43 CHR ''A''"

definition demo_key :: api_key_row where
  "demo_key = \<lparr>apk_id = 50, apk_owner = 1, apk_name = lit ''sync'', apk_token_digest = sha256 sample_externals demo_token,
     apk_prefix = take 12 demo_token, apk_scopes = [''drive:read''], apk_created_at = 5, apk_expires_at = None, apk_revoked_at = None,
     apk_last_used_at = None, apk_rate_window = 5, apk_rate_count = 0\<rparr>"

definition demo_keys :: db where
  "demo_keys = fst (create_key sample_externals demo_settings demo_key_env demo_auth [] demo_new_key (empty_db\<lparr>users := [demo_user]\<rparr>))"

definition demo_request :: "instant \<Rightarrow> api_request" where
  "demo_request now = \<lparr>rq_path = ''/api/v1/drive'', rq_method = ''GET'', rq_route = None, rq_headers = [(''authorization'', ''Bearer '' @ demo_token)],
     rq_now = now, rq_elapsed_ms = 1, rq_logged_at = now, rq_log_id = 1\<rparr>"

definition demo_handler :: handler where
  "demo_handler user s = (s, 200, 3)"

lemma demo_create:
  "create_key sample_externals demo_settings demo_key_env demo_auth [] demo_new_key (empty_db\<lparr>users := [demo_user]\<rparr>)
   = (demo_keys, Inr (50, demo_token))"
  "api_keys demo_keys = [demo_key]" "users demo_keys = [demo_user]"
proof -
  have trimmed: "trim (nk_name demo_new_key) = lit ''sync''"
    by (simp add: demo_new_key_def trim_def trim_by_def lit_def is_whitespace_def)
  then have "acceptable_key 5 demo_new_key" by (simp add: acceptable_key_def) (simp add: demo_new_key_def SCOPES_def lit_def)
  with trimmed have "create_key sample_externals demo_settings demo_key_env demo_auth [] demo_new_key (empty_db\<lparr>users := [demo_user]\<rparr>)
   = (add_audit ''api_key_created'' (Some 1) (Some 50) (empty_db\<lparr>users := [demo_user], api_keys := [demo_key]\<rparr>), Inr (50, demo_token))"
    using sample_digest_size
    by (simp add: create_key_def demo_key_env_def require_csrf_def demo_auth_def from_api_def insert_api_key_def empty_db_def demo_key_def
        sample_zero demo_token_def digest_size_def demo_new_key_def demo_user_def Let_def lit_def)
  then show "create_key sample_externals demo_settings demo_key_env demo_auth [] demo_new_key (empty_db\<lparr>users := [demo_user]\<rparr>)
      = (demo_keys, Inr (50, demo_token))"
    "api_keys demo_keys = [demo_key]" "users demo_keys = [demo_user]"
    by (simp_all add: demo_keys_def add_audit_def)
qed

lemma demo_scope: "scope_for ''/api/v1/drive'' ''GET'' = Some ''drive:read''" "starts_with ''/api/v1/drive'' ''/api/v1/''"
  by code_simp+

lemma demo_request_fields [simp]:
  "rq_path (demo_request now) = ''/api/v1/drive''" "rq_method (demo_request now) = ''GET''" "rq_now (demo_request now) = now"
  by (simp_all add: demo_request_def)

lemma demo_header: "header_str (rq_headers (demo_request now)) ''authorization'' = Some (''Bearer '' @ demo_token)"
  by (simp add: header_str_def demo_token_def demo_request_def list_all_iff)

lemma demo_api_token: "api_token (rq_headers (demo_request now)) = Some demo_token"
  by (simp only: api_token_def demo_header option.case strip_prefix_Some_iff [THEN iffD2, OF refl])
     (simp add: starts_with_def demo_token_def)

lemma demo_key_fields [simp]:
  "apk_id demo_key = 50" "apk_owner demo_key = 1" "apk_token_digest demo_key = sha256 sample_externals demo_token"
  "apk_scopes demo_key = [''drive:read'']" "apk_revoked_at demo_key = None" "live_key now demo_key" "apk_rate_count demo_key = 0"
  by (simp_all add: demo_key_def live_key_def)

lemma demo_user_fields [simp]:
  "usr_id demo_user = 1" "usr_disabled_at demo_user = None" "\<not> usr_must_change_password demo_user" "usr_role demo_user = Owner"
  by (simp_all add: demo_user_def)

lemma demo_auth_fields [simp]: "au_id demo_auth = 1" "require_csrf sample_externals hs demo_auth st"
  by (simp_all add: demo_auth_def from_api_def require_csrf_def)

lemma demo_keys_ok: "keys_ok demo_keys"
  by (simp add: keys_ok_def demo_create)

lemma demo_authenticate: "\<exists>s'. authenticate sample_externals (demo_request 9) demo_handler demo_keys = (s', Inr 200)"
proof -
  have "key_owner demo_keys demo_key = Some demo_user" by (simp add: key_owner_def demo_create find_row_def)
  then have "find_key sample_externals 9 demo_token demo_keys = Some (demo_key, demo_user)" by (simp add: find_key_def demo_create)
  moreover have "\<exists>s1. count_key 9 50 demo_keys = Inr (s1, Some 1)"
    by (simp add: count_key_def demo_create countable_def count_request_def)
  ultimately show ?thesis
    by (auto simp: authenticate_def demo_scope demo_api_token run_metered_def demo_handler_def)
qed

theorem api_key_confined_witness:
  "\<exists>scope k u. scope_for ''/api/v1/drive'' ''GET'' = Some scope \<and> presents_key sample_externals (demo_request 9) k demo_keys
     \<and> scope \<in> set (apk_scopes k) \<and> u \<in> set (users demo_keys) \<and> usr_id u = apk_owner k"
proof -
  obtain s' where "authenticate sample_externals (demo_request 9) demo_handler demo_keys = (s', Inr 200)" using demo_authenticate by blast
  from api_key_confined [OF this] show ?thesis unfolding demo_request_fields sum.case using demo_scope(2) by blast
qed

theorem revoked_key_refused_witness:
  "fst (authenticate sample_externals (demo_request 9) demo_handler (fst (revoke_key sample_externals demo_settings 8 demo_auth [] 50 False demo_keys)))
   = fst (revoke_key sample_externals demo_settings 8 demo_auth [] 50 False demo_keys)"
proof -
  have r: "revoke_key sample_externals demo_settings 8 demo_auth [] 50 False demo_keys =
     (fst (revoke_key sample_externals demo_settings 8 demo_auth [] 50 False demo_keys), Inr 0)"
    by (simp add: revoke_key_def revoke_def demo_create Let_def)
  have "demo_key \<in> set (api_keys demo_keys)" by (simp add: demo_create)
  from revoked_key_refused [OF demo_keys_ok r this _ demo_api_token, of 9 demo_handler "[]"] show ?thesis
    by (simp add: demo_scope)
qed

theorem key_rate_limited_witness:
  "passed sample_externals 50 (map (\<lambda>n. (demo_request (int n), demo_handler)) [0..<300]) demo_keys \<le> 240"
  by (rule key_rate_limited [OF demo_keys_ok, of 0]) (auto simp: list_all_iff seconds_def)

end
