(* ===== verification/Accounts.thy ===== *)
theory Accounts
  imports Session Uploads Developer_Results
begin

text \<open>
  Administration of member accounts by their owner: \<open>src/admin_accounts.rs\<close>. An owner
  lists, creates, changes and disables the accounts managed by that owner and resets their
  passwords. The theorems say what an administrator can touch, that a quota is never set below
  what the account uses and has reserved, that a disabled account is locked out of every way to
  authenticate, and that the temporary password of a new account logs in.
\<close>

section \<open>Operations\<close>

datatype account_error =
    OwnerRequired | AccountCsrf | AccountBadRequest | EmailExists | AccountNotFound
  | QuotaBelowCurrentUsage | AccountDatabase db_error | PasswordOperation

fun account_response :: "account_error \<Rightarrow> api_error" where
  "account_response OwnerRequired = api_error 403 ''owner_required''"
| "account_response AccountCsrf = api_error 403 ''csrf_failed''"
| "account_response AccountBadRequest = api_error 400 ''invalid_request''"
| "account_response EmailExists = api_error 409 ''email_exists''"
| "account_response AccountNotFound = api_error 404 ''not_found''"
| "account_response QuotaBelowCurrentUsage = api_error 409 ''quota_below_current_usage''"
| "account_response (AccountDatabase e) = api_error 503 ''service_unavailable''"
| "account_response PasswordOperation = api_error 503 ''service_unavailable''"

definition DEFAULT_PAGE_SIZE :: nat where
  "DEFAULT_PAGE_SIZE = 50"

definition MAX_PAGE_SIZE :: nat where
  "MAX_PAGE_SIZE = 100"

definition MAX_ACCOUNT_QUOTA_BYTES :: nat where
  "MAX_ACCOUNT_QUOTA_BYTES = 8000000000000000"

definition require_owner :: "auth_user \<Rightarrow> account_error + unit" where
  "require_owner user = guardE (au_role user = Owner) OwnerRequired"

definition require_account_csrf :: "externals \<Rightarrow> headers \<Rightarrow> auth_user \<Rightarrow> auth_settings \<Rightarrow> account_error + unit" where
  "require_account_csrf x hs user settings = guardE (require_csrf x hs user settings) AccountCsrf"

text \<open>The bytes of the current versions with a ready object, and the bytes that open uploads have reserved.\<close>

definition account_usage :: "uuid \<Rightarrow> instant \<Rightarrow> db \<Rightarrow> db_error + int \<times> int" where
  "account_usage account now s =
     bindE (bigint (account_used_bytes account s)) (\<lambda>used.
     bindE (bigint (sum_list (map upl_expected_size (open_uploads account now s)))) (\<lambda>reserved.
       Inr (used, reserved)))"

record account_summary =
  as_id :: uuid
  as_email :: ustr
  as_quota_bytes :: int
  as_used_bytes :: int
  as_reserved_bytes :: int
  as_disabled_at :: "instant option"
  as_created_at :: instant

text \<open>A row of the listing; \<open>quota_bytes\<close> is not null for a member.\<close>

definition account_row :: "instant \<Rightarrow> db \<Rightarrow> user_row \<Rightarrow> db_error + account_summary" where
  "account_row now s u =
     bindE (account_usage (usr_id u) now s) (\<lambda>(used, reserved).
     bindE (okOr (usr_quota_bytes u) OtherDbError) (\<lambda>quota.
       Inr \<lparr>as_id = usr_id u, as_email = usr_email u, as_quota_bytes = quota, as_used_bytes = used,
            as_reserved_bytes = reserved, as_disabled_at = usr_disabled_at u, as_created_at = usr_created_at u\<rparr>))"

fun account_rows :: "instant \<Rightarrow> db \<Rightarrow> user_row list \<Rightarrow> db_error + account_summary list" where
  "account_rows now s [] = Inr []"
| "account_rows now s (u # us) =
     bindE (account_row now s u) (\<lambda>r. bindE (account_rows now s us) (\<lambda>rs. Inr (r # rs)))"

definition managed_member :: "uuid \<Rightarrow> user_row \<Rightarrow> bool" where
  "managed_member owner u \<longleftrightarrow> usr_managed_by u = Some owner \<and> usr_role u = Member"

definition list_accounts :: "instant \<Rightarrow> auth_user \<Rightarrow> nat option \<Rightarrow> nat option \<Rightarrow> db
    \<Rightarrow> account_error + account_summary list \<times> nat option" where
  "list_accounts now user limit_query offset_query s =
     bindE (require_owner user) (\<lambda>_.
     let limit = (case limit_query of None \<Rightarrow> DEFAULT_PAGE_SIZE | Some n \<Rightarrow> n);
         offset = (case offset_query of None \<Rightarrow> 0 | Some n \<Rightarrow> n)
     in bindE (guardE (\<not> (limit = 0 \<or> MAX_PAGE_SIZE < limit \<or> 100000 < offset)) AccountBadRequest) (\<lambda>_.
        bindE (mapErr AccountDatabase (account_rows now s
                 (take (limit + 1) (drop offset (sort_key (\<lambda>u. - usr_created_at u) (sort_key usr_id
                    (filter (managed_member (au_id user)) (users s)))))))) (\<lambda>rows.
        Inr (take limit rows,
             if limit < length rows then Some (min (offset + limit) (2 ^ 32 - 1)) else None))))"

record account_env =
  ae_now :: instant
  ae_raw :: "bytes option"
  ae_salt :: bytes
  ae_id :: uuid
  ae_answered_at :: instant

definition create_temporary_password_hash :: "externals \<Rightarrow> account_env \<Rightarrow> account_error + string \<times> string" where
  "create_temporary_password_hash x env =
     bindE (okOr (secure_token x (ae_raw env)) PasswordOperation) (\<lambda>(_, password).
     bindE (okOr (hash_password x (ae_salt env) (lit password)) PasswordOperation) (\<lambda>hash.
       Inr (password, hash)))"

definition insert_error :: "db_error \<Rightarrow> account_error" where
  "insert_error e = (if e = UniqueViolation then EmailExists else AccountDatabase e)"

definition create_account :: "externals \<Rightarrow> auth_settings \<Rightarrow> account_env \<Rightarrow> auth_user \<Rightarrow> headers \<Rightarrow> ustr \<Rightarrow> nat \<Rightarrow> db
    \<Rightarrow> db \<times> (account_error + account_summary \<times> string)" where
  "create_account x settings env user hs raw_email quota s =
     rollback s
      (bindE (require_owner user) (\<lambda>_.
       bindE (require_account_csrf x hs user settings) (\<lambda>_.
       let email = to_lowercase x (trim raw_email) in
       bindE (guardE (valid_email email \<and> \<not> MAX_ACCOUNT_QUOTA_BYTES < quota) AccountBadRequest) (\<lambda>_.
       bindE (guardE (quota < 2 ^ 63) AccountBadRequest) (\<lambda>_.
       bindE (create_temporary_password_hash x env) (\<lambda>(password, hash).
       bindE (mapErr insert_error (insert_user (sql_lower x)
                \<lparr>usr_id = ae_id env, usr_email = email, usr_password_hash = hash, usr_role = Member,
                 usr_created_at = ae_now env, usr_updated_at = ae_now env, usr_managed_by = Some (au_id user),
                 usr_quota_bytes = Some (int quota), usr_disabled_at = None, usr_must_change_password = True\<rparr> s)) (\<lambda>s1.
         Inr (add_audit ''child_account_created'' (Some (au_id user)) (Some (ae_id env)) s1,
              (\<lparr>as_id = ae_id env, as_email = email, as_quota_bytes = int quota, as_used_bytes = 0,
                as_reserved_bytes = 0, as_disabled_at = None, as_created_at = ae_answered_at env\<rparr>, password)))))))))"

definition quota_accepted :: "nat option \<Rightarrow> bool" where
  "quota_accepted quota \<longleftrightarrow> (case quota of None \<Rightarrow> True | Some q \<Rightarrow> \<not> MAX_ACCOUNT_QUOTA_BYTES < q \<and> q < 2 ^ 63)"

definition check_new_quota :: "uuid \<Rightarrow> instant \<Rightarrow> nat option \<Rightarrow> db \<Rightarrow> account_error + unit" where
  "check_new_quota account now quota s =
     (case quota of
        None \<Rightarrow> Inr ()
      | Some q \<Rightarrow>
          bindE (mapErr AccountDatabase (account_usage account now s)) (\<lambda>(used, reserved).
            guardE (\<not> int q < max used 0 + max reserved 0) QuotaBelowCurrentUsage))"

definition set_account :: "instant \<Rightarrow> nat option \<Rightarrow> bool option \<Rightarrow> user_row \<Rightarrow> user_row" where
  "set_account now quota disabled u =
     u\<lparr>usr_quota_bytes := (case quota of None \<Rightarrow> usr_quota_bytes u | Some q \<Rightarrow> Some (int q)),
       usr_disabled_at := (case disabled of
            None \<Rightarrow> usr_disabled_at u
          | Some True \<Rightarrow> (case usr_disabled_at u of None \<Rightarrow> Some now | Some t \<Rightarrow> Some t)
          | Some False \<Rightarrow> None),
       usr_updated_at := now\<rparr>"

definition update_account :: "externals \<Rightarrow> auth_settings \<Rightarrow> instant \<Rightarrow> auth_user \<Rightarrow> headers \<Rightarrow> uuid \<Rightarrow> nat option
    \<Rightarrow> bool option \<Rightarrow> db \<Rightarrow> db \<times> (account_error + unit)" where
  "update_account x settings now user hs account quota disabled s =
     rollback s
      (bindE (require_owner user) (\<lambda>_.
       bindE (require_account_csrf x hs user settings) (\<lambda>_.
       bindE (guardE (\<not> (quota = None \<and> disabled = None)) AccountBadRequest) (\<lambda>_.
       bindE (guardE (quota_accepted quota) AccountBadRequest) (\<lambda>_.
       bindE (okOr (find (\<lambda>u. usr_id u = account \<and> managed_member (au_id user) u) (users s)) AccountNotFound) (\<lambda>existing.
       bindE (check_new_quota account now quota s) (\<lambda>_.
       let s1 = s\<lparr>users := update_where (\<lambda>u. usr_id u = account \<and> managed_member (au_id user) u)
                             (set_account now quota disabled) (users s)\<rparr>;
           s2 = (if disabled = Some True \<or> (usr_disabled_at existing \<noteq> None \<and> disabled = None)
                 then revoke_where (\<lambda>r. ses_user r = account) now s1 else s1)
       in Inr (add_audit ''child_account_updated'' (Some (au_id user)) (Some account) s2, ()))))))))"

definition reset_password :: "externals \<Rightarrow> auth_settings \<Rightarrow> account_env \<Rightarrow> auth_user \<Rightarrow> headers \<Rightarrow> uuid \<Rightarrow> db
    \<Rightarrow> db \<times> (account_error + string)" where
  "reset_password x settings env user hs account s =
     rollback s
      (bindE (require_owner user) (\<lambda>_.
       bindE (require_account_csrf x hs user settings) (\<lambda>_.
       bindE (create_temporary_password_hash x env) (\<lambda>(password, hash).
       let hit = (\<lambda>u. usr_id u = account \<and> managed_member (au_id user) u);
           s1 = s\<lparr>users := update_where hit (\<lambda>u. u\<lparr>usr_password_hash := hash, usr_must_change_password := True,
                                            usr_updated_at := ae_now env\<rparr>) (users s)\<rparr>
       in bindE (guardE (count_where hit (users s) \<noteq> 0) AccountNotFound) (\<lambda>_.
          Inr (add_audit ''child_account_password_reset'' (Some (au_id user)) (Some account)
                 (revoke_where (\<lambda>r. ses_user r = account) (ae_now env) s1), password))))))"


section \<open>What an administrator can touch\<close>

datatype account_event =
    CreateAccount account_env auth_user headers ustr nat
  | UpdateAccount instant auth_user headers uuid "nat option" "bool option"
  | ResetPassword account_env auth_user headers uuid

fun account_step :: "externals \<Rightarrow> auth_settings \<Rightarrow> account_event \<Rightarrow> db \<Rightarrow> db" where
  "account_step x st (CreateAccount env user hs email quota) s = fst (create_account x st env user hs email quota s)"
| "account_step x st (UpdateAccount now user hs account quota disabled) s = fst (update_account x st now user hs account quota disabled s)"
| "account_step x st (ResetPassword env user hs account) s = fst (reset_password x st env user hs account s)"

fun administrator :: "account_event \<Rightarrow> auth_user" where
  "administrator (CreateAccount env user hs email quota) = user"
| "administrator (UpdateAccount now user hs account quota disabled) = user"
| "administrator (ResetPassword env user hs account) = user"

text \<open>What a successful request writes.\<close>

lemma create_account_Inr:
  assumes "create_account x st env user hs raw_email quota s = (s', Inr (a, password))"
  obtains hash u s1 where "au_role user = Owner" and "create_temporary_password_hash x env = Inr (password, hash)"
    and "valid_email (to_lowercase x (trim raw_email))"
    and "u = \<lparr>usr_id = ae_id env, usr_email = to_lowercase x (trim raw_email), usr_password_hash = hash, usr_role = Member,
                 usr_created_at = ae_now env, usr_updated_at = ae_now env, usr_managed_by = Some (au_id user),
                 usr_quota_bytes = Some (int quota), usr_disabled_at = None, usr_must_change_password = True\<rparr>"
    and "insert_user (sql_lower x) u s = Inr s1"
    and "s' = add_audit ''child_account_created'' (Some (au_id user)) (Some (ae_id env)) s1" and "as_id a = ae_id env"
  using assms that
  by (auto simp: create_account_def rollback_Inr_iff bindE_Inr_iff guardE_Inr_iff mapErr_Inr_iff require_owner_def Let_def)

definition admin_writes :: "db \<Rightarrow> db \<Rightarrow> bool" where
  "admin_writes s s' \<longleftrightarrow> s' = s\<lparr>users := users s', sessions := sessions s', audits := audits s'\<rparr>"

lemma update_account_Inr:
  assumes "update_account x st now user hs account quota disabled s = (s', Inr ())"
  obtains existing where "au_role user = Owner" and "existing \<in> set (users s)" and "usr_id existing = account"
    and "managed_member (au_id user) existing" and "check_new_quota account now quota s = Inr ()" and "admin_writes s s'"
    and "users s' = update_where (\<lambda>u. usr_id u = account \<and> managed_member (au_id user) u) (set_account now quota disabled) (users s)"
    and "sessions s' = sessions (if disabled = Some True \<or> (usr_disabled_at existing \<noteq> None \<and> disabled = None)
           then revoke_where (\<lambda>r. ses_user r = account) now s else s)"
proof -
  from assms obtain existing where e: "find (\<lambda>u. usr_id u = account \<and> managed_member (au_id user) u) (users s) = Some existing"
    "au_role user = Owner" "check_new_quota account now quota s = Inr ()"
    and s': "s' = add_audit ''child_account_updated'' (Some (au_id user)) (Some account)
       (if disabled = Some True \<or> (usr_disabled_at existing \<noteq> None \<and> disabled = None)
        then revoke_where (\<lambda>r. ses_user r = account) now
          (s\<lparr>users := update_where (\<lambda>u. usr_id u = account \<and> managed_member (au_id user) u) (set_account now quota disabled) (users s)\<rparr>)
        else s\<lparr>users := update_where (\<lambda>u. usr_id u = account \<and> managed_member (au_id user) u) (set_account now quota disabled) (users s)\<rparr>)"
    unfolding update_account_def rollback_Inr_iff bindE_Inr_iff guardE_Inr_iff okOr_Inr_iff require_owner_def Let_def sum.inject prod.inject
    by (elim exE conjE) (erule that, assumption, simp, erule sym)
  show thesis
    by (rule that [of existing]) (use find_SomeD [OF e(1)] e(2,3) in \<open>auto simp: s' add_audit_def admin_writes_def revoke_where_def\<close>)
qed

lemma reset_password_Inr:
  assumes "reset_password x st env user hs account s = (s', Inr password)"
  obtains hash u where "au_role user = Owner" and "u \<in> set (users s)" and "usr_id u = account" and "managed_member (au_id user) u"
    and "admin_writes s s'" and "create_temporary_password_hash x env = Inr (password, hash)"
    and "users s' = update_where (\<lambda>u. usr_id u = account \<and> managed_member (au_id user) u)
             (\<lambda>u. u\<lparr>usr_password_hash := hash, usr_must_change_password := True, usr_updated_at := ae_now env\<rparr>) (users s)"
    and "sessions s' = sessions (revoke_where (\<lambda>r. ses_user r = account) (ae_now env) s)"
  using assms that
  by (auto simp: reset_password_def rollback_Inr_iff bindE_Inr_iff guardE_Inr_iff require_owner_def
      revoke_where_def count_where_def Let_def filter_empty_conv add_audit_def admin_writes_def)

definition managed_ids :: "uuid \<Rightarrow> db \<Rightarrow> uuid set" where
  "managed_ids owner s = usr_id ` {u \<in> set (users s). managed_member owner u}"

definition confined_to :: "auth_user \<Rightarrow> db \<Rightarrow> db \<Rightarrow> bool" where
  "confined_to user s s' \<longleftrightarrow> s' = s
     \<or> (au_role user = Owner
        \<and> filter (\<lambda>u. \<not> managed_member (au_id user) u) (users s') = filter (\<lambda>u. \<not> managed_member (au_id user) u) (users s)
        \<and> filter (\<lambda>r. ses_user r \<notin> managed_ids (au_id user) s) (sessions s')
            = filter (\<lambda>r. ses_user r \<notin> managed_ids (au_id user) s) (sessions s)
        \<and> admin_writes s s')"

lemma revoke_where_foreign:
  "account \<in> ids \<Longrightarrow> filter (\<lambda>r. ses_user r \<notin> ids) (sessions (revoke_where (\<lambda>r. ses_user r = account) now s))
     = filter (\<lambda>r. ses_user r \<notin> ids) (sessions s)"
  unfolding revoke_where_def by (simp, rule filter_update_where) auto

lemma managed_update_foreign:
  assumes "\<And>u. managed_member owner u \<Longrightarrow> managed_member owner (f u)"
  shows "filter (\<lambda>u. \<not> managed_member owner u) (update_where (\<lambda>u. usr_id u = account \<and> managed_member owner u) f us)
    = filter (\<lambda>u. \<not> managed_member owner u) us"
  by (rule filter_update_where) (use assms in auto)

lemma managed_idsI: "u \<in> set (users s) \<Longrightarrow> managed_member owner u \<Longrightarrow> usr_id u = i \<Longrightarrow> i \<in> managed_ids owner s"
  by (auto simp: managed_ids_def)

lemma managed_member_frame [simp]:
  "managed_member owner (set_account now quota disabled u) = managed_member owner u"
  "managed_member owner (u\<lparr>usr_password_hash := h, usr_must_change_password := m, usr_updated_at := t\<rparr>) = managed_member owner u"
  by (simp_all add: managed_member_def set_account_def)

lemma create_account_confined: "confined_to user s (fst (create_account x st env user hs email quota s))"
proof (cases "create_account x st env user hs email quota s")
  case (Pair s' r)
  show ?thesis
  proof (cases r)
    case (Inl e)
    then show ?thesis using Pair by (auto simp: create_account_def rollback_Inl_iff confined_to_def)
  next
    case (Inr v)
    obtain a password where c: "create_account x st env user hs email quota s = (s', Inr (a, password))" using Pair Inr by (cases v) simp
    then have "confined_to user s s'"
      by (cases rule: create_account_Inr)
         (auto simp: confined_to_def insert_user_def bindE_Inr_iff guardE_Inr_iff add_audit_def managed_member_def admin_writes_def)
    then show ?thesis by (simp add: c)
  qed
qed

lemma update_account_confined: "confined_to user s (fst (update_account x st now user hs account quota disabled s))"
proof (cases "update_account x st now user hs account quota disabled s")
  case (Pair s' r)
  show ?thesis
  proof (cases r)
    case (Inl e)
    then show ?thesis using Pair by (auto simp: update_account_def rollback_Inl_iff confined_to_def)
  next
    case (Inr v)
    then have c: "update_account x st now user hs account quota disabled s = (s', Inr ())" using Pair by simp
    then have "confined_to user s s'"
      by (cases rule: update_account_Inr)
         (auto simp: confined_to_def managed_update_foreign revoke_where_foreign managed_idsI)
    then show ?thesis by (simp add: c)
  qed
qed

lemma reset_password_confined: "confined_to user s (fst (reset_password x st env user hs account s))"
proof (cases "reset_password x st env user hs account s")
  case (Pair s' r)
  show ?thesis
  proof (cases r)
    case (Inl e)
    then show ?thesis using Pair by (auto simp: reset_password_def rollback_Inl_iff confined_to_def)
  next
    case (Inr v)
    then have c: "reset_password x st env user hs account s = (s', Inr v)" using Pair by simp
    then have "confined_to user s s'"
      by (cases rule: reset_password_Inr)
         (auto simp: confined_to_def managed_update_foreign revoke_where_foreign managed_idsI)
    then show ?thesis by (simp add: c)
  qed
qed

text \<open>
  C32. A request of account administration changes nothing unless the user is an owner, and then
  only rows of members that this owner manages and their sessions (and adds an audit event):
  every other account, all sessions of other accounts and every other table stay as they were.
\<close>

theorem accounts_confined:
  "account_step x st e s = s
   \<or> (au_role (administrator e) = Owner
      \<and> filter (\<lambda>u. \<not> (usr_managed_by u = Some (au_id (administrator e)) \<and> usr_role u = Member)) (users (account_step x st e s))
          = filter (\<lambda>u. \<not> (usr_managed_by u = Some (au_id (administrator e)) \<and> usr_role u = Member)) (users s)
      \<and> filter (\<lambda>r. ses_user r \<notin> usr_id ` {u \<in> set (users s). usr_managed_by u = Some (au_id (administrator e)) \<and> usr_role u = Member})
            (sessions (account_step x st e s))
          = filter (\<lambda>r. ses_user r \<notin> usr_id ` {u \<in> set (users s). usr_managed_by u = Some (au_id (administrator e)) \<and> usr_role u = Member})
            (sessions s)
      \<and> account_step x st e s = s\<lparr>users := users (account_step x st e s), sessions := sessions (account_step x st e s),
           audits := audits (account_step x st e s)\<rparr>)"
proof -
  have "confined_to (administrator e) s (account_step x st e s)"
    by (cases e) (simp_all add: create_account_confined update_account_confined reset_password_confined)
  then show ?thesis by (simp only: confined_to_def admin_writes_def managed_ids_def managed_member_def)
qed

section \<open>Quotas\<close>

text \<open>
  A quota is never set below what the account holds: after a change of the quota, the bytes
  of its files with a ready object and the bytes its open uploads have reserved fit into it.
\<close>

lemma quota_covers_usage:
  assumes u: "update_account x st now user hs account (Some q) disabled s = (s', Inr ())"
  shows "account_used_bytes account s' + sum_list (map upl_expected_size (open_uploads account now s')) \<le> int q
    \<and> q \<le> MAX_ACCOUNT_QUOTA_BYTES \<and> (\<exists>a \<in> set (users s'). usr_id a = account \<and> usr_quota_bytes a = Some (int q))"
  using u
proof (cases rule: update_account_Inr)
  case (1 existing)
  have tables: "entries s' = entries s" "files s' = files s" "versions s' = versions s" "objects s' = objects s" "uploads s' = uploads s"
    using 1(6) unfolding admin_writes_def by (metis db.select_convs db.surjective db.update_convs)+
  then have "account_used_bytes account s' = account_used_bytes account s" "open_uploads account now s' = open_uploads account now s"
    by (simp_all add: account_used_bytes_def open_uploads_def ready_version_def [abs_def] current_version_def cong: option.case_cong)
  moreover have "account_used_bytes account s + sum_list (map upl_expected_size (open_uploads account now s)) \<le> int q"
    using 1(5) by (auto simp: check_new_quota_def account_usage_def bindE_Inr_iff guardE_Inr_iff mapErr_Inr_iff bigint_def split: if_splits)
  moreover have "q \<le> MAX_ACCOUNT_QUOTA_BYTES"
    using u by (auto simp: update_account_def rollback_Inr_iff bindE_Inr_iff guardE_Inr_iff quota_accepted_def)
  moreover have "set_account now (Some q) disabled existing \<in> set (users s')"
    using 1(2-4,7) by (auto simp: row_simps)
  ultimately show ?thesis using 1(3) by (auto simp: set_account_def intro!: bexI [of _ "set_account now (Some q) disabled existing"])
qed


section \<open>Disabled accounts\<close>

lemma from_request_parts_account:
  assumes a: "from_request_parts x st now m path hs None s = (s', Inr au)" and d: "distinct (map usr_id (users s))"
  obtains u where "u \<in> set (users s)" and "usr_id u = au_id au" and "usr_disabled_at u = None"
proof (cases "au_device au")
  case None
  from cookie_authentication [OF a None] obtain r u token where su: "session_user x now token s = Some (r, u)" "au_id au = usr_id u" by metis
  note f = session_user_Some [OF su(1)]
  show thesis using that [of u] su(2) session_live_user [OF f(2,3)] find_row_Some [OF f(3)] by simp
next
  case (Some i)
  show thesis
  proof (cases "bearer_token hs")
    case None
    then show thesis using a Some by (auto simp: from_request_parts_def Let_def split: option.splits if_splits)
  next
    case (Some token)
    obtain s1 v where v: "authenticate_access_token x now token (forwarded_ip hs) s = (s1, v)"
      by (cases "authenticate_access_token x now token (forwarded_ip hs) s")
    have "v = Some au" using a Some v by (auto simp: from_request_parts_def split: option.splits if_splits)
    from authenticate_Some [OF v [unfolded this]] obtain c e u where j: "credential_join s c = Some (e, u)" "usr_disabled_at u = None"
      "au = from_device (dev_owner e) (dev_id e) (usr_email u) (usr_role u) (usr_must_change_password u)" by metis
    have "find_row usr_id (dev_owner e) (users s) = Some u" using j(1) by (auto simp: credential_join_def split: option.splits)
    then show thesis using that [of u] j(2,3) find_row_Some [of usr_id "dev_owner e" "users s" u] by (simp add: from_device_def)
  qed
qed

lemma disabled_rows:
  assumes u: "update_account x st now user hs account quota (Some True) s = (s', Inr ())" and d: "distinct (map usr_id (users s))"
  shows "distinct (map usr_id (users s'))" and "\<And>u. u \<in> set (users s') \<Longrightarrow> usr_id u = account \<Longrightarrow> usr_disabled_at u \<noteq> None"
    and "\<And>r. r \<in> set (sessions s') \<Longrightarrow> ses_user r = account \<Longrightarrow> ses_revoked_at r \<noteq> None"
proof -
  obtain existing where e: "existing \<in> set (users s)" "usr_id existing = account" "managed_member (au_id user) existing"
    and us: "users s' = update_where (\<lambda>u. usr_id u = account \<and> managed_member (au_id user) u) (set_account now quota (Some True)) (users s)"
    and ss: "sessions s' = sessions (revoke_where (\<lambda>r. ses_user r = account) now s)"
    using u by (cases rule: update_account_Inr) simp
  have i: "usr_id (set_account now quota (Some True) u) = usr_id u" "usr_disabled_at (set_account now quota (Some True) u) \<noteq> None" for u
    by (simp_all add: set_account_def split: option.splits)
  show "distinct (map usr_id (users s'))" using d i(1) by (simp add: us map_key_update_where)
  show "usr_disabled_at v \<noteq> None" if v: "v \<in> set (users s')" "usr_id v = account" for v
  proof -
    obtain w where w: "w \<in> set (users s)" "v = (if usr_id w = account \<and> managed_member (au_id user) w then set_account now quota (Some True) w else w)"
      using v(1) by (auto simp: us set_update_where)
    have "usr_id w = account" using w(2) v(2) i(1) by (auto split: if_splits)
    then have "w = existing" by (intro distinct_key_unique [OF d w(1) e(1)]) (simp only: e(2))
    then have "v = set_account now quota (Some True) existing" using w(2) e(2,3) by (simp only: simp_thms if_True)
    then show ?thesis using i(2) by (simp only: not_False_eq_True)
  qed
  show "ses_revoked_at r \<noteq> None" if r: "r \<in> set (sessions s')" "ses_user r = account" for r
    using r unfolding ss revoke_where_def by (simp add: set_update_where) (elim disjE imageE conjE, simp_all)
qed

text \<open>
  C33. Disabling an account locks it out of every way into the service: afterwards no cookie and
  no device token authenticates it, none of its API keys is found, and no login succeeds for it.
  Its sessions are revoked, and under every later sequence of session events they stay so.
\<close>

theorem disabled_account_locked_out:
  assumes u: "update_account x st now user hs account quota (Some True) s = (s', Inr ())" and ok: "session_ok s"
  shows "(\<forall>t m path hs' s2 au. from_request_parts x st t m path hs' None s' = (s2, Inr au) \<longrightarrow> au_id au \<noteq> account)
    \<and> (\<forall>t token k o'. find_key x t token s' = Some (k, o') \<longrightarrow> apk_owner k \<noteq> account)
    \<and> (\<forall>env email pw bs st2 resp. login x st env email pw (bs, s') = (st2, Inr resp) \<longrightarrow> ur_id (lr_user resp) \<noteq> account)
    \<and> (\<forall>es r. r \<in> set (sessions s') \<longrightarrow> ses_user r = account \<longrightarrow> session_revoked (ses_id r) (fold (session_step x st) es s'))"
proof -
  have d: "distinct (map usr_id (users s))" using ok by (simp add: session_ok_def)
  note rows = disabled_rows [OF u d]
  have 1: "au_id au \<noteq> account" if "from_request_parts x st t m path hs' None s' = (s2, Inr au)" for t m path hs' s2 au
    using from_request_parts_account [OF that rows(1)] rows(2) by metis
  have 2: "apk_owner k \<noteq> account" if "find_key x t token s' = Some (k, v)" for t token k v
    using key_owner_Some [OF find_key_Some(4) [OF that]] rows(2) by metis
  have 3: "ur_id (lr_user resp) \<noteq> account" if "login x st env email pw (bs, s') = (st2, Inr resp)" for env email pw bs st2 resp
  proof -
    obtain bs2 s2 where "st2 = (bs2, s2)" by (cases st2)
    with that have "login x st env email pw (bs, s') = ((bs2, s2), Inr resp)" by simp
    from login_Inr [OF this] obtain w where w: "w \<in> set (users s')" "usr_disabled_at w = None" "login_verified x st env w (le_between env s') = (s2, Inr resp)" by metis
    have "lr_user resp = public_user w"
      using w(3) by (auto simp: login_verified_def Let_def bindE_Inr_iff split: sum.splits)
    then have "ur_id (lr_user resp) = usr_id w" by (simp add: public_user_def)
    then show ?thesis using rows(2) [OF w(1)] w(2) by metis
  qed
  have ok': "session_ok s'"
    using u
  proof (cases rule: update_account_Inr)
    case (1 existing)
    have "map usr_id (users s') = map usr_id (users s)" by (simp add: 1(7) map_key_update_where set_account_def)
    then have "session_ok (s\<lparr>users := users s'\<rparr>)" using ok by (auto simp: session_ok_def simp flip: set_map)
    then have "session_ok (revoke_where (\<lambda>r. ses_user r = account) now (s\<lparr>users := users s'\<rparr>))"
      using revoke_where_safe by (simp add: session_safe_def)
    then show ?thesis using 1(8) by (simp add: session_ok_def revoke_where_def)
  qed
  have 4: "session_revoked (ses_id r) (fold (session_step x st) es s')" if "r \<in> set (sessions s')" "ses_user r = account" for es r
  proof (rule session.run_final [OF ok'])
    have "ses_revoked_at q \<noteq> None" if "q \<in> set (sessions s')" "ses_id q = ses_id r" for q
      using distinct_key_unique [of ses_id "sessions s'" q r] ok' that \<open>r \<in> _\<close> \<open>ses_user r = _\<close> rows(3) by (auto simp: session_ok_def)
    then show "session_revoked (ses_id r) s'" using that(1) by (simp add: session_revoked_def settled_def)
  qed
  show ?thesis using 1 2 3 4 by blast
qed


section \<open>New accounts\<close>

text \<open>What the service relies on: a password verifies against its own Argon2 hash, and PostgreSQL's
  \<open>lower\<close> keeps an address that Rust has put into lower case.\<close>

definition hashing :: "externals \<Rightarrow> bool" where
  "hashing x \<longleftrightarrow> (\<forall>salt p h. hash_password x salt p = Some h \<longrightarrow> hash_parses x h \<and> verify_hash x h p)"

definition lower_stable :: "externals \<Rightarrow> bool" where
  "lower_stable x \<longleftrightarrow> (\<forall>e. sql_lower x (to_lowercase x e) = to_lowercase x e)"

lemma temporary_password_short:
  assumes "token_codec x" and "ae_raw env = Some raw" and "length raw = 32" and "create_temporary_password_hash x env = Inr (password, hash)"
  shows "text_len (lit password) \<le> 1024"
proof -
  have p: "password = b64_encode x raw"
    using assms(2,4) by (auto simp: create_temporary_password_hash_def secure_token_def bindE_Inr_iff okOr_Inr_iff)
  have c: "list_all token_char password" "length password = 43" using assms(1,3) unfolding p token_codec_def by auto
  have "list_all (\<lambda>c. c < 128) (lit password)"
    using c(1) by (auto simp: list_all_iff lit_def token_char_def ascii_alnum_def)
  then show ?thesis using c(2) by (simp add: text_len_ascii lit_def)
qed

text \<open>
  C34. The temporary password of a new account works: unless too many attempts for the address
  were made, a login with it and the address the account was created for opens a session of
  exactly that account, which still has to change its password.
\<close>

theorem created_account_logs_in:
  assumes c: "create_account x st env user hs raw_email quota s = (s', Inr (a, password))"
    and codec: "token_codec x" "ae_raw env = Some raw" "length raw = 32" and ext: "hashing x" "lower_stable x"
    and free: "snd (retry_after_at (identity_digest x (to_lowercase x (trim raw_email))) (le_checked_at le) bs) = None"
    and le: "le_between le s' = s'" "le_session_raw le = Some sraw" "le_csrf_raw le = Some craw"
      "session_expiry (session_ttl_seconds st) (le_now le) = Inr e" "digest_size x"
      "\<forall>r \<in> set (sessions s'). ses_id r \<noteq> le_session_id le \<and> ses_token_digest r \<noteq> sha256 x sraw"
  shows "\<exists>bs' s2 resp. login x st le raw_email (lit password) (bs, s') = ((bs', s2), Inr resp)
    \<and> ur_id (lr_user resp) = as_id a \<and> ur_must_change_password (lr_user resp)
    \<and> map ses_user (sessions s2) = map ses_user (sessions s') @ [as_id a]"
  using c
proof (cases rule: create_account_Inr)
  case (1 hash u s1)
  let ?email = "to_lowercase x (trim raw_email)"
  have u: "usr_id u = as_id a" "usr_email u = ?email" "usr_password_hash u = hash" "usr_disabled_at u = None" "usr_must_change_password u"
    using 1(4,7) by simp_all
  have ins: "users s' = users s @ [u]" "\<forall>r \<in> set (users s). usr_id r \<noteq> usr_id u \<and> sql_lower x (usr_email r) \<noteq> sql_lower x ?email"
    using 1(4-6) by (auto simp: insert_user_def bindE_Inr_iff guardE_Inr_iff add_audit_def)
  have low: "sql_lower x ?email = ?email" using ext(2) by (simp add: lower_stable_def)
  have fu: "find (\<lambda>u. sql_lower x (usr_email u) = ?email \<and> usr_disabled_at u = None) (users s') = Some u"
    unfolding ins(1) by (rule find_append_new) (use ins(2) u low in auto)
  have fi: "find (\<lambda>v. usr_id v = usr_id u \<and> usr_disabled_at v = None) (users s') = Some u"
    unfolding ins(1) by (rule find_append_new) (use ins(2) u in auto)
  have "hash_parses x hash" "verify_hash x hash (lit password)"
    using ext(1) 1(2) by (auto simp: hashing_def create_temporary_password_hash_def bindE_Inr_iff okOr_Inr_iff)
  moreover have "text_len (lit password) \<le> 1024" by (rule temporary_password_short [OF codec 1(2)])
  ultimately have pw: "text_len (lit password) \<le> 1024
      \<and> verify_login_password x (le_dummy_hash le) (map_option usr_password_hash (Some u)) (lit password)"
    using u by (simp add: verify_login_password_def)
  have us: "usr_id u \<in> usr_id ` set (users s')" by (simp add: ins(1))
  have "\<exists>s2. open_session x u (le_session_id le) sraw craw e (le_now le) s' = Inr s2
      \<and> map ses_user (sessions s2) = map ses_user (sessions s') @ [usr_id u]"
    using le(5,6) us by (simp add: open_session_def fi insert_session_def digest_size_def add_audit_def)
  then obtain s2 where s2: "open_session x u (le_session_id le) sraw craw e (le_now le) s' = Inr s2"
    "map ses_user (sessions s2) = map ses_user (sessions s') @ [usr_id u]" by blast
  have v: "\<exists>resp. login_verified x st le u s' = (s2, Inr resp) \<and> lr_user resp = public_user u"
    using le(1-4) s2(1) by (simp add: login_verified_def secure_token_def)
  then obtain resp where resp: "login_verified x st le u s' = (s2, Inr resp)" "lr_user resp = public_user u" by blast
  obtain bs1 where bs1: "retry_after_at (identity_digest x ?email) (le_checked_at le) bs = (bs1, None)"
    using free by (metis prod.collapse)
  have "login x st le raw_email (lit password) (bs, s') = ((clear (identity_digest x ?email) (le_meanwhile le bs1), s2), Inr resp)"
    using bs1 fu pw resp(1) 1(3) le(1) by (simp add: login_phase_defs)
  then show ?thesis using resp(2) u s2(2) by (auto simp: public_user_def)
qed


section \<open>Witnesses\<close>

definition demo_member :: user_row where
  "demo_member = \<lparr>usr_id = 2, usr_email = lit ''m@b.c'', usr_password_hash = ''h'', usr_role = Member,
     usr_created_at = 0, usr_updated_at = 0, usr_managed_by = Some 1, usr_quota_bytes = Some 10,
     usr_disabled_at = None, usr_must_change_password = False\<rparr>"

definition demo_family :: db where
  "demo_family = empty_db\<lparr>users := [demo_user, demo_member]\<rparr>"

definition demo_account_env :: account_env where
  "demo_account_env = \<lparr>ae_now = 5, ae_raw = Some zero_raw, ae_salt = [], ae_id = 3, ae_answered_at = 6\<rparr>"

lemma demo_auth_owner: "au_role demo_auth = Owner" by (simp add: demo_auth_def from_api_def)

lemma demo_managed: "managed_member 1 demo_member" "\<not> managed_member 1 demo_user" "usr_id demo_member = 2" "usr_disabled_at demo_member = None"
  by (simp_all add: managed_member_def demo_member_def)

lemma demo_update:
  assumes "quota = None \<or> quota = Some 7" and "\<not> (quota = None \<and> disabled = None)"
  shows "\<exists>s'. update_account sample_externals demo_settings 5 demo_auth [] 2 quota disabled demo_family = (s', Inr ())"
proof -
  have "account_usage 2 5 demo_family = Inr (0, 0)"
    by (simp add: account_usage_def account_used_bytes_def open_uploads_def demo_family_def empty_db_def bigint_def map_filter_def)
  then have "check_new_quota 2 5 quota demo_family = Inr ()" using assms(1) by (auto simp: check_new_quota_def)
  moreover have "quota_accepted quota" using assms(1) by (auto simp: quota_accepted_def MAX_ACCOUNT_QUOTA_BYTES_def)
  moreover have "users demo_family = [demo_user, demo_member]" by (simp add: demo_family_def)
  ultimately show ?thesis
    using assms(2) by (simp add: update_account_def require_owner_def require_account_csrf_def demo_auth_owner demo_managed Let_def)
qed

theorem disabled_account_locked_out_witness:
  "\<exists>s'. update_account sample_externals demo_settings 5 demo_auth [] 2 None (Some True) demo_family = (s', Inr ())
     \<and> (\<forall>token. \<not> (\<exists>k u. find_key sample_externals 6 token s' = Some (k, u) \<and> apk_owner k = 2))"
proof -
  obtain s' where u: "update_account sample_externals demo_settings 5 demo_auth [] 2 None (Some True) demo_family = (s', Inr ())"
    using demo_update [of None "Some True"] by auto
  have "session_ok demo_family" by (simp add: session_ok_def demo_family_def empty_db_def demo_managed)
  from disabled_account_locked_out [OF u this] have "\<forall>t token k v. find_key sample_externals t token s' = Some (k, v) \<longrightarrow> apk_owner k \<noteq> 2"
    by (elim conjE)
  then show ?thesis using u by (intro exI [of _ s'] conjI) auto
qed

theorem created_account_logs_in_witness:
  "\<exists>s' a password bs' s2 resp. create_account sample_externals demo_settings demo_account_env demo_auth [] (lit ''n@b.c'') 10 demo_family
      = (s', Inr (a, password))
     \<and> login sample_externals demo_settings demo_env (lit ''n@b.c'') (lit password) ([], s') = ((bs', s2), Inr resp)
     \<and> ur_must_change_password (lr_user resp)"
proof -
  have e: "to_ascii_lowercase (trim (lit ''n@b.c'')) = lit ''n@b.c''" "valid_email (lit ''n@b.c'')"
    by (simp_all add: trim_def trim_by_def lit_def is_whitespace_def to_ascii_lowercase_def ascii_lower_def
      valid_email_def text_len_def utf8_len_def)
  have p: "create_temporary_password_hash sample_externals demo_account_env
      = Inr (replicate 43 CHR ''A'', utf8_encode (lit (replicate 43 CHR ''A'')))"
    by (simp add: create_temporary_password_hash_def demo_account_env_def secure_token_def sample_zero sample_text)
  have low: "to_ascii_lowercase (lit ''n@b.c'') = [110, 64, 98, 46, 99]" "to_ascii_lowercase (usr_email demo_member) = [109, 64, 98, 46, 99]"
    "to_ascii_lowercase (usr_email demo_user) = [97, 64, 98, 46, 99]"
    by (simp_all add: lit_def to_ascii_lowercase_def ascii_lower_def demo_member_def demo_user_def)
  have ins: "insert_user to_ascii_lowercase u demo_family = Inr (demo_family\<lparr>users := [demo_user, demo_member, u]\<rparr>)"
    if "usr_id u = 3" "usr_email u = lit ''n@b.c''" "usr_role u = Member" "usr_managed_by u = Some 1" "usr_quota_bytes u = Some 10" for u
    using that low by (simp add: insert_user_def user_row_check_def demo_family_def find_row_def demo_managed)
  have "ae_id demo_account_env = 3" by (simp add: demo_account_env_def)
  then obtain s' a where c: "create_account sample_externals demo_settings demo_account_env demo_auth [] (lit ''n@b.c'') 10 demo_family
      = (s', Inr (a, replicate 43 CHR ''A''))" and s': "sessions s' = []"
    by (simp add: create_account_def require_owner_def require_account_csrf_def demo_auth_owner sample_text e p
        MAX_ACCOUNT_QUOTA_BYTES_def ins add_audit_def Let_def) (simp add: demo_family_def empty_db_def)
  have "hashing sample_externals" "lower_stable sample_externals"
    by (auto simp: hashing_def lower_stable_def sample_text to_ascii_lowercase_def ascii_lower_def)
  moreover have "snd (retry_after_at (identity_digest sample_externals (to_lowercase sample_externals (trim (lit ''n@b.c'')))) (le_checked_at demo_env) []) = None"
    by (simp add: retry_after_at_def prune_buckets_def bucket_get_def Let_def)
  moreover have "session_expiry (session_ttl_seconds demo_settings) (le_now demo_env) = Inr 3600000007"
    by (simp add: session_expiry_def chrono_max_def seconds_def demo_settings_def demo_env_def)
  ultimately show ?thesis
    using created_account_logs_in [OF c sample_codec, of zero_raw demo_env "[]" zero_raw zero_raw 3600000007] c s' sample_digest_size zero_raw_length
    by (fastforce simp: demo_account_env_def demo_env_def)
qed

end
