(* ===== verification/Config.thy ===== *)
theory Config
  imports Credentials Complex_Main "HOL-Library.Log_Nat"
begin

text \<open>
  The configuration of the server: \<open>src/config.rs\<close>. The environment is the argument
  \<open>vars\<close>; the parser of URLs is a crate and a field of \<open>config_crates\<close>, together with
  the Unicode lower case. Socket addresses and floating-point numbers are parsed as Rust's
  standard library does. The main theorem is the type of an accepted configuration.
\<close>

section \<open>Numbers and addresses of the standard library\<close>

text \<open>
  \<open>f64::from_str\<close>: sign, digits with at most one point, exponent. A double is the rational
  number it denotes, rounded to nearest, ties to even; the two zeros are one number.
\<close>

definition span_digits :: "string \<Rightarrow> string \<times> string" where
  "span_digits s = (takeWhile is_digit s, dropWhile is_digit s)"

definition exponent_of :: "string \<Rightarrow> int option" where
  "exponent_of s =
     (let (neg, t) = (case s of c # r \<Rightarrow> if c = CHR ''-'' then (True, r) else if c = CHR ''+'' then (False, r) else (False, s)
                      | [] \<Rightarrow> (False, s)) in
      if t = [] \<or> \<not> list_all is_digit t then None
      else Some (if neg then - int (digits_value t) else int (digits_value t)))"

definition parse_decimal :: "string \<Rightarrow> rat option" where
  "parse_decimal s =
     (let (whole, r) = span_digits s;
          (frac, r') = (case r of c # t \<Rightarrow> if c = CHR ''.'' then span_digits t else ([], r) | [] \<Rightarrow> ([], r))
      in if whole @ frac = [] then None
         else
           let mantissa = of_nat (digits_value (whole @ frac)) * 10 powi (- int (length frac)) in
           case r' of
             [] \<Rightarrow> Some mantissa
           | c # t \<Rightarrow>
               if c = CHR ''e'' \<or> c = CHR ''E'' then map_option (\<lambda>e. mantissa * 10 powi e) (exponent_of t) else None)"

definition binary_exponent :: "rat \<Rightarrow> int" where
  "binary_exponent v =
     (case quotient_of v of
        (a, b) \<Rightarrow> let e = int (floorlog 2 (nat a)) - int (floorlog 2 (nat b)) in if 2 powi e \<le> v then e else e - 1)"

definition round_even :: "rat \<Rightarrow> int" where
  "round_even q =
     (let f = floor q; d = q - of_int f in
      if d < 1 / 2 then f else if 1 / 2 < d then f + 1 else if even f then f else f + 1)"

definition nearest_f64 :: "rat \<Rightarrow> rat" where
  "nearest_f64 v =
     (if v = 0 then 0
      else let ulp = 2 powi (max (binary_exponent v) (- 1022) - 52) in of_int (round_even (v / ulp)) * ulp)"

datatype f64 = NaN | Infinite bool | Finite rat

definition to_f64 :: "bool \<Rightarrow> rat \<Rightarrow> f64" where
  "to_f64 neg v =
     (if 2 ^ 1024 \<le> nearest_f64 v then Infinite neg
      else Finite (if neg then - nearest_f64 v else nearest_f64 v))"

definition parse_f64 :: "string \<Rightarrow> f64 option" where
  "parse_f64 s =
     (case s of
        [] \<Rightarrow> None
      | c # r \<Rightarrow>
          let neg = (c = CHR ''-''); t = (if c = CHR ''-'' \<or> c = CHR ''+'' then r else s);
              low = to_ascii_lowercase (lit t)
          in case parse_decimal t of
               Some v \<Rightarrow> Some (to_f64 neg v)
             | None \<Rightarrow> if low = lit ''nan'' then Some NaN
                       else if low = lit ''inf'' \<or> low = lit ''infinity'' then Some (Infinite neg) else None)"

text \<open>
  \<open>SocketAddr::from_str\<close>, on the bytes that are left: a reader returns what it has read and
  the rest, and a reader that fails leaves the bytes to the next alternative.
\<close>

type_synonym 'a reader = "string \<Rightarrow> ('a \<times> string) option"

definition to_digit :: "nat \<Rightarrow> char \<Rightarrow> nat option" where
  "to_digit radix c =
     (let n = (of_char c :: nat);
          v = (if 48 \<le> n \<and> n \<le> 57 then n - 48 else if 97 \<le> n \<and> n \<le> 122 then n - 87
               else if 65 \<le> n \<and> n \<le> 90 then n - 55 else 36)
      in if v < radix then Some v else None)"

definition read_char :: "char \<Rightarrow> unit reader" where
  "read_char c s = (case s of d # r \<Rightarrow> if d = c then Some ((), r) else None | [] \<Rightarrow> None)"

definition radix_value :: "nat \<Rightarrow> string \<Rightarrow> nat" where
  "radix_value radix ds = foldl (\<lambda>n c. radix * n + (case to_digit radix c of None \<Rightarrow> 0 | Some d \<Rightarrow> d)) 0 ds"

definition read_number :: "nat \<Rightarrow> nat option \<Rightarrow> bool \<Rightarrow> nat \<Rightarrow> nat reader" where
  "read_number radix max_digits allow_zero_prefix bound s =
     (let ds = takeWhile (\<lambda>c. to_digit radix c \<noteq> None) s; v = radix_value radix ds in
      if ds = [] \<or> (case max_digits of None \<Rightarrow> False | Some n \<Rightarrow> n < length ds)
         \<or> (\<not> allow_zero_prefix \<and> hd ds = CHR ''0'' \<and> 1 < length ds) \<or> bound \<le> v
      then None else Some (v, drop (length ds) s))"


definition then_read :: "'a reader \<Rightarrow> ('a \<Rightarrow> 'b reader) \<Rightarrow> 'b reader" where
  "then_read p f s = (case p s of None \<Rightarrow> None | Some (a, r) \<Rightarrow> f a r)"

definition return_read :: "'a \<Rightarrow> 'a reader" where
  "return_read a s = Some (a, s)"

definition read_separator :: "char \<Rightarrow> nat \<Rightarrow> 'a reader \<Rightarrow> 'a reader" where
  "read_separator sep i p = (if 0 < i then then_read (read_char sep) (\<lambda>_. p) else p)"

definition read_octet :: "nat reader" where
  "read_octet = read_number 10 (Some 3) False 256"

definition read_ipv4_addr :: "nat list reader" where
  "read_ipv4_addr =
     then_read read_octet (\<lambda>a.
     then_read (read_separator CHR ''.'' 1 read_octet) (\<lambda>b.
     then_read (read_separator CHR ''.'' 2 read_octet) (\<lambda>c.
     then_read (read_separator CHR ''.'' 3 read_octet) (\<lambda>d. return_read [a, b, c, d]))))"

text \<open>Up to \<open>n\<close> further groups from the \<open>i\<close>-th on; \<open>True\<close> when they end with an embedded IPv4 address.\<close>

fun read_groups :: "nat \<Rightarrow> nat \<Rightarrow> string \<Rightarrow> nat list \<times> bool \<times> string" where
  "read_groups i 0 s = ([], False, s)"
| "read_groups i (Suc n) s =
     (case (if 0 < n then read_separator CHR '':'' i read_ipv4_addr s else None) of
        Some (octets, r) \<Rightarrow> ([octets ! 0 * 256 + octets ! 1, octets ! 2 * 256 + octets ! 3], True, r)
      | None \<Rightarrow>
          (case read_separator CHR '':'' i (read_number 16 (Some 4) True 65536) s of
             None \<Rightarrow> ([], False, s)
           | Some (g, r) \<Rightarrow> (case read_groups (Suc i) n r of (gs, v4, r') \<Rightarrow> (g # gs, v4, r'))))"

definition read_ipv6_addr :: "nat list reader" where
  "read_ipv6_addr s =
     (case read_groups 0 8 s of
        (groups, ipv4, r) \<Rightarrow>
          if length groups = 8 then Some (groups, r)
          else if ipv4 then None
          else then_read (read_char CHR '':'') (\<lambda>_.
               then_read (read_char CHR '':'') (\<lambda>_ t.
                 case read_groups 0 (8 - (length groups + 1)) t of
                   (rear, _, r') \<Rightarrow>
                     Some (groups @ replicate (8 - length groups - length rear) 0 @ rear, r'))) r)"

definition read_port :: "nat reader" where
  "read_port = then_read (read_char CHR '':'') (\<lambda>_. read_number 10 None True 65536)"

definition read_scope_id :: "nat reader" where
  "read_scope_id s =
     (case then_read (read_char CHR ''%'') (\<lambda>_. read_number 10 None True (2 ^ 32)) s of
        None \<Rightarrow> Some (0, s)
      | Some v \<Rightarrow> Some v)"

datatype socket_addr = V4 "nat list" nat | V6 "nat list" nat nat

definition parse_socket_addr :: "string \<Rightarrow> socket_addr option" where
  "parse_socket_addr s =
     (case (case then_read read_ipv4_addr (\<lambda>ip. then_read read_port (\<lambda>port. return_read (V4 ip port))) s of
              Some v \<Rightarrow> Some v
            | None \<Rightarrow>
                then_read (read_char CHR ''['') (\<lambda>_. then_read read_ipv6_addr (\<lambda>ip. then_read read_scope_id (\<lambda>scope.
                then_read (read_char CHR '']'') (\<lambda>_. then_read read_port (\<lambda>port. return_read (V6 ip scope port)))))) s) of
        None \<Rightarrow> None
      | Some (a, r) \<Rightarrow> if r = [] then Some a else None)"

section \<open>Reading variables\<close>

datatype config_error =
    Missing string | Invalid string | PartialBootstrapCredentials | MissingExpectedDevice
  | MissingMediaPreviewDevice | PartialGoogleDrive | ConfigPanicked

type_synonym vars = "string \<Rightarrow> ustr option"

definition nonempty :: "vars \<Rightarrow> string \<Rightarrow> ustr option" where
  "nonempty vs name =
     (case vs name of None \<Rightarrow> None | Some v \<Rightarrow> if trim v = [] then None else Some (trim v))"

definition required :: "vars \<Rightarrow> string \<Rightarrow> config_error + ustr" where
  "required vs name = okOr (nonempty vs name) (Missing name)"

text \<open>A path is its text; its components leave out empty and \<open>.\<close> segments, and paths are compared by them.\<close>

definition is_absolute :: "ustr \<Rightarrow> bool" where
  "is_absolute path \<longleftrightarrow> path \<noteq> [] \<and> hd path = 47"

definition path_segments :: "ustr \<Rightarrow> ustr list" where
  "path_segments path = filter (\<lambda>c. c \<noteq> [] \<and> c \<noteq> lit ''.'') (split_on 47 path)"

definition path_starts_with :: "ustr \<Rightarrow> ustr \<Rightarrow> bool" where
  "path_starts_with path base \<longleftrightarrow> take (length (path_segments base)) (path_segments path) = path_segments base"

definition same_path :: "ustr \<Rightarrow> ustr \<Rightarrow> bool" where
  "same_path a b \<longleftrightarrow> path_segments a = path_segments b"

definition path_from_value :: "ustr \<Rightarrow> string \<Rightarrow> config_error + ustr" where
  "path_from_value v name = (if is_absolute (trim v) then Inr (trim v) else Inl (Invalid name))"

definition absolute_path :: "vars \<Rightarrow> string \<Rightarrow> config_error + ustr" where
  "absolute_path vs name = bindE (required vs name) (\<lambda>v. path_from_value v name)"

definition path_or :: "vars \<Rightarrow> string \<Rightarrow> ustr \<Rightarrow> config_error + ustr" where
  "path_or vs name fallback = (case nonempty vs name of Some v \<Rightarrow> path_from_value v name | None \<Rightarrow> Inr fallback)"

definition valid_device_id :: "ustr \<Rightarrow> bool" where
  "valid_device_id v =
     (case split_once 58 v of
        None \<Rightarrow> False
      | Some (major, minor) \<Rightarrow> parse_unsigned 32 (utf8_encode major) \<noteq> None \<and> parse_unsigned 32 (utf8_encode minor) \<noteq> None)"

definition bool_value :: "vars \<Rightarrow> string \<Rightarrow> bool \<Rightarrow> config_error + bool" where
  "bool_value vs name fallback =
     (case nonempty vs name of
        Some v \<Rightarrow> if to_ascii_lowercase v = lit ''true'' then Inr True
                  else if to_ascii_lowercase v = lit ''false'' then Inr False else Inl (Invalid name)
      | None \<Rightarrow> Inr fallback)"

definition u64_value :: "vars \<Rightarrow> string \<Rightarrow> nat \<Rightarrow> config_error + nat" where
  "u64_value vs name fallback =
     (case nonempty vs name of Some v \<Rightarrow> okOr (parse_u64 (utf8_encode v)) (Invalid name) | None \<Rightarrow> Inr fallback)"

definition f64_value :: "vars \<Rightarrow> string \<Rightarrow> rat \<Rightarrow> config_error + rat" where
  "f64_value vs name fallback =
     (case nonempty vs name of
        Some v \<Rightarrow>
          (case parse_f64 (utf8_encode v) of
             Some (Finite q) \<Rightarrow> if 0 \<le> q \<and> q \<le> 100 then Inr q else Inl (Invalid name)
           | _ \<Rightarrow> Inl (Invalid name))
      | None \<Rightarrow> Inr fallback)"

definition ttl_value :: "vars \<Rightarrow> string \<Rightarrow> nat \<Rightarrow> config_error + nat" where
  "ttl_value vs name fallback =
     bindE (u64_value vs name fallback) (\<lambda>n.
     bindE (guardE (\<not> (n = 0 \<or> 2 ^ 63 \<le> n)) (Invalid name)) (\<lambda>_. Inr n))"

section \<open>The Google Drive settings\<close>

record url =
  url_scheme :: string
  url_host :: "ustr option"
  url_username :: ustr
  url_password :: "ustr option"
  url_path :: ustr
  url_query :: "ustr option"
  url_fragment :: "ustr option"

record config_crates =
  parse_url :: "ustr \<Rightarrow> url option"
  lowercase :: "ustr \<Rightarrow> ustr"

definition valid_oauth_client_value :: "ustr \<Rightarrow> nat \<Rightarrow> nat \<Rightarrow> bool" where
  "valid_oauth_client_value v lo hi \<longleftrightarrow> lo \<le> text_len v \<and> text_len v \<le> hi
     \<and> list_all (\<lambda>b. let n = (of_char b :: nat) in 33 \<le> n \<and> n \<le> 126 \<and> n \<noteq> 34 \<and> n \<noteq> 92 \<and> n \<noteq> 38) (utf8_encode v)"

definition valid_redirect_uri :: "config_crates \<Rightarrow> ustr \<Rightarrow> bool" where
  "valid_redirect_uri c v =
     (case parse_url c v of
        None \<Rightarrow> False
      | Some u \<Rightarrow>
          16 \<le> text_len v \<and> text_len v \<le> 500 \<and> \<not> list_ex (\<lambda>k. is_whitespace k \<or> is_control k) v
          \<and> url_username u = [] \<and> url_password u = None \<and> url_query u = None \<and> url_fragment u = None
          \<and> url_path u = lit ''/api/google-drive/callback'' \<and> url_host u \<noteq> None
          \<and> (url_scheme u = ''https''
             \<or> (url_scheme u = ''http'' \<and> url_host u \<in> {Some (lit ''localhost''), Some (lit ''127.0.0.1''), Some (lit ''[::1]'')})))"

text \<open>
  The key is read two bytes at a time: a slice that ends inside a character panics, and
  \<open>u8::from_str_radix\<close> takes two hexadecimal digits or a plus sign and one.
\<close>

definition hex_byte :: "nat \<Rightarrow> nat \<Rightarrow> nat option" where
  "hex_byte a b =
     (case to_digit 16 (char_of b) of
        None \<Rightarrow> None
      | Some low \<Rightarrow>
          if a = 43 then Some low else map_option (\<lambda>high. 16 * high + low) (to_digit 16 (char_of a)))"

fun decode_pairs :: "ustr \<Rightarrow> config_error + nat list option" where
  "decode_pairs [] = Inr (Some [])"
| "decode_pairs (a # s) =
     (if utf8_len a = 2 then Inr None
      else if utf8_len a \<noteq> 1 then Inl ConfigPanicked
      else case s of
        [] \<Rightarrow> Inl ConfigPanicked
      | b # r \<Rightarrow>
          if utf8_len b \<noteq> 1 then Inl ConfigPanicked
          else case hex_byte a b of
            None \<Rightarrow> Inr None
          | Some v \<Rightarrow> bindE (decode_pairs r) (\<lambda>vs. Inr (map_option ((#) v) vs)))"

definition decode_token_key :: "ustr \<Rightarrow> config_error + nat list option" where
  "decode_token_key v = (if text_len v \<noteq> 64 then Inr None else decode_pairs v)"

record drive_settings =
  gd_client_id :: ustr
  gd_client_secret :: ustr
  gd_redirect_uri :: ustr
  gd_token_key :: "nat list"

definition token_key :: "ustr \<Rightarrow> config_error + nat list" where
  "token_key v = bindE (decode_token_key v) (\<lambda>k. okOr k (Invalid ''GOOGLE_DRIVE_TOKEN_KEY''))"

definition google_drive_settings :: "config_crates \<Rightarrow> vars \<Rightarrow> config_error + drive_settings option" where
  "google_drive_settings c vs =
     (case (nonempty vs ''GOOGLE_OAUTH_CLIENT_ID'', nonempty vs ''GOOGLE_OAUTH_CLIENT_SECRET'',
            nonempty vs ''GOOGLE_OAUTH_REDIRECT_URI'', nonempty vs ''GOOGLE_DRIVE_TOKEN_KEY'') of
        (None, None, None, None) \<Rightarrow> Inr None
      | (None, None, None, Some key) \<Rightarrow>
          bindE (token_key key) (\<lambda>k.
            Inr (Some \<lparr>gd_client_id = [], gd_client_secret = [], gd_redirect_uri = [], gd_token_key = k\<rparr>))
      | (Some client_id, Some client_secret, Some redirect_uri, Some key) \<Rightarrow>
          bindE (guardE (valid_oauth_client_value client_id 10 200) (Invalid ''GOOGLE_OAUTH_CLIENT_ID'')) (\<lambda>_.
          bindE (guardE (valid_oauth_client_value client_secret 8 256) (Invalid ''GOOGLE_OAUTH_CLIENT_SECRET'')) (\<lambda>_.
          bindE (guardE (valid_redirect_uri c redirect_uri) (Invalid ''GOOGLE_OAUTH_REDIRECT_URI'')) (\<lambda>_.
          bindE (token_key key) (\<lambda>k.
            Inr (Some \<lparr>gd_client_id = client_id, gd_client_secret = client_secret, gd_redirect_uri = redirect_uri,
                       gd_token_key = k\<rparr>)))))
      | _ \<Rightarrow> Inl PartialGoogleDrive)"


section \<open>The configuration\<close>

record preview_config =
  mp_root :: ustr
  mp_expected_mount :: ustr
  mp_require_mount :: bool
  mp_require_device_match :: bool
  mp_expected_device :: "ustr option"

record config =
  cf_database_url :: ustr
  cf_bind_addr :: socket_addr
  cf_storage_root :: ustr
  cf_expected_mount :: ustr
  cf_require_mount :: bool
  cf_require_device_match :: bool
  cf_expected_device :: "ustr option"
  cf_media_preview :: "preview_config option"
  cf_max_file_size :: nat
  cf_owner_quota_bytes :: nat
  cf_min_free_bytes :: nat
  cf_min_free_percent :: rat
  cf_upload_session_ttl_seconds :: nat
  cf_trash_retention_days :: nat
  cf_session_ttl_seconds :: nat
  cf_document_preview_url :: "ustr option"
  cf_bootstrap_owner :: "(ustr \<times> ustr) option"
  cf_cookie_secure :: bool
  cf_google_drive :: "drive_settings option"

definition bind_addr_value :: "vars \<Rightarrow> config_error + socket_addr" where
  "bind_addr_value vs =
     (case nonempty vs ''BIND_ADDR'' of
        Some v \<Rightarrow> okOr (parse_socket_addr (utf8_encode v)) (Invalid ''BIND_ADDR'')
      | None \<Rightarrow> Inr (V4 [127, 0, 0, 1] 3000))"

definition invalid_device :: "ustr option \<Rightarrow> bool" where
  "invalid_device d \<longleftrightarrow> (case d of None \<Rightarrow> False | Some v \<Rightarrow> \<not> valid_device_id v)"

text \<open>One root inside the other, or the same.\<close>

definition overlapping :: "ustr \<Rightarrow> ustr \<Rightarrow> bool" where
  "overlapping a b \<longleftrightarrow> same_path a b \<or> path_starts_with a b \<or> path_starts_with b a"

definition preview_names :: "string list" where
  "preview_names = [''MEDIA_PREVIEW_EXPECTED_MOUNT'', ''MEDIA_PREVIEW_REQUIRE_MOUNT'',
     ''MEDIA_PREVIEW_REQUIRE_DEVICE_MATCH'', ''MEDIA_PREVIEW_EXPECTED_DEVICE'']"

definition media_preview_config :: "vars \<Rightarrow> ustr \<Rightarrow> ustr \<Rightarrow> bool \<Rightarrow> bool \<Rightarrow> ustr option
    \<Rightarrow> config_error + preview_config option" where
  "media_preview_config vs storage_root expected_mount require_mount require_device_match expected_device =
     (case nonempty vs ''MEDIA_PREVIEW_ROOT'' of
        Some v \<Rightarrow>
          bindE (path_from_value v ''MEDIA_PREVIEW_ROOT'') (\<lambda>root.
          bindE (path_or vs ''MEDIA_PREVIEW_EXPECTED_MOUNT'' root) (\<lambda>preview_mount.
          bindE (bool_value vs ''MEDIA_PREVIEW_REQUIRE_MOUNT'' True) (\<lambda>preview_require_mount.
          bindE (bool_value vs ''MEDIA_PREVIEW_REQUIRE_DEVICE_MATCH'' True) (\<lambda>preview_match.
          let device = nonempty vs ''MEDIA_PREVIEW_EXPECTED_DEVICE'' in
          bindE (guardE (\<not> (preview_match \<and> \<not> preview_require_mount)) (Invalid ''MEDIA_PREVIEW_REQUIRE_DEVICE_MATCH'')) (\<lambda>_.
          bindE (guardE (\<not> (preview_match \<and> device = None)) MissingMediaPreviewDevice) (\<lambda>_.
          bindE (guardE (\<not> invalid_device device) (Invalid ''MEDIA_PREVIEW_EXPECTED_DEVICE'')) (\<lambda>_.
          bindE (guardE (\<not> ((require_mount \<or> require_device_match) \<and> \<not> preview_require_mount)) (Invalid ''MEDIA_PREVIEW_REQUIRE_MOUNT'')) (\<lambda>_.
          bindE (guardE (\<not> ((require_mount \<or> require_device_match) \<and> \<not> preview_match)) (Invalid ''MEDIA_PREVIEW_REQUIRE_DEVICE_MATCH'')) (\<lambda>_.
          bindE (guardE (\<not> (preview_match \<and> \<not> require_device_match)) (Invalid ''STORAGE_REQUIRE_DEVICE_MATCH'')) (\<lambda>_.
          bindE (guardE (\<not> (overlapping root storage_root \<or> overlapping preview_mount expected_mount)) (Invalid ''MEDIA_PREVIEW_ROOT'')) (\<lambda>_.
          bindE (guardE (\<not> (expected_device \<noteq> None \<and> device = expected_device)) (Invalid ''MEDIA_PREVIEW_EXPECTED_DEVICE'')) (\<lambda>_.
            Inr (Some \<lparr>mp_root = root, mp_expected_mount = preview_mount, mp_require_mount = preview_require_mount,
                       mp_require_device_match = preview_match, mp_expected_device = device\<rparr>)))))))))))))
      | None \<Rightarrow>
          bindE (guardE (\<not> list_ex (\<lambda>name. nonempty vs name \<noteq> None) preview_names) (Invalid ''MEDIA_PREVIEW_ROOT'')) (\<lambda>_. Inr None))"

definition bootstrap_value :: "config_crates \<Rightarrow> vars \<Rightarrow> config_error + (ustr \<times> ustr) option" where
  "bootstrap_value c vs =
     (case (nonempty vs ''BOOTSTRAP_OWNER_EMAIL'', nonempty vs ''BOOTSTRAP_OWNER_PASSWORD'') of
        (None, None) \<Rightarrow> Inr None
      | (Some email, Some password) \<Rightarrow>
          bindE (guardE (\<not> text_len password < 16) (Invalid ''BOOTSTRAP_OWNER_PASSWORD'')) (\<lambda>_.
            Inr (Some (lowercase c (trim email), password)))
      | _ \<Rightarrow> Inl PartialBootstrapCredentials)"

definition document_preview_value :: "config_crates \<Rightarrow> vars \<Rightarrow> config_error + ustr option" where
  "document_preview_value c vs =
     (case nonempty vs ''DOCUMENT_PREVIEW_URL'' of
        None \<Rightarrow> Inr None
      | Some v \<Rightarrow>
          bindE (okOr (parse_url c v) (Invalid ''DOCUMENT_PREVIEW_URL'')) (\<lambda>u.
          bindE (guardE (\<not> (url_scheme u \<noteq> ''http'' \<or> url_host u = None \<or> url_username u \<noteq> [] \<or> url_password u \<noteq> None
                   \<or> url_path u \<noteq> lit ''/'' \<or> url_query u \<noteq> None \<or> url_fragment u \<noteq> None)) (Invalid ''DOCUMENT_PREVIEW_URL'')) (\<lambda>_.
            Inr (Some (rev (dropWhile (\<lambda>k. k = 47) (rev v)))))))"

definition from_vars :: "config_crates \<Rightarrow> vars \<Rightarrow> config_error + config" where
  "from_vars c vs =
     bindE (required vs ''DATABASE_URL'') (\<lambda>database_url.
     bindE (absolute_path vs ''STORAGE_ROOT'') (\<lambda>storage_root.
     bindE (path_or vs ''STORAGE_EXPECTED_MOUNT'' storage_root) (\<lambda>expected_mount.
     bindE (bind_addr_value vs) (\<lambda>bind_addr.
     bindE (bool_value vs ''STORAGE_REQUIRE_MOUNT'' True) (\<lambda>require_mount.
     bindE (bool_value vs ''STORAGE_REQUIRE_DEVICE_MATCH'' False) (\<lambda>require_device_match.
     let expected_device = nonempty vs ''STORAGE_EXPECTED_DEVICE'' in
     bindE (guardE (\<not> (require_device_match \<and> \<not> require_mount)) (Invalid ''STORAGE_REQUIRE_DEVICE_MATCH'')) (\<lambda>_.
     bindE (guardE (\<not> (require_device_match \<and> expected_device = None)) MissingExpectedDevice) (\<lambda>_.
     bindE (guardE (\<not> invalid_device expected_device) (Invalid ''STORAGE_EXPECTED_DEVICE'')) (\<lambda>_.
     bindE (media_preview_config vs storage_root expected_mount require_mount require_device_match expected_device) (\<lambda>media_preview.
     bindE (bootstrap_value c vs) (\<lambda>bootstrap_owner.
     bindE (ttl_value vs ''SESSION_TTL'' 604800) (\<lambda>session_ttl.
     bindE (ttl_value vs ''UPLOAD_SESSION_TTL'' 86400) (\<lambda>upload_ttl.
     bindE (ttl_value vs ''TRASH_RETENTION_DAYS'' 30) (\<lambda>retention.
     bindE (google_drive_settings c vs) (\<lambda>google_drive.
     bindE (document_preview_value c vs) (\<lambda>document_preview.
     bindE (u64_value vs ''MAX_FILE_SIZE'' (5 * 1024 * 1024 * 1024)) (\<lambda>max_file_size.
     bindE (u64_value vs ''OWNER_QUOTA_BYTES'' (100 * 1024 * 1024 * 1024)) (\<lambda>owner_quota.
     bindE (u64_value vs ''MIN_FREE_BYTES'' (5 * 1024 * 1024 * 1024)) (\<lambda>min_free.
     bindE (f64_value vs ''MIN_FREE_PERCENT'' 5) (\<lambda>min_free_percent.
     bindE (bool_value vs ''COOKIE_SECURE'' True) (\<lambda>cookie_secure.
       Inr \<lparr>cf_database_url = database_url, cf_bind_addr = bind_addr, cf_storage_root = storage_root,
            cf_expected_mount = expected_mount, cf_require_mount = require_mount,
            cf_require_device_match = require_device_match, cf_expected_device = expected_device,
            cf_media_preview = media_preview, cf_max_file_size = max_file_size, cf_owner_quota_bytes = owner_quota,
            cf_min_free_bytes = min_free, cf_min_free_percent = min_free_percent,
            cf_upload_session_ttl_seconds = upload_ttl, cf_trash_retention_days = retention,
            cf_session_ttl_seconds = session_ttl, cf_document_preview_url = document_preview,
            cf_bootstrap_owner = bootstrap_owner, cf_cookie_secure = cookie_secure, cf_google_drive = google_drive\<rparr>)))))))))))))))))))))"


section \<open>Accepted configurations\<close>

fun addr_ok :: "socket_addr \<Rightarrow> bool" where
  "addr_ok (V4 ip port) \<longleftrightarrow> length ip = 4 \<and> list_all (\<lambda>n. n < 256) ip \<and> port < 65536"
| "addr_ok (V6 ip scope port) \<longleftrightarrow> length ip = 8 \<and> list_all (\<lambda>n. n < 65536) ip \<and> scope < 2 ^ 32 \<and> port < 65536"

text \<open>A reader keeps to a set of values.\<close>

definition reads :: "'a reader \<Rightarrow> ('a \<Rightarrow> bool) \<Rightarrow> bool" where
  "reads p P \<longleftrightarrow> (\<forall>s a r. p s = Some (a, r) \<longrightarrow> P a)"

lemma reads_Some: "reads p P \<Longrightarrow> p s = Some (a, r) \<Longrightarrow> P a"
  by (auto simp: reads_def)

lemma reads_then: "reads p P \<Longrightarrow> (\<And>a. P a \<Longrightarrow> reads (f a) Q) \<Longrightarrow> reads (then_read p f) Q"
  unfolding reads_def then_read_def by (auto split: option.splits) blast

lemma reads_return: "P a \<Longrightarrow> reads (return_read a) P"
  by (simp add: reads_def return_read_def)

lemma reads_char: "reads (read_char c) (\<lambda>_. True)"
  by (simp add: reads_def)

lemma reads_number: "reads (read_number radix m z bound) (\<lambda>n. n < bound)"
  by (auto simp: reads_def read_number_def Let_def split: if_splits)

lemma reads_separator: "reads p P \<Longrightarrow> reads (read_separator c i p) P"
  by (auto simp: read_separator_def intro: reads_then reads_char)

lemma reads_ipv4: "reads read_ipv4_addr (\<lambda>ip. length ip = 4 \<and> list_all (\<lambda>n. n < 256) ip)"
  unfolding read_ipv4_addr_def read_octet_def
  by (rule reads_then, rule reads_number, rule reads_then, rule reads_separator, rule reads_number,
      rule reads_then, rule reads_separator, rule reads_number, rule reads_then, rule reads_separator, rule reads_number,
      rule reads_return) simp

lemma read_groups_ok:
  "read_groups i n s = (gs, v4, r) \<Longrightarrow> length gs \<le> n \<and> list_all (\<lambda>g. g < 65536) gs"
proof (induction i n s arbitrary: gs v4 r rule: read_groups.induct)
  case (1 i s)
  then show ?case by simp
next
  case (2 i n s)
  let ?v4 = "if 0 < n then read_separator CHR '':'' i read_ipv4_addr s else None"
  let ?g = "read_separator CHR '':'' i (read_number 16 (Some 4) True 65536) s"
  show ?case
  proof (cases ?v4)
    case (Some v)
    obtain ip q where v: "v = (ip, q)" by (cases v)
    have n: "0 < n" and ip: "length ip = 4 \<and> list_all (\<lambda>n. n < 256) ip"
      using Some v reads_Some [OF reads_separator [OF reads_ipv4]] by (auto split: if_splits)
    then have "ip ! 0 < 256" "ip ! 1 < 256" "ip ! 2 < 256" "ip ! 3 < 256" by (auto simp: list_all_length)
    then have "ip ! 0 * 256 + ip ! 1 < 65536" "ip ! 2 * 256 + ip ! 3 < 65536" by linarith+
    then show ?thesis using "2.prems" Some v n by auto
  next
    case None
    show ?thesis
    proof (cases ?g)
      case no: None
      then show ?thesis using "2.prems" None by simp
    next
      case (Some v)
      obtain g q where v: "v = (g, q)" by (cases v)
      obtain gs' v4' r' where rec: "read_groups (Suc i) n q = (gs', v4', r')" by (cases "read_groups (Suc i) n q")
      have "gs = g # gs'" using "2.prems" None Some v rec by simp
      moreover have "g < 65536" using reads_Some [OF reads_separator [OF reads_number]] Some v by blast
      moreover have "length gs' \<le> n \<and> list_all (\<lambda>g. g < 65536) gs'" using "2.IH" [OF None Some v [symmetric]] rec by blast
      ultimately show ?thesis by simp
    qed
  qed
qed

lemma reads_ipv6: "reads read_ipv6_addr (\<lambda>ip. length ip = 8 \<and> list_all (\<lambda>n. n < 65536) ip)"
proof (unfold reads_def, intro allI impI)
  fix s ip r
  assume a: "read_ipv6_addr s = Some (ip, r)"
  obtain gs v4 q where g: "read_groups 0 8 s = (gs, v4, q)" by (cases "read_groups 0 8 s")
  note gs = read_groups_ok [OF g]
  show "length ip = 8 \<and> list_all (\<lambda>n. n < 65536) ip"
  proof (cases "length gs = 8")
    case True
    then show ?thesis using a g gs by (simp add: read_ipv6_addr_def)
  next
    case False
    then obtain t rear b r' where b: "read_groups 0 (8 - (length gs + 1)) t = (rear, b, r')"
      and ip: "ip = gs @ replicate (8 - length gs - length rear) 0 @ rear"
      using a g by (auto simp: read_ipv6_addr_def then_read_def split: if_splits option.splits prod.splits)
    show ?thesis using read_groups_ok [OF b] gs False ip by (auto simp: list_all_iff)
  qed
qed

lemma reads_port: "reads read_port (\<lambda>n. n < 65536)"
  unfolding read_port_def by (rule reads_then, rule reads_char, rule reads_number)

lemma reads_scope: "reads read_scope_id (\<lambda>n. n < 2 ^ 32)"
  using reads_Some [OF reads_then [OF reads_char reads_number]]
  unfolding reads_def read_scope_id_def by (auto split: option.splits)

lemma parse_socket_addr_ok:
  assumes "parse_socket_addr s = Some a"
  shows "addr_ok a"
proof -
  have 4: "reads (then_read read_ipv4_addr (\<lambda>ip. then_read read_port (\<lambda>port. return_read (V4 ip port)))) addr_ok"
    by (rule reads_then [OF reads_ipv4], rule reads_then [OF reads_port], rule reads_return) simp
  have 6: "reads (then_read (read_char CHR ''['') (\<lambda>_. then_read read_ipv6_addr (\<lambda>ip. then_read read_scope_id (\<lambda>scope.
      then_read (read_char CHR '']'') (\<lambda>_. then_read read_port (\<lambda>port. return_read (V6 ip scope port))))))) addr_ok"
    by (rule reads_then [OF reads_char], rule reads_then [OF reads_ipv6], rule reads_then [OF reads_scope],
        rule reads_then [OF reads_char], rule reads_then [OF reads_port], rule reads_return) simp
  show ?thesis
    using assms reads_Some [OF 4] reads_Some [OF 6] unfolding parse_socket_addr_def by (auto split: option.splits if_splits)
qed


lemma nonempty_Some: "nonempty vs name = Some v \<Longrightarrow> v \<noteq> [] \<and> trim v = v"
  by (auto simp: nonempty_def trim_def split: option.splits if_splits)

lemma path_from_value_Inr: "path_from_value v name = Inr p \<Longrightarrow> is_absolute p"
  by (auto simp: path_from_value_def split: if_splits)

lemma path_or_Inr: "path_or vs name fallback = Inr p \<Longrightarrow> is_absolute fallback \<Longrightarrow> is_absolute p"
  by (auto simp: path_or_def split: option.splits dest: path_from_value_Inr)

lemma absolute_path_Inr: "absolute_path vs name = Inr p \<Longrightarrow> is_absolute p"
  by (auto simp: absolute_path_def bindE_Inr_iff dest: path_from_value_Inr)

lemma u64_value_Inr: "u64_value vs name n = Inr v \<Longrightarrow> n < 2 ^ 64 \<Longrightarrow> v < 2 ^ 64"
  by (auto simp: u64_value_def okOr_Inr_iff split: option.splits dest: parse_unsigned_bound)

lemma ttl_value_Inr: "ttl_value vs name n = Inr v \<Longrightarrow> 0 < v \<and> v < 2 ^ 63"
  by (auto simp: ttl_value_def bindE_Inr_iff guardE_Inr_iff)

lemma f64_value_Inr: "f64_value vs name n = Inr v \<Longrightarrow> 0 \<le> n \<and> n \<le> 100 \<Longrightarrow> 0 \<le> v \<and> v \<le> 100"
  by (auto simp: f64_value_def split: option.splits f64.splits if_splits)

lemma bind_addr_value_Inr: "bind_addr_value vs = Inr a \<Longrightarrow> addr_ok a"
  by (auto simp: bind_addr_value_def okOr_Inr_iff split: option.splits dest: parse_socket_addr_ok)

lemma to_digit_bound: "to_digit radix c = Some v \<Longrightarrow> v < radix"
  by (auto simp: to_digit_def Let_def split: if_splits)

lemma hex_byte_bound: "hex_byte a b = Some v \<Longrightarrow> v < 256"
  using to_digit_bound [of 16 "char_of a"] to_digit_bound [of 16 "char_of b"]
  by (fastforce simp: hex_byte_def split: option.splits if_splits)

lemma decode_pairs_Some:
  "decode_pairs v = Inr (Some ks) \<Longrightarrow> 2 * length ks = text_len v \<and> list_all (\<lambda>k. k < 256) ks"
proof (induction v arbitrary: ks rule: decode_pairs.induct)
  case 1
  then show ?case by (simp add: text_len_def)
next
  case (2 a s)
  have a: "utf8_len a = 1" using "2.prems" by (auto split: if_splits)
  obtain b r where s: "s = b # r" using "2.prems" a by (cases s) auto
  have b: "utf8_len b = 1" using "2.prems" a s by (auto split: if_splits)
  obtain v where v: "hex_byte a b = Some v" using "2.prems" a b s by (cases "hex_byte a b") auto
  obtain ks' where ks': "decode_pairs r = Inr (Some ks')" "ks = v # ks'"
    using "2.prems" a b s v by (auto simp: bindE_Inr_iff)
  have "2 * length ks' = text_len r \<and> list_all (\<lambda>k. k < 256) ks'"
    using "2.IH" [OF _ _ s _ v ks'(1)] a b by simp
  then show ?case using a b s ks'(2) hex_byte_bound [OF v] by (simp add: text_len_def)
qed

lemma token_key_Inr: "token_key v = Inr k \<Longrightarrow> length k = 32 \<and> list_all (\<lambda>b. b < 256) k"
  by (auto simp: token_key_def decode_token_key_def bindE_Inr_iff okOr_Inr_iff split: if_splits dest!: decode_pairs_Some)

definition drive_settings_ok :: "config_crates \<Rightarrow> drive_settings \<Rightarrow> bool" where
  "drive_settings_ok c g \<longleftrightarrow> length (gd_token_key g) = 32 \<and> list_all (\<lambda>b. b < 256) (gd_token_key g)
     \<and> ((gd_client_id g = [] \<and> gd_client_secret g = [] \<and> gd_redirect_uri g = [])
        \<or> (valid_oauth_client_value (gd_client_id g) 10 200 \<and> valid_oauth_client_value (gd_client_secret g) 8 256
           \<and> valid_redirect_uri c (gd_redirect_uri g)))"

lemma google_drive_settings_Inr: "google_drive_settings c vs = Inr (Some g) \<Longrightarrow> drive_settings_ok c g"
  by (auto simp: google_drive_settings_def bindE_Inr_iff guardE_Inr_iff drive_settings_ok_def
      split: option.splits dest!: token_key_Inr)

definition device_id_ok :: "ustr option \<Rightarrow> bool" where
  "device_id_ok d \<longleftrightarrow> (case d of None \<Rightarrow> True | Some v \<Rightarrow> valid_device_id v)"

text \<open>The volume of the previews: a place of its own, as strictly checked as that of the objects.\<close>

definition preview_ok :: "config \<Rightarrow> preview_config \<Rightarrow> bool" where
  "preview_ok cf p \<longleftrightarrow> is_absolute (mp_root p) \<and> is_absolute (mp_expected_mount p) \<and> device_id_ok (mp_expected_device p)
     \<and> \<not> path_starts_with (mp_root p) (cf_storage_root cf) \<and> \<not> path_starts_with (cf_storage_root cf) (mp_root p)
     \<and> \<not> path_starts_with (mp_expected_mount p) (cf_expected_mount cf) \<and> \<not> path_starts_with (cf_expected_mount cf) (mp_expected_mount p)
     \<and> (mp_require_device_match p = cf_require_device_match cf)
     \<and> (if cf_require_mount cf
        then mp_require_mount p \<and> mp_require_device_match p
             \<and> mp_expected_device p \<noteq> None \<and> mp_expected_device p \<noteq> cf_expected_device cf
        else \<not> mp_require_device_match p)"

definition config_ok :: "config_crates \<Rightarrow> config \<Rightarrow> bool" where
  "config_ok c cf \<longleftrightarrow> cf_database_url cf \<noteq> [] \<and> addr_ok (cf_bind_addr cf)
     \<and> is_absolute (cf_storage_root cf) \<and> is_absolute (cf_expected_mount cf)
     \<and> device_id_ok (cf_expected_device cf)
     \<and> (if cf_require_device_match cf then cf_require_mount cf \<and> cf_expected_device cf \<noteq> None else True)
     \<and> (case cf_media_preview cf of None \<Rightarrow> True | Some p \<Rightarrow> preview_ok cf p)
     \<and> cf_max_file_size cf < 2 ^ 64 \<and> cf_owner_quota_bytes cf < 2 ^ 64 \<and> cf_min_free_bytes cf < 2 ^ 64
     \<and> 0 \<le> cf_min_free_percent cf \<and> cf_min_free_percent cf \<le> 100
     \<and> 0 < cf_upload_session_ttl_seconds cf \<and> cf_upload_session_ttl_seconds cf < 2 ^ 63
     \<and> 0 < cf_trash_retention_days cf \<and> cf_trash_retention_days cf < 2 ^ 63
     \<and> 0 < cf_session_ttl_seconds cf \<and> cf_session_ttl_seconds cf < 2 ^ 63
     \<and> (case cf_bootstrap_owner cf of None \<Rightarrow> True | Some (email, password) \<Rightarrow> 16 \<le> text_len password)
     \<and> (case cf_google_drive cf of None \<Rightarrow> True | Some g \<Rightarrow> drive_settings_ok c g)"

lemma media_preview_config_Inr:
  assumes m: "media_preview_config vs store mount rm rd d = Inr (Some p)"
  shows "is_absolute (mp_root p) \<and> is_absolute (mp_expected_mount p) \<and> device_id_ok (mp_expected_device p)
     \<and> \<not> overlapping (mp_root p) store \<and> \<not> overlapping (mp_expected_mount p) mount
     \<and> (mp_require_device_match p \<longrightarrow> mp_require_mount p \<and> mp_expected_device p \<noteq> None \<and> rd)
     \<and> (rm \<or> rd \<longrightarrow> mp_require_mount p \<and> mp_require_device_match p)
     \<and> (d \<noteq> None \<longrightarrow> mp_expected_device p \<noteq> d)"
proof (cases "nonempty vs ''MEDIA_PREVIEW_ROOT''")
  case None
  then show ?thesis using m by (simp add: media_preview_config_def bindE_Inr_iff)
next
  case (Some v)
  let ?d = "nonempty vs ''MEDIA_PREVIEW_EXPECTED_DEVICE''"
  obtain r pm prm pmt where paths: "path_from_value v ''MEDIA_PREVIEW_ROOT'' = Inr r" "path_or vs ''MEDIA_PREVIEW_EXPECTED_MOUNT'' r = Inr pm"
    and g: "\<not> (pmt \<and> \<not> prm)" "\<not> (pmt \<and> ?d = None)" "\<not> invalid_device ?d" "\<not> ((rm \<or> rd) \<and> \<not> prm)" "\<not> ((rm \<or> rd) \<and> \<not> pmt)"
      "\<not> (pmt \<and> \<not> rd)" "\<not> (overlapping r store \<or> overlapping pm mount)" "\<not> (d \<noteq> None \<and> ?d = d)"
    and p: "p = \<lparr>mp_root = r, mp_expected_mount = pm, mp_require_mount = prm, mp_require_device_match = pmt, mp_expected_device = ?d\<rparr>"
    using m unfolding media_preview_config_def Some option.case bindE_Inr_iff guardE_Inr_iff Let_def sum.inject option.inject
    by (elim exE conjE) (erule that, assumption+, erule sym)
  have "is_absolute r" "is_absolute pm" using paths by (auto dest: path_from_value_Inr path_or_Inr)
  moreover have "device_id_ok ?d" using g(3) by (simp add: device_id_ok_def invalid_device_def split: option.splits)
  ultimately show ?thesis using g by (auto simp: p)
qed

text \<open>
  C36. The type of a configuration: whatever the environment holds, a configuration that is
  accepted has absolute roots, a well-formed socket address, a percentage between 0 and 100,
  sizes of 64 bits, periods between 1 and the largest signed 64-bit number and a bootstrap
  password of at least 16 bytes; a device match comes with a mount check and a valid device; the
  volume of the previews is disjoint from that of the objects (no path is a prefix of the other,
  component by component as written), on another device where devices are checked, and checked
  as strictly; and the key of the Drive importer has 32 bytes.
\<close>

theorem config_well_formed:
  assumes v: "from_vars c vs = Inr cf"
  shows "config_ok c cf"
proof -
  obtain db base mount addr rm rd mp bo st ut rt gd dp mf oq mn pc ck where
    f: "required vs ''DATABASE_URL'' = Inr db" "absolute_path vs ''STORAGE_ROOT'' = Inr base"
    "path_or vs ''STORAGE_EXPECTED_MOUNT'' base = Inr mount" "bind_addr_value vs = Inr addr"
    and d: "\<not> (rd \<and> \<not> rm)" "\<not> (rd \<and> nonempty vs ''STORAGE_EXPECTED_DEVICE'' = None)"
      "\<not> invalid_device (nonempty vs ''STORAGE_EXPECTED_DEVICE'')"
    and mp: "media_preview_config vs base mount rm rd (nonempty vs ''STORAGE_EXPECTED_DEVICE'') = Inr mp"
    and b: "bootstrap_value c vs = Inr bo"
    and n: "ttl_value vs ''SESSION_TTL'' 604800 = Inr st" "ttl_value vs ''UPLOAD_SESSION_TTL'' 86400 = Inr ut"
      "ttl_value vs ''TRASH_RETENTION_DAYS'' 30 = Inr rt" "google_drive_settings c vs = Inr gd"
      "u64_value vs ''MAX_FILE_SIZE'' (5 * 1024 * 1024 * 1024) = Inr mf" "u64_value vs ''OWNER_QUOTA_BYTES'' (100 * 1024 * 1024 * 1024) = Inr oq"
      "u64_value vs ''MIN_FREE_BYTES'' (5 * 1024 * 1024 * 1024) = Inr mn" "f64_value vs ''MIN_FREE_PERCENT'' 5 = Inr pc"
    and cf: "cf = \<lparr>cf_database_url = db, cf_bind_addr = addr, cf_storage_root = base,
            cf_expected_mount = mount, cf_require_mount = rm,
            cf_require_device_match = rd, cf_expected_device = nonempty vs ''STORAGE_EXPECTED_DEVICE'',
            cf_media_preview = mp, cf_max_file_size = mf, cf_owner_quota_bytes = oq,
            cf_min_free_bytes = mn, cf_min_free_percent = pc,
            cf_upload_session_ttl_seconds = ut, cf_trash_retention_days = rt,
            cf_session_ttl_seconds = st, cf_document_preview_url = dp,
            cf_bootstrap_owner = bo, cf_cookie_secure = ck, cf_google_drive = gd\<rparr>"
    using v unfolding from_vars_def bindE_Inr_iff guardE_Inr_iff Let_def sum.inject
    by (elim exE conjE) (erule that, assumption+, erule sym)
  have roots: "is_absolute base" "is_absolute mount" using f(2,3) by (auto dest: absolute_path_Inr path_or_Inr)
  have dev: "device_id_ok (nonempty vs ''STORAGE_EXPECTED_DEVICE'')"
    using d(3) by (simp add: device_id_ok_def invalid_device_def split: option.splits)
  have pre: "preview_ok cf p" if "mp = Some p" for p
    using media_preview_config_Inr [of vs base mount rm rd _ p] mp that d(1,2)
    by (auto simp: preview_ok_def overlapping_def cf)
  have boot: "16 \<le> text_len password" if "bo = Some (email, password)" for email password
    using b that by (auto simp: bootstrap_value_def bindE_Inr_iff guardE_Inr_iff split: option.splits)
  have "mf < 2 ^ 64" "oq < 2 ^ 64" "mn < 2 ^ 64" using n(5-7) by (auto dest!: u64_value_Inr)
  moreover have "0 \<le> pc \<and> pc \<le> 100" using n(8) by (rule f64_value_Inr) simp
  moreover have "db \<noteq> []" using f(1) by (auto simp: required_def okOr_Inr_iff dest: nonempty_Some)
  ultimately show ?thesis
    using roots dev pre boot d(1,2) bind_addr_value_Inr [OF f(4)] ttl_value_Inr [OF n(1)] ttl_value_Inr [OF n(2)] ttl_value_Inr [OF n(3)]
      google_drive_settings_Inr [of c vs] n(4)
    by (auto simp: config_ok_def cf split: option.splits)
qed


section \<open>The key of the Drive importer\<close>

lemma hex_lower_digit: "n < 16 \<Longrightarrow> to_digit 16 (hex_lower n) = Some n \<and> (of_char (hex_lower n) :: nat) < 128 \<and> (of_char (hex_lower n) :: nat) \<noteq> 43"
proof -
  assume "n < 16"
  then have "n \<in> {0, 1, 2, 3, 4, 5, 6, 7, 8, 9, 10, 11, 12, 13, 14, 15}" by (simp add: numeral_eq_Suc less_Suc_eq)
  then show ?thesis by (auto simp: hex_lower_def to_digit_def)
qed

lemma byte_bounds: "byte_hi b < 16" "byte_lo b < 16" "16 * byte_hi b + byte_lo b = of_char b"
  by (simp_all add: byte_hi_def byte_lo_def less_mult_imp_div_less)

lemma hex_byte_pair:
  "hex_byte (of_char (hex_lower (byte_hi b))) (of_char (hex_lower (byte_lo b))) = Some (of_char b)"
  using hex_lower_digit [OF byte_bounds(1) [of b]] hex_lower_digit [OF byte_bounds(2) [of b]] byte_bounds(3) [of b]
  by (simp add: hex_byte_def)

lemma decode_hex: "decode_pairs (lit (hex_digest bs)) = Inr (Some (map of_char bs))"
proof (induction bs)
  case Nil
  then show ?case by (simp add: hex_digest_def lit_def)
next
  case (Cons b bs)
  have l: "utf8_len (of_char (hex_lower (byte_hi b))) = 1" "utf8_len (of_char (hex_lower (byte_lo b))) = 1"
    using hex_lower_digit [of "byte_hi b"] hex_lower_digit [of "byte_lo b"] byte_bounds [of b] by (simp_all add: utf8_len_def)
  have "lit (hex_digest (b # bs)) = of_char (hex_lower (byte_hi b)) # of_char (hex_lower (byte_lo b)) # lit (hex_digest bs)"
    by (simp add: hex_digest_def lit_def)
  then show ?case using Cons l hex_byte_pair [of b] by simp
qed

text \<open>
  The key of the Drive importer survives its encoding: any 32 bytes written as 64 lower-case
  hexadecimal digits are read back as those bytes.
\<close>

lemma token_key_roundtrip:
  assumes "length bs = 32"
  shows "decode_token_key (lit (hex_digest bs)) = Inr (Some (map of_char bs))"
proof -
  have "2 * length (map of_char bs :: nat list) = text_len (lit (hex_digest bs))"
    using decode_pairs_Some [OF decode_hex [of bs]] by simp
  then show ?thesis using assms decode_hex [of bs] by (simp add: decode_token_key_def)
qed

text \<open>A value of 64 bytes with a two-byte character at an odd offset makes the reading of the key panic.\<close>

lemma decode_token_key_panics: "decode_token_key (48 # 233 # replicate 61 48) = Inl ConfigPanicked"
  by (simp add: decode_token_key_def text_len_def utf8_len_def sum_list_replicate)

section \<open>Witnesses\<close>

definition sample_vars :: vars where
  "sample_vars = [''DATABASE_URL'' \<mapsto> lit ''postgres'', ''STORAGE_ROOT'' \<mapsto> lit ''/srv'']"

definition sample_config_crates :: config_crates where
  "sample_config_crates = \<lparr>parse_url = (\<lambda>_. None), lowercase = id\<rparr>"

lemma sample_trim: "trim (lit ''postgres'') = lit ''postgres''" "trim (lit ''/srv'') = lit ''/srv''"
  by (simp_all add: trim_def trim_by_def lit_def is_whitespace_def)

lemma sample_nonempty:
  "nonempty sample_vars name =
     (if name = ''STORAGE_ROOT'' then Some (lit ''/srv'') else if name = ''DATABASE_URL'' then Some (lit ''postgres'') else None)"
  using sample_trim by (simp add: nonempty_def sample_vars_def) (simp add: lit_def)

theorem config_well_formed_witness:
  "\<exists>cf. from_vars sample_config_crates sample_vars = Inr cf \<and> config_ok sample_config_crates cf"
proof -
  have "is_absolute (lit ''/srv'')" by (simp add: is_absolute_def lit_def)
  then obtain cf where cf: "from_vars sample_config_crates sample_vars = Inr cf"
    by (simp add: from_vars_def required_def absolute_path_def path_from_value_def path_or_def sample_nonempty sample_trim
        bind_addr_value_def bool_value_def media_preview_config_def preview_names_def bootstrap_value_def ttl_value_def u64_value_def
        f64_value_def google_drive_settings_def document_preview_value_def invalid_device_def Let_def)
  with config_well_formed [OF cf] show ?thesis by blast
qed

end
