(* ===== verification/Backups.thy ===== *)
theory Backups
  imports Uploads
begin

text \<open>
  The content routes of backup devices in \<open>src/devices.rs\<close>: checking whether a file has to
  be sent, linking content that the server already has, creating the folders of a path, and the
  versions of a file. The theorems say what a link makes of the database, that the answer of a
  check tells the outcome of the link, and that creating a path twice creates it once.
\<close>

section \<open>Requests\<close>

definition invalid_request :: api_error where
  "invalid_request = api_error 400 ''invalid_request''"

fun map_drive :: "drive_error \<Rightarrow> api_error" where
  "map_drive NotFound = api_error 404 ''not_found''"
| "map_drive BadRequest = api_error 400 ''invalid_request''"
| "map_drive Conflict = api_error 409 ''conflict''"
| "map_drive Protected = api_error 409 ''protected_entry''"
| "map_drive Csrf = api_error 403 ''csrf_failed''"
| "map_drive DatabaseError = api_error 503 ''service_unavailable''"

definition require_backup_csrf :: "externals \<Rightarrow> headers \<Rightarrow> auth_user \<Rightarrow> auth_settings \<Rightarrow> api_error + unit" where
  "require_backup_csrf x hs user st = guardE (require_csrf x hs user st) (api_error 403 ''csrf_failed'')"

definition parse_sha256 :: "ustr \<Rightarrow> api_error + string" where
  "parse_sha256 v =
     (let low = to_ascii_lowercase (trim v) in
      if text_len low = 64 \<and> list_all (\<lambda>c. c < 128 \<and> is_hexdigit (char_of c)) low then Inr (map char_of low)
      else Inl invalid_request)"

record content_request =
  cr_parent :: "uuid option"
  cr_name :: ustr
  cr_size :: nat
  cr_checksum :: ustr
  cr_modified_at :: "instant option"

text \<open>What both routes validate first: name, checksum, size and parent.\<close>

definition content_target :: "externals \<Rightarrow> auth_settings \<Rightarrow> auth_user \<Rightarrow> headers \<Rightarrow> content_request \<Rightarrow> db
    \<Rightarrow> api_error + ustr \<times> string \<times> int" where
  "content_target x st user hs q s =
     bindE (require_backup_csrf x hs user st) (\<lambda>_.
     bindE (mapErr (\<lambda>_. invalid_request) (normalize_name (cr_name q))) (\<lambda>name.
     bindE (parse_sha256 (cr_checksum q)) (\<lambda>checksum.
     bindE (guardE (cr_size q < 2 ^ 63) invalid_request) (\<lambda>_.
     bindE (case cr_parent q of None \<Rightarrow> Inr () | Some p \<Rightarrow> mapErr map_drive (ensure_active_entry (au_id user) p True s)) (\<lambda>_.
       Inr (name, checksum, int (cr_size q)))))))"

section \<open>Checking\<close>

text \<open>The file of that name in that folder, with its current version and object.\<close>

definition named_file :: "(ustr \<Rightarrow> ustr) \<Rightarrow> uuid \<Rightarrow> uuid option \<Rightarrow> ustr \<Rightarrow> entry \<Rightarrow> bool" where
  "named_file lower owner parent name e \<longleftrightarrow> ent_owner e = owner \<and> ent_deleted_at e = None \<and> ent_kind e = File
     \<and> ent_parent e = parent \<and> lower (ent_name e) = lower name"

definition with_content :: "db \<Rightarrow> entry \<Rightarrow> (entry \<times> version_row \<times> object_row) option" where
  "with_content s e =
     (case current_version s (ent_id e) of
        None \<Rightarrow> None
      | Some v \<Rightarrow> map_option (\<lambda>b. (e, v, b)) (find_row obj_id (ver_object v) (objects s)))"

definition existing_file :: "(ustr \<Rightarrow> ustr) \<Rightarrow> uuid \<Rightarrow> uuid option \<Rightarrow> ustr \<Rightarrow> db \<Rightarrow> (entry \<times> version_row \<times> object_row) option" where
  "existing_file lower owner parent name s =
     (case List.map_filter (with_content s) (filter (named_file lower owner parent name) (entries s)) of
        [] \<Rightarrow> None
      | r # _ \<Rightarrow> Some r)"

definition same_content :: "string \<Rightarrow> int \<Rightarrow> object_row \<Rightarrow> bool" where
  "same_content checksum sz b \<longleftrightarrow> obj_checksum b = Some checksum \<and> obj_size_bytes b = sz"

definition reusable_object :: "string \<Rightarrow> int \<Rightarrow> db \<Rightarrow> object_row option" where
  "reusable_object checksum sz s = find (\<lambda>b. obj_state b = Ready \<and> same_content checksum sz b) (objects s)"

datatype content_action = Skip | Link | Upload

record check_response =
  ck_action :: content_action
  ck_file :: "uuid option"
  ck_version :: "uuid option"
  ck_remote_checksum :: "string option"
  ck_reusable :: bool

definition check_content :: "externals \<Rightarrow> auth_settings \<Rightarrow> auth_user \<Rightarrow> headers \<Rightarrow> content_request \<Rightarrow> db
    \<Rightarrow> api_error + check_response" where
  "check_content x st user hs q s =
     bindE (content_target x st user hs q s) (\<lambda>(name, checksum, sz).
     let reusable = (reusable_object checksum sz s \<noteq> None) in
     Inr (case existing_file (sql_lower x) (au_id user) (cr_parent q) name s of
            Some (e, v, b) \<Rightarrow>
              if same_content checksum sz b
              then \<lparr>ck_action = Skip, ck_file = Some (ent_id e), ck_version = Some (ver_id v),
                    ck_remote_checksum = obj_checksum b, ck_reusable = True\<rparr>
              else \<lparr>ck_action = (if reusable then Link else Upload), ck_file = Some (ent_id e),
                    ck_version = Some (ver_id v), ck_remote_checksum = obj_checksum b, ck_reusable = reusable\<rparr>
          | None \<Rightarrow> \<lparr>ck_action = (if reusable then Link else Upload), ck_file = None, ck_version = None,
                     ck_remote_checksum = None, ck_reusable = reusable\<rparr>))"

section \<open>Linking\<close>

definition saturating_add :: "nat \<Rightarrow> nat \<Rightarrow> nat" where
  "saturating_add a b = min (a + b) (2 ^ 64 - 1)"

definition backup_limit :: "transfer_settings \<Rightarrow> user_row \<Rightarrow> api_error + nat" where
  "backup_limit ts account =
     (if usr_role account = Member then
        bindE (okOr (usr_quota_bytes account) (api_error 503 ''service_unavailable'')) (\<lambda>q.
        bindE (guardE (0 \<le> q) (api_error 503 ''service_unavailable'')) (\<lambda>_. Inr (nat q)))
      else Inr (owner_quota_bytes ts))"

definition ensure_quota :: "transfer_settings \<Rightarrow> uuid \<Rightarrow> instant \<Rightarrow> nat \<Rightarrow> db \<Rightarrow> api_error + unit" where
  "ensure_quota ts owner now additional s =
     bindE (okOr (find_row usr_id owner (users s)) (api_error 401 ''authentication_required'')) (\<lambda>account.
     bindE (guardE (usr_disabled_at account = None) (api_error 401 ''authentication_required'')) (\<lambda>_.
     bindE (backup_limit ts account) (\<lambda>limit.
     bindE (mapErr db_unavailable (bigint (account_used_bytes owner s))) (\<lambda>used.
     bindE (mapErr db_unavailable (bigint (sum_list (map upl_expected_size (open_uploads owner now s))))) (\<lambda>reserved.
       guardE (\<not> limit < saturating_add (saturating_add (nat used) (nat reserved)) additional)
         (api_error 507 ''quota_exceeded''))))))"

record link_env =
  lk_now :: instant
  lk_version_id :: uuid
  lk_file_id :: uuid

record link_response =
  lr_file :: uuid
  lr_version :: uuid
  lr_checksum :: string
  lr_unchanged :: bool

text \<open>The entry and the file row of a new file.\<close>

definition new_file :: "(ustr \<Rightarrow> ustr) \<Rightarrow> uuid \<Rightarrow> uuid option \<Rightarrow> ustr \<Rightarrow> instant \<Rightarrow> uuid \<Rightarrow> db \<Rightarrow> db_error + db" where
  "new_file lower owner parent name now f s =
     bindE (insert_entry lower (new_entry f owner parent File name None now) s) (\<lambda>s1. insert_file f s1)"

definition link_version :: "(ustr \<Rightarrow> ustr) \<Rightarrow> uuid \<Rightarrow> uuid \<Rightarrow> uuid \<Rightarrow> uuid \<Rightarrow> int \<Rightarrow> instant option \<Rightarrow> instant \<Rightarrow> db
    \<Rightarrow> db_error + db" where
  "link_version lower owner f v b sz modified now s =
     bindE (insert_version \<lparr>ver_id = v, ver_file = f, ver_object = b, ver_size_bytes = sz,
              ver_original_modified_at = modified, ver_created_at = now\<rparr> s) (\<lambda>s1.
     bindE (set_current_version (Some v) f s1) (\<lambda>s2.
     bindE (update_entry lower False (\<lambda>e. ent_owner e = owner) (\<lambda>e. e\<lparr>ent_updated_at := now\<rparr>) f s2) (\<lambda>(s3, _).
       Inr s3)))"

definition link_content :: "externals \<Rightarrow> auth_settings \<Rightarrow> transfer_settings \<Rightarrow> link_env \<Rightarrow> auth_user \<Rightarrow> headers
    \<Rightarrow> content_request \<Rightarrow> db \<Rightarrow> link_response outcome" where
  "link_content x st ts env user hs q s =
     rollback s
      (bindE (content_target x st user hs q s) (\<lambda>(name, checksum, sz).
       bindE (okOr (reusable_object checksum sz s) (api_error 404 ''content_not_found'')) (\<lambda>b.
       let existing = existing_file (sql_lower x) (au_id user) (cr_parent q) name s in
       case existing of
         Some (e, v, c) \<Rightarrow>
           if same_content checksum sz c
           then Inr (s, \<lparr>lr_file = ent_id e, lr_version = ver_id v, lr_checksum = checksum, lr_unchanged = True\<rparr>)
           else
             bindE (ensure_quota ts (au_id user) (lk_now env) (nat (max (sz - obj_size_bytes c) 0)) s) (\<lambda>_.
             bindE (mapErr db_unavailable (link_version (sql_lower x) (au_id user) (ent_id e) (lk_version_id env) (obj_id b) sz
                      (cr_modified_at q) (lk_now env) s)) (\<lambda>s1.
               Inr (s1, \<lparr>lr_file = ent_id e, lr_version = lk_version_id env, lr_checksum = checksum, lr_unchanged = False\<rparr>)))
       | None \<Rightarrow>
           bindE (ensure_quota ts (au_id user) (lk_now env) (cr_size q) s) (\<lambda>_.
           bindE (mapErr db_unavailable
                   (bindE (new_file (sql_lower x) (au_id user) (cr_parent q) name (lk_now env) (lk_file_id env) s) (\<lambda>s1.
                      link_version (sql_lower x) (au_id user) (lk_file_id env) (lk_version_id env) (obj_id b) sz
                        (cr_modified_at q) (lk_now env) s1))) (\<lambda>s2.
             Inr (s2, \<lparr>lr_file = lk_file_id env, lr_version = lk_version_id env, lr_checksum = checksum, lr_unchanged = False\<rparr>))))))"

section \<open>Folders\<close>

definition adjacent :: "'a \<Rightarrow> 'a list \<Rightarrow> bool" where
  "adjacent c s \<longleftrightarrow> list_ex (\<lambda>(a, b). a = c \<and> b = c) (zip s (tl s))"

fun push_segments :: "ustr list \<Rightarrow> ustr list \<Rightarrow> api_error + ustr list" where
  "push_segments acc [] = Inr acc"
| "push_segments acc (p # ps) =
     bindE (mapErr (\<lambda>_. invalid_request) (normalize_name p)) (\<lambda>name.
     bindE (guardE (\<not> 32 < length (acc @ [name])) invalid_request) (\<lambda>_.
       push_segments (acc @ [name]) ps))"

definition split_folder_path :: "ustr \<Rightarrow> api_error + ustr list" where
  "split_folder_path raw =
     (let path = trim raw in
      bindE (guardE (\<not> (path = [] \<or> 1024 < text_len path \<or> 92 \<in> set path \<or> hd path = 47 \<or> adjacent 47 path)) invalid_request) (\<lambda>_.
      bindE (push_segments [] (split_on 47 path)) (\<lambda>segments.
      bindE (guardE (segments \<noteq> []) invalid_request) (\<lambda>_. Inr segments))))"

definition named_folder :: "(ustr \<Rightarrow> ustr) \<Rightarrow> uuid \<Rightarrow> uuid option \<Rightarrow> ustr \<Rightarrow> entry \<Rightarrow> bool" where
  "named_folder lower owner parent name e \<longleftrightarrow> ent_owner e = owner \<and> ent_deleted_at e = None \<and> ent_kind e = Folder
     \<and> ent_parent e = parent \<and> lower (ent_name e) = lower name"

definition find_child_folder :: "(ustr \<Rightarrow> ustr) \<Rightarrow> uuid \<Rightarrow> uuid option \<Rightarrow> ustr \<Rightarrow> db \<Rightarrow> uuid option" where
  "find_child_folder lower owner parent name s =
     map_option ent_id (find (named_folder lower owner parent name) (entries s))"

definition ensure_child_folder :: "(ustr \<Rightarrow> ustr) \<Rightarrow> uuid \<Rightarrow> instant \<Rightarrow> uuid \<Rightarrow> uuid option \<Rightarrow> ustr \<Rightarrow> db
    \<Rightarrow> (uuid \<times> bool) outcome" where
  "ensure_child_folder lower owner now i parent name s =
     (case find_child_folder lower owner parent name s of
        Some existing \<Rightarrow> (s, Inr (existing, False))
      | None \<Rightarrow>
          (case insert_entry lower (new_entry i owner parent Folder name None now) s of
             Inl e \<Rightarrow>
               if e = UniqueViolation then
                 (case find_child_folder lower owner parent name s of
                    Some existing \<Rightarrow> (s, Inr (existing, False))
                  | None \<Rightarrow> (s, Inl (api_error 409 ''conflict'')))
               else (s, Inl (db_unavailable e))
           | Inr s1 \<Rightarrow>
               (case insert_folder i s1 of
                  Inl e \<Rightarrow> (s, Inl (db_unavailable e))
                | Inr s2 \<Rightarrow> (s2, Inr (i, True)))))"

text \<open>The identifiers of the folders to create are \<open>ids n\<close>, \<open>ids (n + 1)\<close>, and so on.\<close>

fun ensure_segments :: "(ustr \<Rightarrow> ustr) \<Rightarrow> uuid \<Rightarrow> instant \<Rightarrow> (nat \<Rightarrow> uuid) \<Rightarrow> nat \<Rightarrow> uuid option \<Rightarrow> bool \<Rightarrow> ustr list \<Rightarrow> db
    \<Rightarrow> (uuid option \<times> bool) outcome" where
  "ensure_segments lower owner now ids n parent created [] s = (s, Inr (parent, created))"
| "ensure_segments lower owner now ids n parent created (name # names) s =
     (case ensure_child_folder lower owner now (ids n) parent name s of
        (s1, Inl e) \<Rightarrow> (s1, Inl e)
      | (s1, Inr (i, c)) \<Rightarrow> ensure_segments lower owner now ids (Suc n) (Some i) c names s1)"

definition ensure_folder :: "externals \<Rightarrow> auth_settings \<Rightarrow> instant \<Rightarrow> (nat \<Rightarrow> uuid) \<Rightarrow> auth_user \<Rightarrow> headers \<Rightarrow> ustr \<Rightarrow> db
    \<Rightarrow> (uuid \<times> bool) outcome" where
  "ensure_folder x st now ids user hs path s =
     (case bindE (require_backup_csrf x hs user st) (\<lambda>_. split_folder_path path) of
        Inl e \<Rightarrow> (s, Inl e)
      | Inr segments \<Rightarrow>
          (case ensure_segments (sql_lower x) (au_id user) now ids 0 None False segments s of
             (s1, Inl e) \<Rightarrow> (s1, Inl e)
           | (s1, Inr (None, _)) \<Rightarrow> (s1, Inl invalid_request)
           | (s1, Inr (Some i, c)) \<Rightarrow> (s1, Inr (i, c))))"

section \<open>Versions\<close>

record version_record =
  vr_id :: uuid
  vr_size_bytes :: int
  vr_checksum :: "string option"
  vr_created_at :: instant
  vr_original_modified_at :: "instant option"
  vr_is_current :: bool

definition version_records :: "uuid \<Rightarrow> uuid \<Rightarrow> db \<Rightarrow> version_record list" where
  "version_records owner f s =
     (case find_row fil_id f (files s) of
        None \<Rightarrow> []
      | Some r \<Rightarrow>
          if list_ex (\<lambda>e. ent_id e = f \<and> ent_owner e = owner \<and> ent_kind e = File) (entries s) then
            List.map_filter (\<lambda>v. map_option (\<lambda>b. \<lparr>vr_id = ver_id v, vr_size_bytes = ver_size_bytes v,
                vr_checksum = obj_checksum b, vr_created_at = ver_created_at v,
                vr_original_modified_at = ver_original_modified_at v,
                vr_is_current = (fil_current_version r = Some (ver_id v))\<rparr>)
              (find_row obj_id (ver_object v) (objects s)))
              (sort_key (\<lambda>v. - ver_created_at v) (filter (\<lambda>v. ver_file v = f) (versions s)))
          else [])"

definition list_versions :: "auth_user \<Rightarrow> uuid \<Rightarrow> db \<Rightarrow> api_error + version_record list" where
  "list_versions user f s =
     bindE (mapErr map_drive (ensure_active_entry (au_id user) f False s)) (\<lambda>_.
     let rows = take 50 (version_records (au_id user) f s) in
     bindE (guardE (rows \<noteq> []) (api_error 404 ''not_found'')) (\<lambda>_. Inr rows))"


section \<open>What a link writes\<close>






lemma drive_writes_foreign_ok:
  "drive_writes lower owner s s' \<Longrightarrow> drive_ok lower s \<Longrightarrow> drive_ok lower s' \<and> foreign_same owner s s'"
  by (blast intro: drive_writes_ok drive_writes_foreign)








section \<open>Checks and links\<close>

text \<open>
  The answer of a check tells the outcome of the link that follows it: after "upload" the
  content is not found; after "skip" the link changes nothing and names the file and version of
  the check, or the content is not found any more; after "link" it is found, so that only the
  quota or the database can refuse, and a success writes a version of the file the check named.
\<close>

lemma check_predicts_link:
  assumes c: "check_content x st user hs q s = Inr a"
  shows "case ck_action a of
      Upload \<Rightarrow> link_content x st ts env user hs q s = (s, Inl (api_error 404 ''content_not_found''))
    | Skip \<Rightarrow> link_content x st ts env user hs q s = (s, Inl (api_error 404 ''content_not_found''))
        \<or> (\<exists>resp. link_content x st ts env user hs q s = (s, Inr resp) \<and> lr_unchanged resp
             \<and> ck_file a = Some (lr_file resp) \<and> ck_version a = Some (lr_version resp))
    | Link \<Rightarrow> (case link_content x st ts env user hs q s of
        (s', Inl e) \<Rightarrow> s' = s \<and> e \<noteq> api_error 404 ''content_not_found''
      | (s', Inr resp) \<Rightarrow> \<not> lr_unchanged resp \<and> lr_version resp = lk_version_id env
          \<and> (ck_file a = Some (lr_file resp) \<or> (ck_file a = None \<and> lr_file resp = lk_file_id env)))"
proof -
  from c obtain name checksum sz where t: "content_target x st user hs q s = Inr (name, checksum, sz)"
    by (auto simp: check_content_def bindE_Inr_iff)
  note lc = link_content_def [of x st ts env user hs q s, unfolded t bindE_simps prod.case]
  have quota: "ensure_quota ts (au_id user) n k s \<noteq> Inl (api_error 404 ''content_not_found'')" for n k
    by (auto simp: ensure_quota_def backup_limit_def bindE_Inl_iff mapErr_Inl_iff okOr_Inl_iff guardE_Inl_iff api_error_def db_unavailable_def split: if_splits)
  have db: "db_unavailable e \<noteq> api_error 404 ''content_not_found''" for e by (simp add: db_unavailable_def api_error_def)
  show ?thesis
  proof (cases "reusable_object checksum sz s")
    case None
    then have "link_content x st ts env user hs q s = (s, Inl (api_error 404 ''content_not_found''))" by (simp add: lc)
    then show ?thesis using c t None by (auto simp: check_content_def Let_def split: option.splits if_splits content_action.splits)
  next
    case b: (Some b)
    show ?thesis
    proof (cases "existing_file (sql_lower x) (au_id user) (cr_parent q) name s")
      case None
      then have a: "ck_action a = Link" "ck_file a = None" using c t b by (auto simp: check_content_def Let_def)
      show ?thesis unfolding a lc b None okOr_simps bindE_simps Let_def option.case content_action.case
        using quota db by (auto simp: rollback_def bindE_Inl_iff bindE_Inr_iff mapErr_Inl_iff mapErr_Inr_iff split: sum.splits)
    next
      case (Some v)
      obtain e w o' where v: "v = (e, w, o')" by (cases v)
      show ?thesis
      proof (cases "same_content checksum sz o'")
        case True
        then show ?thesis using c t b Some v by (auto simp: check_content_def Let_def lc)
      next
        case False
        then have a: "ck_action a = Link" "ck_file a = Some (ent_id e)" using c t b Some v by (auto simp: check_content_def Let_def)
        show ?thesis unfolding a lc b Some v okOr_simps bindE_simps Let_def option.case prod.case if_not_P [OF False] content_action.case
          using quota db by (auto simp: rollback_def bindE_Inl_iff bindE_Inr_iff mapErr_Inl_iff mapErr_Inr_iff split: sum.splits)
      qed
    qed
  qed
qed

section \<open>Paths\<close>

text \<open>The folder that a path names: from folder to folder by the names of its segments.\<close>

fun walk :: "(ustr \<Rightarrow> ustr) \<Rightarrow> uuid \<Rightarrow> uuid option \<Rightarrow> ustr list \<Rightarrow> db \<Rightarrow> uuid option" where
  "walk lower owner parent [] s = parent"
| "walk lower owner parent (name # names) s =
     (case find_child_folder lower owner parent name s of
        None \<Rightarrow> None
      | Some i \<Rightarrow> walk lower owner (Some i) names s)"

lemma find_child_extend:
  "find_child_folder lower owner parent name s = Some i \<Longrightarrow> entries t = entries s @ es \<Longrightarrow>
   find_child_folder lower owner parent name t = Some i"
proof -
  assume f: "find_child_folder lower owner parent name s = Some i" and t: "entries t = entries s @ es"
  have "find P (xs @ ys) = Some r" if "find P xs = Some r" for P xs ys and r :: entry using that by (induction xs) auto
  then show ?thesis using f t by (auto simp: find_child_folder_def)
qed

lemma ensure_child_folder_writes:
  assumes e: "ensure_child_folder lower owner now i parent name s = (s', r)"
  shows "drive_writes lower owner s s' \<and> (\<exists>es. entries s' = entries s @ es)"
    and "r = Inr (j, c) \<Longrightarrow> find_child_folder lower owner parent name s' = Some j"
proof -
  have "drive_writes lower owner s s' \<and> (\<exists>es. entries s' = entries s @ es)
     \<and> (\<forall>j c. r = Inr (j, c) \<longrightarrow> find_child_folder lower owner parent name s' = Some j)"
  proof (cases "find_child_folder lower owner parent name s")
    case (Some j)
    then show ?thesis using e by (auto simp: ensure_child_folder_def)
  next
    case None
    let ?new = "new_entry i owner parent Folder name None now"
    show ?thesis
    proof (cases "insert_entry lower ?new s")
      case (Inl err)
      then show ?thesis using e None by (auto simp: ensure_child_folder_def split: if_splits)
    next
      case (Inr s1)
      show ?thesis
      proof (cases "insert_folder i s1")
        case (Inl err)
        then show ?thesis using e None Inr by (auto simp: ensure_child_folder_def)
      next
        case ins: (Inr s2)
        have r: "s' = s2" "r = Inr (i, True)" using e None Inr ins by (auto simp: ensure_child_folder_def)
        have es: "entries s2 = entries s @ [?new]" using ins insert_entry_Inr(1) [OF Inr] by (auto simp: insert_folder_def result_simps)
        have "find (named_folder lower owner parent name) (entries s) = None" using None by (simp add: find_child_folder_def)
        moreover have "named_folder lower owner parent name ?new" by (simp add: named_folder_def new_entry_def)
        moreover have "find P (xs @ [y]) = Some y" if "find P xs = None" "P y" for P xs and y :: entry using that by (induction xs) (auto split: if_splits)
        ultimately have "find (named_folder lower owner parent name) (entries s2) = Some ?new" unfolding es by blast
        then show ?thesis using folder_insert_writes [OF Inr ins] es r by (auto simp: find_child_folder_def new_entry_def)
      qed
    qed
  qed
  then show "drive_writes lower owner s s' \<and> (\<exists>es. entries s' = entries s @ es)"
    "r = Inr (j, c) \<Longrightarrow> find_child_folder lower owner parent name s' = Some j" by blast+
qed

lemma ensure_segments_writes:
  "ensure_segments lower owner now ids n parent created names s = (s', r) \<Longrightarrow>
   drive_writes lower owner s s' \<and> (\<exists>es. entries s' = entries s @ es)"
proof (induction names arbitrary: n parent created s)
  case Nil
  then show ?case by auto
next
  case (Cons name names)
  obtain s1 q where q: "ensure_child_folder lower owner now (ids n) parent name s = (s1, q)"
    by (cases "ensure_child_folder lower owner now (ids n) parent name s")
  note w = ensure_child_folder_writes(1) [OF q]
  show ?case
  proof (cases q)
    case (Inl e)
    then show ?thesis using Cons.prems q w by simp
  next
    case (Inr v)
    obtain i c where v: "v = (i, c)" by (cases v)
    have "ensure_segments lower owner now ids (Suc n) (Some i) c names s1 = (s', r)" using Cons.prems q Inr v by simp
    from Cons.IH [OF this] w show ?thesis by (metis append.assoc rtranclp_trans)
  qed
qed

lemma ensure_segments_walk:
  "ensure_segments lower owner now ids n parent created names s = (s', Inr (p, c)) \<Longrightarrow> entries t = entries s' @ es \<Longrightarrow>
   walk lower owner parent names t = p
   \<and> ensure_segments lower owner now' ids' n' parent created' names t = (t, Inr (p, if names = [] then created' else False))"
proof (induction names arbitrary: n n' parent created created' s)
  case Nil
  then show ?case by auto
next
  case (Cons name names)
  obtain s1 q where q: "ensure_child_folder lower owner now (ids n) parent name s = (s1, q)"
    by (cases "ensure_child_folder lower owner now (ids n) parent name s")
  obtain i d where i: "q = Inr (i, d)" using Cons.prems(1) q by (cases q) auto
  have rest: "ensure_segments lower owner now ids (Suc n) (Some i) d names s1 = (s', Inr (p, c))" using Cons.prems(1) q i by simp
  obtain es1 where "entries s' = entries s1 @ es1" using ensure_segments_writes [OF rest] by blast
  then have "entries t = entries s1 @ (es1 @ es)" using Cons.prems(2) by simp
  then have f: "find_child_folder lower owner parent name t = Some i"
    using find_child_extend [OF ensure_child_folder_writes(2) [OF q i]] by blast
  have "ensure_child_folder lower owner now' (ids' n') parent name t = (t, Inr (i, False))" by (simp add: ensure_child_folder_def f)
  then show ?case using Cons.IH [OF rest Cons.prems(2), of "Suc n'" False] f by simp
qed

text \<open>
  C38. Creating the folders of a path: when it succeeds, the path leads from the root of the
  account, folder by folder, to the folder of the answer; the same request again, at any later
  time, creates nothing and gives the same folder. The drive invariant is kept, and other
  accounts are not touched, even when a later segment fails.
\<close>

theorem ensure_folder_idempotent:
  assumes ok: "drive_ok (sql_lower x) s" and e: "ensure_folder x st now ids user hs path s = (s', r)"
  shows "drive_ok (sql_lower x) s' \<and> filter (\<lambda>e. ent_owner e \<noteq> au_id user) (entries s') = filter (\<lambda>e. ent_owner e \<noteq> au_id user) (entries s)
    \<and> (case r of Inl err \<Rightarrow> True
       | Inr (i, c) \<Rightarrow> (\<exists>segments. split_folder_path path = Inr segments \<and> walk (sql_lower x) (au_id user) None segments s' = Some i)
           \<and> ensure_folder x st now' ids' user hs path s' = (s', Inr (i, False)))"
proof (cases "bindE (require_backup_csrf x hs user st) (\<lambda>_. split_folder_path path)")
  case (Inl err)
  then show ?thesis using e ok by (auto simp: ensure_folder_def)
next
  case (Inr segments)
  have sp: "split_folder_path path = Inr segments" using Inr by (auto simp: bindE_Inr_iff)
  then have ne: "segments \<noteq> []" by (auto simp: split_folder_path_def bindE_Inr_iff guardE_Inr_iff Let_def)
  obtain s1 q where q: "ensure_segments (sql_lower x) (au_id user) now ids 0 None False segments s = (s1, q)"
    by (cases "ensure_segments (sql_lower x) (au_id user) now ids 0 None False segments s")
  have s': "s' = s1" using e Inr q by (auto simp: ensure_folder_def split: sum.splits prod.splits option.splits)
  have w: "drive_writes (sql_lower x) (au_id user) s s'" using ensure_segments_writes [OF q] s' by blast
  have "(\<exists>segments. split_folder_path path = Inr segments \<and> walk (sql_lower x) (au_id user) None segments s' = Some i)
      \<and> ensure_folder x st now' ids' user hs path s' = (s', Inr (i, False))" if r: "r = Inr (i, c)" for i c
  proof -
    have "q = Inr (Some i, c)" using e Inr q r by (auto simp: ensure_folder_def split: sum.splits prod.splits option.splits)
    then have "walk (sql_lower x) (au_id user) None segments s' = Some i
        \<and> ensure_segments (sql_lower x) (au_id user) now' ids' 0 None False segments s' = (s', Inr (Some i, False))"
      using ensure_segments_walk [of "sql_lower x" "au_id user" now ids 0 None False segments s s1 "Some i" c s' "[]"] q ne s' by simp
    then show ?thesis using sp Inr by (auto simp: ensure_folder_def)
  qed
  then show ?thesis using drive_writes_foreign_ok [OF w ok] by (auto simp: foreign_same_def split: sum.splits)
qed

section \<open>Witnesses\<close>











theorem ensure_folder_idempotent_witness:
  "ensure_folder sample_externals sample_settings 9 (\<lambda>n. 90) (sample_actor 1) [] (lit ''a/b'') sample_drive = (sample_drive, Inr (11, False))
   \<and> walk to_ascii_lowercase 1 None [lit ''a'', lit ''b''] sample_drive = Some 11"
proof -
  have n: "normalize_name [97] = Inr [97]" "normalize_name [98] = Inr [98]"
    by (simp_all add: Let_def text_simps normalize_name_def trim_def trim_by_def is_whitespace_def is_control_def text_len_def utf8_len_def)
  have sp: "split_folder_path (lit ''a/b'') = Inr [lit ''a'', lit ''b'']"
    by (simp add: split_folder_path_def trim_def trim_by_def is_whitespace_def text_simps Let_def lit_def text_len_def utf8_len_def adjacent_def n)
  have "find_child_folder to_ascii_lowercase 1 None (lit ''a'') sample_drive = Some 10"
    "find_child_folder to_ascii_lowercase 1 (Some 10) (lit ''b'') sample_drive = Some 11"
    by (simp_all add: find_child_folder_def named_folder_def sample_defs)
  then have e: "ensure_folder sample_externals sample_settings 9 (\<lambda>n. 90) (sample_actor 1) [] (lit ''a/b'') sample_drive = (sample_drive, Inr (11, False))"
    by (simp add: ensure_folder_def sp require_backup_csrf_def require_csrf_def sample_actor_def from_api_def ensure_child_folder_def)
  from ensure_folder_idempotent [OF sample_drive_ok e] sp e show ?thesis by auto
qed

end
