(* ===== verification/Webp.thy ===== *)
theory Webp
  imports Prelude
begin

unbundle bit_operations_syntax

text \<open>
  The validator of generated previews in \<open>src/media_indexer.rs\<close>, which decides whether a
  WebP file may be published: a walk over the chunks of the container that accepts pixel data
  and refuses everything else. The theorem says that an accepted file is nothing but a
  container of such chunks.
\<close>

section \<open>The validator\<close>

text \<open>Byte \<open>i\<close> of a slice, and \<open>u32::from_le_bytes\<close> of the four bytes at \<open>i\<close>.\<close>

definition byte_at :: "bytes \<Rightarrow> nat \<Rightarrow> nat" where
  "byte_at bs i = of_char (bs ! i)"

definition le32_at :: "bytes \<Rightarrow> nat \<Rightarrow> nat" where
  "le32_at bs i = byte_at bs i + push_bit 8 (byte_at bs (i + 1)) + push_bit 16 (byte_at bs (i + 2)) + push_bit 24 (byte_at bs (i + 3))"

definition byte_slice :: "bytes \<Rightarrow> nat \<Rightarrow> nat \<Rightarrow> bytes" where
  "byte_slice bs a b = take (b - a) (drop a bs)"

text \<open>The variables of the loop.\<close>

record webp_scan =
  ws_dimensions :: "(nat \<times> nat) option"
  ws_extended :: "(nat \<times> nat) option"
  ws_vp8 :: bool
  ws_vp8l :: bool
  ws_alpha :: bool
  ws_vp8l_alpha :: bool

definition webp_start :: webp_scan where
  "webp_start = \<lparr>ws_dimensions = None, ws_extended = None, ws_vp8 = False, ws_vp8l = False, ws_alpha = False, ws_vp8l_alpha = False\<rparr>"

text \<open>The sizes that the two kinds of pixel data declare.\<close>

definition vp8_size :: "bytes \<Rightarrow> nat \<times> nat" where
  "vp8_size data =
     ((byte_at data 6 + push_bit 8 (byte_at data 7)) AND 0x3fff,
      (byte_at data 8 + push_bit 8 (byte_at data 9)) AND 0x3fff)"

definition vp8l_size :: "bytes \<Rightarrow> nat \<times> nat" where
  "vp8l_size data =
     (1 + byte_at data 1 + push_bit 8 (byte_at data 2 AND 0x3f),
      1 + drop_bit 6 (byte_at data 2) + push_bit 2 (byte_at data 3) + push_bit 10 (byte_at data 4 AND 0x0f))"

text \<open>The \<open>match\<close> on the kind of a chunk.\<close>

definition webp_chunk :: "bytes \<Rightarrow> bytes \<Rightarrow> webp_scan \<Rightarrow> webp_scan option" where
  "webp_chunk kind data w =
     (if kind = ''VP8X'' then
        if ws_extended w \<noteq> None \<or> length data < 10 \<or> byte_at data 0 AND 0x2e \<noteq> 0 then None
        else Some (w\<lparr>ws_extended := Some
          (1 + byte_at data 4 + push_bit 8 (byte_at data 5) + push_bit 16 (byte_at data 6),
           1 + byte_at data 7 + push_bit 8 (byte_at data 8) + push_bit 16 (byte_at data 9))\<rparr>)
      else if kind = ''ALPH'' then
        if ws_alpha w then None else Some (w\<lparr>ws_alpha := True\<rparr>)
      else if kind = ''VP8 '' then
        if ws_vp8 w \<or> length data < 10 \<or> map of_char (byte_slice data 3 6) \<noteq> [0x9d, 0x01, 0x2a :: nat] then None
        else Some (w\<lparr>ws_vp8 := True, ws_dimensions := Some (vp8_size data)\<rparr>)
      else if kind = ''VP8L'' then
        if ws_vp8l w \<or> length data < 5 \<or> byte_at data 0 \<noteq> 0x2f then None
        else Some (w\<lparr>ws_vp8l := True, ws_vp8l_alpha := (byte_at data 4 AND 0x10 \<noteq> 0), ws_dimensions := Some (vp8l_size data)\<rparr>)
      else None)"

text \<open>The loop. Offsets stay below the length of the slice plus a 32-bit chunk size, so that the
  checked additions of the source never fail.\<close>

function webp_chunks :: "bytes \<Rightarrow> nat \<Rightarrow> webp_scan \<Rightarrow> (nat \<times> webp_scan) option" where
  "webp_chunks bs offset w =
     (if offset < length bs then
        let header_end = offset + 8 in
        if length bs < header_end then None
        else
          let kind = byte_slice bs offset (offset + 4);
              chunk_size = le32_at bs (offset + 4);
              data_end = header_end + chunk_size in
          if length bs < data_end then None
          else
            case webp_chunk kind (byte_slice bs header_end data_end) w of
              None \<Rightarrow> None
            | Some w' \<Rightarrow>
                if odd chunk_size \<and> (length bs \<le> data_end \<or> byte_at bs data_end \<noteq> 0) then None
                else webp_chunks bs (data_end + chunk_size mod 2) w'
      else Some (offset, w))"
  by pat_completeness auto
termination by (relation "measure (\<lambda>(bs, offset, w). length bs - offset)") auto

declare webp_chunks.simps [simp del]

definition validate_metadata_free_webp :: "bytes \<Rightarrow> nat \<Rightarrow> (nat \<times> nat) option" where
  "validate_metadata_free_webp bs max_bytes =
     (if length bs < 20 \<or> max_bytes < length bs \<or> take 4 bs \<noteq> ''RIFF'' \<or> byte_slice bs 8 12 \<noteq> ''WEBP'' then None
      else if le32_at bs 4 + 8 \<noteq> length bs then None
      else
        case webp_chunks bs 12 webp_start of
          None \<Rightarrow> None
        | Some (offset, w) \<Rightarrow>
            if offset \<noteq> length bs \<or> (ws_vp8 w \<and> ws_vp8l w) \<or> (\<not> ws_vp8 w \<and> \<not> ws_vp8l w) then None
            else
              case (case ws_extended w of Some d \<Rightarrow> Some d | None \<Rightarrow> ws_dimensions w) of
                None \<Rightarrow> None
              | Some (width, height) \<Rightarrow>
                  if width = 0 \<or> height = 0 then None
                  else if ws_extended w \<noteq> None \<and> ws_dimensions w \<noteq> None \<and> ws_dimensions w \<noteq> ws_extended w then None
                  else if ws_extended w \<noteq> None \<and>
                    ((20 < length bs \<and> byte_at bs 20 AND 0x10 \<noteq> 0) \<noteq> (ws_alpha w \<or> ws_vp8l_alpha w)) then None
                  else Some (width, height))"

section \<open>The container\<close>

text \<open>A chunk as the container stores it, with the zero byte that pads odd sizes, and the whole file.\<close>

definition le32 :: "nat \<Rightarrow> bytes" where
  "le32 n = map char_of [n mod 256, n div 256 mod 256, n div 65536 mod 256, n div 16777216 mod 256]"

fun chunk_bytes :: "bytes \<times> bytes \<Rightarrow> bytes" where
  "chunk_bytes (kind, data) = kind @ le32 (length data) @ data @ (if odd (length data) then [char_of (0 :: nat)] else [])"

definition riff_file :: "(bytes \<times> bytes) list \<Rightarrow> bytes" where
  "riff_file cs = (let body = concat (map chunk_bytes cs) in ''RIFF'' @ le32 (length body + 4) @ ''WEBP'' @ body)"

definition pixel_kinds :: "bytes set" where
  "pixel_kinds = {''VP8X'', ''ALPH'', ''VP8 '', ''VP8L''}"

lemma byte_at_less: "byte_at bs i < 256"
  by (simp add: byte_at_def)

lemma le32_at_bytes:
  assumes "i + 4 \<le> length bs"
  shows "le32 (le32_at bs i) = byte_slice bs i (i + 4)" and "le32_at bs i < 2 ^ 32"
proof -
  let ?b = "\<lambda>k. byte_at bs (i + k)"
  have b: "?b 0 < 256" "?b 1 < 256" "?b 2 < 256" "?b 3 < 256" by (simp_all add: byte_at_less)
  have v: "le32_at bs i = ?b 0 + 256 * ?b 1 + 65536 * ?b 2 + 16777216 * ?b 3"
    by (simp add: le32_at_def push_bit_eq_mult)
  show "le32_at bs i < 2 ^ 32" using b unfolding v by simp
  have horner: "le32_at bs i = ?b 0 + 256 * (?b 1 + 256 * (?b 2 + 256 * ?b 3))" unfolding v by simp
  have step: "(x + 256 * y) mod 256 = x" "(x + 256 * y) div 256 = y" if "x < 256" for x y :: nat using that by simp_all
  have "n div 65536 = n div 256 div 256" "n div 16777216 = n div 256 div 256 div 256" for n :: nat
    by (simp_all flip: div_mult2_eq)
  then have "le32_at bs i mod 256 = ?b 0" "le32_at bs i div 256 mod 256 = ?b 1"
    "le32_at bs i div 65536 mod 256 = ?b 2" "le32_at bs i div 16777216 mod 256 = ?b 3"
    using b by (simp_all only: horner step mod_less)
  then have "le32 (le32_at bs i) = map (\<lambda>k. bs ! (i + k)) [0, 1, 2, 3]"
    by (simp add: le32_def byte_at_def)
  also have "\<dots> = byte_slice bs i (i + 4)"
    using assms by (intro nth_equalityI) (auto simp: byte_slice_def less_Suc_eq numeral_eq_Suc)
  finally show "le32 (le32_at bs i) = byte_slice bs i (i + 4)" .
qed

lemma drop_slice: "a \<le> b \<Longrightarrow> drop a bs = byte_slice bs a b @ drop b bs"
  unfolding byte_slice_def by (metis add_diff_inverse_nat append_take_drop_id drop_drop le_imp_diff_is_add not_less)

lemma length_slice: "b \<le> length bs \<Longrightarrow> length (byte_slice bs a b) = b - a"
  by (simp add: byte_slice_def)

text \<open>The walk over a list of chunks.\<close>

fun scan_chunks :: "(bytes \<times> bytes) list \<Rightarrow> webp_scan \<Rightarrow> webp_scan option" where
  "scan_chunks [] w = Some w"
| "scan_chunks ((kind, data) # cs) w =
     (case webp_chunk kind data w of None \<Rightarrow> None | Some w' \<Rightarrow> scan_chunks cs w')"

lemma webp_chunks_Some:
  "webp_chunks bs offset w = Some (e, w') \<Longrightarrow> offset \<le> length bs \<Longrightarrow>
   e = length bs \<and> (\<exists>cs. drop offset bs = concat (map chunk_bytes cs) \<and> scan_chunks cs w = Some w')"
proof (induction bs offset w rule: webp_chunks.induct)
  case (1 bs offset w)
  show ?case
  proof (cases "offset < length bs")
    case False
    then have "e = offset" "w' = w" using 1(2) webp_chunks.simps [of bs offset w] by auto
    then show ?thesis using False 1(3) by (intro conjI exI [of _ "[]"]) auto
  next
    case True
    let ?n = "le32_at bs (offset + 4)" and ?k = "byte_slice bs offset (offset + 4)"
    let ?stop = "offset + 8 + ?n" and ?d = "byte_slice bs (offset + 8) (offset + 8 + ?n)"
    obtain w1 where h: "offset + 8 \<le> length bs" "?stop \<le> length bs"
      and c: "webp_chunk ?k ?d w = Some w1"
      and odd: "odd ?n \<Longrightarrow> ?stop < length bs \<and> byte_at bs ?stop = 0"
      and r: "webp_chunks bs (?stop + ?n mod 2) w1 = Some (e, w')"
      using 1(2) True webp_chunks.simps [of bs offset w] by (auto simp: Let_def not_less split: if_splits option.splits)
    have "?stop + ?n mod 2 \<le> length bs" using h odd by (cases "odd ?n") (auto simp: mod2_eq_if)
    moreover have "\<not> length bs < offset + 8" "\<not> length bs < ?stop" using h by auto
    moreover have "\<not> (odd ?n \<and> (length bs \<le> ?stop \<or> byte_at bs ?stop \<noteq> 0))" using odd by auto
    ultimately obtain cs where e: "e = length bs" and cs: "drop (?stop + ?n mod 2) bs = concat (map chunk_bytes cs)" "scan_chunks cs w1 = Some w'"
      using 1(1) [OF True refl _ refl refl refl _ c _ r] by blast
    have pad: "drop ?stop bs = (if odd ?n then [char_of (0 :: nat)] else []) @ drop (?stop + ?n mod 2) bs"
    proof (cases "odd ?n")
      case True
      then have "drop ?stop bs = bs ! ?stop # drop (Suc ?stop) bs" using odd Cons_nth_drop_Suc [of ?stop bs] by simp
      moreover have "bs ! ?stop = char_of (0 :: nat)" using odd True char_of_char [where ?'a = nat, of "bs ! ?stop"] by (simp add: byte_at_def)
      ultimately show ?thesis using True by (simp add: mod2_eq_if)
    qed (simp add: mod2_eq_if)
    have "drop offset bs = ?k @ byte_slice bs (offset + 4) (offset + 8) @ ?d @ drop ?stop bs"
      using drop_slice [of offset "offset + 4" bs] drop_slice [of "offset + 4" "offset + 8" bs] drop_slice [of "offset + 8" ?stop bs]
      by simp
    also have "byte_slice bs (offset + 4) (offset + 8) = le32 (length ?d)"
      using le32_at_bytes(1) [of "offset + 4" bs] h length_slice [OF h(2), of "offset + 8"] by (simp add: add.commute)
    finally have "drop offset bs = chunk_bytes (?k, ?d) @ concat (map chunk_bytes cs)"
      using pad cs(1) length_slice [OF h(2), of "offset + 8"] by simp
    then show ?thesis using e c cs(2) by (intro conjI exI [of _ "(?k, ?d) # cs"]) auto
  qed
qed

text \<open>The kinds of chunks that were seen.\<close>

definition seen :: "webp_scan \<Rightarrow> bytes set" where
  "seen w = (if ws_extended w \<noteq> None then {''VP8X''} else {}) \<union> (if ws_alpha w then {''ALPH''} else {})
     \<union> (if ws_vp8 w then {''VP8 ''} else {}) \<union> (if ws_vp8l w then {''VP8L''} else {})"

lemma webp_chunk_Some:
  assumes "webp_chunk kind data w = Some w'"
  shows "kind \<in> pixel_kinds" and "kind \<notin> seen w" and "seen w' = insert kind (seen w)"
proof -
  from assms consider (x) "kind = ''VP8X''" "ws_extended w = None" "ws_extended w' \<noteq> None" "ws_alpha w' = ws_alpha w" "ws_vp8 w' = ws_vp8 w" "ws_vp8l w' = ws_vp8l w"
    | (a) "kind = ''ALPH''" "\<not> ws_alpha w" "ws_extended w' = ws_extended w" "ws_alpha w'" "ws_vp8 w' = ws_vp8 w" "ws_vp8l w' = ws_vp8l w"
    | (v) "kind = ''VP8 ''" "\<not> ws_vp8 w" "ws_extended w' = ws_extended w" "ws_alpha w' = ws_alpha w" "ws_vp8 w'" "ws_vp8l w' = ws_vp8l w"
    | (l) "kind = ''VP8L''" "\<not> ws_vp8l w" "ws_extended w' = ws_extended w" "ws_alpha w' = ws_alpha w" "ws_vp8 w' = ws_vp8 w" "ws_vp8l w'"
    unfolding webp_chunk_def by (cases "ws_extended w") (auto split: if_split_asm)
  note kinds = this
  show "kind \<in> pixel_kinds" by (cases rule: kinds) (simp_all add: pixel_kinds_def)
  show "kind \<notin> seen w" by (cases rule: kinds) (simp_all add: seen_def)
  show "seen w' = insert kind (seen w)" by (cases rule: kinds) (auto simp: seen_def)
qed

lemma webp_chunk_dimensions:
  assumes "webp_chunk kind data w = Some w'"
  shows "ws_dimensions w' = (if kind = ''VP8 '' then Some (vp8_size data) else if kind = ''VP8L'' then Some (vp8l_size data) else ws_dimensions w)"
  using assms by (auto simp: webp_chunk_def split: if_splits)

lemma scan_chunks_seen:
  "scan_chunks cs w = Some w' \<Longrightarrow> fst ` set cs \<subseteq> pixel_kinds \<and> distinct (map fst cs) \<and> seen w' = seen w \<union> fst ` set cs \<and> seen w \<inter> fst ` set cs = {}"
proof (induction cs w rule: scan_chunks.induct)
  case (2 kind data cs w)
  then obtain w1 where c: "webp_chunk kind data w = Some w1" "scan_chunks cs w1 = Some w'" by (auto split: option.splits)
  show ?case using 2(1) [OF c] webp_chunk_Some [OF c(1)] by auto
qed simp

text \<open>The chunk that gave the dimensions.\<close>

definition declares :: "bytes \<times> bytes \<Rightarrow> nat \<times> nat \<Rightarrow> bool" where
  "declares c d \<longleftrightarrow> fst c = ''VP8 '' \<and> d = vp8_size (snd c) \<or> fst c = ''VP8L'' \<and> d = vp8l_size (snd c)"

lemma scan_chunks_dimensions:
  "scan_chunks cs w = Some w' \<Longrightarrow> ws_dimensions w' = ws_dimensions w \<and> ''VP8 '' \<notin> fst ` set cs \<and> ''VP8L'' \<notin> fst ` set cs
     \<or> ws_dimensions w' \<noteq> None \<and> (\<exists>c \<in> set cs. declares c (the (ws_dimensions w')))"
proof (induction cs w rule: scan_chunks.induct)
  case (2 kind data cs w)
  then obtain w1 where c: "webp_chunk kind data w = Some w1" "scan_chunks cs w1 = Some w'" by (auto split: option.splits)
  show ?case using 2(1) [OF c] webp_chunk_dimensions [OF c(1)] by (auto simp: declares_def split: if_splits)
qed simp

lemma and_mask_le: "(n :: nat) AND (2 ^ k - 1) < 2 ^ k"
proof -
  have "n AND (2 ^ k - 1) = take_bit k n" by (simp add: take_bit_eq_mask mask_eq_exp_minus_1)
  then show ?thesis by simp
qed

lemma declares_bound: "declares c (w, h) \<Longrightarrow> w \<le> 16384 \<and> h \<le> 16384"
proof -
  assume d: "declares c (w, h)"
  have m: "n AND 0x3fff < 0x4000" "n AND 0x3f < 0x40" "n AND 0x0f < 0x10" for n :: nat
    using and_mask_le [of n 14] and_mask_le [of n 6] and_mask_le [of n 4] by simp_all
  have b: "byte_at (snd c) i < 256" for i by (rule byte_at_less)
  have q: "drop_bit 6 (byte_at (snd c) 2) < 4" using b [of 2] by (simp add: drop_bit_eq_div)
  show ?thesis
    using d b [of 1] b [of 3] m(1) [of "byte_at (snd c) 6 + byte_at (snd c) 7 * 256"] m(1) [of "byte_at (snd c) 8 + byte_at (snd c) 9 * 256"]
      m(2) [of "byte_at (snd c) 2"] m(3) [of "byte_at (snd c) 4"] q
    by (auto simp: declares_def vp8_size_def vp8l_size_def push_bit_eq_mult)
qed

section \<open>Accepted files\<close>

text \<open>
  C39. A preview that the validator accepts carries pixels and nothing else: the file is exactly
  a RIFF container of chunks of the four kinds for pixel data, each at most once, with one
  chunk of lossy or lossless pixels, so that there is no chunk of metadata (position, camera,
  colour profile, animation), no byte between chunks and none behind the last. The reported
  size is the one that the pixel chunk declares, at least 1 and at most 16384 in each
  direction, and the file is not larger than the limit.
\<close>

theorem accepted_webp_only_pixels:
  assumes v: "validate_metadata_free_webp bs n = Some (w, h)"
  shows "length bs \<le> n \<and> 1 \<le> w \<and> w \<le> 16384 \<and> 1 \<le> h \<and> h \<le> 16384
    \<and> (\<exists>cs. bs = riff_file cs \<and> fst ` set cs \<subseteq> {''VP8X'', ''ALPH'', ''VP8 '', ''VP8L''} \<and> distinct (map fst cs)
         \<and> (''VP8 '' \<in> fst ` set cs \<longleftrightarrow> ''VP8L'' \<notin> fst ` set cs) \<and> (\<exists>c \<in> set cs. declares c (w, h)))"
proof -
  from v obtain st where len: "20 \<le> length bs" "length bs \<le> n" and magic: "take 4 bs = ''RIFF''" "byte_slice bs 8 12 = ''WEBP''"
    and riff: "le32_at bs 4 + 8 = length bs" and run: "webp_chunks bs 12 webp_start = Some (length bs, st)"
    and one: "ws_vp8 st \<noteq> ws_vp8l st" and pos: "w \<noteq> 0" "h \<noteq> 0"
    and size: "(case ws_extended st of Some d \<Rightarrow> Some d | None \<Rightarrow> ws_dimensions st) = Some (w, h)"
    and same: "ws_extended st = None \<or> (\<forall>a b. ws_dimensions st \<noteq> Some (a, b)) \<or> ws_dimensions st = ws_extended st"
    unfolding validate_metadata_free_webp_def by (auto simp: not_less split: if_split_asm option.splits prod.splits)
  from webp_chunks_Some [OF run] len obtain cs where cs: "drop 12 bs = concat (map chunk_bytes cs)" "scan_chunks cs webp_start = Some st" by auto
  note seen = scan_chunks_seen [OF cs(2)] and dims = scan_chunks_dimensions [OF cs(2)]
  have fresh: "seen webp_start = {}" by (simp add: seen_def webp_start_def)
  then have "fst ` set cs = seen st" using seen by simp
  then have kinds: "''VP8 '' \<in> fst ` set cs \<longleftrightarrow> ws_vp8 st" "''VP8L'' \<in> fst ` set cs \<longleftrightarrow> ws_vp8l st" by (simp_all add: seen_def)
  then obtain c where c: "c \<in> set cs" "declares c (the (ws_dimensions st))" "ws_dimensions st \<noteq> None" using dims one by auto
  have d: "ws_dimensions st = Some (w, h)" using size same c(3) by (auto split: option.splits)
  have "bs = take 4 bs @ byte_slice bs 4 8 @ byte_slice bs 8 12 @ drop 12 bs"
    using append_take_drop_id [of 4 bs] drop_slice [of 4 8 bs] drop_slice [of 8 12 bs] by simp
  moreover have "byte_slice bs 4 8 = le32 (length (concat (map chunk_bytes cs)) + 4)"
  proof -
    have "le32_at bs 4 = length (drop 12 bs) + 4" using len riff by simp
    then show ?thesis using le32_at_bytes(1) [of 4 bs] len cs(1) by simp
  qed
  ultimately have "bs = riff_file cs" using magic cs(1) by (simp add: riff_file_def Let_def)
  then show ?thesis
    using len(2) pos seen kinds one c d declares_bound [of c w h] unfolding pixel_kinds_def
    by (intro conjI exI [of _ cs]) auto
qed

text \<open>A picture of one pixel.\<close>

definition tiny_webp :: bytes where
  "tiny_webp = riff_file [(''VP8L'', map char_of [0x2f, 0, 0, 0, 0 :: nat])]"

theorem accepted_webp_only_pixels_witness:
  "validate_metadata_free_webp tiny_webp 100 = Some (1, 1) \<and> length tiny_webp \<le> 100"
proof -
  have t: "tiny_webp = ''RIFF'' @ map char_of [18, 0, 0, 0 :: nat] @ ''WEBPVP8L'' @ map char_of [5, 0, 0, 0, 0x2f, 0, 0, 0, 0, 0 :: nat]"
    by (simp add: tiny_webp_def riff_file_def Let_def le32_def)
  have "validate_metadata_free_webp tiny_webp 100 = Some (1, 1)"
    by (simp add: t validate_metadata_free_webp_def webp_chunks.simps byte_slice_def le32_at_def byte_at_def webp_chunk_def webp_start_def vp8l_size_def Let_def)
  with accepted_webp_only_pixels [OF this] show ?thesis by auto
qed

end
