(* ===== verification/Face_Matching.thy ===== *)
theory Face_Matching
  imports Prelude
begin

text \<open>
  Grouping of faces in \<open>src/media_indexer.rs\<close>: the distance of two descriptors, the choice
  of the cluster that a new face joins, and the plan that merges clusters of the same person.
  The plan is computed with a union-find structure whose search halves paths; the theorems say
  that the search ends, and describe the clusters that are merged without it.
\<close>

section \<open>Descriptors\<close>

definition DESCRIPTOR_LEN :: nat where "DESCRIPTOR_LEN = 256"
definition FACE_DESCRIPTOR_DISTANCE_THRESHOLD :: nat where "FACE_DESCRIPTOR_DISTANCE_THRESHOLD = 40"
definition FACE_CLUSTER_MERGE_THRESHOLD :: nat where "FACE_CLUSTER_MERGE_THRESHOLD = 28"

definition abs_diff :: "char \<Rightarrow> char \<Rightarrow> nat" where
  "abs_diff a b = (let m = of_char a; n = of_char b in if m \<le> n then n - m else m - n)"

text \<open>The sum of 256 differences of bytes fits into 32 bits.\<close>

definition descriptor_distance :: "bytes \<Rightarrow> bytes \<Rightarrow> nat option" where
  "descriptor_distance left right =
     (if length left \<noteq> DESCRIPTOR_LEN \<or> length right \<noteq> DESCRIPTOR_LEN then None
      else Some (sum_list (map (\<lambda>(a, b). abs_diff a b) (zip left right)) div DESCRIPTOR_LEN))"

record candidate =
  fc_cluster :: uuid
  fc_descriptor :: bytes
  fc_label :: "ustr option"

section \<open>The cluster of a face\<close>

fun match_loop :: "bytes \<Rightarrow> (nat \<times> uuid) option \<Rightarrow> candidate list \<Rightarrow> (nat \<times> uuid) option" where
  "match_loop descriptor best [] = best"
| "match_loop descriptor best (c # cs) =
     (case descriptor_distance descriptor (fc_descriptor c) of
        None \<Rightarrow> match_loop descriptor best cs
      | Some d \<Rightarrow>
          if d > FACE_DESCRIPTOR_DISTANCE_THRESHOLD then match_loop descriptor best cs
          else if (case best of None \<Rightarrow> True | Some (bd, bi) \<Rightarrow> d < bd \<or> d = bd \<and> fc_cluster c < bi)
          then match_loop descriptor (Some (d, fc_cluster c)) cs
          else match_loop descriptor best cs)"

definition matching_cluster :: "bytes \<Rightarrow> candidate list \<Rightarrow> uuid option" where
  "matching_cluster descriptor cs = map_option snd (match_loop descriptor None cs)"

section \<open>The merge plan\<close>

record group =
  gr_id :: uuid
  gr_label :: "ustr option"
  gr_descriptors :: "bytes list"

definition add_candidate :: "candidate \<Rightarrow> group list \<Rightarrow> group list" where
  "add_candidate c gs =
     (if fc_cluster c \<in> gr_id ` set gs then
        map (\<lambda>g. if gr_id g = fc_cluster c
                 then g\<lparr>gr_descriptors := gr_descriptors g @ [fc_descriptor c],
                        gr_label := (if gr_label g = None then fc_label c else gr_label g)\<rparr>
                 else g) gs
      else gs @ [\<lparr>gr_id = fc_cluster c, gr_label = fc_label c, gr_descriptors = [fc_descriptor c]\<rparr>])"

definition groups_of :: "candidate list \<Rightarrow> group list" where
  "groups_of cs = sort_key gr_id (foldl (\<lambda>gs c. add_candidate c gs) [] cs)"

fun closest_loop :: "nat option \<Rightarrow> (bytes \<times> bytes) list \<Rightarrow> nat option" where
  "closest_loop best [] = best"
| "closest_loop best ((l, r) # ps) =
     (case descriptor_distance l r of
        None \<Rightarrow> closest_loop best ps
      | Some d \<Rightarrow> closest_loop (Some (case best of None \<Rightarrow> d | Some b \<Rightarrow> min b d)) ps)"

definition closest_descriptor_distance :: "bytes list \<Rightarrow> bytes list \<Rightarrow> nat option" where
  "closest_descriptor_distance left right = closest_loop None (List.product left right)"

text \<open>The search for the root of a tree, which halves the path on its way; not returning is \<open>None\<close>.\<close>

partial_function (option) find_root :: "nat list \<Rightarrow> nat \<Rightarrow> (nat list \<times> nat) option" where
  "find_root parent index =
     (if parent ! index = index then Some (parent, index)
      else
        let parent' = parent[index := parent ! (parent ! index)] in
        find_root parent' (parent' ! index))"

definition merge_pair :: "nat \<times> nat \<Rightarrow> group list \<times> nat list \<Rightarrow> (group list \<times> nat list) option" where
  "merge_pair lr st =
     (case st of (groups, parent) \<Rightarrow>
      case find_root parent (fst lr) of
        None \<Rightarrow> None
      | Some (parent1, left_root) \<Rightarrow>
      case find_root parent1 (snd lr) of
        None \<Rightarrow> None
      | Some (parent2, right_root) \<Rightarrow>
          let left = groups ! left_root; right = groups ! right_root in
          if left_root = right_root then Some (groups, parent2)
          else if gr_label left \<noteq> None \<and> gr_label right \<noteq> None then Some (groups, parent2)
          else
            case closest_descriptor_distance (gr_descriptors left) (gr_descriptors right) of
              None \<Rightarrow> Some (groups, parent2)
            | Some distance \<Rightarrow>
                if distance > FACE_CLUSTER_MERGE_THRESHOLD then Some (groups, parent2)
                else
                  let (root, child) =
                    (if gr_label left \<noteq> None \<and> gr_label right = None then (left_root, right_root)
                     else if gr_label left = None \<and> gr_label right \<noteq> None then (right_root, left_root)
                     else if gr_id left \<le> gr_id right then (left_root, right_root)
                     else (right_root, left_root)) in
                  Some (groups[root := (groups ! root)\<lparr>gr_descriptors := gr_descriptors (groups ! root) @ gr_descriptors (groups ! child)\<rparr>],
                        parent2[child := root]))"

fun merge_pairs :: "(nat \<times> nat) list \<Rightarrow> group list \<times> nat list \<Rightarrow> (group list \<times> nat list) option" where
  "merge_pairs [] st = Some st"
| "merge_pairs (lr # lrs) st = (case merge_pair lr st of None \<Rightarrow> None | Some st' \<Rightarrow> merge_pairs lrs st')"

text \<open>The two nested loops visit these pairs of indices, in this order.\<close>

definition index_pairs :: "nat \<Rightarrow> (nat \<times> nat) list" where
  "index_pairs n = concat (map (\<lambda>left. map (Pair left) [left + 1..<n]) [0..<n])"

fun plan_loop :: "group list \<Rightarrow> nat list \<Rightarrow> nat list \<Rightarrow> (uuid \<times> uuid) list option" where
  "plan_loop groups parent [] = Some []"
| "plan_loop groups parent (index # rest) =
     (case find_root parent index of
        None \<Rightarrow> None
      | Some (parent', root) \<Rightarrow>
          map_option (\<lambda>plan. if root \<noteq> index then (gr_id (groups ! index), gr_id (groups ! root)) # plan else plan)
            (plan_loop groups parent' rest))"

definition cluster_merge_plan :: "candidate list \<Rightarrow> (uuid \<times> uuid) list option" where
  "cluster_merge_plan cs =
     (let groups = groups_of cs; n = length groups in
      case merge_pairs (index_pairs n) (groups, [0..<n]) of
        None \<Rightarrow> None
      | Some (groups', parent) \<Rightarrow> map_option (sort_key fst) (plan_loop groups' parent [0..<n]))"

section \<open>Facts on distances\<close>

text \<open>What a face matches: a cluster with the distance of one of its candidates.\<close>

definition hits :: "bytes \<Rightarrow> candidate list \<Rightarrow> (nat \<times> uuid) set" where
  "hits x cs = {(d, fc_cluster c) |d c. c \<in> set cs \<and> descriptor_distance x (fc_descriptor c) = Some d
     \<and> d \<le> FACE_DESCRIPTOR_DISTANCE_THRESHOLD}"

lemma closest_loop_le:
  "(\<exists>d. closest_loop best ps = Some d \<and> d \<le> t) \<longleftrightarrow> (\<exists>b. best = Some b \<and> b \<le> t)
     \<or> (\<exists>(l, r) \<in> set ps. \<exists>d. descriptor_distance l r = Some d \<and> d \<le> t)"
proof (induction best ps rule: closest_loop.induct)
  case (2 best l r ps)
  then show ?case by (cases "descriptor_distance l r"; cases best) (auto simp: min_def)
qed simp

lemma closest_le:
  "(\<exists>d. closest_descriptor_distance ls rs = Some d \<and> d \<le> t) \<longleftrightarrow>
   (\<exists>l \<in> set ls. \<exists>r \<in> set rs. \<exists>d. descriptor_distance l r = Some d \<and> d \<le> t)"
  unfolding closest_descriptor_distance_def closest_loop_le by auto

lemma abs_diff_sym: "abs_diff a b = abs_diff b a"
  by (auto simp: abs_diff_def Let_def)

lemma descriptor_distance_sym: "descriptor_distance l r = descriptor_distance r l"
proof -
  have "map (\<lambda>(a, b). abs_diff a b) (zip l r) = map (\<lambda>(a, b). abs_diff a b) (zip r l)"
    by (rule nth_equalityI) (auto simp: abs_diff_sym)
  then show ?thesis by (simp add: descriptor_distance_def)
qed

definition nearer :: "nat \<times> uuid \<Rightarrow> nat \<times> uuid \<Rightarrow> bool" where
  "nearer g h \<longleftrightarrow> fst g < fst h \<or> fst g = fst h \<and> snd g \<le> snd h"

lemma match_loop_nearest:
  "(match_loop x best cs = None \<longleftrightarrow> best = None \<and> hits x cs = {})
   \<and> (\<forall>h. match_loop x best cs = Some h \<longrightarrow> h \<in> set_option best \<union> hits x cs \<and> (\<forall>g \<in> set_option best \<union> hits x cs. nearer h g))"
proof (induction x best cs rule: match_loop.induct)
  case (1 x best)
  then show ?case by (auto simp: hits_def nearer_def)
next
  case (2 x best c cs)
  have h: "hits x (c # cs) = (case descriptor_distance x (fc_descriptor c) of None \<Rightarrow> {}
      | Some d \<Rightarrow> if d \<le> FACE_DESCRIPTOR_DISTANCE_THRESHOLD then {(d, fc_cluster c)} else {}) \<union> hits x cs"
    by (auto simp: hits_def split: option.splits)
  have trans: "nearer a c" if "nearer a b" "nearer b c" for a b c using that by (auto simp: nearer_def)
  show ?case
  proof (cases "descriptor_distance x (fc_descriptor c)")
    case None
    then show ?thesis using 2(1) h by simp
  next
    case (Some d)
    consider (far) "d > FACE_DESCRIPTOR_DISTANCE_THRESHOLD"
      | (new) "d \<le> FACE_DESCRIPTOR_DISTANCE_THRESHOLD" "case best of None \<Rightarrow> True | Some (bd, bi) \<Rightarrow> d < bd \<or> d = bd \<and> fc_cluster c < bi"
      | (old) "d \<le> FACE_DESCRIPTOR_DISTANCE_THRESHOLD" "\<not> (case best of None \<Rightarrow> True | Some (bd, bi) \<Rightarrow> d < bd \<or> d = bd \<and> fc_cluster c < bi)"
      by fastforce
    then show ?thesis
    proof cases
      case far
      then show ?thesis using 2(2) [OF Some] h Some by simp
    next
      case new
      have b: "nearer (d, fc_cluster c) g" if "g \<in> set_option best" for g using new(2) that by (auto simp: nearer_def split: option.splits)
      have r: "match_loop x best (c # cs) = match_loop x (Some (d, fc_cluster c)) cs" using Some new by simp
      have S: "set_option best \<union> hits x (c # cs) = set_option best \<union> (set_option (Some (d, fc_cluster c)) \<union> hits x cs)" using h Some new by simp
      have IH: "match_loop x (Some (d, fc_cluster c)) cs \<noteq> None"
        "\<And>h. match_loop x (Some (d, fc_cluster c)) cs = Some h \<Longrightarrow> h \<in> set_option (Some (d, fc_cluster c)) \<union> hits x cs \<and> (\<forall>g \<in> set_option (Some (d, fc_cluster c)) \<union> hits x cs. nearer h g)"
        using 2(3) [OF Some] new by auto
      have "h \<in> set_option best \<union> hits x (c # cs) \<and> (\<forall>g \<in> set_option best \<union> hits x (c # cs). nearer h g)"
        if m: "match_loop x (Some (d, fc_cluster c)) cs = Some h" for h
        unfolding S using IH(2) [OF m] trans [of h "(d, fc_cluster c)"] b by auto
      moreover have "hits x (c # cs) \<noteq> {}" using h Some new by simp
      ultimately show ?thesis unfolding r using IH(1) by simp
    next
      case old
      then obtain bd bi where best: "best = Some (bd, bi)" "\<not> d < bd" "d = bd \<Longrightarrow> \<not> fc_cluster c < bi" by (cases best) auto
      define g where "g = (bd, bi)"
      have g: "best = Some g" "nearer g (d, fc_cluster c)" using best unfolding g_def nearer_def by (auto simp: not_less)
      have r: "match_loop x best (c # cs) = match_loop x best cs" using Some old by simp
      have S: "hits x (c # cs) = insert (d, fc_cluster c) (hits x cs)" using h Some old by simp
      have IH: "match_loop x best cs \<noteq> None"
        "\<And>h. match_loop x best cs = Some h \<Longrightarrow> h \<in> set_option best \<union> hits x cs \<and> (\<forall>g \<in> set_option best \<union> hits x cs. nearer h g)"
        using 2(4) [OF Some] old g(1) by auto
      have "h \<in> set_option best \<union> hits x (c # cs) \<and> (\<forall>g \<in> set_option best \<union> hits x (c # cs). nearer h g)"
        if m: "match_loop x best cs = Some h" for h
        unfolding S using IH(2) [OF m] trans [of h g] g by auto
      then show ?thesis unfolding r using IH(1) g(1) by simp
    qed
  qed
qed

section \<open>Union and find\<close>

text \<open>
  The order in which trees are joined gives every index a key that grows from the root to the
  leaves: named clusters have the least key, so that they stay roots, then the order of identifiers decides.
\<close>

definition forest :: "(nat \<Rightarrow> nat) \<Rightarrow> nat list \<Rightarrow> bool" where
  "forest key p \<longleftrightarrow> (\<forall>i < length p. p ! i < length p \<and> (p ! i \<noteq> i \<longrightarrow> key (p ! i) < key i))"

inductive root_of :: "nat list \<Rightarrow> nat \<Rightarrow> nat \<Rightarrow> bool" for p where
  at_root: "p ! i = i \<Longrightarrow> root_of p i i"
| up: "p ! i \<noteq> i \<Longrightarrow> root_of p (p ! i) r \<Longrightarrow> root_of p i r"

inductive_simps root_of_iff: "root_of p i r"

lemma root_of_self: "p ! r = r \<Longrightarrow> root_of p r s \<longleftrightarrow> s = r"
  by (subst root_of_iff) auto

lemma root_of_step: "p ! i \<noteq> i \<Longrightarrow> root_of p i r \<longleftrightarrow> root_of p (p ! i) r"
  by (subst root_of_iff) simp

lemma root_of_unique: "root_of p i r \<Longrightarrow> root_of p i s \<Longrightarrow> r = s"
  by (induction arbitrary: s rule: root_of.induct) (simp_all add: root_of_self root_of_step)

lemma root_of_root: "root_of p i r \<Longrightarrow> p ! r = r"
  by (induction rule: root_of.induct) auto

lemma root_of_refl: "root_of p r r \<longleftrightarrow> p ! r = r"
  using root_of_root root_of.at_root by blast

lemma root_exists:
  assumes "forest key p" and "i < length p"
  shows "\<exists>r < length p. root_of p i r"
  using assms(2)
proof (induction "key i" arbitrary: i rule: less_induct)
  case less
  show ?case
  proof (cases "p ! i = i")
    case True
    then show ?thesis using less.prems root_of.at_root by blast
  next
    case False
    then show ?thesis using less.hyps [of "p ! i"] less.prems assms(1) root_of.up by (auto simp: forest_def)
  qed
qed

lemma root_of_less: "forest key p \<Longrightarrow> i < length p \<Longrightarrow> root_of p i r \<Longrightarrow> r < length p"
  using root_exists root_of_unique by blast

definition same_roots :: "nat list \<Rightarrow> nat list \<Rightarrow> bool" where
  "same_roots p q \<longleftrightarrow> length q = length p \<and> (\<forall>j < length p. \<forall>s. root_of q j s \<longleftrightarrow> root_of p j s)"

lemma same_rootsI:
  assumes "forest key p" and "length q = length p" and "\<And>j s. j < length p \<Longrightarrow> root_of p j s \<Longrightarrow> root_of q j s"
  shows "same_roots p q"
  unfolding same_roots_def using assms root_exists root_of_unique by blast

lemma halved:
  assumes "forest key p" and "i < length p" and "p ! i \<noteq> i"
  shows "key (p ! (p ! i)) < key i" and "p ! (p ! i) < length p"
proof -
  have i: "p ! i < length p" "key (p ! i) < key i" using assms by (auto simp: forest_def)
  show "p ! (p ! i) < length p" using i assms(1) by (auto simp: forest_def)
  show "key (p ! (p ! i)) < key i" using i assms(1) by (cases "p ! (p ! i) = p ! i") (auto simp: forest_def intro: order.strict_trans)
qed

lemma halving:
  assumes f: "forest key p" and i: "i < length p" and q: "q = p[i := p ! (p ! i)]"
  shows "forest key q" and "same_roots p q"
proof -
  have le: "p ! i < length p" using f i by (simp add: forest_def)
  have ne: "p ! (p ! i) \<noteq> i" if "p ! i \<noteq> i" using halved(1) [OF f i that] by auto
  show "forest key q" unfolding forest_def q
  proof (intro allI impI conjI)
    fix j
    assume "j < length (p[i := p ! (p ! i)])"
    then have j: "j < length p" by simp
    show "p[i := p ! (p ! i)] ! j < length (p[i := p ! (p ! i)])" using f i j le by (auto simp: forest_def nth_list_update)
    assume "p[i := p ! (p ! i)] ! j \<noteq> j"
    then show "key (p[i := p ! (p ! i)] ! j) < key j"
      using f i j halved(1) [OF f i] by (cases "j = i"; cases "p ! i = i") (auto simp: forest_def nth_list_update)
  qed
  show "same_roots p q"
  proof (rule same_rootsI [OF f])
    show "length q = length p" by (simp add: q)
    fix j s
    assume "j < length p" and "root_of p j s"
    from this(2,1) show "root_of q j s"
    proof (induction rule: root_of.induct)
      case (at_root j)
      then show ?case using i by - (rule root_of.at_root, auto simp: q nth_list_update)
    next
      case (up j r)
      have IH: "root_of q (p ! j) r" using up f by (auto simp: forest_def)
      show ?case
      proof (cases "j = i")
        case False
        then show ?thesis using IH up by - (rule root_of.up, auto simp: q)
      next
        case True
        have qi: "q ! i = p ! (p ! i)" "q ! (p ! i) = p ! (p ! i)" using i up True le by (auto simp: q nth_list_update)
        note ne = ne [OF up(1) [unfolded True]]
        show ?thesis
        proof (cases "p ! (p ! i) = p ! i")
          case True
          then show ?thesis using IH qi ne \<open>j = i\<close> by - (rule root_of.up, auto)
        next
          case False
          then have "root_of q (p ! (p ! i)) r" using IH qi \<open>j = i\<close> root_of_step [of q "p ! i" r] by simp
          then show ?thesis using qi ne \<open>j = i\<close> by - (rule root_of.up, auto)
        qed
      qed
    qed
  qed
qed

lemma same_roots_trans: "same_roots p q \<Longrightarrow> same_roots q r \<Longrightarrow> same_roots p r"
  by (simp add: same_roots_def)

text \<open>The search ends at the root and leaves the trees as they were, but for the lengths of paths.\<close>

lemma find_root_correct:
  assumes "forest key p" and "i < length p"
  shows "\<exists>q r. find_root p i = Some (q, r) \<and> forest key q \<and> same_roots p q \<and> root_of p i r"
  using assms
proof (induction "key i" arbitrary: i p rule: less_induct)
  case less
  show ?case
  proof (cases "p ! i = i")
    case True
    have "find_root p i = Some (p, i)" using True by (subst find_root.simps) simp
    then show ?thesis using less.prems True by (auto simp: same_roots_def intro: root_of.at_root)
  next
    case False
    let ?q = "p[i := p ! (p ! i)]"
    have r: "find_root p i = find_root ?q (?q ! i)" using False by (subst find_root.simps) (simp add: Let_def)
    note h = halving [OF less.prems refl]
    have k: "key (?q ! i) < key i" "?q ! i < length ?q"
      using halved [OF less.prems False] less.prems by simp_all
    obtain q s where s: "find_root ?q (?q ! i) = Some (q, s)" "forest key q" "same_roots ?q q" "root_of ?q (?q ! i) s"
      using less.hyps [OF k(1) h(1) k(2)] by blast
    have "root_of ?q i s" using s(4) k(1) by - (rule root_of.up, auto)
    then have "root_of p i s" using h(2) less.prems by (simp add: same_roots_def)
    then show ?thesis using r s same_roots_trans [OF h(2)] by auto
  qed
qed

lemma union:
  assumes f: "forest key p" and r: "root < length p" "p ! root = root" and c: "child < length p" "p ! child = child"
    and k: "key root < key child" and q: "q = p[child := root]"
  shows "forest key q" and "\<And>j s. j < length p \<Longrightarrow> root_of q j s \<longleftrightarrow> (if root_of p j child then s = root else root_of p j s)"
proof -
  have ne: "root \<noteq> child" using k by auto
  show fq: "forest key q" using f r c k ne unfolding forest_def q by (auto simp: nth_list_update)
  have q': "q ! root = root" "q ! child = root" "length q = length p" using r c ne by (simp_all add: q)
  have fwd: "root_of q j (if s = child then root else s)" if "root_of p j s" "j < length p" for j s
    using that
  proof (induction rule: root_of.induct)
    case (at_root j)
    show ?case
    proof (cases "j = child")
      case True
      then show ?thesis using root_of_step [of q child root] q' ne by (simp add: root_of_self)
    next
      case False
      then show ?thesis using at_root by (simp add: root_of_self q)
    qed
  next
    case (up j s)
    then have "j \<noteq> child" "p ! j < length p" using c f by (auto simp: forest_def)
    then show ?case using up root_of_step [of q j] by (simp add: q)
  qed
  show "root_of q j s \<longleftrightarrow> (if root_of p j child then s = root else root_of p j s)" if j: "j < length p" for j s
    using root_exists [OF f j] fwd [OF _ j] root_of_unique [of p j] root_of_unique [of q j] by (metis (full_types))
qed

section \<open>The loop\<close>

lemma index_pairs_iff: "(i, j) \<in> set (index_pairs n) \<longleftrightarrow> i < j \<and> j < n"
  by (auto simp: index_pairs_def intro!: bexI [of _ i])

text \<open>
  The plan for given groups, which are sorted by identifier. Two groups are close when some of
  their descriptors are within the threshold.
\<close>

locale merging =
  fixes groups :: "group list"
  assumes ids: "sorted_wrt (\<lambda>a b. gr_id a < gr_id b) groups"
begin

definition named :: "nat \<Rightarrow> bool" where
  "named i \<longleftrightarrow> gr_label (groups ! i) \<noteq> None"

definition close :: "(nat \<times> nat) set" where
  "close = {(i, j). i < length groups \<and> j < length groups \<and> (\<exists>l \<in> set (gr_descriptors (groups ! i)). \<exists>r \<in> set (gr_descriptors (groups ! j)).
     \<exists>d. descriptor_distance l r = Some d \<and> d \<le> FACE_CLUSTER_MERGE_THRESHOLD)}"

definition key :: "nat \<Rightarrow> nat" where
  "key i = (if named i then 0 else Suc i)"

definition settled :: "nat list \<Rightarrow> nat \<times> nat \<Rightarrow> bool" where
  "settled p ij \<longleftrightarrow> (\<forall>r s. root_of p (fst ij) r \<longrightarrow> root_of p (snd ij) s \<longrightarrow> r = s \<or> named r \<and> named s)"

definition loop_ok :: "(nat \<times> nat) set \<Rightarrow> group list \<Rightarrow> nat list \<Rightarrow> bool" where
  "loop_ok visited gs p \<longleftrightarrow> length gs = length groups \<and> length p = length groups \<and> forest key p
     \<and> (\<forall>i < length groups. gr_id (gs ! i) = gr_id (groups ! i) \<and> gr_label (gs ! i) = gr_label (groups ! i))
     \<and> (\<forall>r < length groups. p ! r = r \<longrightarrow>
          set (gr_descriptors (gs ! r)) = (\<Union>j \<in> {j. j < length groups \<and> root_of p j r}. set (gr_descriptors (groups ! j))))
     \<and> (\<forall>j < length groups. \<forall>r. root_of p j r \<longrightarrow> (j, r) \<in> close\<^sup>*)
     \<and> (\<forall>ij \<in> visited \<inter> close. settled p ij)"

lemma loop_okD:
  assumes "loop_ok visited gs p"
  shows "length gs = length groups" "length p = length groups" "forest key p"
    and "\<And>i. i < length groups \<Longrightarrow> gr_id (gs ! i) = gr_id (groups ! i)"
    and "\<And>i. i < length groups \<Longrightarrow> gr_label (gs ! i) = gr_label (groups ! i)"
    and "\<And>r. r < length groups \<Longrightarrow> p ! r = r \<Longrightarrow>
          set (gr_descriptors (gs ! r)) = (\<Union>j \<in> {j. j < length groups \<and> root_of p j r}. set (gr_descriptors (groups ! j)))"
    and "\<And>j r. j < length groups \<Longrightarrow> root_of p j r \<Longrightarrow> (j, r) \<in> close\<^sup>*"
    and "\<And>ij. ij \<in> visited \<Longrightarrow> ij \<in> close \<Longrightarrow> settled p ij"
  using assms unfolding loop_ok_def by blast+

lemma closeD: "(i, j) \<in> close \<Longrightarrow> i < length groups \<and> j < length groups"
  by (simp add: close_def)

lemma close_sym: "(i, j) \<in> close \<Longrightarrow> (j, i) \<in> close"
  unfolding close_def using descriptor_distance_sym by fastforce

lemma close_rtrancl_sym: "(i, j) \<in> close\<^sup>* \<Longrightarrow> (j, i) \<in> close\<^sup>*"
  by (induction rule: rtrancl_induct) (auto intro: close_sym converse_rtrancl_into_rtrancl)

lemma loop_ok_start: "loop_ok {} groups [0..<length groups]"
proof -
  have r: "root_of [0..<length groups] j r \<longleftrightarrow> r = j" if "j < length groups" for j r using that by (simp add: root_of_self)
  have "(\<Union>j \<in> {j. j < length groups \<and> root_of [0..<length groups] j r}. set (gr_descriptors (groups ! j))) = set (gr_descriptors (groups ! r))"
    if "r < length groups" for r using that r by auto
  then show ?thesis using r by (simp add: loop_ok_def forest_def)
qed

lemma same_roots_fixed: "forest k p \<Longrightarrow> same_roots p q \<Longrightarrow> r < length p \<Longrightarrow> q ! r = r \<longleftrightarrow> p ! r = r"
  by (simp add: same_roots_def flip: root_of_refl)

lemma loop_ok_same_roots:
  assumes l: "loop_ok visited gs p" and q: "forest key q" "same_roots p q"
  shows "loop_ok visited gs q"
proof -
  note d = loop_okD [OF l]
  have len: "length q = length groups" and eq: "\<And>j s. j < length groups \<Longrightarrow> root_of q j s \<longleftrightarrow> root_of p j s"
    using q(2) d(2) by (simp_all add: same_roots_def)
  have fixed: "r < length groups \<Longrightarrow> q ! r = r \<longleftrightarrow> p ! r = r" for r using same_roots_fixed [OF d(3) q(2)] d(2) by simp
  have "settled q ij" if "ij \<in> visited" "ij \<in> close" for ij
    using d(8) [OF that] closeD [of "fst ij" "snd ij"] that(2) eq unfolding settled_def by simp
  moreover have "{j. j < length groups \<and> root_of q j r} = {j. j < length groups \<and> root_of p j r}" for r using eq by auto
  ultimately show ?thesis unfolding loop_ok_def using d q(1) len eq fixed by simp
qed

lemma loop_ok_visit: "loop_ok visited gs p \<Longrightarrow> (ij \<in> close \<Longrightarrow> settled p ij) \<Longrightarrow> loop_ok (insert ij visited) gs p"
  by (auto simp: loop_ok_def)

text \<open>Joining two trees whose roots have close descriptors.\<close>

lemma loop_ok_join:
  assumes l: "loop_ok visited gs p" and r: "root < length groups" "p ! root = root" and c: "child < length groups" "p ! child = child"
    and k: "key root < key child" and nc: "\<not> named child"
    and d: "l \<in> set (gr_descriptors (gs ! root))" "m \<in> set (gr_descriptors (gs ! child))" "descriptor_distance l m = Some n" "n \<le> FACE_CLUSTER_MERGE_THRESHOLD"
  shows "loop_ok visited (gs[root := (gs ! root)\<lparr>gr_descriptors := gr_descriptors (gs ! root) @ gr_descriptors (gs ! child)\<rparr>]) (p[child := root])"
    (is "loop_ok visited ?gs ?q")
proof -
  note o = loop_okD [OF l]
  have ne: "root \<noteq> child" using k by auto
  note u = union [OF o(3) _ r(2) _ c(2) k refl, unfolded o(2), OF r(1) c(1)]
  have desc: "set (gr_descriptors (?gs ! s)) = (\<Union>j \<in> {j. j < length groups \<and> root_of ?q j s}. set (gr_descriptors (groups ! j)))"
    if s: "s < length groups" "?q ! s = s" for s
  proof -
    have sc: "s \<noteq> child" using s(2) ne c(1) o(2) by auto
    then have ps: "p ! s = s" using s(2) by simp
    show ?thesis
    proof (cases "s = root")
      case True
      have "{j. j < length groups \<and> root_of ?q j s} = {j. j < length groups \<and> root_of p j root} \<union> {j. j < length groups \<and> root_of p j child}"
        using u(2) True by auto
      then show ?thesis using True r(1) o(1) o(6) [OF r] o(6) [OF c] by (simp add: UN_Un)
    next
      case False
      have "{j. j < length groups \<and> root_of ?q j s} = {j. j < length groups \<and> root_of p j s}"
        using u(2) False sc by (auto split: if_splits dest: root_of_unique)
      then show ?thesis using False o(6) [OF s(1) ps] by simp
    qed
  qed
  obtain a b where ab: "a < length groups" "root_of p a root" "l \<in> set (gr_descriptors (groups ! a))"
    "b < length groups" "root_of p b child" "m \<in> set (gr_descriptors (groups ! b))"
    using d(1,2) o(6) [OF r] o(6) [OF c] by auto
  have "(a, b) \<in> close" unfolding close_def using ab d(3,4) by blast
  then have "(b, a) \<in> close" by (rule close_sym)
  moreover have "(child, b) \<in> close\<^sup>*" "(a, root) \<in> close\<^sup>*" using o(7) ab close_rtrancl_sym by auto
  ultimately have cr: "(child, root) \<in> close\<^sup>*" by auto
  have conn: "(j, s) \<in> close\<^sup>*" if "j < length groups" "root_of ?q j s" for j s
    using that u(2) [OF that(1)] o(7) [OF that(1)] cr by (auto split: if_splits intro: rtrancl_trans)
  have "settled ?q ij" if ij: "ij \<in> visited" "ij \<in> close" for ij
  proof -
    have lt: "fst ij < length groups" "snd ij < length groups" using closeD [of "fst ij" "snd ij"] ij(2) by auto
    obtain r1 r2 where r12: "root_of p (fst ij) r1" "root_of p (snd ij) r2" using root_exists [OF o(3)] lt o(2) by metis
    then have "r1 = r2 \<or> named r1 \<and> named r2" using o(8) [OF ij] by (auto simp: settled_def)
    moreover have "root_of p (fst ij) s \<longleftrightarrow> s = r1" "root_of p (snd ij) s \<longleftrightarrow> s = r2" for s using r12 root_of_unique by blast+
    ultimately show ?thesis using u(2) lt nc unfolding settled_def by (auto split: if_splits)
  qed
  moreover have "gr_id (?gs ! i) = gr_id (gs ! i)" "gr_label (?gs ! i) = gr_label (gs ! i)" if "i < length groups" for i
    using that o(1) by (cases "i = root"; simp)+
  ultimately show ?thesis unfolding loop_ok_def using o u(1) desc conn by simp
qed

lemma key_less:
  assumes "root < length groups" and "child < length groups" and "root \<noteq> child" and "\<not> named child"
    and "named root \<or> gr_id (groups ! root) \<le> gr_id (groups ! child)"
  shows "key root < key child"
proof (cases "named root")
  case True
  then show ?thesis using assms by (simp add: key_def)
next
  case False
  then have "\<not> child < root" using assms ids sorted_wrt_nth_less [OF ids, of child root] by auto
  then show ?thesis using assms False by (simp add: key_def)
qed

lemma settled_joined: "root_of p i r \<Longrightarrow> root_of p j r \<Longrightarrow> settled p (i, j)"
  unfolding settled_def fst_conv snd_conv using root_of_unique [of p i r] root_of_unique [of p j r] by blast

lemma merge_pair_ok:
  assumes l: "loop_ok visited gs p" and i: "i < length groups" "j < length groups"
  shows "\<exists>gs' p'. merge_pair (i, j) (gs, p) = Some (gs', p') \<and> loop_ok (insert (i, j) visited) gs' p'"
proof -
  note o = loop_okD [OF l]
  from find_root_correct [OF o(3)] i o(2) obtain p1 a where a: "find_root p i = Some (p1, a)" "forest key p1" "same_roots p p1" "root_of p i a" by metis
  then have "length p1 = length groups" using o(2) by (simp add: same_roots_def)
  from find_root_correct [OF a(2)] i this obtain q b where b: "find_root p1 j = Some (q, b)" "forest key q" "same_roots p1 q" "root_of p1 j b" by metis
  have q: "loop_ok visited gs q" using loop_ok_same_roots [OF l] a b same_roots_trans by blast
  note oq = loop_okD [OF q]
  have ra: "root_of q i a" "root_of q j b" using a b i o(2) by (simp_all add: same_roots_def)
  have ab: "a < length groups" "b < length groups" "q ! a = a" "q ! b = b"
    using root_of_less [OF oq(3)] i oq(2) ra root_of_root by auto
  note unfold_run = merge_pair_def prod.case fst_conv snd_conv a(1) b(1) option.case Let_def
  have kept: ?thesis if "merge_pair (i, j) (gs, p) = Some (gs, q)" "(i, j) \<in> close \<Longrightarrow> settled q (i, j)"
    using that loop_ok_visit [OF q] by blast
  have named: "gr_label (gs ! a) \<noteq> None \<longleftrightarrow> named a" "gr_label (gs ! b) \<noteq> None \<longleftrightarrow> named b" using oq(5) ab by (simp_all add: named_def)
  consider (same) "a = b" | (both) "a \<noteq> b" "named a" "named b"
    | (far) "a \<noteq> b" "\<not> (named a \<and> named b)" "\<nexists>d. closest_descriptor_distance (gr_descriptors (gs ! a)) (gr_descriptors (gs ! b)) = Some d \<and> d \<le> FACE_CLUSTER_MERGE_THRESHOLD"
    | (join) d where "a \<noteq> b" "\<not> (named a \<and> named b)" "closest_descriptor_distance (gr_descriptors (gs ! a)) (gr_descriptors (gs ! b)) = Some d" "d \<le> FACE_CLUSTER_MERGE_THRESHOLD"
    by blast
  then show ?thesis
  proof cases
    case same
    show ?thesis by (rule kept) (use same ra settled_joined in \<open>auto simp: unfold_run\<close>)
  next
    case both
    have "settled q (i, j)" unfolding settled_def fst_conv snd_conv using both(2,3) root_of_unique [OF ra(1)] root_of_unique [OF ra(2)] by blast
    then show ?thesis by (intro kept) (use both named in \<open>auto simp: unfold_run\<close>)
  next
    case far
    have "merge_pair (i, j) (gs, p) = Some (gs, q)" using far named by (auto simp: unfold_run split: option.splits)
    moreover have "(i, j) \<notin> close"
    proof
      assume "(i, j) \<in> close"
      then obtain x y d where x: "x \<in> set (gr_descriptors (groups ! i))" "y \<in> set (gr_descriptors (groups ! j))" "descriptor_distance x y = Some d" "d \<le> FACE_CLUSTER_MERGE_THRESHOLD"
        by (auto simp: close_def)
      then have "x \<in> set (gr_descriptors (gs ! a))" "y \<in> set (gr_descriptors (gs ! b))" using oq(6) ab i ra by auto
      then show False using far(3) x(3,4) unfolding closest_le by blast
    qed
    ultimately show ?thesis by (intro kept) auto
  next
    case (join d)
    define rc where "rc = (if named a \<and> \<not> named b then (a, b) else if \<not> named a \<and> named b then (b, a)
      else if gr_id (gs ! a) \<le> gr_id (gs ! b) then (a, b) else (b, a))"
    obtain root child where rc': "rc = (root, child)" by (cases rc)
    let ?gs = "gs[root := (gs ! root)\<lparr>gr_descriptors := gr_descriptors (gs ! root) @ gr_descriptors (gs ! child)\<rparr>]"
    have run: "merge_pair (i, j) (gs, p) = Some (?gs, q[child := root])"
      using join named rc' unfolding rc_def by (auto simp: unfold_run split: if_splits)
    have cases: "root = a \<and> child = b \<or> root = b \<and> child = a" "\<not> named child" "named root \<or> gr_id (groups ! root) \<le> gr_id (groups ! child)"
      using rc' join(2) oq(4) ab unfolding rc_def by (auto split: if_splits)
    then have k: "key root < key child" using key_less ab join(1) by metis
    obtain x y n where xy: "x \<in> set (gr_descriptors (gs ! root))" "y \<in> set (gr_descriptors (gs ! child))" "descriptor_distance x y = Some n" "n \<le> FACE_CLUSTER_MERGE_THRESHOLD"
      using closest_le [of "gr_descriptors (gs ! a)" "gr_descriptors (gs ! b)" FACE_CLUSTER_MERGE_THRESHOLD] join(3,4) cases(1) descriptor_distance_sym by metis
    have bounds: "root < length groups" "q ! root = root" "child < length groups" "q ! child = child" using cases(1) ab by auto
    note new = loop_ok_join [OF q bounds k cases(2) xy]
    note u = union(2) [OF oq(3) _ bounds(2) _ bounds(4) k refl, unfolded oq(2), OF bounds(1,3)]
    have "root_of (q[child := root]) i root" "root_of (q[child := root]) j root"
      using u [OF i(1)] u [OF i(2)] ra cases(1) root_of_unique join(1) by auto
    then show ?thesis using run loop_ok_visit [OF new settled_joined] by blast
  qed
qed

lemma merge_pairs_ok:
  "loop_ok visited gs p \<Longrightarrow> list_all (\<lambda>(i, j). i < length groups \<and> j < length groups) ijs \<Longrightarrow>
   \<exists>gs' p'. merge_pairs ijs (gs, p) = Some (gs', p') \<and> loop_ok (visited \<union> set ijs) gs' p'"
proof (induction ijs arbitrary: visited gs p)
  case (Cons ij ijs)
  obtain i j where ij: "ij = (i, j)" by (cases ij)
  with Cons.prems merge_pair_ok obtain gs1 p1 where 1: "merge_pair (i, j) (gs, p) = Some (gs1, p1)" "loop_ok (insert (i, j) visited) gs1 p1" by force
  from Cons.IH [OF 1(2)] Cons.prems(2) show ?case using 1(1) ij by auto
qed simp

lemma plan_loop_ok:
  assumes "forest key p" and "length p = length groups" and "list_all (\<lambda>i. i < length groups) is"
  shows "\<exists>plan. plan_loop gs p is = Some plan
    \<and> plan = map (\<lambda>i. (gr_id (gs ! i), gr_id (gs ! (THE r. root_of p i r)))) (filter (\<lambda>i. \<not> root_of p i i) is)"
  using assms
proof (induction "is" arbitrary: p)
  case (Cons i "is")
  then obtain q r where q: "find_root p i = Some (q, r)" "forest key q" "same_roots p q" "root_of p i r"
    using find_root_correct [of key p i] by auto
  have len: "length q = length groups" and eq: "\<And>j s. j < length groups \<Longrightarrow> root_of q j s \<longleftrightarrow> root_of p j s"
    using q(3) Cons.prems(2) by (simp_all add: same_roots_def)
  from Cons.IH [OF q(2) len] Cons.prems(3)
  have IH: "plan_loop gs q is = Some (map (\<lambda>i. (gr_id (gs ! i), gr_id (gs ! (THE r. root_of q i r)))) (filter (\<lambda>i. \<not> root_of q i i) is))" by auto
  have tail: "map (\<lambda>i. (gr_id (gs ! i), gr_id (gs ! (THE r. root_of q i r)))) (filter (\<lambda>i. \<not> root_of q i i) is)
      = map (\<lambda>i. (gr_id (gs ! i), gr_id (gs ! (THE r. root_of p i r)))) (filter (\<lambda>i. \<not> root_of p i i) is)"
    using Cons.prems(3) eq by (intro map_cong filter_cong) (auto simp: list_all_iff)
  have "(THE r. root_of p i r) = r" using q(4) root_of_unique by blast
  moreover have "root_of p i i \<longleftrightarrow> r = i" using q(4) root_of_unique by blast
  ultimately show ?case using q(1) IH tail by simp
qed simp

definition root_index :: "nat list \<Rightarrow> nat \<Rightarrow> nat" where
  "root_index p i = (THE r. root_of p i r)"

text \<open>The plan, by the indices of the groups.\<close>

lemma plan_exists:
  "\<exists>p. forest key p \<and> length p = length groups
     \<and> (case merge_pairs (index_pairs (length groups)) (groups, [0..<length groups]) of
          None \<Rightarrow> None
        | Some (gs, q) \<Rightarrow> plan_loop gs q [0..<length groups])
       = Some (map (\<lambda>i. (gr_id (groups ! i), gr_id (groups ! root_index p i))) (filter (\<lambda>i. root_index p i \<noteq> i) [0..<length groups]))
     \<and> (\<forall>i < length groups. root_index p i < length groups \<and> root_index p (root_index p i) = root_index p i \<and> (i, root_index p i) \<in> close\<^sup>*
          \<and> (root_index p i \<noteq> i \<longrightarrow> \<not> named i))
     \<and> (\<forall>(i, j) \<in> close. root_index p i = root_index p j \<or> named (root_index p i) \<and> named (root_index p j))"
proof -
  have "list_all (\<lambda>(i, j). i < length groups \<and> j < length groups) (index_pairs (length groups))"
    by (auto simp: index_pairs_iff list_all_iff)
  from merge_pairs_ok [OF loop_ok_start this] obtain gs p where run: "merge_pairs (index_pairs (length groups)) (groups, [0..<length groups]) = Some (gs, p)"
    and l: "loop_ok (set (index_pairs (length groups))) gs p" by auto
  note o = loop_okD [OF l]
  have r: "root_of p i (root_index p i)" "root_of p i s \<longleftrightarrow> s = root_index p i" "root_index p i < length groups" if i: "i < length groups" for i s
  proof -
    obtain r where r: "root_of p i r" "r < length groups" using root_exists [OF o(3), of i] i o(2) by auto
    then have "root_index p i = r" unfolding root_index_def using root_of_unique by blast
    then show "root_of p i (root_index p i)" "root_of p i s \<longleftrightarrow> s = root_index p i" "root_index p i < length groups" using r root_of_unique by auto
  qed
  have all: "list_all (\<lambda>i. i < length groups) [0..<length groups]" by (simp add: list_all_iff)
  from plan_loop_ok [OF o(3,2) all, of gs] have "plan_loop gs p [0..<length groups]
      = Some (map (\<lambda>i. (gr_id (gs ! i), gr_id (gs ! root_index p i))) (filter (\<lambda>i. \<not> root_of p i i) [0..<length groups]))"
    by (simp add: root_index_def)
  also have "map (\<lambda>i. (gr_id (gs ! i), gr_id (gs ! root_index p i))) (filter (\<lambda>i. \<not> root_of p i i) [0..<length groups])
      = map (\<lambda>i. (gr_id (groups ! i), gr_id (groups ! root_index p i))) (filter (\<lambda>i. root_index p i \<noteq> i) [0..<length groups])"
    using r o(4) by (intro map_cong filter_cong) auto
  finally have plan: "plan_loop gs p [0..<length groups]
      = Some (map (\<lambda>i. (gr_id (groups ! i), gr_id (groups ! root_index p i))) (filter (\<lambda>i. root_index p i \<noteq> i) [0..<length groups]))" .
  have root: "root_index p (root_index p i) = root_index p i" if "i < length groups" for i
    using r(2) [OF r(3) [OF that], of "root_index p i"] root_of_root [OF r(1) [OF that]] by (simp add: root_of_refl)
  have unnamed: "\<not> named i" if "i < length groups" "root_index p i \<noteq> i" for i
    using r(2) [OF that(1), of i] that o(3) o(2) by (auto simp: root_of_refl forest_def key_def)
  have "root_index p i = root_index p j \<or> named (root_index p i) \<and> named (root_index p j)" if ij: "(i, j) \<in> close" for i j
  proof -
    have lt: "i < length groups" "j < length groups" using closeD [OF ij] by auto
    have settledD: "root_index p i = root_index p j \<or> named (root_index p i) \<and> named (root_index p j)" if "settled p (i, j) \<or> settled p (j, i)"
      using that r(1) [OF lt(1)] r(1) [OF lt(2)] unfolding settled_def fst_conv snd_conv by metis
    consider "i = j" | "i < j" | "j < i" by linarith
    then show ?thesis
    proof cases
      case 2
      then show ?thesis using settledD o(8) [of "(i, j)"] ij lt by (simp add: index_pairs_iff)
    next
      case 3
      then show ?thesis using settledD o(8) [of "(j, i)"] close_sym [OF ij] lt by (simp add: index_pairs_iff)
    qed simp
  qed
  then show ?thesis using o(2,3,7) run plan r root unnamed by (intro exI [of _ p]) auto
qed

end

section \<open>Clusters\<close>

definition has_name :: "candidate list \<Rightarrow> uuid \<Rightarrow> bool" where
  "has_name cs a \<longleftrightarrow> (\<exists>c \<in> set cs. fc_cluster c = a \<and> fc_label c \<noteq> None)"

definition close_clusters :: "candidate list \<Rightarrow> (uuid \<times> uuid) set" where
  "close_clusters cs = {(a, b). \<exists>c \<in> set cs. \<exists>c' \<in> set cs. fc_cluster c = a \<and> fc_cluster c' = b
     \<and> (\<exists>d. descriptor_distance (fc_descriptor c) (fc_descriptor c') = Some d \<and> d \<le> FACE_CLUSTER_MERGE_THRESHOLD)}"

definition represents :: "candidate list \<Rightarrow> group \<Rightarrow> bool" where
  "represents cs g \<longleftrightarrow> set (gr_descriptors g) = fc_descriptor ` {c \<in> set cs. fc_cluster c = gr_id g}
     \<and> (gr_label g \<noteq> None \<longleftrightarrow> has_name cs (gr_id g))"

definition groups_ok :: "candidate list \<Rightarrow> group list \<Rightarrow> bool" where
  "groups_ok cs gs \<longleftrightarrow> distinct (map gr_id gs) \<and> gr_id ` set gs = fc_cluster ` set cs \<and> list_all (represents cs) gs"

lemma add_candidate_ok:
  assumes "groups_ok cs gs"
  shows "groups_ok (cs @ [c]) (add_candidate c gs)"
proof -
  have g: "distinct (map gr_id gs)" "gr_id ` set gs = fc_cluster ` set cs" "\<And>g. g \<in> set gs \<Longrightarrow> represents cs g"
    using assms by (auto simp: groups_ok_def list_all_iff)
  have other: "represents (cs @ [c]) g" if "g \<in> set gs" "gr_id g \<noteq> fc_cluster c" for g
    using g(3) [OF that(1)] that(2) by (auto simp: represents_def has_name_def)
  show ?thesis
  proof (cases "fc_cluster c \<in> gr_id ` set gs")
    case True
    let ?f = "\<lambda>g. if gr_id g = fc_cluster c then g\<lparr>gr_descriptors := gr_descriptors g @ [fc_descriptor c],
        gr_label := (if gr_label g = None then fc_label c else gr_label g)\<rparr> else g"
    have "represents (cs @ [c]) (?f g)" if "g \<in> set gs" "gr_id g = fc_cluster c" for g
      using g(3) [OF that(1)] that(2) by (auto simp: represents_def has_name_def)
    then have "list_all (represents (cs @ [c])) (map ?f gs)" using other by (auto simp: list_all_iff)
    moreover have ids: "map gr_id (map ?f gs) = map gr_id gs" by simp
    have "gr_id ` set (map ?f gs) = gr_id ` set gs" using arg_cong [OF ids, of set] by (simp only: set_map)
    moreover have "fc_cluster ` set (cs @ [c]) = fc_cluster ` set cs" using True g(2) by (simp add: insert_absorb)
    moreover have "add_candidate c gs = map ?f gs" using True by (simp add: add_candidate_def)
    ultimately show ?thesis using ids g(1,2) by (simp only: groups_ok_def)
  next
    case False
    then have "\<forall>x \<in> set cs. fc_cluster x \<noteq> fc_cluster c" using g(2) by (metis imageI)
    then have "represents (cs @ [c]) \<lparr>gr_id = fc_cluster c, gr_label = fc_label c, gr_descriptors = [fc_descriptor c]\<rparr>"
      by (auto simp: represents_def has_name_def)
    moreover have "represents (cs @ [c]) g" if "g \<in> set gs" for g using other [OF that] that False by (metis imageI)
    ultimately show ?thesis using False g(1,2) by (auto simp: groups_ok_def add_candidate_def list_all_iff)
  qed
qed

lemma groups_of_ok: "groups_ok cs (groups_of cs)"
proof -
  have "groups_ok cs (foldl (\<lambda>gs c. add_candidate c gs) [] cs)"
  proof (induction cs rule: rev_induct)
    case (snoc c cs)
    then show ?case using add_candidate_ok by simp
  qed (simp add: groups_ok_def)
  then show ?thesis by (simp add: groups_of_def groups_ok_def list_all_iff distinct_map)
qed

interpretation plan: merging "groups_of cs" for cs
proof
  have "sorted (map gr_id (groups_of cs))" by (simp add: groups_of_def)
  moreover have "distinct (map gr_id (groups_of cs))" using groups_of_ok by (simp add: groups_ok_def)
  ultimately have "sorted_wrt (<) (map gr_id (groups_of cs))" by (simp add: strict_sorted_iff)
  then show "sorted_wrt (\<lambda>a b. gr_id a < gr_id b) (groups_of cs)" by (simp add: sorted_wrt_map)
qed

text \<open>
  The cluster that a face joins: none when no candidate is within the threshold, and
  otherwise the cluster of the nearest candidate, the smallest identifier among equally near
  ones. In particular the order of the candidates does not matter.
\<close>

lemma matching_cluster_nearest:
  "(matching_cluster x cs = None \<longleftrightarrow> hits x cs = {})
   \<and> (\<forall>i. matching_cluster x cs = Some i \<longrightarrow> (\<exists>d. (d, i) \<in> hits x cs \<and> (\<forall>(e, j) \<in> hits x cs. d < e \<or> d = e \<and> i \<le> j)))"
  unfolding matching_cluster_def using match_loop_nearest [of x None cs] by (fastforce simp: nearer_def)

text \<open>Where a plan takes a cluster.\<close>

definition plan_target :: "(uuid \<times> uuid) list \<Rightarrow> uuid \<Rightarrow> uuid" where
  "plan_target moves a = (case map_of moves a of None \<Rightarrow> a | Some b \<Rightarrow> b)"

text \<open>Groups and their indices against clusters.\<close>

lemma group_facts:
  assumes "i < length (groups_of cs)"
  shows "j < length (groups_of cs) \<Longrightarrow> gr_id (groups_of cs ! i) = gr_id (groups_of cs ! j) \<longleftrightarrow> i = j"
    and "plan.named cs i \<longleftrightarrow> has_name cs (gr_id (groups_of cs ! i))"
    and "set (gr_descriptors (groups_of cs ! i)) = fc_descriptor ` {c \<in> set cs. fc_cluster c = gr_id (groups_of cs ! i)}"
proof -
  note ok = groups_of_ok [of cs, unfolded groups_ok_def list_all_iff]
  show "gr_id (groups_of cs ! i) = gr_id (groups_of cs ! j) \<longleftrightarrow> i = j" if "j < length (groups_of cs)"
    using ok assms that by (auto simp: distinct_conv_nth)
  show "plan.named cs i \<longleftrightarrow> has_name cs (gr_id (groups_of cs ! i))" using ok assms by (simp add: plan.named_def represents_def)
  show "set (gr_descriptors (groups_of cs ! i)) = fc_descriptor ` {c \<in> set cs. fc_cluster c = gr_id (groups_of cs ! i)}"
    using ok assms by (simp add: represents_def)
qed

lemma close_groups: "(i, j) \<in> plan.close cs \<Longrightarrow> (gr_id (groups_of cs ! i), gr_id (groups_of cs ! j)) \<in> close_clusters cs"
  using group_facts(3) by (fastforce simp: plan.close_def close_clusters_def)

lemma chained_groups: "(i, j) \<in> (plan.close cs)\<^sup>* \<Longrightarrow> (gr_id (groups_of cs ! i), gr_id (groups_of cs ! j)) \<in> (close_clusters cs)\<^sup>*"
  by (induction rule: rtrancl_induct) (auto intro: rtrancl_into_rtrancl close_groups)

lemma close_clusters_indices:
  assumes "(a, b) \<in> close_clusters cs"
  obtains i j where "i < length (groups_of cs)" "j < length (groups_of cs)" "a = gr_id (groups_of cs ! i)" "b = gr_id (groups_of cs ! j)" "(i, j) \<in> plan.close cs"
proof -
  from assms obtain c c' d where c: "c \<in> set cs" "c' \<in> set cs" "fc_cluster c = a" "fc_cluster c' = b"
    "descriptor_distance (fc_descriptor c) (fc_descriptor c') = Some d" "d \<le> FACE_CLUSTER_MERGE_THRESHOLD"
    by (auto simp: close_clusters_def)
  then have "a \<in> gr_id ` set (groups_of cs)" "b \<in> gr_id ` set (groups_of cs)" using groups_of_ok [of cs] by (auto simp: groups_ok_def)
  then obtain i j where ij: "i < length (groups_of cs)" "j < length (groups_of cs)" "a = gr_id (groups_of cs ! i)" "b = gr_id (groups_of cs ! j)"
    by (auto simp: in_set_conv_nth)
  then have "fc_descriptor c \<in> set (gr_descriptors (groups_of cs ! i))" "fc_descriptor c' \<in> set (gr_descriptors (groups_of cs ! j))"
    using group_facts(3) c by auto
  then have "(i, j) \<in> plan.close cs" using ij c(5,6) unfolding plan.close_def by blast
  with ij that show thesis by blast
qed

text \<open>
  C40. The merge plan is always found, whatever the clusters: the searches for roots end. Each
  cluster is merged at most once and into one that stays; a cluster with a name is never merged
  into another, so two names are never mixed. Clusters are only joined through a chain of
  clusters that are pairwise close, and two close clusters end in the same cluster unless they
  end in two different ones that both have names.
\<close>

theorem cluster_merge_plan_correct:
  "\<exists>moves. cluster_merge_plan cs = Some moves \<and> distinct (map fst moves)
     \<and> (\<forall>(a, b) \<in> set moves. a \<noteq> b \<and> b \<notin> fst ` set moves \<and> \<not> has_name cs a \<and> (a, b) \<in> (close_clusters cs)\<^sup>*)
     \<and> (\<forall>(a, b) \<in> close_clusters cs. plan_target moves a = plan_target moves b
          \<or> has_name cs (plan_target moves a) \<and> has_name cs (plan_target moves b))"
proof -
  let ?G = "groups_of cs" and ?id = "\<lambda>i. gr_id (groups_of cs ! i)"
  obtain p where run: "(case merge_pairs (index_pairs (length ?G)) (?G, [0..<length ?G]) of None \<Rightarrow> None | Some (gs, q) \<Rightarrow> plan_loop gs q [0..<length ?G])
      = Some (map (\<lambda>i. (?id i, ?id (plan.root_index p i))) (filter (\<lambda>i. plan.root_index p i \<noteq> i) [0..<length ?G]))"
    and r: "\<And>i. i < length ?G \<Longrightarrow> plan.root_index p i < length ?G \<and> plan.root_index p (plan.root_index p i) = plan.root_index p i
      \<and> (i, plan.root_index p i) \<in> (plan.close cs)\<^sup>* \<and> (plan.root_index p i \<noteq> i \<longrightarrow> \<not> plan.named cs i)"
    and sep: "\<And>i j. (i, j) \<in> plan.close cs \<Longrightarrow> plan.root_index p i = plan.root_index p j \<or> plan.named cs (plan.root_index p i) \<and> plan.named cs (plan.root_index p j)"
    using plan.plan_exists [of cs] by blast
  let ?R = "plan.root_index p"
  define moves where "moves = sort_key fst (map (\<lambda>i. (?id i, ?id (?R i))) (filter (\<lambda>i. ?R i \<noteq> i) [0..<length ?G]))"
  have m: "cluster_merge_plan cs = Some moves"
    using run unfolding cluster_merge_plan_def Let_def moves_def by (auto split: option.splits)
  have set: "set moves = (\<lambda>i. (?id i, ?id (?R i))) ` {i. i < length ?G \<and> ?R i \<noteq> i}" by (auto simp: moves_def)
  have "distinct (map ?id (filter (\<lambda>i. ?R i \<noteq> i) [0..<length ?G]))" using group_facts(1) by (auto simp: distinct_map intro!: inj_onI)
  then have dist: "distinct (map fst moves)"
    unfolding moves_def by (simp add: distinct_map comp_def inj_on_def split_beta) (metis prod.inject)
  have src: "?id i \<in> fst ` set moves \<longleftrightarrow> ?R i \<noteq> i" if "i < length ?G" for i using group_facts(1) that by (auto simp: set image_image)
  have target: "plan_target moves (?id i) = ?id (?R i)" if "i < length ?G" for i
  proof (cases "?R i = i")
    case True
    then show ?thesis using src [OF that] by (auto simp: plan_target_def map_of_eq_None_iff [symmetric])
  next
    case False
    then have "map_of moves (?id i) = Some (?id (?R i))" using dist that set by (intro map_of_is_SomeI) auto
    then show ?thesis by (simp add: plan_target_def)
  qed
  have "a \<noteq> b \<and> b \<notin> fst ` set moves \<and> \<not> has_name cs a \<and> (a, b) \<in> (close_clusters cs)\<^sup>*" if "(a, b) \<in> set moves" for a b
  proof -
    from that obtain i where i: "i < length ?G" "?R i \<noteq> i" "a = ?id i" "b = ?id (?R i)" by (auto simp: set)
    then show ?thesis using r [OF i(1)] src [of "?R i"] group_facts(1,2) chained_groups by auto
  qed
  moreover have "plan_target moves a = plan_target moves b \<or> has_name cs (plan_target moves a) \<and> has_name cs (plan_target moves b)"
    if "(a, b) \<in> close_clusters cs" for a b
    using that by (cases rule: close_clusters_indices) (use sep r target group_facts(2) in metis)
  ultimately show ?thesis using m dist by blast
qed

section \<open>Witnesses\<close>

text \<open>Two unnamed clusters and a named one with nearly the same face, and a face far from them.\<close>

definition flat :: "nat \<Rightarrow> bytes" where
  "flat n = replicate 256 (char_of n)"

definition demo_faces :: "candidate list" where
  "demo_faces = [\<lparr>fc_cluster = 3, fc_descriptor = flat 10, fc_label = None\<rparr>, \<lparr>fc_cluster = 5, fc_descriptor = flat 20, fc_label = Some (lit ''Ann'')\<rparr>,
     \<lparr>fc_cluster = 4, fc_descriptor = flat 200, fc_label = None\<rparr>]"

lemma flat_distance: "m < 256 \<Longrightarrow> n < 256 \<Longrightarrow> descriptor_distance (flat m) (flat n) = Some (if m \<le> n then n - m else m - n)"
  by (simp add: descriptor_distance_def flat_def DESCRIPTOR_LEN_def zip_replicate sum_list_replicate abs_diff_def of_char_of)

theorem cluster_merge_plan_correct_witness:
  "\<exists>moves. cluster_merge_plan demo_faces = Some moves \<and> plan_target moves 3 = 5"
proof -
  from cluster_merge_plan_correct [of demo_faces] obtain moves where m: "cluster_merge_plan demo_faces = Some moves"
    and a: "\<forall>(a, b) \<in> set moves. a \<noteq> b \<and> b \<notin> fst ` set moves \<and> \<not> has_name demo_faces a \<and> (a, b) \<in> (close_clusters demo_faces)\<^sup>*"
    and c: "\<forall>(a, b) \<in> close_clusters demo_faces. plan_target moves a = plan_target moves b
      \<or> has_name demo_faces (plan_target moves a) \<and> has_name demo_faces (plan_target moves b)" by auto
  have "(3, 5) \<in> close_clusters demo_faces"
    by (simp add: close_clusters_def demo_faces_def flat_distance FACE_CLUSTER_MERGE_THRESHOLD_def)
  then have e: "plan_target moves 3 = plan_target moves 5 \<or> has_name demo_faces (plan_target moves 3) \<and> has_name demo_faces (plan_target moves 5)" using c by auto
  have n: "has_name demo_faces x \<longleftrightarrow> x = 5" for x by (auto simp: has_name_def demo_faces_def)
  have "map_of moves 5 = None" using a n by (auto simp: map_of_eq_None_iff)
  then have "plan_target moves 5 = 5" by (simp add: plan_target_def)
  then have "plan_target moves 3 = 5" using e n by auto
  then show ?thesis using m by blast
qed

end
