(* ===== verification/Spec2Isabelle.thy ===== *)
theory Spec2Isabelle
  imports Ranges Names Session Drive_Results Uploads_Results Downloads_Results Share_Guesses Maintenance_Results Accounts Config Backups Webp Face_Matching
begin

text \<open>
  \<^bold>\<open>My Drive\<close> is a self-hosted file service: an axum server over a PostgreSQL database and
  a volume of object files, with a worker that makes previews and groups faces. This library
  models the server in \<open>src/src\<close>, the pure parts of the worker, and the part of the schema
  in \<open>src/migrations\<close> that the handlers rely on.

  \<^bold>\<open>How the program is modelled.\<close> The database is the record \<open>db\<close> of theory
  \<open>Database\<close>, one list of rows per table. A handler is a function from its request, the
  clock, the random draws and the database to the database and a result; a statement that
  violates a constraint is an error value; a transaction that fails leaves the database as it
  was. Uploads, downloads, shares and maintenance work on a \<open>store\<close>: the database together
  with the volume (staging files, shard directories, object files). The early returns on
  requests, rows and constraints are branches of the model, and a panic is a value
  (\<open>Panicked\<close>, or \<open>None\<close> where the function has no other error). Failures of the system
  calls are modelled where a theorem is about them: appending a chunk (\<open>patch_upload\<close>: open,
  seek, partial write, sync, truncation, database update) and publishing a derivative
  (\<open>publish_derivative\<close>) take every outcome from an environment argument; see the
  simplifications for the other calls. Requests of several clients are sequences of steps; a
  handler that commits several transactions is several steps where the theorems speak of a
  crash between them, and the two handlers that compare a password between a check and its
  record (\<open>login\<close>, \<open>unlock_share\<close>) are split into these phases, which run in any
  interleaving with those of other requests.

  \<^bold>\<open>Theories, in the order in which they build on each other.\<close>
  \<^item> \<open>Prelude\<close>: results and their sequencing, text and bytes, parsing of integers, tables of
    rows. \<open>Systems\<close>: the interfaces (locales) of step systems: invariants, refinement,
    properties that no step undoes; the components interpret them on their own steps.
  \<^item> \<open>Ranges\<close> (\<open>transfers/range.rs\<close>), \<open>Media_Types\<close> and \<open>Names\<close> (signatures,
    encodings, names and paging of \<open>transfers.rs\<close>, \<open>drive.rs\<close>, \<open>google_drive.rs\<close>,
    \<open>media_indexer.rs\<close>): bounds of ranges, agreement of the two signature checks, safe
    names.
  \<^item> \<open>Webp\<close> and \<open>Face_Matching\<close> (\<open>media_indexer.rs\<close>): a preview that is published
    has nothing but pixels; a face joins the nearest cluster, and the merge plan of clusters
    is found, joins only what is close and never mixes names.
  \<^item> \<open>Database\<close>, \<open>Entry_Tree\<close>, \<open>Deletions\<close>: tables, constraints, triggers,
    delete rules, and the tree of entries with its recursive queries.
  \<^item> \<open>Limiter\<close>, \<open>Credentials\<close>, \<open>Devices\<close>, \<open>Session\<close> (\<open>auth/session.rs\<close>,
    \<open>auth.rs\<close>, \<open>devices.rs\<close>): the login limiter refines a history of failures,
    sessions and device credentials authenticate only while they are live, revocation is
    final, the cookies of a login work, guesses are limited by the failures recorded and the
    requests in flight, and what a typed user code is taken for.
  \<^item> \<open>Drive\<close>, \<open>Drive_Correct\<close>, \<open>Drive_Results\<close> (\<open>drive.rs\<close>): all handlers on
    entries; the tree invariant, isolation of accounts, listing, trash and restore, and the
    agreement of the recursive queries with reachability along parents.
  \<^item> \<open>Utf8\<close>, \<open>Storage\<close>, \<open>Previews\<close> (\<open>storage\<close>): keys and paths, promotion,
    removal, free space, mounts, derivatives.
  \<^item> \<open>Uploads\<close>, \<open>Uploads_Correct\<close>, \<open>Uploads_Invariant\<close>, \<open>Uploads_Results\<close>
    (\<open>transfers.rs\<close>): resumable uploads refine an append-only log, finalization publishes
    the bytes that were sent and can be resumed, quotas hold.
  \<^item> \<open>Backups\<close> (the content routes of \<open>devices.rs\<close>): what linking of known content makes
    of the database, that a check tells the outcome of a link, that creating a path twice
    creates it once.
  \<^item> \<open>Downloads\<close>, \<open>Downloads_Results\<close> (\<open>transfers.rs\<close>): downloads, ranges,
    conditional requests, previews; a download serves what the headers of the request ask for,
    and what was uploaded is what is served.
  \<^item> \<open>Shares\<close>, \<open>Shares_Correct\<close>, \<open>Shares_Results\<close>, \<open>Share_Guesses\<close>
    (\<open>shares.rs\<close>): links reach only what they share, limits and passwords hold, revocation
    is final, guesses of a password are limited.
  \<^item> \<open>Maintenance\<close>, \<open>Maintenance_Correct\<close>, \<open>Maintenance_Results\<close>
    (\<open>maintenance.rs\<close>): passes and permanent deletion keep the invariant of the store and
    lose nothing but trash.
  \<^item> \<open>Developer\<close>, \<open>Developer_Results\<close> (\<open>developer.rs\<close>): scoped keys, the metering
    middleware, logs and statistics; a key reaches only the routes of its scopes, a refused
    request changes only its counter, its rate is limited, a revoked key stays refused.
  \<^item> \<open>Accounts\<close> (\<open>admin_accounts.rs\<close>): owners manage only their own members, a disabled
    account is locked out everywhere, a new account can log in with its temporary password.
  \<^item> \<open>Config\<close> (\<open>config.rs\<close>): every variable with its checks, and the parsers of the
    standard library that they use; an accepted configuration is well formed.

  \<^bold>\<open>Parameters.\<close> Code outside the repository is an argument: hashing, base64, Argon2 and
  case mapping (\<open>externals\<close>), dates of HTTP headers (\<open>http_dates\<close>), the document
  converter, the text form of identifiers (\<open>uuid_crate\<close>), the URL parser
  (\<open>config_crates\<close>), the collation of PostgreSQL, and the handlers behind the middleware
  of API keys. What a theorem needs of them is a hypothesis by name, which a witness discharges
  for a concrete instance. The date crate is assumed to format and parse the creation time of
  the version that is served, no other.

  \<^bold>\<open>Bounds.\<close> Recursive queries run as many iterations as the table has rows; theory
  \<open>Entry_Tree\<close> shows that further iterations add nothing on a table without cycles, and
  \<open>tree_queries_reference\<close> that the results are those of the reachability relations. The
  loop that empties the trash ends by a measure on the rows that are left. The search for the
  root of a tree in the merge plan may not end in general, so that its value is an option;
  \<open>cluster_merge_plan_correct\<close> shows that the plan is always found. Numbers are kept at
  their width where the source can overflow (ranges, quotas, counters, tokens).

  \<^bold>\<open>Simplifications.\<close> The column \<open>buried\<close> of \<open>entry_index\<close>, which triggers keep,
  is derived from the tree. A maintenance pass reads the clock once. Audit events are kept
  without their JSON details. Floating-point settings are rational numbers. A query with
  \<open>LIMIT 1\<close> and no order takes the first row. Locks are not modelled: a transaction is one
  step. A read or a commit that the database fails for reasons of its own (a lost connection)
  is not a branch. Creating and removing a staging file, promotion, opening and removing an
  object fail in the model for a missing mount, an unsafe key, an obstacle, a missing or an
  existing file, but not because of other errors of the disk (\<open>create_staging_file\<close>,
  \<open>remove_staging_file\<close>, \<open>promote_staging_file\<close>, \<open>open_object\<close>,
  \<open>remove_object\<close>), so that a maintenance pass on a mounted volume never meets the branch
  for a cleanup that fails. \<open>insert_object\<close> leaves out the table's patterns for keys and
  checksums, which the keys of \<open>storage_key\<close> and lower-case digests have. In the steps of
  \<open>Shares_Correct\<close> an unlocking is one step; \<open>Share_Guesses\<close> has its phases.

  \<^bold>\<open>Not modelled.\<close> The photo library (\<open>library.rs\<close>), people (\<open>faces.rs\<close>), the queue
  of the indexer with its calls of image and video tools (\<open>media_indexer.rs\<close>) and its
  administration (\<open>media_admin.rs\<close>): they read and write tables of media metadata, faces
  and job states, of which \<open>Database\<close> has only the columns that the other handlers use. The
  numeric core of \<open>face_indexer.rs\<close> works on single-precision numbers and a detector that
  the source only calls. The importer of Google Drive (\<open>google_drive.rs\<close>) is a client of a
  remote service; its naming, classification and pacing functions are in \<open>Names\<close>. Routing,
  process start and the connection pool are glue.
\<close>

end
